(* ===== verification/Prelude.thy ===== *)
theory Prelude
  imports Main "HOL-Library.AList" "HOL-Library.Char_ord" "HOL-Library.List_Lexorder"
    "HOL-Library.Multiset" "HOL-Library.Product_Lexorder"
begin

text \<open>
  Shared vocabulary of the development: JSON values as the stores read them, Python's insertion
  ordered dictionaries, the part of \<open>str\<close> the program uses, stable sorting by a key, and the
  generic invariant argument for step relations.

  Python strings are \<open>string\<close>s: a \<open>char\<close> stands for a code point below 256. Every test the program
  makes on text is about ASCII characters, Latin-1 white space or equality, so the model is exact on
  Latin-1 text.
\<close>

named_theorems dict_simps \<open>lookup and key facts of insertion ordered dictionaries\<close>
named_theorems str_simps \<open>facts of the Python string operations\<close>
named_theorems inv_intros \<open>preservation facts of component invariants\<close>

section \<open>JSON values\<close>

datatype json =
    JNull
  | JBool bool
  | JInt int
  | JFloat int
  | JStr string
  | JArr "json list"
  | JObj "(string \<times> json) list"

text \<open>
  A floating-point number is known by a tag: the modelled code recognises floats, compares them for equality and
  converts them, and computes with none. An object is the association list of its keys, first binding first.
\<close>

fun json_str :: "json \<Rightarrow> string option" where
  "json_str (JStr s) = Some s"
| "json_str _ = None"

section \<open>Insertion ordered dictionaries\<close>

text \<open>
  A Python \<open>dict\<close> is an association list with distinct keys in insertion order. Assigning to a
  present key keeps its place, assigning to a new key appends, \<open>pop\<close> and \<open>del\<close> remove the entry.
\<close>

type_synonym ('k, 'v) dict = "('k \<times> 'v) list"

definition dict_get :: "('k, 'v) dict \<Rightarrow> 'k \<Rightarrow> 'v option" where
  "dict_get d k = map_of d k"

definition dict_set :: "'k \<Rightarrow> 'v \<Rightarrow> ('k, 'v) dict \<Rightarrow> ('k, 'v) dict" where
  "dict_set k v d = AList.update k v d"

definition dict_del :: "'k \<Rightarrow> ('k, 'v) dict \<Rightarrow> ('k, 'v) dict" where
  "dict_del k d = AList.delete k d"

definition dict_keys :: "('k, 'v) dict \<Rightarrow> 'k list" where
  "dict_keys d = map fst d"

definition dict_values :: "('k, 'v) dict \<Rightarrow> 'v list" where
  "dict_values d = map snd d"

definition dict_ok :: "('k, 'v) dict \<Rightarrow> bool" where
  "dict_ok d \<longleftrightarrow> distinct (map fst d)"

fun dict_set_all :: "('k, 'v) dict \<Rightarrow> ('k, 'v) dict \<Rightarrow> ('k, 'v) dict" where
  "dict_set_all [] d = d"
| "dict_set_all ((k, v) # kvs) d = dict_set_all kvs (dict_set k v d)"

text \<open>The contract the clients of a dictionary rely on.\<close>

locale py_dict =
  fixes get :: "'m \<Rightarrow> 'k \<Rightarrow> 'v option"
    and put :: "'k \<Rightarrow> 'v \<Rightarrow> 'm \<Rightarrow> 'm"
    and del :: "'k \<Rightarrow> 'm \<Rightarrow> 'm"
    and ok :: "'m \<Rightarrow> bool"
  assumes get_put: "get (put k v m) k' = (if k' = k then Some v else get m k')"
    and get_del: "get (del k m) k' = (if k' = k then None else get m k')"
    and ok_put: "ok m \<Longrightarrow> ok (put k v m)"
    and ok_del: "ok m \<Longrightarrow> ok (del k m)"
begin

lemma get_put_same: "get (put k v m) k = Some v"
  by (simp add: get_put)

lemma get_restore: "get m k = Some v \<Longrightarrow> get (put k v (put k w m)) = get m"
  by (rule ext) (simp add: get_put)

lemma get_rollback: "get m k = None \<Longrightarrow> get (del k (put k w m)) = get m"
  by (rule ext) (simp add: get_put get_del)

lemma get_fold_put:
  "get (fold (\<lambda>k. put k (f k)) ks m) k' = (if k' \<in> set ks then Some (f k') else get m k')"
  by (induction ks arbitrary: m) (auto simp: get_put)

lemma get_fold_del: "get (fold del ks m) k' = (if k' \<in> set ks then None else get m k')"
  by (induction ks arbitrary: m) (auto simp: get_del)

lemma ok_fold_del: "ok m \<Longrightarrow> ok (fold del ks m)"
  by (induction ks arbitrary: m) (auto intro: ok_del)

end

lemma dict_get_set [dict_simps, simp]:
  "dict_get (dict_set k v d) k' = (if k' = k then Some v else dict_get d k')"
  by (simp add: dict_get_def dict_set_def update_conv')

lemma dict_get_del [dict_simps, simp]:
  "dict_get (dict_del k d) k' = (if k' = k then None else dict_get d k')"
  by (simp add: dict_get_def dict_del_def delete_conv')

lemma dict_ok_set [inv_intros]: "dict_ok d \<Longrightarrow> dict_ok (dict_set k v d)"
  by (simp add: dict_ok_def dict_set_def distinct_update)

lemma dict_ok_del [inv_intros]: "dict_ok d \<Longrightarrow> dict_ok (dict_del k d)"
  by (simp add: dict_ok_def dict_del_def distinct_delete)

interpretation adict: py_dict dict_get dict_set dict_del dict_ok
  by unfold_locales (auto intro: dict_ok_set dict_ok_del)

lemma dict_get_SomeD: "dict_get d k = Some v \<Longrightarrow> (k, v) \<in> set d"
  by (simp add: dict_get_def map_of_SomeD)

lemma dict_get_iff: "dict_ok d \<Longrightarrow> dict_get d k = Some v \<longleftrightarrow> (k, v) \<in> set d"
  by (simp add: dict_get_def dict_ok_def)

lemma dict_get_None_iff: "dict_get d k = None \<longleftrightarrow> k \<notin> set (dict_keys d)"
  by (simp add: dict_get_def dict_keys_def map_of_eq_None_iff)

lemma dict_get_Nil [simp]: "dict_get [] k = None"
  by (simp add: dict_get_def)

lemma dict_get_Cons [simp]:
  "dict_get ((k', v) # d) k = (if k = k' then Some v else dict_get d k)"
  by (simp add: dict_get_def)

lemma dict_set_new: "dict_get d k = None \<Longrightarrow> dict_set k v d = d @ [(k, v)]"
  by (induction d) (auto simp: dict_set_def dict_get_def split: if_splits)

lemma dict_keys_set_old:
  "dict_get d k \<noteq> None \<Longrightarrow> dict_keys (dict_set k v d) = dict_keys d"
  by (induction d) (auto simp: dict_set_def dict_get_def dict_keys_def split: if_splits)

lemma dict_set_idem: "dict_get d k = Some v \<Longrightarrow> dict_set k v d = d"
  by (induction d) (auto simp: dict_set_def dict_get_def split: if_splits)

lemma dict_set_set_old: "dict_get d k \<noteq> None \<Longrightarrow> dict_set k v (dict_set k w d) = dict_set k v d"
  by (induction d) (auto simp: dict_set_def dict_get_def split: if_splits)

lemma dict_del_set_new: "dict_get d k = None \<Longrightarrow> dict_del k (dict_set k v d) = d"
  by (induction d) (auto simp: dict_set_def dict_get_def dict_del_def split: if_splits)

lemma dict_set_in: "x \<in> set (dict_set k v d) \<Longrightarrow> x = (k, v) \<or> x \<in> set d"
  by (induction d) (auto simp: dict_set_def split: if_splits)

lemma dict_values_set_subset: "set (dict_values (dict_set k v d)) \<subseteq> insert v (set (dict_values d))"
  by (induction d) (auto simp: dict_set_def dict_values_def split: if_splits)

lemma dict_del_eq: "dict_del k d = filter (\<lambda>x. fst x \<noteq> k) d"
  by (auto simp: dict_del_def AList.delete_eq case_prod_unfold intro: filter_cong)

lemma dict_keys_del: "dict_keys (dict_del k d) = filter (\<lambda>x. x \<noteq> k) (dict_keys d)"
  by (simp add: dict_del_eq dict_keys_def filter_map comp_def)

lemma dict_keys_set: "set (dict_keys (dict_set k v d)) = insert k (set (dict_keys d))"
  by (induction d) (auto simp: dict_set_def dict_keys_def split: if_splits)

lemma dict_get_append: "dict_get (xs @ ys) k = (case dict_get xs k of Some v \<Rightarrow> Some v | None \<Rightarrow> dict_get ys k)"
  unfolding dict_get_def by (simp add: map_add_def)

lemma dict_get_set_all_rev:
  "dict_get (dict_set_all kvs d) k = (case dict_get (rev kvs) k of Some v \<Rightarrow> Some v | None \<Rightarrow> dict_get d k)"
  by (induction kvs d rule: dict_set_all.induct) (auto simp: dict_get_append split: option.splits)

lemma dict_ok_filter [inv_intros]: "dict_ok d \<Longrightarrow> dict_ok (filter P d)"
  by (induction d) (auto simp: dict_ok_def)

lemma dict_get_filter:
  "dict_ok d \<Longrightarrow>
   dict_get (filter P d) k =
     (case dict_get d k of None \<Rightarrow> None | Some v \<Rightarrow> if P (k, v) then Some v else None)"
  by (induction d) (auto simp: dict_ok_def dict_get_def map_of_eq_None_iff image_iff split: option.splits)

section \<open>Step relations and invariants\<close>

text \<open>
  A machine with an initial-state predicate and a step relation; an invariant that holds initially
  and is kept by every step holds in every reachable state.
\<close>

inductive reachable :: "('s \<Rightarrow> bool) \<Rightarrow> ('s \<Rightarrow> 's \<Rightarrow> bool) \<Rightarrow> 's \<Rightarrow> bool"
  for init step where
  reach_init: "init s \<Longrightarrow> reachable init step s"
| reach_step: "reachable init step s \<Longrightarrow> step s t \<Longrightarrow> reachable init step t"

locale machine_invariant =
  fixes init :: "'s \<Rightarrow> bool"
    and step :: "'s \<Rightarrow> 's \<Rightarrow> bool"
    and inv :: "'s \<Rightarrow> bool"
  assumes inv_init: "init s \<Longrightarrow> inv s"
    and inv_step: "inv s \<Longrightarrow> step s t \<Longrightarrow> inv t"
begin

lemma inv_reachable: "reachable init step s \<Longrightarrow> inv s"
  by (induction rule: reachable.induct) (auto intro: inv_init inv_step)

end

section \<open>Loops that may be aborted\<close>

text \<open>
  A \<open>for\<close> loop whose body may raise: the first exception ends it, with the state reached so far.
\<close>

fun run_all :: "('x \<Rightarrow> 'w \<Rightarrow> 'e option \<times> 'w) \<Rightarrow> 'x list \<Rightarrow> 'w \<Rightarrow> 'e option \<times> 'w" where
  "run_all step [] w = (None, w)"
| "run_all step (x # xs) w =
     (case step x w of (Some e, w') \<Rightarrow> (Some e, w') | (None, w') \<Rightarrow> run_all step xs w')"

text \<open>The body's contract: what every iteration keeps, and how it moves the state.\<close>

locale loop_contract =
  fixes step :: "'x \<Rightarrow> 'w \<Rightarrow> 'e option \<times> 'w"
    and inv :: "'w \<Rightarrow> bool"
    and cost :: "'w \<Rightarrow> nat"
  assumes step_inv: "step x w = (r, w') \<Longrightarrow> inv w \<Longrightarrow> inv w'"
    and step_cost: "step x w = (r, w') \<Longrightarrow> inv w \<Longrightarrow> cost w' \<le> Suc (cost w)"
begin

lemma loop_inv: "run_all step xs w = (r, w') \<Longrightarrow> inv w \<Longrightarrow> inv w'"
  by (induction xs arbitrary: w) (auto split: prod.splits option.splits dest: step_inv)

lemma loop_cost: "run_all step xs w = (r, w') \<Longrightarrow> inv w \<Longrightarrow> cost w' \<le> length xs + cost w"
proof (induction xs arbitrary: w)
  case (Cons x xs)
  obtain e w1 where w1: "step x w = (e, w1)" by fastforce
  note c = step_cost [OF this Cons.prems(2)] and i = step_inv [OF this Cons.prems(2)]
  show ?case
  proof (cases e)
    case None
    then have "run_all step xs w1 = (r, w')" using Cons.prems(1) w1 by simp
    from Cons.IH [OF this i] c show ?thesis by simp
  next
    case (Some x)
    then show ?thesis using Cons.prems(1) w1 c by simp
  qed
qed simp

end

lemma run_all_append:
  "run_all step (xs @ ys) w =
     (case run_all step xs w of (Some x, w') \<Rightarrow> (Some x, w') | (None, w') \<Rightarrow> run_all step ys w')"
  by (induction xs arbitrary: w) (auto split: prod.split option.split)

lemma run_all_frame:
  assumes "run_all step xs w = (r, w')"
    and "\<And>x w r w'. x \<in> set xs \<Longrightarrow> step x w = (r, w') \<Longrightarrow> g w' = g w"
  shows "g w' = g w"
  using assms
proof (induction xs arbitrary: w)
  case (Cons x xs)
  obtain e w1 where s: "step x w = (e, w1)" by fastforce
  then have "g w1 = g w" by (rule Cons.prems(2) [of x, simplified])
  moreover have "g w' = g w1"
  proof (cases e)
    case None
    with Cons.prems(1) s have "run_all step xs w1 = (r, w')" by simp
    then show ?thesis by (rule Cons.IH) (metis Cons.prems(2) list.set_intros(2))
  qed (use Cons.prems(1) s in simp)
  ultimately show ?case by simp
qed simp

lemma run_all_inv:
  assumes "run_all step xs w = (r, w')" "P w"
    and "\<And>x w r w'. x \<in> set xs \<Longrightarrow> step x w = (r, w') \<Longrightarrow> P w \<Longrightarrow> P w'"
  shows "P w'"
  using assms
proof (induction xs arbitrary: w)
  case (Cons x xs)
  obtain e w1 where s: "step x w = (e, w1)" by fastforce
  from s Cons.prems(2) have p: "P w1" by (rule Cons.prems(3) [of x, simplified])
  show ?case
  proof (cases e)
    case None
    with Cons.prems(1) s have "run_all step xs w1 = (r, w')" by simp
    from this p show ?thesis by (rule Cons.IH) (metis Cons.prems(3) list.set_intros(2))
  qed (use Cons.prems(1) s p in simp)
qed simp

text \<open>A loop that ran to its end: the last word on an element is its own step's, when the other steps leave it alone.\<close>

lemma run_all_last_word:
  assumes "run_all step xs w = (None, w')" "x \<in> set xs" "distinct xs"
    and "\<And>y w r w'. y \<in> set xs \<Longrightarrow> y \<noteq> x \<Longrightarrow> step y w = (r, w') \<Longrightarrow> g w' = g w"
  shows "\<exists>w1 w2. step x w1 = (None, w2) \<and> g w1 = g w \<and> g w' = g w2"
proof -
  obtain ys zs where xs: "xs = ys @ x # zs" using assms(2) by (meson split_list)
  with assms(3) have ni: "x \<notin> set ys" "x \<notin> set zs" by auto
  obtain r1 w1 where r1: "run_all step ys w = (r1, w1)" by fastforce
  obtain r2 w2 where r2: "step x w1 = (r2, w2)" by fastforce
  have n: "r1 = None" "r2 = None" "run_all step zs w2 = (None, w')"
    using assms(1) r1 r2 by (auto simp: xs run_all_append split: option.splits)
  have "g w1 = g w" using r1 by (rule run_all_frame) (use assms(4) xs ni in auto)
  moreover have "g w' = g w2" using n(3) by (rule run_all_frame) (use assms(4) xs ni in auto)
  ultimately show ?thesis using r2 n(2) by blast
qed

lemma run_all_each:
  assumes "run_all step xs w = (None, w')"
    and "\<And>x w w'. x \<in> set xs \<Longrightarrow> step x w = (None, w') \<Longrightarrow> Q x w'"
    and "\<And>x y w r w'. step y w = (r, w') \<Longrightarrow> Q x w \<Longrightarrow> Q x w'"
  shows "\<forall>x \<in> set xs. Q x w'"
  using assms
proof (induction xs arbitrary: w)
  case (Cons x xs)
  obtain w1 where s: "step x w = (None, w1)" "run_all step xs w1 = (None, w')"
    using Cons.prems(1) by (auto split: prod.splits option.splits)
  have "Q x w1" using Cons.prems(2) s(1) by (meson list.set_intros(1))
  then have "Q x w'" by (rule run_all_inv [OF s(2)]) (rule Cons.prems(3))
  moreover have "\<forall>y \<in> set xs. Q y w'"
    by (rule Cons.IH [OF s(2)]) (meson Cons.prems(2) list.set_intros(2), rule Cons.prems(3))
  ultimately show ?case by simp
qed simp

section \<open>Sorting by a key\<close>

text \<open>
  \<open>list.sort(key=f)\<close> is stable: HOL's \<open>sort_key\<close>.
\<close>

lemma set_sort_key [simp]: "set (sort_key f xs) = set xs"
  by simp

lemma sort_key_stable_filter: "filter (\<lambda>x. f x = k) (sort_key f xs) = filter (\<lambda>x. f x = k) xs"
  by (rule sort_key_stable)

section \<open>Small list facts\<close>

lemma filter_find_None: "find P xs = None \<longleftrightarrow> (\<forall>x \<in> set xs. \<not> P x)"
  by (induction xs) auto

lemma find_SomeD: "find P xs = Some x \<Longrightarrow> x \<in> set xs \<and> P x"
  by (induction xs) (auto split: if_splits)

end
