(* ===== verification/Job_Types.thy ===== *)
theory Job_Types
  imports Prelude
begin

text \<open>
  The job domain model of \<open>archon_search/types.py\<close> and \<open>archon_search/jobs/model.py\<close>: statuses, the
  job classes with their own fields, the base job record, and the classification of a job as a
  possible writer of its collection (\<open>jobs/store.py\<close>, \<open>may_write_collection\<close>).

  A job is one record \<open>job\<close>; its Python class is the constructor of the field \<open>details\<close>, which carries
  the subclass's own fields. Results, progress dictionaries and other values the store only passes
  through are \<open>json\<close>.
\<close>

section \<open>Data\<close>

datatype job_status =
    PENDING | QUEUED | RUNNING | DONE | FAILED | FAILED_EXPIRED | CANCELLED | CANCELLING

definition all_statuses :: "job_status list" where
  "all_statuses =
     [PENDING, QUEUED, RUNNING, DONE, FAILED, FAILED_EXPIRED, CANCELLED, CANCELLING]"

definition status_value :: "job_status \<Rightarrow> string" where
  "status_value s =
     (case s of PENDING \<Rightarrow> ''PENDING'' | QUEUED \<Rightarrow> ''QUEUED'' | RUNNING \<Rightarrow> ''RUNNING''
      | DONE \<Rightarrow> ''DONE'' | FAILED \<Rightarrow> ''FAILED'' | FAILED_EXPIRED \<Rightarrow> ''FAILED_EXPIRED''
      | CANCELLED \<Rightarrow> ''CANCELLED'' | CANCELLING \<Rightarrow> ''CANCELLING'')"

text \<open>\<open>JobStatus(value)\<close>: \<open>None\<close> is the \<open>ValueError\<close> of an unknown value.\<close>

definition status_of_value :: "string \<Rightarrow> job_status option" where
  "status_of_value v = find (\<lambda>s. status_value s = v) all_statuses"

record ingest_options =
  submitted_path :: string
  ingested_by :: string
  chunk_ttl_seconds :: "int option"
  chunk_scopes :: "string list option"

datatype migration_kind = IN_PLACE | REWRITE | EXPORT_REBUILD

definition migration_kind_value :: "migration_kind \<Rightarrow> string" where
  "migration_kind_value k =
     (case k of IN_PLACE \<Rightarrow> ''in_place'' | REWRITE \<Rightarrow> ''rewrite'' | EXPORT_REBUILD \<Rightarrow> ''export_rebuild'')"

datatype job_kind = sync | metadata_reindex

definition job_kind_value :: "job_kind \<Rightarrow> string" where
  "job_kind_value k = (case k of sync \<Rightarrow> ''sync'' | metadata_reindex \<Rightarrow> ''metadata_reindex'')"

record export_fields =
  output_path :: string
  tmp_path :: string

record import_fields =
  archive_path :: string
  force_overwrite :: bool
  ignore_schema_version :: bool
  on_error :: string
  lines_consumed :: int
  collection_claimed :: bool
  collection_claim_revoked :: bool

record migration_fields =
  mig_kind :: migration_kind
  migrations_applied :: "string list"
  backup_confirmed :: "bool option"

datatype job_details =
    IngestJob
  | ReindexJob "string option"
  | DeleteJob "string list"
  | ExportJob export_fields
  | ImportJob import_fields
  | MigrationJob migration_fields
  | CommunityRebuildJob
  | DescriptionJob
  | SyncJob job_kind
  | MetadataReindexJob job_kind bool

record job =
  job_id :: string
  status :: job_status
  created_at :: string
  updated_at :: string
  result :: json
  error :: "string option"
  namespace :: string
  progress :: json
  source :: string
  source_path :: string
  collection :: string
  retry_count :: int
  ingest_options :: "ingest_options option"
  cancel_requested :: bool
  cancelled_before_start :: bool
  details :: job_details

abbreviation default_namespace :: string where
  "default_namespace \<equiv> ''default''"

definition valid_ingest_sources :: "string list" where
  "valid_ingest_sources = [''user'', ''backup'', ''maintenance'']"

text \<open>\<open>IngestJob.__post_init__\<close>: a job with another source cannot be constructed.\<close>

definition post_init_ok :: "job \<Rightarrow> bool" where
  "post_init_ok j \<longleftrightarrow> source j \<in> set valid_ingest_sources"

definition is_base_ingest :: "job \<Rightarrow> bool" where
  "is_base_ingest j \<longleftrightarrow> details j = IngestJob"

fun job_type :: "job_details \<Rightarrow> string" where
  "job_type (MigrationJob _) = ''migration''"
| "job_type (ExportJob _) = ''export''"
| "job_type (ImportJob _) = ''import''"
| "job_type (ReindexJob _) = ''reindex''"
| "job_type (DeleteJob _) = ''delete''"
| "job_type CommunityRebuildJob = ''community_rebuild''"
| "job_type (SyncJob _) = ''sync''"
| "job_type (MetadataReindexJob _ _) = ''metadata_reindex''"
| "job_type DescriptionJob = ''description''"
| "job_type IngestJob = ''ingest''"

section \<open>The wire form of a job\<close>

definition json_opt :: "('a \<Rightarrow> json) \<Rightarrow> 'a option \<Rightarrow> json" where
  "json_opt f x = (case x of None \<Rightarrow> JNull | Some v \<Rightarrow> f v)"

fun details_kind :: "job_details \<Rightarrow> string option" where
  "details_kind (MigrationJob m) = Some (migration_kind_value (mig_kind m))"
| "details_kind (SyncJob k) = Some (job_kind_value k)"
| "details_kind (MetadataReindexJob k _) = Some (job_kind_value k)"
| "details_kind _ = None"

definition job_to_dict :: "job \<Rightarrow> (string, json) dict" where
  "job_to_dict j =
    [(''job_id'', JStr (job_id j)),
     (''status'', JStr (status_value (status j))),
     (''created_at'', JStr (created_at j)),
     (''updated_at'', JStr (updated_at j)),
     (''result'', result j),
     (''error'', json_opt JStr (error j)),
     (''namespace'', JStr (namespace j)),
     (''progress'', progress j),
     (''source'', JStr (source j)),
     (''source_path'', JStr (source_path j)),
     (''collection'', JStr (collection j)),
     (''retry_count'', JInt (retry_count j)),
     (''output_path'', (case details j of ExportJob e \<Rightarrow> JStr (output_path e) | _ \<Rightarrow> JNull)),
     (''archive_path'', (case details j of ImportJob i \<Rightarrow> JStr (archive_path i) | _ \<Rightarrow> JNull)),
     (''kind'', json_opt JStr (details_kind (details j))),
     (''migrations_applied'',
        (case details j of MigrationJob m \<Rightarrow> JArr (map JStr (migrations_applied m)) | _ \<Rightarrow> JNull)),
     (''backup_confirmed'',
        (case details j of MigrationJob m \<Rightarrow> json_opt JBool (backup_confirmed m) | _ \<Rightarrow> JNull)),
     (''job_type'', JStr (job_type (details j)))]"

section \<open>Status classes and collection writers\<close>

definition terminal_statuses :: "job_status list" where
  "terminal_statuses = [DONE, FAILED, FAILED_EXPIRED, CANCELLED]"

definition crash_statuses :: "job_status list" where
  "crash_statuses = [RUNNING, CANCELLING]"

definition running_or_cancelling :: "job_status list" where
  "running_or_cancelling = [RUNNING, CANCELLING]"

definition retry_candidate_statuses :: "job_status list" where
  "retry_candidate_statuses = [FAILED, PENDING]"

definition ingest_family_job_types :: "string list" where
  "ingest_family_job_types = [''ingest'', ''sync'']"

definition not_started_on_load_job_types :: "string list" where
  "not_started_on_load_job_types = [''ingest'', ''reindex'']"

definition never_scheduled_on_load_job_types :: "string list" where
  "never_scheduled_on_load_job_types =
     [''community_rebuild'', ''metadata_reindex'', ''sync'', ''description'']"

fun collection_writing_job_statuses :: "job_details \<Rightarrow> job_status list option" where
  "collection_writing_job_statuses IngestJob = Some running_or_cancelling"
| "collection_writing_job_statuses (ReindexJob _) = Some (running_or_cancelling @ [PENDING])"
| "collection_writing_job_statuses (ImportJob _) = Some running_or_cancelling"
| "collection_writing_job_statuses (MigrationJob _) = Some running_or_cancelling"
| "collection_writing_job_statuses (MetadataReindexJob _ _) = Some running_or_cancelling"
| "collection_writing_job_statuses CommunityRebuildJob = Some running_or_cancelling"
| "collection_writing_job_statuses _ = None"

fun never_blocking_job_kinds :: "job_details \<Rightarrow> bool" where
  "never_blocking_job_kinds (ExportJob _) = True"
| "never_blocking_job_kinds (DeleteJob _) = True"
| "never_blocking_job_kinds (SyncJob _) = True"
| "never_blocking_job_kinds DescriptionJob = True"
| "never_blocking_job_kinds _ = False"

fun is_dry_run :: "job_details \<Rightarrow> bool" where
  "is_dry_run (MetadataReindexJob _ dry_run) = dry_run"
| "is_dry_run _ = False"

definition may_write_collection :: "job \<Rightarrow> bool" where
  "may_write_collection j =
     (if never_blocking_job_kinds (details j) \<or> is_dry_run (details j) then False
      else case collection_writing_job_statuses (details j) of
             Some statuses \<Rightarrow> status j \<in> set statuses
           | None \<Rightarrow> status j \<notin> set terminal_statuses)"

section \<open>Facts\<close>

lemmas status_class_defs =
  terminal_statuses_def crash_statuses_def running_or_cancelling_def
  retry_candidate_statuses_def

lemma status_of_value_roundtrip [simp]: "status_of_value (status_value s) = Some s"
  by (cases s) (simp_all add: status_of_value_def status_value_def all_statuses_def)

lemma status_value_inject [simp]: "status_value s = status_value t \<longleftrightarrow> s = t"
  by (metis option.inject status_of_value_roundtrip)

lemma status_of_value_SomeD: "status_of_value v = Some s \<Longrightarrow> status_value s = v"
  by (auto simp: status_of_value_def dest: find_SomeD)

lemma in_all_statuses [simp]: "s \<in> set all_statuses"
  by (cases s) (simp_all add: all_statuses_def)

text \<open>Every job class is in exactly one of the two classification tables.\<close>

lemma job_kinds_classified:
  "never_blocking_job_kinds d \<longleftrightarrow> collection_writing_job_statuses d = None"
  by (cases d) simp_all

lemma may_write_not_terminal: "may_write_collection j \<Longrightarrow> status j \<notin> set terminal_statuses"
  by (cases "details j")
     (auto simp: may_write_collection_def status_class_defs split: if_splits)

lemma may_write_active:
  "may_write_collection j \<Longrightarrow> status j \<in> {RUNNING, CANCELLING, PENDING}"
  by (cases "details j")
     (auto simp: may_write_collection_def status_class_defs split: if_splits)

lemma job_to_dict_hides_internal_fields:
  "dict_get (job_to_dict j) ''ingest_options'' = None"
  "dict_get (job_to_dict j) ''cancel_requested'' = None"
  "dict_get (job_to_dict j) ''cancelled_before_start'' = None"
  by (simp_all add: job_to_dict_def)

end
