(* ===== verification/Job_Store.thy ===== *)
theory Job_Store
  imports Job_Types
begin

text \<open>
  \<open>archon_search/jobs/store.py\<close>: the persistent job store. The state is the in-memory dictionary
  (\<open>self._jobs\<close>), the jobs file on disk and the crash-loop latch. Every operation is a function of the
  state; a call of \<open>_write_atomic\<close> takes a \<open>write_attempt\<close>, which says what the clock read inside
  \<open>_evict_old\<close> and how the atomic write ended: it landed, it raised before the rename (the file is
  unchanged) or it raised after the rename (the file holds the new rows). Operations that may
  write twice (the corrective rewrite after a rolled-back persist) take two attempts.

  \<open>datetime.fromisoformat\<close> is the parameter \<open>fromiso\<close> (microseconds, \<open>None\<close> for text it refuses or for
  a naive time that cannot be compared with the cutoff); fresh ids and time stamps are arguments.
\<close>

section \<open>Rows of the jobs file\<close>

text \<open>
  A row is what \<open>dataclasses.asdict\<close> wrote for one job. \<open>None\<close> in a field with a default means the key
  is absent (an older row). \<open>row_details\<close> holds the keys the job's class adds to \<open>IngestJob\<close>, \<open>None\<close> when
  the row has none.
\<close>

record row =
  row_job_id :: string
  row_status :: string
  row_created_at :: string
  row_updated_at :: string
  row_result :: "json option"
  row_error :: "string option option"
  row_namespace :: "string option"
  row_progress :: "json option"
  row_source :: "string option"
  row_source_path :: "string option"
  row_collection :: "string option"
  row_retry_count :: "int option"
  row_ingest_options :: "json option"
  row_cancel_requested :: "json option"
  row_cancelled_before_start :: "json option"
  row_job_type :: "string option"
  row_details :: "job_details option"

datatype jobs_file = No_file | Corrupt_file | Rows "row list"

record job_store =
  jobs :: "(string, job) dict"
  jfile :: jobs_file
  crashed_ingest_on_load :: bool

datatype store_exc = KeyError string | TypeError | ValueError | OSError | BaseExc

definition is_exception :: "store_exc \<Rightarrow> bool" where
  "is_exception e \<longleftrightarrow> e \<noteq> BaseExc"

datatype write_outcome = Persisted | Raised_before store_exc | Raised_after store_exc

record write_attempt =
  at_time :: int
  outcome :: write_outcome

subsection \<open>Reading the checked fields of a row\<close>

fun json_strs :: "json list \<Rightarrow> string list option" where
  "json_strs [] = Some []"
| "json_strs (JStr s # xs) = map_option (Cons s) (json_strs xs)"
| "json_strs (_ # _) = None"

definition ingest_option_keys :: "string list" where
  "ingest_option_keys = [''submitted_path'', ''ingested_by'', ''chunk_ttl_seconds'', ''chunk_scopes'']"

definition scopes_from_json :: "json option \<Rightarrow> string list option option" where
  "scopes_from_json raw =
     (case raw of
        None \<Rightarrow> Some None
      | Some JNull \<Rightarrow> Some None
      | Some (JArr xs) \<Rightarrow> map_option Some (json_strs xs)
      | Some _ \<Rightarrow> None)"

definition ttl_from_json :: "json option \<Rightarrow> int option option" where
  "ttl_from_json raw =
     (case raw of
        None \<Rightarrow> Some None
      | Some JNull \<Rightarrow> Some None
      | Some (JInt n) \<Rightarrow> Some (Some n)
      | Some _ \<Rightarrow> None)"

text \<open>\<open>None\<close>: no options or unusable ones (the \<open>TypeError\<close> is caught and logged).\<close>

definition ingest_options_from_json :: "json option \<Rightarrow> ingest_options option" where
  "ingest_options_from_json raw =
     (case raw of
        Some (JObj kvs) \<Rightarrow>
          (if \<exists>k \<in> set (dict_keys kvs). k \<notin> set ingest_option_keys then None
           else case (scopes_from_json (dict_get kvs ''chunk_scopes''),
                      dict_get kvs ''submitted_path'', dict_get kvs ''ingested_by'',
                      ttl_from_json (dict_get kvs ''chunk_ttl_seconds'')) of
             (Some scopes, Some (JStr p), Some (JStr b), Some ttl) \<Rightarrow>
               Some \<lparr>submitted_path = p, ingested_by = b, chunk_ttl_seconds = ttl,
                     chunk_scopes = scopes\<rparr>
           | _ \<Rightarrow> None)
      | _ \<Rightarrow> None)"

definition flag_from_json :: "json option \<Rightarrow> bool" where
  "flag_from_json raw = (case raw of Some (JBool b) \<Rightarrow> b | _ \<Rightarrow> False)"

definition default_import :: import_fields where
  "default_import =
     \<lparr>archive_path = '''', force_overwrite = False, ignore_schema_version = False,
      on_error = ''fail'', lines_consumed = 0, collection_claimed = False,
      collection_claim_revoked = False\<rparr>"

text \<open>
  The class a row is loaded as: \<open>None\<close> is the \<open>TypeError\<close> of a key the class does not have, or the
  \<open>KeyError\<close> of a migration, sync or metadata-reindex row without its \<open>kind\<close>. A type the loader does not
  know is a plain ingest job.
\<close>

definition details_of_row :: "string \<Rightarrow> job_details option \<Rightarrow> job_details option" where
  "details_of_row t rd =
     (if t = ''export'' then
        (case rd of None \<Rightarrow> Some (ExportJob \<lparr>output_path = '''', tmp_path = ''''\<rparr>)
         | Some (ExportJob e) \<Rightarrow> Some (ExportJob e) | _ \<Rightarrow> None)
      else if t = ''import'' then
        (case rd of None \<Rightarrow> Some (ImportJob default_import)
         | Some (ImportJob i) \<Rightarrow> Some (ImportJob i) | _ \<Rightarrow> None)
      else if t = ''reindex'' then
        (case rd of None \<Rightarrow> Some (ReindexJob None)
         | Some (ReindexJob m) \<Rightarrow> Some (ReindexJob m) | _ \<Rightarrow> None)
      else if t = ''delete'' then
        (case rd of None \<Rightarrow> Some (DeleteJob [])
         | Some (DeleteJob ids) \<Rightarrow> Some (DeleteJob ids) | _ \<Rightarrow> None)
      else if t = ''migration'' then
        (case rd of Some (MigrationJob m) \<Rightarrow> Some (MigrationJob m) | _ \<Rightarrow> None)
      else if t = ''community_rebuild'' then
        (case rd of None \<Rightarrow> Some CommunityRebuildJob | _ \<Rightarrow> None)
      else if t = ''sync'' then
        (case rd of Some (SyncJob k) \<Rightarrow> Some (SyncJob k) | _ \<Rightarrow> None)
      else if t = ''metadata_reindex'' then
        (case rd of Some (MetadataReindexJob k dry) \<Rightarrow> Some (MetadataReindexJob k dry)
         | Some (SyncJob k) \<Rightarrow> Some (MetadataReindexJob k False) | _ \<Rightarrow> None)
      else if t = ''description'' then
        (case rd of None \<Rightarrow> Some DescriptionJob | _ \<Rightarrow> None)
      else (case rd of None \<Rightarrow> Some IngestJob | _ \<Rightarrow> None))"

definition row_type :: "row \<Rightarrow> string" where
  "row_type r = (case row_job_type r of None \<Rightarrow> ''ingest'' | Some t \<Rightarrow> t)"

definition job_of_row :: "row \<Rightarrow> job option" where
  "job_of_row r =
     (case (status_of_value (row_status r), details_of_row (row_type r) (row_details r)) of
        (Some st, Some d) \<Rightarrow>
          (let j = \<lparr>job_id = row_job_id r, status = st, created_at = row_created_at r,
              updated_at = row_updated_at r,
              result = (case row_result r of None \<Rightarrow> JNull | Some x \<Rightarrow> x),
              error = (case row_error r of None \<Rightarrow> None | Some x \<Rightarrow> x),
              namespace = (case row_namespace r of None \<Rightarrow> default_namespace | Some x \<Rightarrow> x),
              progress = (case row_progress r of None \<Rightarrow> JNull | Some x \<Rightarrow> x),
              source = (case row_source r of None \<Rightarrow> ''user'' | Some x \<Rightarrow> x),
              source_path = (case row_source_path r of None \<Rightarrow> '''' | Some x \<Rightarrow> x),
              collection = (case row_collection r of None \<Rightarrow> '''' | Some x \<Rightarrow> x),
              retry_count = (case row_retry_count r of None \<Rightarrow> 0 | Some x \<Rightarrow> x),
              ingest_options = ingest_options_from_json (row_ingest_options r),
              cancel_requested = flag_from_json (row_cancel_requested r),
              cancelled_before_start = flag_from_json (row_cancelled_before_start r),
              details = d\<rparr>
           in if post_init_ok j then Some j else None)
      | _ \<Rightarrow> None)"

subsection \<open>Writing a row\<close>

definition options_to_json :: "ingest_options \<Rightarrow> json" where
  "options_to_json o1 =
     JObj [(''submitted_path'', JStr (submitted_path o1)), (''ingested_by'', JStr (ingested_by o1)),
           (''chunk_ttl_seconds'', json_opt JInt (chunk_ttl_seconds o1)),
           (''chunk_scopes'', json_opt (\<lambda>xs. JArr (map JStr xs)) (chunk_scopes o1))]"

fun own_fields :: "job_details \<Rightarrow> job_details option" where
  "own_fields IngestJob = None"
| "own_fields CommunityRebuildJob = None"
| "own_fields DescriptionJob = None"
| "own_fields d = Some d"

definition row_of_job :: "job \<Rightarrow> row" where
  "row_of_job j =
     \<lparr>row_job_id = job_id j, row_status = status_value (status j), row_created_at = created_at j,
      row_updated_at = updated_at j, row_result = Some (result j), row_error = Some (error j),
      row_namespace = Some (namespace j), row_progress = Some (progress j),
      row_source = Some (source j), row_source_path = Some (source_path j),
      row_collection = Some (collection j), row_retry_count = Some (retry_count j),
      row_ingest_options = map_option options_to_json (ingest_options j),
      row_cancel_requested = (if cancel_requested j then Some (JBool True) else None),
      row_cancelled_before_start = (if cancelled_before_start j then Some (JBool True) else None),
      row_job_type = Some (job_type (details j)), row_details = own_fields (details j)\<rparr>"

section \<open>Eviction and the atomic write\<close>

definition eviction_micros :: int where
  "eviction_micros = 7 * 24 * 60 * 60 * 1000000"

definition expired_terminal :: "(string \<Rightarrow> int option) \<Rightarrow> int \<Rightarrow> job \<Rightarrow> bool" where
  "expired_terminal fromiso now j \<longleftrightarrow>
     status j \<in> set terminal_statuses \<and>
     (case fromiso (updated_at j) of None \<Rightarrow> False | Some t \<Rightarrow> t < now - eviction_micros)"

text \<open>\<open>None\<close>: a terminal job's \<open>updated_at\<close> cannot be read, which raises before anything is removed.\<close>

definition evict_old ::
    "(string \<Rightarrow> int option) \<Rightarrow> int \<Rightarrow> (string, job) dict \<Rightarrow> (string, job) dict option" where
  "evict_old fromiso now js =
     (if \<exists>j \<in> set (dict_values js). status j \<in> set terminal_statuses \<and> fromiso (updated_at j) = None
      then None
      else Some (filter (\<lambda>(k, j). \<not> expired_terminal fromiso now j) js))"

definition rows_of :: "(string, job) dict \<Rightarrow> row list" where
  "rows_of js = map row_of_job (dict_values js)"

definition write_atomic ::
    "(string \<Rightarrow> int option) \<Rightarrow> write_attempt \<Rightarrow> job_store \<Rightarrow> (store_exc + unit) \<times> job_store" where
  "write_atomic fromiso a s =
     (case evict_old fromiso (at_time a) (jobs s) of
        None \<Rightarrow> (Inl ValueError, s)
      | Some js \<Rightarrow>
          (let s1 = s\<lparr>jobs := js\<rparr>; s2 = s1\<lparr>jfile := Rows (rows_of js)\<rparr>
           in case outcome a of
                Persisted \<Rightarrow> (Inr (), s2)
              | Raised_before e \<Rightarrow> (Inl e, s1)
              | Raised_after e \<Rightarrow> (Inl e, s2)))"

definition rewrite_after_failed_persist ::
    "(string \<Rightarrow> int option) \<Rightarrow> write_attempt \<Rightarrow> job_store \<Rightarrow> (store_exc + unit) \<times> job_store" where
  "rewrite_after_failed_persist fromiso a s =
     (case write_atomic fromiso a s of
        (Inl e, s') \<Rightarrow> (if is_exception e then (Inr (), s') else (Inl e, s'))
      | (Inr u, s') \<Rightarrow> (Inr u, s'))"

text \<open>The tail of every handler that rolled memory back: corrective rewrite, then re-raise.\<close>

definition reraise_after_rewrite ::
    "(string \<Rightarrow> int option) \<Rightarrow> write_attempt \<Rightarrow> store_exc \<Rightarrow> job_store \<Rightarrow> (store_exc + 'a) \<times> job_store" where
  "reraise_after_rewrite fromiso a e s =
     (case rewrite_after_failed_persist fromiso a s of
        (Inl e', s') \<Rightarrow> (Inl e', s')
      | (Inr _, s') \<Rightarrow> (Inl e, s'))"

section \<open>Loading\<close>

definition process_restart_error :: string where
  "process_restart_error = ''process_restart''"

definition not_started_before_restart_detail :: string where
  "not_started_before_restart_detail = ''never started; the server restarted before it ran''"

definition never_started_on_load :: "string \<Rightarrow> job \<Rightarrow> bool" where
  "never_started_on_load t j \<longleftrightarrow>
     status j = PENDING \<and> t \<in> set not_started_on_load_job_types \<or>
     status j = QUEUED \<and> t \<in> set never_scheduled_on_load_job_types"

text \<open>The recovered job, whether it was rewritten, and whether it arms the crash-loop guard.\<close>

definition recover_job :: "string \<Rightarrow> string \<Rightarrow> job \<Rightarrow> job \<times> bool \<times> bool" where
  "recover_job now t j =
     (if status j = CANCELLING \<and> cancelled_before_start j then
        (j\<lparr>status := CANCELLED, updated_at := now\<rparr>, True, False)
      else if status j \<in> set crash_statuses then
        (j\<lparr>status := FAILED, error := Some process_restart_error, updated_at := now\<rparr>, True,
         t \<in> set ingest_family_job_types)
      else if never_started_on_load t j then
        (j\<lparr>status := FAILED, error := Some not_started_before_restart_detail, updated_at := now\<rparr>,
         True, False)
      else (j, False, False))"

fun load_rows ::
    "string \<Rightarrow> row list \<Rightarrow> (string, job) dict \<Rightarrow> bool \<Rightarrow> bool \<Rightarrow> ((string, job) dict \<times> bool \<times> bool) option" where
  "load_rows now [] js modified crashed = Some (js, modified, crashed)"
| "load_rows now (r # rs) js modified crashed =
     (case job_of_row r of
        None \<Rightarrow> None
      | Some j0 \<Rightarrow>
          (let (j, m, c) = recover_job now (row_type r) j0
           in load_rows now rs (dict_set (job_id j) j js) (modified \<or> m) (crashed \<or> c)))"

text \<open>\<open>_load\<close> on a fresh store: the loaded state and whether memory now differs from the file.\<close>

definition load :: "(string \<Rightarrow> int option) \<Rightarrow> string \<Rightarrow> int \<Rightarrow> jobs_file \<Rightarrow> job_store \<times> bool" where
  "load fromiso now_iso now f =
     (let empty = \<lparr>jobs = [], jfile = f, crashed_ingest_on_load = False\<rparr>
      in case f of
           No_file \<Rightarrow> (empty, False)
         | Corrupt_file \<Rightarrow> (empty, False)
         | Rows rs \<Rightarrow>
             (case load_rows now_iso rs [] False False of
                None \<Rightarrow> (empty, False)
              | Some (js, modified, crashed) \<Rightarrow>
                  (case evict_old fromiso now js of
                     None \<Rightarrow> (empty, False)
                   | Some js' \<Rightarrow>
                       (\<lparr>jobs = js', jfile = f, crashed_ingest_on_load = crashed\<rparr>,
                        modified \<or> length js' < length js))))"

text \<open>\<open>JobStore(path)\<close>.\<close>

definition init_store ::
    "(string \<Rightarrow> int option) \<Rightarrow> string \<Rightarrow> int \<Rightarrow> write_attempt \<Rightarrow> jobs_file \<Rightarrow> (store_exc + unit) \<times> job_store" where
  "init_store fromiso now_iso now a f =
     (case load fromiso now_iso now f of
        (s, changed) \<Rightarrow> if changed then write_atomic fromiso a s else (Inr (), s))"

section \<open>Updates\<close>

text \<open>The keyword arguments of \<open>update\<close>, \<open>transition\<close> and \<open>update_progress\<close> the callers pass.\<close>

datatype field_change =
    Set_status job_status
  | Set_error "string option"
  | Set_result json
  | Set_progress json
  | Set_cancel_requested bool
  | Set_cancelled_before_start bool
  | Set_lines_consumed int
  | Set_collection_claimed bool
  | Set_collection_claim_revoked bool
  | Set_migrations_applied "string list"
  | Set_output_path string

text \<open>\<open>None\<close>: the \<open>TypeError\<close> of a field the job's class does not have.\<close>

fun apply_change :: "field_change \<Rightarrow> job \<Rightarrow> job option" where
  "apply_change (Set_status st) j = Some (j\<lparr>status := st\<rparr>)"
| "apply_change (Set_error e) j = Some (j\<lparr>error := e\<rparr>)"
| "apply_change (Set_result r) j = Some (j\<lparr>result := r\<rparr>)"
| "apply_change (Set_progress p) j = Some (j\<lparr>progress := p\<rparr>)"
| "apply_change (Set_cancel_requested b) j = Some (j\<lparr>cancel_requested := b\<rparr>)"
| "apply_change (Set_cancelled_before_start b) j = Some (j\<lparr>cancelled_before_start := b\<rparr>)"
| "apply_change (Set_lines_consumed n) j =
     (case details j of ImportJob i \<Rightarrow> Some (j\<lparr>details := ImportJob (i\<lparr>lines_consumed := n\<rparr>)\<rparr>) | _ \<Rightarrow> None)"
| "apply_change (Set_collection_claimed b) j =
     (case details j of ImportJob i \<Rightarrow> Some (j\<lparr>details := ImportJob (i\<lparr>collection_claimed := b\<rparr>)\<rparr>) | _ \<Rightarrow> None)"
| "apply_change (Set_collection_claim_revoked b) j =
     (case details j of ImportJob i \<Rightarrow> Some (j\<lparr>details := ImportJob (i\<lparr>collection_claim_revoked := b\<rparr>)\<rparr>) | _ \<Rightarrow> None)"
| "apply_change (Set_migrations_applied ms) j =
     (case details j of MigrationJob m \<Rightarrow> Some (j\<lparr>details := MigrationJob (m\<lparr>migrations_applied := ms\<rparr>)\<rparr>) | _ \<Rightarrow> None)"
| "apply_change (Set_output_path p) j =
     (case details j of ExportJob e \<Rightarrow> Some (j\<lparr>details := ExportJob (e\<lparr>output_path := p\<rparr>)\<rparr>) | _ \<Rightarrow> None)"

fun replace :: "field_change list \<Rightarrow> job \<Rightarrow> job option" where
  "replace [] j = Some j"
| "replace (c # cs) j = (case apply_change c j of None \<Rightarrow> None | Some j' \<Rightarrow> replace cs j')"

definition update ::
    "(string \<Rightarrow> int option) \<Rightarrow> string \<Rightarrow> write_attempt \<Rightarrow> string \<Rightarrow> field_change list \<Rightarrow> job_store \<Rightarrow>
     (store_exc + job) \<times> job_store" where
  "update fromiso now a jid cs s =
     (case dict_get (jobs s) jid of
        None \<Rightarrow> (Inl (KeyError jid), s)
      | Some j \<Rightarrow>
          (case replace cs (j\<lparr>updated_at := now\<rparr>) of
             None \<Rightarrow> (Inl TypeError, s)
           | Some j' \<Rightarrow>
               (case write_atomic fromiso a (s\<lparr>jobs := dict_set jid j' (jobs s)\<rparr>) of
                  (Inl e, s') \<Rightarrow> (Inl e, s')
                | (Inr _, s') \<Rightarrow> (Inr j', s'))))"

definition get :: "string \<Rightarrow> job_store \<Rightarrow> job option" where
  "get jid s = dict_get (jobs s) jid"

definition list_jobs :: "job_store \<Rightarrow> job list" where
  "list_jobs s = dict_values (jobs s)"

definition transition ::
    "(string \<Rightarrow> int option) \<Rightarrow> string \<Rightarrow> write_attempt \<Rightarrow> write_attempt \<Rightarrow> string \<Rightarrow> job_status list \<Rightarrow>
     job_status \<Rightarrow> field_change list \<Rightarrow> job_store \<Rightarrow> (store_exc + job option) \<times> job_store" where
  "transition fromiso now a1 a2 jid from_statuses to_status flds s =
     (case dict_get (jobs s) jid of
        None \<Rightarrow> (Inr None, s)
      | Some j \<Rightarrow>
          (if status j \<notin> set from_statuses then (Inr None, s)
           else case update fromiso now a1 jid (Set_status to_status # flds) s of
                  (Inr j', s') \<Rightarrow> (Inr (Some j'), s')
                | (Inl e, s') \<Rightarrow>
                    reraise_after_rewrite fromiso a2 e (s'\<lparr>jobs := dict_set jid j (jobs s')\<rparr>)))"

definition update_progress ::
    "(string \<Rightarrow> int option) \<Rightarrow> string \<Rightarrow> write_attempt \<Rightarrow> string \<Rightarrow> int \<Rightarrow> int \<Rightarrow> string \<Rightarrow> field_change list \<Rightarrow>
     job_store \<Rightarrow> (store_exc + job) \<times> job_store" where
  "update_progress fromiso now a jid processed total_n phase flds s =
     update fromiso now a jid
       (Set_progress (JObj [(''processed'', JInt processed), (''total'', JInt total_n),
                            (''phase'', JStr phase)]) # flds) s"

section \<open>Creation\<close>

definition create_job ::
    "(string \<Rightarrow> int option) \<Rightarrow> write_attempt \<Rightarrow> write_attempt \<Rightarrow> job \<Rightarrow> job_store \<Rightarrow> (store_exc + job) \<times> job_store" where
  "create_job fromiso a1 a2 j s =
     (case write_atomic fromiso a1 (s\<lparr>jobs := dict_set (job_id j) j (jobs s)\<rparr>) of
        (Inr _, s') \<Rightarrow> (Inr j, s')
      | (Inl e, s') \<Rightarrow> reraise_after_rewrite fromiso a2 e (s'\<lparr>jobs := dict_del (job_id j) (jobs s')\<rparr>))"

definition base_job :: "string \<Rightarrow> string \<Rightarrow> job_status \<Rightarrow> string \<Rightarrow> string \<Rightarrow> job_details \<Rightarrow> job" where
  "base_job jid now st ns coll d =
     \<lparr>job_id = jid, status = st, created_at = now, updated_at = now, result = JNull, error = None,
      namespace = ns, progress = JNull, source = ''user'', source_path = '''', collection = coll,
      retry_count = 0, ingest_options = None, cancel_requested = False,
      cancelled_before_start = False, details = d\<rparr>"

definition new_ingest :: "string \<Rightarrow> string \<Rightarrow> string \<Rightarrow> string \<Rightarrow> string \<Rightarrow> string \<Rightarrow> ingest_options option \<Rightarrow> int \<Rightarrow> job" where
  "new_ingest jid now ns src path coll opts retries =
     (base_job jid now PENDING ns coll IngestJob)
       \<lparr>source := src, source_path := path, ingest_options := opts, retry_count := retries\<rparr>"

definition new_reindex :: "string \<Rightarrow> string \<Rightarrow> string \<Rightarrow> string \<Rightarrow> string option \<Rightarrow> job" where
  "new_reindex jid now coll ns model = base_job jid now PENDING ns coll (ReindexJob model)"

definition new_export :: "string \<Rightarrow> string \<Rightarrow> string \<Rightarrow> string \<Rightarrow> string \<Rightarrow> string \<Rightarrow> string \<Rightarrow> job" where
  "new_export jid now coll out tmp ns src =
     (base_job jid now QUEUED ns coll (ExportJob \<lparr>output_path = out, tmp_path = tmp\<rparr>))\<lparr>source := src\<rparr>"

definition new_import :: "string \<Rightarrow> string \<Rightarrow> string \<Rightarrow> string \<Rightarrow> bool \<Rightarrow> bool \<Rightarrow> string \<Rightarrow> string \<Rightarrow> string \<Rightarrow> job" where
  "new_import jid now coll path force ignore_version on_err ns src =
     (base_job jid now QUEUED ns coll
        (ImportJob (default_import\<lparr>archive_path := path, force_overwrite := force,
                                   ignore_schema_version := ignore_version, on_error := on_err\<rparr>)))
       \<lparr>source := src\<rparr>"

definition new_migration :: "string \<Rightarrow> string \<Rightarrow> string \<Rightarrow> migration_kind \<Rightarrow> bool option \<Rightarrow> string \<Rightarrow> job_status \<Rightarrow> job" where
  "new_migration jid now coll k confirmed ns st =
     base_job jid now st ns coll
       (MigrationJob \<lparr>mig_kind = k, migrations_applied = [], backup_confirmed = confirmed\<rparr>)"

definition new_community_rebuild :: "string \<Rightarrow> string \<Rightarrow> string \<Rightarrow> string \<Rightarrow> job" where
  "new_community_rebuild jid now coll ns = base_job jid now RUNNING ns coll CommunityRebuildJob"

definition new_sync :: "string \<Rightarrow> string \<Rightarrow> string \<Rightarrow> job" where
  "new_sync jid now ns = base_job jid now RUNNING ns '''' (SyncJob sync)"

definition new_description :: "string \<Rightarrow> string \<Rightarrow> string \<Rightarrow> string \<Rightarrow> job" where
  "new_description jid now coll ns = base_job jid now RUNNING ns coll DescriptionJob"

definition new_metadata_reindex :: "string \<Rightarrow> string \<Rightarrow> string \<Rightarrow> string \<Rightarrow> bool \<Rightarrow> job" where
  "new_metadata_reindex jid now coll ns dry =
     base_job jid now RUNNING ns coll (MetadataReindexJob metadata_reindex dry)"

section \<open>Cancelling retries, finding writers, queue order\<close>

definition retry_cancellable :: "string \<Rightarrow> job \<Rightarrow> bool" where
  "retry_cancellable coll j \<longleftrightarrow>
     is_base_ingest j \<and> collection j = coll \<and> status j \<in> set retry_candidate_statuses"

definition cancel_ingest_retries ::
    "(string \<Rightarrow> int option) \<Rightarrow> string \<Rightarrow> write_attempt \<Rightarrow> write_attempt \<Rightarrow> string \<Rightarrow> job_store \<Rightarrow>
     (store_exc + unit) \<times> job_store" where
  "cancel_ingest_retries fromiso now a1 a2 coll s =
     (let old_jobs = map (\<lambda>j. (job_id j, j)) (filter (retry_cancellable coll) (dict_values (jobs s)))
      in if old_jobs = [] then (Inr (), s)
         else
           (let cancelled = map (\<lambda>(k, j). (k, j\<lparr>status := CANCELLED, updated_at := now\<rparr>)) old_jobs
            in case write_atomic fromiso a1 (s\<lparr>jobs := dict_set_all cancelled (jobs s)\<rparr>) of
                 (Inr u, s') \<Rightarrow> (Inr u, s')
               | (Inl e, s') \<Rightarrow>
                   (if is_exception e
                    then rewrite_after_failed_persist fromiso a2
                           (s'\<lparr>jobs := dict_set_all old_jobs (jobs s')\<rparr>)
                    else (Inl e, s'))))"

definition find_active_collection_job :: "string \<Rightarrow> string \<Rightarrow> string option \<Rightarrow> job_store \<Rightarrow> job option" where
  "find_active_collection_job coll ns excluding s =
     (let active = filter (\<lambda>j. collection j = coll \<and> Some (job_id j) \<noteq> excluding \<and> may_write_collection j)
                     (dict_values (jobs s))
      in case find (\<lambda>j. namespace j = ns) active of
           Some j \<Rightarrow> Some j
         | None \<Rightarrow> (case active of [] \<Rightarrow> None | j # _ \<Rightarrow> Some j))"

fun is_bulk :: "job_details \<Rightarrow> bool" where
  "is_bulk (ExportJob _) = True"
| "is_bulk (ImportJob _) = True"
| "is_bulk (MigrationJob _) = True"
| "is_bulk _ = False"

definition queued_bulk :: "job \<Rightarrow> bool" where
  "queued_bulk j \<longleftrightarrow> is_bulk (details j) \<and> status j = QUEUED"

definition source_priority :: "job \<Rightarrow> nat" where
  "source_priority j = (if source j = ''user'' then 0 else 1)"

definition list_queued_bulk :: "job_store \<Rightarrow> job list" where
  "list_queued_bulk s =
     sort_key (\<lambda>j. (source_priority j, created_at j)) (filter queued_bulk (dict_values (jobs s)))"

definition count_by_status :: "job_store \<Rightarrow> (job_status, nat) dict" where
  "count_by_status s =
     map (\<lambda>st. (st, length (filter (\<lambda>j. status j = st) (dict_values (jobs s))))) all_statuses"

end
