(* ===== verification/Job_Recovery.thy ===== *)
theory Job_Recovery
  imports Job_Store_Facts
begin

text \<open>
  A job survives the jobs file unchanged (\<open>row_of_job\<close> then \<open>job_of_row\<close>), and a restart on the file the
  store wrote is, job by job, the recovery of \<open>_load\<close> followed by age eviction.
\<close>

section \<open>Round trip of one job\<close>

lemma json_strs_JStr [simp]: "json_strs (map JStr xs) = Some xs"
  by (induction xs) auto

lemma scopes_roundtrip [simp]:
  "scopes_from_json (Some (json_opt (\<lambda>xs. JArr (map JStr xs)) o1)) = Some o1"
  by (cases o1) (simp_all add: scopes_from_json_def json_opt_def)

lemma ttl_roundtrip [simp]: "ttl_from_json (Some (json_opt JInt t)) = Some t"
  by (cases t) (simp_all add: ttl_from_json_def json_opt_def)

lemma ingest_options_roundtrip [simp]:
  "ingest_options_from_json (map_option options_to_json o1) = o1"
  by (cases o1)
     (simp_all add: ingest_options_from_json_def options_to_json_def dict_keys_def
        ingest_option_keys_def)

lemma flag_roundtrip [simp]: "flag_from_json (if b then Some (JBool True) else None) = b"
  by (simp add: flag_from_json_def)

lemma details_roundtrip [simp]: "details_of_row (job_type d) (own_fields d) = Some d"
  by (cases d) (simp_all add: details_of_row_def)

lemma job_row_roundtrip: "post_init_ok j \<Longrightarrow> job_of_row (row_of_job j) = Some j"
  by (simp add: job_of_row_def row_of_job_def row_type_def post_init_ok_def Let_def)

lemma row_type_row_of_job [simp]: "row_type (row_of_job j) = job_type (details j)"
  by (simp add: row_type_def row_of_job_def)

section \<open>Recovery of one job\<close>

definition recovered :: "string \<Rightarrow> job \<Rightarrow> job" where
  "recovered now j = fst (recover_job now (job_type (details j)) j)"

definition arms_guard :: "job \<Rightarrow> bool" where
  "arms_guard j \<longleftrightarrow>
     job_type (details j) \<in> set ingest_family_job_types \<and>
     (status j = RUNNING \<or> status j = CANCELLING \<and> \<not> cancelled_before_start j)"

lemma recover_job_guard:
  "snd (snd (recover_job now (job_type (details j)) j)) = arms_guard j"
  by (auto simp: recover_job_def arms_guard_def status_class_defs)

lemma recovered_frame [simp]:
  "job_id (recovered now j) = job_id j" "source (recovered now j) = source j"
  "details (recovered now j) = details j"
  by (simp_all add: recovered_def recover_job_def)

lemma post_init_ok_recovered [simp]: "post_init_ok (recovered now j) = post_init_ok j"
  by (simp add: post_init_ok_def)

lemma recovered_settled:
  "status (recovered now j) \<notin> {RUNNING, CANCELLING} \<and>
   \<not> never_started_on_load (job_type (details j)) (recovered now j)"
  by (cases "status j")
     (auto simp: recovered_def recover_job_def status_class_defs never_started_on_load_def)

lemma recover_job_status_any: "status (fst (recover_job now t j)) \<notin> {RUNNING, CANCELLING}"
  by (cases "status j") (auto simp: recover_job_def status_class_defs never_started_on_load_def)

lemma recovered_crashed:
  "status j = RUNNING \<or> status j = CANCELLING \<and> \<not> cancelled_before_start j \<Longrightarrow>
   status (recovered now j) = FAILED \<and> error (recovered now j) = Some process_restart_error \<and>
   updated_at (recovered now j) = now"
  by (auto simp: recovered_def recover_job_def status_class_defs)

lemma recovered_terminal:
  "status j \<in> set terminal_statuses \<Longrightarrow> recovered now j = j"
  by (auto simp: recovered_def recover_job_def status_class_defs never_started_on_load_def)

section \<open>Loading the rows the store wrote\<close>

definition recover_all :: "string \<Rightarrow> (string, job) dict \<Rightarrow> (string, job) dict" where
  "recover_all now js = map (\<lambda>(k, j). (k, recovered now j)) js"

lemma dict_get_recover_all: "dict_get (recover_all now js) k = map_option (recovered now) (dict_get js k)"
  by (induction js) (auto simp: recover_all_def)

lemma load_rows_written:
  assumes "jobs_wf (pre @ js)"
  shows "\<exists>m. load_rows now (rows_of js) (recover_all now pre) m0 c0 =
     Some (recover_all now (pre @ js), m, c0 \<or> (\<exists>j \<in> set (dict_values js). arms_guard j))"
  using assms
proof (induction js arbitrary: pre m0 c0)
  case Nil
  then show ?case by (simp add: rows_of_def dict_values_def)
next
  case (Cons kj js)
  obtain k j where kj: "kj = (k, j)" by (cases kj)
  have wf: "job_id j = k" "post_init_ok j" and new: "k \<notin> fst ` set pre"
    using Cons.prems kj by (auto simp: jobs_wf_def dict_ok_def)
  have "dict_get (recover_all now pre) k = None"
    using new by (simp add: dict_get_recover_all dict_get_None_iff dict_keys_def)
  then have step: "dict_set (job_id (recovered now j)) (recovered now j) (recover_all now pre) =
      recover_all now (pre @ [kj])"
    using wf kj by (simp add: dict_set_new recover_all_def)
  have "jobs_wf ((pre @ [kj]) @ js)" using Cons.prems by simp
  moreover obtain m where rec: "recover_job now (job_type (details j)) j = (recovered now j, m, arms_guard j)"
    using recover_job_guard [of now j]
    by (cases "recover_job now (job_type (details j)) j") (auto simp: recovered_def)
  ultimately show ?case
    using wf kj step Cons.IH [of "pre @ [kj]" "m0 \<or> m" "c0 \<or> arms_guard j"]
    by (simp add: rows_of_def dict_values_def job_row_roundtrip disj_assoc)
qed

lemma load_written:
  assumes "jobs_wf js"
  shows "\<exists>m. load_rows now (rows_of js) [] False False =
     Some (recover_all now js, m, \<exists>j \<in> set (dict_values js). arms_guard j)"
  using load_rows_written [of "[]" js now False False] assms by (simp add: recover_all_def)

lemma recover_all_wf: "jobs_wf js \<Longrightarrow> jobs_wf (recover_all now js)"
  by (auto simp: jobs_wf_def dict_ok_def recover_all_def comp_def case_prod_beta)

lemma load_written_jobs:
  assumes wf: "jobs_wf js"
    and ev: "evict_old fromiso now (recover_all now_iso js) = Some js'"
  shows "jobs (fst (load fromiso now_iso now (Rows (rows_of js)))) = js' \<and>
    crashed_ingest_on_load (fst (load fromiso now_iso now (Rows (rows_of js)))) =
      (\<exists>j \<in> set (dict_values js). arms_guard j)"
proof -
  obtain m where "load_rows now_iso (rows_of js) [] False False =
     Some (recover_all now_iso js, m, \<exists>j \<in> set (dict_values js). arms_guard j)"
    using load_written [OF wf] by blast
  with ev show ?thesis by (simp add: load_def Let_def)
qed

section \<open>Loading any file\<close>

lemma job_of_row_ok: "job_of_row r = Some j \<Longrightarrow> post_init_ok j"
  by (auto simp: job_of_row_def Let_def split: option.splits if_splits)

lemma recover_job_ok:
  "post_init_ok j \<Longrightarrow> recover_job now t j = (j', m, c) \<Longrightarrow> post_init_ok j'"
  by (auto simp: recover_job_def post_init_ok_def split: if_splits)

lemma load_rows_ConsE:
  assumes "load_rows now (r # rs) js m c = Some res"
  obtains j0 j m1 c1 where "job_of_row r = Some j0" "recover_job now (row_type r) j0 = (j, m1, c1)"
    "load_rows now rs (dict_set (job_id j) j js) (m \<or> m1) (c \<or> c1) = Some res"
  using assms by (auto split: option.splits prod.splits)

lemma load_rows_wf:
  "load_rows now rs js m c = Some (js', m', c') \<Longrightarrow> jobs_wf js \<Longrightarrow> jobs_wf js'"
proof (induction rs arbitrary: js m c)
  case (Cons r rs)
  from Cons.prems(1) obtain j0 j m1 c1 where r: "job_of_row r = Some j0"
    "recover_job now (row_type r) j0 = (j, m1, c1)"
    "load_rows now rs (dict_set (job_id j) j js) (m \<or> m1) (c \<or> c1) = Some (js', m', c')"
    by (rule load_rows_ConsE)
  have "jobs_wf (dict_set (job_id j) j js)"
    using Cons.prems(2) r by (auto intro: jobs_wf_set job_of_row_ok recover_job_ok)
  then show ?case by (rule Cons.IH [OF r(3)])
qed simp

lemma load_rows_settled:
  "load_rows now rs js m c = Some (js', m', c') \<Longrightarrow>
   \<forall>j \<in> set (dict_values js). status j \<notin> {RUNNING, CANCELLING} \<Longrightarrow>
   \<forall>j \<in> set (dict_values js'). status j \<notin> {RUNNING, CANCELLING}"
proof (induction rs arbitrary: js m c)
  case (Cons r rs)
  from Cons.prems(1) obtain j0 j m1 c1 where r: "job_of_row r = Some j0"
    "recover_job now (row_type r) j0 = (j, m1, c1)"
    "load_rows now rs (dict_set (job_id j) j js) (m \<or> m1) (c \<or> c1) = Some (js', m', c')"
    by (rule load_rows_ConsE)
  have "status j \<notin> {RUNNING, CANCELLING}" using recover_job_status_any r(2) by (metis fst_conv)
  with Cons.prems(2)
  have "\<forall>i \<in> set (dict_values (dict_set (job_id j) j js)). status i \<notin> {RUNNING, CANCELLING}"
    using dict_values_set_subset [of "job_id j" j js] by blast
  then show ?case by (rule Cons.IH [OF r(3)])
qed simp

lemma load_rows_start_wf: "load_rows now rs [] m c = Some (js', m', c') \<Longrightarrow> jobs_wf js'"
  by (erule load_rows_wf) simp

lemma load_inv: "load fromiso now_iso now f = (s, changed) \<Longrightarrow> store_inv s"
  unfolding load_def store_inv_def Let_def
  by (auto split: jobs_file.splits option.splits prod.splits
        dest: load_rows_start_wf intro: evict_old_wf)

lemma load_settled:
  assumes "load fromiso now_iso now f = (s, changed)"
  shows "\<forall>j \<in> set (dict_values (jobs s)). status j \<notin> {RUNNING, CANCELLING}"
  using assms
proof (cases f)
  case (Rows rs)
  show ?thesis
  proof (cases "load_rows now_iso rs [] False False")
    case None
    with assms Rows show ?thesis by (auto simp: load_def Let_def dict_values_def)
  next
    case (Some x)
    obtain js m c where x: "x = (js, m, c)" by (cases x)
    have settled: "\<forall>j \<in> set (dict_values js). status j \<notin> {RUNNING, CANCELLING}"
      using load_rows_settled [of now_iso rs "[]"] Some x by (simp add: dict_values_def)
    then show ?thesis
      using assms Rows Some x
      by (auto simp: load_def Let_def dict_values_def split: option.splits dest!: evict_old_Some)
  qed
qed (auto simp: load_def dict_values_def Let_def)

lemma init_store_inv: "init_store fromiso now_iso now a f = (r, s) \<Longrightarrow> store_inv s"
  by (auto simp: init_store_def split: prod.splits if_splits dest: load_inv intro: write_atomic_inv)

section \<open>Cancelling retries\<close>

lemma dict_get_set_all:
  "dict_ok kvs \<Longrightarrow>
   dict_get (dict_set_all kvs d) k = (case dict_get kvs k of Some v \<Rightarrow> Some v | None \<Rightarrow> dict_get d k)"
  by (induction kvs d rule: dict_set_all.induct)
     (auto simp: dict_ok_def dict_get_def map_of_eq_None_iff dict_set_def update_conv' image_iff
           split: option.splits)

lemma dict_set_all_wf: "jobs_wf js \<Longrightarrow> jobs_wf kvs \<Longrightarrow> jobs_wf (dict_set_all kvs js)"
  by (induction kvs js rule: dict_set_all.induct) (auto dest!: jobs_wf_ConsD intro: jobs_wf_set)

definition retry_jobs :: "string \<Rightarrow> (string, job) dict \<Rightarrow> (string, job) dict" where
  "retry_jobs coll js = map (\<lambda>j. (job_id j, j)) (filter (retry_cancellable coll) (dict_values js))"

definition cancel_copy :: "string \<Rightarrow> (string, job) dict \<Rightarrow> (string, job) dict" where
  "cancel_copy now js = map (\<lambda>(k, j). (k, j\<lparr>status := CANCELLED, updated_at := now\<rparr>)) js"

lemma retry_jobs_eq: "jobs_wf js \<Longrightarrow> retry_jobs coll js = filter (\<lambda>(k, j). retry_cancellable coll j) js"
proof -
  have "map (\<lambda>j. (job_id j, j)) (filter P (map snd js)) = filter (\<lambda>(k, j). P j) js"
    if "\<forall>(k, j) \<in> set js. job_id j = k" for P
    using that by (induction js) auto
  moreover assume "jobs_wf js"
  ultimately show ?thesis by (auto simp: retry_jobs_def dict_values_def jobs_wf_def)
qed

lemma retry_jobs_wf: "jobs_wf js \<Longrightarrow> jobs_wf (retry_jobs coll js)"
  by (simp add: retry_jobs_eq jobs_wf_filter)

lemma cancel_copy_wf: "jobs_wf js \<Longrightarrow> jobs_wf (cancel_copy now js)"
  by (auto simp: cancel_copy_def jobs_wf_def dict_ok_def comp_def case_prod_beta post_init_ok_def)

lemma cancel_cases:
  assumes "cancel_ingest_retries fromiso now a1 a2 coll s = (r, s')"
  obtains (nothing) "retry_jobs coll (jobs s) = []" "r = Inr ()" "s' = s"
  | (settled) w where "write_atomic fromiso a1
        (s\<lparr>jobs := dict_set_all (cancel_copy now (retry_jobs coll (jobs s))) (jobs s)\<rparr>) = (w, s')" "r = w"
      "w = Inr () \<or> w = Inl BaseExc"
  | (failed) e s1 where "write_atomic fromiso a1
        (s\<lparr>jobs := dict_set_all (cancel_copy now (retry_jobs coll (jobs s))) (jobs s)\<rparr>) = (Inl e, s1)"
      "rewrite_after_failed_persist fromiso a2
         (s1\<lparr>jobs := dict_set_all (retry_jobs coll (jobs s)) (jobs s1)\<rparr>) = (r, s')"
  using assms
  by (auto simp: cancel_ingest_retries_def retry_jobs_def cancel_copy_def Let_def is_exception_def
      split: if_splits prod.splits sum.splits)

end
