(* ===== verification/Job_Machine.thy ===== *)
theory Job_Machine
  imports Job_Recovery
begin

text \<open>
  The job store as a machine: every operation that changes its state is a step, and so is a crash
  followed by a restart on whatever the jobs file holds. Time stamps come from the clock, so the text
  of a stamp is one \<open>datetime.fromisoformat\<close> reads (\<open>stamp_ok\<close>).
\<close>

definition stamp_ok :: "(string \<Rightarrow> int option) \<Rightarrow> string \<Rightarrow> bool" where
  "stamp_ok fromiso now \<longleftrightarrow> fromiso now \<noteq> None"

definition jobs_stamped :: "(string \<Rightarrow> int option) \<Rightarrow> (string, job) dict \<Rightarrow> bool" where
  "jobs_stamped fromiso js \<longleftrightarrow> (\<forall>j \<in> set (dict_values js). stamp_ok fromiso (updated_at j))"

definition file_wf :: "(string \<Rightarrow> int option) \<Rightarrow> jobs_file \<Rightarrow> bool" where
  "file_wf fromiso f \<longleftrightarrow>
     f = No_file \<or> (\<exists>js. jobs_wf js \<and> jobs_stamped fromiso js \<and> f = Rows (rows_of js))"

definition machine_inv :: "(string \<Rightarrow> int option) \<Rightarrow> job_store \<Rightarrow> bool" where
  "machine_inv fromiso s \<longleftrightarrow>
     store_inv s \<and> jobs_stamped fromiso (jobs s) \<and> file_wf fromiso (jfile s)"

inductive store_step :: "(string \<Rightarrow> int option) \<Rightarrow> job_store \<Rightarrow> job_store \<Rightarrow> bool" for fromiso where
  step_create: "post_init_ok j \<Longrightarrow> stamp_ok fromiso (updated_at j) \<Longrightarrow>
     create_job fromiso a1 a2 j s = (rc, s') \<Longrightarrow> store_step fromiso s s'"
| step_update: "stamp_ok fromiso now \<Longrightarrow>
     update fromiso now a jid cs s = (ru, s') \<Longrightarrow> store_step fromiso s s'"
| step_transition: "stamp_ok fromiso now \<Longrightarrow>
     transition fromiso now a1 a2 jid from_sts to_st flds s = (rt, s') \<Longrightarrow> store_step fromiso s s'"
| step_cancel: "stamp_ok fromiso now \<Longrightarrow>
     cancel_ingest_retries fromiso now a1 a2 coll s = (rx, s') \<Longrightarrow> store_step fromiso s s'"
| step_restart: "stamp_ok fromiso now_iso \<Longrightarrow>
     init_store fromiso now_iso now a (jfile s) = (ri, s') \<Longrightarrow> store_step fromiso s s'"

inductive_simps store_step_iff: "store_step fromiso s s'"

definition fresh_install :: "job_store \<Rightarrow> bool" where
  "fresh_install s \<longleftrightarrow> s = \<lparr>jobs = [], jfile = No_file, crashed_ingest_on_load = False\<rparr>"

section \<open>Stamps\<close>

lemma jobs_stamped_Nil [simp]: "jobs_stamped fromiso []"
  by (simp add: jobs_stamped_def dict_values_def)

lemma jobs_stamped_set:
  "jobs_stamped fromiso js \<Longrightarrow> stamp_ok fromiso (updated_at j) \<Longrightarrow> jobs_stamped fromiso (dict_set k j js)"
  using dict_values_set_subset [of k j js] by (auto simp: jobs_stamped_def)

lemma jobs_stamped_filter: "jobs_stamped fromiso js \<Longrightarrow> jobs_stamped fromiso (filter P js)"
  by (auto simp: jobs_stamped_def dict_values_def)

lemma jobs_stamped_del: "jobs_stamped fromiso js \<Longrightarrow> jobs_stamped fromiso (dict_del k js)"
  by (simp add: dict_del_def AList.delete_eq jobs_stamped_filter)

lemma jobs_stamped_evict:
  "jobs_stamped fromiso js \<Longrightarrow> evict_old fromiso now js = Some js' \<Longrightarrow> jobs_stamped fromiso js'"
  by (auto dest!: evict_old_Some intro: jobs_stamped_filter)

lemma evict_old_stamped:
  "jobs_stamped fromiso js \<Longrightarrow>
   evict_old fromiso now js = Some (filter (\<lambda>(k, j). \<not> expired_terminal fromiso now j) js)"
  by (auto simp: evict_old_def jobs_stamped_def stamp_ok_def)

lemma jobs_stamped_getD:
  "jobs_stamped fromiso js \<Longrightarrow> dict_get js k = Some j \<Longrightarrow> stamp_ok fromiso (updated_at j)"
  by (force simp: jobs_stamped_def dict_values_def dest: dict_get_SomeD)

lemma jobs_stamped_ConsD:
  "jobs_stamped fromiso ((k, j) # js) \<Longrightarrow> stamp_ok fromiso (updated_at j) \<and> jobs_stamped fromiso js"
  by (simp add: jobs_stamped_def dict_values_def)

lemma jobs_stamped_set_all:
  "jobs_stamped fromiso js \<Longrightarrow> jobs_stamped fromiso kvs \<Longrightarrow> jobs_stamped fromiso (dict_set_all kvs js)"
  by (induction kvs js rule: dict_set_all.induct) (auto dest!: jobs_stamped_ConsD intro: jobs_stamped_set)

lemma jobs_stamped_recover_all:
  "jobs_stamped fromiso js \<Longrightarrow> stamp_ok fromiso now \<Longrightarrow> jobs_stamped fromiso (recover_all now js)"
  by (auto simp: jobs_stamped_def dict_values_def recover_all_def recovered_def recover_job_def)

section \<open>Every step keeps the invariant\<close>

text \<open>The part of the invariant about memory, with the file left alone.\<close>

definition memory_ok :: "(string \<Rightarrow> int option) \<Rightarrow> (string, job) dict \<Rightarrow> bool" where
  "memory_ok fromiso js \<longleftrightarrow> jobs_wf js \<and> jobs_stamped fromiso js"

lemma machine_inv_alt:
  "machine_inv fromiso s \<longleftrightarrow> memory_ok fromiso (jobs s) \<and> file_wf fromiso (jfile s)"
  by (auto simp: machine_inv_def memory_ok_def store_inv_def)

lemma memory_ok_set:
  "memory_ok fromiso js \<Longrightarrow> job_id j = k \<Longrightarrow> post_init_ok j \<Longrightarrow> stamp_ok fromiso (updated_at j) \<Longrightarrow>
   memory_ok fromiso (dict_set k j js)"
  by (auto simp: memory_ok_def intro: jobs_wf_set jobs_stamped_set)

lemma memory_ok_del: "memory_ok fromiso js \<Longrightarrow> memory_ok fromiso (dict_del k js)"
  by (auto simp: memory_ok_def intro: jobs_wf_del jobs_stamped_del)

lemma memory_ok_getD:
  "memory_ok fromiso js \<Longrightarrow> dict_get js k = Some j \<Longrightarrow>
   job_id j = k \<and> post_init_ok j \<and> stamp_ok fromiso (updated_at j)"
  by (auto simp: memory_ok_def dest: jobs_wf_getD jobs_stamped_getD)

lemma memory_ok_set_all:
  "memory_ok fromiso js \<Longrightarrow> memory_ok fromiso kvs \<Longrightarrow> memory_ok fromiso (dict_set_all kvs js)"
  by (auto simp: memory_ok_def intro: dict_set_all_wf jobs_stamped_set_all)

lemma write_atomic_machine:
  assumes "write_atomic fromiso a s = (r, s')" and "machine_inv fromiso s"
  shows "machine_inv fromiso s'"
  using assms(1)
  by (rule write_atomic_cases)
     (use assms(2) in \<open>auto simp: machine_inv_def store_inv_def file_wf_def
        intro: evict_old_wf jobs_stamped_evict\<close>)

lemma reraise_machine:
  "reraise_after_rewrite fromiso a e s = (r, s') \<Longrightarrow> machine_inv fromiso s \<Longrightarrow> machine_inv fromiso s'"
  by (auto dest!: reraise_cases(1) intro: write_atomic_machine)

lemma machine_inv_jobs:
  "machine_inv fromiso s \<Longrightarrow> memory_ok fromiso js \<Longrightarrow> machine_inv fromiso (s\<lparr>jobs := js\<rparr>)"
  by (simp add: machine_inv_alt)

lemma machine_inv_memory: "machine_inv fromiso s \<Longrightarrow> memory_ok fromiso (jobs s)"
  by (simp add: machine_inv_alt)

lemma machine_inv_file: "machine_inv fromiso s \<Longrightarrow> file_wf fromiso (jfile s)"
  by (simp add: machine_inv_alt)

lemma create_job_machine:
  assumes "create_job fromiso a1 a2 j s = (r, s')" and inv: "machine_inv fromiso s"
    and "post_init_ok j" and "stamp_ok fromiso (updated_at j)"
  shows "machine_inv fromiso s'"
proof -
  have add: "machine_inv fromiso (s\<lparr>jobs := dict_set (job_id j) j (jobs s)\<rparr>)"
    using assms by (intro machine_inv_jobs memory_ok_set) (auto dest: machine_inv_memory)
  from assms(1) show ?thesis
  proof (cases rule: create_job_cases)
    case created
    then show ?thesis using add by (blast intro: write_atomic_machine)
  next
    case (failed e s1)
    have "machine_inv fromiso s1" using failed add by (blast intro: write_atomic_machine)
    then show ?thesis using failed
      by (blast intro: reraise_machine machine_inv_jobs memory_ok_del dest: machine_inv_memory)
  qed
qed

lemma update_machine:
  assumes "update fromiso now a jid cs s = (r, s')" and inv: "machine_inv fromiso s"
    and st: "stamp_ok fromiso now"
  shows "machine_inv fromiso s'"
  using assms(1)
proof (cases rule: update_cases)
  case (written j j' w)
  have "job_id j = jid \<and> post_init_ok j"
    using memory_ok_getD [OF machine_inv_memory [OF inv] written(1)] by blast
  with replace_frame [OF written(2)] have "machine_inv fromiso (s\<lparr>jobs := dict_set jid j' (jobs s)\<rparr>)"
    using inv st by (intro machine_inv_jobs memory_ok_set) (auto dest: machine_inv_memory simp: post_init_ok_def)
  then show ?thesis using written(3) by (blast intro: write_atomic_machine)
qed (use inv in auto)

lemma transition_machine:
  assumes "transition fromiso now a1 a2 jid from_sts to_st flds s = (r, s')"
    and inv: "machine_inv fromiso s" and st: "stamp_ok fromiso now"
  shows "machine_inv fromiso s'"
  using assms(1)
proof (cases rule: transition_cases)
  case (failed j e s1)
  have m1: "machine_inv fromiso s1" using failed(3) inv st by (rule update_machine)
  have "memory_ok fromiso (dict_set jid j (jobs s1))"
    using memory_ok_getD [OF machine_inv_memory [OF inv] failed(1)] m1
    by (intro memory_ok_set) (auto dest: machine_inv_memory)
  then show ?thesis using failed(4) m1 by (blast intro: reraise_machine machine_inv_jobs)
qed (use inv st in \<open>auto intro: update_machine\<close>)

lemma retry_jobs_memory: "memory_ok fromiso js \<Longrightarrow> memory_ok fromiso (retry_jobs coll js)"
  by (auto simp: memory_ok_def retry_jobs_eq intro: jobs_wf_filter jobs_stamped_filter)

lemma cancel_copy_memory:
  "memory_ok fromiso js \<Longrightarrow> stamp_ok fromiso now \<Longrightarrow> memory_ok fromiso (cancel_copy now js)"
  by (auto simp: memory_ok_def intro: cancel_copy_wf)
     (auto simp: jobs_stamped_def dict_values_def cancel_copy_def)

lemma cancel_machine:
  assumes "cancel_ingest_retries fromiso now a1 a2 coll s = (r, s')"
    and inv: "machine_inv fromiso s" and st: "stamp_ok fromiso now"
  shows "machine_inv fromiso s'"
proof -
  let ?old = "retry_jobs coll (jobs s)"
  have old: "memory_ok fromiso ?old" using inv by (auto intro: retry_jobs_memory dest: machine_inv_memory)
  have new: "machine_inv fromiso (s\<lparr>jobs := dict_set_all (cancel_copy now ?old) (jobs s)\<rparr>)"
    using inv st old by (intro machine_inv_jobs memory_ok_set_all cancel_copy_memory) (auto dest: machine_inv_memory)
  from assms(1) show ?thesis
  proof (cases rule: cancel_cases)
    case nothing
    then show ?thesis using inv by simp
  next
    case (settled w)
    then show ?thesis using new by (blast intro: write_atomic_machine)
  next
    case (failed e s1)
    have "machine_inv fromiso s1" using failed(1) new by (rule write_atomic_machine)
    then have "machine_inv fromiso (s1\<lparr>jobs := dict_set_all ?old (jobs s1)\<rparr>)"
      using old by (blast intro: machine_inv_jobs memory_ok_set_all dest: machine_inv_memory)
    then show ?thesis using failed(2) by (blast dest: rewrite_cases intro: write_atomic_machine)
  qed
qed

text \<open>What a restart makes of a file the store wrote: nothing is lost but what age evicts.\<close>

lemma load_own_file:
  assumes wf: "jobs_wf js" and st: "jobs_stamped fromiso js" and now: "stamp_ok fromiso now_iso"
  shows "load fromiso now_iso now (Rows (rows_of js)) = (s, changed) \<Longrightarrow>
    jobs s = filter (\<lambda>(k, j). \<not> expired_terminal fromiso now j) (recover_all now_iso js) \<and>
    jfile s = Rows (rows_of js) \<and>
    crashed_ingest_on_load s = (\<exists>j \<in> set (dict_values js). arms_guard j)"
proof -
  assume ld: "load fromiso now_iso now (Rows (rows_of js)) = (s, changed)"
  note ev = evict_old_stamped [OF jobs_stamped_recover_all [OF st now], of now]
  from load_written_jobs [OF wf ev] ld show ?thesis
    by (auto simp: load_def Let_def split: option.splits prod.splits)
qed

lemma load_machine:
  assumes "load fromiso now_iso now f = (s, changed)" and "file_wf fromiso f" and "stamp_ok fromiso now_iso"
  shows "machine_inv fromiso s"
proof -
  consider "f = No_file" | js where "jobs_wf js" "jobs_stamped fromiso js" "f = Rows (rows_of js)"
    using assms(2) by (auto simp: file_wf_def)
  then show ?thesis
  proof cases
    case 1
    then show ?thesis using assms by (auto simp: load_def machine_inv_def store_inv_def file_wf_def Let_def)
  next
    case 2
    with load_own_file [OF 2(1,2) assms(3)] assms(1) have
      "jobs s = filter (\<lambda>(k, j). \<not> expired_terminal fromiso now j) (recover_all now_iso js)"
      "jfile s = Rows (rows_of js)" by auto
    then show ?thesis
      using 2 assms(3) by (auto simp: machine_inv_def store_inv_def file_wf_def
        intro!: jobs_wf_filter recover_all_wf jobs_stamped_filter jobs_stamped_recover_all)
  qed
qed

lemma init_store_machine:
  "init_store fromiso now_iso now a f = (r, s) \<Longrightarrow> file_wf fromiso f \<Longrightarrow> stamp_ok fromiso now_iso \<Longrightarrow>
   machine_inv fromiso s"
  by (auto simp: init_store_def split: prod.splits if_splits dest: load_machine intro: write_atomic_machine)

lemma store_step_machine:
  "store_step fromiso s s' \<Longrightarrow> machine_inv fromiso s \<Longrightarrow> machine_inv fromiso s'"
  by (induction rule: store_step.induct)
     (auto intro: create_job_machine update_machine transition_machine cancel_machine
        init_store_machine dest: machine_inv_file)

interpretation jobs_machine: machine_invariant fresh_install "store_step fromiso" "machine_inv fromiso"
  for fromiso
proof unfold_locales
  show "fresh_install s \<Longrightarrow> machine_inv fromiso s" for s
    by (simp add: fresh_install_def machine_inv_def store_inv_def file_wf_def)
  show "machine_inv fromiso s \<Longrightarrow> store_step fromiso s t \<Longrightarrow> machine_inv fromiso t" for s t
    by (rule store_step_machine)
qed

end
