(* ===== verification/Job_Scheduler.thy ===== *)
theory Job_Scheduler
  imports Job_Machine "HOL-Library.Sublist"
begin

text \<open>
  \<open>archon_search/jobs/scheduler.py\<close>: one tick of the bulk-job scheduler. The scheduler's own state is the
  set of job ids whose last claim failed; its effects are on the job store and on \<open>dispatch_fn\<close>, whose
  calls are recorded in \<open>dispatched\<close>. The callback is a parameter that says whether the call returned.
  The write attempts of a job's claim, of the claim's corrective rewrite and of the failure mark are
  given per job id.
\<close>

record scheduler =
  sstore :: job_store
  claim_failures :: "string list"
  dispatched :: "job list"

record claim_attempts =
  claim_write :: write_attempt
  claim_rewrite :: write_attempt
  mark_write :: write_attempt

definition dispatch_failed_detail :: string where
  "dispatch_failed_detail = ''dispatch_failed; see the server log for details''"

definition log_claim_failure :: "string \<Rightarrow> scheduler \<Rightarrow> scheduler" where
  "log_claim_failure jid w =
     (if jid \<in> set (claim_failures w) then w
      else w\<lparr>claim_failures := claim_failures w @ [jid]\<rparr>)"

definition mark_dispatch_failed ::
    "(string \<Rightarrow> int option) \<Rightarrow> string \<Rightarrow> write_attempt \<Rightarrow> string \<Rightarrow> scheduler \<Rightarrow> store_exc option \<times> scheduler" where
  "mark_dispatch_failed fromiso now a jid w =
     (case update fromiso now a jid [Set_status FAILED, Set_error (Some dispatch_failed_detail)] (sstore w) of
        (Inl e, s') \<Rightarrow> (if is_exception e then None else Some e, w\<lparr>sstore := s'\<rparr>)
      | (Inr _, s') \<Rightarrow> (None, w\<lparr>sstore := s'\<rparr>))"

text \<open>The body of the loop of \<open>_tick\<close> for one queued job.\<close>

definition tick_job ::
    "(string \<Rightarrow> int option) \<Rightarrow> string \<Rightarrow> (string \<Rightarrow> claim_attempts) \<Rightarrow> (job \<Rightarrow> bool) \<Rightarrow> job \<Rightarrow> scheduler \<Rightarrow>
     store_exc option \<times> scheduler" where
  "tick_job fromiso now att dispatch j w =
     (case transition fromiso now (claim_write (att (job_id j))) (claim_rewrite (att (job_id j)))
             (job_id j) [QUEUED] RUNNING [] (sstore w) of
        (Inl e, s') \<Rightarrow>
          (if is_exception e then (None, log_claim_failure (job_id j) (w\<lparr>sstore := s'\<rparr>))
           else (Some e, w\<lparr>sstore := s'\<rparr>))
      | (Inr promoted, s') \<Rightarrow>
          (let w1 = w\<lparr>sstore := s', claim_failures := removeAll (job_id j) (claim_failures w)\<rparr>
           in case promoted of
                None \<Rightarrow> (None, w1)
              | Some p \<Rightarrow>
                  (let w2 = w1\<lparr>dispatched := dispatched w1 @ [p]\<rparr>
                   in if dispatch p then (None, w2)
                      else mark_dispatch_failed fromiso now (mark_write (att (job_id j))) (job_id j) w2)))"

definition slots :: "int \<Rightarrow> nat \<Rightarrow> nat" where
  "slots max_concurrent running = nat (max 0 (max_concurrent - int running))"

text \<open>\<open>running\<close> is the number of registered tasks that are not done when the tick starts.\<close>

definition tick ::
    "(string \<Rightarrow> int option) \<Rightarrow> string \<Rightarrow> (string \<Rightarrow> claim_attempts) \<Rightarrow> (job \<Rightarrow> bool) \<Rightarrow> int \<Rightarrow> nat \<Rightarrow> scheduler \<Rightarrow>
     store_exc option \<times> scheduler" where
  "tick fromiso now att dispatch max_concurrent running w =
     (let queued = list_queued_bulk (sstore w);
          w1 = w\<lparr>claim_failures := filter (\<lambda>i. i \<in> job_id ` set queued) (claim_failures w)\<rparr>
      in run_all (tick_job fromiso now att dispatch) (take (slots max_concurrent running) queued) w1)"

section \<open>One claim\<close>

lemma log_claim_failure_frame [simp]:
  "sstore (log_claim_failure i w) = sstore w" "dispatched (log_claim_failure i w) = dispatched w"
  by (simp_all add: log_claim_failure_def)

lemma mark_dispatch_failed_cases:
  "mark_dispatch_failed fromiso now a jid w = (r, w') \<Longrightarrow>
   \<exists>ru s'. update fromiso now a jid [Set_status FAILED, Set_error (Some dispatch_failed_detail)] (sstore w) = (ru, s') \<and>
      w' = w\<lparr>sstore := s'\<rparr>"
  by (auto simp: mark_dispatch_failed_def split: prod.splits sum.splits)

lemma tick_job_cases:
  assumes "tick_job fromiso now att dispatch j w = (r, w')"
  obtains (claim_failed) e s' where
      "transition fromiso now (claim_write (att (job_id j))) (claim_rewrite (att (job_id j)))
         (job_id j) [QUEUED] RUNNING [] (sstore w) = (Inl e, s')"
      "sstore w' = s'" "dispatched w' = dispatched w" "r = (if is_exception e then None else Some e)"
  | (taken) s' where
      "transition fromiso now (claim_write (att (job_id j))) (claim_rewrite (att (job_id j)))
         (job_id j) [QUEUED] RUNNING [] (sstore w) = (Inr None, s')"
      "sstore w' = s'" "dispatched w' = dispatched w" "r = None"
  | (promoted) p s' where
      "transition fromiso now (claim_write (att (job_id j))) (claim_rewrite (att (job_id j)))
         (job_id j) [QUEUED] RUNNING [] (sstore w) = (Inr (Some p), s')"
      "dispatched w' = dispatched w @ [p]"
      "sstore w' = s' \<and> dispatch p \<and> r = None \<or>
       \<not> dispatch p \<and> (\<exists>ru. update fromiso now (mark_write (att (job_id j))) (job_id j)
            [Set_status FAILED, Set_error (Some dispatch_failed_detail)] s' = (ru, sstore w'))"
proof -
  obtain rt s' where tr: "transition fromiso now (claim_write (att (job_id j)))
      (claim_rewrite (att (job_id j))) (job_id j) [QUEUED] RUNNING [] (sstore w) = (rt, s')"
    by fastforce
  show ?thesis
  proof (cases rt)
    case (Inl e)
    with assms tr claim_failed show ?thesis
      by (auto simp: tick_job_def split: if_splits)
  next
    case (Inr x)
    show ?thesis
    proof (cases x)
      case None
      with assms tr Inr taken show ?thesis by (auto simp: tick_job_def)
    next
      case (Some p)
      with assms tr Inr promoted [of p s'] show ?thesis
        by (fastforce simp: tick_job_def Let_def split: if_splits dest: mark_dispatch_failed_cases)
    qed
  qed
qed

lemma tick_job_machine:
  assumes "tick_job fromiso now att dispatch j w = (r, w')" and "stamp_ok fromiso now"
    and "machine_inv fromiso (sstore w)"
  shows "machine_inv fromiso (sstore w')"
  using assms(1)
proof (cases rule: tick_job_cases)
  case (promoted p s')
  then show ?thesis using assms(2,3) by (blast intro: transition_machine update_machine)
qed (use assms(2,3) in \<open>auto intro: transition_machine\<close>)

definition sched_inv :: "(string \<Rightarrow> int option) \<Rightarrow> string \<Rightarrow> scheduler \<Rightarrow> bool" where
  "sched_inv fromiso now w \<longleftrightarrow>
     stamp_ok fromiso now \<and> machine_inv fromiso (sstore w) \<and>
     (\<forall>p \<in> set (dispatched w). status p = RUNNING)"

lemma sched_inv_store: "sched_inv fromiso now w \<Longrightarrow> store_inv (sstore w)"
  by (simp add: sched_inv_def machine_inv_def)

lemma tick_job_sched_inv:
  assumes "tick_job fromiso now att dispatch j w = (r, w')" and inv: "sched_inv fromiso now w"
  shows "sched_inv fromiso now w'"
proof -
  have "machine_inv fromiso (sstore w')"
    using assms tick_job_machine unfolding sched_inv_def by blast
  moreover from assms(1) have "\<forall>p \<in> set (dispatched w'). status p = RUNNING"
  proof (cases rule: tick_job_cases)
    case (promoted p s')
    from transition_claimed [OF promoted(1) sched_inv_store [OF inv]] have "status p = RUNNING" by auto
    with promoted(2) inv show ?thesis by (auto simp: sched_inv_def)
  qed (use inv in \<open>auto simp: sched_inv_def\<close>)
  ultimately show ?thesis using inv by (simp add: sched_inv_def)
qed

lemma tick_job_dispatches: "tick_job fromiso now att dispatch j w = (r, w') \<Longrightarrow>
   length (dispatched w') \<le> Suc (length (dispatched w))"
  by (erule tick_job_cases) auto

interpretation tick_loop: loop_contract "tick_job fromiso now att dispatch" "sched_inv fromiso now"
    "\<lambda>w. length (dispatched w)"
  for fromiso now att dispatch
  by unfold_locales (auto intro: tick_job_sched_inv tick_job_dispatches)

section \<open>The whole tick\<close>

lemma tick_loop_order:
  assumes "run_all (tick_job fromiso now att dispatch) js w = (r, w')" and "sched_inv fromiso now w"
  shows "\<exists>ps. dispatched w' = dispatched w @ ps \<and> subseq (map job_id ps) (map job_id js)"
  using assms
proof (induction js arbitrary: w)
  case (Cons j js)
  obtain e w1 where w1: "tick_job fromiso now att dispatch j w = (e, w1)" by fastforce
  note inv1 = tick_job_sched_inv [OF w1 Cons.prems(2)]
  from w1 obtain ps1 where ps1: "dispatched w1 = dispatched w @ ps1" "ps1 = [] \<or> (\<exists>p. ps1 = [p] \<and> job_id p = job_id j)"
  proof (cases rule: tick_job_cases)
    case (promoted p s')
    from transition_claimed [OF promoted(1) sched_inv_store [OF Cons.prems(2)]]
    have "job_id p = job_id j" by auto
    with promoted(2) that show ?thesis by blast
  qed (use that in auto)
  show ?case
  proof (cases e)
    case None
    with Cons.prems(1) w1 have "run_all (tick_job fromiso now att dispatch) js w1 = (r, w')" by simp
    from Cons.IH [OF this inv1] ps1 show ?thesis by auto
  next
    case (Some x)
    with Cons.prems(1) w1 ps1 show ?thesis by auto
  qed
qed simp

section \<open>Progress\<close>

lemma transition_succeeds:
  assumes inv: "machine_inv fromiso s" and st: "stamp_ok fromiso now" and w: "outcome a1 = Persisted"
    and j: "dict_get (jobs s) jid = Some j" "status j \<in> set from_sts"
  shows "\<exists>j' s'. transition fromiso now a1 a2 jid from_sts to_st [] s = (Inr (Some j'), s')"
proof -
  let ?s = "s\<lparr>jobs := dict_set jid (j\<lparr>updated_at := now, status := to_st\<rparr>) (jobs s)\<rparr>"
  have "memory_ok fromiso (jobs ?s)"
    using memory_ok_getD [OF machine_inv_memory [OF inv] j(1)] inv st
    by (auto intro!: memory_ok_set dest: machine_inv_memory simp: post_init_ok_def)
  then have "evict_old fromiso (at_time a1) (jobs ?s) \<noteq> None"
    by (simp add: memory_ok_def evict_old_stamped)
  from write_atomic_Persisted [OF w this] j show ?thesis
    by (auto simp: transition_def update_def)
qed

definition all_queued :: "job list \<Rightarrow> job_store \<Rightarrow> bool" where
  "all_queued js s \<longleftrightarrow> (\<forall>j \<in> set js. dict_get (jobs s) (job_id j) = Some j \<and> status j = QUEUED)"

lemma claimed_others:
  assumes "only_evicts (s\<lparr>jobs := dict_set jid p (jobs s)\<rparr>) s'"
    and "dict_get (jobs s) k = Some j" and "k \<noteq> jid" and "status j \<notin> set terminal_statuses"
  shows "dict_get (jobs s') k = Some j"
  using assms unfolding only_evicts_def by auto

lemma claimed_self:
  assumes "only_evicts (s\<lparr>jobs := dict_set jid p (jobs s)\<rparr>) s'" and "status p \<notin> set terminal_statuses"
  shows "dict_get (jobs s') jid = Some p"
  using assms unfolding only_evicts_def by auto

lemma tick_loop_progress:
  assumes "sched_inv fromiso now w" and "all_queued js (sstore w)" and "distinct (map job_id js)"
    and "\<forall>j \<in> set js. outcome (claim_write (att (job_id j))) = Persisted" and "\<forall>p. dispatch p"
  shows "\<exists>ps w'. run_all (tick_job fromiso now att dispatch) js w = (None, w') \<and>
     dispatched w' = dispatched w @ ps \<and> map job_id ps = map job_id js \<and>
     (\<forall>p \<in> set ps. dict_get (jobs (sstore w')) (job_id p) = Some p) \<and>
     (\<forall>k j. dict_get (jobs (sstore w)) k = Some j \<longrightarrow> status j = RUNNING \<longrightarrow>
        dict_get (jobs (sstore w')) k = Some j)"
  using assms
proof (induction js arbitrary: w)
  case Nil
  then show ?case by simp
next
  case (Cons j js)
  let ?a = "att (job_id j)"
  have q: "dict_get (jobs (sstore w)) (job_id j) = Some j" "status j = QUEUED"
    using Cons.prems(2) by (auto simp: all_queued_def)
  have inv: "machine_inv fromiso (sstore w)" "stamp_ok fromiso now"
    using Cons.prems(1) by (auto simp: sched_inv_def)
  obtain p s' where tr: "transition fromiso now (claim_write ?a) (claim_rewrite ?a) (job_id j)
      [QUEUED] RUNNING [] (sstore w) = (Inr (Some p), s')"
    using transition_succeeds [OF inv, of "claim_write ?a" "job_id j" j "[QUEUED]" "claim_rewrite ?a" RUNNING]
      Cons.prems(4) q by auto
  from transition_claimed [OF tr] inv have p: "status p = RUNNING" "job_id p = job_id j"
    and ev: "only_evicts ((sstore w)\<lparr>jobs := dict_set (job_id j) p (jobs (sstore w))\<rparr>) s'"
    by (auto simp: machine_inv_def)
  obtain w1 where w1: "tick_job fromiso now att dispatch j w = (None, w1)" "sstore w1 = s'"
      "dispatched w1 = dispatched w @ [p]"
    using tr Cons.prems(5) by (auto simp: tick_job_def Let_def)
  have "dict_get (jobs s') (job_id i) = Some i \<and> status i = QUEUED" if "i \<in> set js" for i
  proof -
    have "job_id i \<noteq> job_id j" using Cons.prems(3) that by (auto simp: image_iff)
    then show ?thesis
      using Cons.prems(2) that claimed_others [OF ev, of "job_id i" i]
      by (auto simp: all_queued_def status_class_defs)
  qed
  then have "all_queued js (sstore w1)" by (simp add: all_queued_def w1(2))
  moreover have "distinct (map job_id js)" "\<forall>i \<in> set js. outcome (claim_write (att (job_id i))) = Persisted"
    using Cons.prems(3,4) by auto
  ultimately obtain ps w' where r: "run_all (tick_job fromiso now att dispatch) js w1 = (None, w')"
      "dispatched w' = dispatched w1 @ ps" "map job_id ps = map job_id js"
      "\<forall>p \<in> set ps. dict_get (jobs (sstore w')) (job_id p) = Some p"
      "\<forall>k j. dict_get (jobs (sstore w1)) k = Some j \<longrightarrow> status j = RUNNING \<longrightarrow> dict_get (jobs (sstore w')) k = Some j"
    using Cons.IH [OF tick_job_sched_inv [OF w1(1) Cons.prems(1)]] Cons.prems(5) by blast
  have self: "dict_get (jobs s') (job_id j) = Some p"
    using p by (auto intro: claimed_self [OF ev] simp: status_class_defs)
  have "\<forall>k j'. dict_get (jobs (sstore w)) k = Some j' \<longrightarrow> status j' = RUNNING \<longrightarrow> dict_get (jobs s') k = Some j'"
    using q claimed_others [OF ev] by (fastforce simp: status_class_defs)
  then have "\<forall>k j'. dict_get (jobs (sstore w)) k = Some j' \<longrightarrow> status j' = RUNNING \<longrightarrow>
      dict_get (jobs (sstore w')) k = Some j'" using r(5) w1(2) by auto
  moreover have "dict_get (jobs (sstore w')) (job_id p) = Some p"
    using r(5) w1(2) self p by auto
  ultimately show ?case using w1 r p by (intro exI [of _ "p # ps"]) auto
qed

lemma queued_bulk_in_store:
  "store_inv s \<Longrightarrow> all_queued (list_queued_bulk s) s"
  by (auto simp: all_queued_def list_queued_bulk_def store_inv_def jobs_wf_values_iff queued_bulk_def)

lemma jobs_wf_ids: "jobs_wf js \<Longrightarrow> map job_id (dict_values js) = dict_keys js"
  by (induction js) (auto simp: dict_values_def dict_keys_def dest: jobs_wf_ConsD)

lemma list_queued_bulk_distinct:
  assumes "store_inv s"
  shows "distinct (map job_id (list_queued_bulk s))"
proof -
  have "distinct (map job_id (dict_values (jobs s)))"
    using assms by (auto simp: store_inv_def jobs_wf_ids) (simp add: jobs_wf_def dict_ok_def dict_keys_def)
  then have "distinct (map job_id (filter queued_bulk (dict_values (jobs s))))"
    by (simp add: distinct_map inj_on_def)
  then show ?thesis
    by (simp add: list_queued_bulk_def distinct_map)
qed

end
