(* ===== verification/Job_Properties.thy ===== *)
theory Job_Properties
  imports Job_Scheduler
begin

text \<open>
  The properties of the job store and of the scheduler, each with a witness on a small concrete store:
  one queued export job \<open>j1\<close>, one failed ingest job \<open>j2\<close>, a clock that reads every stamp as time 0.
\<close>

section \<open>Witness data\<close>

definition zero_clock :: "string \<Rightarrow> int option" where
  "zero_clock t = Some 0"

definition ok_write :: write_attempt where
  "ok_write = \<lparr>at_time = 0, outcome = Persisted\<rparr>"

definition lost_write :: write_attempt where
  "lost_write = \<lparr>at_time = 0, outcome = Raised_before OSError\<rparr>"

definition j1 :: job where
  "j1 = new_export ''j1'' ''t'' ''docs'' ''out'' ''tmp'' ''default'' ''user''"

definition j2 :: job where
  "j2 = (new_ingest ''j2'' ''t'' ''default'' ''user'' ''p'' ''docs'' None 0)\<lparr>status := FAILED\<rparr>"

definition s12 :: job_store where
  "s12 = \<lparr>jobs = [(''j1'', j1), (''j2'', j2)], jfile = Rows (rows_of [(''j1'', j1), (''j2'', j2)]),
          crashed_ingest_on_load = False\<rparr>"

definition fresh :: job_store where
  "fresh = \<lparr>jobs = [], jfile = No_file, crashed_ingest_on_load = False\<rparr>"

definition with_job :: "job \<Rightarrow> job_store" where
  "with_job j = \<lparr>jobs = [(job_id j, j)], jfile = Rows (rows_of [(job_id j, j)]), crashed_ingest_on_load = False\<rparr>"

lemmas witness_defs =
  zero_clock_def ok_write_def lost_write_def j1_def j2_def s12_def fresh_def with_job_def
  new_export_def new_ingest_def base_job_def

lemma j1_fields [simp]:
  "job_id j1 = ''j1''" "status j1 = QUEUED" "post_init_ok j1" "details j1 \<noteq> IngestJob" "collection j1 = ''docs''"
  "updated_at j1 = ''t''" "queued_bulk j1"
  by (simp_all add: witness_defs post_init_ok_def valid_ingest_sources_def queued_bulk_def)

lemma j2_fields [simp]:
  "job_id j2 = ''j2''" "status j2 = FAILED" "post_init_ok j2" "details j2 = IngestJob" "collection j2 = ''docs''"
  "\<not> queued_bulk j2"
  by (simp_all add: witness_defs post_init_ok_def valid_ingest_sources_def queued_bulk_def)

lemma stamp_zero [simp]: "stamp_ok zero_clock t"
  by (simp add: stamp_ok_def zero_clock_def)

lemma expired_zero [simp]: "\<not> expired_terminal zero_clock 0 j"
  by (simp add: expired_terminal_def zero_clock_def eviction_micros_def split: option.splits)

lemma evict_zero [simp]: "evict_old zero_clock 0 js = Some js"
proof -
  have "zero_clock t \<noteq> None" for t by (simp add: zero_clock_def)
  then show ?thesis by (simp add: evict_old_def)
qed

lemma write_ok [simp]: "write_atomic zero_clock ok_write s = (Inr (), s\<lparr>jfile := Rows (rows_of (jobs s))\<rparr>)"
  by (simp add: write_atomic_def ok_write_def)

lemma write_lost [simp]: "write_atomic zero_clock lost_write s = (Inl OSError, s)"
  by (simp add: write_atomic_def lost_write_def)

lemma jobs_s12 [simp]: "jobs s12 = [(''j1'', j1), (''j2'', j2)]"
  by (simp add: s12_def)

lemma s12_inv [simp]: "store_inv s12"
  by (simp add: store_inv_def jobs_wf_def dict_ok_def)

lemma s12_machine [simp]: "machine_inv zero_clock s12"
  using s12_inv
  by (auto simp: machine_inv_def file_wf_def s12_def jobs_stamped_def store_inv_def simp del: s12_inv)

lemma j1_reachable: "reachable fresh_install (store_step zero_clock) (with_job j1)"
proof (rule reach_step)
  show "reachable fresh_install (store_step zero_clock) fresh"
    by (rule reach_init) (simp add: fresh_install_def fresh_def)
  show "store_step zero_clock fresh (with_job j1)"
    by (rule step_create [of j1 _ ok_write ok_write _ "Inr j1"])
       (simp_all add: create_job_def fresh_def with_job_def dict_set_def)
qed

section \<open>Claims, creation, updates\<close>

text \<open>
  C1: \<open>JobStore.transition\<close> is a compare-and-set claim. A refusal (unknown id, or a status outside
  \<open>from_statuses\<close>) changes nothing; a success means the job was in one of \<open>from_statuses\<close>, now has exactly
  \<open>to_status\<close> in memory, and the jobs file equals memory; when the write raises, whatever the write or the
  corrective rewrite left, memory holds every job as it was. In both cases the only jobs that leave memory are ended ones whose last
  change is more than seven days before a write. The extra fields of the call are assumed not to set the status themselves.
\<close>

theorem transition_compare_and_set:
  assumes "store_inv s" and "list_all (\<lambda>c. \<not> sets_status c) flds"
    and "transition fromiso now a1 a2 jid from_sts to_st flds s = (r, s')"
  shows "store_inv s' \<and>
    (case r of
       Inr None \<Rightarrow> s' = s \<and> (\<forall>j. get jid s = Some j \<longrightarrow> status j \<notin> set from_sts)
     | Inr (Some p) \<Rightarrow> status p = to_st \<and> job_id p = jid \<and>
         (\<exists>j. get jid s = Some j \<and> status j \<in> set from_sts) \<and>
         loses_only_expired fromiso {at_time a1} (s\<lparr>jobs := dict_set jid p (jobs s)\<rparr>) s' \<and> file_current s'
     | Inl e \<Rightarrow> loses_only_expired fromiso {at_time a1, at_time a2} s s')"
proof (cases r)
  case (Inl e)
  then show ?thesis using assms by (auto intro: transition_rollback_loses transition_inv)
next
  case (Inr x)
  show ?thesis
  proof (cases x)
    case None
    have "s' = s \<and> (\<forall>j. get jid s = Some j \<longrightarrow> status j \<notin> set from_sts)"
      using assms(3) by (cases rule: transition_cases)
        (auto simp: get_def Inr None dest: reraise_cases(2))
    then show ?thesis using assms Inr None by simp
  next
    case (Some p)
    then show ?thesis
      using transition_claimed [of fromiso now a1 a2 jid from_sts to_st flds s p s']
        transition_claimed_loses [of fromiso now a1 a2 jid from_sts to_st flds s p s'] assms Inr
      by (auto simp: get_def intro: transition_inv)
  qed
qed

theorem transition_compare_and_set_witness:
  "\<exists>s'. transition zero_clock ''t'' lost_write ok_write ''j1'' [QUEUED] RUNNING [] s12 = (Inl OSError, s') \<and>
        loses_only_expired zero_clock {at_time lost_write, at_time ok_write} s12 s'"
proof -
  have tr: "transition zero_clock ''t'' lost_write ok_write ''j1'' [QUEUED] RUNNING [] s12 =
      (Inl OSError, s12)"
    by (simp add: transition_def update_def reraise_after_rewrite_def rewrite_after_failed_persist_def
        dict_set_def s12_def)
  show ?thesis using transition_compare_and_set [OF s12_inv _ tr] tr by simp
qed

text \<open>
  \<open>JobStore.create_job\<close> is all or nothing: it returns the job with memory extended by exactly it (less
  expired ended jobs) and the file equal to memory, or it raises and the job is not in memory while every
  other job is as it was.
\<close>

lemma create_job_all_or_nothing:
  assumes "store_inv s" and "post_init_ok j" and "get (job_id j) s = None"
    and "create_job fromiso a1 a2 j s = (r, s')"
  shows "store_inv s' \<and>
    (case r of
       Inr j' \<Rightarrow> j' = j \<and> only_evicts (s\<lparr>jobs := dict_set (job_id j) j (jobs s)\<rparr>) s' \<and> file_current s'
     | Inl e \<Rightarrow> only_evicts s s' \<and> get (job_id j) s' = None)"
  using assms create_job_rollback [of fromiso a1 a2 j s _ s'] create_job_created [of fromiso a1 a2 j s _ s']
  by (auto simp: get_def intro: create_job_inv split: sum.splits)

theorem create_job_all_or_nothing_witness:
  "create_job zero_clock ok_write ok_write j1 fresh = (Inr j1, with_job j1) \<and> file_current (with_job j1)"
proof -
  have c: "create_job zero_clock ok_write ok_write j1 fresh = (Inr j1, with_job j1)"
    by (simp add: create_job_def fresh_def with_job_def dict_set_def)
  have "store_inv fresh" "get (job_id j1) fresh = None" by (simp_all add: fresh_def store_inv_def get_def)
  from create_job_all_or_nothing [OF this(1) _ this(2) c] c show ?thesis by simp
qed

text \<open>
  \<open>JobStore.update\<close> records the outcome of work already done, so its change outlives a failed
  persist: whether or not the write raised, memory holds the changed job (stamped less than seven days
  ago), and the next write of the store that succeeds, of any job, puts the changed job in the file.
\<close>

lemma update_outlives_failed_persist:
  assumes "store_inv s" and "get jid s = Some j" and "replace cs (j\<lparr>updated_at := now\<rparr>) = Some j'"
    and "update fromiso now a jid cs s = (r, s')"
    and "fromiso now = Some t" and "at_time a \<le> t + eviction_micros"
    and "write_atomic fromiso b s' = (Inr (), s'')" and "at_time b \<le> t + eviction_micros"
  shows "get jid s' = Some j' \<and> jfile s'' = Rows (rows_of (jobs s'')) \<and> j' \<in> set (dict_values (jobs s''))"
proof -
  have up: "updated_at j' = now" using replace_frame [OF assms(3)] by simp
  then have young: "\<not> expired_terminal fromiso (at_time a) j'" "\<not> expired_terminal fromiso (at_time b) j'"
    using assms(5,6,8) by (simp_all add: expired_terminal_def)
  let ?s = "s\<lparr>jobs := dict_set jid j' (jobs s)\<rparr>"
  have inv: "store_inv ?s" using assms(1-3) by (auto simp: get_def intro: replaced_wf)
  obtain w where w: "write_atomic fromiso a ?s = (w, s')"
    using assms(2-4) by (auto simp: update_def get_def split: prod.splits sum.splits)
  have g1: "dict_get (jobs s') jid = Some j'"
    using w by (cases rule: write_atomic_cases)
      (use inv young in \<open>auto simp: store_inv_def jobs_wf_def evict_old_get\<close>)
  have inv': "store_inv s'" using w inv by (rule write_atomic_inv)
  have "dict_get (jobs s'') jid = Some j'"
    using assms(7) by (cases rule: write_atomic_cases)
      (use inv' young g1 in \<open>auto simp: store_inv_def jobs_wf_def evict_old_get\<close>)
  then have "j' \<in> set (dict_values (jobs s''))" by (force simp: dict_values_def dest: dict_get_SomeD)
  then show ?thesis using g1 write_atomic_Inr [OF assms(7)] by (simp add: get_def file_current_def)
qed

theorem update_outlives_failed_persist_witness:
  "\<exists>s' s''. update zero_clock ''t'' lost_write ''j1'' [Set_status DONE] s12 = (Inl OSError, s') \<and>
     write_atomic zero_clock ok_write s' = (Inr (), s'') \<and> j1\<lparr>status := DONE\<rparr> \<in> set (dict_values (jobs s''))"
proof -
  let ?j = "j1\<lparr>status := DONE\<rparr>"
  let ?s' = "s12\<lparr>jobs := [(''j1'', ?j), (''j2'', j2)]\<rparr>"
  have up: "update zero_clock ''t'' lost_write ''j1'' [Set_status DONE] s12 = (Inl OSError, ?s')"
    by (simp add: update_def dict_set_def)
  have g: "get ''j1'' s12 = Some j1" by (simp add: get_def)
  have r: "replace [Set_status DONE] (j1\<lparr>updated_at := ''t''\<rparr>) = Some ?j" by simp
  have t: "zero_clock ''t'' = Some 0" "at_time lost_write \<le> 0 + eviction_micros" "at_time ok_write \<le> 0 + eviction_micros"
    by (simp_all add: zero_clock_def lost_write_def ok_write_def eviction_micros_def)
  from update_outlives_failed_persist [OF s12_inv g r up t(1,2) write_ok t(3)] up show ?thesis by auto
qed

section \<open>Restart\<close>

text \<open>
  C2: A restart loses nothing but what age evicts. From any state the store can reach through its
  operations and crashes, whose file is current, loading the file gives exactly the recovered form of every
  job of that state except those that ended more than seven days ago: no job is RUNNING or CANCELLING any
  more, and the crash-loop guard is armed exactly when an ingest or sync job was killed while it ran.
\<close>

theorem restart_recovers:
  assumes "reachable fresh_install (store_step fromiso) s" and "file_current s"
    and "stamp_ok fromiso now_iso" and "load fromiso now_iso now (jfile s) = (s', changed)"
  shows "(\<forall>k. get k s' =
            (case get k s of None \<Rightarrow> None
             | Some j \<Rightarrow> if expired_terminal fromiso now (recovered now_iso j) then None
                         else Some (recovered now_iso j))) \<and>
         (\<forall>j \<in> set (list_jobs s'). status j \<noteq> RUNNING \<and> status j \<noteq> CANCELLING) \<and>
         crashed_ingest_on_load s' = (\<exists>j \<in> set (list_jobs s). arms_guard j)"
proof -
  have inv: "machine_inv fromiso s" using assms(1) by (rule jobs_machine.inv_reachable)
  then have wf: "jobs_wf (jobs s)" "jobs_stamped fromiso (jobs s)"
    by (simp_all add: machine_inv_def store_inv_def)
  have "load fromiso now_iso now (Rows (rows_of (jobs s))) = (s', changed)"
    using assms(2,4) by (simp add: file_current_def)
  note own = load_own_file [OF wf assms(3) this]
  have "dict_ok (recover_all now_iso (jobs s))" using recover_all_wf [OF wf(1)] by (simp add: jobs_wf_def)
  then have "get k s' = (case get k s of None \<Rightarrow> None
             | Some j \<Rightarrow> if expired_terminal fromiso now (recovered now_iso j) then None
                         else Some (recovered now_iso j))" for k
    using own by (simp add: get_def dict_get_filter dict_get_recover_all split: option.splits)
  then show ?thesis using own load_settled [OF assms(4)] by (auto simp: list_jobs_def)
qed

theorem restart_recovers_witness:
  "\<exists>s' changed. load zero_clock ''u'' 0 (jfile (with_job j1)) = (s', changed) \<and>
      get ''j1'' s' = Some j1 \<and> \<not> crashed_ingest_on_load s'"
proof -
  obtain s' changed where ld: "load zero_clock ''u'' 0 (jfile (with_job j1)) = (s', changed)" by fastforce
  have cur: "file_current (with_job j1)" by (simp add: with_job_def file_current_def)
  have rec: "recovered ''u'' j1 = j1"
    by (simp add: recovered_def recover_job_def status_class_defs never_started_on_load_def
        never_scheduled_on_load_job_types_def) (simp add: witness_defs)
  have "\<not> arms_guard j1" by (simp add: arms_guard_def)
  then show ?thesis
    using restart_recovers [OF j1_reachable cur stamp_zero ld] ld rec
    by (auto simp: get_def list_jobs_def with_job_def dict_values_def)
qed

text \<open>
  Killed while it runs. A job whose claim to RUNNING was acknowledged is, after a crash and a restart
  within seven days of the restart's own stamp, FAILED with \<open>process_restart\<close>, never RUNNING again and never
  silently queued; if it is an ingest or a sync job the crash-loop guard is armed.
\<close>

lemma crash_after_claim:
  assumes "reachable fresh_install (store_step fromiso) s" and "stamp_ok fromiso now"
    and "transition fromiso now a1 a2 jid from_sts RUNNING [] s = (Inr (Some p), s1)"
    and "fromiso now_iso = Some t" and "now2 \<le> t + eviction_micros"
    and "load fromiso now_iso now2 (jfile s1) = (s2, changed)"
  shows "get jid s2 = Some (p\<lparr>status := FAILED, error := Some process_restart_error, updated_at := now_iso\<rparr>) \<and>
         crashed_ingest_on_load s2 = (\<exists>j \<in> set (list_jobs s1). arms_guard j) \<and>
         (job_type (details p) \<in> {''ingest'', ''sync''} \<longrightarrow> crashed_ingest_on_load s2)"
proof -
  have inv: "machine_inv fromiso s" using assms(1) by (rule jobs_machine.inv_reachable)
  have inv1: "machine_inv fromiso s1" using assms(3) inv assms(2) by (rule transition_machine)
  from transition_claimed [OF assms(3)] inv have p: "status p = RUNNING" "file_current s1"
    and "only_evicts (s\<lparr>jobs := dict_set jid p (jobs s)\<rparr>) s1" by (auto simp: machine_inv_def)
  then have g: "dict_get (jobs s1) jid = Some p" by (auto intro: claimed_self simp: status_class_defs)
  have wf: "jobs_wf (jobs s1)" "jobs_stamped fromiso (jobs s1)"
    using inv1 by (simp_all add: machine_inv_def store_inv_def)
  have ld: "load fromiso now_iso now2 (Rows (rows_of (jobs s1))) = (s2, changed)"
    using assms(6) p(2) by (simp add: file_current_def)
  have st: "stamp_ok fromiso now_iso" using assms(4) by (simp add: stamp_ok_def)
  note own = load_own_file [OF wf st ld]
  have rec: "recovered now_iso p = p\<lparr>status := FAILED, error := Some process_restart_error, updated_at := now_iso\<rparr>"
    using p(1) by (simp add: recovered_def recover_job_def status_class_defs)
  have "dict_ok (recover_all now_iso (jobs s1))" using recover_all_wf [OF wf(1)] by (simp add: jobs_wf_def)
  then have "get jid s2 = Some (recovered now_iso p)"
    using own g assms(4,5) rec
    by (simp add: get_def dict_get_filter dict_get_recover_all expired_terminal_def)
  moreover have "p \<in> set (list_jobs s1)" using g by (force simp: list_jobs_def dict_values_def dest: dict_get_SomeD)
  ultimately show ?thesis using own rec p(1)
    by (auto simp: list_jobs_def arms_guard_def ingest_family_job_types_def)
qed

theorem crash_after_claim_witness:
  "\<exists>p s1 s2 changed.
     transition zero_clock ''t'' ok_write ok_write ''j1'' [QUEUED] RUNNING [] (with_job j1) = (Inr (Some p), s1) \<and>
     load zero_clock ''u'' 0 (jfile s1) = (s2, changed) \<and> map_option status (get ''j1'' s2) = Some FAILED"
proof -
  have "\<exists>p s1. transition zero_clock ''t'' ok_write ok_write ''j1'' [QUEUED] RUNNING [] (with_job j1) =
      (Inr (Some p), s1)"
    by (simp add: transition_def update_def with_job_def)
  then obtain p s1 where tr: "transition zero_clock ''t'' ok_write ok_write ''j1'' [QUEUED] RUNNING []
      (with_job j1) = (Inr (Some p), s1)" by blast
  obtain s2 changed where ld: "load zero_clock ''u'' 0 (jfile s1) = (s2, changed)" by fastforce
  have "zero_clock ''u'' = Some 0" by (simp add: zero_clock_def)
  from crash_after_claim [OF j1_reachable stamp_zero tr this _ ld] tr ld show ?thesis
    by (auto simp: eviction_micros_def)
qed

text \<open>
  The jobs file keeps every job class whole: reading back the row written for a job gives the job
  again exactly when the job's source is one \<open>__post_init__\<close> accepts, and two different jobs that can
  exist never share a row.
\<close>

lemma job_survives_file:
  "job_of_row (row_of_job j) = (if post_init_ok j then Some j else None)"
  by (simp add: job_of_row_def row_of_job_def row_type_def post_init_ok_def Let_def)

text \<open>
  C33: The representation invariant holds in every state the store can reach, crashes and failed writes
  included: every key is its job's id, no id occurs twice, every job has a valid source, and the store never
  reaches a state it cannot persist: a write the file system accepts succeeds and leaves the file equal to
  memory.
\<close>

theorem store_always_persistable:
  assumes "reachable fresh_install (store_step fromiso) s"
  shows "distinct (dict_keys (jobs s)) \<and>
         (\<forall>k j. get k s = Some j \<longrightarrow> job_id j = k \<and> source j \<in> {''user'', ''backup'', ''maintenance''}) \<and>
         (\<forall>a. outcome a = Persisted \<longrightarrow>
            (\<exists>s'. write_atomic fromiso a s = (Inr (), s') \<and> jfile s' = Rows (rows_of (jobs s'))))"
proof -
  have inv: "machine_inv fromiso s" using assms by (rule jobs_machine.inv_reachable)
  then have wf: "jobs_wf (jobs s)" and st: "jobs_stamped fromiso (jobs s)"
    by (simp_all add: machine_inv_def store_inv_def)
  have "evict_old fromiso t (jobs s) \<noteq> None" for t by (simp add: evict_old_stamped [OF st])
  then show ?thesis
    using write_atomic_Persisted [of _ fromiso s] jobs_wf_getD [OF wf] wf
    by (auto simp: get_def file_current_def post_init_ok_def valid_ingest_sources_def jobs_wf_def
        dict_ok_def dict_keys_def)
qed

theorem store_always_persistable_witness:
  "\<exists>s'. write_atomic zero_clock ok_write (with_job j1) = (Inr (), s') \<and> jfile s' = Rows (rows_of (jobs s'))"
  using store_always_persistable [OF j1_reachable] by (simp add: ok_write_def)

section \<open>Cancelling retries\<close>

text \<open>What cancelling does to memory, job by job.\<close>

definition cancelled_form :: "string \<Rightarrow> string \<Rightarrow> job \<Rightarrow> job" where
  "cancelled_form now coll j =
     (if retry_cancellable coll j then j\<lparr>status := CANCELLED, updated_at := now\<rparr> else j)"

lemma dict_get_cancelled:
  assumes "jobs_wf js"
  shows "dict_get (dict_set_all (cancel_copy now (retry_jobs coll js)) js) k =
    map_option (cancelled_form now coll) (dict_get js k)"
proof -
  have ok: "dict_ok js" using assms by (simp add: jobs_wf_def)
  have cc: "dict_get (cancel_copy now d) k = map_option (\<lambda>j. j\<lparr>status := CANCELLED, updated_at := now\<rparr>) (dict_get d k)"
    for d by (induction d) (auto simp: cancel_copy_def)
  have "dict_ok (cancel_copy now (retry_jobs coll js))"
    using cancel_copy_wf [OF retry_jobs_wf [OF assms]] by (simp add: jobs_wf_def)
  then show ?thesis
    by (simp add: dict_get_set_all cc retry_jobs_eq [OF assms] dict_get_filter [OF ok] cancelled_form_def
        split: option.splits)
qed

lemma dict_get_uncancelled:
  assumes "jobs_wf js"
  shows "dict_get (dict_set_all (retry_jobs coll js) d) k =
    (case dict_get js k of Some j \<Rightarrow> if retry_cancellable coll j then Some j else dict_get d k
     | None \<Rightarrow> dict_get d k)"
proof -
  have ok: "dict_ok js" using assms by (simp add: jobs_wf_def)
  have "dict_ok (retry_jobs coll js)" using retry_jobs_wf [OF assms] by (simp add: jobs_wf_def)
  then show ?thesis
    by (simp add: dict_get_set_all retry_jobs_eq [OF assms] dict_get_filter [OF ok] split: option.splits)
qed

lemma cancel_restores:
  assumes wf: "jobs_wf (jobs s)"
    and ev: "only_evicts (s\<lparr>jobs := dict_set_all (cancel_copy now (retry_jobs coll (jobs s))) (jobs s)\<rparr>) s1"
  shows "only_evicts s (s1\<lparr>jobs := dict_set_all (retry_jobs coll (jobs s)) (jobs s1)\<rparr>)"
  using ev unfolding only_evicts_def
  by (fastforce simp: dict_get_cancelled [OF wf] dict_get_uncancelled [OF wf] cancelled_form_def
      split: option.splits if_splits)

text \<open>
  \<open>cancel_ingest_retries\<close> is all or nothing. Either the cancels are in memory, every FAILED or PENDING
  base ingest job of the collection (in every namespace) is CANCELLED or gone and no other job changed; or every job has its old
  status back. It raises nothing but a \<open>BaseException\<close> that is not an \<open>Exception\<close>.
\<close>

lemma cancel_ingest_retries_all_or_nothing:
  assumes "store_inv s" and "cancel_ingest_retries fromiso now a1 a2 coll s = (r, s')"
  shows "store_inv s' \<and> (r = Inr () \<or> r = Inl BaseExc) \<and>
    (only_evicts s s' \<or>
     (\<forall>k j'. get k s' = Some j' \<longrightarrow> \<not> retry_cancellable coll j' \<and>
        (\<exists>j. get k s = Some j \<and> j' = cancelled_form now coll j)) \<and>
     (\<forall>k j. get k s = Some j \<longrightarrow> status j \<notin> set terminal_statuses \<longrightarrow> \<not> retry_cancellable coll j \<longrightarrow>
        get k s' = Some j))"
proof -
  have wf: "jobs_wf (jobs s)" using assms(1) by (simp add: store_inv_def)
  let ?m = "s\<lparr>jobs := dict_set_all (cancel_copy now (retry_jobs coll (jobs s))) (jobs s)\<rparr>"
  have inv: "store_inv ?m"
    using wf by (auto simp: store_inv_def intro!: dict_set_all_wf cancel_copy_wf retry_jobs_wf)
  from assms(2) show ?thesis
  proof (cases rule: cancel_cases)
    case nothing
    then show ?thesis using assms(1) by simp
  next
    case (settled w)
    have ev0: "only_evicts ?m s'" using settled(1) inv by (rule write_atomic_evicts)
    have m: "get k ?m = map_option (cancelled_form now coll) (get k s)" for k
      by (simp add: get_def dict_get_cancelled [OF wf])
    have ev: "get k s' = Some j' \<Longrightarrow> map_option (cancelled_form now coll) (get k s) = Some j'"
        "map_option (cancelled_form now coll) (get k s) = Some j' \<Longrightarrow> status j' \<notin> set terminal_statuses \<Longrightarrow>
         get k s' = Some j'" for k j'
      using ev0 unfolding only_evicts_def m [symmetric] unfolding get_def by blast+
    have nr: "\<not> retry_cancellable coll (cancelled_form now coll j)" for j
      by (simp add: cancelled_form_def retry_cancellable_def status_class_defs)
    have "\<forall>k j'. get k s' = Some j' \<longrightarrow> \<not> retry_cancellable coll j' \<and>
        (\<exists>j. get k s = Some j \<and> j' = cancelled_form now coll j)"
      using ev(1) nr by fastforce
    moreover have "\<forall>k j. get k s = Some j \<longrightarrow> status j \<notin> set terminal_statuses \<longrightarrow>
        \<not> retry_cancellable coll j \<longrightarrow> get k s' = Some j"
      using ev(2) by (simp add: cancelled_form_def)
    ultimately show ?thesis using settled(2,3) write_atomic_inv [OF settled(1) inv] by blast
  next
    case (failed e s1)
    let ?r = "s1\<lparr>jobs := dict_set_all (retry_jobs coll (jobs s)) (jobs s1)\<rparr>"
    have s1: "only_evicts ?m s1" "store_inv s1"
      using failed(1) inv by (auto intro: write_atomic_evicts write_atomic_inv)
    have rinv: "store_inv ?r"
      using s1(2) wf by (auto simp: store_inv_def intro!: dict_set_all_wf retry_jobs_wf)
    from rewrite_cases [OF failed(2)] obtain r' where w: "write_atomic fromiso a2 ?r = (r', s')" by blast
    have "only_evicts s s'"
      using cancel_restores [OF wf s1(1)] write_atomic_evicts [OF w rinv] by (rule only_evicts_trans)
    moreover have "r = Inr () \<or> r = Inl BaseExc"
      using failed(2) by (auto simp: rewrite_after_failed_persist_def is_exception_def
          split: prod.splits sum.splits if_splits)
    ultimately show ?thesis using write_atomic_inv [OF w rinv] by simp
  qed
qed

theorem cancel_ingest_retries_all_or_nothing_witness:
  "\<exists>s'. cancel_ingest_retries zero_clock ''u'' ok_write ok_write ''docs'' s12 = (Inr (), s') \<and>
        map_option status (get ''j2'' s') = Some CANCELLED \<and> get ''j1'' s' = Some j1 \<and> store_inv s'"
proof -
  have c: "\<exists>s'. cancel_ingest_retries zero_clock ''u'' ok_write ok_write ''docs'' s12 = (Inr (), s') \<and>
      map_option status (get ''j2'' s') = Some CANCELLED \<and> get ''j1'' s' = Some j1"
    by (simp add: cancel_ingest_retries_def dict_values_def retry_cancellable_def is_base_ingest_def
        status_class_defs get_def Let_def)
  then show ?thesis using cancel_ingest_retries_all_or_nothing [OF s12_inv] by blast
qed

section \<open>Writers of a collection\<close>

text \<open>The jobs of the store that may still write a collection, the caller's own job left out.\<close>

definition collection_writers :: "string \<Rightarrow> string option \<Rightarrow> job_store \<Rightarrow> job set" where
  "collection_writers coll excluding s =
     {j. get (job_id j) s = Some j \<and> collection j = coll \<and> Some (job_id j) \<noteq> excluding \<and> may_write_collection j}"

text \<open>
  \<open>find_active_collection_job\<close>, the check a collection delete makes. It returns nothing exactly when no
  other job of the collection, in any namespace, may still write it; a job it returns is such a writer, is
  RUNNING, CANCELLING or PENDING, and is of the caller's namespace whenever one of that namespace exists.
\<close>

lemma find_active_collection_job_complete:
  assumes "store_inv s"
  shows "case find_active_collection_job coll ns excluding s of
           None \<Rightarrow> collection_writers coll excluding s = {}
         | Some j \<Rightarrow> j \<in> collection_writers coll excluding s \<and> status j \<in> {RUNNING, CANCELLING, PENDING} \<and>
             (namespace j = ns \<or> (\<forall>j' \<in> collection_writers coll excluding s. namespace j' \<noteq> ns))"
proof -
  define act where "act = filter (\<lambda>j. collection j = coll \<and> Some (job_id j) \<noteq> excluding \<and> may_write_collection j)
                     (dict_values (jobs s))"
  have w: "collection_writers coll excluding s = set act"
    using assms by (auto simp: collection_writers_def act_def store_inv_def jobs_wf_values_iff get_def)
  have f: "find_active_collection_job coll ns excluding s =
      (case find (\<lambda>j. namespace j = ns) act of Some j \<Rightarrow> Some j
       | None \<Rightarrow> (case act of [] \<Rightarrow> None | j # _ \<Rightarrow> Some j))"
    unfolding find_active_collection_job_def Let_def act_def ..
  have "\<forall>j \<in> set act. status j \<in> {RUNNING, CANCELLING, PENDING}"
    using may_write_active by (auto simp: act_def)
  then show ?thesis unfolding f w
    by (auto split: option.splits list.splits dest!: find_SomeD simp: filter_find_None)
qed

theorem find_active_collection_job_complete_witness:
  "find_active_collection_job ''docs'' ''default'' None s12 = None \<and>
   collection_writers ''docs'' None s12 = {}"
proof -
  have "find_active_collection_job ''docs'' ''default'' None s12 = None"
    by (simp add: find_active_collection_job_def dict_values_def may_write_collection_def status_class_defs)
       (simp add: witness_defs)
  with find_active_collection_job_complete [OF s12_inv, of "''docs''" None "''default''"] show ?thesis by simp
qed

section \<open>The scheduler\<close>

text \<open>
  The queue order of \<open>list_queued_bulk\<close>: the queued export, import and migration jobs of the store, each
  once; user jobs before backup and maintenance jobs, and within a tier by creation time, jobs created at
  the same time in the order they were stored.
\<close>

lemma list_queued_bulk_order:
  "mset (list_queued_bulk s) = mset (filter queued_bulk (list_jobs s)) \<and>
   sorted (map (\<lambda>j. (source_priority j, created_at j)) (list_queued_bulk s)) \<and>
   (\<forall>key. filter (\<lambda>j. (source_priority j, created_at j) = key) (list_queued_bulk s) =
          filter (\<lambda>j. (source_priority j, created_at j) = key) (filter queued_bulk (list_jobs s)))"
  unfolding list_queued_bulk_def list_jobs_def
  using sort_key_stable_filter [of "\<lambda>j. (source_priority j, created_at j)"] by (simp del: filter_filter)

lemma subseq_distinct_list: "subseq xs ys \<Longrightarrow> distinct ys \<Longrightarrow> distinct xs"
  by (induction rule: list_emb.induct) (auto dest: list_emb_set)

lemma tick_unfold:
  assumes "tick fromiso now att dispatch cap running w = (r, w')" and "sched_inv fromiso now w"
  obtains w1 where "run_all (tick_job fromiso now att dispatch)
      (take (slots cap running) (list_queued_bulk (sstore w))) w1 = (r, w')"
    "sched_inv fromiso now w1" "dispatched w1 = dispatched w" "sstore w1 = sstore w"
  using assms by (simp add: tick_def Let_def sched_inv_def)

text \<open>
  C34: One scheduler tick never exceeds the capacity: whatever the writes and the dispatch callback do, it
  dispatches at most \<open>max_concurrent - running\<close> jobs (none when the running tasks fill the limit), only jobs
  it promoted to RUNNING, taken from the front of the queue in queue order, none twice, and the store's
  invariant holds when it ends.
\<close>

theorem tick_capacity:
  assumes "sched_inv fromiso now w" and "tick fromiso now att dispatch max_concurrent running w = (r, w')"
  shows "\<exists>ps. dispatched w' = dispatched w @ ps \<and>
     int (length ps) \<le> max 0 (max_concurrent - int running) \<and>
     subseq (map job_id ps) (map job_id (take (slots max_concurrent running) (list_queued_bulk (sstore w)))) \<and>
     distinct (map job_id ps) \<and> (\<forall>p \<in> set ps. status p = RUNNING) \<and> machine_inv fromiso (sstore w')"
proof -
  let ?q = "take (slots max_concurrent running) (list_queued_bulk (sstore w))"
  obtain w1 where w1: "run_all (tick_job fromiso now att dispatch) ?q w1 = (r, w')"
      "sched_inv fromiso now w1" "dispatched w1 = dispatched w"
    using tick_unfold [OF assms(2,1)] by metis
  obtain ps where ps: "dispatched w' = dispatched w @ ps" "subseq (map job_id ps) (map job_id ?q)"
    using tick_loop_order [OF w1(1,2)] w1(3) by auto
  have inv': "sched_inv fromiso now w'" using w1(1,2) by (rule tick_loop.loop_inv)
  have "length ps \<le> length ?q" using tick_loop.loop_cost [OF w1(1,2)] ps w1(3) by simp
  then have "int (length ps) \<le> max 0 (max_concurrent - int running)"
    by (simp add: slots_def) linarith
  moreover have "distinct (map job_id ?q)"
    using list_queued_bulk_distinct [OF sched_inv_store [OF assms(1)]] by (metis distinct_take take_map)
  then have "distinct (map job_id ps)" using ps(2) by (blast intro: subseq_distinct_list)
  ultimately show ?thesis using ps inv' by (auto simp: sched_inv_def)
qed

definition sched12 :: scheduler where
  "sched12 = \<lparr>sstore = s12, claim_failures = [], dispatched = []\<rparr>"

definition ok_claims :: "string \<Rightarrow> claim_attempts" where
  "ok_claims i = \<lparr>claim_write = ok_write, claim_rewrite = ok_write, mark_write = ok_write\<rparr>"

lemma sched12_inv: "sched_inv zero_clock ''t'' sched12"
  by (simp add: sched_inv_def sched12_def)

theorem tick_capacity_witness:
  "\<exists>r w'. tick zero_clock ''t'' ok_claims (\<lambda>p. True) 2 2 sched12 = (r, w') \<and> dispatched w' = []"
proof -
  obtain r w' where t: "tick zero_clock ''t'' ok_claims (\<lambda>p. True) 2 2 sched12 = (r, w')" by fastforce
  from tick_capacity [OF sched12_inv t] t show ?thesis by (auto simp: sched12_def)
qed

text \<open>
  A tick makes progress. When the file system accepts the claims' writes and the callback returns, the
  tick raises nothing and promotes and dispatches exactly the first \<open>max_concurrent - running\<close> queued jobs,
  in queue order, each of which is RUNNING in the store when the tick ends.
\<close>

lemma tick_progress:
  assumes "sched_inv fromiso now w" and "\<forall>jid. outcome (claim_write (att jid)) = Persisted"
    and "\<forall>p. dispatch p"
  shows "\<exists>w' ps. tick fromiso now att dispatch max_concurrent running w = (None, w') \<and>
     dispatched w' = dispatched w @ ps \<and>
     map job_id ps = map job_id (take (slots max_concurrent running) (list_queued_bulk (sstore w))) \<and>
     (\<forall>p \<in> set ps. get (job_id p) (sstore w') = Some p \<and> status p = RUNNING)"
proof -
  let ?q = "take (slots max_concurrent running) (list_queued_bulk (sstore w))"
  let ?w = "w\<lparr>claim_failures := filter (\<lambda>i. i \<in> job_id ` set (list_queued_bulk (sstore w))) (claim_failures w)\<rparr>"
  have inv: "sched_inv fromiso now ?w" using assms(1) by (simp add: sched_inv_def)
  have "all_queued ?q (sstore ?w)"
    using queued_bulk_in_store [OF sched_inv_store [OF assms(1)]]
    by (auto simp: all_queued_def dest: in_set_takeD)
  moreover have "distinct (map job_id ?q)"
    using list_queued_bulk_distinct [OF sched_inv_store [OF assms(1)]] by (metis distinct_take take_map)
  ultimately obtain ps w' where r: "run_all (tick_job fromiso now att dispatch) ?q ?w = (None, w')"
      "dispatched w' = dispatched w @ ps" "map job_id ps = map job_id ?q"
      "\<forall>p \<in> set ps. dict_get (jobs (sstore w')) (job_id p) = Some p"
    using tick_loop_progress [OF inv _ _ _ assms(3), of ?q att] assms(2) by auto
  have "\<forall>p \<in> set ps. status p = RUNNING"
    using tick_loop.loop_inv [OF r(1) inv] r(2) by (auto simp: sched_inv_def)
  then show ?thesis using r by (auto simp: tick_def Let_def get_def)
qed

theorem tick_progress_witness:
  "\<exists>w' ps. tick zero_clock ''t'' ok_claims (\<lambda>p. True) 2 1 sched12 = (None, w') \<and>
     dispatched w' = ps \<and> map job_id ps = [''j1'']"
proof -
  have "outcome (claim_write (ok_claims i)) = Persisted" for i by (simp add: ok_claims_def ok_write_def)
  moreover have "list_queued_bulk s12 = [j1]" by (simp add: list_queued_bulk_def dict_values_def)
  ultimately show ?thesis
    using tick_progress [OF sched12_inv, of ok_claims "\<lambda>p. True" 2 1]
    by (auto simp: sched12_def slots_def)
qed

end
