(* ===== verification/Py_Strings.thy ===== *)
theory Py_Strings
  imports Prelude "HOL-Library.Sublist"
begin

text \<open>
  The methods of Python's \<open>str\<close> the program calls, on Latin-1 text: \<open>isspace\<close>, \<open>strip\<close>, \<open>splitlines\<close>,
  \<open>split\<close> on one character, prefix, suffix and substring tests, \<open>join\<close>.
\<close>

definition ord :: "char \<Rightarrow> nat" where
  "ord c = of_char c"

definition py_isspace :: "char \<Rightarrow> bool" where
  "py_isspace c \<longleftrightarrow> ord c \<in> {9, 10, 11, 12, 13, 28, 29, 30, 31, 32, 133, 160}"

definition py_lstrip :: "string \<Rightarrow> string" where
  "py_lstrip s = dropWhile py_isspace s"

definition py_rstrip :: "string \<Rightarrow> string" where
  "py_rstrip s = rev (dropWhile py_isspace (rev s))"

definition py_strip :: "string \<Rightarrow> string" where
  "py_strip s = py_rstrip (py_lstrip s)"

definition py_isascii :: "string \<Rightarrow> bool" where
  "py_isascii s \<longleftrightarrow> list_all (\<lambda>c. ord c < 128) s"

definition is_line_end :: "char \<Rightarrow> bool" where
  "is_line_end c \<longleftrightarrow> ord c \<in> {10, 11, 12, 13, 28, 29, 30, 133}"

definition newline :: char where
  "newline = char_of (10 :: nat)"

text \<open>\<open>str.splitlines()\<close>; \<open>cur\<close> is the line read so far, reversed. A carriage return and a line feed end one line.\<close>

fun splitlines_from :: "string \<Rightarrow> string \<Rightarrow> string list" where
  "splitlines_from cur [] = (if cur = [] then [] else [rev cur])"
| "splitlines_from cur (c # cs) =
     (if ord c = 13 \<and> cs \<noteq> [] \<and> ord (hd cs) = 10 then rev cur # splitlines_from [] (tl cs)
      else if is_line_end c then rev cur # splitlines_from [] cs
      else splitlines_from (c # cur) cs)"

definition py_splitlines :: "string \<Rightarrow> string list" where
  "py_splitlines s = splitlines_from [] s"

fun py_startswith :: "string \<Rightarrow> string \<Rightarrow> bool" where
  "py_startswith s [] = True"
| "py_startswith [] (p # ps) = False"
| "py_startswith (c # cs) (p # ps) = (c = p \<and> py_startswith cs ps)"

definition py_endswith :: "string \<Rightarrow> string \<Rightarrow> bool" where
  "py_endswith s p = py_startswith (rev s) (rev p)"

fun py_contains :: "string \<Rightarrow> string \<Rightarrow> bool" where
  "py_contains [] p = (p = [])"
| "py_contains (c # cs) p = (py_startswith (c # cs) p \<or> py_contains cs p)"

text \<open>\<open>s.split(sep)\<close> on a one-character separator: always at least one part.\<close>

fun py_split :: "char \<Rightarrow> string \<Rightarrow> string list" where
  "py_split sep [] = [[]]"
| "py_split sep (c # cs) =
     (if c = sep then [] # py_split sep cs
      else case py_split sep cs of p # ps \<Rightarrow> (c # p) # ps | [] \<Rightarrow> [[c]])"

text \<open>\<open>s.split(sep, 1)\<close>.\<close>

definition py_split1 :: "char \<Rightarrow> string \<Rightarrow> string list" where
  "py_split1 sep s =
     (if sep \<in> set s then [takeWhile (\<lambda>c. c \<noteq> sep) s, tl (dropWhile (\<lambda>c. c \<noteq> sep) s)] else [s])"

fun py_join :: "string \<Rightarrow> string list \<Rightarrow> string" where
  "py_join sep [] = []"
| "py_join sep [x] = x"
| "py_join sep (x # y # xs) = x @ sep @ py_join sep (y # xs)"

definition is_digit :: "char \<Rightarrow> bool" where
  "is_digit c \<longleftrightarrow> 48 \<le> ord c \<and> ord c \<le> 57"

definition is_alpha :: "char \<Rightarrow> bool" where
  "is_alpha c \<longleftrightarrow> 65 \<le> ord c \<and> ord c \<le> 90 \<or> 97 \<le> ord c \<and> ord c \<le> 122"

section \<open>Decimal integers\<close>

definition digit_char :: "nat \<Rightarrow> char" where
  "digit_char d = char_of (48 + d)"

text \<open>\<open>str(n)\<close>.\<close>

fun show_nat :: "nat \<Rightarrow> string" where
  "show_nat n = (if n < 10 then [digit_char n] else show_nat (n div 10) @ [digit_char (n mod 10)])"

declare show_nat.simps [simp del]

definition show_int :: "int \<Rightarrow> string" where
  "show_int i = (if i < 0 then CHR ''-'' # show_nat (nat (- i)) else show_nat (nat i))"

text \<open>
  \<open>int(s)\<close>: white space around, one sign, decimal digits with single underscores between them. \<open>gap\<close> says that
  a digit must follow; \<open>None\<close> is the \<open>ValueError\<close>.
\<close>

fun int_digits :: "nat \<Rightarrow> bool \<Rightarrow> string \<Rightarrow> nat option" where
  "int_digits acc gap [] = (if gap then None else Some acc)"
| "int_digits acc gap (c # cs) =
     (if is_digit c then int_digits (acc * 10 + (ord c - 48)) False cs
      else if c = CHR ''_'' \<and> \<not> gap then int_digits acc True cs
      else None)"

definition py_int :: "string \<Rightarrow> int option" where
  "py_int s =
     (case py_strip s of
        [] \<Rightarrow> None
      | c # cs \<Rightarrow>
          (if c = CHR ''-'' then map_option (\<lambda>n. - int n) (int_digits 0 True cs)
           else if c = CHR ''+'' then map_option int (int_digits 0 True cs)
           else map_option int (int_digits 0 True (c # cs))))"

section \<open>Facts\<close>

lemma ord_digit_char [simp]: "d < 10 \<Longrightarrow> ord (digit_char d) = 48 + d"
  by (simp add: ord_def digit_char_def)

lemma is_digit_digit_char [simp]: "d < 10 \<Longrightarrow> is_digit (digit_char d)"
  by (simp add: is_digit_def)

lemma int_digits_show_nat:
  "\<exists>k. int_digits acc gap (show_nat n @ rest) = int_digits (acc * 10 ^ k + n) False rest"
proof (induction n arbitrary: acc gap rest rule: show_nat.induct)
  case (1 n)
  show ?case
  proof (cases "n < 10")
    case True
    then show ?thesis by (auto simp: show_nat.simps [of n] intro: exI [of _ 1])
  next
    case False
    from 1 [OF False] obtain k where
      k: "int_digits acc gap (show_nat (n div 10) @ digit_char (n mod 10) # rest) =
          int_digits (acc * 10 ^ k + n div 10) False (digit_char (n mod 10) # rest)" by blast
    have "(acc * 10 ^ k + n div 10) * 10 + n mod 10 = acc * 10 ^ Suc k + n" by (simp add: algebra_simps)
    with k False show ?thesis by (auto simp: show_nat.simps [of n] algebra_simps intro!: exI [of _ "Suc k"])
  qed
qed

lemma show_nat_not_Nil [simp]: "show_nat n \<noteq> []"
  by (subst show_nat.simps) simp

lemma show_nat_digits: "c \<in> set (show_nat n) \<Longrightarrow> is_digit c"
proof (induction n rule: show_nat.induct)
  case (1 n)
  show ?case
  proof (cases "n < 10")
    case True
    with 1(2) show ?thesis by (simp add: show_nat.simps [of n])
  next
    case False
    with 1 show ?thesis by (auto simp: show_nat.simps [of n])
  qed
qed

lemma digit_not_space: "is_digit c \<Longrightarrow> \<not> py_isspace c"
  by (auto simp: is_digit_def py_isspace_def)

lemma digit_not_sign: "is_digit c \<Longrightarrow> c \<noteq> CHR ''-'' \<and> c \<noteq> CHR ''+''"
  by (auto simp: is_digit_def ord_def)


lemma py_startswith_iff [str_simps]: "py_startswith s p \<longleftrightarrow> prefix p s"
  by (induction s p rule: py_startswith.induct) auto

lemma py_startswith_append [simp]: "py_startswith (p @ s) p"
  by (simp add: py_startswith_iff)

lemma py_endswith_iff [str_simps]: "py_endswith s p \<longleftrightarrow> suffix p s"
  by (simp add: py_endswith_def py_startswith_iff suffix_to_prefix)

lemma py_contains_iff [str_simps]: "py_contains s p \<longleftrightarrow> sublist p s"
  by (induction s) (auto simp: py_startswith_iff sublist_Cons_right)

lemma py_split_not_Nil [simp]: "py_split sep s \<noteq> []"
  by (induction s) (auto split: list.splits)

lemma py_join_split: "py_join [sep] (py_split sep s) = s"
proof (induction s)
  case (Cons c s)
  obtain p ps where "py_split sep s = p # ps" by (cases "py_split sep s") auto
  with Cons show ?case by (cases ps) auto
qed simp

lemma py_split_parts: "p \<in> set (py_split sep s) \<Longrightarrow> sep \<notin> set p"
proof (induction s arbitrary: p)
  case (Cons c s)
  then show ?case by (cases "py_split sep s") (auto split: if_splits)
qed simp

lemma py_split_join:
  "xs \<noteq> [] \<Longrightarrow> \<forall>x \<in> set xs. sep \<notin> set x \<Longrightarrow> py_split sep (py_join [sep] xs) = xs"
proof (induction xs rule: induct_list012)
  case (2 x)
  have "sep \<notin> set x \<Longrightarrow> py_split sep x = [x]" by (induction x) auto
  with 2 show ?case by simp
next
  case (3 x y zs)
  have app: "sep \<notin> set x \<Longrightarrow> py_split sep (x @ sep # r) = x # py_split sep r" for r
    by (induction x) auto
  show ?case using 3 by (auto simp: app)
qed simp

lemma py_rstrip_id: "s = [] \<or> \<not> py_isspace (last s) \<Longrightarrow> py_rstrip s = s"
  by (cases s rule: rev_cases) (auto simp: py_rstrip_def)

lemma py_strip_id: "list_all (\<lambda>c. \<not> py_isspace c) s \<Longrightarrow> py_strip s = s"
proof -
  assume a: "list_all (\<lambda>c. \<not> py_isspace c) s"
  have "py_lstrip s = s" using a by (cases s) (auto simp: py_lstrip_def)
  moreover have "py_rstrip s = s" using a by (intro py_rstrip_id) (cases s rule: rev_cases; auto)
  ultimately show ?thesis by (simp add: py_strip_def)
qed

lemma splitlines_one:
  "list_all (\<lambda>c. \<not> is_line_end c) s \<Longrightarrow> is_line_end e \<Longrightarrow> ord e = 10 \<Longrightarrow>
   splitlines_from cur (s @ [e]) = [rev cur @ s]"
  by (induction s arbitrary: cur) (auto simp: is_line_end_def)

lemma py_split1_parts:
  "sep \<in> set s \<Longrightarrow> \<exists>a b. py_split1 sep s = [a, b] \<and> s = a @ sep # b \<and> sep \<notin> set a"
proof -
  assume "sep \<in> set s"
  then obtain a b where ab: "s = a @ sep # b" "sep \<notin> set a" by (auto dest: split_list_first)
  then have "takeWhile (\<lambda>c. c \<noteq> sep) s = a" "dropWhile (\<lambda>c. c \<noteq> sep) s = sep # b"
    by (auto simp: takeWhile_append dropWhile_append)
  with ab show ?thesis by (simp add: py_split1_def)
qed

lemma py_strip_show_int: "py_strip (show_int i) = show_int i"
proof (rule py_strip_id)
  have "\<not> py_isspace CHR ''-''" by (simp add: py_isspace_def ord_def)
  then show "list_all (\<lambda>c. \<not> py_isspace c) (show_int i)"
    by (auto simp: show_int_def list_all_iff dest!: show_nat_digits digit_not_space)
qed

lemma py_int_show_int [simp]: "py_int (show_int i) = Some i"
proof (cases "i < 0")
  case True
  then show ?thesis
    using int_digits_show_nat [of 0 True "nat (- i)" "[]"] py_strip_show_int [of i]
    by (auto simp: py_int_def show_int_def)
next
  case False
  obtain c cs where c: "show_nat (nat i) = c # cs" by (cases "show_nat (nat i)") auto
  then have "is_digit c" using show_nat_digits [of c "nat i"] by simp
  with False c show ?thesis
    using int_digits_show_nat [of 0 True "nat i" "[]"] py_strip_show_int [of i] digit_not_sign [of c]
    by (auto simp: py_int_def show_int_def)
qed

end
