(* ===== verification/Names.thy ===== *)
theory Names
  imports Py_Strings
begin

text \<open>Namespace names and collection names: \<open>constants._validate_namespace\<close> and \<open>store.is_valid_collection_name\<close>.\<close>

abbreviation default_ns :: string where
  "default_ns \<equiv> ''default''"

section \<open>Namespaces\<close>

definition is_alnum :: "char \<Rightarrow> bool" where
  "is_alnum c \<longleftrightarrow> is_alpha c \<or> is_digit c"

definition is_ns_char :: "char \<Rightarrow> bool" where
  "is_ns_char c \<longleftrightarrow> is_alnum c \<or> c = CHR ''_'' \<or> c = CHR ''-''"

definition segment_safe :: "string \<Rightarrow> bool" where
  "segment_safe n \<longleftrightarrow> \<not> py_endswith n ''_'' \<and> \<not> py_contains n ''__''"

definition valid_namespace :: "string \<Rightarrow> bool" where
  "valid_namespace n \<longleftrightarrow>
     n \<noteq> ''deny-all'' \<and>
     (case n of [] \<Rightarrow> False | c # cs \<Rightarrow> is_alnum c \<and> list_all is_ns_char cs \<and> length cs \<le> 63) \<and>
     segment_safe n"

section \<open>Collections\<close>

definition is_valid_collection_name :: "string \<Rightarrow> bool" where
  "is_valid_collection_name n =
     (case n of [] \<Rightarrow> False | c # cs \<Rightarrow> is_alnum c \<and> list_all is_ns_char cs \<and> length cs \<le> 63)"

end
