(* ===== verification/Key_Store.thy ===== *)
theory Key_Store
  imports Names
begin

text \<open>
  \<open>archon_search/key_manager.py\<close>: API key records, the \<open>keys.json\<close> store with its cached view, default-key
  rotation and the text rules of the key file.

  The store's state is the file \<open>keys.json\<close>, the cached view and the set of expired ids already logged. The
  file carries the signature \<open>stat\<close> reports for it. \<open>validate\<close> and \<open>dump\<close> are pydantic's \<open>model_validate\<close>
  (\<open>None\<close>: a \<open>ValidationError\<close>) and \<open>model_dump\<close>; \<open>hash\<close> is \<open>hash_token\<close>'s SHA-256. Times are microseconds.
  Ids and tokens drawn from \<open>uuid\<close> and \<open>secrets\<close> are arguments, and so is whether each \<open>stat\<close>, read and
  write succeeds.
\<close>

section \<open>Records and the file\<close>

datatype key_status = Active | Revoked

record key_record =
  key_id :: "string option"
  token_hash :: string
  key_namespace :: string
  key_label :: "string option"
  key_created_at :: int
  expires_at :: "int option"
  key_status :: key_status
  admin :: bool

type_synonym file_signature = "int \<times> int \<times> int"

text \<open>What \<open>read_bytes\<close> and \<open>json.loads\<close> make of the file.\<close>

datatype key_content = Empty_content | Not_json | Json json

datatype keys_file = Absent | Present key_content file_signature

record key_store =
  keys_json :: keys_file
  kcache :: "(file_signature \<times> key_record list) option"
  logged_expired_ids :: "string list"

datatype unreadable_cause = Os_cause | Content_cause

datatype key_exc =
    KeyStoreUnreadable unreadable_cause
  | KeyNotFound string
  | NaiveExpiry
  | WriteFailed
  | KeyRotationInput
  | BlankCurrentKey
  | KeyFileWrite
  | RotationIncomplete
  | CancelledError

definition resolve_admin :: "json \<Rightarrow> json" where
  "resolve_admin item =
     (case item of
        JObj kvs \<Rightarrow>
          (if ''admin'' \<in> set (dict_keys kvs) then item
           else JObj (kvs @ [(''admin'',
                  JBool (dict_get kvs ''id'' \<notin> {None, Some JNull} \<and>
                         dict_get kvs ''namespace'' = Some (JStr default_ns)))]))
      | _ \<Rightarrow> item)"

definition parse_stored_record :: "(json \<Rightarrow> key_record option) \<Rightarrow> json \<Rightarrow> key_record option" where
  "parse_stored_record validate item = validate (resolve_admin item)"

section \<open>Reading\<close>

definition file_signature_of :: "bool \<Rightarrow> keys_file \<Rightarrow> file_signature option" where
  "file_signature_of stat_ok f =
     (case f of Present _ g \<Rightarrow> if stat_ok then Some g else None | Absent \<Rightarrow> None)"

definition load_for_update ::
    "(json \<Rightarrow> key_record option) \<Rightarrow> bool \<Rightarrow> keys_file \<Rightarrow> key_exc + key_record list" where
  "load_for_update validate rd f =
     (case f of
        Absent \<Rightarrow> Inr []
      | Present content _ \<Rightarrow>
          (if \<not> rd then Inl (KeyStoreUnreadable Os_cause)
           else case content of
                  Json (JArr items) \<Rightarrow>
                    (case those (map (parse_stored_record validate) items) of
                       None \<Rightarrow> Inl (KeyStoreUnreadable Content_cause)
                     | Some rs \<Rightarrow> Inr rs)
                | _ \<Rightarrow> Inl (KeyStoreUnreadable Content_cause)))"

record read_try =
  stat_ok :: bool
  read_ok :: bool

text \<open>
  \<open>load\<close> takes the signature first and reads afterwards: \<open>f1\<close> is the file at the \<open>stat\<close>, \<open>f2\<close> the file at the
  read, which another process may have replaced in between.
\<close>

definition load_between ::
    "(json \<Rightarrow> key_record option) \<Rightarrow> read_try \<Rightarrow> keys_file \<Rightarrow> keys_file \<Rightarrow>
     (file_signature \<times> key_record list) option \<Rightarrow>
     key_record list \<times> (file_signature \<times> key_record list) option" where
  "load_between validate t f1 f2 cache =
     (let signature = file_signature_of (stat_ok t) f1;
          fresh = (case load_for_update validate (read_ok t) f2 of
             Inl e \<Rightarrow>
               ([], if e = KeyStoreUnreadable Os_cause then cache
                    else case signature of None \<Rightarrow> cache | Some g \<Rightarrow> Some (g, []))
           | Inr rs \<Rightarrow> (rs, case signature of None \<Rightarrow> cache | Some g \<Rightarrow> Some (g, rs)))
      in case (signature, cache) of
           (Some g, Some (g', rs)) \<Rightarrow> if g = g' then (rs, cache) else fresh
         | _ \<Rightarrow> fresh)"

definition load_keys ::
    "(json \<Rightarrow> key_record option) \<Rightarrow> read_try \<Rightarrow> key_store \<Rightarrow> key_record list \<times> key_store" where
  "load_keys validate t ks =
     (case load_between validate t (keys_json ks) (keys_json ks) (kcache ks) of
        (rs, c) \<Rightarrow> (rs, ks\<lparr>kcache := c\<rparr>))"

definition expired :: "int \<Rightarrow> key_record \<Rightarrow> bool" where
  "expired now r \<longleftrightarrow> (case expires_at r of None \<Rightarrow> False | Some t \<Rightarrow> t \<le> now)"

fun scan_active :: "int \<Rightarrow> key_record list \<Rightarrow> string list \<Rightarrow> key_record list \<times> string list" where
  "scan_active now [] logged = ([], logged)"
| "scan_active now (r # rs) logged =
     (if key_status r \<noteq> Active then scan_active now rs logged
      else if expired now r then
        scan_active now rs
          (case key_id r of
             Some i \<Rightarrow> if i \<in> set logged then logged else logged @ [i]
           | None \<Rightarrow> logged)
      else case scan_active now rs logged of (act, l) \<Rightarrow> (r # act, l))"

definition active_keys ::
    "(json \<Rightarrow> key_record option) \<Rightarrow> read_try \<Rightarrow> int \<Rightarrow> key_store \<Rightarrow> key_record list \<times> key_store" where
  "active_keys validate t now ks =
     (case load_keys validate t ks of
        (rs, ks1) \<Rightarrow>
          (case scan_active now rs (logged_expired_ids ks1) of
             (act, l) \<Rightarrow> (act, ks1\<lparr>logged_expired_ids := l\<rparr>)))"

definition list_keys ::
    "(json \<Rightarrow> key_record option) \<Rightarrow> read_try \<Rightarrow> key_store \<Rightarrow> key_record list \<times> key_store" where
  "list_keys validate t ks = load_keys validate t ks"

section \<open>Writing\<close>

text \<open>
  How \<open>atomic_write_bytes\<close> ended: the new file has the signature given; a failed directory fsync after the
  rename counts as written; any other failure leaves the old file.
\<close>

datatype key_write = Landed file_signature | Unconfirmed file_signature | Not_written

definition write_keys ::
    "(key_record \<Rightarrow> json) \<Rightarrow> key_write \<Rightarrow> key_record list \<Rightarrow> key_store \<Rightarrow> (key_exc + unit) \<times> key_store" where
  "write_keys dump w rs ks =
     (let ks1 = ks\<lparr>kcache := None\<rparr>; payload = Json (JArr (map dump rs))
      in case w of
           Landed g \<Rightarrow> (Inr (), ks1\<lparr>keys_json := Present payload g\<rparr>)
         | Unconfirmed g \<Rightarrow> (Inr (), ks1\<lparr>keys_json := Present payload g\<rparr>)
         | Not_written \<Rightarrow> (Inl WriteFailed, ks1))"

fun update_first :: "('a \<Rightarrow> bool) \<Rightarrow> ('a \<Rightarrow> 'a) \<Rightarrow> 'a list \<Rightarrow> 'a list" where
  "update_first P f [] = []"
| "update_first P f (x # xs) = (if P x then f x # xs else x # update_first P f xs)"

definition revoke ::
    "(json \<Rightarrow> key_record option) \<Rightarrow> (key_record \<Rightarrow> json) \<Rightarrow> bool \<Rightarrow> key_write \<Rightarrow> string \<Rightarrow> key_store \<Rightarrow>
     (key_exc + unit) \<times> key_store" where
  "revoke validate dump rd w kid ks =
     (case load_for_update validate rd (keys_json ks) of
        Inl e \<Rightarrow> (Inl e, ks)
      | Inr rs \<Rightarrow>
          (case find (\<lambda>r. key_id r = Some kid) rs of
             None \<Rightarrow> (Inl (KeyNotFound kid), ks)
           | Some r \<Rightarrow>
               (if key_status r = Revoked then (Inr (), ks)
                else write_keys dump w
                       (update_first (\<lambda>r. key_id r = Some kid) (\<lambda>r. r\<lparr>key_status := Revoked\<rparr>) rs) ks)))"

datatype expiry_arg = No_expiry | Naive_expiry | Aware_expiry int

definition expiry_value :: "expiry_arg \<Rightarrow> int option" where
  "expiry_value e = (case e of Aware_expiry t \<Rightarrow> Some t | _ \<Rightarrow> None)"

definition created_record ::
    "(string \<Rightarrow> string) \<Rightarrow> string \<Rightarrow> string \<Rightarrow> int \<Rightarrow> string \<Rightarrow> string option \<Rightarrow> int option \<Rightarrow> bool \<Rightarrow> key_record" where
  "created_record hash kid token now ns label exp adm =
     \<lparr>key_id = Some kid, token_hash = hash token, key_namespace = ns, key_label = label,
      key_created_at = now, expires_at = exp, key_status = Active, admin = adm\<rparr>"

text \<open>\<open>KeyStore.create\<close> for a fresh id and token; the result is the pair the caller is shown.\<close>

definition create_key_record ::
    "(json \<Rightarrow> key_record option) \<Rightarrow> (key_record \<Rightarrow> json) \<Rightarrow> (string \<Rightarrow> string) \<Rightarrow> bool \<Rightarrow> key_write \<Rightarrow>
     string \<Rightarrow> string \<Rightarrow> int \<Rightarrow> string \<Rightarrow> string option \<Rightarrow> expiry_arg \<Rightarrow> bool \<Rightarrow> key_store \<Rightarrow>
     (key_exc + string \<times> string) \<times> key_store" where
  "create_key_record validate dump hash rd w kid token now ns label exp adm ks =
     (if exp = Naive_expiry then (Inl NaiveExpiry, ks)
      else case load_for_update validate rd (keys_json ks) of
             Inl e \<Rightarrow> (Inl e, ks)
           | Inr rs \<Rightarrow>
               (case write_keys dump w
                       (rs @ [created_record hash kid token now ns label (expiry_value exp) adm]) ks of
                  (Inl e, ks') \<Rightarrow> (Inl e, ks')
                | (Inr _, ks') \<Rightarrow> (Inr (kid, token), ks')))"

definition load_synthetic_records ::
    "(json \<Rightarrow> key_record option) \<Rightarrow> (key_record \<Rightarrow> json) \<Rightarrow> bool \<Rightarrow> key_write \<Rightarrow> key_record list \<Rightarrow>
     key_store \<Rightarrow> (key_exc + unit) \<times> key_store" where
  "load_synthetic_records validate dump rd w synthetic ks =
     (case load_for_update validate rd (keys_json ks) of
        Inl e \<Rightarrow> (Inl e, ks)
      | Inr rs \<Rightarrow> write_keys dump w (filter (\<lambda>r. key_id r \<noteq> None) rs @ synthetic) ks)"

section \<open>Rotation of the default key\<close>

definition max_rotate_grace_seconds :: int where
  "max_rotate_grace_seconds = 100 * 365 * 24 * 60 * 60"

definition rotation_grace_ok :: "int \<Rightarrow> bool" where
  "rotation_grace_ok grace \<longleftrightarrow> \<not> grace < 0 \<and> \<not> grace > max_rotate_grace_seconds"

definition current_token_ok :: "string \<Rightarrow> bool" where
  "current_token_ok token \<longleftrightarrow> token \<noteq> [] \<and> py_strip token \<noteq> []"

definition grace_end :: "int \<Rightarrow> int \<Rightarrow> int" where
  "grace_end now grace = now + grace * 1000000"

definition retire :: "int \<Rightarrow> int \<Rightarrow> key_record \<Rightarrow> key_record" where
  "retire now grace r =
     (if grace = 0 then r\<lparr>key_status := Revoked\<rparr> else r\<lparr>expires_at := Some (grace_end now grace)\<rparr>)"

definition is_current :: "string \<Rightarrow> key_record \<Rightarrow> bool" where
  "is_current current_hash r \<longleftrightarrow> key_id r \<noteq> None \<and> token_hash r = current_hash"

text \<open>
  The records after a rotation and the old record it reports: the first active managed record of the
  current token is retired; an unmanaged current token gets a grace record; the new token's record is
  appended last.
\<close>

definition rotated_records ::
    "(string \<Rightarrow> string) \<Rightarrow> int \<Rightarrow> string \<Rightarrow> string \<Rightarrow> string \<Rightarrow> int \<Rightarrow> string \<Rightarrow> key_record list \<Rightarrow>
     key_record list \<times> key_record option" where
  "rotated_records hash now grace_id new_id current grace new_token rs =
     (let live = (\<lambda>r. is_current (hash current) r \<and> key_status r = Active);
          new_record = created_record hash new_id new_token now default_ns None None True;
          grace_record = created_record hash grace_id current now default_ns None
                           (Some (grace_end now grace)) True
      in case find live rs of
           Some r \<Rightarrow> (update_first live (retire now grace) rs @ [new_record], Some (retire now grace r))
         | None \<Rightarrow>
             (if grace > 0 \<and> \<not> (\<exists>r \<in> set rs. is_current (hash current) r)
              then (rs @ [grace_record, new_record], Some grace_record)
              else (rs @ [new_record], None)))"

record rotation_outcome =
  new_key_id :: string
  new_token :: string
  old_record :: "key_record option"

definition record_rotation ::
    "(json \<Rightarrow> key_record option) \<Rightarrow> (key_record \<Rightarrow> json) \<Rightarrow> (string \<Rightarrow> string) \<Rightarrow> bool \<Rightarrow> key_write \<Rightarrow> int \<Rightarrow>
     string \<Rightarrow> string \<Rightarrow> string \<Rightarrow> int \<Rightarrow> string \<Rightarrow> key_store \<Rightarrow> (key_exc + rotation_outcome) \<times> key_store" where
  "record_rotation validate dump hash rd w now grace_id new_id current grace new ks =
     (case load_for_update validate rd (keys_json ks) of
        Inl e \<Rightarrow> (Inl e, ks)
      | Inr rs \<Rightarrow>
          (case rotated_records hash now grace_id new_id current grace new rs of
             (rs', old) \<Rightarrow>
               (case write_keys dump w rs' ks of
                  (Inl e, ks') \<Rightarrow> (Inl e, ks')
                | (Inr _, ks') \<Rightarrow>
                    (Inr \<lparr>new_key_id = new_id, new_token = new, old_record = old\<rparr>, ks'))))"

text \<open>
  The server's key state: the store, the key held by \<open>.search.env\<close> and the current default key
  (\<open>app.state.api_key\<close>, what \<open>read_current_token\<close> returns and \<open>publish_new_token\<close> sets).
\<close>

record server_keys =
  kstore :: key_store
  env_file_key :: "string option"
  api_key :: string

text \<open>How the write of \<open>.search.env\<close> ended.\<close>

datatype env_write = Env_landed | Env_unconfirmed | Env_failed

record rotation_world =
  verify_ok :: bool
  record_read_ok :: bool
  env_write :: env_write
  keys_write :: key_write
  rot_now :: int
  rot_grace_id :: string
  rot_new_id :: string
  rot_new_token :: string
  caller_cancelled :: bool

definition commit_rotation ::
    "(json \<Rightarrow> key_record option) \<Rightarrow> (key_record \<Rightarrow> json) \<Rightarrow> (string \<Rightarrow> string) \<Rightarrow> rotation_world \<Rightarrow> string \<Rightarrow>
     int \<Rightarrow> server_keys \<Rightarrow> (key_exc + rotation_outcome) \<times> server_keys" where
  "commit_rotation validate dump hash x current grace sk =
     (if env_write x = Env_failed then (Inl KeyFileWrite, sk)
      else
        (let sk1 = sk\<lparr>env_file_key := Some (rot_new_token x)\<rparr>
         in case record_rotation validate dump hash (record_read_ok x) (keys_write x) (rot_now x)
                   (rot_grace_id x) (rot_new_id x) current grace (rot_new_token x) (kstore sk1) of
              (Inl e, ks') \<Rightarrow> (Inl RotationIncomplete, sk1\<lparr>kstore := ks'\<rparr>)
            | (Inr out, ks') \<Rightarrow>
                (if new_token out \<noteq> rot_new_token x then (Inl RotationIncomplete, sk1\<lparr>kstore := ks'\<rparr>)
                 else (Inr out, sk1\<lparr>kstore := ks', api_key := rot_new_token x\<rparr>))))"

text \<open>A cancelled caller waits for the shielded commit and then sees only the cancellation.\<close>

definition rotate_and_persist_default_key ::
    "(json \<Rightarrow> key_record option) \<Rightarrow> (key_record \<Rightarrow> json) \<Rightarrow> (string \<Rightarrow> string) \<Rightarrow> rotation_world \<Rightarrow> int \<Rightarrow>
     server_keys \<Rightarrow> (key_exc + rotation_outcome) \<times> server_keys" where
  "rotate_and_persist_default_key validate dump hash x grace sk =
     (if \<not> rotation_grace_ok grace then (Inl KeyRotationInput, sk)
      else if \<not> current_token_ok (api_key sk) then (Inl BlankCurrentKey, sk)
      else case load_for_update validate (verify_ok x) (keys_json (kstore sk)) of
             Inl e \<Rightarrow> (Inl e, sk)
           | Inr _ \<Rightarrow>
               (case commit_rotation validate dump hash x (api_key sk) grace sk of
                  (r, sk') \<Rightarrow> (if caller_cancelled x then Inl CancelledError else r, sk')))"

section \<open>The text of a key\<close>

datatype key_problem = Is_empty | Not_lower_hex | Not_printable_ascii | Too_short nat | Could_not_be_read | Not_utf8

definition min_api_key_length :: nat where
  "min_api_key_length = 32"

definition is_lower_hex :: "char \<Rightarrow> bool" where
  "is_lower_hex c \<longleftrightarrow> is_digit c \<or> 97 \<le> ord c \<and> ord c \<le> 102"

definition api_key_problem :: "string \<Rightarrow> key_problem option" where
  "api_key_problem v =
     (if v = [] then Some Is_empty
      else if \<not> list_all is_lower_hex v then Some Not_lower_hex
      else if length v < min_api_key_length then Some (Too_short (length v))
      else None)"

definition is_printable_ascii :: "char \<Rightarrow> bool" where
  "is_printable_ascii c \<longleftrightarrow> 32 \<le> ord c \<and> ord c \<le> 126"

definition namespace_token_problem :: "string \<Rightarrow> key_problem option" where
  "namespace_token_problem v =
     (if v = [] then Some Is_empty
      else if \<not> py_isascii v \<or> \<not> list_all is_printable_ascii v \<or> list_ex py_isspace v
        then Some Not_printable_ascii
      else if length v < min_api_key_length then Some (Too_short (length v))
      else None)"

definition env_var :: string where
  "env_var = ''ARCHON_SEARCH_API_KEY''"

definition key_line_prefix :: string where
  "key_line_prefix = env_var @ ''=''"

text \<open>The key file as \<open>_parse_key_file\<close> meets it; its text after decoding, a byte-order mark dropped.\<close>

datatype env_file = Env_absent | Env_unreadable | Env_not_utf8 | Env_text string

definition parse_key_lines :: "string list \<Rightarrow> string option \<times> key_problem option" where
  "parse_key_lines ls =
     (case find (\<lambda>l. py_startswith l key_line_prefix) ls of
        None \<Rightarrow> (None, None)
      | Some l \<Rightarrow>
          (let v = py_strip (drop (length key_line_prefix) l)
           in case api_key_problem v of Some p \<Rightarrow> (None, Some p) | None \<Rightarrow> (Some v, None)))"

definition parse_key_file :: "env_file \<Rightarrow> string option \<times> key_problem option" where
  "parse_key_file f =
     (case f of
        Env_absent \<Rightarrow> (None, None)
      | Env_unreadable \<Rightarrow> (None, Some Could_not_be_read)
      | Env_not_utf8 \<Rightarrow> (None, Some Not_utf8)
      | Env_text s \<Rightarrow> parse_key_lines (py_splitlines s))"

text \<open>The payload \<open>_write_key_file\<close> and \<open>_generate_and_write\<close> put in the key file.\<close>

definition key_file_payload :: "string \<Rightarrow> string" where
  "key_file_payload key = key_line_prefix @ key @ [newline]"

text \<open>
  \<open>load_key\<close>: the outer \<open>None\<close> is the \<open>ConfigError\<close> of an unusable environment variable, the inner one a
  missing key.
\<close>

definition load_from_env :: "string \<Rightarrow> string option option" where
  "load_from_env v =
     (if v = [] then Some None
      else case api_key_problem v of Some p \<Rightarrow> None | None \<Rightarrow> Some (Some v))"

definition load_from_file :: "env_file \<Rightarrow> string option" where
  "load_from_file f = fst (parse_key_file f)"

definition load_key :: "string \<Rightarrow> env_file \<Rightarrow> string option option" where
  "load_key env f =
     (case load_from_env env of
        None \<Rightarrow> None
      | Some (Some k) \<Rightarrow> Some (Some k)
      | Some None \<Rightarrow> Some (load_from_file f))"

end
