(* ===== verification/Key_Facts.thy ===== *)
theory Key_Facts
  imports Key_Store
begin

text \<open>
  What \<open>keys.json\<close> promises: a write is read back unchanged, mutations fail closed, the cached view never
  hides a change of the file, and what revocation and rotation do to the records.
\<close>

section \<open>The stored form\<close>

text \<open>
  What the store relies on of pydantic: dumping a record and validating the dump gives the record back,
  and the dump is an object that has the field \<open>admin\<close>.
\<close>

definition codec_ok :: "(json \<Rightarrow> key_record option) \<Rightarrow> (key_record \<Rightarrow> json) \<Rightarrow> bool" where
  "codec_ok validate dump \<longleftrightarrow>
     (\<forall>r. validate (dump r) = Some r \<and> (\<exists>kvs. dump r = JObj kvs \<and> ''admin'' \<in> set (dict_keys kvs)))"

lemma parse_dump: "codec_ok validate dump \<Longrightarrow> parse_stored_record validate (dump r) = Some r"
proof -
  assume c: "codec_ok validate dump"
  then obtain kvs where "dump r = JObj kvs" "''admin'' \<in> set (dict_keys kvs)" unfolding codec_ok_def by blast
  then have "resolve_admin (dump r) = dump r" by (simp add: resolve_admin_def)
  then show ?thesis using c by (simp add: parse_stored_record_def codec_ok_def)
qed

lemma those_parse_dump: "codec_ok validate dump \<Longrightarrow> those (map (parse_stored_record validate) (map dump rs)) = Some rs"
  by (induction rs) (auto simp: parse_dump)

lemma load_for_update_written:
  "codec_ok validate dump \<Longrightarrow> load_for_update validate True (Present (Json (JArr (map dump rs))) g) = Inr rs"
  using those_parse_dump [of validate dump rs] by (simp add: load_for_update_def)

lemma write_keys_cases:
  assumes "write_keys dump w rs ks = (r, ks')"
  obtains (written) g where "w = Landed g \<or> w = Unconfirmed g" "r = Inr ()"
      "ks' = ks\<lparr>kcache := None, keys_json := Present (Json (JArr (map dump rs))) g\<rparr>"
  | (failed) "w = Not_written" "r = Inl WriteFailed" "ks' = ks\<lparr>kcache := None\<rparr>"
  using assms by (auto simp: write_keys_def Let_def split: key_write.splits)

text \<open>Every mutation leaves the store alone or runs exactly one write.\<close>

definition alone_or_write :: "(key_record \<Rightarrow> json) \<Rightarrow> key_write \<Rightarrow> key_store \<Rightarrow> key_store \<Rightarrow> bool" where
  "alone_or_write dump w ks ks' \<longleftrightarrow> ks' = ks \<or> (\<exists>rs r. write_keys dump w rs ks = (r, ks'))"

lemma revoke_alone_or_write:
  "revoke validate dump rd w kid ks = (r, ks') \<Longrightarrow> alone_or_write dump w ks ks'"
  unfolding alone_or_write_def
  by (fastforce simp: revoke_def split: sum.splits option.splits if_splits)

lemma create_alone_or_write:
  "create_key_record validate dump hash rd w kid token now ns label exp adm ks = (r, ks') \<Longrightarrow>
   alone_or_write dump w ks ks'"
  unfolding alone_or_write_def
  by (fastforce simp: create_key_record_def split: sum.splits prod.splits if_splits)

lemma synthetic_alone_or_write:
  "load_synthetic_records validate dump rd w syn ks = (r, ks') \<Longrightarrow> alone_or_write dump w ks ks'"
  unfolding alone_or_write_def
  by (fastforce simp: load_synthetic_records_def split: sum.splits)

lemma rotation_alone_or_write:
  "record_rotation validate dump hash rd w now gid nid cur grace new ks = (r, ks') \<Longrightarrow>
   alone_or_write dump w ks ks'"
  unfolding alone_or_write_def
  by (fastforce simp: record_rotation_def split: sum.splits prod.splits)

section \<open>The cached view\<close>

text \<open>What a successful read of the file gives; unusable content is an empty key list.\<close>

definition current_records :: "(json \<Rightarrow> key_record option) \<Rightarrow> keys_file \<Rightarrow> key_record list" where
  "current_records validate f =
     (case load_for_update validate True f of Inl _ \<Rightarrow> [] | Inr rs \<Rightarrow> rs)"

definition cache_ok :: "(json \<Rightarrow> key_record option) \<Rightarrow> key_store \<Rightarrow> bool" where
  "cache_ok validate ks \<longleftrightarrow>
     (\<forall>c g rs. keys_json ks = Present c g \<longrightarrow> kcache ks = Some (g, rs) \<longrightarrow>
        current_records validate (keys_json ks) = rs)"

lemma load_for_update_not_ok:
  "load_for_update validate False f = Inr rs \<Longrightarrow> f = Absent \<and> rs = []"
  by (auto simp: load_for_update_def split: keys_file.splits)

lemma load_for_update_current:
  "load_for_update validate rd f = Inr rs \<Longrightarrow> current_records validate f = rs"
proof (cases rd)
  case False
  assume "load_for_update validate rd f = Inr rs"
  with False have "f = Absent" "rs = []" using load_for_update_not_ok [of validate f rs] by auto
  then show ?thesis by (simp add: current_records_def load_for_update_def)
qed (simp add: current_records_def)

lemma load_for_update_content_error:
  "load_for_update validate rd f = Inl e \<Longrightarrow> e \<noteq> KeyStoreUnreadable Os_cause \<Longrightarrow> current_records validate f = []"
  by (cases rd; cases f) (auto simp: current_records_def load_for_update_def split: sum.splits)

lemma load_between_fresh:
  assumes "load_between validate t f1 f2 cache = (rs, c)"
  obtains (hit) g where "file_signature_of (stat_ok t) f1 = Some g" "cache = Some (g, rs)" "c = cache"
  | (kept) "c = cache" "rs = current_records validate f2 \<or> \<not> read_ok t \<and> rs = []"
  | (stored) g where "file_signature_of (stat_ok t) f1 = Some g" "c = Some (g, rs)"
      "rs = current_records validate f2"
proof (cases "\<exists>g rs'. file_signature_of (stat_ok t) f1 = Some g \<and> cache = Some (g, rs')")
  case True
  then show ?thesis using assms hit by (auto simp: load_between_def)
next
  case False
  show ?thesis
  proof (cases "load_for_update validate (read_ok t) f2")
    case (Inl e)
    note cur = load_for_update_content_error [OF Inl]
    have os: "e = KeyStoreUnreadable Os_cause \<Longrightarrow> \<not> read_ok t"
      using Inl by (auto simp: load_for_update_def split: keys_file.splits if_splits key_content.splits
          json.splits option.splits)
    show ?thesis
    proof (cases "e = KeyStoreUnreadable Os_cause")
      case True
      then have "c = cache" "rs = []"
        using assms Inl False by (auto simp: load_between_def Let_def split: option.splits if_splits prod.splits)
      with os [OF True] kept show ?thesis by blast
    next
      case nos: False
      with assms Inl False cur kept stored show ?thesis
        by (auto simp: load_between_def Let_def split: option.splits if_splits prod.splits)
    qed
  next
    case (Inr rs')
    note cur = load_for_update_current [OF Inr]
    show ?thesis
    proof (cases "file_signature_of (stat_ok t) f1")
      case None
      with assms Inr have "c = cache" "rs = rs'" by (auto simp: load_between_def)
      with cur kept show ?thesis by blast
    next
      case (Some g)
      with assms Inr False have "c = Some (g, rs')" "rs = rs'"
        by (auto simp: load_between_def Let_def split: option.splits if_splits prod.splits)
      with Some cur stored show ?thesis by blast
    qed
  qed
qed

text \<open>
  The store with everything that can happen to its file. \<open>used\<close> collects the signatures the file has had: an
  atomic replace gives the file a new inode and modification time, so a new file never reuses one.
\<close>

record key_world =
  wstore :: key_store
  used :: "file_signature list"

definition fresh_file :: "file_signature list \<Rightarrow> keys_file \<Rightarrow> bool" where
  "fresh_file us f \<longleftrightarrow> (case f of Absent \<Rightarrow> True | Present _ g \<Rightarrow> g \<notin> set us)"

definition note_file :: "keys_file \<Rightarrow> file_signature list \<Rightarrow> file_signature list" where
  "note_file f us = (case f of Absent \<Rightarrow> us | Present _ g \<Rightarrow> g # us)"

definition fresh_write :: "file_signature list \<Rightarrow> key_write \<Rightarrow> bool" where
  "fresh_write us w \<longleftrightarrow> (case w of Landed g \<Rightarrow> g \<notin> set us | Unconfirmed g \<Rightarrow> g \<notin> set us | Not_written \<Rightarrow> True)"

inductive key_step ::
    "(json \<Rightarrow> key_record option) \<Rightarrow> (key_record \<Rightarrow> json) \<Rightarrow> (string \<Rightarrow> string) \<Rightarrow> key_world \<Rightarrow> key_world \<Rightarrow> bool"
  for validate dump hash where
  ext_replace: "fresh_file us f \<Longrightarrow>
     key_step validate dump hash \<lparr>wstore = ks, used = us\<rparr> \<lparr>wstore = ks\<lparr>keys_json := f\<rparr>, used = note_file f us\<rparr>"
| own_load: "load_between validate t (keys_json ks) (keys_json ks) (kcache ks) = (rs, c) \<Longrightarrow>
     key_step validate dump hash \<lparr>wstore = ks, used = us\<rparr> \<lparr>wstore = ks\<lparr>kcache := c\<rparr>, used = us\<rparr>"
| raced_load: "fresh_file us f \<Longrightarrow> load_between validate t (keys_json ks) f (kcache ks) = (rs, c) \<Longrightarrow>
     key_step validate dump hash \<lparr>wstore = ks, used = us\<rparr>
       \<lparr>wstore = ks\<lparr>keys_json := f, kcache := c\<rparr>, used = note_file f us\<rparr>"
| own_revoke: "fresh_write us w \<Longrightarrow> revoke validate dump rd w kid ks = (r, ks') \<Longrightarrow>
     key_step validate dump hash \<lparr>wstore = ks, used = us\<rparr> \<lparr>wstore = ks', used = note_file (keys_json ks') us\<rparr>"
| own_create: "fresh_write us w \<Longrightarrow>
     create_key_record validate dump hash rd w kid token now ns label exp adm ks = (rc, ks') \<Longrightarrow>
     key_step validate dump hash \<lparr>wstore = ks, used = us\<rparr> \<lparr>wstore = ks', used = note_file (keys_json ks') us\<rparr>"
| own_synthetic: "fresh_write us w \<Longrightarrow> load_synthetic_records validate dump rd w syn ks = (r, ks') \<Longrightarrow>
     key_step validate dump hash \<lparr>wstore = ks, used = us\<rparr> \<lparr>wstore = ks', used = note_file (keys_json ks') us\<rparr>"
| own_rotation: "fresh_write us w \<Longrightarrow>
     record_rotation validate dump hash rd w now gid nid cur grace new ks = (ro, ks') \<Longrightarrow>
     key_step validate dump hash \<lparr>wstore = ks, used = us\<rparr> \<lparr>wstore = ks', used = note_file (keys_json ks') us\<rparr>"

definition new_key_world :: "key_world \<Rightarrow> bool" where
  "new_key_world w \<longleftrightarrow>
     kcache (wstore w) = None \<and>
     (case keys_json (wstore w) of Absent \<Rightarrow> True | Present _ g \<Rightarrow> g \<in> set (used w))"

definition key_world_inv :: "(json \<Rightarrow> key_record option) \<Rightarrow> key_world \<Rightarrow> bool" where
  "key_world_inv validate w \<longleftrightarrow>
     cache_ok validate (wstore w) \<and>
     (\<forall>c g. keys_json (wstore w) = Present c g \<longrightarrow> g \<in> set (used w)) \<and>
     (\<forall>g rs. kcache (wstore w) = Some (g, rs) \<longrightarrow> g \<in> set (used w))"

lemma key_world_invD:
  assumes "key_world_inv validate \<lparr>wstore = ks, used = us\<rparr>"
  shows "cache_ok validate ks" "\<forall>c g. keys_json ks = Present c g \<longrightarrow> g \<in> set us"
    "\<forall>g rs. kcache ks = Some (g, rs) \<longrightarrow> g \<in> set us"
  using assms by (simp_all add: key_world_inv_def)

lemma sig_used:
  "file_signature_of b f = Some g \<Longrightarrow> \<forall>c g. f = Present c g \<longrightarrow> g \<in> set us \<Longrightarrow> g \<in> set us"
  by (auto simp: file_signature_of_def split: keys_file.splits if_splits)

lemma note_file_in [simp]: "g \<in> set us \<Longrightarrow> g \<in> set (note_file f us)"
  by (auto simp: note_file_def split: keys_file.splits)

lemma note_file_self [simp]: "g \<in> set (note_file (Present c g) us)"
  by (simp add: note_file_def)

lemma load_cache_used:
  assumes "load_between validate t f1 f2 cache = (rs, c)"
    and "\<forall>c g. f1 = Present c g \<longrightarrow> g \<in> set us" and "\<forall>g rs. cache = Some (g, rs) \<longrightarrow> g \<in> set us"
  shows "\<forall>g rs. c = Some (g, rs) \<longrightarrow> g \<in> set us"
  using assms(1) by (cases rule: load_between_fresh) (use assms(2,3) in \<open>auto dest: sig_used\<close>)

lemma write_world_inv:
  assumes "alone_or_write dump w ks ks'" and "fresh_write us w"
    and "key_world_inv validate \<lparr>wstore = ks, used = us\<rparr>"
  shows "key_world_inv validate \<lparr>wstore = ks', used = note_file (keys_json ks') us\<rparr>"
  using assms unfolding alone_or_write_def
  by (auto elim!: write_keys_cases simp: key_world_inv_def cache_ok_def)

lemma raced_world_inv:
  assumes "fresh_file us f" and "load_between validate t (keys_json ks) f (kcache ks) = (rs, c)"
    and "key_world_inv validate \<lparr>wstore = ks, used = us\<rparr>"
  shows "key_world_inv validate \<lparr>wstore = ks\<lparr>keys_json := f, kcache := c\<rparr>, used = note_file f us\<rparr>"
proof -
  have "\<forall>g rs. c = Some (g, rs) \<longrightarrow> g \<in> set us"
    using assms(2) key_world_invD(2,3) [OF assms(3)] by (rule load_cache_used)
  then show ?thesis
    using assms(1) by (auto simp: key_world_inv_def cache_ok_def fresh_file_def split: keys_file.splits)
qed

lemma own_load_inv:
  assumes "load_between validate t (keys_json ks) (keys_json ks) (kcache ks) = (rs, c)"
    and "key_world_inv validate \<lparr>wstore = ks, used = us\<rparr>"
  shows "key_world_inv validate \<lparr>wstore = ks\<lparr>kcache := c\<rparr>, used = us\<rparr>"
proof -
  have "\<forall>g rs. c = Some (g, rs) \<longrightarrow> g \<in> set us"
    using assms(1) key_world_invD(2,3) [OF assms(2)] by (rule load_cache_used)
  moreover have "cache_ok validate (ks\<lparr>kcache := c\<rparr>)"
    using assms(1)
  proof (cases rule: load_between_fresh)
    case (stored g)
    then show ?thesis by (auto simp: cache_ok_def)
  qed (use key_world_invD(1) [OF assms(2)] in \<open>auto simp: cache_ok_def\<close>)
  ultimately show ?thesis using assms(2) by (simp add: key_world_inv_def)
qed

lemma key_step_inv:
  "key_step validate dump hash s t \<Longrightarrow> key_world_inv validate s \<Longrightarrow> key_world_inv validate t"
proof (induction rule: key_step.induct)
  case (ext_replace us f ks)
  then show ?case
    by (auto simp: key_world_inv_def cache_ok_def fresh_file_def split: keys_file.splits)
qed (auto intro: own_load_inv raced_world_inv write_world_inv revoke_alone_or_write
      create_alone_or_write synthetic_alone_or_write rotation_alone_or_write)

interpretation key_machine: machine_invariant new_key_world "key_step validate dump hash" "key_world_inv validate"
  for validate dump hash
proof unfold_locales
  show "new_key_world s \<Longrightarrow> key_world_inv validate s" for s
    by (auto simp: new_key_world_def key_world_inv_def cache_ok_def)
  show "key_world_inv validate s \<Longrightarrow> key_step validate dump hash s t \<Longrightarrow> key_world_inv validate t" for s t
    by (rule key_step_inv)
qed

end
