(* ===== verification/Key_Auth.thy ===== *)
theory Key_Auth
  imports Key_Facts Names
begin

text \<open>
  Authentication and authorization: \<open>services/authz.py\<close>, \<open>server/authz.py\<close>,
  \<open>server/graph_view_token.py\<close>, \<open>server/middleware_auth.py\<close> and the key routes of
  \<open>server/routes_keys.py\<close>.

  \<open>hmac.digest\<close> is the parameter \<open>sign\<close>, base64 the pair \<open>b64encode\<close>, \<open>b64decode\<close> (\<open>None\<close>: text that is not
  base64 or bytes that are not UTF-8, both refused the same way). The clock of view tokens is read in whole
  seconds.
\<close>

section \<open>The policy\<close>

record auth_identity =
  id_namespace :: string
  id_admin :: bool

datatype forbidden = Admin_required | Admin_key_grant | Foreign_namespace

definition require_admin :: "auth_identity option \<Rightarrow> forbidden option" where
  "require_admin i =
     (case i of None \<Rightarrow> Some Admin_required
      | Some x \<Rightarrow> if \<not> id_admin x then Some Admin_required else None)"

definition authorize_key_create :: "auth_identity \<Rightarrow> string \<Rightarrow> bool \<Rightarrow> forbidden option" where
  "authorize_key_create i ns adm =
     (if id_admin i then None
      else if adm then Some Admin_key_grant
      else if ns \<noteq> id_namespace i then Some Foreign_namespace
      else None)"

definition authorize_key_listing_namespace :: "auth_identity \<Rightarrow> string option \<Rightarrow> forbidden + string option" where
  "authorize_key_listing_namespace i ns =
     (if id_admin i then Inr ns
      else if ns \<noteq> None \<and> ns \<noteq> Some (id_namespace i) then Inl Foreign_namespace
      else Inr (Some (id_namespace i)))"

definition can_manage_key :: "auth_identity \<Rightarrow> key_record \<Rightarrow> bool" where
  "can_manage_key i r \<longleftrightarrow> id_admin i \<or> key_namespace r = id_namespace i \<and> \<not> admin r"

definition caller_may_revoke ::
    "(json \<Rightarrow> key_record option) \<Rightarrow> read_try \<Rightarrow> auth_identity \<Rightarrow> string \<Rightarrow> key_store \<Rightarrow> bool \<times> key_store" where
  "caller_may_revoke validate t i kid ks =
     (if id_admin i then (True, ks)
      else case list_keys validate t ks of
             (rs, ks') \<Rightarrow> (\<exists>r \<in> set rs. key_id r = Some kid \<and> can_manage_key i r, ks'))"

section \<open>Graph view tokens\<close>

definition graph_view_token_ttl_seconds :: int where
  "graph_view_token_ttl_seconds = 60"

abbreviation field_separator :: char where
  "field_separator \<equiv> char_of (0 :: nat)"

definition b64_padding :: "string \<Rightarrow> string" where
  "b64_padding body = replicate (nat ((- int (length body)) mod 4)) CHR ''=''"

definition rstrip_padding :: "string \<Rightarrow> string" where
  "rstrip_padding s = rev (dropWhile (\<lambda>c. c = CHR ''='') (rev s))"

definition mint_view_token ::
    "(string \<Rightarrow> string \<Rightarrow> string) \<Rightarrow> (string \<Rightarrow> string) \<Rightarrow> string \<Rightarrow> string \<Rightarrow> string \<Rightarrow> int \<Rightarrow> string" where
  "mint_view_token sign b64encode secret ns coll now =
     (let payload = py_join [field_separator] [ns, coll, show_int (now + graph_view_token_ttl_seconds)]
      in ''gv1.'' @ rstrip_padding (b64encode payload) @ ''.'' @ sign secret payload)"

definition verify_view_token ::
    "(string \<Rightarrow> string \<Rightarrow> string) \<Rightarrow> (string \<Rightarrow> string option) \<Rightarrow> string \<Rightarrow> string \<Rightarrow> string \<Rightarrow> int \<Rightarrow> string option" where
  "verify_view_token sign b64decode secret token coll now =
     (case py_split CHR ''.'' token of
        [pre, body, signature] \<Rightarrow>
          (if pre \<noteq> ''gv1'' \<or> \<not> py_isascii token then None
           else case b64decode (body @ b64_padding body) of
                  None \<Rightarrow> None
                | Some payload \<Rightarrow>
                    (if sign secret payload \<noteq> signature then None
                     else case py_split field_separator payload of
                            [ns, token_coll, exp] \<Rightarrow>
                              (case py_int exp of
                                 None \<Rightarrow> None
                               | Some expiry \<Rightarrow>
                                   (if token_coll \<noteq> coll \<or> expiry \<le> now then None
                                    else if valid_namespace ns then Some ns else None))
                          | _ \<Rightarrow> None))
      | _ \<Rightarrow> None)"

text \<open>
  \<open>GRAPH_VIEW_PATH_RE\<close>: the collection segment of \<open>/graph/{collection}\<close> or \<open>/graph/{collection}/view\<close>;
  \<open>$\<close> also matches before a final line feed.
\<close>

definition at_end :: "string \<Rightarrow> bool" where
  "at_end s \<longleftrightarrow> s = [] \<or> s = [newline]"

definition view_path_collection :: "string \<Rightarrow> string option" where
  "view_path_collection path =
     (if \<not> py_startswith path ''/graph/'' then None
      else
        (let r = drop (length ''/graph/'') path;
             seg = takeWhile (\<lambda>c. c \<noteq> CHR ''/'') r;
             after = dropWhile (\<lambda>c. c \<noteq> CHR ''/'') r;
             tail = drop (length ''cross-collection'') r
         in if py_startswith r ''cross-collection'' \<and> (py_startswith tail ''/'' \<or> at_end tail) then None
            else if seg = [] then None
            else if after = [] \<or> py_startswith after ''/view'' \<and> at_end (drop (length ''/view'') after)
              then Some seg
            else None))"

section \<open>Resolving a bearer token\<close>

datatype auth_result = Identity auth_identity | No_match | Invalid_namespace

definition checked_identity :: "string \<Rightarrow> bool \<Rightarrow> auth_result" where
  "checked_identity ns adm =
     (if valid_namespace ns then Identity \<lparr>id_namespace = ns, id_admin = adm\<rparr> else Invalid_namespace)"

definition toml_namespace :: "(string, string) dict \<Rightarrow> string \<Rightarrow> string option" where
  "toml_namespace namespaces token =
     fold (\<lambda>(k, ns) acc. if token = k then Some ns else acc) namespaces None"

definition retired :: "int \<Rightarrow> key_record \<Rightarrow> bool" where
  "retired now r \<longleftrightarrow> key_status r = Revoked \<or> expired now r"

text \<open>
  \<open>authenticate_token\<close>. Without a key store there is nothing to look up and nothing to revoke. The two
  reads of the store have their own \<open>stat\<close>, read and clock.
\<close>

definition authenticate_token ::
    "(json \<Rightarrow> key_record option) \<Rightarrow> (string \<Rightarrow> string) \<Rightarrow> read_try \<Rightarrow> read_try \<Rightarrow> int \<Rightarrow> int \<Rightarrow> string \<Rightarrow>
     string \<Rightarrow> (string, string) dict \<Rightarrow> key_store option \<Rightarrow> auth_result \<times> key_store option" where
  "authenticate_token validate hash t1 t2 now1 now2 token default_key namespaces kso =
     (if token = [] \<or> \<not> py_isascii token then (No_match, kso)
      else
        (let h = hash token;
             (managed, kso1) =
               (case kso of
                  None \<Rightarrow> (None, None)
                | Some ks \<Rightarrow>
                    (case active_keys validate t1 now1 ks of
                       (act, ks1) \<Rightarrow> (find (\<lambda>r. h = token_hash r) act, Some ks1)))
         in case managed of
              Some r \<Rightarrow> (checked_identity (key_namespace r) (admin r), kso1)
            | None \<Rightarrow>
                (case toml_namespace namespaces token of
                   Some ns \<Rightarrow> (checked_identity ns False, kso1)
                 | None \<Rightarrow>
                     (if token \<noteq> default_key then (No_match, kso1)
                      else case kso1 of
                             None \<Rightarrow> (checked_identity default_ns True, None)
                           | Some ks1 \<Rightarrow>
                               (case load_keys validate t2 ks1 of
                                  (rs, ks2) \<Rightarrow>
                                    (if \<exists>r \<in> set rs. retired now2 r \<and> h = token_hash r
                                     then (No_match, Some ks2)
                                     else (checked_identity default_ns True, Some ks2)))))))"

section \<open>The middleware\<close>

record http_request =
  req_path :: string
  req_method :: string
  authorization :: "string option"
  view_token_param :: "string option"

datatype auth_decision = Exempt | Forward auth_identity "string option" | Unauthorized | Server_error

definition exempt_paths :: "string list" where
  "exempt_paths = [''/health'', ''/ready'']"

text \<open>\<open>view_secret\<close> is \<open>app.state.graph_view_secret\<close>.\<close>

definition view_token_identity ::
    "(string \<Rightarrow> string \<Rightarrow> string) \<Rightarrow> (string \<Rightarrow> string option) \<Rightarrow> string option \<Rightarrow> int \<Rightarrow> http_request \<Rightarrow> string \<Rightarrow>
     auth_identity option" where
  "view_token_identity sign b64decode view_secret now req token =
     (if req_method req \<noteq> ''GET'' then None
      else case (view_path_collection (req_path req), view_secret) of
             (Some coll, Some secret) \<Rightarrow>
               map_option (\<lambda>ns. \<lparr>id_namespace = ns, id_admin = False\<rparr>)
                 (verify_view_token sign b64decode secret token coll now)
           | _ \<Rightarrow> None)"

record auth_env =
  env_paths :: "string list"
  env_namespaces :: "(string, string) dict"
  env_secret :: "string option"
  bind_sessions :: bool
  try1 :: read_try
  try2 :: read_try
  clock1 :: int
  clock2 :: int
  wall_seconds :: int

definition dispatch ::
    "(json \<Rightarrow> key_record option) \<Rightarrow> (string \<Rightarrow> string) \<Rightarrow> (string \<Rightarrow> string \<Rightarrow> string) \<Rightarrow> (string \<Rightarrow> string option) \<Rightarrow>
     auth_env \<Rightarrow> string \<Rightarrow> http_request \<Rightarrow> key_store option \<Rightarrow> auth_decision \<times> key_store option" where
  "dispatch validate hash sign b64decode e default_key req kso =
     (if req_path req \<in> set (env_paths e) then (Exempt, kso)
      else
        (let header = (case authorization req of None \<Rightarrow> [] | Some h \<Rightarrow> h);
             view = view_token_identity sign b64decode (env_secret e) (wall_seconds e) req
         in case (view_token_param req, authorization req) of
              (Some vt, None) \<Rightarrow>
                (case view vt of None \<Rightarrow> (Unauthorized, kso) | Some i \<Rightarrow> (Forward i None, kso))
            | _ \<Rightarrow>
                (case py_split1 CHR '' '' header of
                   [scheme, token] \<Rightarrow>
                     (if scheme \<noteq> ''Bearer'' then (Unauthorized, kso)
                      else case authenticate_token validate hash (try1 e) (try2 e) (clock1 e) (clock2 e)
                                  token default_key (env_namespaces e) kso of
                             (Invalid_namespace, kso') \<Rightarrow> (Server_error, kso')
                           | (Identity i, kso') \<Rightarrow>
                               (Forward i (if bind_sessions e then Some (hash token) else None), kso')
                           | (No_match, kso') \<Rightarrow>
                               (case view token of
                                  None \<Rightarrow> (Unauthorized, kso')
                                | Some i \<Rightarrow>
                                    (Forward i (if bind_sessions e then Some (hash token) else None), kso')))
                 | _ \<Rightarrow> (Unauthorized, kso))))"

section \<open>The key routes\<close>

datatype http_error = Http nat

definition route_create_key ::
    "(json \<Rightarrow> key_record option) \<Rightarrow> (key_record \<Rightarrow> json) \<Rightarrow> (string \<Rightarrow> string) \<Rightarrow> bool \<Rightarrow> key_write \<Rightarrow>
     string \<Rightarrow> string \<Rightarrow> int \<Rightarrow> auth_identity \<Rightarrow> string \<Rightarrow> string option \<Rightarrow> expiry_arg \<Rightarrow> bool \<Rightarrow> key_store \<Rightarrow>
     (http_error + string \<times> string) \<times> key_store" where
  "route_create_key validate dump hash rd w kid token now i ns label exp adm ks =
     (case authorize_key_create i ns adm of
        Some _ \<Rightarrow> (Inl (Http 403), ks)
      | None \<Rightarrow>
          (if \<not> valid_namespace ns then (Inl (Http 422), ks)
           else case create_key_record validate dump hash rd w kid token now ns label exp adm ks of
                  (Inl e, ks') \<Rightarrow> (Inl (Http 500), ks')
                | (Inr kt, ks') \<Rightarrow> (Inr kt, ks')))"

datatype list_status = List_active | List_revoked | List_all

definition route_list_keys ::
    "(json \<Rightarrow> key_record option) \<Rightarrow> read_try \<Rightarrow> auth_identity \<Rightarrow> list_status \<Rightarrow> string option \<Rightarrow> key_store \<Rightarrow>
     (http_error + key_record list \<times> nat) \<times> key_store" where
  "route_list_keys validate t i st ns ks =
     (case authorize_key_listing_namespace i ns of
        Inl _ \<Rightarrow> (Inl (Http 403), ks)
      | Inr ns' \<Rightarrow>
          (case list_keys validate t ks of
             (rs, ks') \<Rightarrow>
               (let mine = filter (can_manage_key i) rs;
                    scope = (case ns' of None \<Rightarrow> mine | Some n \<Rightarrow> filter (\<lambda>r. key_namespace r = n) mine)
                in case st of
                     List_active \<Rightarrow>
                       (Inr (filter (\<lambda>r. key_status r = Active) scope,
                             length (filter (\<lambda>r. key_status r = Revoked) scope)), ks')
                   | List_revoked \<Rightarrow> (Inr (filter (\<lambda>r. key_status r = Revoked) scope, 0), ks')
                   | List_all \<Rightarrow> (Inr (scope, 0), ks'))))"

definition route_revoke_key ::
    "(json \<Rightarrow> key_record option) \<Rightarrow> (key_record \<Rightarrow> json) \<Rightarrow> read_try \<Rightarrow> bool \<Rightarrow> key_write \<Rightarrow> auth_identity \<Rightarrow>
     string \<Rightarrow> key_store \<Rightarrow> (http_error + unit) \<times> key_store" where
  "route_revoke_key validate dump t rd w i kid ks =
     (if kid = ''null'' then (Inl (Http 404), ks)
      else case caller_may_revoke validate t i kid ks of
             (False, ks1) \<Rightarrow> (Inl (Http 404), ks1)
           | (True, ks1) \<Rightarrow>
               (case revoke validate dump rd w kid ks1 of
                  (Inl (KeyNotFound _), ks2) \<Rightarrow> (Inl (Http 404), ks2)
                | (Inl _, ks2) \<Rightarrow> (Inl (Http 500), ks2)
                | (Inr u, ks2) \<Rightarrow> (Inr u, ks2)))"

text \<open>\<open>POST /keys/rotate\<close>: \<open>env_set\<close> says that \<open>ARCHON_SEARCH_API_KEY\<close> is set; \<open>body\<close> and \<open>config\<close> are the two graces.\<close>

definition route_rotate_key ::
    "(json \<Rightarrow> key_record option) \<Rightarrow> (key_record \<Rightarrow> json) \<Rightarrow> (string \<Rightarrow> string) \<Rightarrow> rotation_world \<Rightarrow> bool \<Rightarrow>
     auth_identity option \<Rightarrow> int option \<Rightarrow> int \<Rightarrow> server_keys \<Rightarrow> (http_error + rotation_outcome) \<times> server_keys" where
  "route_rotate_key validate dump hash x env_set i body config sk =
     (case require_admin i of
        Some _ \<Rightarrow> (Inl (Http 403), sk)
      | None \<Rightarrow>
          (if env_set then (Inl (Http 409), sk)
           else case rotate_and_persist_default_key validate dump hash x
                       (case body of Some g \<Rightarrow> g | None \<Rightarrow> config) sk of
                  (Inl e, sk') \<Rightarrow> (Inl (Http 500), sk')
                | (Inr out, sk') \<Rightarrow> (Inr out, sk')))"

end
