(* ===== verification/Key_Auth_Facts.thy ===== *)
theory Key_Auth_Facts
  imports Key_Auth
begin

text \<open>
  Authentication against the current content of \<open>keys.json\<close>, and what the mutations do to that content.
\<close>

section \<open>Reading the current records\<close>

definition both_ok :: "read_try \<Rightarrow> bool" where
  "both_ok t \<longleftrightarrow> stat_ok t \<and> read_ok t"

lemma scan_active_fst: "fst (scan_active now rs l) = filter (\<lambda>r. key_status r = Active \<and> \<not> expired now r) rs"
  by (induction now rs l rule: scan_active.induct) (auto split: prod.splits)

lemma load_keys_current:
  assumes "cache_ok validate ks" and "both_ok t" and "load_keys validate t ks = (rs, ks')"
  shows "rs = current_records validate (keys_json ks) \<and> keys_json ks' = keys_json ks \<and> cache_ok validate ks'"
proof -
  obtain c where l: "load_between validate t (keys_json ks) (keys_json ks) (kcache ks) = (rs, c)"
    and ks': "ks' = ks\<lparr>kcache := c\<rparr>"
    using assms(3) by (auto simp: load_keys_def split: prod.splits)
  from l show ?thesis
  proof (cases rule: load_between_fresh)
    case (hit g)
    then obtain co where co: "keys_json ks = Present co g"
      by (auto simp: file_signature_of_def split: keys_file.splits if_splits)
    have "current_records validate (keys_json ks) = rs"
      using assms(1) hit(2) co unfolding cache_ok_def by blast
    moreover have "ks' = ks" using ks' hit(3) by simp
    ultimately show ?thesis using assms(1) by simp
  next
    case kept
    with assms(1,2) ks' show ?thesis by (auto simp: cache_ok_def both_ok_def)
  next
    case (stored g)
    with ks' show ?thesis by (auto simp: cache_ok_def)
  qed
qed

lemma active_keys_current:
  assumes "cache_ok validate ks" and "both_ok t" and "active_keys validate t now ks = (act, ks')"
  shows "act = filter (\<lambda>r. key_status r = Active \<and> \<not> expired now r) (current_records validate (keys_json ks)) \<and>
         keys_json ks' = keys_json ks \<and> cache_ok validate ks'"
proof -
  obtain rs ks1 where l: "load_keys validate t ks = (rs, ks1)" by fastforce
  note c = load_keys_current [OF assms(1,2) l]
  obtain l' where "ks' = ks1\<lparr>logged_expired_ids := l'\<rparr>" "act = fst (scan_active now rs (logged_expired_ids ks1))"
    using assms(3) l by (auto simp: active_keys_def split: prod.splits)
  with c show ?thesis by (auto simp: scan_active_fst cache_ok_def)
qed

section \<open>The specification of authentication\<close>

definition auth_spec ::
    "(string \<Rightarrow> string) \<Rightarrow> int \<Rightarrow> int \<Rightarrow> string \<Rightarrow> string \<Rightarrow> (string, string) dict \<Rightarrow> key_record list \<Rightarrow> auth_result" where
  "auth_spec hash now1 now2 token default_key namespaces rs =
     (if token = [] \<or> \<not> py_isascii token then No_match
      else case find (\<lambda>r. key_status r = Active \<and> \<not> expired now1 r \<and> token_hash r = hash token) rs of
             Some r \<Rightarrow> checked_identity (key_namespace r) (admin r)
           | None \<Rightarrow>
               (case toml_namespace namespaces token of
                  Some ns \<Rightarrow> checked_identity ns False
                | None \<Rightarrow>
                    (if token = default_key \<and> \<not> (\<exists>r \<in> set rs. retired now2 r \<and> token_hash r = hash token)
                     then checked_identity default_ns True else No_match)))"

lemma find_filter: "find P (filter Q xs) = find (\<lambda>x. Q x \<and> P x) xs"
  by (induction xs) auto

lemma authenticate_token_current:
  assumes "cache_ok validate ks" and "both_ok t1" and "both_ok t2"
  shows "fst (authenticate_token validate hash t1 t2 now1 now2 token dk nss (Some ks)) =
         auth_spec hash now1 now2 token dk nss (current_records validate (keys_json ks))"
proof -
  obtain act ks1 where a: "active_keys validate t1 now1 ks = (act, ks1)" by fastforce
  note a' = active_keys_current [OF assms(1,2) a]
  obtain rs ks2 where l: "load_keys validate t2 ks1 = (rs, ks2)" by fastforce
  note l' = load_keys_current [OF _ assms(3) l]
  let ?rs = "current_records validate (keys_json ks)"
  have f: "find (\<lambda>r. hash token = token_hash r) act =
      find (\<lambda>r. key_status r = Active \<and> \<not> expired now1 r \<and> token_hash r = hash token) ?rs"
    using a' by (simp add: find_filter conj_assoc eq_commute [of "hash token"])
  have rs: "rs = ?rs" using a' l' by simp
  show ?thesis
    unfolding authenticate_token_def auth_spec_def
    using a l f rs
    by (auto simp: Let_def eq_commute [of "hash token"] split: option.splits)
qed

section \<open>What the mutations do to the records\<close>

lemma load_for_update_Inr_current:
  "load_for_update validate rd (keys_json ks) = Inr rs \<Longrightarrow> current_records validate (keys_json ks) = rs"
  by (rule load_for_update_current)

lemma write_keys_current:
  assumes "codec_ok validate dump" and "write_keys dump w rs ks = (Inr u, ks')"
  shows "current_records validate (keys_json ks') = rs \<and> cache_ok validate ks'"
  using assms(2)
  by (cases rule: write_keys_cases)
     (use load_for_update_written [OF assms(1)] in \<open>auto simp: current_records_def cache_ok_def\<close>)

lemma write_keys_failed:
  "write_keys dump w rs ks = (Inl e, ks') \<Longrightarrow> keys_json ks' = keys_json ks \<and> e = WriteFailed"
  by (erule write_keys_cases) auto

definition revoked_records :: "string \<Rightarrow> key_record list \<Rightarrow> key_record list" where
  "revoked_records kid rs = update_first (\<lambda>r. key_id r = Some kid) (\<lambda>r. r\<lparr>key_status := Revoked\<rparr>) rs"

lemma update_first_id: "find P xs = Some x \<Longrightarrow> f x = x \<Longrightarrow> update_first P f xs = xs"
  by (induction xs) (auto split: if_splits)

lemma update_first_none: "find P xs = None \<Longrightarrow> update_first P f xs = xs"
  by (induction xs) (auto split: if_splits)

lemma revoke_current:
  assumes "codec_ok validate dump" and "revoke validate dump rd w kid ks = (Inr u, ks')"
  shows "current_records validate (keys_json ks') = revoked_records kid (current_records validate (keys_json ks))"
    "\<exists>r \<in> set (current_records validate (keys_json ks)). key_id r = Some kid"
    "cache_ok validate ks \<Longrightarrow> cache_ok validate ks'"
proof -
  obtain rs r where l: "load_for_update validate rd (keys_json ks) = Inr rs"
    and f: "find (\<lambda>r. key_id r = Some kid) rs = Some r"
    using assms(2) by (auto simp: revoke_def split: sum.splits option.splits)
  note cur = load_for_update_current [OF l]
  have n: "revoked_records kid rs = rs" if "key_status r = Revoked"
    using f that by (auto simp: revoked_records_def intro: update_first_id)
  show "current_records validate (keys_json ks') = revoked_records kid (current_records validate (keys_json ks))"
    using assms(2) l f n cur write_keys_current [OF assms(1)]
    by (auto simp: revoke_def revoked_records_def split: if_splits)
  show "\<exists>r \<in> set (current_records validate (keys_json ks)). key_id r = Some kid"
    using f cur by (auto dest: find_SomeD)
  show "cache_ok validate ks \<Longrightarrow> cache_ok validate ks'"
    using assms(2) l f write_keys_current [OF assms(1)] by (auto simp: revoke_def split: if_splits)
qed

lemma create_current:
  assumes "codec_ok validate dump"
    and "create_key_record validate dump hash rd w kid token now ns label exp adm ks = (Inr kt, ks')"
  shows "current_records validate (keys_json ks') =
      current_records validate (keys_json ks) @ [created_record hash kid token now ns label (expiry_value exp) adm]"
    "kt = (kid, token)" "cache_ok validate ks'"
proof -
  obtain rs where l: "load_for_update validate rd (keys_json ks) = Inr rs"
    using assms(2) by (auto simp: create_key_record_def split: sum.splits if_splits)
  note cur = load_for_update_current [OF l]
  obtain u where w: "write_keys dump w
      (rs @ [created_record hash kid token now ns label (expiry_value exp) adm]) ks = (Inr u, ks')"
    and kt: "kt = (kid, token)"
    using assms(2) l by (auto simp: create_key_record_def split: prod.splits sum.splits if_splits)
  from write_keys_current [OF assms(1) w] cur kt
  show "current_records validate (keys_json ks') =
      current_records validate (keys_json ks) @ [created_record hash kid token now ns label (expiry_value exp) adm]"
    "kt = (kid, token)" "cache_ok validate ks'" by auto
qed

lemma failed_mutation_keeps_file:
  "revoke validate dump rd w kid ks = (Inl e, ks') \<Longrightarrow> keys_json ks' = keys_json ks"
  "create_key_record validate dump hash rd w kid token now ns label exp adm ks = (Inl e, ks') \<Longrightarrow>
     keys_json ks' = keys_json ks"
  "load_synthetic_records validate dump rd w syn ks = (Inl e, ks') \<Longrightarrow> keys_json ks' = keys_json ks"
  "record_rotation validate dump hash rd w now gid nid cur grace new ks = (Inl e, ks') \<Longrightarrow>
     keys_json ks' = keys_json ks"
  by (auto simp: revoke_def create_key_record_def load_synthetic_records_def record_rotation_def
      split: sum.splits option.splits if_splits prod.splits dest: write_keys_failed)

lemma cache_ok_cleared: "kcache ks = None \<Longrightarrow> cache_ok validate ks"
  by (simp add: cache_ok_def)

lemma alone_or_write_cache_ok:
  "alone_or_write dump w ks ks' \<Longrightarrow> cache_ok validate ks \<Longrightarrow> cache_ok validate ks'"
  by (auto simp: alone_or_write_def elim!: write_keys_cases intro: cache_ok_cleared)

lemma rotation_current:
  assumes "codec_ok validate dump"
    and "record_rotation validate dump hash rd w now gid nid cur grace new ks = (Inr out, ks')"
  shows "current_records validate (keys_json ks') =
      fst (rotated_records hash now gid nid cur grace new (current_records validate (keys_json ks)))"
    "new_token out = new" "cache_ok validate ks'"
proof -
  obtain rs where l: "load_for_update validate rd (keys_json ks) = Inr rs"
    using assms(2) by (auto simp: record_rotation_def split: sum.splits)
  note rc = load_for_update_current [OF l]
  obtain rs' old where r: "rotated_records hash now gid nid cur grace new rs = (rs', old)" by fastforce
  obtain u where w: "write_keys dump w rs' ks = (Inr u, ks')" and o: "new_token out = new"
    using assms(2) l r by (auto simp: record_rotation_def split: prod.splits sum.splits)
  from write_keys_current [OF assms(1) w] rc r o
  show "current_records validate (keys_json ks') =
      fst (rotated_records hash now gid nid cur grace new (current_records validate (keys_json ks)))"
    "new_token out = new" "cache_ok validate ks'" by auto
qed

end
