(* ===== verification/Key_Properties.thy ===== *)
theory Key_Properties
  imports Key_Auth_Facts
begin

text \<open>
  The properties of the key store and of authentication. The witnesses use a concrete codec for key
  records and the identity as digest.
\<close>

section \<open>Witness data\<close>

definition demo_opt :: "('a \<Rightarrow> json) \<Rightarrow> 'a option \<Rightarrow> json" where
  "demo_opt f x = (case x of None \<Rightarrow> JNull | Some v \<Rightarrow> f v)"

definition demo_dump :: "key_record \<Rightarrow> json" where
  "demo_dump r = JObj [(''id'', demo_opt JStr (key_id r)), (''token_hash'', JStr (token_hash r)),
     (''namespace'', JStr (key_namespace r)), (''label'', demo_opt JStr (key_label r)),
     (''created_at'', JInt (key_created_at r)), (''expires_at'', demo_opt JInt (expires_at r)),
     (''status'', JBool (key_status r = Active)), (''admin'', JBool (admin r))]"

definition demo_unopt_str :: "json \<Rightarrow> string option" where
  "demo_unopt_str j = (case j of JStr s \<Rightarrow> Some s | _ \<Rightarrow> None)"

definition demo_unopt_int :: "json \<Rightarrow> int option" where
  "demo_unopt_int j = (case j of JInt s \<Rightarrow> Some s | _ \<Rightarrow> None)"

definition demo_validate :: "json \<Rightarrow> key_record option" where
  "demo_validate j =
     (case j of
        JObj [(_, i), (_, JStr h), (_, JStr ns), (_, lab), (_, JInt cr), (_, ex), (_, JBool act), (_, JBool adm)] \<Rightarrow>
          Some \<lparr>key_id = demo_unopt_str i, token_hash = h, key_namespace = ns, key_label = demo_unopt_str lab,
                key_created_at = cr, expires_at = demo_unopt_int ex,
                key_status = (if act then Active else Revoked), admin = adm\<rparr>
      | _ \<Rightarrow> None)"

lemma demo_codec: "codec_ok demo_validate demo_dump"
proof -
  have "demo_validate (demo_dump r) = Some r" for r
    by (cases "key_id r"; cases "key_label r"; cases "expires_at r"; cases "key_status r")
       (simp_all add: demo_validate_def demo_dump_def demo_opt_def demo_unopt_str_def demo_unopt_int_def)
  then show ?thesis by (simp add: codec_ok_def demo_dump_def dict_keys_def)
qed

definition demo_record :: key_record where
  "demo_record = created_record id ''k1'' ''tok'' 0 ''default'' None None True"

definition demo_file :: keys_file where
  "demo_file = Present (Json (JArr [demo_dump demo_record])) (1, 1, 1)"

definition demo_store :: key_store where
  "demo_store = \<lparr>keys_json = demo_file, kcache = None, logged_expired_ids = []\<rparr>"

definition demo_world :: key_world where
  "demo_world = \<lparr>wstore = demo_store, used = [(1, 1, 1)]\<rparr>"

definition good_try :: read_try where
  "good_try = \<lparr>stat_ok = True, read_ok = True\<rparr>"

definition demo_server :: server_keys where
  "demo_server = \<lparr>kstore = demo_store, env_file_key = Some ''tok'', api_key = ''tok''\<rparr>"

definition demo_rotation :: rotation_world where
  "demo_rotation = \<lparr>verify_ok = True, record_read_ok = True, env_write = Env_landed, keys_write = Landed (2, 2, 2),
     rot_now = 0, rot_grace_id = ''g'', rot_new_id = ''k2'', rot_new_token = ''new'', caller_cancelled = False\<rparr>"

lemma good_try_ok [simp]: "both_ok good_try"
  by (simp add: both_ok_def good_try_def)

lemma demo_load [simp]: "load_for_update demo_validate True demo_file = Inr [demo_record]"
  using load_for_update_written [OF demo_codec, of "[demo_record]" "(1, 1, 1)"] by (simp add: demo_file_def)

lemma demo_current [simp]: "current_records demo_validate demo_file = [demo_record]"
  by (simp add: current_records_def)

lemma demo_reachable: "reachable new_key_world (key_step demo_validate demo_dump id) demo_world"
  by (rule reach_init) (simp add: new_key_world_def demo_world_def demo_store_def demo_file_def)

lemma demo_fields [simp]:
  "key_id demo_record = Some ''k1''" "token_hash demo_record = ''tok''" "key_status demo_record = Active"
  "keys_json demo_store = demo_file" "kcache demo_store = None" "wstore demo_world = demo_store"
  by (simp_all add: demo_record_def created_record_def demo_store_def demo_world_def)

lemma valid_default [simp]: "valid_namespace ''default''"
  by code_simp

section \<open>The cached view\<close>

text \<open>
  The cached view of \<open>keys.json\<close> never hides a change. In every state reachable by this process's
  operations and by other processes replacing the file at any moment, also between the \<open>stat\<close> and the read
  of a load, a load whose file operations succeed returns the records of the file as it was at the \<open>stat\<close>
  or at the read; with no replacement in between, exactly the current file's records.
\<close>

lemma cached_view_is_current:
  assumes "reachable new_key_world (key_step validate dump hash) w" and "both_ok t"
    and "load_between validate t (keys_json (wstore w)) f2 (kcache (wstore w)) = (rs, c)"
  shows "rs = current_records validate (keys_json (wstore w)) \<or> rs = current_records validate f2"
proof -
  have "key_world_inv validate w" using assms(1) by (rule key_machine.inv_reachable)
  then have co: "cache_ok validate (wstore w)" by (simp add: key_world_inv_def)
  from assms(3) show ?thesis
  proof (cases rule: load_between_fresh)
    case (hit g)
    then obtain content where "keys_json (wstore w) = Present content g"
      by (auto simp: file_signature_of_def split: keys_file.splits if_splits)
    then show ?thesis using co hit(2) unfolding cache_ok_def by blast
  next
    case kept
    then show ?thesis using assms(2) by (auto simp: both_ok_def)
  next
    case (stored g)
    then show ?thesis by blast
  qed
qed

theorem cached_view_is_current_witness:
  "\<exists>rs c. load_between demo_validate good_try demo_file demo_file None = (rs, c) \<and> rs = [demo_record]"
proof -
  obtain rs c where l: "load_between demo_validate good_try demo_file demo_file None = (rs, c)" by fastforce
  from cached_view_is_current [OF demo_reachable good_try_ok, of demo_file rs c] l show ?thesis by simp
qed

section \<open>Authentication\<close>

text \<open>
  C25: when both of its reads of \<open>keys.json\<close> succeed, \<open>authenticate_token\<close> implements its three-source specification on the
  current content of the file: the first active unexpired record with the token's digest decides namespace and admin; else a
  TOML token gives its namespace and never admin; else the default key gives admin on the default
  namespace unless a revoked or expired record has its digest; an empty or non-ASCII token never matches.
\<close>

theorem authenticate_token_refines_spec:
  assumes "reachable new_key_world (key_step validate dump hash) w" and "both_ok t1" and "both_ok t2"
  shows "fst (authenticate_token validate hash t1 t2 now1 now2 token dk nss (Some (wstore w))) =
         auth_spec hash now1 now2 token dk nss (current_records validate (keys_json (wstore w)))"
proof -
  have "key_world_inv validate w" using assms(1) by (rule key_machine.inv_reachable)
  then show ?thesis using assms(2,3) by (intro authenticate_token_current) (simp_all add: key_world_inv_def)
qed

theorem authenticate_token_refines_spec_witness:
  "fst (authenticate_token demo_validate id good_try good_try 0 0 ''tok'' ''dk'' [] (Some demo_store)) =
   Identity \<lparr>id_namespace = ''default'', id_admin = True\<rparr>"
proof -
  have a: "py_isascii ''tok''" by code_simp
  show ?thesis
    using authenticate_token_refines_spec [OF demo_reachable good_try_ok good_try_ok, of 0 0 "''tok''" "''dk''" "[]"] a
    by (simp add: auth_spec_def expired_def demo_record_def created_record_def checked_identity_def)
qed

lemma find_update_first_other:
  "\<forall>x \<in> set xs. P x \<longrightarrow> \<not> Q x \<and> \<not> Q (f x) \<Longrightarrow> find Q (update_first P f xs) = find Q xs"
  by (induction xs) auto

lemma ex_update_first_other:
  "\<forall>x \<in> set xs. P x \<longrightarrow> \<not> Q x \<and> \<not> Q (f x) \<Longrightarrow> (\<exists>x \<in> set (update_first P f xs). Q x) = (\<exists>x \<in> set xs. Q x)"
  by (induction xs) auto

lemma auth_spec_cong:
  "find (\<lambda>r. key_status r = Active \<and> \<not> expired now1 r \<and> token_hash r = hash tk) rs' =
   find (\<lambda>r. key_status r = Active \<and> \<not> expired now1 r \<and> token_hash r = hash tk) rs \<Longrightarrow>
   (\<exists>r \<in> set rs'. retired now2 r \<and> token_hash r = hash tk) = (\<exists>r \<in> set rs. retired now2 r \<and> token_hash r = hash tk) \<Longrightarrow>
   auth_spec hash now1 now2 tk dk nss rs' = auth_spec hash now1 now2 tk dk nss rs"
  by (simp only: auth_spec_def)

lemma update_first_unique:
  "length (filter P xs) = 1 \<Longrightarrow> update_first P f xs = map (\<lambda>x. if P x then f x else x) xs"
proof (induction xs)
  case (Cons x xs)
  have "\<forall>y \<in> set xs. \<not> P y \<Longrightarrow> map (\<lambda>x. if P x then f x else x) xs = xs" by (induction xs) auto
  then show ?case using Cons by (auto simp: filter_empty_conv)
qed simp

text \<open>
  C26: A revoked key is refused at once. Assume that one record has the revoked key's id and that exactly that record has the token's digest, that
  the token is not also a namespace token of the configuration, and that both reads of \<open>keys.json\<close> that an authentication makes succeed. When
  \<open>revoke\<close> returns, the token no longer authenticates, not even when it is also the server's current default key, and the answer
  for every token with another digest is what it was.
\<close>

theorem revoked_key_is_refused:
  assumes "reachable new_key_world (key_step validate dump hash) w" and "codec_ok validate dump"
    and "revoke validate dump rd wr kid (wstore w) = (Inr (), ks')"
    and "current_records validate (keys_json (wstore w)) = rs"
    and "length (filter (\<lambda>r. key_id r = Some kid) rs) = 1"
    and "\<forall>r \<in> set rs. token_hash r = hash token \<longleftrightarrow> key_id r = Some kid"
    and "toml_namespace nss token = None" and "both_ok t1" and "both_ok t2"
  shows "fst (authenticate_token validate hash t1 t2 now1 now2 token dk nss (Some ks')) = No_match \<and>
    (\<forall>other. hash other \<noteq> hash token \<longrightarrow>
       fst (authenticate_token validate hash t1 t2 now1 now2 other dk nss (Some ks')) =
       fst (authenticate_token validate hash t1 t2 now1 now2 other dk nss (Some (wstore w))))"
proof -
  have co: "cache_ok validate (wstore w)"
    using key_machine.inv_reachable [OF assms(1)] by (simp add: key_world_inv_def)
  note rv = revoke_current [OF assms(2,3)]
  let ?rs' = "revoked_records kid rs"
  have after: "fst (authenticate_token validate hash t1 t2 now1 now2 tk dk nss (Some ks')) =
      auth_spec hash now1 now2 tk dk nss ?rs'" for tk
    using authenticate_token_current [OF rv(3) [OF co] assms(8,9)] rv(1) assms(4) by simp
  have before: "fst (authenticate_token validate hash t1 t2 now1 now2 tk dk nss (Some (wstore w))) =
      auth_spec hash now1 now2 tk dk nss rs" for tk
    using authenticate_token_current [OF co assms(8,9)] assms(4) by simp
  have m: "?rs' = map (\<lambda>r. if key_id r = Some kid then r\<lparr>key_status := Revoked\<rparr> else r) rs"
    unfolding revoked_records_def by (rule update_first_unique [OF assms(5)])
  have none: "find (\<lambda>r. key_status r = Active \<and> \<not> expired now1 r \<and> token_hash r = hash token) ?rs' = None"
    using assms(6) by (auto simp: m filter_find_None)
  obtain r where r: "r \<in> set rs" "key_id r = Some kid" using rv(2) assms(4) by auto
  then have "r\<lparr>key_status := Revoked\<rparr> \<in> set ?rs'" unfolding m by force
  moreover have "token_hash r = hash token" using r assms(6) by blast
  ultimately have ret: "\<exists>r \<in> set ?rs'. retired now2 r \<and> token_hash r = hash token"
    by (intro bexI [of _ "r\<lparr>key_status := Revoked\<rparr>"]) (simp_all add: retired_def)
  have "auth_spec hash now1 now2 token dk nss ?rs' = No_match"
    unfolding auth_spec_def none assms(7) using ret by simp
  moreover have "auth_spec hash now1 now2 other dk nss ?rs' = auth_spec hash now1 now2 other dk nss rs"
    if "hash other \<noteq> hash token" for other
  proof (rule auth_spec_cong)
    have *: "\<forall>x \<in> set rs. key_id x = Some kid \<longrightarrow> token_hash x \<noteq> hash other" using assms(6) that by force
    show "find (\<lambda>r. key_status r = Active \<and> \<not> expired now1 r \<and> token_hash r = hash other) ?rs' =
          find (\<lambda>r. key_status r = Active \<and> \<not> expired now1 r \<and> token_hash r = hash other) rs"
      unfolding revoked_records_def using * by (intro find_update_first_other) auto
    show "(\<exists>r \<in> set ?rs'. retired now2 r \<and> token_hash r = hash other) =
          (\<exists>r \<in> set rs. retired now2 r \<and> token_hash r = hash other)"
      unfolding revoked_records_def using * by (intro ex_update_first_other) auto
  qed
  ultimately show ?thesis using after before by simp
qed

theorem revoked_key_is_refused_witness:
  "\<exists>ks'. revoke demo_validate demo_dump True (Landed (2, 2, 2)) ''k1'' demo_store = (Inr (), ks') \<and>
     fst (authenticate_token demo_validate id good_try good_try 5 5 ''tok'' ''tok'' [] (Some ks')) = No_match"
proof -
  obtain ks' where rv: "revoke demo_validate demo_dump True (Landed (2, 2, 2)) ''k1'' (wstore demo_world) = (Inr (), ks')"
    by (simp add: revoke_def write_keys_def Let_def)
  have "toml_namespace [] ''tok'' = None" by (simp add: toml_namespace_def)
  from revoked_key_is_refused [OF demo_reachable demo_codec rv, of "[demo_record]" "''tok''" "[]" good_try good_try 5 5 "''tok''"]
    this rv show ?thesis by auto
qed

section \<open>Rotation\<close>

lemma commit_Inr_cases:
  assumes "commit_rotation validate dump hash x cur grace sk = (Inr out, sk')"
  obtains ks' where "record_rotation validate dump hash (record_read_ok x) (keys_write x) (rot_now x)
      (rot_grace_id x) (rot_new_id x) cur grace (rot_new_token x) (kstore sk) = (Inr out, ks')"
    "sk' = sk\<lparr>env_file_key := Some (rot_new_token x), kstore := ks', api_key := rot_new_token x\<rparr>"
proof -
  obtain r ks' where rr: "record_rotation validate dump hash (record_read_ok x) (keys_write x) (rot_now x)
      (rot_grace_id x) (rot_new_id x) cur grace (rot_new_token x) (kstore sk) = (r, ks')" by fastforce
  with assms that show ?thesis
    by (cases r) (auto simp: commit_rotation_def Let_def split: if_splits)
qed

lemma commit_cancel_irrelevant:
  "commit_rotation validate dump hash (x\<lparr>caller_cancelled := b\<rparr>) cur grace sk =
   commit_rotation validate dump hash x cur grace sk"
  by (simp add: commit_rotation_def Let_def split: prod.split sum.split)

lemma rotate_Inr_cases:
  assumes "rotate_and_persist_default_key validate dump hash x grace sk = (Inr out, sk')"
  obtains ks' where "rotation_grace_ok grace" "record_rotation validate dump hash (record_read_ok x)
      (keys_write x) (rot_now x) (rot_grace_id x) (rot_new_id x) (api_key sk) grace (rot_new_token x) (kstore sk) =
      (Inr out, ks')"
    "sk' = sk\<lparr>env_file_key := Some (rot_new_token x), kstore := ks', api_key := rot_new_token x\<rparr>"
proof -
  obtain r sk1 where c: "commit_rotation validate dump hash x (api_key sk) grace sk = (r, sk1)" by fastforce
  with assms have "rotation_grace_ok grace" "r = Inr out" "sk1 = sk'"
    by (auto simp: rotate_and_persist_default_key_def split: if_splits sum.splits)
  with c that show ?thesis by (blast elim: commit_Inr_cases)
qed

lemma rotate_success:
  assumes "rotate_and_persist_default_key validate dump hash x grace sk = (Inr out, sk')" and "codec_ok validate dump"
  shows "rotation_grace_ok grace" "env_file_key sk' = Some (rot_new_token x)" "api_key sk' = rot_new_token x"
    "new_token out = rot_new_token x" "cache_ok validate (kstore sk')"
    "current_records validate (keys_json (kstore sk')) =
       fst (rotated_records hash (rot_now x) (rot_grace_id x) (rot_new_id x) (api_key sk) grace (rot_new_token x)
              (current_records validate (keys_json (kstore sk))))"
proof -
  obtain ks' where g: "rotation_grace_ok grace" and rr: "record_rotation validate dump hash (record_read_ok x)
      (keys_write x) (rot_now x) (rot_grace_id x) (rot_new_id x) (api_key sk) grace (rot_new_token x) (kstore sk) =
      (Inr out, ks')"
    and sk': "sk' = sk\<lparr>env_file_key := Some (rot_new_token x), kstore := ks', api_key := rot_new_token x\<rparr>"
    by (rule rotate_Inr_cases [OF assms(1)])
  from rotation_current [OF assms(2) rr] g sk'
  show "rotation_grace_ok grace" "env_file_key sk' = Some (rot_new_token x)" "api_key sk' = rot_new_token x"
    "new_token out = rot_new_token x" "cache_ok validate (kstore sk')"
    "current_records validate (keys_json (kstore sk')) =
       fst (rotated_records hash (rot_now x) (rot_grace_id x) (rot_new_id x) (api_key sk) grace (rot_new_token x)
              (current_records validate (keys_json (kstore sk))))" by auto
qed

lemma find_append: "find P (xs @ ys) = (case find P xs of None \<Rightarrow> find P ys | Some x \<Rightarrow> Some x)"
  by (induction xs) auto

lemma find_hash_filter:
  "find (\<lambda>r. key_status r = Active \<and> \<not> expired n r \<and> token_hash r = h) rs =
   find (\<lambda>r. key_status r = Active \<and> \<not> expired n r) (filter (\<lambda>r. token_hash r = h) rs)"
  by (induction rs) auto

lemma filter_update_first:
  assumes "\<forall>x. P x \<longrightarrow> Q x" and "\<forall>x. Q x \<longrightarrow> Q (f x)"
  shows "filter Q (update_first P f xs) = update_first P f (filter Q xs)"
  using assms by (induction xs) auto

lemma filter_update_first_other:
  assumes "\<forall>x. P x \<longrightarrow> \<not> Q x \<and> \<not> Q (f x)"
  shows "filter Q (update_first P f xs) = filter Q xs"
  using assms by (induction xs) auto

lemma find_in_filter: "\<forall>x. P x \<longrightarrow> Q x \<Longrightarrow> find P (filter Q xs) = find P xs"
  by (induction xs) auto

lemma retire_hash [simp]: "token_hash (retire now grace r) = token_hash r" "key_id (retire now grace r) = key_id r"
  by (simp_all add: retire_def)

lemma rotated_new:
  assumes "\<forall>r \<in> set rs. token_hash r \<noteq> hash new" and "hash cur \<noteq> hash new"
  shows "filter (\<lambda>r. token_hash r = hash new) (fst (rotated_records hash now gid nid cur grace new rs)) =
         [created_record hash nid new now default_ns None None True]"
proof -
  have none: "filter (\<lambda>r. token_hash r = hash new) rs = []" using assms(1) by (simp add: filter_empty_conv)
  have up: "filter (\<lambda>r. token_hash r = hash new)
      (update_first (\<lambda>r. is_current (hash cur) r \<and> key_status r = Active) (retire now grace) rs) = []"
    using assms(2) none by (subst filter_update_first_other) (auto simp: is_current_def)
  show ?thesis
    using none up assms(2)
    by (auto simp: rotated_records_def Let_def created_record_def split: option.splits)
qed

text \<open>
  A rotation that returns has switched the default key everywhere: the key file, the server's current
  key and the returned token are the new one, and the new token authenticates as admin of the default
  namespace, whatever the time.
\<close>

lemma rotation_switches_default_key:
  assumes "codec_ok validate dump"
    and "rotate_and_persist_default_key validate dump hash x grace sk = (Inr out, sk')"
    and "\<forall>r \<in> set (current_records validate (keys_json (kstore sk))). token_hash r \<noteq> hash (rot_new_token x)"
    and "hash (api_key sk) \<noteq> hash (rot_new_token x)"
    and "rot_new_token x \<noteq> []" and "py_isascii (rot_new_token x)" and "both_ok t1" and "both_ok t2"
  shows "env_file_key sk' = Some (rot_new_token x) \<and> api_key sk' = rot_new_token x \<and>
    new_token out = rot_new_token x \<and>
    fst (authenticate_token validate hash t1 t2 now1 now2 (rot_new_token x) (api_key sk') nss (Some (kstore sk'))) =
      Identity \<lparr>id_namespace = ''default'', id_admin = True\<rparr>"
proof -
  note sc = rotate_success [OF assms(2,1)]
  have "find (\<lambda>r. key_status r = Active \<and> \<not> expired now1 r \<and> token_hash r = hash (rot_new_token x))
      (current_records validate (keys_json (kstore sk'))) =
      Some (created_record hash (rot_new_id x) (rot_new_token x) (rot_now x) default_ns None None True)"
    unfolding find_hash_filter sc(6)
    using rotated_new [where hash = hash and new = "rot_new_token x" and cur = "api_key sk", OF assms(3,4)]
    by (simp add: created_record_def expired_def)
  then have "auth_spec hash now1 now2 (rot_new_token x) (api_key sk') nss
      (current_records validate (keys_json (kstore sk'))) =
      Identity \<lparr>id_namespace = ''default'', id_admin = True\<rparr>"
    using assms(5,6) by (simp add: auth_spec_def checked_identity_def created_record_def)
  then show ?thesis using sc authenticate_token_current [OF sc(5) assms(7,8)] by simp
qed

lemma demo_rotate: "\<exists>out sk'. rotate_and_persist_default_key demo_validate demo_dump id demo_rotation g demo_server = (Inr out, sk')"
  if "rotation_grace_ok g"
proof -
  have "current_token_ok ''tok''" by code_simp
  with that show ?thesis
    by (auto simp: rotate_and_persist_default_key_def commit_rotation_def demo_server_def demo_rotation_def
        record_rotation_def write_keys_def Let_def rotated_records_def is_current_def split: prod.splits)
qed

theorem rotation_switches_default_key_witness:
  "\<exists>out sk'. rotate_and_persist_default_key demo_validate demo_dump id demo_rotation 60 demo_server = (Inr out, sk') \<and>
     fst (authenticate_token demo_validate id good_try good_try 5 5 ''new'' (api_key sk') [] (Some (kstore sk'))) =
       Identity \<lparr>id_namespace = ''default'', id_admin = True\<rparr>"
proof -
  have "rotation_grace_ok 60" by code_simp
  then obtain out sk' where r: "rotate_and_persist_default_key demo_validate demo_dump id demo_rotation 60 demo_server = (Inr out, sk')"
    using demo_rotate by blast
  have "py_isascii ''new''" by code_simp
  with rotation_switches_default_key [OF demo_codec r _ _ _ _ good_try_ok good_try_ok, of 5 5 "[]"] r show ?thesis
    by (auto simp: demo_rotation_def demo_server_def)
qed

lemma rotated_old:
  assumes "\<forall>r \<in> set rs. token_hash r = hash cur \<longrightarrow> key_id r \<noteq> None" and "hash cur \<noteq> hash new"
    and one: "length (filter (\<lambda>r. token_hash r = hash cur) rs) \<le> 1"
  shows "filter (\<lambda>r. token_hash r = hash cur) (fst (rotated_records hash now gid nid cur grace new rs)) =
    (case filter (\<lambda>r. token_hash r = hash cur) rs of
       [] \<Rightarrow> if grace > 0 then [created_record hash gid cur now default_ns None (Some (grace_end now grace)) True] else []
     | r # _ \<Rightarrow> [if key_status r = Active then retire now grace r else r])"
proof -
  let ?f = "filter (\<lambda>r. token_hash r = hash cur)"
  let ?live = "\<lambda>r. is_current (hash cur) r \<and> key_status r = Active"
  have up: "?f (update_first ?live (retire now grace) rs) = update_first ?live (retire now grace) (?f rs)"
    by (rule filter_update_first) (auto simp: is_current_def)
  have fl: "find ?live rs = find ?live (?f rs)"
    by (rule find_in_filter [symmetric]) (auto simp: is_current_def)
  have tail: "token_hash (created_record hash nid new now default_ns None None True) \<noteq> hash cur"
    "token_hash (created_record hash gid cur now default_ns None (Some (grace_end now grace)) True) = hash cur"
    using assms(2) by (auto simp: created_record_def)
  show ?thesis
  proof (cases "?f rs")
    case Nil
    then have "\<not> (\<exists>r \<in> set rs. is_current (hash cur) r)" by (auto simp: is_current_def filter_empty_conv)
    moreover have "find ?live rs = None" unfolding fl Nil by simp
    ultimately show ?thesis using Nil tail by (auto simp: rotated_records_def Let_def)
  next
    case (Cons r rest)
    then have rest: "rest = []" using one by simp
    have "r \<in> set (?f rs)" by (simp add: Cons)
    then have r: "r \<in> set rs" "token_hash r = hash cur" by simp_all
    then have cr: "is_current (hash cur) r" using assms(1) by (auto simp: is_current_def)
    show ?thesis
    proof (cases "key_status r = Active")
      case True
      then have "find ?live rs = Some r" unfolding fl Cons using cr by simp
      then show ?thesis using Cons rest cr True tail up by (simp add: rotated_records_def Let_def)
    next
      case False
      then have "find ?live rs = None" unfolding fl Cons rest by simp
      then show ?thesis using Cons rest r cr False tail by (auto simp: rotated_records_def Let_def)
    qed
  qed
qed

text \<open>
  C32: A rotation retires the old default key exactly when it says. Assume that at most one record has the old token's digest and that such a
  record has a key id, that the old token is ASCII text, has another digest than the new one and is not also a namespace token of the
  configuration, and that both reads of \<open>keys.json\<close> that an authentication makes succeed. When the rotation returns with no grace, the old token
  is refused at once; with a grace of g seconds it is refused from the end of the grace on, and before that accepted with the identity of
  its record if that is active, and as the default admin if it has none. An old token whose record was revoked is refused in any case.
\<close>

theorem rotation_retires_old_key:
  assumes "codec_ok validate dump"
    and "rotate_and_persist_default_key validate dump hash x grace sk = (Inr out, sk')"
    and "current_records validate (keys_json (kstore sk)) = rs"
    and "\<forall>r \<in> set rs. token_hash r = hash (api_key sk) \<longrightarrow> key_id r \<noteq> None"
    and "length (filter (\<lambda>r. token_hash r = hash (api_key sk)) rs) \<le> 1"
    and "hash (api_key sk) \<noteq> hash (rot_new_token x)" and "toml_namespace nss (api_key sk) = None"
    and "py_isascii (api_key sk)" and "both_ok t1" and "both_ok t2"
    and "answer = fst (authenticate_token validate hash t1 t2 now1 now2 (api_key sk) (api_key sk') nss (Some (kstore sk')))"
  shows "(grace = 0 \<or> grace_end (rot_now x) grace \<le> now1 \<or>
           (\<exists>r \<in> set rs. token_hash r = hash (api_key sk) \<and> key_status r = Revoked) \<longrightarrow> answer = No_match) \<and>
         (grace > 0 \<and> now1 < grace_end (rot_now x) grace \<longrightarrow>
           (case filter (\<lambda>r. token_hash r = hash (api_key sk)) rs of
              [] \<Rightarrow> answer = Identity \<lparr>id_namespace = ''default'', id_admin = True\<rparr>
            | r # _ \<Rightarrow> key_status r = Active \<longrightarrow> answer = checked_identity (key_namespace r) (admin r)))"
proof -
  note sc = rotate_success [OF assms(2,1)]
  let ?h = "hash (api_key sk)"
  let ?rs' = "current_records validate (keys_json (kstore sk'))"
  have ne: "api_key sk \<noteq> []" using assms(2)
    by (auto simp: rotate_and_persist_default_key_def current_token_ok_def split: if_splits)
  have dk: "api_key sk \<noteq> api_key sk'" using sc(3) assms(6) by auto
  have ans: "answer = (case find (\<lambda>r. key_status r = Active \<and> \<not> expired now1 r) (filter (\<lambda>r. token_hash r = ?h) ?rs') of
      Some r \<Rightarrow> checked_identity (key_namespace r) (admin r) | None \<Rightarrow> No_match)"
    unfolding assms(11) authenticate_token_current [OF sc(5) assms(9,10)] auth_spec_def find_hash_filter assms(7)
    using ne assms(8) dk by (simp split: option.split)
  have g0: "grace \<ge> 0" using sc(1) by (simp add: rotation_grace_ok_def)
  have f: "filter (\<lambda>r. token_hash r = ?h) ?rs' =
    (case filter (\<lambda>r. token_hash r = ?h) rs of
       [] \<Rightarrow> if grace > 0 then [created_record hash (rot_grace_id x) (api_key sk) (rot_now x) default_ns None
                (Some (grace_end (rot_now x) grace)) True] else []
     | r # _ \<Rightarrow> [if key_status r = Active then retire (rot_now x) grace r else r])"
    unfolding sc(6) assms(3) using assms(4,6,5) by (rule rotated_old)
  show ?thesis
  proof (cases "filter (\<lambda>r. token_hash r = ?h) rs")
    case Nil
    then have "\<not> (\<exists>r \<in> set rs. token_hash r = ?h \<and> key_status r = Revoked)" by (auto simp: filter_empty_conv)
    then show ?thesis using Nil g0 unfolding ans f
      by (auto simp: created_record_def expired_def checked_identity_def)
  next
    case (Cons r rest)
    then have "rest = []" using assms(5) by simp
    then have "set (filter (\<lambda>r. token_hash r = ?h) rs) = {r}" using Cons by simp
    then have uniq: "r' \<in> set rs \<and> token_hash r' = ?h \<longleftrightarrow> r' = r" for r' by auto
    have "(\<exists>r' \<in> set rs. token_hash r' = ?h \<and> key_status r' = Revoked) \<longleftrightarrow> key_status r = Revoked"
      using uniq by metis
    then show ?thesis using Cons g0 unfolding ans f
      by (cases "key_status r") (auto simp: retire_def expired_def)
  qed
qed

theorem rotation_retires_old_key_witness:
  "\<exists>out sk'. rotate_and_persist_default_key demo_validate demo_dump id demo_rotation 0 demo_server = (Inr out, sk') \<and>
     fst (authenticate_token demo_validate id good_try good_try 5 5 ''tok'' (api_key sk') [] (Some (kstore sk'))) = No_match"
proof -
  have "rotation_grace_ok 0" by code_simp
  then obtain out sk' where r: "rotate_and_persist_default_key demo_validate demo_dump id demo_rotation 0 demo_server = (Inr out, sk')"
    using demo_rotate by blast
  have "py_isascii ''tok''" "toml_namespace [] ''tok'' = None" by code_simp+
  with rotation_retires_old_key [OF demo_codec r, of "[demo_record]" "[]" good_try good_try _ 5 5] r show ?thesis
    by (auto simp: demo_rotation_def demo_server_def)
qed

text \<open>
  A rotation that fails changes nothing it does not report. Before the key file is written every
  failure leaves the whole key state as it was; if \<open>keys.json\<close> cannot be updated afterwards the key file
  holds the new key while \<open>keys.json\<close> and the server's current key are unchanged; and a cancelled caller
  leaves exactly the state the same rotation would have reached uncancelled.
\<close>

lemma rotation_failure_is_contained:
  assumes "rotate_and_persist_default_key validate dump hash x grace sk = (Inl e, sk')"
  shows "(e = CancelledError \<and> caller_cancelled x \<and>
            sk' = snd (rotate_and_persist_default_key validate dump hash (x\<lparr>caller_cancelled := False\<rparr>) grace sk)) \<or>
         (e = RotationIncomplete \<and> env_file_key sk' = Some (rot_new_token x) \<and> api_key sk' = api_key sk \<and>
            keys_json (kstore sk') = keys_json (kstore sk)) \<or>
         (e \<noteq> RotationIncomplete \<and> sk' = sk)"
proof -
  consider (early) "e \<noteq> RotationIncomplete" "sk' = sk"
    | (commit) r where "commit_rotation validate dump hash x (api_key sk) grace sk = (r, sk')"
        "Inl e = (if caller_cancelled x then Inl CancelledError else r)"
        "rotation_grace_ok grace" "current_token_ok (api_key sk)"
        "\<exists>rs. load_for_update validate (verify_ok x) (keys_json (kstore sk)) = Inr rs"
    using assms by (auto simp: rotate_and_persist_default_key_def load_for_update_def
        split: if_splits sum.splits prod.splits keys_file.splits key_content.splits json.splits option.splits)
  then show ?thesis
  proof cases
    case early
    then show ?thesis by blast
  next
    case (commit r)
    show ?thesis
    proof (cases "caller_cancelled x")
      case True
      have "commit_rotation validate dump hash (x\<lparr>caller_cancelled := False\<rparr>) (api_key sk) grace sk = (r, sk')"
        using commit(1) by (simp add: commit_cancel_irrelevant)
      with True commit show ?thesis by (auto simp: rotate_and_persist_default_key_def)
    next
      case False
      then have "commit_rotation validate dump hash x (api_key sk) grace sk = (Inl e, sk')" using commit by simp
      then show ?thesis
        by (auto simp: commit_rotation_def Let_def record_rotation_def
            split: if_splits sum.splits prod.splits dest: write_keys_failed)
    qed
  qed
qed

theorem rotation_failure_is_contained_witness:
  "\<exists>sk'. rotate_and_persist_default_key demo_validate demo_dump id (demo_rotation\<lparr>keys_write := Not_written\<rparr>) 0 demo_server =
      (Inl RotationIncomplete, sk') \<and> api_key sk' = ''tok'' \<and> env_file_key sk' = Some ''new''"
proof -
  have "current_token_ok ''tok''" "rotation_grace_ok 0" by code_simp+
  then have "\<exists>sk'. rotate_and_persist_default_key demo_validate demo_dump id (demo_rotation\<lparr>keys_write := Not_written\<rparr>) 0 demo_server =
      (Inl RotationIncomplete, sk')"
    by (auto simp: rotate_and_persist_default_key_def commit_rotation_def demo_server_def demo_rotation_def
        record_rotation_def write_keys_def Let_def rotated_records_def is_current_def split: prod.splits)
  then obtain sk' where r: "rotate_and_persist_default_key demo_validate demo_dump id
      (demo_rotation\<lparr>keys_write := Not_written\<rparr>) 0 demo_server = (Inl RotationIncomplete, sk')" by blast
  from rotation_failure_is_contained [OF r] r show ?thesis by (auto simp: demo_rotation_def demo_server_def)
qed

end
