(* ===== verification/Auth_Properties.thy ===== *)
theory Auth_Properties
  imports Key_Properties
begin

text \<open>
  Confinement of non-admin callers, failing closed on an unreadable \<open>keys.json\<close>, graph view tokens, the
  middleware, and the round trip of the key file.
\<close>

section \<open>Failing closed\<close>

text \<open>
  Key mutations fail closed. When \<open>keys.json\<close> exists but cannot be read or parsed, creating, revoking,
  replacing the synthetic records, recording a rotation and the whole rotation raise, and not a single part
  of the key state changes (\<open>keys.json\<close> is never overwritten with only new records).
\<close>

lemma mutations_fail_closed:
  assumes "load_for_update validate rd (keys_json ks) = Inl e"
  shows "revoke validate dump rd w kid ks = (Inl e, ks) \<and>
    load_synthetic_records validate dump rd w syn ks = (Inl e, ks) \<and>
    record_rotation validate dump hash rd w now gid nid cur grace new ks = (Inl e, ks) \<and>
    (\<exists>e'. create_key_record validate dump hash rd w kid token now ns label exp adm ks = (Inl e', ks)) \<and>
    (kstore sk = ks \<and> verify_ok x = rd \<longrightarrow>
       (\<exists>e'. rotate_and_persist_default_key validate dump hash x grace sk = (Inl e', sk)))"
  using assms
  by (auto simp: revoke_def load_synthetic_records_def record_rotation_def create_key_record_def
      rotate_and_persist_default_key_def)

theorem mutations_fail_closed_witness:
  "revoke demo_validate demo_dump True (Landed (2, 2, 2)) ''k1'' (demo_store\<lparr>keys_json := Present Not_json (1, 1, 1)\<rparr>) =
   (Inl (KeyStoreUnreadable Content_cause), demo_store\<lparr>keys_json := Present Not_json (1, 1, 1)\<rparr>)"
  using mutations_fail_closed [of demo_validate True "demo_store\<lparr>keys_json := Present Not_json (1, 1, 1)\<rparr>"
      "KeyStoreUnreadable Content_cause" demo_dump "Landed (2, 2, 2)" "''k1''"]
  by (simp add: load_for_update_def)

section \<open>Confinement of non-admin callers\<close>

definition ids_distinct :: "key_record list \<Rightarrow> bool" where
  "ids_distinct rs \<longleftrightarrow> distinct (filter (\<lambda>i. i \<noteq> None) (map key_id rs))"

lemma ids_distinct_unique:
  "ids_distinct rs \<Longrightarrow> r \<in> set rs \<Longrightarrow> r' \<in> set rs \<Longrightarrow> key_id r = Some k \<Longrightarrow> key_id r' = Some k \<Longrightarrow> r = r'"
  by (induction rs) (auto simp: ids_distinct_def image_iff split: if_splits)

lemma map_update_first: "\<forall>x. g (f x) = g x \<Longrightarrow> map g (update_first P f xs) = map g xs"
  by (induction xs) auto

lemma filter_update_first_set:
  "\<forall>x \<in> set xs. P x \<longrightarrow> \<not> Q x \<and> \<not> Q (f x) \<Longrightarrow> filter Q (update_first P f xs) = filter Q xs"
  by (induction xs) auto

lemma ids_distinct_revoked: "ids_distinct (revoked_records kid rs) = ids_distinct rs"
  by (simp add: ids_distinct_def revoked_records_def map_update_first)

text \<open>The key-management requests one caller can make, in any order and with any outcome of the file operations.\<close>

inductive caller_step ::
    "(json \<Rightarrow> key_record option) \<Rightarrow> (key_record \<Rightarrow> json) \<Rightarrow> (string \<Rightarrow> string) \<Rightarrow> auth_identity \<Rightarrow> key_store \<Rightarrow> key_store \<Rightarrow> bool"
  for validate dump hash i where
  caller_creates: "Some kid \<notin> key_id ` set (current_records validate (keys_json ks)) \<Longrightarrow>
     route_create_key validate dump hash rd w kid token now i ns label exp adm ks = (rc, ks') \<Longrightarrow>
     caller_step validate dump hash i ks ks'"
| caller_revokes: "route_revoke_key validate dump t rd w i kid ks = (rr, ks') \<Longrightarrow>
     caller_step validate dump hash i ks ks'"
| caller_lists: "route_list_keys validate t i st lns ks = (rl, ks') \<Longrightarrow> caller_step validate dump hash i ks ks'"

definition confined_start ::
    "(json \<Rightarrow> key_record option) \<Rightarrow> (key_record \<Rightarrow> json) \<Rightarrow> key_store \<Rightarrow> key_store \<Rightarrow> bool" where
  "confined_start validate dump ks0 ks \<longleftrightarrow>
     ks = ks0 \<and> codec_ok validate dump \<and> cache_ok validate ks0 \<and>
     ids_distinct (current_records validate (keys_json ks0))"

definition foreign_keys ::
    "(json \<Rightarrow> key_record option) \<Rightarrow> auth_identity \<Rightarrow> key_store \<Rightarrow> key_record list" where
  "foreign_keys validate i ks = filter (\<lambda>r. \<not> can_manage_key i r) (current_records validate (keys_json ks))"

definition confined ::
    "(json \<Rightarrow> key_record option) \<Rightarrow> (key_record \<Rightarrow> json) \<Rightarrow> auth_identity \<Rightarrow> key_store \<Rightarrow> key_store \<Rightarrow> bool" where
  "confined validate dump i ks0 ks \<longleftrightarrow>
     codec_ok validate dump \<and> cache_ok validate ks \<and> ids_distinct (current_records validate (keys_json ks)) \<and>
     (\<not> id_admin i \<longrightarrow> foreign_keys validate i ks = foreign_keys validate i ks0)"

lemma load_keys_any:
  assumes "cache_ok validate ks" and "load_keys validate t ks = (rs, ks')"
  shows "(rs = current_records validate (keys_json ks) \<or> rs = []) \<and> keys_json ks' = keys_json ks \<and> cache_ok validate ks'"
proof -
  obtain c where l: "load_between validate t (keys_json ks) (keys_json ks) (kcache ks) = (rs, c)"
    and ks': "ks' = ks\<lparr>kcache := c\<rparr>"
    using assms(2) by (auto simp: load_keys_def split: prod.splits)
  from l show ?thesis
  proof (cases rule: load_between_fresh)
    case (hit g)
    then obtain co where "keys_json ks = Present co g"
      by (auto simp: file_signature_of_def split: keys_file.splits if_splits)
    then have "current_records validate (keys_json ks) = rs"
      using assms(1) hit(2) unfolding cache_ok_def by blast
    moreover have "ks' = ks" using ks' hit(3) by simp
    ultimately show ?thesis using assms(1) by simp
  next
    case kept
    moreover have "ks' = ks" using ks' kept(1) by simp
    ultimately show ?thesis using assms(1) by auto
  next
    case (stored g)
    then show ?thesis using ks' by (auto simp: cache_ok_def)
  qed
qed

lemma caller_may_revoke_any:
  assumes "cache_ok validate ks" and "caller_may_revoke validate t i kid ks = (may, ks1)"
  shows "keys_json ks1 = keys_json ks" "cache_ok validate ks1"
    "may \<Longrightarrow> id_admin i \<or>
      (\<exists>r \<in> set (current_records validate (keys_json ks)). key_id r = Some kid \<and> can_manage_key i r)"
proof -
  obtain rs ks' where l: "load_keys validate t ks = (rs, ks')" by fastforce
  note a = load_keys_any [OF assms(1) l]
  show "keys_json ks1 = keys_json ks" "cache_ok validate ks1"
    "may \<Longrightarrow> id_admin i \<or>
      (\<exists>r \<in> set (current_records validate (keys_json ks)). key_id r = Some kid \<and> can_manage_key i r)"
    using assms l a by (auto simp: caller_may_revoke_def list_keys_def split: if_splits)
qed

lemma create_confined:
  assumes "confined validate dump i ks0 ks"
    and "Some kid \<notin> key_id ` set (current_records validate (keys_json ks))"
    and "route_create_key validate dump hash rd w kid token now i ns label exp adm ks = (r, ks')"
  shows "confined validate dump i ks0 ks'"
proof -
  have c: "codec_ok validate dump" "cache_ok validate ks" using assms(1) by (auto simp: confined_def)
  consider "ks' = ks" | (created) kt where "authorize_key_create i ns adm = None"
      "create_key_record validate dump hash rd w kid token now ns label exp adm ks = (Inr kt, ks')"
    | (failed) e where "create_key_record validate dump hash rd w kid token now ns label exp adm ks = (Inl e, ks')"
    using assms(3) by (auto simp: route_create_key_def split: option.splits if_splits prod.splits sum.splits)
  then show ?thesis
  proof cases
    case created
    note cr = create_current [OF c(1) created(2)]
    have "\<not> id_admin i \<Longrightarrow> can_manage_key i (created_record hash kid token now ns label (expiry_value exp) adm)"
      using created(1) by (auto simp: authorize_key_create_def can_manage_key_def created_record_def split: if_splits)
    moreover have "key_id (created_record hash kid token now ns label (expiry_value exp) adm) = Some kid"
      by (simp add: created_record_def)
    ultimately show ?thesis
      using assms(1,2) cr by (auto simp: confined_def foreign_keys_def ids_distinct_def)
  next
    case failed
    then show ?thesis
      using assms(1) failed_mutation_keeps_file(2) [OF failed]
        alone_or_write_cache_ok [OF create_alone_or_write [OF failed] c(2)]
      by (simp add: confined_def foreign_keys_def)
  qed (use assms(1) in simp)
qed

lemma revoke_confined:
  assumes "confined validate dump i ks0 ks" and "route_revoke_key validate dump t rd w i kid ks = (r, ks')"
  shows "confined validate dump i ks0 ks'"
proof (cases "kid = ''null''")
  case True
  then show ?thesis using assms by (simp add: route_revoke_key_def)
next
  case False
  obtain may ks1 where m: "caller_may_revoke validate t i kid ks = (may, ks1)" by fastforce
  have c: "codec_ok validate dump" "cache_ok validate ks" using assms(1) by (auto simp: confined_def)
  have k1: "keys_json ks1 = keys_json ks" "cache_ok validate ks1"
    and allowed: "may \<Longrightarrow> id_admin i \<or>
      (\<exists>r \<in> set (current_records validate (keys_json ks)). key_id r = Some kid \<and> can_manage_key i r)"
    using caller_may_revoke_any [OF c(2) m] by blast+
  have conf1: "confined validate dump i ks0 ks1"
    using assms(1) k1 by (simp add: confined_def foreign_keys_def)
  show ?thesis
  proof (cases may)
    case False
    with m \<open>kid \<noteq> ''null''\<close> assms(2) conf1 show ?thesis by (simp add: route_revoke_key_def)
  next
    case True
    obtain rv ks2 where v: "revoke validate dump rd w kid ks1 = (rv, ks2)" by fastforce
    then have ks': "ks' = ks2"
      using True m \<open>kid \<noteq> ''null''\<close> assms(2)
      by (cases rv) (auto simp: route_revoke_key_def split: key_exc.splits)
    show ?thesis
    proof (cases rv)
      case (Inl e)
      have "keys_json ks2 = keys_json ks1" using failed_mutation_keeps_file(1) v [unfolded Inl] by blast
      moreover have "cache_ok validate ks2"
        using alone_or_write_cache_ok [OF revoke_alone_or_write [OF v]] k1(2) by blast
      ultimately show ?thesis using conf1 ks' by (simp add: confined_def foreign_keys_def)
    next
      case (Inr u)
      let ?rs = "current_records validate (keys_json ks)"
      note rc = revoke_current [OF c(1) v [unfolded Inr]]
      have cur: "current_records validate (keys_json ks') = revoked_records kid ?rs" using rc(1) k1 ks' by simp
      have ids: "ids_distinct ?rs" using assms(1) by (simp add: confined_def)
      have "filter (\<lambda>r. \<not> can_manage_key i r) (revoked_records kid ?rs) = filter (\<lambda>r. \<not> can_manage_key i r) ?rs"
        if na: "\<not> id_admin i"
        unfolding revoked_records_def
      proof (rule filter_update_first_set, intro ballI impI)
        fix x assume x: "x \<in> set ?rs" "key_id x = Some kid"
        obtain r0 where "r0 \<in> set ?rs" "key_id r0 = Some kid" "can_manage_key i r0"
          using allowed [OF True] na by blast
        then have "can_manage_key i x" using ids_distinct_unique [OF ids] x by metis
        then show "\<not> \<not> can_manage_key i x \<and> \<not> \<not> can_manage_key i (x\<lparr>key_status := Revoked\<rparr>)"
          by (simp add: can_manage_key_def)
      qed
      then show ?thesis
        using assms(1) cur ids rc(3) [OF k1(2)] ks' c(1)
        by (simp add: confined_def foreign_keys_def ids_distinct_revoked)
    qed
  qed
qed

lemma list_confined:
  assumes "confined validate dump i ks0 ks" and "route_list_keys validate t i st ns ks = (r, ks')"
  shows "confined validate dump i ks0 ks'"
proof -
  have "ks' = ks \<or> (\<exists>rs. load_keys validate t ks = (rs, ks'))"
    using assms(2) by (auto simp: route_list_keys_def list_keys_def Let_def
        split: sum.splits prod.splits list_status.splits)
  then show ?thesis
    using assms(1) load_keys_any [of validate ks t] by (auto simp: confined_def foreign_keys_def)
qed

interpretation confinement: machine_invariant "confined_start validate dump ks0" "caller_step validate dump hash i"
    "confined validate dump i ks0"
  for validate dump hash i ks0
proof unfold_locales
  show "confined_start validate dump ks0 s \<Longrightarrow> confined validate dump i ks0 s" for s
    by (auto simp: confined_start_def confined_def)
  show "confined validate dump i ks0 s \<Longrightarrow> caller_step validate dump hash i s t \<Longrightarrow> confined validate dump i ks0 t" for s t
    by (erule caller_step.cases) (auto intro: create_confined revoke_confined list_confined)
qed

text \<open>
  C4: A non-admin key is confined to the non-admin keys of its own namespace. Whatever sequence of
  create, revoke and list requests such a caller makes, and whatever the file operations do, every admin
  key and every key of another namespace is exactly as it was, and none was added: it can neither mint an
  admin key nor touch another namespace's keys.
\<close>

theorem nonadmin_caller_is_confined:
  assumes "\<not> id_admin i" and "reachable (confined_start validate dump ks0) (caller_step validate dump hash i) ks"
  shows "filter (\<lambda>r. admin r \<or> key_namespace r \<noteq> id_namespace i) (current_records validate (keys_json ks)) =
         filter (\<lambda>r. admin r \<or> key_namespace r \<noteq> id_namespace i) (current_records validate (keys_json ks0))"
proof -
  have "confined validate dump i ks0 ks" using assms(2) by (rule confinement.inv_reachable)
  moreover have "(\<lambda>r. \<not> can_manage_key i r) = (\<lambda>r. admin r \<or> key_namespace r \<noteq> id_namespace i)"
    using assms(1) by (auto simp: can_manage_key_def)
  ultimately show ?thesis using assms(1) by (simp add: confined_def foreign_keys_def)
qed

theorem nonadmin_caller_is_confined_witness:
  "\<exists>ks. route_revoke_key demo_validate demo_dump good_try True (Landed (2, 2, 2))
          \<lparr>id_namespace = ''default'', id_admin = False\<rparr> ''k1'' demo_store = (Inl (Http 404), ks) \<and>
        filter (\<lambda>r. admin r \<or> key_namespace r \<noteq> ''default'') (current_records demo_validate (keys_json ks)) = [demo_record]"
proof -
  let ?i = "\<lparr>id_namespace = ''default'', id_admin = False\<rparr>"
  have r: "\<exists>ks. route_revoke_key demo_validate demo_dump good_try True (Landed (2, 2, 2)) ?i ''k1'' demo_store = (Inl (Http 404), ks)"
    by (simp add: route_revoke_key_def caller_may_revoke_def list_keys_def load_keys_def load_between_def Let_def
        file_signature_of_def demo_file_def good_try_def flip: demo_file_def)
       (simp add: demo_file_def can_manage_key_def demo_record_def created_record_def
         load_for_update_written [OF demo_codec, of "[demo_record]", simplified, unfolded demo_record_def created_record_def])
  then obtain ks where ks: "route_revoke_key demo_validate demo_dump good_try True (Landed (2, 2, 2)) ?i ''k1'' demo_store =
      (Inl (Http 404), ks)" by blast
  have "reachable (confined_start demo_validate demo_dump demo_store) (caller_step demo_validate demo_dump id ?i) ks"
  proof (rule reach_step)
    show "reachable (confined_start demo_validate demo_dump demo_store) (caller_step demo_validate demo_dump id ?i) demo_store"
      by (rule reach_init) (simp add: confined_start_def demo_codec cache_ok_def ids_distinct_def)
    show "caller_step demo_validate demo_dump id ?i demo_store ks" using ks by (rule caller_revokes)
  qed
  from nonadmin_caller_is_confined [OF _ this] ks show ?thesis
    by (auto simp: demo_record_def created_record_def)
qed

section \<open>Graph view tokens\<close>

text \<open>
  What view tokens rely on of base64 and HMAC: decoding the padded text gives the payload back, and
  neither text holds a dot or a non-ASCII character.
\<close>

definition view_codec_ok ::
    "(string \<Rightarrow> string \<Rightarrow> string) \<Rightarrow> (string \<Rightarrow> string) \<Rightarrow> (string \<Rightarrow> string option) \<Rightarrow> bool" where
  "view_codec_ok sign b64encode b64decode \<longleftrightarrow>
     (\<forall>p. (let body = rstrip_padding (b64encode p)
           in b64decode (body @ b64_padding body) = Some p \<and> py_isascii body \<and> CHR ''.'' \<notin> set body)) \<and>
     (\<forall>k p. py_isascii (sign k p) \<and> CHR ''.'' \<notin> set (sign k p))"

lemma split_three: "a \<notin> set x \<Longrightarrow> a \<notin> set y \<Longrightarrow> a \<notin> set z \<Longrightarrow> py_split a (x @ a # y @ a # z) = [x, y, z]"
  using py_split_join [of "[x, y, z]" a] by simp

lemma ord_nul: "ord field_separator = 0"
  by (simp add: ord_def)

lemma nul_not_digit: "field_separator \<notin> set (show_int i)"
proof
  assume "field_separator \<in> set (show_int i)"
  then have "field_separator = CHR ''-'' \<or> is_digit field_separator"
    by (auto simp: show_int_def dest: show_nat_digits split: if_splits)
  moreover have "ord CHR ''-'' = 45" by (simp add: ord_def)
  ultimately show False using ord_nul by (auto simp: is_digit_def)
qed

lemma nul_not_in_namespace: "valid_namespace ns \<Longrightarrow> field_separator \<notin> set ns"
proof
  assume v: "valid_namespace ns" and n: "field_separator \<in> set ns"
  then have "is_alnum field_separator \<or> is_ns_char field_separator"
    by (auto simp: valid_namespace_def list_all_iff split: list.splits)
  moreover have "ord CHR ''_'' = 95" "ord CHR ''-'' = 45" by (simp_all add: ord_def)
  ultimately show False using ord_nul
    by (auto simp: is_ns_char_def is_alnum_def is_alpha_def is_digit_def)
qed

lemma gv1_ascii: "py_isascii (''gv1.'' @ s) = py_isascii s" "py_isascii (''.'' @ s) = py_isascii s"
  by (simp_all add: py_isascii_def ord_def)

text \<open>
  A graph view token opens exactly what it was minted for: the collection it names, for the namespace
  it names, during the sixty seconds after minting. For any other collection and from the expiry on it is
  refused.
\<close>

lemma view_token_scope:
  assumes "view_codec_ok sign b64encode b64decode" and "valid_namespace ns" and "field_separator \<notin> set coll"
  shows "verify_view_token sign b64decode secret (mint_view_token sign b64encode secret ns coll minted) coll' now =
         (if coll' = coll \<and> now < minted + 60 then Some ns else None)"
proof -
  let ?payload = "ns @ field_separator # coll @ field_separator # show_int (minted + 60)"
  let ?body = "rstrip_padding (b64encode ?payload)"
  let ?sig = "sign secret ?payload"
  have b: "b64decode (?body @ b64_padding ?body) = Some ?payload" "py_isascii ?body" "CHR ''.'' \<notin> set ?body"
    and s: "py_isascii ?sig" "CHR ''.'' \<notin> set ?sig"
    using assms(1) by (simp_all add: view_codec_ok_def Let_def)
  have m: "mint_view_token sign b64encode secret ns coll minted = ''gv1'' @ CHR ''.'' # ?body @ CHR ''.'' # ?sig"
    by (simp add: mint_view_token_def Let_def graph_view_token_ttl_seconds_def)
  have asc: "py_isascii (''gv1'' @ CHR ''.'' # ?body @ CHR ''.'' # ?sig)"
    using b(2) s(1) by (simp add: py_isascii_def ord_def)
  have sp: "py_split CHR ''.'' (''gv1'' @ CHR ''.'' # ?body @ CHR ''.'' # ?sig) = [''gv1'', ?body, ?sig]"
    using b(3) s(2) by (intro split_three) auto
  have pp: "py_split field_separator ?payload = [ns, coll, show_int (minted + 60)]"
    using nul_not_in_namespace [OF assms(2)] assms(3) nul_not_digit by (rule split_three)
  show ?thesis
    unfolding m verify_view_token_def sp using asc b(1) pp assms(2) by auto
qed

definition demo_nibble :: "nat \<Rightarrow> char" where
  "demo_nibble n = char_of (97 + n)"

fun demo_b64 :: "string \<Rightarrow> string" where
  "demo_b64 [] = []"
| "demo_b64 (c # cs) = demo_nibble (ord c div 16) # demo_nibble (ord c mod 16) # demo_b64 cs"

fun demo_unb64 :: "string \<Rightarrow> string option" where
  "demo_unb64 [] = Some []"
| "demo_unb64 [c] = None"
| "demo_unb64 (a # b # cs) =
     (if a = CHR ''='' then Some []
      else map_option (Cons (char_of ((ord a - 97) * 16 + (ord b - 97)))) (demo_unb64 cs))"

lemma ord_bound: "ord c < 256"
  by (cases c) (simp add: ord_def of_char_def split: if_splits; fail | simp add: ord_def nat_of_char_less_256)

lemma demo_nibble_facts:
  assumes "n < 16"
  shows "ord (demo_nibble n) = 97 + n" "demo_nibble n \<noteq> CHR ''=''" "demo_nibble n \<noteq> CHR ''.''"
proof -
  show o: "ord (demo_nibble n) = 97 + n" using assms by (simp add: ord_def demo_nibble_def)
  have "ord CHR ''='' = 61" "ord CHR ''.'' = 46" by (simp_all add: ord_def)
  with o show "demo_nibble n \<noteq> CHR ''=''" "demo_nibble n \<noteq> CHR ''.''" by auto
qed

lemma demo_b64_facts:
  "pad = [] \<or> pad = ''=='' \<Longrightarrow> demo_unb64 (demo_b64 p @ pad) = Some p"
  "py_isascii (demo_b64 p)" "CHR ''.'' \<notin> set (demo_b64 p)" "CHR ''='' \<notin> set (demo_b64 p)"
  "even (length (demo_b64 p))"
proof -
  have h: "ord c div 16 < 16" for c using ord_bound [of c] by simp
  have m: "ord c mod 16 < 16" for c by simp
  have lt: "(n :: nat) < 16 \<Longrightarrow> n < 31" for n by simp
  have c: "char_of (ord c) = c" for c by (simp add: ord_def)
  show "pad = [] \<or> pad = ''=='' \<Longrightarrow> demo_unb64 (demo_b64 p @ pad) = Some p"
    by (induction p) (auto simp: demo_nibble_facts h c)
  show "py_isascii (demo_b64 p)" "CHR ''.'' \<notin> set (demo_b64 p)" "CHR ''='' \<notin> set (demo_b64 p)"
    using h m lt by (induction p) (auto simp: py_isascii_def demo_nibble_facts not_sym [OF demo_nibble_facts(2)]
        not_sym [OF demo_nibble_facts(3)] intro: lt)
  show "even (length (demo_b64 p))" by (induction p) auto
qed

theorem view_token_scope_witness:
  "verify_view_token (\<lambda>k p. ''00'') demo_unb64 ''s'' (mint_view_token (\<lambda>k p. ''00'') demo_b64 ''s'' ''default'' ''docs'' 5) ''docs'' 64 =
   Some ''default''"
proof -
  have "view_codec_ok (\<lambda>k p. ''00'') demo_b64 demo_unb64"
  proof -
    have "rstrip_padding (demo_b64 p) = demo_b64 p" for p
      using demo_b64_facts(4) [of p] unfolding rstrip_padding_def
      by (cases "demo_b64 p" rule: rev_cases) auto
    moreover have "b64_padding (demo_b64 p) = [] \<or> b64_padding (demo_b64 p) = ''==''" for p
    proof -
      obtain n where n: "length (demo_b64 p) = 2 * n" using demo_b64_facts(5) [of p] by (elim evenE)
      have "(- int (2 * n)) mod 4 = 0 \<or> (- int (2 * n)) mod 4 = 2" by presburger
      then show ?thesis unfolding b64_padding_def n by (auto simp: numeral_2_eq_2)
    qed
    ultimately show ?thesis
      using demo_b64_facts(1-3) by (auto simp: view_codec_ok_def Let_def py_isascii_def ord_def)
  qed
  moreover have "field_separator \<notin> set ''docs''" by code_simp
  ultimately show ?thesis using view_token_scope [of "\<lambda>k p. ''00''" demo_b64 demo_unb64 "''default''" "''docs''" "''s''" 5 "''docs''" 64]
    by simp
qed

section \<open>The middleware\<close>

lemma view_token_identity_SomeD:
  assumes "view_token_identity sign b64decode secret now req token = Some i"
  shows "\<not> id_admin i \<and> req_method req = ''GET'' \<and>
    (\<exists>coll key. view_path_collection (req_path req) = Some coll \<and> secret = Some key \<and>
       verify_view_token sign b64decode key token coll now = Some (id_namespace i))"
  using assms by (auto simp: view_token_identity_def split: if_splits option.splits)

lemma bearer_header:
  assumes "py_split1 CHR '' '' h = [''Bearer'', token]"
  shows "h = ''Bearer '' @ token"
proof -
  have "CHR '' '' \<in> set h" using assms by (auto simp: py_split1_def split: if_splits)
  from py_split1_parts [OF this] assms show ?thesis by auto
qed

text \<open>
  The middleware forwards a request only for a caller it authenticated: a path that is not exempt is
  forwarded either because the bearer token of its \<open>Authorization\<close> header authenticates as exactly the
  forwarded identity, or because it is a \<open>GET\<close> of a graph viewer path carrying a view token of that very
  collection and namespace, and then never as admin. A session is bound to nothing but the digest of the
  presented token.
\<close>

lemma middleware_forwards_only_authenticated:
  assumes "dispatch validate hash sign b64decode e default_key req kso = (Forward i session_id, kso')"
  shows "req_path req \<notin> set (env_paths e) \<and>
    ((\<exists>token. authorization req = Some (''Bearer '' @ token) \<and>
        fst (authenticate_token validate hash (try1 e) (try2 e) (clock1 e) (clock2 e) token default_key
               (env_namespaces e) kso) = Identity i \<and>
        session_id = (if bind_sessions e then Some (hash token) else None)) \<or>
     (\<not> id_admin i \<and> req_method req = ''GET'' \<and>
      (\<exists>coll key token. view_path_collection (req_path req) = Some coll \<and> env_secret e = Some key \<and>
         (view_token_param req = Some token \<or> authorization req = Some (''Bearer '' @ token)) \<and>
         verify_view_token sign b64decode key token coll (wall_seconds e) = Some (id_namespace i))))"
proof -
  let ?view = "view_token_identity sign b64decode (env_secret e) (wall_seconds e) req"
  have path: "req_path req \<notin> set (env_paths e)" using assms by (auto simp: dispatch_def split: if_splits)
  consider (param) vt where "view_token_param req = Some vt" "?view vt = Some i"
    | (bearer) header token where "authorization req = Some header" "py_split1 CHR '' '' header = [''Bearer'', token]"
        "fst (authenticate_token validate hash (try1 e) (try2 e) (clock1 e) (clock2 e) token default_key
               (env_namespaces e) kso) = Identity i" "session_id = (if bind_sessions e then Some (hash token) else None)"
    | (viewed) header token where "authorization req = Some header" "py_split1 CHR '' '' header = [''Bearer'', token]"
        "?view token = Some i"
    using assms path
    by (auto simp: dispatch_def Let_def py_split1_def
        split: option.splits list.splits if_splits prod.splits auth_result.splits)
  then show ?thesis
  proof cases
    case (param vt)
    then show ?thesis using path view_token_identity_SomeD by blast
  next
    case (bearer header token)
    then show ?thesis using path bearer_header by blast
  next
    case (viewed header token)
    then show ?thesis using path bearer_header view_token_identity_SomeD by blast
  qed
qed

definition demo_env :: auth_env where
  "demo_env = \<lparr>env_paths = exempt_paths, env_namespaces = [], env_secret = None, bind_sessions = False,
     try1 = good_try, try2 = good_try, clock1 = 0, clock2 = 0, wall_seconds = 0\<rparr>"

theorem middleware_forwards_only_authenticated_witness:
  "\<exists>kso' token. dispatch demo_validate id (\<lambda>k p. ''00'') demo_unb64 demo_env ''dk''
      \<lparr>req_path = ''/search'', req_method = ''GET'', authorization = Some ''Bearer dk'', view_token_param = None\<rparr> None =
      (Forward \<lparr>id_namespace = ''default'', id_admin = True\<rparr> None, kso') \<and>
    fst (authenticate_token demo_validate id good_try good_try 0 0 token ''dk'' [] None) =
      Identity \<lparr>id_namespace = ''default'', id_admin = True\<rparr>"
proof -
  have a: "py_isascii ''dk''" "''/search'' \<notin> set exempt_paths" by code_simp+
  have d: "dispatch demo_validate id (\<lambda>k p. ''00'') demo_unb64 demo_env ''dk''
      \<lparr>req_path = ''/search'', req_method = ''GET'', authorization = Some ''Bearer dk'', view_token_param = None\<rparr> None =
      (Forward \<lparr>id_namespace = ''default'', id_admin = True\<rparr> None, None)"
    using a by (simp add: dispatch_def demo_env_def py_split1_def authenticate_token_def toml_namespace_def checked_identity_def)
  from middleware_forwards_only_authenticated [OF d] d show ?thesis by (auto simp: demo_env_def)
qed

section \<open>The key file\<close>

lemma hex_not_space: "is_lower_hex c \<Longrightarrow> \<not> py_isspace c \<and> \<not> is_line_end c"
  by (auto simp: is_lower_hex_def is_digit_def py_isspace_def is_line_end_def)

lemma prefix_no_line_end: "list_all (\<lambda>c. \<not> is_line_end c) key_line_prefix"
  by code_simp

text \<open>
  The key file round trip: a key written to \<open>.search.env\<close> is the key read back from it, and reading
  what was written for any other text without line breaks refuses it with the same problem the key check reports for
  the stripped text.
\<close>

lemma key_file_roundtrip:
  assumes "list_all (\<lambda>c. \<not> is_line_end c) key"
  shows "parse_key_file (Env_text (key_file_payload key)) =
         (case api_key_problem (py_strip key) of None \<Rightarrow> (Some (py_strip key), None) | Some p \<Rightarrow> (None, Some p)) \<and>
         (api_key_problem key = None \<longrightarrow> load_key [] (Env_text (key_file_payload key)) = Some (Some key))"
proof -
  have nl: "is_line_end newline" "ord newline = 10" by code_simp+
  have "py_splitlines (key_file_payload key) = [key_line_prefix @ key]"
    using splitlines_one [of "key_line_prefix @ key" newline "[]"] assms prefix_no_line_end nl
    by (simp add: py_splitlines_def key_file_payload_def)
  then have p: "parse_key_file (Env_text (key_file_payload key)) =
      (case api_key_problem (py_strip key) of None \<Rightarrow> (Some (py_strip key), None) | Some p \<Rightarrow> (None, Some p))"
    by (simp add: parse_key_file_def parse_key_lines_def Let_def split: option.splits)
  moreover have "py_strip key = key" if "api_key_problem key = None"
  proof (rule py_strip_id)
    have "list_all is_lower_hex key" using that by (auto simp: api_key_problem_def split: if_splits)
    then show "list_all (\<lambda>c. \<not> py_isspace c) key" by (auto simp: list_all_iff hex_not_space)
  qed
  ultimately show ?thesis by (auto simp: load_key_def load_from_env_def load_from_file_def)
qed

theorem key_file_roundtrip_witness:
  "parse_key_file (Env_text (key_file_payload (replicate 32 CHR ''a''))) = (Some (replicate 32 CHR ''a''), None)"
proof -
  have "api_key_problem (replicate 32 CHR ''a'') = None" "py_strip (replicate 32 CHR ''a'') = replicate 32 CHR ''a''"
    "list_all (\<lambda>c. \<not> is_line_end c) (replicate 32 CHR ''a'')" by code_simp+
  with key_file_roundtrip [of "replicate 32 CHR ''a''"] show ?thesis by simp
qed

end
