(* ===== verification/Acl.thy ===== *)
theory Acl
  imports Names
begin

text \<open>
  \<open>archon_search/acl.py\<close>: parsing a declared access list, reading the sidecar file, resolving the
  effective list of a document, and the filters search and derived data apply.

  A front-matter value is a \<open>json\<close> value (\<open>JNull\<close> is Python's \<open>None\<close>). Warnings are values of a datatype with
  one constructor per message. The file system is what the sidecar path shows: \<open>sidecar_state\<close>.
\<close>

datatype acl_warning =
    Only_non_string nat
  | Some_non_string nat
  | Invalid_type
  | Invalid_names_dropped nat
  | Deny_all_dropped
  | Deny_all_reserved
  | Deny_all_ambiguous
  | No_valid_name nat
  | Sidecar_symlink
  | Sidecar_unreadable
  | Sidecar_too_large nat
  | Sidecar_not_utf8
  | Sidecar_bad_line string
  | Sidecar_no_valid_name
  | Sidecar_shadowed

definition namespace_re :: "string \<Rightarrow> bool" where
  "namespace_re n =
     (case n of [] \<Rightarrow> False | c # cs \<Rightarrow> is_alnum c \<and> list_all is_ns_char cs \<and> length cs \<le> 63)"

definition is_acl_namespace_valid :: "string \<Rightarrow> bool" where
  "is_acl_namespace_valid n \<longleftrightarrow> namespace_re n \<and> n \<noteq> ''deny-all''"

text \<open>\<open>re.split(r"[,\n]", s)\<close>.\<close>

fun split_tokens :: "string \<Rightarrow> string list" where
  "split_tokens [] = [[]]"
| "split_tokens (c # cs) =
     (if c = CHR '','' \<or> c = newline then [] # split_tokens cs
      else case split_tokens cs of t # ts \<Rightarrow> (c # t) # ts | [] \<Rightarrow> [[c]])"

definition scalar_candidates :: "string \<Rightarrow> string list" where
  "scalar_candidates raw =
     map py_strip (filter (\<lambda>t. py_strip t \<noteq> []) (split_tokens (py_strip raw)))"

definition string_items :: "json list \<Rightarrow> string list" where
  "string_items xs = List.map_filter json_str xs"

text \<open>The tail of \<open>parse_acl_value\<close>, once the candidate names are known; \<open>ws\<close> are the warnings so far.\<close>

definition acl_of_candidates :: "string list \<Rightarrow> acl_warning list \<Rightarrow> string list option \<times> acl_warning list" where
  "acl_of_candidates candidates ws =
     (let deny = filter (\<lambda>c. c = ''deny-all'') candidates;
          others = filter (\<lambda>c. c \<noteq> ''deny-all'') candidates;
          valid = filter is_acl_namespace_valid others;
          invalid_count = length others - length valid
      in if valid \<noteq> [] then
           (Some valid,
            ws @ (if invalid_count \<noteq> 0 then [Invalid_names_dropped invalid_count] else []) @
            (if deny \<noteq> [] then [Deny_all_dropped] else []))
         else if others = [] then (Some [], ws @ [Deny_all_reserved])
         else if deny \<noteq> [] then (Some [], ws @ [Deny_all_ambiguous])
         else (Some [], ws @ [No_valid_name invalid_count]))"

definition parse_acl_value :: "json \<Rightarrow> string list option \<times> acl_warning list" where
  "parse_acl_value raw =
     (case raw of
        JNull \<Rightarrow> (None, [])
      | JStr s \<Rightarrow>
          (let candidates = scalar_candidates s
           in if candidates = [] then (None, []) else acl_of_candidates candidates [])
      | JArr items \<Rightarrow>
          (if items = [] then (Some [], [])
           else
             (let candidates = string_items items; n = length items - length candidates
              in if n \<noteq> 0 \<and> candidates = [] then (Some [], [Only_non_string n])
                 else acl_of_candidates candidates (if n \<noteq> 0 then [Some_non_string n] else [])))
      | _ \<Rightarrow> (Some [], [Invalid_type]))"

section \<open>The sidecar file\<close>

text \<open>
  What \<open><doc>.acl\<close> is: a symbolic link (dangling or not), absent, unreadable, a file that is not UTF-8, or a
  text with its size in bytes, a byte-order mark dropped.
\<close>

datatype sidecar_state =
    Side_symlink bool
  | Side_absent
  | Side_unreadable
  | Side_not_utf8 nat
  | Side_text nat string

definition acl_sidecar_max_bytes :: nat where
  "acl_sidecar_max_bytes = 65536"

definition ascii_upper :: "char \<Rightarrow> char" where
  "ascii_upper c = (if 97 \<le> ord c \<and> ord c \<le> 122 then char_of (ord c - 32) else c)"

definition sidecar_lines :: "string \<Rightarrow> string list" where
  "sidecar_lines t = filter (\<lambda>l. l \<noteq> []) (map py_strip (py_splitlines t))"

definition acl_of_lines :: "string list \<Rightarrow> string list option \<times> acl_warning list" where
  "acl_of_lines ls =
     (case ls of
        [] \<Rightarrow> (None, [])
      | first # _ \<Rightarrow>
          (if map ascii_upper first = ''DENY-ALL'' then (Some [], [])
           else
             (let valid = filter is_acl_namespace_valid ls;
                  ws = map Sidecar_bad_line (filter (\<lambda>l. \<not> is_acl_namespace_valid l) ls)
              in if valid = [] then (Some [], ws @ [Sidecar_no_valid_name]) else (Some valid, ws))))"

text \<open>The result's second part says whether a sidecar exists (\<open>source\<close> is \<open>'sidecar'\<close>).\<close>

definition read_acl_sidecar :: "sidecar_state \<Rightarrow> string list option \<times> bool \<times> acl_warning list" where
  "read_acl_sidecar st =
     (case st of
        Side_symlink _ \<Rightarrow> (Some [], True, [Sidecar_symlink])
      | Side_absent \<Rightarrow> (None, False, [])
      | Side_unreadable \<Rightarrow> (Some [], True, [Sidecar_unreadable])
      | Side_not_utf8 n \<Rightarrow>
          (if n > acl_sidecar_max_bytes then (Some [], True, [Sidecar_too_large n])
           else (Some [], True, [Sidecar_not_utf8]))
      | Side_text n t \<Rightarrow>
          (if n > acl_sidecar_max_bytes then (Some [], True, [Sidecar_too_large n])
           else case acl_of_lines (sidecar_lines t) of (acl, ws) \<Rightarrow> (acl, True, ws)))"

section \<open>Resolution and filtering\<close>

datatype acl_source = Front_matter | Sidecar | No_rule

record acl_resolution =
  acl_entries :: "string list option"
  acl_source :: acl_source
  acl_warnings :: "acl_warning list"

definition sidecar_exists :: "sidecar_state \<Rightarrow> bool" where
  "sidecar_exists st = (case st of Side_symlink target_exists \<Rightarrow> target_exists | Side_absent \<Rightarrow> False | _ \<Rightarrow> True)"

definition resolve_acl :: "json \<Rightarrow> bool \<Rightarrow> sidecar_state \<Rightarrow> acl_resolution" where
  "resolve_acl front_matter allow_sidecar st =
     (if front_matter \<noteq> JNull then
        (case parse_acl_value front_matter of
           (acl, ws) \<Rightarrow>
             \<lparr>acl_entries = acl, acl_source = Front_matter,
              acl_warnings = ws @ (if allow_sidecar \<and> sidecar_exists st then [Sidecar_shadowed] else [])\<rparr>)
      else if \<not> allow_sidecar then \<lparr>acl_entries = None, acl_source = No_rule, acl_warnings = []\<rparr>
      else case read_acl_sidecar st of
             (acl, found, ws) \<Rightarrow>
               \<lparr>acl_entries = acl, acl_source = (if found then Sidecar else No_rule), acl_warnings = ws\<rparr>)"

definition is_acl_allowed :: "string list option \<Rightarrow> string \<Rightarrow> bool" where
  "is_acl_allowed acl ns =
     (case acl of None \<Rightarrow> True | Some names \<Rightarrow> if ns = [] then False else ns \<in> set names)"

fun apply_acl_filter :: "('a \<Rightarrow> string list option) \<Rightarrow> string \<Rightarrow> 'a list \<Rightarrow> 'a list \<times> bool" where
  "apply_acl_filter get_acl ns [] = ([], False)"
| "apply_acl_filter get_acl ns (x # xs) =
     (case apply_acl_filter get_acl ns xs of
        (passing, dropped) \<Rightarrow>
          if is_acl_allowed (get_acl x) ns then (x # passing, dropped) else (passing, True))"

record chunk_visibility =
  hidden_chunk_ids :: "string list"
  hidden_doc_ids :: "string list"

text \<open>One pass over the rows: hidden chunks, documents with a hidden chunk, documents with a visible one.\<close>

fun scan_chunk_acls ::
    "string \<Rightarrow> (string \<times> string \<times> string list option) list \<Rightarrow> string list \<Rightarrow> string list \<Rightarrow> string list \<Rightarrow>
     string list \<times> string list \<times> string list" where
  "scan_chunk_acls ns [] hc hds vd = (hc, hds, vd)"
| "scan_chunk_acls ns ((doc, chunk, acl) # rows) hc hds vd =
     (if is_acl_allowed acl ns then scan_chunk_acls ns rows hc hds (List.insert doc vd)
      else scan_chunk_acls ns rows (List.insert chunk hc) (List.insert doc hds) vd)"

definition from_chunk_acls :: "string \<Rightarrow> (string \<times> string \<times> string list option) list \<Rightarrow> chunk_visibility" where
  "from_chunk_acls ns rows =
     (case scan_chunk_acls ns rows [] [] [] of
        (hc, hds, vd) \<Rightarrow> \<lparr>hidden_chunk_ids = hc, hidden_doc_ids = filter (\<lambda>d. d \<notin> set vd) hds\<rparr>)"

definition chunk_visible :: "chunk_visibility \<Rightarrow> string \<Rightarrow> bool" where
  "chunk_visible v c \<longleftrightarrow> c \<notin> set (hidden_chunk_ids v)"

definition doc_visible :: "chunk_visibility \<Rightarrow> string \<Rightarrow> bool" where
  "doc_visible v d \<longleftrightarrow> d \<notin> set (hidden_doc_ids v)"

end
