(* ===== verification/Acl_Properties.thy ===== *)
theory Acl_Properties
  imports Acl
begin

text \<open>Access lists fail closed, admit only declared valid names, and are enforced the same way everywhere.\<close>

section \<open>Parsing\<close>

lemma valid_not_deny: "filter is_acl_namespace_valid (filter (\<lambda>c. c \<noteq> ''deny-all'') cs) = filter is_acl_namespace_valid cs"
  unfolding filter_filter by (rule filter_cong) (auto simp: is_acl_namespace_valid_def)

lemma acl_of_candidates_fst: "fst (acl_of_candidates cs ws) = Some (filter is_acl_namespace_valid cs)"
  unfolding acl_of_candidates_def Let_def valid_not_deny by auto

definition declared_names :: "json \<Rightarrow> string list" where
  "declared_names raw = (case raw of JStr s \<Rightarrow> scalar_candidates s | JArr items \<Rightarrow> string_items items | _ \<Rightarrow> [])"

definition declares_nothing :: "json \<Rightarrow> bool" where
  "declares_nothing raw \<longleftrightarrow> raw = JNull \<or> (\<exists>s. raw = JStr s \<and> scalar_candidates s = [])"

lemma parse_acl_value_fst:
  "fst (parse_acl_value raw) =
     (if declares_nothing raw then None else Some (filter is_acl_namespace_valid (declared_names raw)))"
  by (cases raw)
     (auto simp: parse_acl_value_def declares_nothing_def declared_names_def Let_def acl_of_candidates_fst
        string_items_def List.map_filter_def)

lemma acl_of_lines_fst:
  "fst (acl_of_lines ls) =
     (if ls = [] then None
      else if map ascii_upper (hd ls) = ''DENY-ALL'' then Some []
      else Some (filter is_acl_namespace_valid ls))"
  by (cases ls) (auto simp: acl_of_lines_def Let_def)

text \<open>A sidecar that declares nothing: none at all, or a readable text of blank lines only.\<close>

definition sidecar_declares_nothing :: "sidecar_state \<Rightarrow> bool" where
  "sidecar_declares_nothing st \<longleftrightarrow>
     st = Side_absent \<or> (\<exists>n t. st = Side_text n t \<and> n \<le> acl_sidecar_max_bytes \<and> sidecar_lines t = [])"

lemma read_acl_sidecar_None: "fst (read_acl_sidecar st) = None \<longleftrightarrow> sidecar_declares_nothing st"
proof (cases st)
  case (Side_text n t)
  then show ?thesis
    using acl_of_lines_fst [of "sidecar_lines t"]
    by (auto simp: read_acl_sidecar_def sidecar_declares_nothing_def split: prod.splits if_splits)
qed (auto simp: read_acl_sidecar_def sidecar_declares_nothing_def)

lemma read_acl_sidecar_names:
  "fst (read_acl_sidecar st) = Some names \<Longrightarrow> n \<in> set names \<Longrightarrow>
   is_acl_namespace_valid n \<and> (\<exists>sz t. st = Side_text sz t \<and> n \<in> set (sidecar_lines t))"
proof (cases st)
  case (Side_text sz t)
  assume "fst (read_acl_sidecar st) = Some names" "n \<in> set names"
  with Side_text show ?thesis
    using acl_of_lines_fst [of "sidecar_lines t"]
    by (auto simp: read_acl_sidecar_def split: prod.splits if_splits)
qed (auto simp: read_acl_sidecar_def split: if_splits)

text \<open>
  C27: A declared access list fails closed. A document is open to every namespace only when nothing was
  declared where the rule is read: no front-matter value (or a blank scalar), or, without a front-matter
  value, no sidecar or a blank one (sidecars of inline documents are never read). Every other declaration,
  a wrong type, only invalid names, a symlinked, oversized, undecodable or unreadable sidecar, restricts.
\<close>

theorem acl_fails_closed:
  "acl_entries (resolve_acl front_matter allow_sidecar st) = None \<longleftrightarrow>
     (if front_matter \<noteq> JNull then declares_nothing front_matter
      else if allow_sidecar then sidecar_declares_nothing st else True)"
  using parse_acl_value_fst [of front_matter] read_acl_sidecar_None [of st]
  by (auto simp: resolve_acl_def split: prod.splits if_splits)

text \<open>
  A namespace gets access to a restricted document only by being named: if the resolved list admits a
  namespace, then the list is open, or the name is a valid namespace other than \<open>deny-all\<close> that literally
  occurs among the declared names of the source the rule was read from.
\<close>

lemma acl_admits_only_declared:
  assumes "is_acl_allowed (acl_entries (resolve_acl front_matter allow_sidecar st)) ns"
    and "acl_entries (resolve_acl front_matter allow_sidecar st) \<noteq> None"
  shows "is_acl_namespace_valid ns \<and> ns \<noteq> ''deny-all'' \<and>
    (if front_matter \<noteq> JNull then ns \<in> set (declared_names front_matter)
     else allow_sidecar \<and> (\<exists>sz t. st = Side_text sz t \<and> ns \<in> set (sidecar_lines t)))"
proof -
  obtain names where n: "acl_entries (resolve_acl front_matter allow_sidecar st) = Some names" "ns \<in> set names"
    using assms by (auto simp: is_acl_allowed_def split: option.splits if_splits)
  show ?thesis
  proof (cases "front_matter = JNull")
    case False
    with n have "fst (parse_acl_value front_matter) = Some names" by (auto simp: resolve_acl_def split: prod.splits)
    with n(2) False show ?thesis
      by (auto simp: parse_acl_value_fst is_acl_namespace_valid_def split: if_splits)
  next
    case True
    with n have "allow_sidecar" "fst (read_acl_sidecar st) = Some names"
      by (auto simp: resolve_acl_def split: if_splits prod.splits)
    with read_acl_sidecar_names [OF this(2) n(2)] True show ?thesis by (simp add: is_acl_namespace_valid_def)
  qed
qed

theorem acl_admits_only_declared_witness:
  "is_acl_allowed (acl_entries (resolve_acl (JArr [JStr ''team'', JInt 3]) True Side_absent)) ''team'' \<and>
   ''team'' \<in> set (declared_names (JArr [JStr ''team'', JInt 3]))"
proof -
  have a: "is_acl_allowed (acl_entries (resolve_acl (JArr [JStr ''team'', JInt 3]) True Side_absent)) ''team''"
    "acl_entries (resolve_acl (JArr [JStr ''team'', JInt 3]) True Side_absent) \<noteq> None" by code_simp+
  from acl_admits_only_declared [OF a] a(1) show ?thesis by simp
qed

section \<open>Filtering\<close>

lemma apply_acl_filter_eq:
  "apply_acl_filter get_acl ns xs =
     (filter (\<lambda>x. is_acl_allowed (get_acl x) ns) xs, \<exists>x \<in> set xs. \<not> is_acl_allowed (get_acl x) ns)"
  by (induction xs) auto

lemma scan_chunk_acls_sets:
  "scan_chunk_acls ns rows hc hds vd = (hc', hds', vd') \<Longrightarrow>
   set hc' = set hc \<union> {c. \<exists>d a. (d, c, a) \<in> set rows \<and> \<not> is_acl_allowed a ns} \<and>
   set hds' = set hds \<union> {d. \<exists>c a. (d, c, a) \<in> set rows \<and> \<not> is_acl_allowed a ns} \<and>
   set vd' = set vd \<union> {d. \<exists>c a. (d, c, a) \<in> set rows \<and> is_acl_allowed a ns}"
  by (induction ns rows hc hds vd rule: scan_chunk_acls.induct) (auto split: if_splits)

text \<open>
  Derived surfaces hide exactly what search hides. A chunk is visible through \<open>ChunkVisibility\<close> if and
  only if no stored row of it is denied to the namespace, a document if and only if it has a visible row or
  no row at all; and the rows the search filter lets through are exactly the allowed ones, in order, with
  the flag telling whether any was dropped.
\<close>

lemma visibility_agrees_with_search:
  "(chunk_visible (from_chunk_acls ns rows) c \<longleftrightarrow> (\<forall>d a. (d, c, a) \<in> set rows \<longrightarrow> is_acl_allowed a ns)) \<and>
   (doc_visible (from_chunk_acls ns rows) d \<longleftrightarrow>
      (\<exists>c a. (d, c, a) \<in> set rows \<and> is_acl_allowed a ns) \<or> (\<forall>c a. (d, c, a) \<notin> set rows)) \<and>
   apply_acl_filter (\<lambda>(d, c, a). a) ns rows =
     (filter (\<lambda>(d, c, a). is_acl_allowed a ns) rows, \<exists>(d, c, a) \<in> set rows. \<not> is_acl_allowed a ns)"
proof -
  obtain hc hds vd where s: "scan_chunk_acls ns rows [] [] [] = (hc, hds, vd)" by (metis prod_cases3)
  note sets = scan_chunk_acls_sets [OF s]
  have v: "from_chunk_acls ns rows = \<lparr>hidden_chunk_ids = hc, hidden_doc_ids = filter (\<lambda>d. d \<notin> set vd) hds\<rparr>"
    by (simp add: from_chunk_acls_def s)
  have "chunk_visible (from_chunk_acls ns rows) c \<longleftrightarrow> (\<forall>d a. (d, c, a) \<in> set rows \<longrightarrow> is_acl_allowed a ns)"
    using sets by (auto simp: v chunk_visible_def)
  moreover have "doc_visible (from_chunk_acls ns rows) d \<longleftrightarrow>
      (\<exists>c a. (d, c, a) \<in> set rows \<and> is_acl_allowed a ns) \<or> (\<forall>c a. (d, c, a) \<notin> set rows)"
    using sets by (auto simp: v doc_visible_def)
  moreover have "apply_acl_filter (\<lambda>(d, c, a). a) ns rows =
     (filter (\<lambda>(d, c, a). is_acl_allowed a ns) rows, \<exists>(d, c, a) \<in> set rows. \<not> is_acl_allowed a ns)"
    by (auto simp: apply_acl_filter_eq case_prod_unfold)
  ultimately show ?thesis by blast
qed

theorem visibility_agrees_with_search_witness:
  "\<not> chunk_visible (from_chunk_acls ''a'' [(''d'', ''c1'', Some [''b'']), (''d'', ''c2'', None)]) ''c1'' \<and>
   doc_visible (from_chunk_acls ''a'' [(''d'', ''c1'', Some [''b'']), (''d'', ''c2'', None)]) ''d''"
proof -
  have "\<not> is_acl_allowed (Some [''b'']) ''a''" "is_acl_allowed None ''a''" by code_simp+
  with visibility_agrees_with_search [of "''a''" "[(''d'', ''c1'', Some [''b'']), (''d'', ''c2'', None)]" "''c1''" "''d''"]
  show ?thesis by auto
qed

end
