(* ===== verification/Store_Filters.thy ===== *)
theory Store_Filters
  imports Py_Strings
begin

text \<open>
  \<open>archon_search/filters.py\<close>, \<open>archon_search/store_filters.py\<close> and \<open>_types.normalize_iso_utc\<close>: the validated
  query filters and the SQL predicate they compile to.

  A \<open>datetime\<close> is its fields in UTC (a naive one counts as UTC); a field validator returns \<open>None\<close> for the
  \<open>ValueError\<close> it raises.
\<close>

section \<open>Time stamps\<close>

record utc_time =
  year :: nat
  month :: nat
  day :: nat
  hour :: nat
  minute :: nat
  second :: nat
  micro :: nat

definition time_key :: "utc_time \<Rightarrow> nat list" where
  "time_key t = [year t, month t, day t, hour t, minute t, second t, micro t]"

text \<open>Zero-padded decimal of width \<open>k\<close>, as \<open>strftime\<close> prints month, day, hour, minute, second and microsecond.\<close>

fun pad_digits :: "nat \<Rightarrow> nat \<Rightarrow> string" where
  "pad_digits 0 n = []"
| "pad_digits (Suc k) n = pad_digits k (n div 10) @ [digit_char (n mod 10)]"

text \<open>\<open>%Y\<close> as the C library prints it, without padding; the same text as the padded one from year 1000 on.\<close>

definition normalize_iso_utc :: "utc_time \<Rightarrow> string" where
  "normalize_iso_utc t =
     show_nat (year t) @ ''-'' @ pad_digits 2 (month t) @ ''-'' @ pad_digits 2 (day t) @ ''T'' @
     pad_digits 2 (hour t) @ '':'' @ pad_digits 2 (minute t) @ '':'' @ pad_digits 2 (second t) @ ''.'' @
     pad_digits 6 (micro t) @ ''Z''"

section \<open>Validated filters\<close>

datatype date_value = Date_only nat nat nat | Date_time utc_time

record search_filters =
  file_type :: "string option"
  source_path_prefix :: "string option"
  source_path_glob :: "string option"
  indexed_after :: "utc_time option"
  indexed_before :: "utc_time option"
  language :: "string option"
  include_metadata :: bool

definition coerce_date :: "bool \<Rightarrow> date_value option \<Rightarrow> utc_time option" where
  "coerce_date end_of_day v =
     (case v of
        None \<Rightarrow> None
      | Some (Date_only y m d) \<Rightarrow>
          Some (if end_of_day
                then \<lparr>year = y, month = m, day = d, hour = 23, minute = 59, second = 59, micro = 999999\<rparr>
                else \<lparr>year = y, month = m, day = d, hour = 0, minute = 0, second = 0, micro = 0\<rparr>)
      | Some (Date_time t) \<Rightarrow> Some t)"

text \<open>\<open>str.lower\<close> on Latin-1 text.\<close>

definition py_lower_char :: "char \<Rightarrow> char" where
  "py_lower_char c =
     (if 65 \<le> ord c \<and> ord c \<le> 90 \<or> 192 \<le> ord c \<and> ord c \<le> 222 \<and> ord c \<noteq> 215
      then char_of (ord c + 32) else c)"

definition py_lower :: "string \<Rightarrow> string" where
  "py_lower s = map py_lower_char s"

definition validate_file_type :: "string option \<Rightarrow> string option option" where
  "validate_file_type v =
     (case v of
        None \<Rightarrow> Some None
      | Some s \<Rightarrow>
          (if s = [] then None
           else
             (let t = py_lower (dropWhile (\<lambda>c. c = CHR ''.'') s)
              in if t = [] then None else Some (Some t))))"

definition validate_source_path_prefix :: "string option \<Rightarrow> string option option" where
  "validate_source_path_prefix v = (if v = Some [] then None else Some v)"

text \<open>\<open>fnmatch.translate\<close> always gives a compilable pattern, so only the empty glob is refused.\<close>

definition validate_source_path_glob :: "string option \<Rightarrow> string option option" where
  "validate_source_path_glob v = (if v = Some [] then None else Some v)"

definition is_lower_letter :: "char \<Rightarrow> bool" where
  "is_lower_letter c \<longleftrightarrow> 97 \<le> ord c \<and> ord c \<le> 122"

text \<open>\<open>re.match(r"^[a-z]{2,3}$", v)\<close>: \<open>$\<close> also matches before a final line feed.\<close>

definition iso_code_re :: "string \<Rightarrow> bool" where
  "iso_code_re v \<longleftrightarrow>
     (\<exists>b \<in> {v, butlast v}. (b = v \<or> v \<noteq> [] \<and> ord (last v) = 10) \<and>
        list_all is_lower_letter b \<and> 2 \<le> length b \<and> length b \<le> 3)"

definition validate_language :: "string option \<Rightarrow> string option option" where
  "validate_language v =
     (case v of
        None \<Rightarrow> Some None
      | Some s \<Rightarrow>
          (if s = [] then Some None
           else
             (let l = py_lower s
              in if l = ''unknown'' \<or> iso_code_re l then Some (Some l) else None)))"

definition search_filters_of ::
    "string option \<Rightarrow> string option \<Rightarrow> string option \<Rightarrow> date_value option \<Rightarrow> date_value option \<Rightarrow> string option \<Rightarrow>
     bool \<Rightarrow> search_filters option" where
  "search_filters_of ft prefx glob after before lang meta =
     (case (validate_file_type ft, validate_source_path_prefix prefx, validate_source_path_glob glob,
            validate_language lang) of
        (Some ft', Some p', Some g', Some l') \<Rightarrow>
          (let a = coerce_date False after; b = coerce_date True before
           in if a \<noteq> None \<and> b \<noteq> None \<and> time_key (the b) < time_key (the a) then None
              else Some \<lparr>file_type = ft', source_path_prefix = p', source_path_glob = g', indexed_after = a,
                         indexed_before = b, language = l', include_metadata = meta\<rparr>)
      | _ \<Rightarrow> None)"

section \<open>The SQL predicate\<close>

definition replace_char :: "char \<Rightarrow> string \<Rightarrow> string \<Rightarrow> string" where
  "replace_char c r s = concat (map (\<lambda>x. if x = c then r else [x]) s)"

abbreviation quote_char :: char where
  "quote_char \<equiv> char_of (39 :: nat)"

abbreviation backslash :: char where
  "backslash \<equiv> char_of (92 :: nat)"

definition sql_quote_str :: "string \<Rightarrow> string" where
  "sql_quote_str s = [quote_char] @ replace_char quote_char [quote_char, quote_char] s @ [quote_char]"

definition escape_like :: "string \<Rightarrow> string" where
  "escape_like s =
     replace_char CHR ''_'' [backslash, CHR ''_'']
       (replace_char CHR ''%'' [backslash, CHR ''%'']
          (replace_char backslash [backslash, backslash] s))"

definition where_list_has_or_null :: "string \<Rightarrow> string \<Rightarrow> string" where
  "where_list_has_or_null col v =
     ''('' @ col @ '' IS NULL OR list_has('' @ col @ '', '' @ sql_quote_str v @ ''))''"

definition opt_clause :: "('a \<Rightarrow> string) \<Rightarrow> 'a option \<Rightarrow> string list" where
  "opt_clause f v = (case v of None \<Rightarrow> [] | Some x \<Rightarrow> [f x])"

definition filter_clauses :: "search_filters \<Rightarrow> string list" where
  "filter_clauses f =
     opt_clause (\<lambda>v. ''file_type = '' @ sql_quote_str v) (file_type f) @
     opt_clause (\<lambda>v. ''source_path LIKE '' @ sql_quote_str (escape_like v @ ''%'') @
                     '' ESCAPE '' @ [quote_char, backslash, quote_char]) (source_path_prefix f) @
     opt_clause (\<lambda>t. ''indexed_at >= '' @ sql_quote_str (normalize_iso_utc t)) (indexed_after f) @
     opt_clause (\<lambda>t. ''indexed_at <= '' @ sql_quote_str (normalize_iso_utc t)) (indexed_before f) @
     opt_clause (\<lambda>v. ''language = '' @ sql_quote_str v) (language f)"

definition scope_clauses :: "string option \<Rightarrow> string list" where
  "scope_clauses sf =
     (case sf of
        None \<Rightarrow> []
      | Some v \<Rightarrow> if v \<noteq> [] \<and> \<not> py_endswith v ''*'' then [where_list_has_or_null ''scopes'' v] else [])"

definition build_where :: "search_filters option \<Rightarrow> string option \<Rightarrow> string" where
  "build_where f sf =
     py_join '' AND '' ((case f of None \<Rightarrow> [] | Some x \<Rightarrow> filter_clauses x) @ scope_clauses sf)"

end
