(* ===== verification/Filter_Properties.thy ===== *)
theory Filter_Properties
  imports Store_Filters
begin

text \<open>
  The predicate cannot be broken out of, the prefix filter means prefix, and stored time stamps compare as
  text in time order.
\<close>

section \<open>SQL text\<close>

text \<open>
  The lexical rule of SQL string literals: a quote opens a literal, a doubled quote inside stands for one
  quote, a single one closes it; a backslash is an ordinary character. \<open>None\<close> is an unterminated literal.
\<close>

datatype sql_token = Lit string | Sym char

fun sql_lex :: "string option \<Rightarrow> string \<Rightarrow> sql_token list option" where
  "sql_lex None [] = Some []"
| "sql_lex None (c # cs) =
     (if c = quote_char then sql_lex (Some []) cs else map_option (Cons (Sym c)) (sql_lex None cs))"
| "sql_lex (Some acc) [] = None"
| "sql_lex (Some acc) [c] = (if c = quote_char then Some [Lit (rev acc)] else None)"
| "sql_lex (Some acc) (c # d # cs) =
     (if c \<noteq> quote_char then sql_lex (Some (c # acc)) (d # cs)
      else if d = quote_char then sql_lex (Some (d # acc)) cs
      else map_option (Cons (Lit (rev acc))) (sql_lex None (d # cs)))"

lemma replace_char_Nil [simp]: "replace_char c r [] = []"
  by (simp add: replace_char_def)

lemma replace_char_Cons [simp]:
  "replace_char c r (x # xs) = (if x = c then r else [x]) @ replace_char c r xs"
  by (simp add: replace_char_def)

definition no_quote_next :: "string \<Rightarrow> bool" where
  "no_quote_next s \<longleftrightarrow> (case s of [] \<Rightarrow> True | c # _ \<Rightarrow> c \<noteq> quote_char)"

lemma sql_lex_body:
  assumes "no_quote_next rest"
  shows "sql_lex (Some acc) (replace_char quote_char [quote_char, quote_char] s @ quote_char # rest) =
         map_option (Cons (Lit (rev acc @ s))) (sql_lex None rest)"
  using assms
proof (induction s arbitrary: acc)
  case Nil
  then show ?case by (cases rest) (auto simp: no_quote_next_def)
next
  case (Cons x xs)
  let ?r = "replace_char quote_char [quote_char, quote_char] xs @ quote_char # rest"
  obtain y ys where r: "?r = y # ys" by (cases ?r) auto
  have "sql_lex (Some (x # acc)) ?r = map_option (Cons (Lit (rev acc @ x # xs))) (sql_lex None rest)"
    using Cons.IH [OF Cons.prems, of "x # acc"] by simp
  then show ?case by (cases "x = quote_char") (simp_all add: r)
qed

lemma sql_lex_quote:
  "no_quote_next rest \<Longrightarrow>
   sql_lex None (sql_quote_str s @ rest) = map_option (Cons (Lit s)) (sql_lex None rest)"
  using sql_lex_body [of rest "[]" s] by (simp add: sql_quote_str_def)

lemma sql_lex_plain:
  "quote_char \<notin> set a \<Longrightarrow> sql_lex None (a @ rest) = map_option (append (map Sym a)) (sql_lex None rest)"
  by (induction a) (cases "sql_lex None rest"; auto)+

text \<open>The tokens of a clause, whatever follows it.\<close>

definition lexes_to :: "string \<Rightarrow> sql_token list \<Rightarrow> bool" where
  "lexes_to s toks \<longleftrightarrow>
     (\<forall>rest. no_quote_next rest \<longrightarrow> sql_lex None (s @ rest) = map_option (append toks) (sql_lex None rest))"

lemma lexes_to_plain: "quote_char \<notin> set a \<Longrightarrow> lexes_to a (map Sym a)"
  by (simp add: lexes_to_def sql_lex_plain)

lemma lexes_to_lit: "lexes_to (sql_quote_str v) [Lit v]"
  unfolding lexes_to_def
proof (intro allI impI)
  fix rest assume "no_quote_next rest"
  then show "sql_lex None (sql_quote_str v @ rest) = map_option (append [Lit v]) (sql_lex None rest)"
    by (cases "sql_lex None rest") (simp_all add: sql_lex_quote)
qed

lemma lexes_to_append:
  assumes "lexes_to a ts" and "lexes_to b us" and "b \<noteq> []" "no_quote_next b"
  shows "lexes_to (a @ b) (ts @ us)"
  unfolding lexes_to_def
proof (intro allI impI)
  fix rest assume r: "no_quote_next rest"
  have "no_quote_next (b @ rest)" using assms(3,4) by (cases b) (auto simp: no_quote_next_def)
  then show "sql_lex None ((a @ b) @ rest) = map_option (append (ts @ us)) (sql_lex None rest)"
    using assms(1,2) r unfolding lexes_to_def by (cases "sql_lex None rest") auto
qed

lemma lexes_to_plain_lit:
  assumes "quote_char \<notin> set a"
  shows "lexes_to (a @ sql_quote_str v) (map Sym a @ [Lit v])"
  unfolding lexes_to_def
proof (intro allI impI)
  fix rest assume "no_quote_next rest"
  then show "sql_lex None ((a @ sql_quote_str v) @ rest) = map_option (append (map Sym a @ [Lit v])) (sql_lex None rest)"
    by (cases "sql_lex None rest") (simp_all add: sql_lex_plain [OF assms] sql_lex_quote)
qed

lemma quote_code: "quote_char = CHR 0x27"
  by code_simp

definition opt_tokens :: "('a \<Rightarrow> sql_token list) \<Rightarrow> 'a option \<Rightarrow> sql_token list list" where
  "opt_tokens g v = (case v of None \<Rightarrow> [] | Some x \<Rightarrow> [g x])"

definition filter_tokens :: "search_filters \<Rightarrow> sql_token list list" where
  "filter_tokens f =
     opt_tokens (\<lambda>v. map Sym ''file_type = '' @ [Lit v]) (file_type f) @
     opt_tokens (\<lambda>v. map Sym ''source_path LIKE '' @ [Lit (escape_like v @ ''%'')] @
                      map Sym '' ESCAPE '' @ [Lit [backslash]]) (source_path_prefix f) @
     opt_tokens (\<lambda>t. map Sym ''indexed_at >= '' @ [Lit (normalize_iso_utc t)]) (indexed_after f) @
     opt_tokens (\<lambda>t. map Sym ''indexed_at <= '' @ [Lit (normalize_iso_utc t)]) (indexed_before f) @
     opt_tokens (\<lambda>v. map Sym ''language = '' @ [Lit v]) (language f)"

definition scope_tokens :: "string option \<Rightarrow> sql_token list list" where
  "scope_tokens sf =
     (case sf of
        None \<Rightarrow> []
      | Some v \<Rightarrow>
          if v \<noteq> [] \<and> \<not> suffix ''*'' v
          then [map Sym ''(scopes IS NULL OR list_has(scopes, '' @ [Lit v] @ map Sym ''))''] else [])"

definition clause_tokens :: "search_filters option \<Rightarrow> string option \<Rightarrow> sql_token list list" where
  "clause_tokens f sf = (case f of None \<Rightarrow> [] | Some x \<Rightarrow> filter_tokens x) @ scope_tokens sf"

lemma opt_lexes: "(\<And>v. lexes_to (f v) (g v)) \<Longrightarrow> list_all2 lexes_to (opt_clause f x) (opt_tokens g x)"
  by (cases x) (simp_all add: opt_clause_def opt_tokens_def)

fun join_tokens :: "sql_token list list \<Rightarrow> sql_token list" where
  "join_tokens [] = []"
| "join_tokens [x] = x"
| "join_tokens (x # y # xs) = x @ map Sym '' AND '' @ join_tokens (y # xs)"

definition starts_plain :: "string \<Rightarrow> bool" where
  "starts_plain s \<longleftrightarrow> s \<noteq> [] \<and> hd s \<noteq> quote_char"

lemma starts_plain_append [simp]: "starts_plain a \<Longrightarrow> starts_plain (a @ b)"
  by (simp add: starts_plain_def)

lemma starts_plainD: "starts_plain s \<Longrightarrow> s \<noteq> [] \<and> no_quote_next s"
  by (cases s) (auto simp: starts_plain_def no_quote_next_def)

lemma join_lexes:
  assumes "list_all2 lexes_to cs ts" and "\<forall>c \<in> set cs. starts_plain c"
  shows "lexes_to (py_join '' AND '' cs) (join_tokens ts)"
  using assms
proof (induction cs arbitrary: ts rule: induct_list012)
  case 1
  have "x = map_option (append []) x" for x :: "sql_token list option" by (cases x) simp_all
  with 1 show ?case by (simp add: lexes_to_def)
next
  case (2 c)
  then show ?case by (auto simp: list_all2_Cons1)
next
  case (3 c d cs)
  then obtain t u us where ts: "ts = t # u # us" "lexes_to c t" "list_all2 lexes_to (d # cs) (u # us)"
    by (auto simp: list_all2_Cons1)
  have ih: "lexes_to (py_join '' AND '' (d # cs)) (join_tokens (u # us))"
    using 3 ts(3) by simp
  have sp: "starts_plain (py_join '' AND '' (d # cs))"
    using 3(4) by (cases cs) (auto simp: starts_plain_def)
  have "quote_char \<notin> set '' AND ''" by code_simp
  from lexes_to_append [OF lexes_to_plain [OF this] ih] starts_plainD [OF sp]
  have b: "lexes_to ('' AND '' @ py_join '' AND '' (d # cs)) (map Sym '' AND '' @ join_tokens (u # us))" by simp
  have "starts_plain ('' AND '' @ py_join '' AND '' (d # cs))"
  proof -
    have "CHR '' '' \<noteq> quote_char" by code_simp
    then show ?thesis by (simp add: starts_plain_def)
  qed
  from lexes_to_append [OF ts(2) b] starts_plainD [OF this] show ?case by (simp add: ts(1))
qed

lemma prefix_lexes:
  "lexes_to (''source_path LIKE '' @ sql_quote_str v @ '' ESCAPE '' @ [quote_char, backslash, quote_char])
     (map Sym ''source_path LIKE '' @ [Lit v] @ map Sym '' ESCAPE '' @ [Lit [backslash]])"
proof -
  have q: "[quote_char, backslash, quote_char] = sql_quote_str [backslash]"
    by code_simp
  have a: "quote_char \<notin> set ''source_path LIKE ''" "quote_char \<notin> set '' ESCAPE ''" by code_simp+
  have s: "starts_plain ('' ESCAPE '' @ sql_quote_str [backslash])"
  proof -
    have "CHR '' '' \<noteq> quote_char" by code_simp
    then show ?thesis by (simp add: starts_plain_def)
  qed
  from lexes_to_append [OF lexes_to_plain_lit [OF a(1)] lexes_to_plain_lit [OF a(2)]] starts_plainD [OF s]
  show ?thesis unfolding q by simp
qed

lemma scope_lexes:
  "lexes_to (where_list_has_or_null ''scopes'' v)
     (map Sym ''(scopes IS NULL OR list_has(scopes, '' @ [Lit v] @ map Sym ''))'')"
proof -
  have a: "quote_char \<notin> set ''(scopes IS NULL OR list_has(scopes, ''" "quote_char \<notin> set ''))''" by code_simp+
  have "no_quote_next ''))''" by code_simp
  from lexes_to_append [OF lexes_to_plain_lit [OF a(1)] lexes_to_plain [OF a(2)] _ this]
  show ?thesis by (simp add: where_list_has_or_null_def)
qed

text \<open>
  C24: The \<open>WHERE\<close> predicate cannot be broken out of. Whatever text the filters and the scope contain,
  quotes, backslashes, comment marks or whole statements, what \<open>build_where\<close> produces reads back as
  exactly the fixed clauses in order, joined by \<open>AND\<close>, with each user value as the content of one string
  literal and nowhere else.
\<close>

theorem build_where_injection_safe:
  "sql_lex None (build_where f sf) = Some (join_tokens (clause_tokens f sf))"
proof -
  let ?cs = "(case f of None \<Rightarrow> [] | Some x \<Rightarrow> filter_clauses x) @ scope_clauses sf"
  have q: "quote_char \<notin> set ''file_type = ''" "quote_char \<notin> set ''indexed_at >= ''"
    "quote_char \<notin> set ''indexed_at <= ''" "quote_char \<notin> set ''language = ''" by code_simp+
  have "list_all2 lexes_to (scope_clauses sf) (scope_tokens sf)"
    using scope_lexes by (auto simp: scope_clauses_def scope_tokens_def py_endswith_iff split: option.split)
  moreover have "list_all2 lexes_to (filter_clauses x) (filter_tokens x)" for x
    unfolding filter_clauses_def filter_tokens_def
    by (intro list_all2_appendI opt_lexes lexes_to_plain_lit q prefix_lexes)
  ultimately have l: "list_all2 lexes_to ?cs (clause_tokens f sf)"
    unfolding clause_tokens_def by (cases f) (auto intro: list_all2_appendI)
  have "\<forall>c \<in> set ?cs. starts_plain c"
  proof -
    have "CHR ''f'' \<noteq> quote_char" "CHR ''s'' \<noteq> quote_char" "CHR ''i'' \<noteq> quote_char" "CHR ''l'' \<noteq> quote_char"
      "CHR ''('' \<noteq> quote_char" by code_simp+
    then show ?thesis
      by (auto simp: filter_clauses_def scope_clauses_def opt_clause_def where_list_has_or_null_def starts_plain_def
          split: option.splits if_splits)
  qed
  from join_lexes [OF l this] have "lexes_to (build_where f sf) (join_tokens (clause_tokens f sf))"
    by (simp add: build_where_def)
  moreover have "no_quote_next []" by (simp add: no_quote_next_def)
  ultimately show ?thesis unfolding lexes_to_def by fastforce
qed

section \<open>The prefix filter\<close>

text \<open>The meaning of \<open>LIKE ... ESCAPE '\'\<close>.\<close>

fun like :: "string \<Rightarrow> string \<Rightarrow> bool" where
  "like [] s = (s = [])"
| "like (p # ps) [] = (p = CHR ''%'' \<and> like ps [])"
| "like (p # ps) (c # cs) =
     (if p = CHR ''%'' then like ps (c # cs) \<or> like (p # ps) cs
      else if p = CHR ''_'' then like ps cs
      else if p = backslash then (case ps of q # qs \<Rightarrow> q = c \<and> like qs cs | [] \<Rightarrow> False)
      else p = c \<and> like ps cs)"

definition escape_char :: "char \<Rightarrow> string" where
  "escape_char c = (if c \<in> {backslash, CHR ''%'', CHR ''_''} then [backslash, c] else [c])"

lemma special_distinct: "backslash \<noteq> CHR ''%''" "backslash \<noteq> CHR ''_''" "CHR ''%'' \<noteq> CHR ''_''"
  by code_simp+

lemma replace_char_append: "replace_char c r (xs @ ys) = replace_char c r xs @ replace_char c r ys"
  by (simp add: replace_char_def)

lemma escape_like_Cons: "escape_like (c # s) = escape_char c @ escape_like s"
proof -
  note d = special_distinct special_distinct [symmetric]
  show ?thesis
    unfolding escape_like_def escape_char_def using d by (auto simp: replace_char_append)
qed

lemma escape_like_Nil [simp]: "escape_like [] = []"
  by (simp add: escape_like_def)

lemma like_percent: "like ''%'' s"
  by (induction s) auto

lemma like_escape: "like (escape_like p @ ''%'') s \<longleftrightarrow> prefix p s"
proof (induction p arbitrary: s)
  case Nil
  show ?case using like_percent by simp
next
  case (Cons c p)
  note d = special_distinct special_distinct [symmetric]
  show ?case
  proof (cases s)
    case Nil
    then show ?thesis using d by (auto simp: escape_like_Cons escape_char_def)
  next
    case (Cons x xs)
    then show ?thesis using d Cons.IH [of xs] by (auto simp: escape_like_Cons escape_char_def)
  qed
qed

text \<open>
  The source path filter means prefix: the pattern sent for a prefix matches a stored path exactly when
  the path starts with that very text, per cent signs, underscores and backslashes included.
\<close>

lemma source_prefix_means_prefix:
  "like (escape_like p @ ''%'') path \<longleftrightarrow> py_startswith path p"
  by (simp add: like_escape py_startswith_iff)

section \<open>Stamps compare as text\<close>

lemma list_less_append:
  fixes a b x y :: "'a :: linorder list"
  shows "length a = length b \<Longrightarrow> a @ x < b @ y \<longleftrightarrow> a < b \<or> a = b \<and> x < y"
  by (induction a b rule: list_induct2) auto

lemma digit_char_less: "m < 10 \<Longrightarrow> n < 10 \<Longrightarrow> digit_char m < digit_char n \<longleftrightarrow> m < n"
  using ord_digit_char [of m] ord_digit_char [of n] by (simp add: less_char_def ord_def)

lemma digit_char_inject: "m < 10 \<Longrightarrow> n < 10 \<Longrightarrow> digit_char m = digit_char n \<longleftrightarrow> m = n"
  by (metis ord_digit_char add_left_cancel)

lemma pad_digits_length [simp]: "length (pad_digits k n) = k"
  by (induction k arbitrary: n) auto

lemma pad_digits_inject: "m < 10 ^ k \<Longrightarrow> n < 10 ^ k \<Longrightarrow> pad_digits k m = pad_digits k n \<longleftrightarrow> m = n"
proof (induction k arbitrary: m n)
  case (Suc k)
  have "m div 10 < 10 ^ k" "n div 10 < 10 ^ k" using Suc.prems by auto
  then show ?case using Suc.IH [of "m div 10" "n div 10"]
    by (simp add: digit_char_inject) (metis div_mod_decomp)
qed simp

lemma div_mod_less:
  fixes m n :: nat
  shows "m div 10 < n div 10 \<or> m div 10 = n div 10 \<and> m mod 10 < n mod 10 \<longleftrightarrow> m < n"
proof -
  have "m = 10 * (m div 10) + m mod 10" "n = 10 * (n div 10) + n mod 10" "m mod 10 < 10" "n mod 10 < 10" by simp_all
  moreover obtain a b c d where "m div 10 = a" "m mod 10 = b" "n div 10 = c" "n mod 10 = d" by blast
  ultimately show ?thesis by auto
qed

lemma pad_digits_less: "m < 10 ^ k \<Longrightarrow> n < 10 ^ k \<Longrightarrow> pad_digits k m < pad_digits k n \<longleftrightarrow> m < n"
proof (induction k arbitrary: m n)
  case (Suc k)
  have b: "m div 10 < 10 ^ k" "n div 10 < 10 ^ k" using Suc.prems by auto
  have "pad_digits (Suc k) m < pad_digits (Suc k) n \<longleftrightarrow>
      m div 10 < n div 10 \<or> m div 10 = n div 10 \<and> m mod 10 < n mod 10"
    using Suc.IH [OF b] pad_digits_inject [OF b] by (simp add: list_less_append digit_char_less)
  also have "\<dots> \<longleftrightarrow> m < n" by (rule div_mod_less)
  finally show ?case .
qed simp

lemma show_nat_four: "1000 \<le> y \<Longrightarrow> y \<le> 9999 \<Longrightarrow> show_nat y = pad_digits 4 y"
proof -
  assume y: "1000 \<le> y" "y \<le> 9999"
  then have "\<not> y < 10" "\<not> y div 10 < 10" "\<not> y div 10 div 10 < 10" "y div 10 div 10 div 10 < 10" by auto
  then have s: "show_nat y = [digit_char (y div 10 div 10 div 10), digit_char (y div 10 div 10 mod 10),
      digit_char (y div 10 mod 10), digit_char (y mod 10)]"
    by (simp only: show_nat.simps [of y] show_nat.simps [of "y div 10"] show_nat.simps [of "y div 10 div 10"]
        show_nat.simps [of "y div 10 div 10 div 10"] if_True if_False append.simps)
  have m: "y div 10 div 10 div 10 mod 10 = y div 10 div 10 div 10"
    using y by (intro mod_less) auto
  have four: "(4 :: nat) = Suc (Suc (Suc (Suc 0)))" by simp
  show ?thesis unfolding s four pad_digits.simps m by simp
qed

definition civil :: "utc_time \<Rightarrow> bool" where
  "civil t \<longleftrightarrow> 1000 \<le> year t \<and> year t \<le> 9999 \<and> month t < 100 \<and> day t < 100 \<and> hour t < 100 \<and>
     minute t < 100 \<and> second t < 100 \<and> micro t < 1000000"

lemma list_less_sep:
  fixes a b x y :: "'a :: linorder list"
  shows "length a = length b \<Longrightarrow> a @ c # x < b @ c # y \<longleftrightarrow> a < b \<or> a = b \<and> x < y"
  by (simp add: list_less_append)

text \<open>
  Stored time stamps compare as text in time order: for years 1000 to 9999 the normalized text of one
  time is less than that of another exactly when the time is earlier, which is what the \<open>indexed_at\<close>
  comparisons of the predicate rely on.
\<close>

lemma normalized_stamps_keep_order:
  assumes "civil t" and "civil u"
  shows "normalize_iso_utc t < normalize_iso_utc u \<longleftrightarrow> time_key t < time_key u"
proof -
  have y: "show_nat (year t) = pad_digits 4 (year t)" "show_nat (year u) = pad_digits 4 (year u)"
    using assms by (simp_all add: civil_def show_nat_four)
  have two: "m < 100 \<Longrightarrow> n < 100 \<Longrightarrow> (pad_digits 2 m < pad_digits 2 n \<longleftrightarrow> m < n) \<and> (pad_digits 2 m = pad_digits 2 n \<longleftrightarrow> m = n)"
    for m n using pad_digits_less [of m 2 n] pad_digits_inject [of m 2 n] by simp
  have four: "(pad_digits 4 (year t) < pad_digits 4 (year u) \<longleftrightarrow> year t < year u) \<and>
      (pad_digits 4 (year t) = pad_digits 4 (year u) \<longleftrightarrow> year t = year u)"
    using pad_digits_less [of "year t" 4 "year u"] pad_digits_inject [of "year t" 4 "year u"] assms by (simp add: civil_def)
  have six: "pad_digits 6 (micro t) @ ''Z'' < pad_digits 6 (micro u) @ ''Z'' \<longleftrightarrow> micro t < micro u"
    using pad_digits_less [of "micro t" 6 "micro u"] assms by (simp add: list_less_append civil_def)
  show ?thesis
    using assms two four six unfolding civil_def normalize_iso_utc_def time_key_def y
    by (simp add: list_less_sep)
qed

definition demo_t :: utc_time where
  "demo_t = \<lparr>year = 2026, month = 9, day = 30, hour = 23, minute = 59, second = 59, micro = 999999\<rparr>"

definition demo_u :: utc_time where
  "demo_u = \<lparr>year = 2026, month = 10, day = 1, hour = 0, minute = 0, second = 0, micro = 0\<rparr>"

theorem normalized_stamps_keep_order_witness: "normalize_iso_utc demo_t < normalize_iso_utc demo_u"
  using normalized_stamps_keep_order [of demo_t demo_u]
  by (simp add: civil_def demo_t_def demo_u_def time_key_def)

section \<open>Validated fields\<close>

text \<open>
  What the language filter accepts. Absent and empty mean no filter; otherwise the lower-cased value is
  accepted exactly when it is \<open>unknown\<close>, two or three letters, or two or three letters followed by one line
  feed, which the pattern's \<open>$\<close> lets through and which is then compared with stored codes as it stands.
\<close>

lemma validate_language_accepts:
  "validate_language (Some s) =
     (if s = [] then Some None
      else if py_lower s = ''unknown'' \<or>
              (\<exists>letters. list_all is_lower_letter letters \<and> length letters \<in> {2, 3} \<and>
                 (py_lower s = letters \<or> (\<exists>nl. ord nl = 10 \<and> py_lower s = letters @ [nl])))
      then Some (Some (py_lower s)) else None)"
proof -
  have "iso_code_re v \<longleftrightarrow> (\<exists>letters. list_all is_lower_letter letters \<and> length letters \<in> {2, 3} \<and>
                 (v = letters \<or> (\<exists>nl. ord nl = 10 \<and> v = letters @ [nl])))" for v
  proof -
    have len: "2 \<le> n \<and> n \<le> 3 \<longleftrightarrow> n \<in> {2, 3}" for n :: nat by auto
    have "iso_code_re v \<longleftrightarrow> list_all is_lower_letter v \<and> length v \<in> {2, 3} \<or>
        v \<noteq> [] \<and> ord (last v) = 10 \<and> list_all is_lower_letter (butlast v) \<and> length (butlast v) \<in> {2, 3}"
      unfolding iso_code_re_def len by (cases v rule: rev_cases) auto
    also have "\<dots> \<longleftrightarrow> (\<exists>letters. list_all is_lower_letter letters \<and> length letters \<in> {2, 3} \<and>
                 (v = letters \<or> (\<exists>nl. ord nl = 10 \<and> v = letters @ [nl])))"
      by (metis append_butlast_last_id butlast_snoc last_snoc snoc_eq_iff_butlast)
    finally show ?thesis .
  qed
  then show ?thesis by (auto simp: validate_language_def Let_def)
qed

end
