(* ===== verification/Text_Batching.thy ===== *)
theory Text_Batching
  imports Prelude
begin

text \<open>
  \<open>archon_search/text_batching.py\<close>: grouping items into batches under a padded-token budget, and running a
  function over the batches with one result per item in input order.
\<close>

definition default_token_budget :: int where
  "default_token_budget = 4096"

definition default_max_items :: int where
  "default_max_items = 256"

text \<open>The loop of \<open>plan_batches\<close> over the sorted indices; \<open>cur\<close> is the batch being filled.\<close>

fun plan_loop :: "(nat \<Rightarrow> int) \<Rightarrow> int \<Rightarrow> int \<Rightarrow> nat list \<Rightarrow> nat list \<Rightarrow> nat list list" where
  "plan_loop len budget max_items [] cur = (if cur = [] then [] else [cur])"
| "plan_loop len budget max_items (i # idxs) cur =
     (let fits = (int (length cur) + 1) * len i \<le> budget
      in if cur \<noteq> [] \<and> (\<not> fits \<or> int (length cur) = max_items)
         then cur # plan_loop len budget max_items idxs [i]
         else plan_loop len budget max_items idxs (cur @ [i]))"

text \<open>\<open>None\<close>: the \<open>ValueError\<close> of a budget or cap that is not positive.\<close>

definition plan_batches :: "int list \<Rightarrow> int \<Rightarrow> int \<Rightarrow> nat list list option" where
  "plan_batches lengths budget max_items =
     (if budget \<le> 0 \<or> max_items \<le> 0 then None
      else Some (plan_loop ((!) lengths) budget max_items (sort_key ((!) lengths) [0..<length lengths]) []))"

definition padded_size :: "(nat \<Rightarrow> int) \<Rightarrow> nat list \<Rightarrow> int" where
  "padded_size len b = int (length b) * fold max (map len (tl b)) (len (hd b))"

text \<open>
  The loop of \<open>map_in_token_batches\<close>: the results so far and the number of calls of \<open>release_memory\<close>.
  \<open>None\<close>: \<open>run_batch\<close> did not return one result per index (\<open>zip(strict=True)\<close> raises).
\<close>

fun run_batches ::
    "(nat \<Rightarrow> int) \<Rightarrow> (nat list \<Rightarrow> 'a list) \<Rightarrow> nat list list \<Rightarrow> (nat, 'a) dict \<Rightarrow> nat \<Rightarrow> ((nat, 'a) dict \<times> nat) option" where
  "run_batches len run [] results released = Some (results, released)"
| "run_batches len run (b # bs) results released =
     (let out = run b
      in if length out \<noteq> length b then None
         else run_batches len run bs (dict_set_all (zip b out) results)
                (if padded_size len b > default_token_budget then Suc released else released))"

definition map_in_token_batches :: "int list \<Rightarrow> (nat list \<Rightarrow> 'a list) \<Rightarrow> ('a option list \<times> nat) option" where
  "map_in_token_batches lengths run =
     (case plan_batches lengths default_token_budget default_max_items of
        None \<Rightarrow> None
      | Some bs \<Rightarrow>
          (case run_batches ((!) lengths) run bs [] 0 of
             None \<Rightarrow> None
           | Some (results, released) \<Rightarrow> Some (map (dict_get results) [0..<length lengths], released)))"

end
