(* ===== verification/Batch_Properties.thy ===== *)
theory Batch_Properties
  imports Text_Batching
begin

text \<open>Batches partition the items, respect the budget and the cap, and results come back in input order.\<close>

section \<open>Planning\<close>

lemma plan_loop_concat: "concat (plan_loop len budget mx idxs cur) = cur @ idxs"
  by (induction len budget mx idxs cur rule: plan_loop.induct) (auto simp: Let_def)

text \<open>A batch as the planner leaves it: within the cap, in length order, and padded within the budget unless alone.\<close>

definition batch_ok :: "(nat \<Rightarrow> int) \<Rightarrow> int \<Rightarrow> int \<Rightarrow> nat list \<Rightarrow> bool" where
  "batch_ok len budget mx b \<longleftrightarrow>
     b \<noteq> [] \<and> int (length b) \<le> mx \<and> sorted (map len b) \<and>
     (length b = 1 \<or> int (length b) * len (last b) \<le> budget)"

lemma sorted_snoc: "sorted (map f (xs @ [x])) \<longleftrightarrow> sorted (map f xs) \<and> (\<forall>y \<in> set xs. f y \<le> f x)"
  by (auto simp: sorted_append)

lemma plan_loop_ok:
  assumes "0 < mx" and "sorted (map len (cur @ idxs))" and "cur = [] \<or> batch_ok len budget mx cur"
    and "b \<in> set (plan_loop len budget mx idxs cur)"
  shows "batch_ok len budget mx b"
  using assms
proof (induction len budget mx idxs cur rule: plan_loop.induct)
  case (1 len budget mx cur)
  then show ?case by (auto split: if_splits)
next
  case (2 len budget mx i idxs cur)
  define fits where "fits \<longleftrightarrow> (int (length cur) + 1) * len i \<le> budget"
  have one: "batch_ok len budget mx [i]" using 2(3) by (simp add: batch_ok_def)
  show ?case
  proof (cases "cur \<noteq> [] \<and> (\<not> fits \<or> int (length cur) = mx)")
    case True
    have "b = cur \<or> b \<in> set (plan_loop len budget mx idxs [i])"
      using 2(6) True by (auto simp: fits_def Let_def)
    moreover have "sorted (map len ([i] @ idxs))" using 2(4) by (simp add: sorted_append)
    ultimately show ?thesis using 2(1) [OF fits_def] True 2(3,5) one by (auto simp: fits_def)
  next
    case False
    then have b: "b \<in> set (plan_loop len budget mx idxs (cur @ [i]))"
      using 2(6) by (auto simp: fits_def Let_def)
    have "batch_ok len budget mx (cur @ [i])"
    proof (cases "cur = []")
      case True
      then show ?thesis using one by simp
    next
      case ne: False
      then have "batch_ok len budget mx cur" "fits" "int (length cur) \<noteq> mx" using 2(5) False by auto
      then show ?thesis using 2(4) ne by (auto simp: batch_ok_def fits_def sorted_append algebra_simps)
    qed
    then show ?thesis using 2(2) [OF fits_def] False b 2(3,4) by (auto simp: fits_def)
  qed
qed

text \<open>
  The batch plan is a partition within bounds: the batches together hold every item index exactly
  once; each is non-empty, has at most \<open>max_items\<close> items in order of length, and its padded size, the number
  of items times the longest, is within the token budget unless it is a single item.
\<close>

lemma plan_batches_within_bounds:
  assumes "plan_batches lengths budget max_items = Some bs"
  shows "mset (concat bs) = mset [0..<length lengths] \<and> distinct (concat bs) \<and>
    (\<forall>b \<in> set bs. b \<noteq> [] \<and> int (length b) \<le> max_items \<and> sorted (map ((!) lengths) b) \<and>
       (length b = 1 \<or> (\<forall>i \<in> set b. int (length b) * lengths ! i \<le> budget)))"
proof -
  let ?idx = "sort_key ((!) lengths) [0..<length lengths]"
  have pos: "0 < max_items" and bs: "bs = plan_loop ((!) lengths) budget max_items ?idx []"
    using assms by (auto simp: plan_batches_def split: if_splits)
  have c: "concat bs = ?idx" unfolding bs plan_loop_concat by simp
  have ok: "batch_ok ((!) lengths) budget max_items b" if "b \<in> set bs" for b
    using plan_loop_ok [OF pos _ _ that [unfolded bs]] by simp
  have "int (length b) * lengths ! i \<le> budget" if "b \<in> set bs" "length b \<noteq> 1" "i \<in> set b" for b i
  proof -
    have b: "sorted (map ((!) lengths) b)" "int (length b) * lengths ! last b \<le> budget" "b \<noteq> []"
      using ok [OF that(1)] that(2) by (auto simp: batch_ok_def)
    have "sorted (map ((!) lengths) (butlast b @ [last b]))" using b(1,3) by simp
    then have "lengths ! i \<le> lengths ! last b"
      using that(3) b(3) unfolding sorted_snoc by (metis append_butlast_last_id in_set_conv_decomp set_ConsD set_append Un_iff order_refl empty_iff empty_set)
    then have "int (length b) * lengths ! i \<le> int (length b) * lengths ! last b" by (intro mult_left_mono) simp_all
    with b(2) show ?thesis by linarith
  qed
  then show ?thesis using c ok by (auto simp: batch_ok_def)
qed

theorem plan_batches_within_bounds_witness:
  "\<exists>bs. plan_batches [7, 2, 5] 10 256 = Some bs \<and> mset (concat bs) = mset [0..<3]"
proof -
  have "\<exists>bs. plan_batches [7, 2, 5] 10 256 = Some bs" by (simp add: plan_batches_def)
  then obtain bs where "plan_batches [7, 2, 5] 10 256 = Some bs" by blast
  with plan_batches_within_bounds [OF this] show ?thesis by (simp add: numeral_3_eq_3)
qed

section \<open>Running\<close>

lemma dict_get_set_all_map:
  "dict_get (dict_set_all (map (\<lambda>i. (i, f i)) ks) d) k = (if k \<in> set ks then Some (f k) else dict_get d k)"
  by (induction ks arbitrary: d) auto

lemma zip_map_self: "zip xs (map f xs) = map (\<lambda>i. (i, f i)) xs"
  by (induction xs) auto

lemma run_batches_result:
  assumes "\<And>b. b \<in> set bs \<Longrightarrow> run b = map f b"
  shows "\<exists>d. run_batches len run bs d0 n =
      Some (d, n + length (filter (\<lambda>b. padded_size len b > default_token_budget) bs)) \<and>
    (\<forall>k. dict_get d k = (if k \<in> set (concat bs) then Some (f k) else dict_get d0 k))"
  using assms
proof (induction bs arbitrary: d0 n)
  case (Cons b bs)
  have r: "run b = map f b" using Cons.prems by simp
  let ?n = "if padded_size len b > default_token_budget then Suc n else n"
  from Cons.IH [of "dict_set_all (zip b (run b)) d0" ?n] Cons.prems obtain d where
    d: "run_batches len run bs (dict_set_all (zip b (run b)) d0) ?n =
        Some (d, ?n + length (filter (\<lambda>b. padded_size len b > default_token_budget) bs))"
      "\<forall>k. dict_get d k = (if k \<in> set (concat bs) then Some (f k) else dict_get (dict_set_all (zip b (run b)) d0) k)"
    by auto
  then show ?case using r by (auto simp: Let_def zip_map_self dict_get_set_all_map)
qed simp

text \<open>
  Running a per-item function in token batches returns its result for every item in input order,
  whatever the batching, and calls \<open>release_memory\<close> once for each batch whose padded size exceeded the
  budget.
\<close>

lemma map_in_token_batches_in_order:
  assumes "\<And>b. run b = map f b"
  shows "\<exists>bs. plan_batches lengths default_token_budget default_max_items = Some bs \<and>
    map_in_token_batches lengths run =
      Some (map (\<lambda>i. Some (f i)) [0..<length lengths],
            length (filter (\<lambda>b. padded_size ((!) lengths) b > default_token_budget) bs))"
proof -
  obtain bs where bs: "plan_batches lengths default_token_budget default_max_items = Some bs"
    by (simp add: plan_batches_def default_token_budget_def default_max_items_def)
  then have "bs = plan_loop ((!) lengths) default_token_budget default_max_items
      (sort_key ((!) lengths) [0..<length lengths]) []"
    by (simp add: plan_batches_def default_token_budget_def default_max_items_def)
  then have c: "set (concat bs) = {0..<length lengths}" by (simp only: plan_loop_concat) simp
  obtain d where "run_batches ((!) lengths) run bs [] 0 =
      Some (d, 0 + length (filter (\<lambda>b. padded_size ((!) lengths) b > default_token_budget) bs))"
      "\<forall>k. dict_get d k = (if k \<in> set (concat bs) then Some (f k) else dict_get [] k)"
    using run_batches_result [of bs run f] assms by metis
  with bs c show ?thesis by (auto simp: map_in_token_batches_def)
qed

theorem map_in_token_batches_in_order_witness:
  "\<exists>n. map_in_token_batches [7, 2, 5] (\<lambda>b. map (\<lambda>i. i + 1) b) = Some ([Some 1, Some 2, Some 3], n)"
  using map_in_token_batches_in_order [of "\<lambda>b. map (\<lambda>i. i + 1) b" "\<lambda>i. i + 1" "[7, 2, 5]"]
  by (auto simp: upt_rec)

end
