(* ===== verification/Embedder_Cache.thy ===== *)
theory Embedder_Cache
  imports Prelude
begin

text \<open>
  \<open>archon_search/embedder_cache.py\<close>: the LRU cache of embedders with deduplicated loads.

  Between two \<open>await\<close> points a coroutine runs alone, so each such stretch of \<open>get_or_load\<close> is one function on
  the cache: the check under the lock, storing a loaded embedder with LRU eviction, and the \<open>finally\<close> clause
  that clears the registration and fires its event. The callers are a map from coroutine numbers to the
  point of \<open>get_or_load\<close> they are at; \<open>cache_step\<close> is any interleaving of them, with loads that fail or are
  cancelled anywhere, waiters that time out, and the eviction of a cold model by \<open>preload\<close>.
\<close>

record embedder =
  emb_model :: string
  emb_id :: nat

record embedder_cache =
  max_size :: int
  pinned :: "string list"
  ecache :: "(string, embedder) dict"
  loading :: "(string, nat) dict"
  fired :: "nat list"
  next_event :: nat

definition new_cache :: "int \<Rightarrow> (string, embedder) dict \<Rightarrow> embedder_cache" where
  "new_cache limit preloaded =
     \<lparr>max_size = limit, pinned = dict_keys preloaded, ecache = preloaded, loading = [], fired = [], next_event = 0\<rparr>"

definition move_to_end :: "'k \<Rightarrow> ('k, 'v) dict \<Rightarrow> ('k, 'v) dict" where
  "move_to_end k d = (case dict_get d k of None \<Rightarrow> d | Some v \<Rightarrow> dict_del k d @ [(k, v)])"

datatype check_result = Hit embedder | Await nat | Loader nat

definition check :: "string \<Rightarrow> embedder_cache \<Rightarrow> check_result \<times> embedder_cache" where
  "check m c =
     (case dict_get (ecache c) m of
        Some e \<Rightarrow> (Hit e, c\<lparr>ecache := move_to_end m (ecache c)\<rparr>)
      | None \<Rightarrow>
          (case dict_get (loading c) m of
             Some ev \<Rightarrow> (Await ev, c)
           | None \<Rightarrow>
               (Loader (next_event c),
                c\<lparr>loading := dict_set m (next_event c) (loading c), next_event := Suc (next_event c)\<rparr>)))"

definition unpinned :: "embedder_cache \<Rightarrow> string list" where
  "unpinned c = filter (\<lambda>n. n \<notin> set (pinned c)) (dict_keys (ecache c))"

definition lru_victims :: "embedder_cache \<Rightarrow> string list" where
  "lru_victims c = take (nat (max 0 (int (length (unpinned c)) - max_size c))) (unpinned c)"

definition evict_lru :: "embedder_cache \<Rightarrow> embedder_cache" where
  "evict_lru c = c\<lparr>ecache := fold dict_del (lru_victims c) (ecache c)\<rparr>"

definition store_loaded :: "string \<Rightarrow> embedder \<Rightarrow> embedder_cache \<Rightarrow> embedder_cache" where
  "store_loaded m e c = evict_lru (c\<lparr>ecache := move_to_end m (dict_set m e (ecache c))\<rparr>)"

definition finish_load :: "string \<Rightarrow> embedder_cache \<Rightarrow> embedder_cache" where
  "finish_load m c =
     (case dict_get (loading c) m of
        None \<Rightarrow> c
      | Some ev \<Rightarrow> c\<lparr>loading := dict_del m (loading c), fired := ev # fired c\<rparr>)"

definition drop_cold :: "(embedder \<Rightarrow> bool) \<Rightarrow> string \<Rightarrow> embedder_cache \<Rightarrow> embedder_cache" where
  "drop_cold is_warm m c =
     (case dict_get (ecache c) m of
        None \<Rightarrow> c
      | Some e \<Rightarrow>
          (if \<not> is_warm e \<and> m \<notin> set (pinned c) then c\<lparr>ecache := dict_del m (ecache c)\<rparr> else c))"

definition preload_failures :: "string list \<Rightarrow> bool list \<Rightarrow> string list" where
  "preload_failures model_names warmed = map fst (filter (\<lambda>(model, ok). \<not> ok) (zip model_names warmed))"

definition cold_models :: "(embedder \<Rightarrow> bool) \<Rightarrow> string list \<Rightarrow> embedder_cache \<Rightarrow> string list" where
  "cold_models is_warm ms c =
     filter (\<lambda>m. case dict_get (ecache c) m of None \<Rightarrow> True | Some e \<Rightarrow> \<not> is_warm e) ms"

definition cached_models :: "embedder_cache \<Rightarrow> string list" where
  "cached_models c = dict_keys (ecache c)"

datatype caller =
    Idle
  | Checking string
  | Awaiting string nat
  | Loading string nat
  | Storing string nat embedder
  | Releasing string embedder
  | Returned string embedder
  | Not_ready string
  | Raised string

record cache_world =
  cache :: embedder_cache
  callers :: "nat \<Rightarrow> caller"

definition at_rest :: "caller \<Rightarrow> bool" where
  "at_rest k = (case k of Idle \<Rightarrow> True | Returned _ _ \<Rightarrow> True | Not_ready _ \<Rightarrow> True | Raised _ \<Rightarrow> True | _ \<Rightarrow> False)"

inductive cache_step :: "cache_world \<Rightarrow> cache_world \<Rightarrow> bool" where
  request: "at_rest (ks i) \<Longrightarrow>
     cache_step \<lparr>cache = c, callers = ks\<rparr> \<lparr>cache = c, callers = ks(i := Checking m)\<rparr>"
| hit: "ks i = Checking m \<Longrightarrow> check m c = (Hit e, c') \<Longrightarrow>
     cache_step \<lparr>cache = c, callers = ks\<rparr> \<lparr>cache = c', callers = ks(i := Returned m e)\<rparr>"
| wait_for: "ks i = Checking m \<Longrightarrow> check m c = (Await ev, c') \<Longrightarrow>
     cache_step \<lparr>cache = c, callers = ks\<rparr> \<lparr>cache = c', callers = ks(i := Awaiting m ev)\<rparr>"
| become_loader: "ks i = Checking m \<Longrightarrow> check m c = (Loader ev, c') \<Longrightarrow>
     cache_step \<lparr>cache = c, callers = ks\<rparr> \<lparr>cache = c', callers = ks(i := Loading m ev)\<rparr>"
| check_cancelled: "ks i = Checking m \<Longrightarrow>
     cache_step \<lparr>cache = c, callers = ks\<rparr> \<lparr>cache = c, callers = ks(i := Raised m)\<rparr>"
| woken: "ks i = Awaiting m ev \<Longrightarrow> ev \<in> set (fired c) \<Longrightarrow>
     cache_step \<lparr>cache = c, callers = ks\<rparr> \<lparr>cache = c, callers = ks(i := Checking m)\<rparr>"
| timed_out: "ks i = Awaiting m ev \<Longrightarrow>
     cache_step \<lparr>cache = c, callers = ks\<rparr> \<lparr>cache = c, callers = ks(i := Not_ready m)\<rparr>"
| wait_cancelled: "ks i = Awaiting m ev \<Longrightarrow>
     cache_step \<lparr>cache = c, callers = ks\<rparr> \<lparr>cache = c, callers = ks(i := Raised m)\<rparr>"
| built: "ks i = Loading m ev \<Longrightarrow>
     cache_step \<lparr>cache = c, callers = ks\<rparr>
       \<lparr>cache = c, callers = ks(i := Storing m ev \<lparr>emb_model = m, emb_id = n\<rparr>)\<rparr>"
| load_failed: "ks i = Loading m ev \<Longrightarrow>
     cache_step \<lparr>cache = c, callers = ks\<rparr> \<lparr>cache = finish_load m c, callers = ks(i := Raised m)\<rparr>"
| store_cancelled: "ks i = Storing m ev e \<Longrightarrow>
     cache_step \<lparr>cache = c, callers = ks\<rparr> \<lparr>cache = finish_load m c, callers = ks(i := Raised m)\<rparr>"
| stored: "ks i = Storing m ev e \<Longrightarrow>
     cache_step \<lparr>cache = c, callers = ks\<rparr>
       \<lparr>cache = finish_load m (store_loaded m e c), callers = ks(i := Releasing m e)\<rparr>"
| released: "ks i = Releasing m e \<Longrightarrow>
     cache_step \<lparr>cache = c, callers = ks\<rparr> \<lparr>cache = c, callers = ks(i := Returned m e)\<rparr>"
| release_cancelled: "ks i = Releasing m e \<Longrightarrow>
     cache_step \<lparr>cache = c, callers = ks\<rparr> \<lparr>cache = c, callers = ks(i := Raised m)\<rparr>"
| preload_drops: "cache_step \<lparr>cache = c, callers = ks\<rparr> \<lparr>cache = drop_cold is_warm m c, callers = ks\<rparr>"

definition cache_start :: "cache_world \<Rightarrow> bool" where
  "cache_start w \<longleftrightarrow>
     (\<exists>limit preloaded. dict_ok preloaded \<and> (\<forall>(k, e) \<in> set preloaded. emb_model e = k) \<and>
        cache w = new_cache limit preloaded) \<and>
     (\<forall>i. callers w i = Idle)"

end
