(* ===== verification/Cache_Properties.thy ===== *)
theory Cache_Properties
  imports Embedder_Cache
begin

text \<open>One loader per model, no stranded waiter, a bounded cache that keeps its pinned entries.\<close>

section \<open>The store part\<close>

definition store_ok :: "embedder_cache \<Rightarrow> bool" where
  "store_ok c \<longleftrightarrow>
     dict_ok (ecache c) \<and> (\<forall>(k, e) \<in> set (ecache c). emb_model e = k) \<and>
     set (pinned c) \<subseteq> set (dict_keys (ecache c)) \<and> int (length (unpinned c)) \<le> max 0 (max_size c)"

lemma dict_keys_fold_del: "dict_keys (fold dict_del ks d) = filter (\<lambda>x. x \<notin> set ks) (dict_keys d)"
  by (induction ks arbitrary: d) (auto simp: dict_keys_del conj_commute intro: filter_cong)

lemma set_fold_del: "x \<in> set (fold dict_del ks d) \<Longrightarrow> x \<in> set d"
proof (induction ks arbitrary: d)
  case (Cons k ks)
  then have "x \<in> set (dict_del k d)" by simp
  then show ?case by (simp add: dict_del_eq)
qed simp

lemma move_to_end_keys:
  "dict_get d k \<noteq> None \<Longrightarrow> dict_keys (move_to_end k d) = filter (\<lambda>x. x \<noteq> k) (dict_keys d) @ [k]"
  by (auto simp: move_to_end_def dict_keys_del [symmetric]) (simp add: dict_keys_def)

lemma move_to_end_ok: "dict_ok d \<Longrightarrow> dict_ok (move_to_end k d)"
  by (cases "dict_get d k")
     (auto simp: move_to_end_def dict_ok_def dict_del_eq distinct_map_filter inj_on_def)

lemma move_to_end_set: "x \<in> set (move_to_end k d) \<Longrightarrow> x \<in> set d"
  by (auto simp: move_to_end_def dict_del_eq dest: dict_get_SomeD split: option.splits)

lemma length_filter_move:
  assumes "distinct xs" and "k \<in> set xs"
  shows "length (filter P (filter (\<lambda>x. x \<noteq> k) xs @ [k])) = length (filter P xs)"
  using assms
proof (induction xs)
  case (Cons x xs)
  have "x = k \<Longrightarrow> filter (\<lambda>x. x \<noteq> k) xs = xs" using Cons.prems by (auto simp: filter_id_conv)
  then show ?case using Cons by (auto split: if_splits)
qed simp

lemma check_store_ok:
  assumes "store_ok c" and "check m c = (r, c')"
  shows "store_ok c'"
proof (cases "dict_get (ecache c) m")
  case None
  then show ?thesis using assms by (auto simp: check_def store_ok_def unpinned_def split: option.splits)
next
  case (Some e)
  have k: "dict_keys (move_to_end m (ecache c)) = filter (\<lambda>x. x \<noteq> m) (dict_keys (ecache c)) @ [m]"
    using Some by (simp add: move_to_end_keys)
  have m: "m \<in> set (dict_keys (ecache c))" using Some by (metis dict_get_None_iff option.distinct(1))
  have "distinct (dict_keys (ecache c))" using assms(1) by (simp add: store_ok_def dict_ok_def dict_keys_def)
  from length_filter_move [OF this m, of "\<lambda>n. n \<notin> set (pinned c)"] have
    "length (unpinned (c\<lparr>ecache := move_to_end m (ecache c)\<rparr>)) = length (unpinned c)"
    using k by (simp add: unpinned_def del: filter_append filter_filter)
  moreover have "\<forall>(k, e) \<in> set (move_to_end m (ecache c)). emb_model e = k"
    using assms(1) by (auto simp: store_ok_def dest!: move_to_end_set)
  ultimately show ?thesis
    using assms Some k m by (auto simp: check_def store_ok_def move_to_end_ok)
qed

lemma filter_drop_distinct:
  "distinct xs \<Longrightarrow> filter (\<lambda>x. x \<notin> set (take n xs)) xs = drop n xs"
proof -
  assume d: "distinct xs"
  then have "distinct (take n xs @ drop n xs)" by simp
  then have "\<forall>x \<in> set (drop n xs). x \<notin> set (take n xs)" by (metis distinct_append disjoint_iff)
  then have "filter (\<lambda>x. x \<notin> set (take n xs)) (take n xs @ drop n xs) = drop n xs"
    by (simp only: filter_append) (simp add: filter_id_conv)
  then show ?thesis by simp
qed

lemma evict_lru_unpinned:
  assumes "dict_ok (ecache c)"
  shows "unpinned (evict_lru c) = drop (nat (max 0 (int (length (unpinned c)) - max_size c))) (unpinned c)"
proof -
  let ?n = "nat (max 0 (int (length (unpinned c)) - max_size c))"
  have d: "distinct (unpinned c)" using assms by (simp add: unpinned_def dict_ok_def dict_keys_def)
  have "unpinned (evict_lru c) = filter (\<lambda>x. x \<notin> set (lru_victims c)) (unpinned c)"
    by (simp add: unpinned_def evict_lru_def dict_keys_fold_del conj_commute)
  also have "\<dots> = drop ?n (unpinned c)" unfolding lru_victims_def using d by (rule filter_drop_distinct)
  finally show ?thesis .
qed

lemma nat_max_zero: "nat (max 0 n) = nat n"
  by (simp add: max_def)

lemma store_loaded_ok:
  assumes "store_ok c" and "emb_model e = m"
  shows "store_ok (store_loaded m e c)"
proof -
  let ?c = "c\<lparr>ecache := move_to_end m (dict_set m e (ecache c))\<rparr>"
  have ok: "dict_ok (ecache ?c)" using assms(1) by (auto simp: store_ok_def intro: move_to_end_ok dict_ok_set)
  have vals: "\<forall>(k, x) \<in> set (ecache ?c). emb_model x = k"
    using assms by (auto simp: store_ok_def dest!: move_to_end_set dict_set_in)
  have keys: "set (dict_keys (ecache c)) \<subseteq> set (dict_keys (ecache ?c))"
    by (auto simp: move_to_end_keys dict_get_None_iff [symmetric])
      (metis dict_get_None_iff dict_get_set)
  have "set (lru_victims ?c) \<inter> set (pinned c) = {}"
    by (auto simp: lru_victims_def unpinned_def dest!: in_set_takeD)
  then have "set (pinned c) \<subseteq> set (dict_keys (ecache (evict_lru ?c)))"
    using assms(1) keys by (auto simp: evict_lru_def dict_keys_fold_del store_ok_def)
  moreover have "int (length (unpinned (evict_lru ?c))) \<le> max 0 (max_size c)"
    unfolding evict_lru_unpinned [OF ok] by simp
  moreover have "dict_ok (ecache (evict_lru ?c))" using ok by (auto simp: evict_lru_def intro: adict.ok_fold_del)
  moreover have "\<forall>(k, x) \<in> set (ecache (evict_lru ?c)). emb_model x = k"
    using vals by (auto simp: evict_lru_def dest!: set_fold_del)
  ultimately show ?thesis by (simp add: store_loaded_def store_ok_def evict_lru_def)
qed

lemma drop_cold_ok: "store_ok c \<Longrightarrow> store_ok (drop_cold is_warm m c)"
proof -
  assume s: "store_ok c"
  have "length (filter P (filter Q xs)) \<le> length (filter P xs)" for P Q and xs :: "string list"
    by (induction xs) auto
  from order_trans [OF of_nat_mono [OF this], of "\<lambda>n. n \<notin> set (pinned c)" "dict_keys (ecache c)" "max 0 (max_size c)" "\<lambda>x. x \<noteq> m"] s
  show ?thesis
    by (auto simp: drop_cold_def store_ok_def unpinned_def dict_keys_del dict_ok_del dict_del_eq split: option.splits)
       (auto simp: dict_del_eq [symmetric] dict_ok_del dict_keys_del)
qed

lemma finish_load_store [simp]: "store_ok (finish_load m c) = store_ok c"
  by (simp add: finish_load_def store_ok_def unpinned_def split: option.split)


section \<open>The callers\<close>

fun busy :: "caller \<Rightarrow> (string \<times> nat) option" where
  "busy (Loading m ev) = Some (m, ev)"
| "busy (Storing m ev e) = Some (m, ev)"
| "busy _ = None"

fun holds :: "caller \<Rightarrow> (string \<times> embedder) option" where
  "holds (Storing m ev e) = Some (m, e)"
| "holds (Releasing m e) = Some (m, e)"
| "holds (Returned m e) = Some (m, e)"
| "holds _ = None"

fun waits :: "caller \<Rightarrow> (string \<times> nat) option" where
  "waits (Awaiting m ev) = Some (m, ev)"
| "waits _ = None"

definition crew_ok :: "(string, nat) dict \<Rightarrow> nat list \<Rightarrow> (nat \<Rightarrow> caller) \<Rightarrow> bool" where
  "crew_ok d f ks \<longleftrightarrow>
     (\<forall>m ev. dict_get d m = Some ev \<longleftrightarrow> (\<exists>i. busy (ks i) = Some (m, ev))) \<and>
     (\<forall>i j m ev ev'. busy (ks i) = Some (m, ev) \<longrightarrow> busy (ks j) = Some (m, ev') \<longrightarrow> i = j) \<and>
     (\<forall>i m ev. waits (ks i) = Some (m, ev) \<longrightarrow> ev \<in> set f \<or> dict_get d m = Some ev) \<and>
     (\<forall>i m e. holds (ks i) = Some (m, e) \<longrightarrow> emb_model e = m)"

lemma crew_reg: "crew_ok d f ks \<Longrightarrow> dict_get d m = Some ev \<longleftrightarrow> (\<exists>i. busy (ks i) = Some (m, ev))"
  unfolding crew_ok_def by (elim conjE) blast

lemma crew_one: "crew_ok d f ks \<Longrightarrow> busy (ks i) = Some (m, ev) \<Longrightarrow> busy (ks j) = Some (m, ev') \<Longrightarrow> i = j"
  unfolding crew_ok_def by (elim conjE) blast

lemma crew_waits: "crew_ok d f ks \<Longrightarrow> waits (ks i) = Some (m, ev) \<Longrightarrow> ev \<in> set f \<or> dict_get d m = Some ev"
  unfolding crew_ok_def by (elim conjE) blast

lemma crew_holds: "crew_ok d f ks \<Longrightarrow> holds (ks i) = Some (m, e) \<Longrightarrow> emb_model e = m"
  unfolding crew_ok_def by (elim conjE) blast

lemma crewI:
  assumes "\<And>m ev. dict_get d m = Some ev \<Longrightarrow> \<exists>i. busy (ks i) = Some (m, ev)"
    and "\<And>i m ev. busy (ks i) = Some (m, ev) \<Longrightarrow> dict_get d m = Some ev"
    and "\<And>i j m ev ev'. busy (ks i) = Some (m, ev) \<Longrightarrow> busy (ks j) = Some (m, ev') \<Longrightarrow> i = j"
    and "\<And>i m ev. waits (ks i) = Some (m, ev) \<Longrightarrow> ev \<in> set f \<or> dict_get d m = Some ev"
    and "\<And>i m e. holds (ks i) = Some (m, e) \<Longrightarrow> emb_model e = m"
  shows "crew_ok d f ks"
  unfolding crew_ok_def using assms by blast

lemma crew_quiet:
  assumes "crew_ok d f ks" and "busy (ks i) = busy k" and "\<forall>m e. holds k = Some (m, e) \<longrightarrow> emb_model e = m"
    and "\<forall>m ev. waits k = Some (m, ev) \<longrightarrow> dict_get d m = Some ev"
  shows "crew_ok d f (ks(i := k))"
proof -
  have b: "busy ((ks(i := k)) j) = busy (ks j)" for j using assms(2) by simp
  show ?thesis
  proof (rule crewI, unfold b)
    show "n \<in> set f \<or> dict_get d m = Some n" if "waits ((ks(i := k)) j) = Some (m, n)" for j m n
      using that assms(4) crew_waits [OF assms(1)] by (cases "j = i") auto
    show "emb_model e = m" if "holds ((ks(i := k)) j) = Some (m, e)" for j m e
      using that assms(3) crew_holds [OF assms(1)] by (cases "j = i") auto
  qed (use crew_reg [OF assms(1)] crew_one [OF assms(1)] in blast)+
qed

lemma crew_register:
  assumes "crew_ok d f ks" and "busy (ks i) = None" and "dict_get d m = None"
  shows "crew_ok (dict_set m ev d) f (ks(i := Loading m ev))"
proof -
  let ?ks = "ks(i := Loading m ev)"
  have free: "busy (ks j) \<noteq> Some (m, x)" for j x
    using crew_reg [OF assms(1), of m x] assms(3) by auto
  show ?thesis
  proof (rule crewI)
    show "\<exists>j. busy (?ks j) = Some (n, x)" if "dict_get (dict_set m ev d) n = Some x" for n x
    proof (cases "n = m")
      case True
      then show ?thesis using that by (intro exI [of _ i]) simp
    next
      case False
      then have "dict_get d n = Some x" using that by simp
      then obtain j where "busy (ks j) = Some (n, x)" using crew_reg [OF assms(1)] by blast
      then show ?thesis using assms(2) by (intro exI [of _ j]) auto
    qed
    show "dict_get (dict_set m ev d) n = Some x" if "busy (?ks j) = Some (n, x)" for j n x
      using that free crew_reg [OF assms(1), of n x] by (cases "j = i") auto
    show "j = l" if "busy (?ks j) = Some (n, x)" and "busy (?ks l) = Some (n, y)" for j l n x y
      using that free crew_one [OF assms(1)] by (cases "j = i"; cases "l = i") auto
    show "x \<in> set f \<or> dict_get (dict_set m ev d) n = Some x" if "waits (?ks j) = Some (n, x)" for j n x
      using that assms(3) crew_waits [OF assms(1), of j n x] by (cases "j = i") auto
    show "emb_model e = n" if "holds (?ks j) = Some (n, e)" for j n e
      using that crew_holds [OF assms(1)] by (cases "j = i") auto
  qed
qed

lemma crew_finish:
  assumes "crew_ok d f ks" and "busy (ks i) = Some (m, ev)" and "busy k = None" and "waits k = None"
    and "\<forall>n e. holds k = Some (n, e) \<longrightarrow> emb_model e = n"
  shows "crew_ok (dict_del m d) (ev # f) (ks(i := k))"
proof -
  let ?ks = "ks(i := k)"
  have reg: "dict_get d m = Some ev" using crew_reg [OF assms(1)] assms(2) by blast
  show ?thesis
  proof (rule crewI)
    show "\<exists>j. busy (?ks j) = Some (n, x)" if "dict_get (dict_del m d) n = Some x" for n x
    proof -
      have n: "n \<noteq> m" and "dict_get d n = Some x" using that by (auto split: if_splits)
      then obtain j where j: "busy (ks j) = Some (n, x)" using crew_reg [OF assms(1)] by blast
      then have "j \<noteq> i" using n assms(2) by auto
      then show ?thesis using j by (intro exI [of _ j]) simp
    qed
    show "dict_get (dict_del m d) n = Some x" if "busy (?ks j) = Some (n, x)" for j n x
    proof -
      have ji: "j \<noteq> i" and j: "busy (ks j) = Some (n, x)" using that assms(3) by (auto split: if_splits)
      then have "n \<noteq> m" using crew_one [OF assms(1) assms(2)] by blast
      moreover have "dict_get d n = Some x" using crew_reg [OF assms(1)] j by blast
      ultimately show ?thesis by simp
    qed
    show "j = l" if "busy (?ks j) = Some (n, x)" and "busy (?ks l) = Some (n, y)" for j l n x y
      using that assms(3) crew_one [OF assms(1)] by (cases "j = i"; cases "l = i") auto
    show "x \<in> set (ev # f) \<or> dict_get (dict_del m d) n = Some x" if "waits (?ks j) = Some (n, x)" for j n x
      using that assms(4) reg crew_waits [OF assms(1), of j n x] by (cases "j = i") auto
    show "emb_model e = n" if "holds (?ks j) = Some (n, e)" for j n e
      using that assms(5) crew_holds [OF assms(1)] by (cases "j = i") auto
  qed
qed

definition cache_inv :: "cache_world \<Rightarrow> bool" where
  "cache_inv w \<longleftrightarrow> store_ok (cache w) \<and> crew_ok (loading (cache w)) (fired (cache w)) (callers w)"


section \<open>The invariant\<close>

lemma loading_simps [simp]:
  "loading (store_loaded m e c) = loading c" "fired (store_loaded m e c) = fired c"
  "loading (drop_cold is_warm m c) = loading c" "fired (drop_cold is_warm m c) = fired c"
  by (simp_all add: store_loaded_def evict_lru_def drop_cold_def split: option.split)

lemma at_rest_idle: "at_rest k \<Longrightarrow> busy k = None"
  by (cases k) (auto simp: at_rest_def)

lemma cache_finish:
  assumes "crew_ok (loading c) (fired c) ks" and "busy (ks i) = Some (m, ev)" and "busy k = None"
    and "waits k = None" and "\<forall>n e. holds k = Some (n, e) \<longrightarrow> emb_model e = n"
  shows "crew_ok (loading (finish_load m c)) (fired (finish_load m c)) (ks(i := k))"
proof -
  have "dict_get (loading c) m = Some ev" using crew_reg [OF assms(1)] assms(2) by blast
  then show ?thesis using crew_finish [OF assms] by (simp add: finish_load_def)
qed

lemma check_effects:
  assumes "check m c = (r, c')"
  shows "r = Hit e \<Longrightarrow> (m, e) \<in> set (ecache c) \<and> loading c' = loading c \<and> fired c' = fired c"
    and "r = Await ev \<Longrightarrow> dict_get (loading c) m = Some ev \<and> c' = c"
    and "r = Loader ev \<Longrightarrow> dict_get (loading c) m = None \<and> loading c' = dict_set m ev (loading c) \<and> fired c' = fired c"
  using assms by (auto simp: check_def dest: dict_get_SomeD split: option.splits)

lemma cache_step_inv:
  assumes "cache_step w w'" and "cache_inv w"
  shows "cache_inv w'"
  using assms
proof (induction rule: cache_step.induct)
  case (request ks i c m)
  then show ?case by (auto simp: cache_inv_def at_rest_idle intro!: crew_quiet)
next
  case (hit ks i m c e c')
  then have "emb_model e = m" using check_effects(1) [OF hit(2) refl] by (auto simp: cache_inv_def store_ok_def)
  then show ?case
    using hit check_effects(1) [OF hit(2) refl] by (auto simp: cache_inv_def intro!: crew_quiet dest: check_store_ok)
next
  case (wait_for ks i m c ev c')
  then show ?case
    using check_effects(2) [OF wait_for(2) refl] by (auto simp: cache_inv_def intro!: crew_quiet)
next
  case (become_loader ks i m c ev c')
  then show ?case
    using check_effects(3) [OF become_loader(2) refl] check_store_ok [OF _ become_loader(2)]
    by (auto simp: cache_inv_def intro!: crew_register)
next
  case (check_cancelled ks i m c)
  then show ?case by (auto simp: cache_inv_def intro!: crew_quiet)
next
  case (woken ks i m ev c)
  then show ?case by (auto simp: cache_inv_def intro!: crew_quiet)
next
  case (timed_out ks i m ev c)
  then show ?case by (auto simp: cache_inv_def intro!: crew_quiet)
next
  case (wait_cancelled ks i m ev c)
  then show ?case by (auto simp: cache_inv_def intro!: crew_quiet)
next
  case (built ks i m ev c n)
  then show ?case by (auto simp: cache_inv_def intro!: crew_quiet)
next
  case (load_failed ks i m ev c)
  then show ?case by (auto simp: cache_inv_def intro!: cache_finish)
next
  case (store_cancelled ks i m ev e c)
  then show ?case by (auto simp: cache_inv_def intro!: cache_finish)
next
  case (stored ks i m ev e c)
  then have crew: "crew_ok (loading c) (fired c) ks" and "store_ok c" by (auto simp: cache_inv_def)
  have "emb_model e = m" using crew_holds [OF crew, of i] stored(1) by simp
  then show ?case
    using stored(1) crew \<open>store_ok c\<close> by (auto simp: cache_inv_def intro!: cache_finish store_loaded_ok)
next
  case (released ks i m e c)
  then have "emb_model e = m" using crew_holds [of _ _ ks i m e] by (auto simp: cache_inv_def)
  then show ?case using released by (auto simp: cache_inv_def intro!: crew_quiet)
next
  case (release_cancelled ks i m e c)
  then show ?case by (auto simp: cache_inv_def intro!: crew_quiet)
next
  case (preload_drops c ks is_warm m)
  then show ?case by (simp add: cache_inv_def drop_cold_ok)
qed

lemma cache_start_inv: "cache_start w \<Longrightarrow> cache_inv w"
  by (auto simp: cache_start_def cache_inv_def new_cache_def store_ok_def unpinned_def crew_ok_def)

interpretation ecm: machine_invariant cache_start cache_step cache_inv
  by unfold_locales (blast intro: cache_start_inv cache_step_inv)+


section \<open>A run of two callers\<close>

text \<open>Caller 0 loads a model, caller 1 waits for it.\<close>

abbreviation loading_run :: cache_world where
  "loading_run \<equiv>
     \<lparr>cache = snd (check ''bge'' (new_cache 1 [])),
      callers = (\<lambda>_. Idle)(0 := Loading ''bge'' 0, 1 := Awaiting ''bge'' 0)\<rparr>"

lemma loading_run_reachable: "reachable cache_start cache_step loading_run"
proof -
  let ?c = "new_cache 1 []" and ?d = "snd (check ''bge'' (new_cache 1 []))" and ?k = "(\<lambda>_. Idle) :: nat \<Rightarrow> caller"
  let ?R = "reachable cache_start cache_step"
  have "cache_start \<lparr>cache = ?c, callers = ?k\<rparr>" 
    unfolding cache_start_def by (intro conjI exI [of _ 1] exI [of _ "[]"]) (simp_all add: dict_ok_def)
  then have "?R \<lparr>cache = ?c, callers = ?k\<rparr>" by (rule reach_init)
  moreover have "cache_step \<lparr>cache = ?c, callers = ?k\<rparr> \<lparr>cache = ?c, callers = ?k(0 := Checking ''bge'')\<rparr>"
    by (rule request) (simp add: at_rest_def)
  ultimately have "?R \<lparr>cache = ?c, callers = ?k(0 := Checking ''bge'')\<rparr>" by (rule reach_step)
  moreover have "cache_step \<lparr>cache = ?c, callers = ?k(0 := Checking ''bge'')\<rparr>
      \<lparr>cache = ?d, callers = (?k(0 := Checking ''bge''))(0 := Loading ''bge'' 0)\<rparr>"
    by (rule become_loader) (simp_all add: check_def new_cache_def)
  ultimately have "?R \<lparr>cache = ?d, callers = (?k(0 := Checking ''bge''))(0 := Loading ''bge'' 0)\<rparr>"
    by (rule reach_step)
  then have "?R \<lparr>cache = ?d, callers = ?k(0 := Loading ''bge'' 0)\<rparr>" by simp
  moreover have "cache_step \<lparr>cache = ?d, callers = ?k(0 := Loading ''bge'' 0)\<rparr>
      \<lparr>cache = ?d, callers = (?k(0 := Loading ''bge'' 0))(1 := Checking ''bge'')\<rparr>"
    by (rule request) (simp add: at_rest_def)
  ultimately have "?R \<lparr>cache = ?d, callers = (?k(0 := Loading ''bge'' 0))(1 := Checking ''bge'')\<rparr>"
    by (rule reach_step)
  moreover have "cache_step \<lparr>cache = ?d, callers = (?k(0 := Loading ''bge'' 0))(1 := Checking ''bge'')\<rparr>
      \<lparr>cache = ?d, callers = (?k(0 := Loading ''bge'' 0, 1 := Checking ''bge''))(1 := Awaiting ''bge'' 0)\<rparr>"
    by (rule wait_for) (simp_all add: check_def new_cache_def)
  ultimately have "?R \<lparr>cache = ?d, callers = (?k(0 := Loading ''bge'' 0, 1 := Checking ''bge''))(1 := Awaiting ''bge'' 0)\<rparr>"
    by (rule reach_step)
  then show ?thesis by simp
qed

section \<open>Properties\<close>

text \<open>
  C28: at most one coroutine builds an embedder for a model while its registration stands: in every
  interleaving of callers, cancellations, failures and timeouts, two callers in the loader region of
  \<open>get_or_load\<close> for the same model are the same caller, and a registration stands exactly as long as its
  loader is in that region, so a failed or cancelled load never poisons a model.
\<close>

theorem one_loader_per_model:
  assumes "reachable cache_start cache_step w"
  shows "(busy (callers w i) = Some (m, ev) \<longrightarrow> busy (callers w j) = Some (m, ev') \<longrightarrow> i = j) \<and>
    (dict_get (loading (cache w)) m = Some ev \<longleftrightarrow> (\<exists>l. busy (callers w l) = Some (m, ev)))"
  using ecm.inv_reachable [OF assms] by (auto simp: cache_inv_def dest: crew_one crew_reg)

theorem one_loader_per_model_witness:
  "{j. busy (callers loading_run j) = Some (''bge'', 0)} = {0} \<and>
    dict_get (loading (cache loading_run)) ''bge'' = Some 0"
proof -
  have z: "busy (callers loading_run 0) = Some (''bge'', 0)" by simp
  have "j = 0" if "busy (callers loading_run j) = Some (''bge'', 0)" for j
    using one_loader_per_model [OF loading_run_reachable, of j "''bge''" 0 0 0] that z by blast
  moreover have "dict_get (loading (cache loading_run)) ''bge'' = Some 0"
    using one_loader_per_model [OF loading_run_reachable, of 0 "''bge''" 0 0 0] z by blast
  ultimately show ?thesis using z by blast
qed

text \<open>
  C37: no waiter is stranded: whoever waits for a model's event either can run, because the event has
  fired, or waits for a caller that is still loading that model under that very event; and every way that
  caller leaves the loader region (stored, failed, cancelled) fires the event.
\<close>

theorem no_stranded_waiter:
  assumes "reachable cache_start cache_step w" and "callers w i = Awaiting m ev"
  shows "ev \<in> set (fired (cache w)) \<or>
    (\<exists>j. busy (callers w j) = Some (m, ev) \<and>
      (\<forall>w'. cache_step w w' \<longrightarrow> busy (callers w' j) = None \<longrightarrow> ev \<in> set (fired (cache w'))))"
proof (cases "ev \<in> set (fired (cache w))")
  case False
  have crew: "crew_ok (loading (cache w)) (fired (cache w)) (callers w)"
    using ecm.inv_reachable [OF assms(1)] by (simp add: cache_inv_def)
  have reg: "dict_get (loading (cache w)) m = Some ev" using False crew_waits [OF crew, of i] assms(2) by simp
  then obtain j where j: "busy (callers w j) = Some (m, ev)" using crew_reg [OF crew] by blast
  have "ev \<in> set (fired (cache w'))" if "cache_step w w'" "busy (callers w' j) = None" for w'
    using that j reg by (cases rule: cache_step.cases) (auto simp: finish_load_def at_rest_idle split: if_splits)
  then show ?thesis using j by blast
qed simp

theorem no_stranded_waiter_witness:
  "callers loading_run 1 = Awaiting ''bge'' 0 \<and>
    (\<exists>w'. cache_step loading_run w' \<and> busy (callers w' 0) = None \<and> 0 \<in> set (fired (cache w')))"
proof -
  let ?c = "cache loading_run" and ?ks = "callers loading_run"
  have w: "callers loading_run 1 = Awaiting ''bge'' 0" by simp
  have "0 \<notin> set (fired ?c)" by (simp add: check_def new_cache_def)
  then obtain j where j: "busy (callers loading_run j) = Some (''bge'', 0)"
      "\<forall>w'. cache_step loading_run w' \<longrightarrow> busy (callers w' j) = None \<longrightarrow> 0 \<in> set (fired (cache w'))"
    using no_stranded_waiter [OF loading_run_reachable w] by blast
  from j(1) have jz: "j = 0" by (simp split: if_splits)
  define w' where "w' = \<lparr>cache = finish_load ''bge'' ?c, callers = ?ks(0 := Raised ''bge'')\<rparr>"
  have "cache_step \<lparr>cache = ?c, callers = ?ks\<rparr> w'"
    unfolding w'_def by (rule load_failed [where ev = 0]) simp
  then have step: "cache_step loading_run w'" by simp
  have "busy (callers w' 0) = None" by (simp add: w'_def)
  with step j(2) jz w show ?thesis by blast
qed

text \<open>
  The cache keeps its promises in every reachable state: at most \<open>max_size\<close> entries besides the pinned
  ones, every pinned entry present, each name bound once and to an embedder of that very model, and a
  caller that got an embedder got one of the model it asked for.
\<close>

lemma cache_contents:
  assumes "reachable cache_start cache_step w"
  shows "int (length (unpinned (cache w))) \<le> max 0 (max_size (cache w)) \<and>
    set (pinned (cache w)) \<subseteq> set (cached_models (cache w)) \<and> distinct (cached_models (cache w)) \<and>
    (\<forall>k e. dict_get (ecache (cache w)) k = Some e \<longrightarrow> emb_model e = k) \<and>
    (\<forall>i k e. callers w i = Returned k e \<longrightarrow> emb_model e = k)"
proof -
  have inv: "store_ok (cache w)" "crew_ok (loading (cache w)) (fired (cache w)) (callers w)"
    using ecm.inv_reachable [OF assms] by (auto simp: cache_inv_def)
  have "emb_model e = k" if "callers w i = Returned k e" for i k e
    using crew_holds [OF inv(2), of i k e] that by simp
  then show ?thesis
    using inv(1) by (auto simp: store_ok_def cached_models_def dict_ok_def dict_keys_def dest: dict_get_SomeD)
qed

theorem cache_contents_witness:
  "int (length (unpinned (cache loading_run))) \<le> max 0 (max_size (cache loading_run)) \<and>
    distinct (cached_models (cache loading_run))"
  using cache_contents [OF loading_run_reachable] by blast

text \<open>
  Storing a loaded embedder is least-recently-used eviction: the unpinned names, oldest first, lose the
  loaded name from its old place, gain it at the end, and are cut to the newest \<open>max_size\<close> of them; no other
  entry changes.
\<close>

lemma store_loaded_is_lru:
  assumes "dict_ok (ecache c)" and "m \<notin> set (pinned c)"
  shows "unpinned (store_loaded m e c) =
      (let order = filter (\<lambda>n. n \<noteq> m) (unpinned c) @ [m]
       in drop (nat (int (length order) - max_size c)) order) \<and>
    (0 < max_size c \<longrightarrow> dict_get (ecache (store_loaded m e c)) m = Some e) \<and>
    (\<forall>n \<in> set (pinned c). dict_get (ecache (store_loaded m e c)) n = dict_get (ecache c) n)"
proof -
  let ?d = "move_to_end m (dict_set m e (ecache c))" and ?c = "c\<lparr>ecache := move_to_end m (dict_set m e (ecache c))\<rparr>"
  let ?order = "filter (\<lambda>n. n \<noteq> m) (unpinned c) @ [m]"
  have keys: "filter (\<lambda>x. x \<noteq> m) (dict_keys (dict_set m e (ecache c))) = filter (\<lambda>x. x \<noteq> m) (dict_keys (ecache c))"
    by (cases "dict_get (ecache c) m") (auto simp: dict_set_new dict_keys_set_old, simp add: dict_keys_def)
  have order: "unpinned ?c = ?order"
    using assms(2) by (simp add: unpinned_def move_to_end_keys keys conj_commute del: filter_filter) (simp add: conj_commute)
  have ok: "dict_ok (ecache ?c)" using assms(1) by (simp add: move_to_end_ok dict_ok_set)
  have get: "dict_get ?d n = (if n = m then Some e else dict_get (ecache c) n)" for n
    by (simp add: move_to_end_def dict_get_def dict_del_def dict_set_def map_add_def delete_conv' update_conv'
      split: option.split)
  have lookup: "dict_get (ecache (store_loaded m e c)) n = (if n \<in> set (lru_victims ?c) then None else dict_get ?d n)" for n
    by (simp add: store_loaded_def evict_lru_def adict.get_fold_del)
  have dist: "distinct ?order" using assms(1) by (simp add: unpinned_def dict_ok_def dict_keys_def)
  have "m \<notin> set (lru_victims ?c)" if "0 < max_size c"
  proof -
    have "lru_victims ?c = take (nat (max 0 (int (length ?order) - max_size c))) (filter (\<lambda>n. n \<noteq> m) (unpinned c))"
      using that by (simp add: lru_victims_def order)
    then show ?thesis by (auto dest!: in_set_takeD)
  qed
  moreover have "n \<notin> set (lru_victims ?c)" if "n \<in> set (pinned c)" for n
    using that by (auto simp: lru_victims_def unpinned_def dest!: in_set_takeD)
  moreover have "unpinned (store_loaded m e c) = drop (nat (int (length ?order) - max_size c)) ?order"
    using evict_lru_unpinned [OF ok] unfolding store_loaded_def order nat_max_zero by simp
  ultimately show ?thesis using assms(2) by (auto simp: Let_def lookup get)
qed


theorem store_loaded_is_lru_witness:
  "unpinned (store_loaded ''c'' \<lparr>emb_model = ''c'', emb_id = 3\<rparr>
      (new_cache 2 []\<lparr>ecache := [(''a'', \<lparr>emb_model = ''a'', emb_id = 1\<rparr>), (''b'', \<lparr>emb_model = ''b'', emb_id = 2\<rparr>)]\<rparr>))
    = [''b'', ''c'']"
  using store_loaded_is_lru [of "new_cache 2 []\<lparr>ecache := [(''a'', \<lparr>emb_model = ''a'', emb_id = 1\<rparr>), (''b'', \<lparr>emb_model = ''b'', emb_id = 2\<rparr>)]\<rparr>"
      "''c''" "\<lparr>emb_model = ''c'', emb_id = 3\<rparr>"]
  by (simp add: new_cache_def dict_ok_def unpinned_def dict_keys_def)

end
