(* ===== verification/Path_Safety.thy ===== *)
theory Path_Safety
  imports Store_Filters
begin

text \<open>
  \<open>archon_search/_path_safety.py\<close>: which paths, globs and archives the server accepts from a client.

  The file system is a parameter: \<open>file_system\<close> holds the answers of the calls the code makes (\<open>resolve\<close>, \<open>stat\<close>,
  \<open>lstat\<close>, \<open>open\<close>, \<open>scandir\<close>, the home directory), each with its failures. A resolved path is the list of its
  components below the root, so \<open>(resolved, *resolved.parents)\<close> are its prefixes, longest first.
\<close>

datatype path_reason =
    Empty | Whitespace_only | Nul_byte | Not_absolute | Contains_dotdot | Outside_allowed_dirs
  | Unsafe_tar_member | Denied_location | Outside_allowed_roots | Allowed_roots_required | Symlink_path
  | Glob_empty | Glob_too_long | Glob_absolute | Glob_too_recursive

text \<open>\<open>Path.expanduser\<close> raises \<open>RuntimeError\<close> when the home directory of a named user is unknown.\<close>

datatype path_error = Path_unsafe path_reason | Runtime_error

type_synonym abs_path = "string list"
type_synonym identity = "nat \<times> nat"

record pypath =
  rooted :: bool
  comps :: "string list"

datatype file_kind = Regular | Directory | Other_kind

record stat_info =
  st_kind :: file_kind
  st_nlink :: nat
  st_identity :: identity

datatype 'a os_result = Os_ok 'a | Os_missing | Os_error

text \<open>\<open>os.open\<close> of a key file: missing or a directory, refused, or opened with what \<open>fstat\<close> and \<open>read\<close> then give.\<close>

datatype open_result =
    Open_nothing
  | Open_error
  | Opened "file_kind option" "string option"

record file_system =
  fs_home :: "string \<Rightarrow> pypath option"
  fs_resolve :: "abs_path \<Rightarrow> abs_path"
  fs_stat :: "abs_path \<Rightarrow> stat_info option"
  fs_lstat :: "abs_path \<Rightarrow> stat_info os_result"
  fs_open :: "abs_path \<Rightarrow> open_result"
  fs_scandir :: "abs_path \<Rightarrow> string list option"
  fs_islink :: "pypath \<Rightarrow> bool option"
  fs_isdir :: "pypath \<Rightarrow> bool option"

section \<open>Raw paths\<close>

text \<open>\<open>Path(raw)\<close>: empty and \<open>.\<close> components are dropped.\<close>

definition parse_path :: "string \<Rightarrow> pypath" where
  "parse_path raw =
     \<lparr>rooted = py_startswith raw ''/'', comps = filter (\<lambda>c. c \<noteq> [] \<and> c \<noteq> ''.'') (py_split (CHR ''/'') raw)\<rparr>"

definition expanduser :: "file_system \<Rightarrow> pypath \<Rightarrow> pypath option" where
  "expanduser fs p =
     (case comps p of
        (CHR ''~'' # user) # rest \<Rightarrow>
          (if rooted p then Some p
           else case fs_home fs (CHR ''~'' # user) of
                  None \<Rightarrow> None
                | Some h \<Rightarrow> Some \<lparr>rooted = rooted h, comps = comps h @ rest\<rparr>)
      | _ \<Rightarrow> Some p)"

definition validate_ingest_path :: "file_system \<Rightarrow> string \<Rightarrow> path_error + abs_path" where
  "validate_ingest_path fs raw =
     (if raw = [] then Inl (Path_unsafe Empty)
      else if py_strip raw = [] then Inl (Path_unsafe Whitespace_only)
      else if CHR 0x00 \<in> set raw then Inl (Path_unsafe Nul_byte)
      else case expanduser fs (parse_path raw) of
             None \<Rightarrow> Inl Runtime_error
           | Some expanded \<Rightarrow>
               (if \<not> rooted expanded then Inl (Path_unsafe Not_absolute)
                else if ''..'' \<in> set (comps (parse_path raw)) then Inl (Path_unsafe Contains_dotdot)
                else Inr (fs_resolve fs (comps expanded))))"

section \<open>What is never ingested\<close>

definition system_deny_dirs :: "abs_path list" where
  "system_deny_dirs =
     [[''proc''], [''sys''], [''dev''], [''root''], [''var'', ''root''], [''etc'', ''ssl'', ''private''],
      [''etc'', ''sudoers.d'']]"

definition system_deny_files :: "abs_path list" where
  "system_deny_files =
     [[''etc'', ''passwd''], [''etc'', ''shadow''], [''etc'', ''gshadow''], [''etc'', ''master.passwd''],
      [''etc'', ''sudoers''], [''etc'', ''security'', ''opasswd'']]"

definition secret_dir_sequences :: "string list list" where
  "secret_dir_sequences =
     [[''.ssh''], [''.aws''], [''.gnupg''], [''.kube''], [''.docker''], [''.azure''], [''.gcloud''], [''.oci''],
      [''.password-store''],
      [''.config'', ''gcloud''], [''.config'', ''gh''], [''.config'', ''rclone''], [''.config'', ''doctl''],
      [''.mozilla''], [''.config'', ''google-chrome''], [''.config'', ''chromium''],
      [''.config'', ''microsoft-edge''], [''.config'', ''bravesoftware''],
      [''library'', ''keychains''],
      [''library'', ''application support'', ''google'', ''chrome''],
      [''library'', ''application support'', ''firefox''],
      [''library'', ''application support'', ''microsoft edge''],
      [''library'', ''application support'', ''bravesoftware''],
      [''library'', ''safari'']]"

definition secret_file_patterns :: "string list" where
  "secret_file_patterns =
     [''id_*'', ''*_rsa*'',
      ''.env'', ''.env.*'', ''*.pem'', ''*.p12'', ''*.pfx'', ''*.keystore'', ''*.jks'',
      ''.netrc'', ''_netrc'', ''.npmrc'', ''.pypirc'', ''.git-credentials'', ''.pgpass'', ''.dockercfg'', ''.s3cfg'',
      ''.vault-token'', ''.search.env'', ''.secrets.env'', ''keys.json'']"

definition key_file_suffix :: string where
  "key_file_suffix = ''.key''"

definition pem_armour_prefix :: string where
  "pem_armour_prefix = ''-----BEGIN''"

definition pem_probe_bytes :: nat where
  "pem_probe_bytes = 128"

text \<open>
  \<open>str.casefold\<close> on Latin-1 text: lower case, and sharp s becomes two letters. (The micro sign folds to a Greek
  letter outside Latin-1; it stays itself here, which no ASCII pattern can tell apart.)
\<close>

definition casefold :: "string \<Rightarrow> string" where
  "casefold s = concat (map (\<lambda>c. if ord c = 223 then ''ss'' else [py_lower_char c]) s)"

text \<open>\<open>fnmatch.fnmatchcase\<close> for the patterns above, whose only special character is \<open>*\<close>.\<close>

fun fnmatch_star :: "string \<Rightarrow> string \<Rightarrow> bool" where
  "fnmatch_star [] s \<longleftrightarrow> s = []"
| "fnmatch_star (CHR ''*'' # p) [] \<longleftrightarrow> fnmatch_star p []"
| "fnmatch_star (CHR ''*'' # p) (c # s) \<longleftrightarrow> fnmatch_star p (c # s) \<or> fnmatch_star (CHR ''*'' # p) s"
| "fnmatch_star (q # p) [] \<longleftrightarrow> False"
| "fnmatch_star (q # p) (c # s) \<longleftrightarrow> q = c \<and> fnmatch_star p s"

definition is_secret_name :: "string \<Rightarrow> bool" where
  "is_secret_name name \<longleftrightarrow> (\<exists>p \<in> set secret_file_patterns. fnmatch_star p (casefold name))"

definition has_secret_directory :: "string list \<Rightarrow> bool" where
  "has_secret_directory parts \<longleftrightarrow>
     (let folded = map casefold parts
      in \<exists>sequence \<in> set secret_dir_sequences.
           \<exists>start \<in> set [0..<Suc (length folded) - length sequence].
             take (length sequence) (drop start folded) = sequence)"

definition path_name :: "abs_path \<Rightarrow> string" where
  "path_name p = (if p = [] then [] else last p)"

text \<open>\<open>Path.suffix\<close>: from the last dot on, unless that dot is the first or the last character.\<close>

definition path_suffix :: "string \<Rightarrow> string" where
  "path_suffix name =
     (let tail = takeWhile (\<lambda>c. c \<noteq> CHR ''.'') (rev name)
      in if length tail = length name \<or> Suc (length tail) = length name \<or> tail = [] then []
         else CHR ''.'' # rev tail)"

text \<open>\<open>bytes.lstrip\<close>: the six ASCII white-space bytes.\<close>

definition bytes_lstrip :: "string \<Rightarrow> string" where
  "bytes_lstrip b = dropWhile (\<lambda>c. ord c = 32 \<or> 9 \<le> ord c \<and> ord c \<le> 13) b"

definition is_pem_key_file :: "file_system \<Rightarrow> abs_path \<Rightarrow> bool" where
  "is_pem_key_file fs path \<longleftrightarrow>
     (if casefold (path_suffix (path_name path)) \<noteq> key_file_suffix then False
      else case fs_open fs path of
             Open_nothing \<Rightarrow> False
           | Open_error \<Rightarrow> True
           | Opened None _ \<Rightarrow> True
           | Opened (Some Directory) _ \<Rightarrow> False
           | Opened (Some Other_kind) _ \<Rightarrow> True
           | Opened (Some Regular) None \<Rightarrow> True
           | Opened (Some Regular) (Some content) \<Rightarrow>
               py_startswith (bytes_lstrip (take pem_probe_bytes content)) pem_armour_prefix)"

section \<open>Hard links\<close>

type_synonym directory_cache = "(abs_path, identity list option) dict"

text \<open>The loop over the entries of a directory; \<open>None\<close> is the \<open>OSError\<close> that makes the listing unusable.\<close>

fun secret_entries :: "file_system \<Rightarrow> abs_path \<Rightarrow> string list \<Rightarrow> identity list option" where
  "secret_entries fs dir [] = Some []"
| "secret_entries fs dir (name # names) =
     (if \<not> (is_secret_name name \<or> py_endswith (casefold name) key_file_suffix) then secret_entries fs dir names
      else case fs_lstat fs (dir @ [name]) of
             Os_missing \<Rightarrow> secret_entries fs dir names
           | Os_error \<Rightarrow> None
           | Os_ok info \<Rightarrow>
               (if st_kind info = Regular \<and> (is_secret_name name \<or> is_pem_key_file fs (dir @ [name]))
                then map_option ((#) (st_identity info)) (secret_entries fs dir names)
                else secret_entries fs dir names))"

definition secret_identities :: "file_system \<Rightarrow> abs_path \<Rightarrow> identity list option" where
  "secret_identities fs dir =
     (case fs_scandir fs dir of None \<Rightarrow> None | Some names \<Rightarrow> secret_entries fs dir names)"

definition listed_identities ::
    "file_system \<Rightarrow> abs_path \<Rightarrow> directory_cache option \<Rightarrow> identity list option \<times> directory_cache option" where
  "listed_identities fs dir cache =
     (case cache of
        None \<Rightarrow> (secret_identities fs dir, None)
      | Some d \<Rightarrow>
          (case dict_get d dir of
             Some ids \<Rightarrow> (ids, cache)
           | None \<Rightarrow> (secret_identities fs dir, Some (dict_set dir (secret_identities fs dir) d))))"

definition has_secret_named_hard_link ::
    "file_system \<Rightarrow> abs_path \<Rightarrow> directory_cache option \<Rightarrow> bool \<times> directory_cache option" where
  "has_secret_named_hard_link fs path cache =
     (case fs_stat fs path of
        None \<Rightarrow> (False, cache)
      | Some info \<Rightarrow>
          (if st_kind info \<noteq> Regular \<or> st_nlink info \<le> 1 then (False, cache)
           else case listed_identities fs (butlast path) cache of
                  (None, cache') \<Rightarrow> (True, cache')
                | (Some ids, cache') \<Rightarrow> (st_identity info \<in> set ids, cache')))"

section \<open>The policy\<close>

record path_policy =
  deny_roots :: "abs_path list"
  deny_files :: "abs_path list"
  allowed_roots :: "abs_path list"

definition file_identity :: "file_system \<Rightarrow> abs_path \<Rightarrow> identity option" where
  "file_identity fs p = map_option st_identity (fs_stat fs p)"

definition identities :: "file_system \<Rightarrow> abs_path list \<Rightarrow> identity list" where
  "identities fs ps = List.map_filter (file_identity fs) ps"

text \<open>\<open>(path, *path.parents)\<close>.\<close>

definition self_and_parents :: "abs_path \<Rightarrow> abs_path list" where
  "self_and_parents p = map (\<lambda>n. take n p) (rev [0..<Suc (length p)])"

definition any_identity_in :: "file_system \<Rightarrow> abs_path \<Rightarrow> abs_path list \<Rightarrow> bool" where
  "any_identity_in fs p roots \<longleftrightarrow>
     (\<exists>i \<in> set (identities fs (self_and_parents p)). i \<in> set (identities fs roots))"

definition check_secrets ::
    "file_system \<Rightarrow> path_policy \<Rightarrow> bool \<Rightarrow> directory_cache option \<Rightarrow> abs_path \<Rightarrow>
     path_reason option \<times> directory_cache option" where
  "check_secrets fs pol probe_content cache path =
     (let resolved = fs_resolve fs path
      in if has_secret_directory resolved then (Some Denied_location, cache)
         else if is_secret_name (path_name resolved) \<or> probe_content \<and> is_pem_key_file fs resolved
         then (Some Denied_location, cache)
         else
           (let (linked, cache') =
                  (if probe_content then has_secret_named_hard_link fs resolved cache else (False, cache))
            in if linked then (Some Denied_location, cache')
               else if any_identity_in fs resolved (deny_roots pol @ system_deny_dirs)
               then (Some Denied_location, cache')
               else (case file_identity fs resolved of
                       None \<Rightarrow> (None, cache')
                     | Some target \<Rightarrow>
                         (if target \<in> set (identities fs (deny_files pol @ system_deny_files))
                          then (Some Denied_location, cache') else (None, cache')))))"

definition check_scope :: "file_system \<Rightarrow> path_policy \<Rightarrow> abs_path \<Rightarrow> path_reason option" where
  "check_scope fs pol path =
     (if allowed_roots pol = [] then None
      else if any_identity_in fs (fs_resolve fs path) (allowed_roots pol) then None
      else Some Outside_allowed_roots)"

definition check_client_path :: "file_system \<Rightarrow> path_policy \<Rightarrow> bool \<Rightarrow> abs_path \<Rightarrow> path_reason option" where
  "check_client_path fs pol admin path =
     (if \<not> admin \<and> allowed_roots pol = [] then
        (case fst (check_secrets fs pol False None path) of
           Some r \<Rightarrow> Some r
         | None \<Rightarrow> Some Allowed_roots_required)
      else
        (case check_scope fs pol path of
           Some r \<Rightarrow> Some r
         | None \<Rightarrow> fst (check_secrets fs pol True None path)))"

definition is_file_symlink :: "file_system \<Rightarrow> pypath \<Rightarrow> bool" where
  "is_file_symlink fs p =
     (case fs_islink fs p of
        Some True \<Rightarrow> (case fs_isdir fs p of Some d \<Rightarrow> \<not> d | None \<Rightarrow> False)
      | _ \<Rightarrow> False)"

definition validate_ingest_source :: "file_system \<Rightarrow> path_policy \<Rightarrow> bool \<Rightarrow> string \<Rightarrow> path_error + abs_path" where
  "validate_ingest_source fs pol admin raw =
     (case validate_ingest_path fs raw of
        Inl e \<Rightarrow> Inl e
      | Inr resolved \<Rightarrow>
          (case check_client_path fs pol admin resolved of
             Some r \<Rightarrow> Inl (Path_unsafe r)
           | None \<Rightarrow>
               (case expanduser fs (parse_path raw) of
                  None \<Rightarrow> Inl Runtime_error
                | Some expanded \<Rightarrow>
                    (if is_file_symlink fs expanded then Inl (Path_unsafe Symlink_path) else Inr resolved))))"

section \<open>Globs, export paths and archives\<close>

definition max_glob_pattern_length :: nat where
  "max_glob_pattern_length = 256"

definition max_glob_recursive_segments :: nat where
  "max_glob_recursive_segments = 4"

definition validate_glob_pattern :: "string \<Rightarrow> path_reason + string" where
  "validate_glob_pattern pattern =
     (if py_strip pattern = [] then Inl Glob_empty
      else if length pattern > max_glob_pattern_length then Inl Glob_too_long
      else if CHR 0x00 \<in> set pattern then Inl Nul_byte
      else if py_startswith pattern ''/'' \<or> py_startswith pattern [backslash] then Inl Glob_absolute
      else
        (let parts = py_split (CHR ''/'') (replace_char backslash ''/'' pattern)
         in if ''..'' \<in> set parts then Inl Contains_dotdot
            else if count_list parts ''**'' > max_glob_recursive_segments then Inl Glob_too_recursive
            else Inr pattern))"

text \<open>\<open>Path.is_relative_to\<close> on resolved paths.\<close>

definition is_relative_to :: "abs_path \<Rightarrow> abs_path \<Rightarrow> bool" where
  "is_relative_to p base \<longleftrightarrow> take (length base) p = base"

definition validate_export_path :: "file_system \<Rightarrow> string \<Rightarrow> abs_path list \<Rightarrow> path_error + abs_path" where
  "validate_export_path fs raw allowed_base_dirs =
     (case validate_ingest_path fs raw of
        Inl e \<Rightarrow> Inl e
      | Inr resolved \<Rightarrow>
          (if \<exists>allowed \<in> set allowed_base_dirs. is_relative_to resolved (fs_resolve fs allowed) then Inr resolved
           else Inl (Path_unsafe Outside_allowed_dirs)))"

definition allowed_archive_members :: "string list" where
  "allowed_archive_members = [''manifest.json'', ''documents.jsonl'']"

fun scan_members :: "string list \<Rightarrow> string list \<Rightarrow> string list option" where
  "scan_members [] seen = Some seen"
| "scan_members (name # names) seen =
     (if py_startswith name ''/'' then None
      else if ''..'' \<in> set (py_split (CHR ''/'') name) then None
      else if name \<notin> set allowed_archive_members then None
      else scan_members names (List.insert name seen))"

definition validate_archive_members :: "string list \<Rightarrow> path_reason option" where
  "validate_archive_members names =
     (case scan_members names [] of
        None \<Rightarrow> Some Unsafe_tar_member
      | Some seen \<Rightarrow>
          (if set seen = set allowed_archive_members then None else Some Unsafe_tar_member))"

end
