(* ===== verification/Discovery.thy ===== *)
theory Discovery
  imports Path_Safety
begin

text \<open>
  \<open>_discover_ingest_files\<close> of \<open>archon_search/pipeline.py\<close>: which files of a directory an ingest indexes.

  What \<open>os.walk\<close> meets is a \<open>dir_tree\<close>: the file names of a directory and its subdirectories in listing order
  (\<open>os.walk\<close> does not descend into symbolic links, so a linked directory has an empty tree). The tests on a single
  path are in \<open>walk_env\<close>, with the one-component matcher \<open>fnmatch.fnmatch\<close>. Nothing in the walk changes the file system,
  so listing all directories first and then visiting their files is the order the code has.
\<close>

datatype dir_tree = Dir "string list" "(string \<times> dir_tree) list"

record walk_env =
  wfs :: file_system
  fnm :: "string \<Rightarrow> string \<Rightarrow> bool"
  is_symlink :: "abs_path \<Rightarrow> bool"
  is_file :: "abs_path \<Rightarrow> bool"

definition binary_extensions :: "string list" where
  "binary_extensions =
     [''.pyc'', ''.pyo'', ''.so'', ''.dll'', ''.exe'', ''.bin'', ''.o'', ''.a'', ''.lib'', ''.whl'', ''.egg'', ''.class'',
      ''.ico'', ''.mp3'', ''.mp4'', ''.wav'', ''.avi'', ''.mov'', ''.mkv'',
      ''.zip'', ''.tar'', ''.gz'', ''.bz2'', ''.7z'', ''.rar'',
      ''.db'', ''.sqlite'', ''.pkl'', ''.npy'', ''.npz'', ''.h5'', ''.hdf5'',
      ''.parquet'', ''.feather'', ''.wasm'', ''.dat'', ''.lance'']"

definition pruned_directory_names :: "string list" where
  "pruned_directory_names = [''node_modules'', ''__pycache__'', ''venv'', ''site-packages'']"

definition denied_directory_probe_name :: string where
  "denied_directory_probe_name = ''probe''"

definition recursive_glob_segment :: string where
  "recursive_glob_segment = ''**''"

fun matches_glob :: "(string \<Rightarrow> string \<Rightarrow> bool) \<Rightarrow> string list \<Rightarrow> string list \<Rightarrow> bool" where
  "matches_glob m parts [] \<longleftrightarrow> parts = []"
| "matches_glob m parts (head # rest) \<longleftrightarrow>
     (if head = recursive_glob_segment then
        (if rest = [] then parts \<noteq> []
         else \<exists>skipped \<in> set [0..<length parts]. matches_glob m (drop skipped parts) rest)
      else case parts of [] \<Rightarrow> False | p # ps \<Rightarrow> m p head \<and> matches_glob m ps rest)"

definition is_walked_directory :: "file_system \<Rightarrow> path_policy \<Rightarrow> abs_path \<Rightarrow> bool" where
  "is_walked_directory fs pol path \<longleftrightarrow>
     (if \<not> py_startswith (path_name path) ''.'' then True
      else fst (check_secrets fs pol True None (path @ [denied_directory_probe_name])) \<noteq> None)"

definition descends :: "file_system \<Rightarrow> path_policy \<Rightarrow> abs_path \<Rightarrow> bool" where
  "descends fs pol path \<longleftrightarrow>
     path_name path \<notin> set pruned_directory_names \<and> is_walked_directory fs pol path"

fun os_walk :: "(abs_path \<Rightarrow> bool) \<Rightarrow> abs_path \<Rightarrow> dir_tree \<Rightarrow> (abs_path \<times> string list) list" where
  "os_walk keep dir (Dir names subs) =
     (dir, names) #
     concat (map (\<lambda>(n, t). if keep (dir @ [n]) then os_walk keep (dir @ [n]) t else []) subs)"

record walk_state =
  found :: "abs_path list"
  denied :: nat
  listings_seen :: "directory_cache option"

definition is_hidden :: "string list \<Rightarrow> bool" where
  "is_hidden parts \<longleftrightarrow> (\<exists>part \<in> set parts. py_startswith part ''.'')"

definition skipped_type :: "string \<Rightarrow> bool" where
  "skipped_type name \<longleftrightarrow> py_lower (path_suffix name) \<in> set binary_extensions \<or> py_endswith name ''.acl''"

text \<open>The body of the inner loop; \<open>Inl\<close> is \<open>IngestTooManyFilesError\<close>.\<close>

definition visit_file ::
    "walk_env \<Rightarrow> path_policy \<Rightarrow> string list \<Rightarrow> int \<Rightarrow> abs_path \<Rightarrow> abs_path \<times> string \<Rightarrow> walk_state \<Rightarrow> int + walk_state" where
  "visit_file env pol segments max_files root entry st =
     (case entry of (dir, name) \<Rightarrow>
        let parts = drop (length root) dir @ [name]; path = dir @ [name]
        in if \<not> matches_glob (fnm env) parts segments then Inr st
           else if is_symlink env path \<or> \<not> is_file env path then Inr st
           else if skipped_type name then Inr st
           else
             (case check_secrets (wfs env) pol True (listings_seen st) path of
                (Some _, c) \<Rightarrow> Inr (st\<lparr>denied := Suc (denied st), listings_seen := c\<rparr>)
              | (None, c) \<Rightarrow>
                  (if is_hidden parts then Inr (st\<lparr>listings_seen := c\<rparr>)
                   else if int (length (found st)) = max_files then Inl max_files
                   else Inr (st\<lparr>found := found st @ [path], listings_seen := c\<rparr>))))"

fun visit_files ::
    "walk_env \<Rightarrow> path_policy \<Rightarrow> string list \<Rightarrow> int \<Rightarrow> abs_path \<Rightarrow> (abs_path \<times> string) list \<Rightarrow> walk_state \<Rightarrow>
     int + walk_state" where
  "visit_files env pol segments max_files root [] st = Inr st"
| "visit_files env pol segments max_files root (e # es) st =
     (case visit_file env pol segments max_files root e st of
        Inl m \<Rightarrow> Inl m
      | Inr st' \<Rightarrow> visit_files env pol segments max_files root es st')"

definition walk_entries :: "file_system \<Rightarrow> path_policy \<Rightarrow> abs_path \<Rightarrow> dir_tree \<Rightarrow> (abs_path \<times> string) list" where
  "walk_entries fs pol root tree =
     concat (map (\<lambda>(dir, names). map (Pair dir) names) (os_walk (descends fs pol) root tree))"

text \<open>\<open>files.sort()\<close> compares paths component by component.\<close>

definition discover_ingest_files ::
    "walk_env \<Rightarrow> path_policy \<Rightarrow> int \<Rightarrow> abs_path \<Rightarrow> string \<Rightarrow> dir_tree \<Rightarrow> int + abs_path list" where
  "discover_ingest_files env pol max_files root glob_pattern tree =
     (case visit_files env pol (py_split (CHR ''/'') glob_pattern) max_files root (walk_entries (wfs env) pol root tree)
             \<lparr>found = [], denied = 0, listings_seen = Some []\<rparr> of
        Inl m \<Rightarrow> Inl m
      | Inr st \<Rightarrow> Inr (sort (found st)))"

end
