(* ===== verification/Path_Properties.thy ===== *)
theory Path_Properties
  imports Path_Safety
begin

text \<open>
  What the path policy guarantees: an accepted client path is confined, the checks made before the path is known to
  be in scope never read file contents or directory listings, an accepted archive holds exactly its two members;
  and that a directory listing shared by several checks changes no verdict.
\<close>

section \<open>Identities along a path\<close>

text \<open>A path lies in a root when it or one of its ancestors is the same file as the root.\<close>

definition lies_in :: "file_system \<Rightarrow> abs_path \<Rightarrow> abs_path \<Rightarrow> bool" where
  "lies_in fs p root \<longleftrightarrow>
     (\<exists>q i. prefix q p \<and> file_identity fs q = Some i \<and> file_identity fs root = Some i)"

lemma identities_iff: "i \<in> set (identities fs ps) \<longleftrightarrow> (\<exists>p \<in> set ps. file_identity fs p = Some i)"
  by (induction ps) (auto simp: identities_def map_filter_simps split: option.splits)

lemma self_and_parents_iff: "q \<in> set (self_and_parents p) \<longleftrightarrow> prefix q p"
proof
  assume "prefix q p"
  then have "q = take (length q) p" and "length q < Suc (length p)"
    by (auto simp: prefix_def)
  then show "q \<in> set (self_and_parents p)" unfolding self_and_parents_def by (metis (no_types, lifting)
      atLeastLessThan_iff image_eqI set_map set_rev set_upt zero_le)
qed (auto simp: self_and_parents_def take_is_prefix)

lemma any_identity_in_iff: "any_identity_in fs p roots \<longleftrightarrow> (\<exists>r \<in> set roots. lies_in fs p r)"
  unfolding any_identity_in_def lies_in_def Bex_def identities_iff self_and_parents_iff by blast

section \<open>The listing cache\<close>

definition cache_faithful :: "file_system \<Rightarrow> directory_cache option \<Rightarrow> bool" where
  "cache_faithful fs cache \<longleftrightarrow>
     (\<forall>d dir ids. cache = Some d \<longrightarrow> dict_get d dir = Some ids \<longrightarrow> ids = secret_identities fs dir)"

lemma listed_identities_faithful:
  "cache_faithful fs cache \<Longrightarrow>
   fst (listed_identities fs dir cache) = secret_identities fs dir \<and>
   cache_faithful fs (snd (listed_identities fs dir cache))"
  by (auto simp: listed_identities_def cache_faithful_def split: option.splits if_splits)

lemma hard_link_faithful:
  assumes "cache_faithful fs cache"
  shows "fst (has_secret_named_hard_link fs p cache) = fst (has_secret_named_hard_link fs p None) \<and>
    cache_faithful fs (snd (has_secret_named_hard_link fs p cache))"
proof -
  obtain c where c: "listed_identities fs (butlast p) cache = (secret_identities fs (butlast p), c)" "cache_faithful fs c"
    using listed_identities_faithful [OF assms, of "butlast p"] by (metis prod.collapse)
  have n: "listed_identities fs (butlast p) None = (secret_identities fs (butlast p), None)"
    by (simp add: listed_identities_def)
  show ?thesis
    using assms c(2) by (simp add: has_secret_named_hard_link_def c(1) n split: option.split)
qed

lemma check_secrets_faithful:
  assumes "cache_faithful fs cache"
  shows "fst (check_secrets fs pol probe cache p) = fst (check_secrets fs pol probe None p) \<and>
    cache_faithful fs (snd (check_secrets fs pol probe cache p))"
  using assms hard_link_faithful [OF assms, of "fs_resolve fs p"]
  by (auto simp: check_secrets_def Let_def split: option.splits prod.splits)

section \<open>What a passed check means\<close>

lemma secret_entries_complete:
  "secret_entries fs dir names = Some ids \<Longrightarrow> name \<in> set names \<Longrightarrow> is_secret_name name \<Longrightarrow>
   fs_lstat fs (dir @ [name]) = Os_ok info \<Longrightarrow> st_kind info = Regular \<Longrightarrow> st_identity info \<in> set ids"
proof (induction names arbitrary: ids)
  case (Cons n names)
  show ?case
  proof (cases "n = name")
    case True
    with Cons.prems show ?thesis by auto
  next
    case False
    with Cons.prems(2) have "name \<in> set names" by simp
    note ih = Cons.IH [OF _ this Cons.prems(3-5)]
    show ?thesis using Cons.prems(1) ih by (auto split: if_splits os_result.splits)
  qed
qed simp

lemma no_hard_link_to_secret:
  assumes "\<not> fst (has_secret_named_hard_link fs q None)" and "fs_stat fs q = Some info"
    and "st_kind info = Regular" and "1 < st_nlink info"
  shows "\<exists>names. fs_scandir fs (butlast q) = Some names \<and>
    (\<forall>name other. name \<in> set names \<longrightarrow> is_secret_name name \<longrightarrow> fs_lstat fs (butlast q @ [name]) = Os_ok other \<longrightarrow>
       st_kind other = Regular \<longrightarrow> st_identity other \<noteq> st_identity info)"
proof -
  obtain ids where ids: "secret_identities fs (butlast q) = Some ids" "st_identity info \<notin> set ids"
    using assms by (auto simp: has_secret_named_hard_link_def listed_identities_def split: option.splits)
  then obtain names where "fs_scandir fs (butlast q) = Some names" "secret_entries fs (butlast q) names = Some ids"
    by (auto simp: secret_identities_def split: option.splits)
  with ids(2) secret_entries_complete [of fs "butlast q" names ids] show ?thesis by metis
qed

lemma check_secrets_passed:
  assumes "fst (check_secrets fs pol True cache p) = None"
  defines "q \<equiv> fs_resolve fs p"
  shows "\<not> has_secret_directory q" "\<not> is_secret_name (path_name q)" "\<not> is_pem_key_file fs q"
    "\<not> fst (has_secret_named_hard_link fs q cache)"
    "\<forall>r \<in> set (deny_roots pol @ system_deny_dirs). \<not> lies_in fs q r"
    "\<forall>r \<in> set (deny_files pol @ system_deny_files). \<forall>i. file_identity fs q = Some i \<longrightarrow> file_identity fs r \<noteq> Some i"
proof -
  obtain b c where l: "has_secret_named_hard_link fs q cache = (b, c)" by fastforce
  note u = assms(1) [unfolded check_secrets_def Let_def, folded q_def, unfolded l any_identity_in_iff]
  show "\<not> has_secret_directory q" "\<not> is_secret_name (path_name q)" "\<not> is_pem_key_file fs q"
    "\<not> fst (has_secret_named_hard_link fs q cache)"
    using u l by (auto split: if_splits)
  show "\<forall>r \<in> set (deny_roots pol @ system_deny_dirs). \<not> lies_in fs q r"
    using u by (auto split: if_splits)
  show "\<forall>r \<in> set (deny_files pol @ system_deny_files). \<forall>i. file_identity fs q = Some i \<longrightarrow> file_identity fs r \<noteq> Some i"
    using u by (fastforce simp: identities_iff split: if_splits option.splits)
qed

lemma validate_ingest_path_passed:
  assumes "validate_ingest_path fs raw = Inr p"
  shows "CHR 0x00 \<notin> set raw" and "''..'' \<notin> set (comps (parse_path raw))"
    and "\<exists>e. expanduser fs (parse_path raw) = Some e \<and> rooted e \<and> p = fs_resolve fs (comps e)"
  using assms by (auto simp: validate_ingest_path_def split: if_splits option.splits)

lemma check_client_path_passed:
  assumes "check_client_path fs pol admin p = None"
  shows "admin \<or> allowed_roots pol \<noteq> []"
    and "allowed_roots pol = [] \<or> (\<exists>r \<in> set (allowed_roots pol). lies_in fs (fs_resolve fs p) r)"
    and "fst (check_secrets fs pol True None p) = None"
  using assms
  by (auto simp: check_client_path_def check_scope_def any_identity_in_iff split: if_splits option.splits)

lemma unscoped_checks_agree:
  assumes "fs_resolve fs' = fs_resolve fs" and "fs_stat fs' = fs_stat fs"
  shows "check_secrets fs' pol False None p = check_secrets fs pol False None p"
    and "check_scope fs' pol p = check_scope fs pol p"
proof -
  have i: "file_identity fs' = file_identity fs" by (rule ext) (simp add: file_identity_def assms)
  have a: "any_identity_in fs' x rs = any_identity_in fs x rs" for x rs
    by (simp add: any_identity_in_def identities_def i)
  have s: "identities fs' rs = identities fs rs" for rs by (simp add: identities_def i)
  show "check_secrets fs' pol False None p = check_secrets fs pol False None p"
    by (simp add: check_secrets_def Let_def a i s assms split: option.split)
  show "check_scope fs' pol p = check_scope fs pol p" by (simp add: check_scope_def a assms)
qed

text \<open>
  What a \<open>*.key\<close> file must be like to pass: absent, a directory, or a regular file that can be read and whose first 128 bytes do not
  begin, after white space, with a PEM armour line.
\<close>

fun no_pem_content :: "open_result \<Rightarrow> bool" where
  "no_pem_content Open_nothing = True"
| "no_pem_content (Opened (Some Directory) _) = True"
| "no_pem_content (Opened (Some Regular) (Some content)) = (\<not> py_startswith (bytes_lstrip (take 128 content)) ''-----BEGIN'')"
| "no_pem_content _ = False"

lemma not_pem_key_content:
  "casefold (path_suffix (path_name p)) = ''.key'' \<Longrightarrow> \<not> is_pem_key_file fs p \<Longrightarrow> no_pem_content (fs_open fs p)"
  by (cases "fs_open fs p" rule: no_pem_content.cases)
    (auto simp: is_pem_key_file_def key_file_suffix_def pem_probe_bytes_def pem_armour_prefix_def)

lemma lower_dot:
  assumes "py_lower_char c = CHR ''.''"
  shows "c = CHR ''.''"
proof (cases "65 \<le> ord c \<and> ord c \<le> 90 \<or> 192 \<le> ord c \<and> ord c \<le> 222 \<and> ord c \<noteq> 215")
  case True
  then have "char_of (ord c + 32) = CHR ''.''" using assms by (simp add: py_lower_char_def)
  then have "of_char (char_of (ord c + 32) :: char) = (46 :: nat)" by simp
  then have "(ord c + 32) mod 256 = 46" by simp
  then show ?thesis using True by auto
qed (use assms in \<open>auto simp: py_lower_char_def\<close>)

lemma casefold_key:
  assumes "casefold ext = ''.key''"
  shows "\<exists>a b c. ext = [CHR ''.'', a, b, c] \<and> a \<noteq> CHR ''.'' \<and> b \<noteq> CHR ''.'' \<and> c \<noteq> CHR ''.''"
proof -
  have split: "\<exists>c cs. e = c # cs \<and> py_lower_char c = x \<and> casefold cs = xs" if "casefold e = x # xs" "x \<noteq> CHR ''s''" for e x xs
    using that by (cases e) (auto simp: casefold_def split: if_splits)
  obtain p e1 where 1: "ext = p # e1" "py_lower_char p = CHR ''.''" "casefold e1 = ''key''" using split [OF assms] by auto
  obtain a e2 where 2: "e1 = a # e2" "py_lower_char a = CHR ''k''" "casefold e2 = ''ey''" using split [OF 1(3)] by auto
  obtain b e3 where 3: "e2 = b # e3" "py_lower_char b = CHR ''e''" "casefold e3 = ''y''" using split [OF 2(3)] by auto
  obtain c e4 where 4: "e3 = c # e4" "py_lower_char c = CHR ''y''" "casefold e4 = []" using split [OF 3(3)] by auto
  have "e4 = []" using 4(3) by (cases e4) (auto simp: casefold_def split: if_splits)
  moreover have "py_lower_char (CHR ''.'') = CHR ''.''" by code_simp
  moreover have "p = CHR ''.''" using 1(2) lower_dot by blast
  ultimately show ?thesis using 1 2 3 4 by auto
qed

lemma key_suffix:
  assumes "stem \<noteq> []" "casefold ext = ''.key''"
  shows "casefold (path_suffix (stem @ ext)) = ''.key''"
proof -
  obtain a b c where e: "ext = [CHR ''.'', a, b, c]" "a \<noteq> CHR ''.''" "b \<noteq> CHR ''.''" "c \<noteq> CHR ''.''"
    using casefold_key [OF assms(2)] by blast
  then have "path_suffix (stem @ ext) = ext" using assms(1) by (simp add: path_suffix_def)
  then show ?thesis using assms(2) by simp
qed

section \<open>Properties\<close>

text \<open>
  C3: a path the server reads on a client's behalf is confined. When \<open>validate_ingest_source\<close> accepts, the raw
  path had no NUL byte and no \<open>..\<close> component and was absolute after home expansion; the caller is an admin or
  roots are configured; with roots configured the resolved path lies in one of them by file identity; it lies in no
  denied or system directory, is the same file as no denied or system file, has no credential directory in it, no
  credential name, and if it is named \<open>*.key\<close>, in any case, with something before the dot, it is absent, a directory, or a readable file
  that does not begin with a PEM armour line; and no credential-named regular file beside it is a hard link to it. Of a file
  named just \<open>.key\<close>, which \<open>pathlib\<close> gives no suffix, nothing is said about its content.
\<close>

theorem client_path_is_confined:
  assumes "validate_ingest_source fs pol admin raw = Inr p" and "fs_resolve fs p = q"
  shows "CHR 0x00 \<notin> set raw \<and> ''..'' \<notin> set (comps (parse_path raw)) \<and>
    (\<exists>e. expanduser fs (parse_path raw) = Some e \<and> rooted e \<and> p = fs_resolve fs (comps e)) \<and>
    (admin \<or> allowed_roots pol \<noteq> []) \<and>
    (allowed_roots pol = [] \<or> (\<exists>r \<in> set (allowed_roots pol). lies_in fs q r)) \<and>
    (\<forall>r \<in> set (deny_roots pol @ system_deny_dirs). \<not> lies_in fs q r) \<and>
    (\<forall>r \<in> set (deny_files pol @ system_deny_files). \<forall>i. file_identity fs q = Some i \<longrightarrow> file_identity fs r \<noteq> Some i) \<and>
    \<not> has_secret_directory q \<and> \<not> is_secret_name (path_name q) \<and>
    (\<forall>stem ext. path_name q = stem @ ext \<longrightarrow> stem \<noteq> [] \<longrightarrow> casefold ext = ''.key'' \<longrightarrow> no_pem_content (fs_open fs q)) \<and>
    (\<forall>info. fs_stat fs q = Some info \<longrightarrow> st_kind info = Regular \<longrightarrow> 1 < st_nlink info \<longrightarrow>
       (\<exists>names. fs_scandir fs (butlast q) = Some names \<and>
         (\<forall>name other. name \<in> set names \<longrightarrow> is_secret_name name \<longrightarrow>
            fs_lstat fs (butlast q @ [name]) = Os_ok other \<longrightarrow> st_kind other = Regular \<longrightarrow>
            st_identity other \<noteq> st_identity info)))"
proof -
  have v: "validate_ingest_path fs raw = Inr p" and c: "check_client_path fs pol admin p = None"
    using assms(1) by (auto simp: validate_ingest_source_def split: sum.splits option.splits if_splits)
  note s = check_secrets_passed [OF check_client_path_passed(3) [OF c], unfolded assms(2)]
  have pem: "no_pem_content (fs_open fs q)" if "path_name q = stem @ ext" "stem \<noteq> []" "casefold ext = ''.key''" for stem ext
    using not_pem_key_content key_suffix [OF that(2,3)] that(1) s(3) by metis
  show ?thesis
    using validate_ingest_path_passed [OF v] check_client_path_passed(1,2) [OF c, unfolded assms(2)]
      s(1,2,5,6) pem no_hard_link_to_secret [OF s(4)]
    by blast
qed

definition demo_fs :: file_system where
  "demo_fs = \<lparr>fs_home = (\<lambda>_. None), fs_resolve = (\<lambda>p. p),
     fs_stat = (\<lambda>p. if p = [''srv''] then Some \<lparr>st_kind = Directory, st_nlink = 2, st_identity = (1, 1)\<rparr>
       else if p = [''srv'', ''a.md''] then Some \<lparr>st_kind = Regular, st_nlink = 2, st_identity = (1, 2)\<rparr> else None),
     fs_lstat = (\<lambda>p. if p = [''srv'', ''.env''] then Os_ok \<lparr>st_kind = Regular, st_nlink = 1, st_identity = (1, 3)\<rparr>
       else Os_missing),
     fs_open = (\<lambda>_. Open_nothing), fs_scandir = (\<lambda>_. Some [''a.md'', ''b.md'', ''.env'']),
     fs_islink = (\<lambda>_. Some False), fs_isdir = (\<lambda>_. Some False)\<rparr>"

definition demo_policy :: path_policy where
  "demo_policy = \<lparr>deny_roots = [], deny_files = [], allowed_roots = [[''srv'']]\<rparr>"

theorem client_path_is_confined_witness:
  "validate_ingest_source demo_fs demo_policy False ''/srv/a.md'' = Inr [''srv'', ''a.md''] \<and>
    (\<exists>r \<in> set (allowed_roots demo_policy). lies_in demo_fs [''srv'', ''a.md''] r)"
proof -
  have v: "validate_ingest_source demo_fs demo_policy False ''/srv/a.md'' = Inr [''srv'', ''a.md'']"
    "fs_resolve demo_fs [''srv'', ''a.md''] = [''srv'', ''a.md'']" "allowed_roots demo_policy \<noteq> []" by code_simp+
  from client_path_is_confined [OF v(1,2)] v show ?thesis by blast
qed

text \<open>
  The checks are no content oracle. While a path is not known to be in scope (a non-admin caller without
  configured roots, or a path outside the roots) the verdict \<open>check_client_path\<close> gives is the same whatever opening
  files, listing directories and \<open>lstat\<close> of their entries would answer.
\<close>

lemma unscoped_check_reads_no_content:
  assumes "\<not> admin \<and> allowed_roots pol = [] \<or> check_scope fs pol p \<noteq> None"
  shows "check_client_path (fs\<lparr>fs_open := opens, fs_scandir := listings, fs_lstat := lstats\<rparr>) pol admin p =
    check_client_path fs pol admin p"
  using assms unscoped_checks_agree [of "fs\<lparr>fs_open := opens, fs_scandir := listings, fs_lstat := lstats\<rparr>" fs pol p]
  by (auto simp: check_client_path_def split: option.splits)

theorem unscoped_check_reads_no_content_witness:
  "check_client_path (demo_fs\<lparr>fs_open := \<lambda>_. Opened (Some Regular) (Some ''-----BEGIN''), fs_scandir := \<lambda>_. None,
      fs_lstat := \<lambda>_. Os_error\<rparr>) demo_policy False [''etc'', ''a.key''] =
    check_client_path demo_fs demo_policy False [''etc'', ''a.key'']"
proof -
  have "check_scope demo_fs demo_policy [''etc'', ''a.key''] \<noteq> None" by code_simp
  then show ?thesis by (intro unscoped_check_reads_no_content disjI2)
qed

lemma scan_members_eq:
  "set names \<subseteq> set allowed_archive_members \<Longrightarrow>
   \<exists>seen'. scan_members names seen = Some seen' \<and> set seen' = set names \<union> set seen"
proof (induction names arbitrary: seen)
  case (Cons n names)
  have safe: "\<not> py_startswith n ''/'' \<and> ''..'' \<notin> set (py_split (CHR ''/'') n)"
    using Cons.prems by (auto simp: allowed_archive_members_def)
  then show ?case using Cons.IH [of "List.insert n seen"] Cons.prems by auto
qed simp

lemma scan_members_subset: "scan_members names seen = Some seen' \<Longrightarrow> set names \<subseteq> set allowed_archive_members"
  by (induction names arbitrary: seen) (auto split: if_splits)

text \<open>
  An import archive passes exactly when its members, repeated or not, are \<open>manifest.json\<close> and
  \<open>documents.jsonl\<close>: none missing and no other name, so nothing in it can be extracted elsewhere.
\<close>

lemma archive_members_exact:
  "validate_archive_members names = None \<longleftrightarrow> set names = {''manifest.json'', ''documents.jsonl''}"
proof -
  have m: "set allowed_archive_members = {''manifest.json'', ''documents.jsonl''}"
    by (simp add: allowed_archive_members_def)
  show ?thesis
  proof (cases "set names \<subseteq> set allowed_archive_members")
    case True
    with scan_members_eq [of names "[]"] show ?thesis by (auto simp: validate_archive_members_def m split: if_splits)
  next
    case False
    then have "scan_members names [] = None" using scan_members_subset by fastforce
    with False show ?thesis by (auto simp: validate_archive_members_def m)
  qed
qed


section \<open>Globs and export paths\<close>

text \<open>Joining a pattern's parts to a directory, with \<open>.\<close> and \<open>..\<close> read as the file system reads them.\<close>

fun lexical_join :: "abs_path \<Rightarrow> string list \<Rightarrow> abs_path" where
  "lexical_join base [] = base"
| "lexical_join base (c # cs) =
     (if c = [] \<or> c = ''.'' then lexical_join base cs
      else if c = ''..'' then lexical_join (butlast base) cs
      else lexical_join (base @ [c]) cs)"

lemma lexical_join_below: "''..'' \<notin> set cs \<Longrightarrow> prefix base (lexical_join base cs)"
proof (induction cs arbitrary: base)
  case (Cons c cs)
  then have "prefix (base @ [c]) (lexical_join (base @ [c]) cs)" "prefix base (lexical_join base cs)" by auto
  then show ?case using Cons.prems by (auto dest: append_prefixD)
qed simp

text \<open>An accepted glob is returned unchanged, is bounded, and its parts never lead out of the directory.\<close>

lemma glob_pattern_stays_below:
  assumes "validate_glob_pattern pattern = Inr g"
  shows "g = pattern" and "length g \<le> 256"
    and "prefix base (lexical_join base (py_split (CHR ''/'') (replace_char backslash ''/'' g)))"
    and "count_list (py_split (CHR ''/'') (replace_char backslash ''/'' g)) ''**'' \<le> 4"
  using assms lexical_join_below
  by (auto simp: validate_glob_pattern_def max_glob_pattern_length_def max_glob_recursive_segments_def Let_def split: if_splits)

text \<open>An accepted export path has the resolved form of an allowed directory as a prefix.\<close>

lemma export_path_confined:
  assumes "validate_export_path fs raw dirs = Inr p"
  shows "\<exists>d \<in> set dirs. prefix (fs_resolve fs d) p"
proof -
  obtain d where d: "d \<in> set dirs" "take (length (fs_resolve fs d)) p = fs_resolve fs d"
    using assms by (auto simp: validate_export_path_def is_relative_to_def split: sum.splits if_splits)
  from d(2) have "prefix (fs_resolve fs d) p" by (metis take_is_prefix)
  with d(1) show ?thesis by blast
qed

text \<open>The home directory of an unknown user is an exception of its own, not a refusal.\<close>

lemma unknown_home_is_runtime_error:
  "fs_home fs ''~nobody'' = None \<Longrightarrow> validate_ingest_path fs ''~nobody/x'' = Inl Runtime_error"
  by (simp add: validate_ingest_path_def expanduser_def parse_path_def py_strip_def py_lstrip_def py_rstrip_def
      py_isspace_def ord_def)

text \<open>
  A file named exactly \<open>.key\<close> has no suffix for \<open>pathlib\<close>, so it is never probed, whatever it contains.
\<close>

lemma bare_key_name_not_probed: "\<not> is_pem_key_file fs (dir @ [''.key''])"
  by (simp add: is_pem_key_file_def path_name_def path_suffix_def casefold_def key_file_suffix_def)

end
