(* ===== verification/Discovery_Properties.thy ===== *)
theory Discovery_Properties
  imports Discovery Path_Properties
begin

text \<open>The walk returns exactly the indexable files, within the limit, and never one the policy denies.\<close>

section \<open>A reference definition\<close>

definition indexable :: "walk_env \<Rightarrow> path_policy \<Rightarrow> string list \<Rightarrow> abs_path \<Rightarrow> abs_path \<times> string \<Rightarrow> bool" where
  "indexable env pol segments root e \<longleftrightarrow>
     (case e of (dir, name) \<Rightarrow>
        let parts = drop (length root) dir @ [name]; path = dir @ [name]
        in matches_glob (fnm env) parts segments \<and> \<not> is_symlink env path \<and> is_file env path \<and>
           \<not> skipped_type name \<and> \<not> is_hidden parts \<and> fst (check_secrets (wfs env) pol True None path) = None)"

definition entry_path :: "abs_path \<times> string \<Rightarrow> abs_path" where
  "entry_path e = fst e @ [snd e]"

lemma visit_file_cases:
  assumes "cache_faithful (wfs env) (listings_seen st)"
  shows "(if indexable env pol segments root e then
            (if int (length (found st)) = mx then visit_file env pol segments mx root e st = Inl mx
             else \<exists>st'. visit_file env pol segments mx root e st = Inr st' \<and>
               found st' = found st @ [entry_path e] \<and> cache_faithful (wfs env) (listings_seen st'))
          else \<exists>st'. visit_file env pol segments mx root e st = Inr st' \<and> found st' = found st \<and>
               cache_faithful (wfs env) (listings_seen st'))"
proof -
  obtain dir name where e: "e = (dir, name)" by fastforce
  obtain r c where rc: "check_secrets (wfs env) pol True (listings_seen st) (dir @ [name]) = (r, c)" by fastforce
  have r: "fst (check_secrets (wfs env) pol True None (dir @ [name])) = r" and c: "cache_faithful (wfs env) c"
    using check_secrets_faithful [OF assms, of pol True "dir @ [name]"] rc by simp_all
  show ?thesis
    using assms c by (cases r) (auto simp: visit_file_def indexable_def entry_path_def e rc r Let_def)
qed

lemma visit_files_result:
  assumes "cache_faithful (wfs env) (listings_seen st)" and "int (length (found st)) \<le> mx"
    and "filter (indexable env pol segments root) es = good"
  shows "if int (length (found st) + length good) \<le> mx
    then \<exists>st'. visit_files env pol segments mx root es st = Inr st' \<and> found st' = found st @ map entry_path good
    else visit_files env pol segments mx root es st = Inl mx"
  using assms
proof (induction es arbitrary: st good)
  case (Cons e es)
  note v = visit_file_cases [OF Cons.prems(1), of pol segments root e mx]
  let ?good = "filter (indexable env pol segments root) es"
  show ?case
  proof (cases "indexable env pol segments root e")
    case True
    show ?thesis
    proof (cases "int (length (found st)) = mx")
      case True
      then show ?thesis using v \<open>indexable env pol segments root e\<close> Cons.prems(3) by auto
    next
      case False
      with v True obtain st' where st': "visit_file env pol segments mx root e st = Inr st'"
        "found st' = found st @ [entry_path e]" "cache_faithful (wfs env) (listings_seen st')" by auto
      have "int (length (found st')) \<le> mx" using st'(2) False Cons.prems(2) by simp
      from Cons.IH [OF st'(3) this refl] show ?thesis using True Cons.prems(3) st' by auto
    qed
  next
    case False
    with v obtain st' where st': "visit_file env pol segments mx root e st = Inr st'"
      "found st' = found st" "cache_faithful (wfs env) (listings_seen st')" by auto
    have "int (length (found st')) \<le> mx" using st'(2) Cons.prems(2) by simp
    from Cons.IH [OF st'(3) this refl] show ?thesis using False Cons.prems(3) st' by auto
  qed
qed simp

section \<open>Where the walk goes\<close>

lemma os_walk_below:
  "(d, ns) \<in> set (os_walk keep root t) \<Longrightarrow>
   prefix root d \<and> (\<forall>q. prefix q d \<longrightarrow> strict_prefix root q \<longrightarrow> keep q)"
proof (induction keep root t arbitrary: d ns rule: os_walk.induct)
  case (1 keep dir names subs)
  show ?case
  proof (cases "d = dir")
    case True
    then show ?thesis by (auto simp: strict_prefix_def dest: prefix_order.antisym)
  next
    case False
    with "1.prems" obtain n t where nt: "(n, t) \<in> set subs" "keep (dir @ [n])"
        "(d, ns) \<in> set (os_walk keep (dir @ [n]) t)"
      by (auto split: if_splits)
    note ih = "1.IH" [OF nt(1) refl nt(2,3)]
    have "keep q" if "prefix q d" "strict_prefix dir q" for q
    proof (cases "strict_prefix (dir @ [n]) q")
      case False
      have "prefix (dir @ [n]) q \<or> prefix q (dir @ [n])" using that(1) ih by (metis prefix_same_cases)
      with False have "prefix q (dir @ [n])" by (auto simp: strict_prefix_def)
      with that(2) have "q = dir @ [n]" by (auto simp: strict_prefix_def prefix_snoc)
      with nt(2) show ?thesis by simp
    qed (use ih that in blast)
    with ih show ?thesis by (auto dest: append_prefixD)
  qed
qed


lemma walk_entries_below:
  assumes "(d, n) \<in> set (walk_entries fs pol root t)"
  shows "prefix root d" and "set (drop (length root) d) \<inter> set pruned_directory_names = {}"
proof -
  obtain ns where w: "(d, ns) \<in> set (os_walk (descends fs pol) root t)"
    using assms by (auto simp: walk_entries_def)
  show p: "prefix root d" using os_walk_below [OF w] by blast
  then obtain rest where d: "d = root @ rest" by (auto simp: prefix_def)
  have "c \<notin> set pruned_directory_names" if c: "c \<in> set rest" for c
  proof -
    obtain xs ys where "rest = xs @ c # ys" using split_list [OF c] by blast
    then have "prefix (root @ xs @ [c]) d" "strict_prefix root (root @ xs @ [c])" by (auto simp: d strict_prefix_def)
    with os_walk_below [OF w] have "descends fs pol (root @ xs @ [c])" by blast
    then show ?thesis by (simp add: descends_def path_name_def)
  qed
  then show "set (drop (length root) d) \<inter> set pruned_directory_names = {}" by (auto simp: d)
qed

section \<open>Properties\<close>

lemma discover_cases:
  assumes "0 \<le> mx" and "filter (indexable env pol (py_split (CHR ''/'') pat) root) (walk_entries (wfs env) pol root t) = good"
  shows "discover_ingest_files env pol mx root pat t =
    (if int (length good) \<le> mx then Inr (sort (map entry_path good)) else Inl mx)"
proof -
  let ?st = "\<lparr>found = [], denied = 0, listings_seen = Some []\<rparr>"
  have "cache_faithful (wfs env) (listings_seen ?st)" by (simp add: cache_faithful_def)
  from visit_files_result [OF this _ assms(2), where mx = mx] assms(1) show ?thesis
    by (auto simp: discover_ingest_files_def split: if_splits)
qed

text \<open>
  C40: a directory ingest indexes exactly the files it should. The result is the sorted list of all regular,
  non-hidden files of the walked directories that match the glob, are not of a skipped type and pass the policy when
  each is checked on its own (the listing cache shared by the walk changes nothing); when there are more of
  them than the limit, the walk raises instead.
\<close>

theorem discover_returns_exactly_indexable:
  assumes "0 \<le> mx"
  shows "discover_ingest_files env pol mx root pat t =
    (let good = filter (indexable env pol (py_split (CHR ''/'') pat) root) (walk_entries (wfs env) pol root t)
     in if int (length good) \<le> mx then Inr (sort (map entry_path good)) else Inl mx)"
  unfolding Let_def using assms by (rule discover_cases [OF _ refl])

definition demo_env :: walk_env where
  "demo_env = \<lparr>wfs = demo_fs, fnm = (\<lambda>p pat. pat = ''*'' \<or> p = pat), is_symlink = (\<lambda>_. False), is_file = (\<lambda>_. True)\<rparr>"

definition demo_tree :: dir_tree where
  "demo_tree = Dir [''b.md'', ''.env'', ''a.md''] [(''venv'', Dir [''c.md''] []), (''sub'', Dir [''d.md'', ''x.zip''] [])]"

theorem discover_returns_exactly_indexable_witness:
  "discover_ingest_files demo_env demo_policy 3 [''srv''] ''**/*'' demo_tree =
     Inr [[''srv'', ''a.md''], [''srv'', ''b.md''], [''srv'', ''sub'', ''d.md'']]"
proof -
  have "(let good = filter (indexable demo_env demo_policy (py_split (CHR ''/'') ''**/*'') [''srv''])
                      (walk_entries (wfs demo_env) demo_policy [''srv''] demo_tree)
         in if int (length good) \<le> 3 then Inr (sort (map entry_path good)) else Inl 3) =
      (Inr [[''srv'', ''a.md''], [''srv'', ''b.md''], [''srv'', ''sub'', ''d.md'']] :: int + abs_path list)"
    by code_simp
  with discover_returns_exactly_indexable [of 3 demo_env demo_policy "[''srv'']" "''**/*''" demo_tree]
  show ?thesis by simp
qed

text \<open>
  A directory ingest stays where it may read. Every file it returns lies below the root, through no hidden
  and no pruned directory, and its resolved path lies in no denied directory, is no denied file, and carries no
  credential directory or name; there are at most \<open>max_files\<close> of them, in sorted order.
\<close>

lemma directory_ingest_is_confined:
  assumes "discover_ingest_files env pol mx root pat t = Inr files" and "0 \<le> mx" and "p \<in> set files"
    and "fs_resolve (wfs env) p = q"
  shows "int (length files) \<le> mx \<and> sorted files \<and>
    (\<exists>rel. p = root @ rel \<and> rel \<noteq> [] \<and> \<not> is_hidden rel \<and>
       set (butlast rel) \<inter> set pruned_directory_names = {} \<and> \<not> skipped_type (last rel)) \<and>
    (\<forall>r \<in> set (deny_roots pol @ system_deny_dirs). \<not> lies_in (wfs env) q r) \<and>
    (\<forall>r \<in> set (deny_files pol @ system_deny_files). \<forall>i. file_identity (wfs env) q = Some i \<longrightarrow>
       file_identity (wfs env) r \<noteq> Some i) \<and>
    \<not> has_secret_directory q \<and> \<not> is_secret_name (path_name q) \<and> \<not> is_pem_key_file (wfs env) q"
proof -
  define good where "good = filter (indexable env pol (py_split (CHR ''/'') pat) root) (walk_entries (wfs env) pol root t)"
  from discover_cases [OF assms(2) good_def [symmetric]] assms(1)
  have f: "files = sort (map entry_path good)" and n: "int (length good) \<le> mx" by (auto split: if_splits)
  obtain d name where e: "(d, name) \<in> set good" "p = d @ [name]"
    using assms(3) by (auto simp: f entry_path_def)
  have ix: "indexable env pol (py_split (CHR ''/'') pat) root (d, name)" and w: "(d, name) \<in> set (walk_entries (wfs env) pol root t)"
    using e(1) by (auto simp: good_def)
  obtain rest where d: "d = root @ rest" using walk_entries_below(1) [OF w] by (auto simp: prefix_def)
  have "p = root @ rest @ [name] \<and> \<not> is_hidden (rest @ [name]) \<and> set rest \<inter> set pruned_directory_names = {} \<and>
      \<not> skipped_type name"
    using ix walk_entries_below(2) [OF w] by (simp add: e(2) d indexable_def Let_def)
  then have "\<exists>rel. p = root @ rel \<and> rel \<noteq> [] \<and> \<not> is_hidden rel \<and>
       set (butlast rel) \<inter> set pruned_directory_names = {} \<and> \<not> skipped_type (last rel)"
    by (intro exI [of _ "rest @ [name]"]) simp
  moreover have "fst (check_secrets (wfs env) pol True None p) = None" using ix by (simp add: e(2) indexable_def Let_def)
  note s = check_secrets_passed [OF this, unfolded assms(4)]
  have "int (length files) \<le> mx" "sorted files" using n by (simp_all add: f)
  ultimately show ?thesis using s(1,2,3,5,6) by blast
qed

theorem directory_ingest_is_confined_witness:
  "\<exists>rel. [''srv'', ''sub'', ''d.md''] = [''srv''] @ rel \<and> rel \<noteq> [] \<and> \<not> is_hidden rel \<and>
     set (butlast rel) \<inter> set pruned_directory_names = {} \<and> \<not> skipped_type (last rel)"
proof -
  have r: "discover_ingest_files demo_env demo_policy 3 [''srv''] ''**/*'' demo_tree =
      Inr [[''srv'', ''a.md''], [''srv'', ''b.md''], [''srv'', ''sub'', ''d.md'']]" by code_simp
  have "[''srv'', ''sub'', ''d.md''] \<in> set [[''srv'', ''a.md''], [''srv'', ''b.md''], [''srv'', ''sub'', ''d.md'']]" by simp
  from directory_ingest_is_confined [OF r _ this refl] show ?thesis by simp
qed

end
