(* ===== verification/Collection_Meta.thy ===== *)
theory Collection_Meta
  imports Names
begin

text \<open>
  A collection's metadata row: \<open>archon_search/collection_meta.py\<close> and the row codec of \<open>archon_search/store.py\<close>
  (\<open>_description_state\<close>, \<open>_description_state_columns\<close>, \<open>_row_to_meta\<close>, the row of \<open>_do_write_meta_unlocked\<close>).

  A JSON column is what \<open>json.loads\<close> makes of its text: nothing (an empty or absent column), text that is not
  JSON, a value that is not a list, or a list of numbers. \<open>json.loads\<close> inverts \<open>json.dumps\<close> on lists of numbers, and
  \<open>datetime.fromisoformat\<close> inverts \<open>isoformat\<close>: a time column is nothing, a time in microseconds, or text that is no time.
  A number of a vector is known by a tag when it is finite.
\<close>

datatype vec_item = Finite_num int | Bad_num

datatype vec_column = No_vec | Not_json | Not_list | Vec_list "vec_item list"

datatype time_column = No_time | Time_at int | Not_time

datatype meta_exc = Meta_ValueError | Meta_RuntimeError | Meta_store_error

record collection_meta =
  m_name :: string
  m_description :: "string option"
  m_centroid :: "vec_item list option"
  m_centroid_sum :: "vec_item list option"
  m_mutations :: int
  m_needs_recompute :: bool
  m_doc_count :: int
  m_chunk_count :: int
  m_active_model :: string
  m_pending_model :: "string option"
  m_needs_reindex :: bool
  m_reindex_job :: "string option"
  m_rebuild_job :: "string option"
  m_metadata_job :: "string option"
  m_last_indexed :: "int option"
  m_last_described :: "int option"
  m_described_at :: "int option"
  m_namespace :: string
  m_embedding :: "vec_item list option"
  m_schema_version :: int
  m_default_ttl :: "int option"
  m_source :: "string option"
  m_status :: "string option"

definition description_sources :: "string list" where
  "description_sources = [''generated'', ''manual'']"

definition description_stored_statuses :: "string list" where
  "description_stored_statuses = [''ok'', ''failed'']"

definition check_stored_description_value :: "string option \<Rightarrow> string list \<Rightarrow> bool" where
  "check_stored_description_value v allowed = (case v of None \<Rightarrow> True | Some x \<Rightarrow> x \<in> set allowed)"

text \<open>\<open>visible_description_status\<close>; \<open>overlay\<close> is the lifecycle's \<open>overlay_status\<close>, absent while descriptions are off.\<close>

definition visible_description_status ::
    "(string \<Rightarrow> string option \<Rightarrow> string option) option \<Rightarrow> collection_meta \<Rightarrow> string option" where
  "visible_description_status overlay m =
     (case overlay of
        None \<Rightarrow> m_status m
      | Some f \<Rightarrow> if m_source m = Some ''manual'' then m_status m else f (m_name m) (m_status m))"

section \<open>The stored row\<close>

text \<open>Columns a migration added later may be absent or null: \<open>option\<close>.\<close>

record meta_row =
  r_name :: string
  r_description :: string
  r_centroid :: vec_column
  r_embedding :: vec_column
  r_doc_count :: int
  r_chunk_count :: int
  r_active_model :: "string option"
  r_legacy_model :: "string option"
  r_pending_model :: "string option"
  r_needs_reindex :: "bool option"
  r_reindex_job :: "string option"
  r_rebuild_job :: "string option"
  r_metadata_job :: "string option"
  r_last_indexed :: time_column
  r_last_described :: time_column
  r_described_at :: int
  r_namespace :: "string option"
  r_centroid_sum :: vec_column
  r_mutations :: "int option"
  r_needs_recompute :: "bool option"
  r_schema_version :: "int option"
  r_default_ttl :: "int option"
  r_source :: "string option"
  r_status :: "string option"

text \<open>Python's \<open>x or None\<close> on an optional string.\<close>

definition or_none :: "string option \<Rightarrow> string option" where
  "or_none v = (if v = Some [] then None else v)"

definition or_empty :: "string option \<Rightarrow> string" where
  "or_empty v = (case v of None \<Rightarrow> [] | Some s \<Rightarrow> s)"

definition stored_description_value :: "string option \<Rightarrow> string list \<Rightarrow> string option" where
  "stored_description_value column allowed =
     (case or_none column of None \<Rightarrow> None | Some v \<Rightarrow> if v \<in> set allowed then Some v else None)"

definition description_state :: "meta_row \<Rightarrow> string option \<times> string option" where
  "description_state r =
     (let has_description = r_description r \<noteq> [];
          src = stored_description_value (r_source r) description_sources;
          st = stored_description_value (r_status r) description_stored_statuses
      in (if src = None \<and> has_description then Some ''generated'' else src,
          if st = None \<and> has_description then Some ''ok'' else st))"

text \<open>A plain vector column, and one whose items are checked.\<close>

definition centroid_of :: "vec_column \<Rightarrow> vec_item list option" where
  "centroid_of c = (case c of Vec_list v \<Rightarrow> Some v | _ \<Rightarrow> None)"

definition checked_vector :: "vec_column \<Rightarrow> vec_item list option" where
  "checked_vector c = (case c of Vec_list v \<Rightarrow> if Bad_num \<in> set v then None else Some v | _ \<Rightarrow> None)"

definition time_of :: "time_column \<Rightarrow> meta_exc + int option" where
  "time_of c = (case c of No_time \<Rightarrow> Inr None | Time_at t \<Rightarrow> Inr (Some t) | Not_time \<Rightarrow> Inl Meta_ValueError)"

text \<open>
  \<open>_row_to_meta\<close>. A centroid column that holds JSON other than a list is kept as it is by the code; the model reads it
  as no centroid, which no description operation looks at.
\<close>

definition row_to_meta :: "meta_row \<Rightarrow> meta_exc + collection_meta" where
  "row_to_meta r =
     (case time_of (r_last_indexed r) of
        Inl e \<Rightarrow> Inl e
      | Inr indexed \<Rightarrow>
          (case time_of (r_last_described r) of
             Inl e \<Rightarrow> Inl e
           | Inr described \<Rightarrow>
               Inr \<lparr>m_name = r_name r,
                    m_description = (if r_description r = [] then None else Some (r_description r)),
                    m_centroid = centroid_of (r_centroid r),
                    m_centroid_sum = checked_vector (r_centroid_sum r),
                    m_mutations = (case r_mutations r of None \<Rightarrow> 0 | Some n \<Rightarrow> n),
                    m_needs_recompute = (r_needs_recompute r = Some True),
                    m_doc_count = r_doc_count r,
                    m_chunk_count = r_chunk_count r,
                    m_active_model =
                      (case r_active_model r of Some s \<Rightarrow> s | None \<Rightarrow> or_empty (r_legacy_model r)),
                    m_pending_model = or_none (r_pending_model r),
                    m_needs_reindex = (r_needs_reindex r = Some True),
                    m_reindex_job = or_none (r_reindex_job r),
                    m_rebuild_job = or_none (r_rebuild_job r),
                    m_metadata_job = or_none (r_metadata_job r),
                    m_last_indexed = indexed,
                    m_last_described = described,
                    m_described_at = (if r_described_at r < 0 then None else Some (r_described_at r)),
                    m_namespace = (case or_none (r_namespace r) of None \<Rightarrow> default_ns | Some n \<Rightarrow> n),
                    m_embedding = checked_vector (r_embedding r),
                    m_schema_version = (case r_schema_version r of None \<Rightarrow> 0 | Some n \<Rightarrow> n),
                    m_default_ttl = r_default_ttl r,
                    m_source = fst (description_state r),
                    m_status = snd (description_state r)\<rparr>))"

definition vec_of :: "vec_item list option \<Rightarrow> vec_column" where
  "vec_of v = (case v of None \<Rightarrow> No_vec | Some xs \<Rightarrow> Vec_list xs)"

definition time_col :: "int option \<Rightarrow> time_column" where
  "time_col t = (case t of None \<Rightarrow> No_time | Some n \<Rightarrow> Time_at n)"

text \<open>\<open>_description_state_columns\<close> refuses a value outside the contract.\<close>

definition description_state_columns :: "collection_meta \<Rightarrow> (string \<times> string) option" where
  "description_state_columns m =
     (if check_stored_description_value (m_source m) description_sources \<and>
         check_stored_description_value (m_status m) description_stored_statuses
      then Some (or_empty (m_source m), or_empty (m_status m)) else None)"

definition meta_to_row :: "collection_meta \<Rightarrow> meta_exc + meta_row" where
  "meta_to_row m =
     (case description_state_columns m of
        None \<Rightarrow> Inl Meta_ValueError
      | Some (src, st) \<Rightarrow>
          Inr \<lparr>r_name = m_name m,
               r_description = or_empty (m_description m),
               r_centroid = vec_of (m_centroid m),
               r_embedding = vec_of (m_embedding m),
               r_doc_count = m_doc_count m,
               r_chunk_count = m_chunk_count m,
               r_active_model = Some (m_active_model m),
               r_legacy_model = None,
               r_pending_model = Some (or_empty (m_pending_model m)),
               r_needs_reindex = Some (m_needs_reindex m),
               r_reindex_job = Some (or_empty (m_reindex_job m)),
               r_rebuild_job = Some (or_empty (m_rebuild_job m)),
               r_metadata_job = Some (or_empty (m_metadata_job m)),
               r_last_indexed = time_col (m_last_indexed m),
               r_last_described = time_col (m_last_described m),
               r_described_at = (case m_described_at m of None \<Rightarrow> -1 | Some n \<Rightarrow> n),
               r_namespace = Some (m_namespace m),
               r_centroid_sum = vec_of (m_centroid_sum m),
               r_mutations = Some (m_mutations m),
               r_needs_recompute = Some (m_needs_recompute m),
               r_schema_version = Some (m_schema_version m),
               r_default_ttl = m_default_ttl m,
               r_source = Some src,
               r_status = Some st\<rparr>)"

end
