(* ===== verification/Description_Write.thy ===== *)
theory Description_Write
  imports Collection_Meta
begin

text \<open>
  \<open>archon_search/description_write.py\<close>, \<open>archon_search/description_writer.py\<close>, \<open>archon_search/description_change.py\<close> and
  \<open>SearchStore.write_description\<close>: the text rules, the fields of one write, the guard of a generated write, the write
  under the collection lock, and the operations that use it.

  The metadata table is a map from (name, namespace) to rows (rows of the time before namespaces, which the start-up
  migration rewrites, are taken as rewritten). Every writer of a row holds the collection's lock
  from its read to its write, so such a stretch is one function; whether the lock was free in time and whether LanceDB
  answered are arguments. The embedder is an argument too: \<open>None\<close> is a failure or a timeout.
\<close>

section \<open>Text rules\<close>

definition max_description_chars :: nat where
  "max_description_chars = 600"

text \<open>\<open>unicodedata.category\<close> on Latin-1: the controls are \<open>Cc\<close>, the soft hyphen is the only \<open>Cf\<close>.\<close>

definition is_control :: "char \<Rightarrow> bool" where
  "is_control c \<longleftrightarrow> ord c < 32 \<or> 127 \<le> ord c \<and> ord c \<le> 159"

definition is_invisible :: "char \<Rightarrow> bool" where
  "is_invisible c \<longleftrightarrow> ord c = 173"

definition is_blank :: "string \<Rightarrow> bool" where
  "is_blank t \<longleftrightarrow> list_all (\<lambda>c. py_isspace c \<or> is_invisible c) t"

datatype text_error = Too_long nat | Blank_text | Not_plain

definition check_description_text :: "string \<Rightarrow> text_error option" where
  "check_description_text t =
     (if length t > max_description_chars then Some (Too_long (length t))
      else if is_blank t then Some Blank_text
      else if list_ex is_control t then Some Not_plain
      else None)"

definition is_dropped :: "char \<Rightarrow> bool" where
  "is_dropped c \<longleftrightarrow>
     ord c \<le> 8 \<or> 14 \<le> ord c \<and> ord c \<le> 27 \<or> 127 \<le> ord c \<and> ord c \<le> 132 \<or> 134 \<le> ord c \<and> ord c \<le> 159"

text \<open>\<open>str.split()\<close> without a separator: the maximal runs without white space.\<close>

fun words_from :: "string \<Rightarrow> string \<Rightarrow> string list" where
  "words_from cur [] = (if cur = [] then [] else [rev cur])"
| "words_from cur (c # cs) =
     (if py_isspace c then (if cur = [] then words_from [] cs else rev cur # words_from [] cs)
      else words_from (c # cur) cs)"

definition collapse_to_one_line :: "string \<Rightarrow> string" where
  "collapse_to_one_line t = py_join '' '' (words_from [] (filter (\<lambda>c. \<not> is_dropped c) t))"

definition is_terminator :: "char \<Rightarrow> bool" where
  "is_terminator c \<longleftrightarrow> c = CHR ''.'' \<or> c = CHR ''!'' \<or> c = CHR ''?''"

definition is_closer :: "char \<Rightarrow> bool" where
  "is_closer c \<longleftrightarrow> ord c = 34 \<or> ord c = 39 \<or> ord c = 41 \<or> ord c = 93"

text \<open>
  The ends of the matches of \<open>_SENTENCE_END\<close>, \<open>pos\<close> being where the text starts: after a terminator the greedy run of
  closers must be followed by white space or the end (a shorter run is followed by a closer, which is neither).
\<close>

fun sentence_ends :: "nat \<Rightarrow> string \<Rightarrow> nat list" where
  "sentence_ends pos [] = []"
| "sentence_ends pos (c # cs) =
     (let closers = takeWhile is_closer cs; rest = dropWhile is_closer cs
      in if is_terminator c \<and> (case rest of [] \<Rightarrow> True | d # _ \<Rightarrow> py_isspace d)
         then (Suc pos + length closers) # sentence_ends (Suc pos) cs
         else sentence_ends (Suc pos) cs)"

text \<open>\<open>window.rfind(" ")\<close>; \<open>None\<close> is \<open>-1\<close>.\<close>

definition rfind_space :: "string \<Rightarrow> nat option" where
  "rfind_space w =
     (let tail = takeWhile (\<lambda>c. c \<noteq> CHR '' '') (rev w)
      in if length tail = length w then None else Some (length w - length tail - 1))"

definition trim_to_last_sentence :: "string \<Rightarrow> string" where
  "trim_to_last_sentence t =
     (let window = take (max_description_chars + 1) t;
          ends = filter (\<lambda>e. e \<le> max_description_chars) (sentence_ends 0 window)
      in if ends \<noteq> [] then take (last ends) t
         else case rfind_space window of
                Some n \<Rightarrow> if n > 0 then take n t else take max_description_chars t
              | None \<Rightarrow> take max_description_chars t)"

definition normalise_description_text :: "string \<Rightarrow> string" where
  "normalise_description_text t =
     (let one_line = collapse_to_one_line t;
          cut = (if length one_line > max_description_chars then trim_to_last_sentence one_line else one_line)
      in if is_blank cut then [] else cut)"

section \<open>The fields of one write\<close>

datatype 'a field_change = Keep | Set_to 'a | Clear

fun change_value :: "'a field_change \<Rightarrow> 'a option" where
  "change_value (Set_to v) = Some v"
| "change_value _ = None"

definition is_storable_vector :: "vec_item list \<Rightarrow> bool" where
  "is_storable_vector v \<longleftrightarrow> v \<noteq> [] \<and> Bad_num \<notin> set v"

record description_fields =
  f_description :: "string field_change"
  f_source :: "string field_change"
  f_status :: "string field_change"
  f_last_described :: "int field_change"
  f_described_at :: "int field_change"
  f_embedding :: "vec_item list field_change"

text \<open>\<open>DescriptionFields.__post_init__\<close>: \<open>False\<close> is the \<open>ValueError\<close>.\<close>

definition fields_ok :: "description_fields \<Rightarrow> bool" where
  "fields_ok f \<longleftrightarrow>
     check_stored_description_value (change_value (f_source f)) description_sources \<and>
     check_stored_description_value (change_value (f_status f)) description_stored_statuses \<and>
     (case change_value (f_description f) of None \<Rightarrow> True | Some t \<Rightarrow> check_description_text t = None) \<and>
     (case change_value (f_described_at f) of None \<Rightarrow> True | Some n \<Rightarrow> \<not> n < 0) \<and>
     (case change_value (f_embedding f) of None \<Rightarrow> True | Some v \<Rightarrow> is_storable_vector v) \<and>
     (if f_description f \<noteq> Keep then f_source f \<noteq> Keep \<and> f_status f \<noteq> Keep \<and> f_embedding f \<noteq> Keep else True)"

fun apply_change :: "'a field_change \<Rightarrow> 'a option \<Rightarrow> 'a option" where
  "apply_change Keep old = old"
| "apply_change (Set_to v) old = Some v"
| "apply_change Clear old = None"

definition apply_to :: "description_fields \<Rightarrow> collection_meta \<Rightarrow> collection_meta" where
  "apply_to f m =
     m\<lparr>m_description := apply_change (f_description f) (m_description m),
       m_source := apply_change (f_source f) (m_source m),
       m_status := apply_change (f_status f) (m_status m),
       m_last_described := apply_change (f_last_described f) (m_last_described m),
       m_described_at := apply_change (f_described_at f) (m_described_at m),
       m_embedding := apply_change (f_embedding f) (m_embedding m)\<rparr>"

datatype write_outcome = Written | Lock_timeout | Collection_missing | Refused_manual | Refused_stale

record expected_state =
  e_description :: "string option"
  e_source :: "string option"
  e_last_described :: "int option"
  e_status :: "string option"

definition refusal :: "expected_state \<Rightarrow> collection_meta \<Rightarrow> write_outcome option" where
  "refusal e row =
     (if m_source row = Some ''manual'' then Some Refused_manual
      else if or_none (m_description row) = or_none (e_description e) \<and> m_source row = e_source e \<and>
              m_last_described row = e_last_described e \<and> m_status row = e_status e
      then None else Some Refused_stale)"

section \<open>The guarded write\<close>

record meta_store =
  meta_rows :: "string \<times> string \<Rightarrow> meta_row option"
  versions :: "string \<Rightarrow> nat"

text \<open>What the lock and LanceDB do during one write; \<open>Merge_then_error\<close> is a failed removal of the legacy twin row.\<close>

datatype merge_result = Merged | Merge_failed | Merge_then_error

record store_try =
  lock_free :: bool
  read_works :: bool
  merge :: merge_result

definition get_collection_meta :: "bool \<Rightarrow> string \<Rightarrow> string \<Rightarrow> meta_store \<Rightarrow> meta_exc + collection_meta option" where
  "get_collection_meta works c ns s =
     (if \<not> is_valid_collection_name c \<or> \<not> valid_namespace ns then Inl Meta_ValueError
      else if \<not> works then Inl Meta_store_error
      else case meta_rows s (c, ns) of
             None \<Rightarrow> Inr None
           | Some r \<Rightarrow> (case row_to_meta r of Inl e \<Rightarrow> Inl e | Inr m \<Rightarrow> Inr (Some m)))"

definition bump_version :: "string \<Rightarrow> meta_store \<Rightarrow> meta_store" where
  "bump_version c s = s\<lparr>versions := (versions s)(c := Suc (versions s c))\<rparr>"

definition put_row :: "string \<times> string \<Rightarrow> meta_row \<Rightarrow> meta_store \<Rightarrow> meta_store" where
  "put_row k r s = s\<lparr>meta_rows := (meta_rows s)(k \<mapsto> r)\<rparr>"

text \<open>\<open>_do_write_meta_unlocked\<close> with the version bump as its \<open>on_merged\<close>.\<close>

definition write_meta ::
    "merge_result \<Rightarrow> string \<Rightarrow> collection_meta \<Rightarrow> meta_store \<Rightarrow> (meta_exc + unit) \<times> meta_store" where
  "write_meta mr c m s =
     (if c \<noteq> m_name m \<or> \<not> valid_namespace (m_namespace m) \<or> \<not> is_valid_collection_name (m_name m)
      then (Inl Meta_ValueError, s)
      else case meta_to_row m of
             Inl e \<Rightarrow> (Inl e, s)
           | Inr r \<Rightarrow>
               (case mr of
                  Merge_failed \<Rightarrow> (Inl Meta_store_error, s)
                | Merged \<Rightarrow> (Inr (), bump_version c (put_row (m_name m, m_namespace m) r s))
                | Merge_then_error \<Rightarrow>
                    (Inl Meta_store_error, bump_version c (put_row (m_name m, m_namespace m) r s))))"

datatype write_guard = Unconditional | Expect expected_state

definition write_description ::
    "store_try \<Rightarrow> string \<Rightarrow> string \<Rightarrow> description_fields \<Rightarrow> write_guard \<Rightarrow> meta_store \<Rightarrow>
     (meta_exc + write_outcome) \<times> meta_store" where
  "write_description t c ns f g s =
     (if \<not> is_valid_collection_name c \<or> \<not> valid_namespace ns then (Inl Meta_ValueError, s)
      else if \<not> lock_free t then (Inr Lock_timeout, s)
      else case get_collection_meta (read_works t) c ns s of
             Inl e \<Rightarrow> (Inl e, s)
           | Inr None \<Rightarrow> (Inr Collection_missing, s)
           | Inr (Some row) \<Rightarrow>
               (case (case g of Unconditional \<Rightarrow> None | Expect e \<Rightarrow> refusal e row) of
                  Some r \<Rightarrow> (Inr r, s)
                | None \<Rightarrow>
                    (case write_meta (merge t) c (apply_to f row) s of
                       (Inl e, s') \<Rightarrow> (Inl e, s')
                     | (Inr _, s') \<Rightarrow> (Inr Written, s'))))"

text \<open>\<open>delete_collection_meta\<close>; the second argument says whether LanceDB's delete works.\<close>

definition delete_collection_meta :: "bool \<Rightarrow> string \<Rightarrow> string \<Rightarrow> meta_store \<Rightarrow> (meta_exc + unit) \<times> meta_store" where
  "delete_collection_meta works c ns s =
     (if \<not> is_valid_collection_name c \<or> \<not> valid_namespace ns then (Inl Meta_ValueError, s)
      else case meta_rows s (c, ns) of
             None \<Rightarrow> (Inr (), s)
           | Some _ \<Rightarrow>
               (if \<not> works then (Inl Meta_store_error, s)
                else (Inr (), bump_version c (s\<lparr>meta_rows := (meta_rows s)((c, ns) := None)\<rparr>))))"

section \<open>The writer\<close>

datatype description_change =
    Generated_change string int expected_state
  | Manual_set string
  | Clear_change
  | Imported string string

datatype vector_outcome = Refreshed | Removed | Kept_without_vector | Untouched

definition clear_fields :: description_fields where
  "clear_fields =
     \<lparr>f_description = Clear, f_source = Clear, f_status = Clear, f_last_described = Clear, f_described_at = Clear,
      f_embedding = Clear\<rparr>"

definition failure_fields :: description_fields where
  "failure_fields =
     \<lparr>f_description = Keep, f_source = Keep, f_status = Set_to ''failed'', f_last_described = Keep,
      f_described_at = Keep, f_embedding = Keep\<rparr>"

fun change_text :: "description_change \<Rightarrow> string option" where
  "change_text (Generated_change t n e) = Some t"
| "change_text (Manual_set t) = Some t"
| "change_text (Imported t src) = Some t"
| "change_text Clear_change = None"

definition text_fields :: "int \<Rightarrow> description_change \<Rightarrow> vec_item list option \<Rightarrow> description_fields" where
  "text_fields now change vector =
     (let (src, base) =
            (case change of
               Generated_change t n e \<Rightarrow> (''generated'', Set_to n)
             | Manual_set t \<Rightarrow> (''manual'', Keep)
             | Imported t src \<Rightarrow> (src, Clear)
             | Clear_change \<Rightarrow> ([], Clear))
      in \<lparr>f_description = (case change_text change of Some t \<Rightarrow> Set_to t | None \<Rightarrow> Clear), f_source = Set_to src,
          f_status = Set_to ''ok'', f_last_described = Set_to now, f_described_at = base,
          f_embedding = (case vector of None \<Rightarrow> Clear | Some v \<Rightarrow> Set_to v)\<rparr>)"

definition change_guard :: "description_change \<Rightarrow> write_guard" where
  "change_guard change = (case change of Generated_change t n e \<Rightarrow> Expect e | _ \<Rightarrow> Unconditional)"

definition vector_outcome_of :: "write_outcome \<Rightarrow> vector_outcome \<Rightarrow> vector_outcome" where
  "vector_outcome_of outcome landed = (if outcome = Written then landed else Untouched)"

definition usable_vector :: "vec_item list option \<Rightarrow> vec_item list option" where
  "usable_vector v = (case v of Some x \<Rightarrow> if is_storable_vector x then Some x else None | None \<Rightarrow> None)"

text \<open>
  \<open>DescriptionWriter.apply\<close>. \<open>read0\<close> says whether the first read works, \<open>emb\<close> is what the embedder of a model gives for
  a text, and \<open>between\<close> is whatever happens to the store while the embedding runs outside the lock.
\<close>

definition finish_apply ::
    "store_try \<Rightarrow> int \<Rightarrow> string \<Rightarrow> string \<Rightarrow> description_change \<Rightarrow> vec_item list option \<Rightarrow> meta_store \<Rightarrow>
     (meta_exc + write_outcome \<times> vector_outcome) \<times> meta_store" where
  "finish_apply t now c ns change vector s =
     (if \<not> fields_ok (text_fields now change vector) then (Inl Meta_ValueError, s)
      else case write_description t c ns (text_fields now change vector) (change_guard change) s of
             (Inl e, s') \<Rightarrow> (Inl e, s')
           | (Inr outcome, s') \<Rightarrow>
               (Inr (outcome, vector_outcome_of outcome (if vector = None then Kept_without_vector else Refreshed)), s'))"

definition apply_change_of ::
    "store_try \<Rightarrow> bool \<Rightarrow> (string \<Rightarrow> string \<Rightarrow> vec_item list option) \<Rightarrow> (meta_store \<Rightarrow> meta_store) \<Rightarrow> int \<Rightarrow> string \<Rightarrow>
     string \<Rightarrow> string \<Rightarrow> description_change \<Rightarrow> meta_store \<Rightarrow> (meta_exc + write_outcome \<times> vector_outcome) \<times> meta_store" where
  "apply_change_of t read0 emb between now default_model c ns change s =
     (case change_text change of
        None \<Rightarrow>
          (case write_description t c ns clear_fields Unconditional s of
             (Inl e, s') \<Rightarrow> (Inl e, s')
           | (Inr outcome, s') \<Rightarrow> (Inr (outcome, vector_outcome_of outcome Removed), s'))
      | Some text \<Rightarrow>
          (if check_description_text text \<noteq> None then (Inl Meta_ValueError, s)
           else case get_collection_meta read0 c ns s of
                  Inl e \<Rightarrow> (Inl e, s)
                | Inr None \<Rightarrow> (Inr (Collection_missing, Untouched), s)
                | Inr (Some row) \<Rightarrow>
                    (let model = (if m_active_model row = [] then default_model else m_active_model row)
                     in finish_apply t now c ns change (usable_vector (emb model text)) (between s))))"

definition record_failure ::
    "store_try \<Rightarrow> string \<Rightarrow> string \<Rightarrow> expected_state \<Rightarrow> meta_store \<Rightarrow> (meta_exc + write_outcome) \<times> meta_store" where
  "record_failure t c ns e s = write_description t c ns failure_fields (Expect e) s"

section \<open>Set and clear for a caller\<close>

datatype change_status = Changed collection_meta | Not_found | Store_busy

definition apply_description_change ::
    "store_try \<Rightarrow> bool \<Rightarrow> bool \<Rightarrow> bool \<Rightarrow> (string \<Rightarrow> string \<Rightarrow> vec_item list option) \<Rightarrow> (meta_store \<Rightarrow> meta_store) \<Rightarrow> int \<Rightarrow>
     string \<Rightarrow> string \<Rightarrow> string \<Rightarrow> description_change \<Rightarrow> meta_store \<Rightarrow> (meta_exc + change_status) \<times> meta_store" where
  "apply_description_change t read0 read1 read2 emb between now default_model c ns change s =
     (if \<not> is_valid_collection_name c then (Inr Not_found, s)
      else case get_collection_meta read0 c ns s of
             Inl e \<Rightarrow> (Inl e, s)
           | Inr None \<Rightarrow> (Inr Not_found, s)
           | Inr (Some _) \<Rightarrow>
               (case apply_change_of t read1 emb between now default_model c ns change s of
                  (Inl e, s') \<Rightarrow> (Inl e, s')
                | (Inr (Lock_timeout, _), s') \<Rightarrow> (Inr Store_busy, s')
                | (Inr (Collection_missing, _), s') \<Rightarrow> (Inr Not_found, s')
                | (Inr (Written, _), s') \<Rightarrow>
                    (case get_collection_meta read2 c ns s' of
                       Inl e \<Rightarrow> (Inl e, s')
                     | Inr None \<Rightarrow> (Inr Not_found, s')
                     | Inr (Some m) \<Rightarrow> (Inr (Changed m), s'))
                | (Inr _, s') \<Rightarrow> (Inl Meta_RuntimeError, s')))"

end
