(* ===== verification/Description_Lifecycle.thy ===== *)
theory Description_Lifecycle
  imports Description_Write
begin

text \<open>
  \<open>archon_search/description_lifecycle.py\<close>: the service that owns every description generation, and the rule
  \<open>_should_regenerate\<close> of \<open>archon_search/description_generator.py\<close>.

  A generation is a task with a phase, the \<open>await\<close> it is parked at. One function per stretch between two awaits: a request
  after its read, the grant of the slot, the three parts of a row read (version, snapshot, comparison), the answer of the
  generator, the guarded write, the recording of a failure, a cancellation. \<open>service_step\<close> interleaves them with each other
  and with shutdown, \<open>life_step\<close> also with every other change of the metadata rows. What the awaited calls answer (the
  generator's text, the vector, whether the lock was free, whether LanceDB worked) is free in each step. The operator's
  texts of a settlement are left out.
\<close>

datatype generation_kind = Describe | Ingest | Backfill

fun slot_rank :: "generation_kind \<Rightarrow> nat" where
  "slot_rank Describe = 0"
| "slot_rank Ingest = 1"
| "slot_rank Backfill = 2"

datatype request_outcome =
  Accepted | Already_running | Refused_manual_request | Not_required | Queue_full | Closed | Unreadable

datatype generation_result =
  R_generated | R_failed | R_already_running | R_refused_manual | R_superseded | R_shutting_down | R_not_required | R_dropped

text \<open>
  The share is compared as fractions: for counts below \<open>2 ^ 52\<close> the rounded division gives the same answer.
\<close>

definition should_regenerate :: "int \<Rightarrow> int \<Rightarrow> int option \<Rightarrow> bool" where
  "should_regenerate docs chunks described_at =
     (if chunks = 0 then False
      else case described_at of
             None \<Rightarrow> True
           | Some n \<Rightarrow> if n = 0 then True else 0 < n \<and> 5 * \<bar>docs - n\<bar> \<ge> n)"

definition generation_refusal :: "generation_kind \<Rightarrow> collection_meta \<Rightarrow> generation_result option" where
  "generation_refusal kind m =
     (if m_source m = Some ''manual'' then Some R_refused_manual
      else if kind = Ingest \<and> \<not> should_regenerate (m_doc_count m) (m_chunk_count m) (m_described_at m)
      then Some R_not_required
      else if kind = Backfill \<and> (or_none (m_description m) \<noteq> None \<or> m_status m = Some ''failed'')
      then Some R_not_required
      else None)"

section \<open>The slot\<close>

text \<open>
  A place is the number of its job. \<open>cancelled\<close> are the places whose future was cancelled while it waited: \<open>task.cancel\<close>
  cancels the future a task awaits, and the task removes its place only when it next runs.
\<close>

record slot =
  max_queued :: nat
  holder :: "nat option"
  waiting :: "(nat \<times> nat \<times> nat) list"
  arrival :: nat
  cancelled :: "nat list"

definition is_full :: "slot \<Rightarrow> bool" where
  "is_full s \<longleftrightarrow> holder s \<noteq> None \<and> length (waiting s) \<ge> max_queued s"

definition reserve :: "nat \<Rightarrow> nat \<Rightarrow> slot \<Rightarrow> slot" where
  "reserve rank j s =
     (if holder s = None then s\<lparr>holder := Some j\<rparr>
      else s\<lparr>waiting := (rank, arrival s, j) # waiting s, arrival := Suc (arrival s)\<rparr>)"

text \<open>\<open>heapq.heappop\<close> takes the least entry; arrival numbers differ, so no two entries tie.\<close>

function pass_on :: "slot \<Rightarrow> slot" where
  "pass_on s =
     (if waiting s = [] then s\<lparr>holder := None\<rparr>
      else
        (let e = min_list (waiting s); s' = s\<lparr>waiting := remove1 e (waiting s)\<rparr>; j = snd (snd e)
         in if j \<notin> set (cancelled s) then s'\<lparr>holder := Some j\<rparr> else pass_on s'))"
  by pat_completeness auto

lemma min_list_in: "xs \<noteq> [] \<Longrightarrow> min_list xs \<in> set xs"
  for xs :: "'a :: linorder list"
  by (simp add: min_list_Min)

termination pass_on
  by (relation "measure (\<lambda>s. length (waiting s))") (auto simp: length_remove1 min_list_in)

definition release :: "nat \<Rightarrow> slot \<Rightarrow> slot" where
  "release j s =
     (if holder s = Some j then pass_on s
      else
        (let remaining = filter (\<lambda>e. snd (snd e) \<noteq> j) (waiting s)
         in if length remaining \<noteq> length (waiting s) then s\<lparr>waiting := remaining, cancelled := j # cancelled s\<rparr> else s))"

section \<open>Jobs\<close>

datatype phase =
    Awaiting_slot
  | Reading nat
  | Snapshot nat "collection_meta option"
  | Generating expected_state int
  | Applying string expected_state int
  | Saving string expected_state int "vec_item list option"
  | Recording expected_state
  | Done generation_result

record generation_job =
  j_collection :: string
  j_namespace :: string
  j_kind :: generation_kind
  j_phase :: phase
  j_version :: "nat option"

record lifecycle =
  lc_slot :: slot
  in_flight :: "string list"
  unstored_failures :: "(string, nat) dict"
  gjobs :: "nat \<Rightarrow> generation_job option"
  next_job :: nat
  lc_closed :: bool
  last_attempt_ok :: "bool option"

definition new_lifecycle :: "nat \<Rightarrow> lifecycle" where
  "new_lifecycle n =
     \<lparr>lc_slot = \<lparr>max_queued = n, holder = None, waiting = [], arrival = 0, cancelled = []\<rparr>, in_flight = [],
      unstored_failures = [], gjobs = Map.empty, next_job = 0, lc_closed = False, last_attempt_ok = None\<rparr>"

definition refused_without_reading :: "string \<Rightarrow> lifecycle \<Rightarrow> (request_outcome \<times> generation_result) option" where
  "refused_without_reading c l =
     (if lc_closed l then Some (Closed, R_shutting_down)
      else if c \<in> set (in_flight l) then Some (Already_running, R_already_running)
      else None)"

definition queue_full :: "generation_kind \<Rightarrow> request_outcome \<times> generation_result" where
  "queue_full kind = (Queue_full, if kind = Describe then R_failed else R_dropped)"

text \<open>\<open>_admit\<close>: the answer has no settlement yet when the request is accepted.\<close>

definition admit ::
    "string \<Rightarrow> string \<Rightarrow> generation_kind \<Rightarrow> lifecycle \<Rightarrow> (request_outcome \<times> generation_result option) \<times> lifecycle" where
  "admit c ns kind l =
     (if is_full (lc_slot l) then ((fst (queue_full kind), Some (snd (queue_full kind))), l)
      else
        ((Accepted, None),
         l\<lparr>lc_slot := reserve (slot_rank kind) (next_job l) (lc_slot l),
           in_flight := c # in_flight l,
           gjobs := (gjobs l)(next_job l \<mapsto>
             \<lparr>j_collection = c, j_namespace = ns, j_kind = kind, j_phase = Awaiting_slot, j_version = None\<rparr>),
           next_job := Suc (next_job l)\<rparr>))"

fun outcome_of_refusal :: "generation_result \<Rightarrow> request_outcome" where
  "outcome_of_refusal R_refused_manual = Refused_manual_request"
| "outcome_of_refusal _ = Not_required"

text \<open>\<open>request_generation\<close> once its read has answered; the checks before the read are repeated.\<close>

definition request_generation ::
    "string \<Rightarrow> string \<Rightarrow> generation_kind \<Rightarrow> meta_exc + collection_meta option \<Rightarrow> lifecycle \<Rightarrow>
     (request_outcome \<times> generation_result option) \<times> lifecycle" where
  "request_generation c ns kind read l =
     (case read of
        Inl e \<Rightarrow> ((Unreadable, Some R_failed), l)
      | Inr meta \<Rightarrow>
          (case refused_without_reading c l of
             Some (out, res) \<Rightarrow> ((out, Some res), l)
           | None \<Rightarrow>
               (case meta of
                  None \<Rightarrow> ((Not_required, Some R_not_required), l)
                | Some m \<Rightarrow>
                    (case generation_refusal kind m of
                       Some res \<Rightarrow> ((outcome_of_refusal res, Some res), l)
                     | None \<Rightarrow> admit c ns kind l))))"

definition overlay_status :: "lifecycle \<Rightarrow> meta_store \<Rightarrow> string \<Rightarrow> string option \<Rightarrow> string option" where
  "overlay_status l s c stored =
     (if c \<in> set (in_flight l) then Some ''pending''
      else if dict_get (unstored_failures l) c = Some (versions s c) then Some ''failed''
      else stored)"

definition is_pending :: "lifecycle \<Rightarrow> string \<Rightarrow> bool" where
  "is_pending l c \<longleftrightarrow> c \<in> set (in_flight l)"

text \<open>
  \<open>generate_now\<close> once its ticket settled; \<open>read\<close> is the row read of \<open>_visible_status\<close>.
\<close>

definition visible_status ::
    "lifecycle \<Rightarrow> meta_store \<Rightarrow> string \<Rightarrow> meta_exc + collection_meta option \<Rightarrow> string option" where
  "visible_status l s c read =
     (case read of Inl _ \<Rightarrow> None | Inr meta \<Rightarrow> overlay_status l s c (Option.bind meta m_status))"

definition describe_settlement ::
    "lifecycle \<Rightarrow> meta_store \<Rightarrow> string \<Rightarrow> meta_exc + collection_meta option \<Rightarrow> request_outcome \<Rightarrow> generation_result \<Rightarrow>
     generation_result \<times> string option" where
  "describe_settlement l s c read out res =
     (if out = Unreadable then (res, None)
      else
        (let r = (if res = R_not_required then R_superseded else res)
         in if r = R_shutting_down then (r, None) else (r, visible_status l s c read)))"

definition set_phase :: "nat \<Rightarrow> phase \<Rightarrow> lifecycle \<Rightarrow> lifecycle" where
  "set_phase j p l = l\<lparr>gjobs := (gjobs l)(j := map_option (\<lambda>x. x\<lparr>j_phase := p\<rparr>) (gjobs l j))\<rparr>"

definition is_done :: "generation_job \<Rightarrow> bool" where
  "is_done x = (case j_phase x of Done _ \<Rightarrow> True | _ \<Rightarrow> False)"

text \<open>\<open>_finish\<close> runs once: a job that is done stays as it settled.\<close>

definition finish :: "nat \<Rightarrow> generation_result \<Rightarrow> lifecycle \<Rightarrow> lifecycle" where
  "finish j res l =
     (case gjobs l j of
        None \<Rightarrow> l
      | Some x \<Rightarrow>
          (if is_done x then l
           else
             (set_phase j (Done res) l)\<lparr>
               in_flight := removeAll (j_collection x) (in_flight l),
               lc_slot := release j (lc_slot l),
               last_attempt_ok :=
                 (if res = R_generated then Some True else if res = R_failed then Some False else last_attempt_ok l)\<rparr>))"

definition leave_slot :: "nat \<Rightarrow> lifecycle \<Rightarrow> lifecycle" where
  "leave_slot j l = l\<lparr>lc_slot := release j (lc_slot l)\<rparr>"

definition remember_unstored_failure :: "generation_job \<Rightarrow> meta_store \<Rightarrow> lifecycle \<Rightarrow> lifecycle" where
  "remember_unstored_failure x s l =
     (let current = filter (\<lambda>(name, version). version = versions s name) (unstored_failures l)
      in l\<lparr>unstored_failures :=
             (case j_version x of None \<Rightarrow> current | Some v \<Rightarrow> dict_set (j_collection x) v current)\<rparr>)"

section \<open>The stretches of a run\<close>

definition row_read_attempts :: nat where
  "row_read_attempts = 3"

text \<open>The start of one attempt of \<open>_read_row\<close>; \<open>k\<close> attempts are left after it.\<close>

definition start_read :: "nat \<Rightarrow> generation_job \<Rightarrow> nat \<Rightarrow> meta_store \<Rightarrow> lifecycle \<Rightarrow> lifecycle" where
  "start_read j x k s l =
     l\<lparr>gjobs := (gjobs l)(j \<mapsto> x\<lparr>j_version := Some (versions s (j_collection x)), j_phase := Reading k\<rparr>)\<rparr>"

definition read_resumes :: "nat \<Rightarrow> generation_job \<Rightarrow> nat \<Rightarrow> collection_meta option \<Rightarrow> meta_store \<Rightarrow> lifecycle \<Rightarrow> lifecycle" where
  "read_resumes j x k meta s l =
     (if k > 0 \<and> j_version x \<noteq> Some (versions s (j_collection x)) then start_read j x (k - 1) s l
      else case meta of
             None \<Rightarrow> finish j R_superseded (leave_slot j l)
           | Some m \<Rightarrow>
               (case generation_refusal (j_kind x) m of
                  Some res \<Rightarrow> finish j res (leave_slot j l)
                | None \<Rightarrow>
                    set_phase j (Generating \<lparr>e_description = m_description m, e_source = m_source m,
                                    e_last_described = m_last_described m, e_status = m_status m\<rparr> (m_doc_count m)) l))"

text \<open>The answer of the generator: a text, or \<open>None\<close> for a failure. The slot is left first.\<close>

definition generator_answers :: "nat \<Rightarrow> string option \<Rightarrow> expected_state \<Rightarrow> int \<Rightarrow> lifecycle \<Rightarrow> lifecycle" where
  "generator_answers j answer e docs l =
     (case answer of
        None \<Rightarrow> set_phase j (Recording e) (leave_slot j l)
      | Some t \<Rightarrow>
          (if check_description_text t \<noteq> None then set_phase j (Recording e) (leave_slot j l)
           else set_phase j (Applying t e docs) (leave_slot j l)))"

fun result_of_write :: "write_outcome \<Rightarrow> generation_result" where
  "result_of_write Written = R_generated"
| "result_of_write Refused_manual = R_refused_manual"
| "result_of_write Refused_stale = R_superseded"
| "result_of_write Collection_missing = R_superseded"
| "result_of_write Lock_timeout = R_failed"

text \<open>The row that gives the writer its model has been read: missing, or the embedding begins.\<close>

definition apply_reads ::
    "nat \<Rightarrow> string \<Rightarrow> expected_state \<Rightarrow> int \<Rightarrow> meta_exc + collection_meta option \<Rightarrow> vec_item list option \<Rightarrow> lifecycle \<Rightarrow> lifecycle" where
  "apply_reads j t e docs read vector l =
     (case read of
        Inl _ \<Rightarrow> set_phase j (Recording e) l
      | Inr None \<Rightarrow> finish j (result_of_write Collection_missing) l
      | Inr (Some _) \<Rightarrow> set_phase j (Saving t e docs (usable_vector vector)) l)"

definition save_lands ::
    "nat \<Rightarrow> generation_job \<Rightarrow> string \<Rightarrow> expected_state \<Rightarrow> int \<Rightarrow> vec_item list option \<Rightarrow> store_try \<Rightarrow> int \<Rightarrow> meta_store \<Rightarrow>
     lifecycle \<Rightarrow> meta_store \<times> lifecycle" where
  "save_lands j x t e docs vector try now s l =
     (case finish_apply try now (j_collection x) (j_namespace x) (Generated_change t docs e) vector s of
        (Inl _, s') \<Rightarrow> (s', set_phase j (Recording e) l)
      | (Inr (outcome, _), s') \<Rightarrow>
          (if outcome = Lock_timeout then (s', set_phase j (Recording e) l)
           else (s', finish j (result_of_write outcome) l)))"

fun result_of_recorded :: "write_outcome \<Rightarrow> generation_result" where
  "result_of_recorded Refused_manual = R_refused_manual"
| "result_of_recorded Refused_stale = R_superseded"
| "result_of_recorded Collection_missing = R_superseded"
| "result_of_recorded _ = R_failed"

definition record_lands ::
    "nat \<Rightarrow> generation_job \<Rightarrow> expected_state \<Rightarrow> store_try \<Rightarrow> meta_store \<Rightarrow> lifecycle \<Rightarrow> meta_store \<times> lifecycle" where
  "record_lands j x e try s l =
     (case record_failure try (j_collection x) (j_namespace x) e s of
        (Inl _, s') \<Rightarrow> (s', finish j R_failed (remember_unstored_failure x s' l))
      | (Inr recorded, s') \<Rightarrow>
          (s', finish j (result_of_recorded recorded)
                 (if recorded = Lock_timeout then remember_unstored_failure x s' l else l)))"

text \<open>A row read that raises ends the run as failed, and the failure is only remembered.\<close>

definition read_raises :: "nat \<Rightarrow> generation_job \<Rightarrow> meta_store \<Rightarrow> lifecycle \<Rightarrow> lifecycle" where
  "read_raises j x s l = finish j R_failed (remember_unstored_failure x s (leave_slot j l))"

definition close :: "lifecycle \<Rightarrow> lifecycle" where
  "close l = l\<lparr>lc_closed := True\<rparr>"

section \<open>All interleavings\<close>

record life_world =
  life :: lifecycle
  mstore :: meta_store

text \<open>A change of rows by anyone else: an unguarded write with valid fields, a delete, a row of a new collection (written by
  the row writer), or an update by the row writer that leaves the description fields alone.\<close>

inductive other_change :: "meta_store \<Rightarrow> meta_store \<Rightarrow> bool" where
  set_or_clear: "fields_ok f \<Longrightarrow> write_description t c ns f Unconditional s = (r, s') \<Longrightarrow> other_change s s'"
| delete: "delete_collection_meta works c ns s = (r, s') \<Longrightarrow> other_change s s'"
| create: "meta_rows s (m_name m, m_namespace m) = None \<Longrightarrow> meta_to_row m = Inr r \<Longrightarrow> m_namespace m \<noteq> [] \<Longrightarrow>
    other_change s (put_row (m_name m, m_namespace m) r s)"
| upkeep: "meta_rows s (m_name m, m_namespace m) = Some r \<Longrightarrow> row_to_meta r = Inr m \<Longrightarrow> meta_to_row m' = Inr r' \<Longrightarrow>
    m_name m' = m_name m \<Longrightarrow> m_namespace m' = m_namespace m \<Longrightarrow>
    m_description m' = m_description m \<Longrightarrow> m_source m' = m_source m \<Longrightarrow> m_status m' = m_status m \<Longrightarrow>
    m_last_described m' = m_last_described m \<Longrightarrow> other_change s (put_row (m_name m, m_namespace m) r' s)"

text \<open>
  What the service itself does; every other change of the rows comes between. A task that is cancelled while it saves may
  leave its write landed or not.
\<close>

inductive service_step :: "life_world \<Rightarrow> life_world \<Rightarrow> bool" where
  request: "request_generation c ns kind read l = (answer, l') \<Longrightarrow>
     service_step \<lparr>life = l, mstore = s\<rparr> \<lparr>life = l', mstore = s\<rparr>"
| granted: "gjobs l j = Some x \<Longrightarrow> j_phase x = Awaiting_slot \<Longrightarrow> holder (lc_slot l) = Some j \<Longrightarrow>
     service_step \<lparr>life = l, mstore = s\<rparr> \<lparr>life = start_read j x (row_read_attempts - 1) s l, mstore = s\<rparr>"
| snapshot: "gjobs l j = Some x \<Longrightarrow> j_phase x = Reading k \<Longrightarrow>
     get_collection_meta True (j_collection x) (j_namespace x) s = Inr meta \<Longrightarrow>
     service_step \<lparr>life = l, mstore = s\<rparr> \<lparr>life = set_phase j (Snapshot k meta) l, mstore = s\<rparr>"
| read_back: "gjobs l j = Some x \<Longrightarrow> j_phase x = Snapshot k meta \<Longrightarrow>
     service_step \<lparr>life = l, mstore = s\<rparr> \<lparr>life = read_resumes j x k meta s l, mstore = s\<rparr>"
| read_error: "gjobs l j = Some x \<Longrightarrow> j_phase x = Reading k \<Longrightarrow>
     service_step \<lparr>life = l, mstore = s\<rparr> \<lparr>life = read_raises j x s l, mstore = s\<rparr>"
| generated: "gjobs l j = Some x \<Longrightarrow> j_phase x = Generating e docs \<Longrightarrow>
     service_step \<lparr>life = l, mstore = s\<rparr> \<lparr>life = generator_answers j answer e docs l, mstore = s\<rparr>"
| apply_read: "gjobs l j = Some x \<Longrightarrow> j_phase x = Applying t e docs \<Longrightarrow>
     service_step \<lparr>life = l, mstore = s\<rparr> \<lparr>life = apply_reads j t e docs read vector l, mstore = s\<rparr>"
| saved: "gjobs l j = Some x \<Longrightarrow> j_phase x = Saving t e docs vector \<Longrightarrow>
     save_lands j x t e docs vector try now s l = (s', l') \<Longrightarrow>
     service_step \<lparr>life = l, mstore = s\<rparr> \<lparr>life = l', mstore = s'\<rparr>"
| recorded: "gjobs l j = Some x \<Longrightarrow> j_phase x = Recording e \<Longrightarrow> record_lands j x e try s l = (s', l') \<Longrightarrow>
     service_step \<lparr>life = l, mstore = s\<rparr> \<lparr>life = l', mstore = s'\<rparr>"
| closes: "service_step \<lparr>life = l, mstore = s\<rparr> \<lparr>life = close l, mstore = s\<rparr>"
| cancels_place: "lc_closed l \<Longrightarrow> gjobs l j = Some x \<Longrightarrow> j_phase x = Awaiting_slot \<Longrightarrow> holder (lc_slot l) \<noteq> Some j \<Longrightarrow>
     service_step \<lparr>life = l, mstore = s\<rparr>
       \<lparr>life = l\<lparr>lc_slot := (lc_slot l)\<lparr>cancelled := j # cancelled (lc_slot l)\<rparr>\<rparr>, mstore = s\<rparr>"
| cancelled_runs: "lc_closed l \<Longrightarrow> gjobs l j = Some x \<Longrightarrow>
     service_step \<lparr>life = l, mstore = s\<rparr> \<lparr>life = finish j R_shutting_down (leave_slot j l), mstore = s\<rparr>"
| cancelled_saving: "lc_closed l \<Longrightarrow> gjobs l j = Some x \<Longrightarrow> j_phase x = Saving t e docs vector \<Longrightarrow>
     finish_apply try now (j_collection x) (j_namespace x) (Generated_change t docs e) vector s = (r, s') \<Longrightarrow>
     service_step \<lparr>life = l, mstore = s\<rparr> \<lparr>life = finish j R_shutting_down (leave_slot j l), mstore = s'\<rparr>"
| cancelled_recording: "lc_closed l \<Longrightarrow> gjobs l j = Some x \<Longrightarrow> j_phase x = Recording e \<Longrightarrow>
     record_failure try (j_collection x) (j_namespace x) e s = (r, s') \<Longrightarrow>
     service_step \<lparr>life = l, mstore = s\<rparr> \<lparr>life = finish j R_shutting_down (leave_slot j l), mstore = s'\<rparr>"

inductive life_step :: "life_world \<Rightarrow> life_world \<Rightarrow> bool" where
  service: "service_step w w' \<Longrightarrow> life_step w w'"
| others: "other_change (mstore w) s' \<Longrightarrow> life_step w (w\<lparr>mstore := s'\<rparr>)"

definition life_start :: "life_world \<Rightarrow> bool" where
  "life_start w \<longleftrightarrow> (\<exists>n. life w = new_lifecycle n)"

end
