(* ===== verification/Lifecycle_Facts.thy ===== *)
theory Lifecycle_Facts
  imports Description_Lifecycle
begin

text \<open>
  The invariant of the description lifecycle: one unfinished job per collection, the slot belongs to the one job that
  drafts, every waiting job has its place, and a free slot has no queue.
\<close>

section \<open>The slot\<close>

definition places :: "slot \<Rightarrow> nat list" where
  "places s = map (\<lambda>e. snd (snd e)) (waiting s)"

text \<open>\<open>W\<close> are the jobs that await the slot, \<open>D\<close> those that draft.\<close>

definition slot_ok :: "slot \<Rightarrow> nat set \<Rightarrow> nat set \<Rightarrow> bool" where
  "slot_ok s W D \<longleftrightarrow>
     (\<forall>j \<in> D. holder s = Some j) \<and> (\<forall>j. holder s = Some j \<longrightarrow> j \<in> W \<union> D) \<and>
     distinct (places s) \<and> set (places s) \<subseteq> W \<and> (\<forall>j. holder s = Some j \<longrightarrow> j \<notin> set (places s)) \<and>
     (holder s = None \<longrightarrow> waiting s = []) \<and>
     (\<forall>j \<in> W. holder s = Some j \<or> j \<in> set (places s) \<or> j \<in> set (cancelled s)) \<and>
     length (waiting s) \<le> max_queued s"

declare pass_on.simps [simp del]

lemma slot_okI:
  assumes "\<And>j. j \<in> D \<Longrightarrow> holder s = Some j" and "\<And>j. holder s = Some j \<Longrightarrow> j \<in> W \<union> D \<and> j \<notin> set (places s)"
    and "distinct (places s)" and "\<And>j. j \<in> set (places s) \<Longrightarrow> j \<in> W"
    and "holder s = None \<Longrightarrow> waiting s = []"
    and "\<And>j. j \<in> W \<Longrightarrow> holder s \<noteq> Some j \<Longrightarrow> j \<notin> set (places s) \<Longrightarrow> j \<in> set (cancelled s)"
    and "length (waiting s) \<le> max_queued s"
  shows "slot_ok s W D"
  unfolding slot_ok_def using assms by blast

lemma slot_okD:
  assumes "slot_ok s W D"
  shows "j \<in> D \<Longrightarrow> holder s = Some j" and "holder s = Some j \<Longrightarrow> j \<in> W \<union> D" and "holder s = Some j \<Longrightarrow> j \<notin> set (places s)"
    and "distinct (places s)" and "j \<in> set (places s) \<Longrightarrow> j \<in> W"
    and "holder s = None \<Longrightarrow> waiting s = []"
    and "j \<in> W \<Longrightarrow> holder s \<noteq> Some j \<Longrightarrow> j \<notin> set (places s) \<Longrightarrow> j \<in> set (cancelled s)"
    and "length (waiting s) \<le> max_queued s"
  using assms unfolding slot_ok_def by blast+

lemma places_remove1:
  assumes "distinct (places s)" and "e \<in> set (waiting s)"
  shows "places (s\<lparr>waiting := remove1 e (waiting s)\<rparr>) = filter (\<lambda>j. j \<noteq> snd (snd e)) (places s)"
proof -
  obtain xs ys where w: "waiting s = xs @ e # ys" using split_list [OF assms(2)] by blast
  have n: "\<forall>i \<in> set (map (\<lambda>e. snd (snd e)) (xs @ ys)). i \<noteq> snd (snd e)"
    using assms(1) by (auto simp: places_def w)
  then have "remove1 e (waiting s) = xs @ ys" by (auto simp: w remove1_append)
  moreover have "filter (\<lambda>j. j \<noteq> snd (snd e)) (places s) = filter (\<lambda>j. j \<noteq> snd (snd e)) (map (\<lambda>e. snd (snd e)) (xs @ ys))"
    by (simp add: places_def w)
  moreover have "\<dots> = map (\<lambda>e. snd (snd e)) (xs @ ys)" using n by (rule filter_True)
  ultimately show ?thesis by (simp add: places_def)
qed

text \<open>What \<open>_pass_on\<close> does with the queue.\<close>

definition passed_on :: "slot \<Rightarrow> slot \<Rightarrow> bool" where
  "passed_on s s' \<longleftrightarrow>
     distinct (places s') \<and> set (places s') \<subseteq> set (places s) \<and>
     (\<forall>j. holder s' = Some j \<longrightarrow> j \<in> set (places s) \<and> j \<notin> set (places s') \<and> j \<notin> set (cancelled s)) \<and>
     (holder s' = None \<longrightarrow> waiting s' = []) \<and>
     (\<forall>j \<in> set (places s). holder s' = Some j \<or> j \<in> set (places s') \<or> j \<in> set (cancelled s)) \<and>
     length (waiting s') \<le> length (waiting s) \<and> cancelled s' = cancelled s \<and> max_queued s' = max_queued s"

lemma pass_on_empty: "waiting s = [] \<Longrightarrow> pass_on s = s\<lparr>holder := None\<rparr>"
  by (simp add: pass_on.simps [of s])

lemma pass_on_next:
  assumes "waiting s \<noteq> []"
  shows "pass_on s =
    (let e = min_list (waiting s); s' = s\<lparr>waiting := remove1 e (waiting s)\<rparr>
     in if snd (snd e) \<notin> set (cancelled s) then s'\<lparr>holder := Some (snd (snd e))\<rparr> else pass_on s')"
  using assms by (simp add: pass_on.simps [of s] Let_def)

lemma pass_on_ok:
  assumes "distinct (places s)"
  shows "passed_on s (pass_on s)"
  using assms
proof (induction s rule: pass_on.induct)
  case (1 s)
  show ?case
  proof (cases "waiting s = []")
    case True
    then show ?thesis by (simp add: pass_on_empty passed_on_def places_def)
  next
    case w: False
    define e s' where "e = min_list (waiting s)" and "s' = s\<lparr>waiting := remove1 e (waiting s)\<rparr>"
    have e: "e \<in> set (waiting s)" unfolding e_def using w by (rule min_list_in)
    then have j: "snd (snd e) \<in> set (places s)" by (force simp: places_def)
    have pl: "places s' = filter (\<lambda>j. j \<noteq> snd (snd e)) (places s)"
      unfolding s'_def using "1.prems" e by (rule places_remove1)
    have len: "length (waiting s') \<le> length (waiting s)" by (simp add: s'_def length_remove1)
    have same: "cancelled s' = cancelled s" "max_queued s' = max_queued s" by (simp_all add: s'_def)
    show ?thesis
    proof (cases "snd (snd e) \<in> set (cancelled s)")
      case False
      have p: "pass_on s = s'\<lparr>holder := Some (snd (snd e))\<rparr>"
        using False by (simp add: pass_on_next [OF w] Let_def e_def s'_def)
      have "places (s'\<lparr>holder := Some (snd (snd e))\<rparr>) = places s'" by (simp add: places_def)
      then show ?thesis unfolding passed_on_def p using "1.prems" j len False same by (auto simp: pl)
    next
      case True
      have p: "pass_on s = pass_on s'"
        using True by (simp add: pass_on_next [OF w] Let_def e_def s'_def)
      have "distinct (places s')" using "1.prems" by (simp add: pl)
      then have "passed_on s' (pass_on s')"
        using "1.IH" [OF w refl refl refl] True by (simp add: e_def s'_def)
      then show ?thesis using len True unfolding passed_on_def p same by (auto simp: pl)
    qed
  qed
qed

lemma release_holder_ok:
  assumes "slot_ok s W D" and "holder s = Some j"
  shows "slot_ok (pass_on s) (W - {j}) (D - {j})"
proof -
  note ok = slot_okD [OF assms(1)]
  have p: "passed_on s (pass_on s)" by (rule pass_on_ok [OF ok(4)])
  have j: "j \<notin> set (places s)" using ok(3) assms(2) .
  show ?thesis
  proof (rule slot_okI)
    show "holder (pass_on s) = Some i" if "i \<in> D - {j}" for i using that ok(1) assms(2) by auto
    show "i \<in> W - {j} \<union> (D - {j}) \<and> i \<notin> set (places (pass_on s))" if "holder (pass_on s) = Some i" for i
      using that p j ok(5) unfolding passed_on_def by blast
    show "distinct (places (pass_on s))" using p by (simp add: passed_on_def)
    show "i \<in> W - {j}" if "i \<in> set (places (pass_on s))" for i using that p j ok(5) unfolding passed_on_def by blast
    show "waiting (pass_on s) = []" if "holder (pass_on s) = None" using that p by (simp add: passed_on_def)
    show "i \<in> set (cancelled (pass_on s))"
      if "i \<in> W - {j}" and "holder (pass_on s) \<noteq> Some i" and "i \<notin> set (places (pass_on s))" for i
    proof (cases "i \<in> set (places s)")
      case True
      then show ?thesis using that p by (auto simp: passed_on_def)
    next
      case False
      then have "i \<in> set (cancelled s)" using ok(7) [of i] that(1) assms(2) by auto
      then show ?thesis using p by (simp add: passed_on_def)
    qed
    show "length (waiting (pass_on s)) \<le> max_queued (pass_on s)" using p ok(8) by (simp add: passed_on_def)
  qed
qed

lemma leave_queue_ok:
  assumes "slot_ok s W D" and "holder s \<noteq> Some j"
  shows "slot_ok (s\<lparr>waiting := filter (\<lambda>e. snd (snd e) \<noteq> j) (waiting s), cancelled := j # cancelled s\<rparr>) (W - {j}) (D - {j})"
    (is "slot_ok ?s _ _")
proof -
  note ok = slot_okD [OF assms(1)]
  have pl: "places ?s = filter (\<lambda>i. i \<noteq> j) (places s)" by (simp add: places_def filter_map comp_def)
  have len: "length (filter (\<lambda>e. snd (snd e) \<noteq> j) (waiting s)) \<le> length (waiting s)" by simp
  show ?thesis
  proof (rule slot_okI)
    show "holder ?s = Some i" if "i \<in> D - {j}" for i using that ok(1) by auto
    show "i \<in> W - {j} \<union> (D - {j}) \<and> i \<notin> set (places ?s)" if "holder ?s = Some i" for i
      using that ok(2,3) [of i] assms(2) unfolding pl by auto
    show "distinct (places ?s)" unfolding pl using ok(4) by simp
    show "i \<in> W - {j}" if "i \<in> set (places ?s)" for i using that ok(5) [of i] unfolding pl by auto
    show "waiting ?s = []" if "holder ?s = None" using that ok(6) by simp
    show "i \<in> set (cancelled ?s)" if "i \<in> W - {j}" and "holder ?s \<noteq> Some i" and "i \<notin> set (places ?s)" for i
      using that ok(7) [of i] unfolding pl by auto
    show "length (waiting ?s) \<le> max_queued ?s" using le_trans [OF len ok(8)] by simp
  qed
qed

lemma release_ok:
  assumes "slot_ok s W D"
  shows "slot_ok (release j s) (W - {j}) (D - {j})"
proof (cases "holder s = Some j")
  case True
  with assms show ?thesis by (simp add: release_def release_holder_ok)
next
  case False
  note left = leave_queue_ok [OF assms False]
  show ?thesis
  proof (cases "length (filter (\<lambda>e. snd (snd e) \<noteq> j) (waiting s)) = length (waiting s)")
    case True
    then have r: "release j s = s" using False by (simp add: release_def)
    have "filter (\<lambda>e. snd (snd e) \<noteq> j) (waiting s) = waiting s"
      using True by (metis filter_True length_filter_less less_irrefl)
    then have absent: "j \<notin> set (places s)" by (auto simp: places_def filter_id_conv)
    note ok = slot_okD [OF assms]
    show ?thesis unfolding r
    proof (rule slot_okI)
      show "i \<in> W - {j} \<union> (D - {j}) \<and> i \<notin> set (places s)" if "holder s = Some i" for i
        using that ok(2,3) [of i] False by auto
      show "i \<in> W - {j}" if "i \<in> set (places s)" for i using that ok(5) [of i] absent by auto
    qed (use ok in auto)
  next
    case 2: False
    then show ?thesis using left False by (simp add: release_def Let_def)
  qed
qed

lemma reserve_ok:
  assumes "slot_ok s W D" and "j \<notin> W" and "j \<notin> D" and "\<not> is_full s"
  shows "slot_ok (reserve r j s) (insert j W) D"
proof (cases "holder s = None")
  case True
  note ok = slot_okD [OF assms(1)]
  have "waiting s = []" "D = {}" "\<And>i. i \<in> W \<Longrightarrow> i \<in> set (cancelled s)"
    using ok(1) ok(6) [OF True] ok(7) True by (auto simp: places_def)
  then show ?thesis using True by (simp add: reserve_def slot_ok_def places_def)
next
  case False
  note ok = slot_okD [OF assms(1)]
  let ?s = "s\<lparr>waiting := (r, arrival s, j) # waiting s, arrival := Suc (arrival s)\<rparr>"
  have pl: "places ?s = j # places s" by (simp add: places_def)
  have r: "reserve r j s = ?s" using False by (simp add: reserve_def)
  show ?thesis unfolding r
  proof (rule slot_okI)
    show "holder ?s = Some i" if "i \<in> D" for i using that ok(1) by simp
    show "i \<in> insert j W \<union> D \<and> i \<notin> set (places ?s)" if "holder ?s = Some i" for i
      using that ok(2,3) [of i] assms(2,3) unfolding pl by auto
    show "distinct (places ?s)" unfolding pl using ok(4) ok(5) [of j] assms(2) by auto
    show "i \<in> insert j W" if "i \<in> set (places ?s)" for i using that ok(5) [of i] unfolding pl by auto
    show "waiting ?s = []" if "holder ?s = None" using that False by simp
    show "i \<in> set (cancelled ?s)" if "i \<in> insert j W" and "holder ?s \<noteq> Some i" and "i \<notin> set (places ?s)" for i
      using that ok(7) [of i] unfolding pl by auto
    show "length (waiting ?s) \<le> max_queued ?s" using assms(4) False by (simp add: is_full_def)
  qed
qed

lemma grant_ok:
  assumes "slot_ok s W D" and "holder s = Some j"
  shows "slot_ok s (W - {j}) (insert j D)"
proof -
  note ok = slot_okD [OF assms(1)]
  show ?thesis
  proof (rule slot_okI)
    show "i \<in> W - {j}" if "i \<in> set (places s)" for i using that ok(5) [of i] ok(3) [OF assms(2)] by auto
    show "i \<in> W - {j} \<union> insert j D \<and> i \<notin> set (places s)" if "holder s = Some i" for i
      using that ok(2,3) [of i] by auto
  qed (use ok assms(2) in auto)
qed

lemma cancel_place_ok:
  assumes "slot_ok s W D"
  shows "slot_ok (s\<lparr>cancelled := j # cancelled s\<rparr>) W D"
  using assms by (auto simp: slot_ok_def places_def)

section \<open>The invariant\<close>

fun drafting :: "phase \<Rightarrow> bool" where
  "drafting (Reading _) = True"
| "drafting (Snapshot _ _) = True"
| "drafting (Generating _ _) = True"
| "drafting _ = False"

type_synonym job_table = "nat \<Rightarrow> generation_job option"

definition waiters :: "job_table \<Rightarrow> nat set" where
  "waiters g = {j. \<exists>x. g j = Some x \<and> j_phase x = Awaiting_slot}"

definition drafters :: "job_table \<Rightarrow> nat set" where
  "drafters g = {j. \<exists>x. g j = Some x \<and> drafting (j_phase x)}"

definition unfinished :: "job_table \<Rightarrow> nat \<Rightarrow> string \<Rightarrow> bool" where
  "unfinished g j c \<longleftrightarrow> (\<exists>x. g j = Some x \<and> \<not> is_done x \<and> j_collection x = c)"

definition flight_ok :: "string list \<Rightarrow> job_table \<Rightarrow> nat \<Rightarrow> bool" where
  "flight_ok cs g n \<longleftrightarrow>
     distinct cs \<and> (\<forall>c. c \<in> set cs \<longleftrightarrow> (\<exists>j. unfinished g j c)) \<and>
     (\<forall>c i j. unfinished g i c \<longrightarrow> unfinished g j c \<longrightarrow> i = j) \<and> (\<forall>j. g j \<noteq> None \<longrightarrow> j < n)"

definition lifecycle_ok :: "lifecycle \<Rightarrow> bool" where
  "lifecycle_ok l \<longleftrightarrow>
     slot_ok (lc_slot l) (waiters (gjobs l)) (drafters (gjobs l)) \<and> flight_ok (in_flight l) (gjobs l) (next_job l)"

lemma waiters_upd:
  "waiters (g(j \<mapsto> x)) = (if j_phase x = Awaiting_slot then insert j (waiters g) else waiters g - {j})"
  by (auto simp: waiters_def)

lemma drafters_upd:
  "drafters (g(j \<mapsto> x)) = (if drafting (j_phase x) then insert j (drafters g) else drafters g - {j})"
  by (auto simp: drafters_def)

lemma unfinished_upd:
  "unfinished (g(j \<mapsto> x)) i c \<longleftrightarrow> (if i = j then \<not> is_done x \<and> j_collection x = c else unfinished g i c)"
  by (auto simp: unfinished_def)

lemma flight_ok_rephase:
  assumes "flight_ok cs g n" and "g j = Some x" and "is_done x' = is_done x" and "j_collection x' = j_collection x"
  shows "flight_ok cs (g(j \<mapsto> x')) n"
proof -
  have "unfinished (g(j \<mapsto> x')) i c = unfinished g i c" for i c
    using assms(2-4) by (auto simp: unfinished_upd unfinished_def)
  then show ?thesis using assms(1,2) by (auto simp: flight_ok_def)
qed

lemma flight_ok_done:
  assumes "flight_ok cs g n" and "g j = Some x" and "\<not> is_done x" and "is_done x'"
  shows "flight_ok (removeAll (j_collection x) cs) (g(j \<mapsto> x')) n"
proof -
  have u: "unfinished g j (j_collection x)" using assms(2,3) by (auto simp: unfinished_def)
  have o: "c = j_collection x" if "unfinished g j c" for c using that assms(2) by (auto simp: unfinished_def)
  have e: "unfinished (g(j \<mapsto> x')) i c \<longleftrightarrow> i \<noteq> j \<and> unfinished g i c" for i c
    using assms(4) by (simp add: unfinished_upd)
  have same: "i = k" if "unfinished g i c" "unfinished g k c" for i k c
    using assms(1) that by (auto simp: flight_ok_def)
  have "c \<in> set (removeAll (j_collection x) cs) \<longleftrightarrow> (\<exists>i. i \<noteq> j \<and> unfinished g i c)" for c
    using assms(1) same [OF u] o unfolding flight_ok_def by (metis DiffE DiffI set_removeAll singletonD singletonI)
  then show ?thesis using assms(1,2) same unfolding flight_ok_def e
    by (auto simp: distinct_removeAll)
qed

lemma flight_ok_new:
  assumes "flight_ok cs g n" and "j_collection x \<notin> set cs" and "\<not> is_done x"
  shows "flight_ok (j_collection x # cs) (g(n \<mapsto> x)) (Suc n)"
proof -
  have fresh: "g n = None" using assms(1) by (auto simp: flight_ok_def)
  then have old: "\<not> unfinished g n c" for c by (simp add: unfinished_def)
  have e: "unfinished (g(n \<mapsto> x)) i c \<longleftrightarrow> i = n \<and> c = j_collection x \<or> unfinished g i c" for i c
    using assms(3) old by (auto simp: unfinished_upd)
  have none: "\<not> unfinished g i (j_collection x)" for i using assms(1,2) by (auto simp: flight_ok_def)
  show ?thesis unfolding flight_ok_def e
    using assms(1,2) none by (auto simp: flight_ok_def less_Suc_eq)
qed

section \<open>Every step keeps it\<close>

lemma set_phase_eq: "gjobs l j = Some x \<Longrightarrow> set_phase j p l = l\<lparr>gjobs := (gjobs l)(j \<mapsto> x\<lparr>j_phase := p\<rparr>)\<rparr>"
  by (simp add: set_phase_def)

lemma lifecycle_ok_move:
  assumes "lifecycle_ok l" and "gjobs l j = Some x" and "j_phase x \<noteq> Awaiting_slot" and "j_phase x' \<noteq> Awaiting_slot"
    and "drafting (j_phase x') = drafting (j_phase x)" and "is_done x' = is_done x" and "j_collection x' = j_collection x"
  shows "lifecycle_ok (l\<lparr>gjobs := (gjobs l)(j \<mapsto> x')\<rparr>)"
proof -
  have "waiters ((gjobs l)(j \<mapsto> x')) = waiters (gjobs l)" "drafters ((gjobs l)(j \<mapsto> x')) = drafters (gjobs l)"
    using assms(2-5) by (auto simp: waiters_def drafters_def)
  then show ?thesis
    using assms(1,2,6,7) flight_ok_rephase [of "in_flight l" "gjobs l" "next_job l" j x x'] by (simp add: lifecycle_ok_def)
qed

lemma slot_ok_gone: "j \<notin> W \<Longrightarrow> j \<notin> D \<Longrightarrow> slot_ok s W D \<Longrightarrow> slot_ok (release j s) W D"
  using release_ok [of s W D j] by simp

text \<open>A task that leaves the slot has a phase off the slot next: it keeps no place and drafts no more.\<close>

lemma lifecycle_ok_leave:
  assumes "lifecycle_ok l" and "gjobs l j = Some x" and "\<not> is_done x"
    and "j_phase x' \<noteq> Awaiting_slot" and "\<not> drafting (j_phase x')" and "\<not> is_done x'" and "j_collection x' = j_collection x"
  shows "lifecycle_ok (l\<lparr>gjobs := (gjobs l)(j \<mapsto> x'), lc_slot := release j (lc_slot l)\<rparr>)"
  using assms flight_ok_rephase [of "in_flight l" "gjobs l" "next_job l" j x x'] release_ok [of "lc_slot l"]
  by (simp add: lifecycle_ok_def waiters_upd drafters_upd)

lemma finish_ok:
  assumes "lifecycle_ok l"
  shows "lifecycle_ok (finish j res l)"
proof (cases "gjobs l j")
  case None
  then show ?thesis using assms by (simp add: finish_def)
next
  case (Some x)
  show ?thesis
  proof (cases "is_done x")
    case True
    then show ?thesis using assms Some by (simp add: finish_def)
  next
    case False
    have "is_done (x\<lparr>j_phase := Done res\<rparr>)" by (simp add: is_done_def)
    then show ?thesis
      using assms Some False release_ok [of "lc_slot l"]
        flight_ok_done [of "in_flight l" "gjobs l" "next_job l" j x "x\<lparr>j_phase := Done res\<rparr>"]
      by (simp add: finish_def set_phase_def lifecycle_ok_def waiters_upd drafters_upd)
  qed
qed

text \<open>The run of a task ends in \<open>release\<close> and then \<open>_finish\<close>, which releases again.\<close>

lemma finish_leave_ok:
  assumes "lifecycle_ok l"
  shows "lifecycle_ok (finish j res (leave_slot j l))"
proof (cases "gjobs l j")
  case None
  then have "j \<notin> waiters (gjobs l)" "j \<notin> drafters (gjobs l)" by (simp_all add: waiters_def drafters_def)
  then show ?thesis using assms None by (simp add: finish_def leave_slot_def lifecycle_ok_def slot_ok_gone)
next
  case (Some x)
  show ?thesis
  proof (cases "is_done x")
    case True
    then have "j \<notin> waiters (gjobs l)" "j \<notin> drafters (gjobs l)"
      using Some by (auto simp: waiters_def drafters_def is_done_def split: phase.splits)
    then show ?thesis using assms Some True by (simp add: finish_def leave_slot_def lifecycle_ok_def slot_ok_gone)
  next
    case False
    have "is_done (x\<lparr>j_phase := Done res\<rparr>)" by (simp add: is_done_def)
    then have f: "flight_ok (removeAll (j_collection x) (in_flight l)) ((gjobs l)(j \<mapsto> x\<lparr>j_phase := Done res\<rparr>)) (next_job l)"
      using flight_ok_done [of "in_flight l" "gjobs l" "next_job l" j x] assms Some False by (simp add: lifecycle_ok_def)
    have "slot_ok (release j (release j (lc_slot l))) (waiters (gjobs l) - {j}) (drafters (gjobs l) - {j})"
      using assms release_ok slot_ok_gone by (simp add: lifecycle_ok_def)
    then show ?thesis
      using assms Some False f
      by (simp add: finish_def leave_slot_def set_phase_def lifecycle_ok_def waiters_upd drafters_upd)
  qed
qed

lemma remember_ok: "lifecycle_ok (remember_unstored_failure x s l) = lifecycle_ok l"
  by (simp add: remember_unstored_failure_def lifecycle_ok_def Let_def)

lemma remember_leave: "remember_unstored_failure x s (leave_slot j l) = leave_slot j (remember_unstored_failure x s l)"
  by (simp add: remember_unstored_failure_def leave_slot_def Let_def)

lemma admit_ok:
  assumes "lifecycle_ok l" and "c \<notin> set (in_flight l)"
  shows "lifecycle_ok (snd (admit c ns kind l))"
proof (cases "is_full (lc_slot l)")
  case True
  then show ?thesis using assms by (simp add: admit_def)
next
  case False
  let ?x = "\<lparr>j_collection = c, j_namespace = ns, j_kind = kind, j_phase = Awaiting_slot, j_version = None\<rparr>"
  have n: "gjobs l (next_job l) = None" using assms(1) by (auto simp: lifecycle_ok_def flight_ok_def)
  then have "next_job l \<notin> waiters (gjobs l)" "next_job l \<notin> drafters (gjobs l)"
    by (simp_all add: waiters_def drafters_def)
  then have s: "slot_ok (reserve (slot_rank kind) (next_job l) (lc_slot l)) (insert (next_job l) (waiters (gjobs l)))
      (drafters (gjobs l) - {next_job l})"
    using assms(1) False by (simp add: lifecycle_ok_def reserve_ok)
  have "flight_ok (j_collection ?x # in_flight l) ((gjobs l)(next_job l \<mapsto> ?x)) (Suc (next_job l))"
    by (rule flight_ok_new) (use assms in \<open>simp_all add: lifecycle_ok_def is_done_def\<close>)
  then show ?thesis using s False by (simp add: admit_def lifecycle_ok_def waiters_upd drafters_upd)
qed

lemma request_ok:
  assumes "lifecycle_ok l" and "request_generation c ns kind read l = (answer, l')"
  shows "lifecycle_ok l'"
proof (cases "l' = l")
  case True
  then show ?thesis using assms(1) by simp
next
  case False
  then have "c \<notin> set (in_flight l)" "l' = snd (admit c ns kind l)"
    using assms(2)
    by (auto simp: request_generation_def refused_without_reading_def split: sum.splits option.splits if_splits)
  then show ?thesis using admit_ok assms(1) by simp
qed

lemma move_ok:
  assumes "lifecycle_ok l" and "gjobs l j = Some x" and "j_phase x \<noteq> Awaiting_slot" and "p \<noteq> Awaiting_slot"
    and "drafting p = drafting (j_phase x)" and "\<not> is_done x" and "\<And>r. p \<noteq> Done r"
  shows "lifecycle_ok (set_phase j p l)"
  unfolding set_phase_eq [OF assms(2)]
  by (rule lifecycle_ok_move [OF assms(1,2,3)])
    (use assms in \<open>simp_all add: is_done_def split: phase.splits\<close>)

lemma leave_to_ok:
  assumes "lifecycle_ok l" and "gjobs l j = Some x" and "\<not> is_done x"
    and "p \<noteq> Awaiting_slot" and "\<not> drafting p" and "\<And>r. p \<noteq> Done r"
  shows "lifecycle_ok (set_phase j p (leave_slot j l))"
proof -
  have "set_phase j p (leave_slot j l) =
      l\<lparr>gjobs := (gjobs l)(j \<mapsto> x\<lparr>j_phase := p\<rparr>), lc_slot := release j (lc_slot l)\<rparr>"
    using assms(2) by (simp add: set_phase_def leave_slot_def)
  moreover have "lifecycle_ok \<dots>"
    by (rule lifecycle_ok_leave [OF assms(1-3)]) (use assms in \<open>simp_all add: is_done_def split: phase.splits\<close>)
  ultimately show ?thesis by simp
qed

lemma start_read_ok:
  assumes "lifecycle_ok l" and "gjobs l j = Some x" and "drafting (j_phase x)"
  shows "lifecycle_ok (start_read j x k s l)"
  unfolding start_read_def
  by (rule lifecycle_ok_move [OF assms(1,2)])
    (use assms(3) in \<open>auto simp: is_done_def elim: drafting.elims split: phase.splits\<close>)

lemma granted_ok:
  assumes "lifecycle_ok l" and "gjobs l j = Some x" and "j_phase x = Awaiting_slot" and "holder (lc_slot l) = Some j"
  shows "lifecycle_ok (start_read j x k s l)"
proof -
  let ?x = "x\<lparr>j_version := Some (versions s (j_collection x)), j_phase := Reading k\<rparr>"
  have "flight_ok (in_flight l) ((gjobs l)(j \<mapsto> ?x)) (next_job l)"
    by (rule flight_ok_rephase [where x = x]) (use assms in \<open>simp_all add: lifecycle_ok_def is_done_def\<close>)
  then show ?thesis
    using assms grant_ok by (simp add: start_read_def lifecycle_ok_def waiters_upd drafters_upd)
qed

lemma read_resumes_ok:
  assumes "lifecycle_ok l" and "gjobs l j = Some x" and "j_phase x = Snapshot k meta"
  shows "lifecycle_ok (read_resumes j x k meta s l)"
  using assms
  by (auto simp: read_resumes_def is_done_def intro!: start_read_ok move_ok finish_leave_ok split: option.split)

lemma generator_answers_ok:
  assumes "lifecycle_ok l" and "gjobs l j = Some x" and "j_phase x = Generating e docs"
  shows "lifecycle_ok (generator_answers j answer e docs l)"
  using assms by (auto simp: generator_answers_def is_done_def intro!: leave_to_ok split: option.split)

lemma apply_reads_ok:
  assumes "lifecycle_ok l" and "gjobs l j = Some x" and "j_phase x = Applying t e docs"
  shows "lifecycle_ok (apply_reads j t e docs read vector l)"
  using assms by (auto simp: apply_reads_def is_done_def intro!: move_ok finish_ok split: sum.split option.split)

lemma save_lands_ok:
  assumes "lifecycle_ok l" and "gjobs l j = Some x" and "j_phase x = Saving t e docs vector"
    and "save_lands j x t e docs vector try now s l = (s', l')"
  shows "lifecycle_ok l'"
  using assms
  by (auto simp: save_lands_def is_done_def intro!: move_ok finish_ok split: sum.splits prod.splits if_splits)

lemma record_lands_ok:
  assumes "lifecycle_ok l" and "record_lands j x e try s l = (s', l')"
  shows "lifecycle_ok l'"
  using assms
  by (auto simp: record_lands_def remember_ok intro!: finish_ok split: sum.splits prod.splits if_splits)

lemma read_raises_ok: "lifecycle_ok l \<Longrightarrow> lifecycle_ok (read_raises j x s l)"
  by (simp add: read_raises_def remember_leave remember_ok finish_leave_ok)

definition life_inv :: "life_world \<Rightarrow> bool" where
  "life_inv w \<longleftrightarrow> lifecycle_ok (life w)"

lemma life_inv_start: "life_start w \<Longrightarrow> life_inv w"
  by (auto simp: life_start_def life_inv_def new_lifecycle_def lifecycle_ok_def slot_ok_def places_def flight_ok_def
      waiters_def drafters_def unfinished_def)

lemma life_inv_service: "service_step w w' \<Longrightarrow> life_inv w \<Longrightarrow> life_inv w'"
proof (induction rule: service_step.induct)
  case (snapshot l j x k s meta)
  then show ?case by (auto simp: life_inv_def is_done_def intro!: move_ok)
next
  case (cancels_place l j x s)
  then show ?case by (simp add: life_inv_def lifecycle_ok_def cancel_place_ok)
next
  case (closes l s)
  then show ?case by (simp add: life_inv_def lifecycle_ok_def close_def)
qed (auto simp: life_inv_def intro: request_ok granted_ok read_resumes_ok read_raises_ok generator_answers_ok apply_reads_ok
    save_lands_ok record_lands_ok finish_leave_ok)

lemma life_inv_step: "life_step w w' \<Longrightarrow> life_inv w \<Longrightarrow> life_inv w'"
  by (induction rule: life_step.induct) (simp_all add: life_inv_service, simp add: life_inv_def)

interpretation generation: machine_invariant life_start life_step life_inv
  by unfold_locales (auto intro: life_inv_start life_inv_step)

end
