(* ===== verification/Lifecycle_Progress.thy ===== *)
theory Lifecycle_Progress
  imports Lifecycle_Facts
begin

text \<open>
  Progress of the description lifecycle: every stretch of a task brings its job strictly nearer to its settlement, no other
  stretch moves it back, and as long as a job is unfinished some task can run.
\<close>

section \<open>Every stretch is progress\<close>

text \<open>How many stretches a job in this phase has left at most.\<close>

fun stretches_left :: "phase \<Rightarrow> nat" where
  "stretches_left Awaiting_slot = 12"
| "stretches_left (Reading k) = 6 + 2 * k"
| "stretches_left (Snapshot k _) = 5 + 2 * k"
| "stretches_left (Generating _ _) = 4"
| "stretches_left (Applying _ _ _) = 3"
| "stretches_left (Saving _ _ _ _) = 2"
| "stretches_left (Recording _) = 1"
| "stretches_left (Done _) = 0"

definition advances :: "nat \<Rightarrow> lifecycle \<Rightarrow> lifecycle \<Rightarrow> bool" where
  "advances j l l' \<longleftrightarrow>
     (\<forall>i. i \<noteq> j \<longrightarrow> gjobs l' i = gjobs l i) \<and>
     (\<exists>x y. gjobs l j = Some x \<and> gjobs l' j = Some y \<and> stretches_left (j_phase y) < stretches_left (j_phase x))"

named_theorems advancing

lemma advances_jobs: "gjobs l0 = gjobs l \<Longrightarrow> advances j l0 l' = advances j l l'"
  by (simp add: advances_def)

lemma jobs_leave [simp]: "gjobs (leave_slot j l) = gjobs l"
  by (simp add: leave_slot_def)

lemma jobs_remember [simp]: "gjobs (remember_unstored_failure x s l) = gjobs l"
  by (simp add: remember_unstored_failure_def Let_def)

lemma is_done_iff: "is_done x \<longleftrightarrow> stretches_left (j_phase x) = 0"
  by (cases "j_phase x") (simp_all add: is_done_def)

lemma advances_set_phase [advancing]:
  "gjobs l j = Some x \<Longrightarrow> stretches_left p < stretches_left (j_phase x) \<Longrightarrow> advances j l (set_phase j p l)"
  by (simp add: advances_def set_phase_def)

lemma advances_leave_phase [advancing]:
  "gjobs l j = Some x \<Longrightarrow> stretches_left p < stretches_left (j_phase x) \<Longrightarrow> advances j l (set_phase j p (leave_slot j l))"
  by (simp add: advances_def set_phase_def)

lemma advances_finish_from:
  "gjobs l0 = gjobs l \<Longrightarrow> gjobs l j = Some x \<Longrightarrow> 0 < stretches_left (j_phase x) \<Longrightarrow> advances j l (finish j res l0)"
  by (simp add: advances_def finish_def is_done_iff set_phase_def)

lemma advances_finish [advancing]:
  assumes "gjobs l j = Some x" and "0 < stretches_left (j_phase x)"
  shows "advances j l (finish j res l)" and "advances j l (finish j res (leave_slot j l))"
    and "advances j l (finish j res (remember_unstored_failure y s l))"
    and "advances j l (finish j res (remember_unstored_failure y s (leave_slot j l)))"
  using assms by (simp_all add: advances_finish_from)

lemma advances_start_read [advancing]:
  "gjobs l j = Some x \<Longrightarrow> 6 + 2 * k < stretches_left (j_phase x) \<Longrightarrow> advances j l (start_read j x k s l)"
  by (simp add: advances_def start_read_def)

lemma advances_read_resumes:
  assumes "gjobs l j = Some x" and "j_phase x = Snapshot k meta"
  shows "advances j l (read_resumes j x k meta s l)"
proof (cases "k > 0 \<and> j_version x \<noteq> Some (versions s (j_collection x))")
  case True
  moreover from True obtain i where "k = Suc i" by (cases k) auto
  ultimately show ?thesis using assms by (simp add: read_resumes_def advancing)
next
  case False
  then show ?thesis
    using assms by (cases meta) (auto simp: read_resumes_def advancing split: option.split)
qed

lemma advances_generator_answers:
  "gjobs l j = Some x \<Longrightarrow> j_phase x = Generating e docs \<Longrightarrow> advances j l (generator_answers j answer e docs l)"
  by (auto simp: generator_answers_def advancing split: option.split)

lemma advances_apply_reads:
  "gjobs l j = Some x \<Longrightarrow> j_phase x = Applying t e docs \<Longrightarrow> advances j l (apply_reads j t e docs read vector l)"
  by (auto simp: apply_reads_def advancing split: sum.split option.split)

lemma advances_save_lands:
  assumes "gjobs l j = Some x" and "j_phase x = Saving t e docs vector"
    and "save_lands j x t e docs vector try now s l = (s', l')"
  shows "advances j l l'"
  using assms by (auto simp: save_lands_def advancing split: sum.splits prod.splits if_splits)

lemma advances_record_lands:
  assumes "gjobs l j = Some x" and "j_phase x = Recording e" and "record_lands j x e try s l = (s', l')"
  shows "advances j l l'"
  using assms by (auto simp: record_lands_def advancing split: sum.splits prod.splits if_splits)

lemma request_jobs:
  assumes "request_generation c ns kind read l = (answer, l')"
  shows "gjobs l' = gjobs l \<or> (\<exists>x. gjobs l' = (gjobs l)(next_job l \<mapsto> x))"
  using assms
  by (auto simp: request_generation_def admit_def split: sum.splits option.splits if_splits)

definition settles_or_keeps :: "lifecycle \<Rightarrow> lifecycle \<Rightarrow> bool" where
  "settles_or_keeps l l' \<longleftrightarrow>
     gjobs l' = gjobs l \<or> (\<exists>x. gjobs l' = (gjobs l)(next_job l \<mapsto> x)) \<or> (\<exists>j. advances j l l')"

lemma cancelled_job:
  assumes "gjobs l j = Some x"
  shows "settles_or_keeps l (finish j res (leave_slot j l))"
proof (cases "is_done x")
  case True
  then have "gjobs (finish j res (leave_slot j l)) = gjobs l" using assms by (simp add: finish_def)
  then show ?thesis by (simp add: settles_or_keeps_def)
next
  case False
  then have "advances j l (finish j res (leave_slot j l))" using assms by (simp add: advancing is_done_iff)
  then show ?thesis by (auto simp: settles_or_keeps_def)
qed

lemma service_step_jobs: "service_step w w' \<Longrightarrow> settles_or_keeps (life w) (life w')"
proof (induction rule: service_step.induct)
  case (request c ns kind read l answer l' s)
  from request_jobs [OF this] show ?case unfolding settles_or_keeps_def by auto
next
  case (granted l j x s)
  then have "advances j l (start_read j x (row_read_attempts - 1) s l)" by (simp add: advancing row_read_attempts_def)
  then show ?case by (auto simp: settles_or_keeps_def)
next
  case (snapshot l j x k s meta)
  then have "advances j l (set_phase j (Snapshot k meta) l)" by (simp add: advancing)
  then show ?case by (auto simp: settles_or_keeps_def)
next
  case (read_back l j x k meta s)
  then show ?case using advances_read_resumes by (fastforce simp: settles_or_keeps_def)
next
  case (read_error l j x k s)
  then have "advances j l (read_raises j x s l)" by (simp add: read_raises_def advancing)
  then show ?case by (auto simp: settles_or_keeps_def)
next
  case (generated l j x e docs s answer)
  then show ?case using advances_generator_answers by (fastforce simp: settles_or_keeps_def)
next
  case (apply_read l j x t e docs s read vector)
  then show ?case using advances_apply_reads by (fastforce simp: settles_or_keeps_def)
next
  case (saved l j x t e docs vector att now s s' l')
  then show ?case using advances_save_lands by (fastforce simp: settles_or_keeps_def)
next
  case (recorded l j x e att s s' l')
  then show ?case using advances_record_lands by (fastforce simp: settles_or_keeps_def)
next
  case (closes l s)
  then show ?case by (simp add: settles_or_keeps_def close_def)
next
  case (cancels_place l j x s)
  then show ?case by (simp add: settles_or_keeps_def)
qed (simp_all add: cancelled_job)

lemma job_never_moves_back:
  assumes "life_step w w'" and "life_inv w" and "gjobs (life w) j = Some x" and "gjobs (life w') j = Some y"
  shows "y = x \<or> stretches_left (j_phase y) < stretches_left (j_phase x)"
  using assms(1)
proof cases
  case service
  have n: "j < next_job (life w)" using assms(2,3) by (auto simp: life_inv_def lifecycle_ok_def flight_ok_def)
  from service_step_jobs [OF service] assms(3,4) n show ?thesis
    unfolding settles_or_keeps_def advances_def by (metis fun_upd_other nat_neq_iff option.inject)
next
  case (others s')
  then show ?thesis using assms(3,4) by simp
qed

section \<open>No task is stranded\<close>

lemma release_cancelled:
  assumes "slot_ok s W D" and "j \<notin> W"
  shows "cancelled (release j s) = cancelled s"
proof (cases "holder s = Some j")
  case True
  then show ?thesis
    using pass_on_ok [OF slot_okD(4) [OF assms(1)]] by (simp add: release_def passed_on_def)
next
  case False
  have "j \<notin> set (places s)" using slot_okD(5) [OF assms(1)] assms(2) by blast
  then have "filter (\<lambda>e. snd (snd e) \<noteq> j) (waiting s) = waiting s"
    by (auto simp: places_def filter_id_conv)
  then show ?thesis using False by (simp add: release_def)
qed

definition only_close_cancels :: "lifecycle \<Rightarrow> bool" where
  "only_close_cancels l \<longleftrightarrow> lc_closed l \<or> cancelled (lc_slot l) = []"

lemma finish_cancelled:
  assumes "lifecycle_ok l" and "gjobs l j = Some x" and "j_phase x \<noteq> Awaiting_slot"
  shows "only_close_cancels (finish j res l) = only_close_cancels l"
    and "only_close_cancels (finish j res (leave_slot j l)) = only_close_cancels l"
    and "only_close_cancels (leave_slot j l) = only_close_cancels l"
proof -
  have s: "slot_ok (lc_slot l) (waiters (gjobs l)) (drafters (gjobs l))" and w: "j \<notin> waiters (gjobs l)"
    using assms by (simp_all add: lifecycle_ok_def waiters_def)
  have 1: "cancelled (release j (lc_slot l)) = cancelled (lc_slot l)" using s w by (rule release_cancelled)
  have 2: "cancelled (release j (release j (lc_slot l))) = cancelled (lc_slot l)"
    using release_cancelled [OF release_ok [OF s], of j] 1 by simp
  show "only_close_cancels (finish j res l) = only_close_cancels l"
    and "only_close_cancels (finish j res (leave_slot j l)) = only_close_cancels l"
    and "only_close_cancels (leave_slot j l) = only_close_cancels l"
    using 1 2 assms(2) by (simp_all add: only_close_cancels_def finish_def leave_slot_def set_phase_def)
qed

lemma closed_simps [simp]:
  "lc_closed (finish j res l) = lc_closed l" "lc_closed (leave_slot j l) = lc_closed l"
  by (simp_all add: finish_def set_phase_def leave_slot_def split: option.split)

lemma set_phase_cancels [simp]: "only_close_cancels (set_phase j p l) = only_close_cancels l"
  by (simp add: only_close_cancels_def set_phase_def)

lemma remember_cancels [simp]: "only_close_cancels (remember_unstored_failure x s l) = only_close_cancels l"
  by (simp add: only_close_cancels_def remember_unstored_failure_def Let_def)

lemma start_read_cancels [simp]: "only_close_cancels (start_read j x k s l) = only_close_cancels l"
  by (simp add: only_close_cancels_def start_read_def)

lemma request_cancels:
  "request_generation c ns kind read l = (answer, l') \<Longrightarrow> only_close_cancels l' = only_close_cancels l"
  by (auto simp: request_generation_def admit_def reserve_def only_close_cancels_def
      split: sum.splits option.splits if_splits)

lemma only_close_cancels_step:
  assumes "service_step w w'" and "life_inv w" and "only_close_cancels (life w)"
  shows "only_close_cancels (life w')"
  using assms
proof (induction rule: service_step.induct)
  case (request c ns kind read l answer l' s)
  then show ?case by (simp add: request_cancels)
next
  case (read_back l j x k meta s)
  then have "only_close_cancels (finish j res (leave_slot j l))" for res by (simp add: life_inv_def finish_cancelled)
  then show ?case using read_back by (auto simp: read_resumes_def split: option.split)
next
  case (read_error l j x k s)
  then have "lifecycle_ok (remember_unstored_failure x s l)" by (simp add: life_inv_def remember_ok)
  then have "only_close_cancels (finish j R_failed (leave_slot j (remember_unstored_failure x s l)))"
    using read_error finish_cancelled(2) [of "remember_unstored_failure x s l" j x] by simp
  then show ?case by (simp add: read_raises_def remember_leave)
next
  case (generated l j x e docs s answer)
  then have "only_close_cancels (leave_slot j l)" by (simp add: life_inv_def finish_cancelled)
  then show ?case by (simp add: generator_answers_def split: option.split)
next
  case (apply_read l j x t e docs s read vector)
  then have "only_close_cancels (finish j res l)" for res by (simp add: life_inv_def finish_cancelled)
  then show ?case using apply_read by (auto simp: apply_reads_def split: sum.split option.split)
next
  case (saved l j x t e docs vector att now s s' l')
  then have "only_close_cancels (finish j res l)" for res by (simp add: life_inv_def finish_cancelled)
  then show ?case using saved by (auto simp: save_lands_def split: sum.splits prod.splits if_splits)
next
  case (recorded l j x e att s s' l')
  then have "only_close_cancels (finish j res l)" "only_close_cancels (finish j res (remember_unstored_failure x s' l))" for res
    by (simp_all add: life_inv_def finish_cancelled finish_cancelled(1) [of "remember_unstored_failure x s' l" j x] remember_ok)
  then show ?case using recorded by (auto simp: record_lands_def split: sum.splits prod.splits if_splits)
qed (simp_all add: only_close_cancels_def close_def start_read_def set_phase_def)

definition life_inv_closed :: "life_world \<Rightarrow> bool" where
  "life_inv_closed w \<longleftrightarrow> life_inv w \<and> only_close_cancels (life w)"

interpretation shutdown: machine_invariant life_start life_step life_inv_closed
proof
  show "life_inv_closed w" if "life_start w" for w
    using that life_inv_start [OF that]
    by (auto simp: life_inv_closed_def life_start_def new_lifecycle_def only_close_cancels_def)
  show "life_inv_closed w'" if "life_inv_closed w" and "life_step w w'" for w w'
    using that(2)
  proof cases
    case service
    then show ?thesis using that life_inv_step only_close_cancels_step by (simp add: life_inv_closed_def)
  next
    case (others s')
    then show ?thesis using that life_inv_step by (simp add: life_inv_closed_def)
  qed
qed

text \<open>A task that is past its slot's grant can always run; so can one that holds the slot, and any task after \<open>close\<close>.\<close>

definition can_run :: "nat \<Rightarrow> lifecycle \<Rightarrow> meta_store \<Rightarrow> bool" where
  "can_run j l s \<longleftrightarrow> (\<exists>l' s'. service_step \<lparr>life = l, mstore = s\<rparr> \<lparr>life = l', mstore = s'\<rparr> \<and> advances j l l' \<and> lc_closed l' = lc_closed l)"

lemma can_runI:
  "service_step \<lparr>life = l, mstore = s\<rparr> \<lparr>life = l', mstore = s'\<rparr> \<Longrightarrow> advances j l l' \<Longrightarrow> lc_closed l' = lc_closed l \<Longrightarrow> can_run j l s"
  by (auto simp: can_run_def)

lemma stretches_closed [simp]:
  "lc_closed (set_phase j p l) = lc_closed l" "lc_closed (start_read j x k s l) = lc_closed l"
  "lc_closed (remember_unstored_failure x s l) = lc_closed l" "lc_closed (read_raises j x s l) = lc_closed l"
  "lc_closed (read_resumes j x k meta s l) = lc_closed l" "lc_closed (generator_answers j answer e docs l) = lc_closed l"
  "lc_closed (apply_reads j t e docs read vector l) = lc_closed l"
  by (simp_all add: set_phase_def start_read_def remember_unstored_failure_def Let_def read_raises_def read_resumes_def
      generator_answers_def apply_reads_def split: option.split sum.split)

lemma landing_closed:
  "save_lands j x t e docs vector try now s l = (s', l') \<Longrightarrow> lc_closed l' = lc_closed l"
  "record_lands j x e try s l = (s', l') \<Longrightarrow> lc_closed l' = lc_closed l"
  by (auto simp: save_lands_def record_lands_def split: sum.splits prod.splits if_splits)

lemma running_can_run:
  assumes "gjobs l j = Some x" and "j_phase x \<noteq> Awaiting_slot" and "\<not> is_done x"
  shows "can_run j l s"
proof (cases "j_phase x")
  case (Reading k)
  show ?thesis
    by (rule can_runI, rule service_step.read_error [OF assms(1) Reading])
      (use assms(1) Reading in \<open>simp_all add: read_raises_def advancing\<close>)
next
  case (Snapshot k meta)
  show ?thesis
    by (rule can_runI, rule service_step.read_back [OF assms(1) Snapshot], rule advances_read_resumes [OF assms(1) Snapshot], simp)
next
  case (Generating e docs)
  show ?thesis
    by (rule can_runI, rule service_step.generated [OF assms(1) Generating, where answer = None],
        rule advances_generator_answers [OF assms(1) Generating], simp)
next
  case (Applying t e docs)
  show ?thesis
    by (rule can_runI, rule service_step.apply_read [OF assms(1) Applying, where read = "Inr None" and vector = None],
        rule advances_apply_reads [OF assms(1) Applying], simp)
next
  case (Saving t e docs vector)
  obtain s' l' where r: "save_lands j x t e docs vector \<lparr>lock_free = False, read_works = True, merge = Merged\<rparr> 0 s l = (s', l')"
    by fastforce
  show ?thesis
    by (rule can_runI, rule service_step.saved [OF assms(1) Saving r], rule advances_save_lands [OF assms(1) Saving r],
        rule landing_closed(1) [OF r])
next
  case (Recording e)
  obtain s' l' where r: "record_lands j x e \<lparr>lock_free = False, read_works = True, merge = Merged\<rparr> s l = (s', l')"
    by fastforce
  show ?thesis
    by (rule can_runI, rule service_step.recorded [OF assms(1) Recording r], rule advances_record_lands [OF assms(1) Recording r],
        rule landing_closed(2) [OF r])
qed (use assms in \<open>simp_all add: is_done_def\<close>)

lemma holder_can_run:
  assumes "lifecycle_ok l" and "holder (lc_slot l) = Some j"
  shows "can_run j l s"
proof -
  have "j \<in> waiters (gjobs l) \<union> drafters (gjobs l)" using assms slot_okD(2) by (auto simp: lifecycle_ok_def)
  then consider x where "gjobs l j = Some x" "j_phase x = Awaiting_slot" | x where "gjobs l j = Some x" "drafting (j_phase x)"
    by (auto simp: waiters_def drafters_def)
  then show ?thesis
  proof cases
    case (1 x)
    show ?thesis
      by (rule can_runI, rule service_step.granted [OF 1 assms(2)])
        (use 1 in \<open>simp_all add: advancing row_read_attempts_def\<close>)
  next
    case (2 x)
    then have "j_phase x \<noteq> Awaiting_slot" "\<not> is_done x" by (auto simp: is_done_def split: phase.splits)
    with 2(1) show ?thesis by (rule running_can_run)
  qed
qed

lemma some_task_can_run:
  assumes "life_inv_closed w" and "gjobs (life w) j = Some x" and "\<not> is_done x"
  shows "\<exists>i. can_run i (life w) (mstore w)"
proof (cases "j_phase x = Awaiting_slot")
  case False
  then show ?thesis using running_can_run assms(2,3) by blast
next
  case True
  have ok: "lifecycle_ok (life w)" and oc: "only_close_cancels (life w)"
    using assms(1) by (simp_all add: life_inv_closed_def life_inv_def)
  have s: "slot_ok (lc_slot (life w)) (waiters (gjobs (life w))) (drafters (gjobs (life w)))"
    using ok by (simp add: lifecycle_ok_def)
  have j: "j \<in> waiters (gjobs (life w))" using assms(2) True by (auto simp: waiters_def)
  show ?thesis
  proof (cases "holder (lc_slot (life w))")
    case (Some h)
    then show ?thesis using holder_can_run [OF ok] by blast
  next
    case None
    then have "j \<in> set (cancelled (lc_slot (life w)))"
      using slot_okD(6) [OF s None] slot_okD(7) [OF s j] None by (simp add: places_def)
    then have "lc_closed (life w)" using oc by (auto simp: only_close_cancels_def)
    note step = service_step.cancelled_runs [OF this assms(2), where s = "mstore w"]
    have "advances j (life w) (finish j R_shutting_down (leave_slot j (life w)))"
      using assms(2,3) by (simp add: advancing is_done_iff)
    with step show ?thesis using can_runI closed_simps by metis
  qed
qed

end
