(* ===== verification/Description_Facts.thy ===== *)
theory Description_Facts
  imports Description_Write
begin

text \<open>
  The metadata row codec and the guarded description write: what a stored row decodes to, that a decoded row is written back
  and read again as it was, and what a write changes.
\<close>

section \<open>The codec\<close>

definition desc_contract :: "collection_meta \<Rightarrow> bool" where
  "desc_contract m \<longleftrightarrow>
     m_description m \<noteq> Some [] \<and>
     check_stored_description_value (m_source m) description_sources \<and>
     check_stored_description_value (m_status m) description_stored_statuses \<and>
     (if m_description m = None then True else m_source m \<noteq> None \<and> m_status m \<noteq> None)"

definition clean_vector :: "vec_item list option \<Rightarrow> bool" where
  "clean_vector v = (case v of None \<Rightarrow> True | Some xs \<Rightarrow> Bad_num \<notin> set xs)"

definition meta_ok :: "collection_meta \<Rightarrow> bool" where
  "meta_ok m \<longleftrightarrow>
     desc_contract m \<and> clean_vector (m_embedding m) \<and> clean_vector (m_centroid_sum m) \<and>
     m_pending_model m \<noteq> Some [] \<and> m_reindex_job m \<noteq> Some [] \<and> m_rebuild_job m \<noteq> Some [] \<and> m_metadata_job m \<noteq> Some [] \<and>
     (case m_described_at m of None \<Rightarrow> True | Some n \<Rightarrow> 0 \<le> n) \<and> m_namespace m \<noteq> []"

named_theorems codec

lemma or_none_idem [codec]: "or_none v \<noteq> Some []"
  by (simp add: or_none_def)

lemma or_none_or_empty [codec]: "v \<noteq> Some [] \<Longrightarrow> or_none (Some (or_empty v)) = v"
  by (cases v) (auto simp: or_none_def or_empty_def)

lemma clean_checked [codec]: "clean_vector (checked_vector c)"
  by (simp add: clean_vector_def checked_vector_def split: vec_column.split)

lemma checked_vec_of [codec]: "clean_vector v \<Longrightarrow> checked_vector (vec_of v) = v"
  by (cases v) (simp_all add: clean_vector_def checked_vector_def vec_of_def)

lemma centroid_vec_of [codec]: "centroid_of (vec_of v) = v"
  by (simp add: centroid_of_def vec_of_def split: option.split)

lemma time_of_col [codec]: "time_of (time_col t) = Inr t"
  by (simp add: time_of_def time_col_def split: option.split)

lemma described_at_codec [codec]:
  "(case v of None \<Rightarrow> True | Some n \<Rightarrow> 0 \<le> n) \<Longrightarrow>
   (if (case v of None \<Rightarrow> -1 | Some n \<Rightarrow> n) < (0 :: int) then None else Some (case v of None \<Rightarrow> -1 | Some n \<Rightarrow> n)) = v"
  by (cases v) simp_all

lemma stored_value_allowed:
  "check_stored_description_value (stored_description_value col allowed) allowed"
  by (simp add: check_stored_description_value_def stored_description_value_def split: option.split)

lemma description_state_allowed:
  assumes "description_state r = (src, st)"
  shows "check_stored_description_value src description_sources" and "check_stored_description_value st description_stored_statuses"
    and "r_description r \<noteq> [] \<Longrightarrow> src \<noteq> None \<and> st \<noteq> None"
  using assms stored_value_allowed [of "r_source r" description_sources]
    stored_value_allowed [of "r_status r" description_stored_statuses]
  by (auto simp: description_state_def Let_def check_stored_description_value_def description_sources_def
      description_stored_statuses_def split: if_splits)

lemma row_to_meta_fields:
  assumes "row_to_meta r = Inr m"
  shows "m_name m = r_name r"
    and "m_description m = (if r_description r = [] then None else Some (r_description r))"
    and "(m_source m, m_status m) = description_state r"
    and "m_embedding m = checked_vector (r_embedding r)" and "m_centroid_sum m = checked_vector (r_centroid_sum r)"
    and "m_pending_model m = or_none (r_pending_model r)" and "m_reindex_job m = or_none (r_reindex_job r)"
    and "m_rebuild_job m = or_none (r_rebuild_job r)" and "m_metadata_job m = or_none (r_metadata_job r)"
    and "m_described_at m = (if r_described_at r < 0 then None else Some (r_described_at r))"
    and "m_namespace m = (case or_none (r_namespace r) of None \<Rightarrow> default_ns | Some n \<Rightarrow> n)"
  using assms by (auto simp: row_to_meta_def split: sum.splits simp del: if_split)

lemma row_to_meta_ok:
  assumes "row_to_meta r = Inr m"
  shows "meta_ok m"
proof -
  note f = row_to_meta_fields [OF assms]
  note st = description_state_allowed [OF f(3) [symmetric]]
  have "desc_contract m" using st f(2) by (simp add: desc_contract_def)
  moreover have "m_namespace m \<noteq> []" using f(11) by (auto simp: or_none_def split: option.splits if_splits)
  ultimately show ?thesis by (simp add: meta_ok_def f(4-10) codec)
qed

text \<open>What the reader makes of the two state columns a writer wrote.\<close>

lemma state_columns_read:
  assumes "desc_contract m" and "description_state_columns m = Some (src, st)"
    and "r_description r = or_empty (m_description m)" and "r_source r = Some src" and "r_status r = Some st"
  shows "description_state r = (m_source m, m_status m)"
proof -
  have c: "check_stored_description_value (m_source m) description_sources"
      "check_stored_description_value (m_status m) description_stored_statuses"
    and cols: "src = or_empty (m_source m)" "st = or_empty (m_status m)"
    using assms(1,2) by (auto simp: desc_contract_def description_state_columns_def)
  have "stored_description_value (r_source r) description_sources = m_source m"
    "stored_description_value (r_status r) description_stored_statuses = m_status m"
    using c assms(4,5) cols
    by (auto simp: stored_description_value_def check_stored_description_value_def or_none_def or_empty_def
        description_sources_def description_stored_statuses_def split: option.splits)
  then show ?thesis
    using assms(1,3) by (auto simp: description_state_def Let_def desc_contract_def or_empty_def split: option.splits if_splits)
qed

lemma meta_to_row_fields:
  assumes "meta_to_row m = Inr r"
  shows "r_name r = m_name m" "r_description r = or_empty (m_description m)" "r_centroid r = vec_of (m_centroid m)"
    "r_embedding r = vec_of (m_embedding m)" "r_doc_count r = m_doc_count m" "r_chunk_count r = m_chunk_count m"
    "r_active_model r = Some (m_active_model m)" "r_pending_model r = Some (or_empty (m_pending_model m))"
    "r_needs_reindex r = Some (m_needs_reindex m)" "r_reindex_job r = Some (or_empty (m_reindex_job m))"
    "r_rebuild_job r = Some (or_empty (m_rebuild_job m))" "r_metadata_job r = Some (or_empty (m_metadata_job m))"
    "r_last_indexed r = time_col (m_last_indexed m)" "r_last_described r = time_col (m_last_described m)"
    "r_described_at r = (case m_described_at m of None \<Rightarrow> -1 | Some n \<Rightarrow> n)" "r_namespace r = Some (m_namespace m)"
    "r_centroid_sum r = vec_of (m_centroid_sum m)" "r_mutations r = Some (m_mutations m)"
    "r_needs_recompute r = Some (m_needs_recompute m)" "r_schema_version r = Some (m_schema_version m)"
    "r_default_ttl r = m_default_ttl m" "r_source r = Some (or_empty (m_source m))" "r_status r = Some (or_empty (m_status m))"
  using assms by (auto simp: meta_to_row_def description_state_columns_def split: if_splits)

lemma row_reads_back:
  assumes "meta_ok m" and "meta_to_row m = Inr r"
  shows "row_to_meta r = Inr m"
proof -
  note f = meta_to_row_fields [OF assms(2)] and ok = assms(1) [unfolded meta_ok_def]
  have d: "desc_contract m" using assms by (simp add: meta_ok_def)
  then have "description_state_columns m = Some (or_empty (m_source m), or_empty (m_status m))"
    by (simp add: desc_contract_def description_state_columns_def)
  then have s: "description_state r = (m_source m, m_status m)"
    by (rule state_columns_read [OF d]) (simp_all add: f)
  have des: "(if or_empty (m_description m) = [] then None else Some (or_empty (m_description m))) = m_description m"
    using d by (cases "m_description m") (auto simp: desc_contract_def or_empty_def)
  have ns: "(case or_none (Some (m_namespace m)) of None \<Rightarrow> default_ns | Some n \<Rightarrow> n) = m_namespace m"
    using ok by (simp add: or_none_def)
  have at: "(if r_described_at r < 0 then None else Some (r_described_at r)) = m_described_at m"
    unfolding f using ok by (intro described_at_codec) simp
  show ?thesis unfolding row_to_meta_def at s unfolding f des ns using ok by (simp add: codec)
qed

lemma meta_ok_writes: "meta_ok m \<Longrightarrow> \<exists>r. meta_to_row m = Inr r"
  by (simp add: meta_ok_def desc_contract_def meta_to_row_def description_state_columns_def)

section \<open>Writes\<close>

text \<open>The table is keyed by the name and namespace columns, and every row can be read.\<close>

definition row_at :: "string \<Rightarrow> string \<Rightarrow> meta_row \<Rightarrow> bool" where
  "row_at c ns r \<longleftrightarrow> r_name r = c \<and> r_namespace r = Some ns \<and> ns \<noteq> [] \<and> (\<exists>m. row_to_meta r = Inr m)"

definition store_ok :: "meta_store \<Rightarrow> bool" where
  "store_ok s \<longleftrightarrow> (\<forall>c ns r. meta_rows s (c, ns) = Some r \<longrightarrow> row_at c ns r)"

lemma store_okE:
  assumes "store_ok s" and "meta_rows s (c, ns) = Some r"
  obtains m where "row_to_meta r = Inr m" "m_name m = c" "m_namespace m = ns" "ns \<noteq> []" "meta_ok m"
proof -
  have "row_at c ns r" using assms by (simp add: store_ok_def)
  then obtain m where m: "row_to_meta r = Inr m" "r_name r = c" "r_namespace r = Some ns" "ns \<noteq> []"
    by (auto simp: row_at_def)
  show thesis
    by (rule that [OF m(1)]) (use m row_to_meta_fields [OF m(1)] row_to_meta_ok in \<open>simp_all add: or_none_def\<close>)
qed

lemma written_row_at:
  assumes "meta_to_row m = Inr r" and "m_namespace m \<noteq> []"
  shows "row_at (m_name m) (m_namespace m) r"
  using assms meta_to_row_fields [OF assms(1)] by (simp add: row_at_def row_to_meta_def codec)

lemma store_ok_put:
  "store_ok s \<Longrightarrow> meta_to_row m = Inr r \<Longrightarrow> m_namespace m \<noteq> [] \<Longrightarrow> store_ok (put_row (m_name m, m_namespace m) r s)"
  by (auto simp: store_ok_def put_row_def written_row_at)

lemma store_ok_bump [simp]: "store_ok (bump_version c s) = store_ok s"
  by (simp add: store_ok_def bump_version_def)

definition guard_allows :: "write_guard \<Rightarrow> collection_meta \<Rightarrow> bool" where
  "guard_allows g m = (case g of Unconditional \<Rightarrow> True | Expect e \<Rightarrow> refusal e m = None)"

lemma refusal_None:
  "refusal e m = None \<longleftrightarrow>
     m_source m \<noteq> Some ''manual'' \<and> or_none (m_description m) = or_none (e_description e) \<and> m_source m = e_source e \<and>
     m_last_described m = e_last_described e \<and> m_status m = e_status e"
  by (simp add: refusal_def)

lemma apply_to_keeps [simp]: "m_name (apply_to f m) = m_name m" "m_namespace (apply_to f m) = m_namespace m"
  by (simp_all add: apply_to_def)

text \<open>Either nothing happened, or the guard held on the row and exactly the row and its version changed.\<close>

lemma write_description_cases:
  assumes "store_ok s" and "write_description t c ns f g s = (res, s')"
  obtains (same) "s' = s" "res \<noteq> Inr Written"
  | (changed) r m r' where "meta_rows s (c, ns) = Some r" "row_to_meta r = Inr m" "m_name m = c" "m_namespace m = ns" "meta_ok m"
      "guard_allows g m" "meta_to_row (apply_to f m) = Inr r'" "s' = bump_version c (put_row (c, ns) r' s)"
      "is_valid_collection_name c" "valid_namespace ns"
proof (cases "meta_rows s (c, ns)")
  case None
  then show ?thesis
    using assms(2) same by (auto simp: write_description_def get_collection_meta_def split: if_splits)
next
  case (Some r)
  obtain m where m: "row_to_meta r = Inr m" "m_name m = c" "m_namespace m = ns" "meta_ok m"
    using store_okE [OF assms(1) Some] by blast
  show ?thesis
  proof (cases "is_valid_collection_name c \<and> valid_namespace ns \<and> lock_free t \<and> read_works t \<and> guard_allows g m")
    case False
    then show ?thesis
      using assms(2) same Some m
      by (auto simp: write_description_def get_collection_meta_def guard_allows_def refusal_def split: if_splits write_guard.splits)
  next
    case True
    then have w: "write_description t c ns f g s =
        (case write_meta (merge t) c (apply_to f m) s of (Inl e, s') \<Rightarrow> (Inl e, s') | (Inr _, s') \<Rightarrow> (Inr Written, s'))"
      using Some m by (auto simp: write_description_def get_collection_meta_def guard_allows_def split: write_guard.splits)
    show ?thesis
    proof (cases "meta_to_row (apply_to f m)")
      case (Inl e)
      then show ?thesis using assms(2) same w m True by (auto simp: write_meta_def)
    next
      case (Inr r')
      then show ?thesis
        using assms(2) same changed [OF Some m _ Inr] w m True by (auto simp: write_meta_def split: merge_result.splits)
    qed
  qed
qed

lemma store_ok_write:
  assumes "store_ok s" and "write_description t c ns f g s = (res, s')"
  shows "store_ok s'"
  using assms
proof (cases rule: write_description_cases)
  case same
  then show ?thesis using assms(1) by simp
next
  case (changed r m r')
  then show ?thesis using assms(1) store_ok_put [of s "apply_to f m" r'] by (auto simp: meta_ok_def)
qed

lemma store_ok_delete: "store_ok s \<Longrightarrow> delete_collection_meta works c ns s = (res, s') \<Longrightarrow> store_ok s'"
  by (auto simp: delete_collection_meta_def store_ok_def bump_version_def split: option.splits if_splits)

lemma checked_text_nonempty: "check_description_text t = None \<Longrightarrow> t \<noteq> []"
  by (auto simp: check_description_text_def is_blank_def split: if_splits)

text \<open>The three shapes of a write leave a row in the contract: a text, a recorded failure, a clear.\<close>

lemma apply_text_ok:
  assumes "meta_ok m" and "fields_ok (text_fields now change v)" and "change_text change = Some t"
  shows "meta_ok (apply_to (text_fields now change v) m)"
  using assms checked_text_nonempty [of t]
  by (cases change)
    (auto simp: meta_ok_def desc_contract_def apply_to_def text_fields_def fields_ok_def clean_vector_def
      is_storable_vector_def check_stored_description_value_def split: option.splits)

lemma apply_failure_ok: "meta_ok m \<Longrightarrow> meta_ok (apply_to failure_fields m)"
  by (auto simp: meta_ok_def desc_contract_def apply_to_def failure_fields_def check_stored_description_value_def
      description_stored_statuses_def)

lemma apply_clear_ok: "meta_ok m \<Longrightarrow> meta_ok (apply_to clear_fields m)"
  by (auto simp: meta_ok_def desc_contract_def apply_to_def clear_fields_def check_stored_description_value_def
      clean_vector_def)

lemma get_after_put:
  assumes "meta_ok m" and "meta_to_row m = Inr r" and "is_valid_collection_name c" and "valid_namespace ns"
  shows "get_collection_meta True c ns (bump_version c (put_row (c, ns) r s)) = Inr (Some m)"
  using assms row_reads_back [OF assms(1,2)] by (simp add: get_collection_meta_def bump_version_def put_row_def)

end
