(* ===== verification/Description_Text.thy ===== *)
theory Description_Text
  imports Description_Write
begin

text \<open>
  The text rules of \<open>archon_search/description_write.py\<close>: \<open>normalise_description_text\<close> gives one tidy line, which passes the
  check every stored text must pass, and a text it gave is left alone.
\<close>

section \<open>One line\<close>

text \<open>\<open>spaced b s\<close>: the white space of \<open>s\<close> is single blanks, none at the end, and none at the start when \<open>b\<close>.\<close>

fun spaced :: "bool \<Rightarrow> string \<Rightarrow> bool" where
  "spaced b [] = (\<not> b)"
| "spaced b (c # cs) = (if py_isspace c then \<not> b \<and> c = CHR '' '' \<and> spaced True cs else spaced False cs)"

lemma blank_is_space [simp]: "py_isspace (CHR '' '')"
  by (simp add: py_isspace_def ord_def)

lemma spaced_word: "\<forall>c \<in> set w. \<not> py_isspace c \<Longrightarrow> spaced b (w @ s) = (if w = [] then spaced b s else spaced False s)"
  by (induction w arbitrary: b) auto

lemma spaced_take: "spaced b (xs @ ys) \<Longrightarrow> xs \<noteq> [] \<Longrightarrow> \<not> py_isspace (last xs) \<Longrightarrow> spaced b xs"
  by (induction xs arbitrary: b) (auto split: if_splits)

lemma spaced_blank_last: "spaced b (xs @ CHR '' '' # ys) \<Longrightarrow> xs \<noteq> [] \<Longrightarrow> \<not> py_isspace (last xs)"
proof (induction xs arbitrary: b)
  case (Cons x xs)
  then show ?case by (cases xs) (auto split: if_splits)
qed simp

lemma spaced_only_blanks: "spaced b s \<Longrightarrow> c \<in> set s \<Longrightarrow> py_isspace c \<Longrightarrow> c = CHR '' ''"
  by (induction s arbitrary: b) (auto split: if_splits)

lemma words_spaced: "spaced (cur = []) s \<Longrightarrow> py_join '' '' (words_from cur s) = rev cur @ s"
proof (induction s arbitrary: cur)
  case (Cons c s)
  show ?case
  proof (cases "py_isspace c")
    case True
    then have c: "cur \<noteq> []" "c = CHR '' ''" "spaced True s" using Cons.prems by auto
    then have j: "py_join '' '' (words_from [] s) = s" using Cons.IH [of "[]"] by simp
    have "s \<noteq> []" using c(3) by auto
    then obtain w ws where "words_from [] s = w # ws" using j by (cases "words_from [] s") auto
    then show ?thesis using c j by simp
  next
    case False
    then show ?thesis using Cons by simp
  qed
qed auto

lemma words_plain:
  "\<forall>c \<in> set cur. \<not> py_isspace c \<Longrightarrow> w \<in> set (words_from cur s) \<Longrightarrow>
   w \<noteq> [] \<and> (\<forall>c \<in> set w. \<not> py_isspace c) \<and> set w \<subseteq> set cur \<union> set s"
proof (induction s arbitrary: cur)
  case (Cons a s)
  consider "w \<in> set (words_from [] s)" | "w \<in> set (words_from (a # cur) s)" "\<not> py_isspace a" | "w = rev cur" "cur \<noteq> []"
    using Cons.prems(2) by (auto split: if_splits)
  then show ?case
  proof cases
    case 1
    then show ?thesis using Cons.IH [of "[]"] by auto
  next
    case 2
    then have "\<forall>c \<in> set (a # cur). \<not> py_isspace c" using Cons.prems(1) by simp
    from Cons.IH [OF this 2(1)] show ?thesis by auto
  next
    case 3
    then show ?thesis using Cons.prems(1) by auto
  qed
qed (auto split: if_splits)

lemma spaced_join:
  "ws \<noteq> [] \<Longrightarrow> \<forall>w \<in> set ws. w \<noteq> [] \<and> (\<forall>c \<in> set w. \<not> py_isspace c) \<Longrightarrow> spaced b (py_join '' '' ws)"
proof (induction ws arbitrary: b rule: induct_list012)
  case (2 w)
  then show ?case using spaced_word [of w b "[]"] by simp
next
  case (3 v w ws)
  then show ?case by (simp add: spaced_word)
qed simp

definition tidy :: "string \<Rightarrow> bool" where
  "tidy s \<longleftrightarrow> (s = [] \<or> spaced True s) \<and> (\<forall>c \<in> set s. \<not> is_dropped c)"

lemma join_chars: "c \<in> set (py_join sep ws) \<Longrightarrow> c \<in> set sep \<or> (\<exists>w \<in> set ws. c \<in> set w)"
  by (induction ws rule: induct_list012) auto

lemma collapse_tidy: "tidy (collapse_to_one_line t)"
proof -
  define ws where "ws = words_from [] (filter (\<lambda>c. \<not> is_dropped c) t)"
  have w: "w \<noteq> [] \<and> (\<forall>c \<in> set w. \<not> py_isspace c \<and> \<not> is_dropped c)" if "w \<in> set ws" for w
    using words_plain [of "[]" w "filter (\<lambda>c. \<not> is_dropped c) t"] that unfolding ws_def by auto
  have "\<not> is_dropped (CHR '' '')" by (simp add: is_dropped_def ord_def)
  then have "\<not> is_dropped c" if c: "c \<in> set (py_join '' '' ws)" for c
  proof -
    from join_chars [OF c] consider "c = CHR '' ''" | v where "v \<in> set ws" "c \<in> set v" by auto
    then show ?thesis
    proof cases
      case 1
      then show ?thesis using \<open>\<not> is_dropped (CHR '' '')\<close> by simp
    next
      case (2 v)
      then show ?thesis using w [OF 2(1)] by blast
    qed
  qed
  moreover have "spaced True (py_join '' '' ws)" if "ws \<noteq> []" by (rule spaced_join [OF that]) (use w in blast)
  ultimately show ?thesis by (cases "ws = []") (simp_all add: tidy_def collapse_to_one_line_def flip: ws_def)
qed

lemma collapse_tidy_id:
  assumes "tidy s"
  shows "collapse_to_one_line s = s"
proof -
  have "filter (\<lambda>c. \<not> is_dropped c) s = s" using assms by (simp add: tidy_def filter_id_conv)
  then show ?thesis
    using assms words_spaced [of "[]" s] by (auto simp: tidy_def collapse_to_one_line_def)
qed

lemma control_dropped_or_space: "is_control c \<Longrightarrow> is_dropped c \<or> py_isspace c \<and> c \<noteq> CHR '' ''"
proof -
  assume "is_control c"
  moreover have "c \<noteq> CHR '' ''" if "ord c \<noteq> 32" using that by (auto simp: ord_def)
  ultimately show ?thesis by (auto simp: is_control_def is_dropped_def py_isspace_def)
qed

lemma tidy_no_control:
  assumes "tidy s"
  shows "\<not> list_ex is_control s"
proof
  assume "list_ex is_control s"
  then obtain c where c: "c \<in> set s" "is_control c" by (auto simp: list_ex_iff)
  then have "py_isspace c" "c \<noteq> CHR '' ''" using control_dropped_or_space assms by (auto simp: tidy_def)
  then show False using spaced_only_blanks [of True s c] assms c(1) by (auto simp: tidy_def)
qed

section \<open>The cut\<close>

lemma sentence_end_last:
  assumes "e \<in> set (sentence_ends pos w)"
  shows "pos < e \<and> e \<le> pos + length w \<and> \<not> py_isspace (w ! (e - pos - 1))"
  using assms
proof (induction w arbitrary: pos)
  case (Cons c cs)
  let ?k = "length (takeWhile is_closer cs)"
  show ?case
  proof (cases "e \<in> set (sentence_ends (Suc pos) cs)")
    case True
    from Cons.IH [OF this] have i: "Suc pos < e" "e \<le> Suc pos + length cs" "\<not> py_isspace (cs ! (e - Suc pos - 1))" by auto
    then have "e - pos - 1 = Suc (e - Suc pos - 1)" by linarith
    with i show ?thesis by simp
  next
    case False
    then have e: "e = Suc pos + ?k" and t: "is_terminator c" using Cons.prems by (auto simp: Let_def split: if_splits)
    have k: "?k \<le> length cs" by (rule length_takeWhile_le)
    have "\<not> py_isspace ((c # cs) ! ?k)"
    proof (cases ?k)
      case 0
      then show ?thesis using t by (auto simp: is_terminator_def py_isspace_def ord_def)
    next
      case (Suc i)
      have "cs ! i = takeWhile is_closer cs ! i" using takeWhile_nth [of i is_closer cs] Suc by simp
      then have "cs ! i \<in> set (takeWhile is_closer cs)" using Suc by simp
      then have "is_closer (cs ! i)" using set_takeWhileD by fastforce
      then show ?thesis using Suc by (auto simp: is_closer_def py_isspace_def)
    qed
    then show ?thesis using e k by simp
  qed
qed simp

lemma rfind_space_split:
  assumes "rfind_space w = Some n"
  shows "\<exists>xs ys. w = xs @ CHR '' '' # ys \<and> length xs = n"
proof -
  let ?t = "takeWhile (\<lambda>c. c \<noteq> CHR '' '') (rev w)"
  have n: "length ?t \<noteq> length w" "n = length w - length ?t - 1" using assms by (auto simp: rfind_space_def Let_def split: if_splits)
  then have lt: "length ?t < length (rev w)" using length_takeWhile_le [of "\<lambda>c. c \<noteq> CHR '' ''" "rev w"] by simp
  then have "rev w ! length ?t = CHR '' ''" using nth_length_takeWhile by blast
  then have "w ! n = CHR '' ''" using n lt by (simp add: rev_nth)
  moreover have "n < length w" using n lt by simp
  ultimately show ?thesis using id_take_nth_drop [of n w] by (metis length_take min.absorb4)
qed

lemma rfind_space_None: "rfind_space w = None \<Longrightarrow> CHR '' '' \<notin> set w"
proof -
  assume "rfind_space w = None"
  then have "length (takeWhile (\<lambda>c. c \<noteq> CHR '' '') (rev w)) = length (rev w)"
    by (auto simp: rfind_space_def Let_def split: if_splits)
  then have "takeWhile (\<lambda>c. c \<noteq> CHR '' '') (rev w) = rev w" by (metis takeWhile_eq_take take_all order_refl)
  then show "CHR '' '' \<notin> set w" by (metis (mono_tags, lifting) set_rev set_takeWhileD)
qed

text \<open>Where the cut is made: within the limit, and not after a blank.\<close>

lemma trim_cut:
  assumes "spaced True t" and "length t > max_description_chars"
  shows "\<exists>n. trim_to_last_sentence t = take n t \<and> 0 < n \<and> n \<le> max_description_chars \<and> \<not> py_isspace (t ! (n - 1))"
proof -
  let ?w = "take (max_description_chars + 1) t" and ?n = max_description_chars
  let ?ends = "filter (\<lambda>e. e \<le> ?n) (sentence_ends 0 ?w)"
  have pos: "0 < ?n" by (simp add: max_description_chars_def)
  show ?thesis
  proof (cases "?ends = []")
    case False
    then have "last ?ends \<in> set ?ends" by (rule last_in_set)
    then have e: "last ?ends \<in> set (sentence_ends 0 ?w)" "last ?ends \<le> ?n" by auto
    from sentence_end_last [OF e(1)] e(2) show ?thesis using False by (auto simp: trim_to_last_sentence_def Let_def)
  next
    case none: True
    show ?thesis
    proof (cases "rfind_space ?w")
      case (Some n)
      then obtain xs ys where w: "?w = xs @ CHR '' '' # ys" "length xs = n" using rfind_space_split by blast
      have len: "length ?w = Suc ?n" using assms(2) by simp
      have "length ?w = Suc (n + length ys)" unfolding w(1) using w(2) by simp
      with len have n: "n \<le> ?n" by simp
      have t: "t = xs @ CHR '' '' # (ys @ drop (?n + 1) t)"
        using append_take_drop_id [of "?n + 1" t] unfolding w(1) by simp
      have xs: "xs = take n t" using arg_cong [OF t, of "take n"] w(2) by simp
      have "xs \<noteq> []"
      proof
        assume "xs = []"
        then have "spaced True (CHR '' '' # (ys @ drop (?n + 1) t))" using assms(1) t by (metis append_Nil)
        then show False by simp
      qed
      moreover from this have "\<not> py_isspace (last xs)"
        using spaced_blank_last [of True xs "ys @ drop (?n + 1) t"] assms(1) t by metis
      moreover have "xs ! (n - 1) = t ! (n - 1)" using calculation(1) w(2) xs by (cases n) simp_all
      ultimately show ?thesis using none Some n w(2) xs
        by (auto simp: trim_to_last_sentence_def Let_def last_conv_nth intro!: exI [of _ n])
    next
      case None
      have "t ! (?n - 1) \<in> set ?w" using assms(2) pos by (auto simp: in_set_conv_nth intro!: exI [of _ "?n - 1"])
      moreover have "t ! (?n - 1) \<in> set t" using assms(2) by simp
      ultimately have "\<not> py_isspace (t ! (?n - 1))" using rfind_space_None [OF None] spaced_only_blanks [OF assms(1)] by metis
      then show ?thesis using none None pos by (auto simp: trim_to_last_sentence_def Let_def)
    qed
  qed
qed

lemma trim_tidy:
  assumes "tidy t" and "length t > max_description_chars"
  shows "tidy (trim_to_last_sentence t)" and "length (trim_to_last_sentence t) \<le> max_description_chars"
proof -
  have s: "spaced True t" using assms by (auto simp: tidy_def)
  from trim_cut [OF s assms(2)] obtain n where n: "trim_to_last_sentence t = take n t" "0 < n" "n \<le> max_description_chars"
      "\<not> py_isspace (t ! (n - 1))" by blast
  have ne: "take n t \<noteq> []" using n assms(2) by auto
  moreover have "last (take n t) = t ! (n - 1)" using last_conv_nth [OF ne] n assms(2) by (simp add: min_def)
  ultimately have "spaced True (take n t)" using spaced_take [of True "take n t" "drop n t"] s n(4) by simp
  then show "tidy (trim_to_last_sentence t)" using assms(1) n(1) by (auto simp: tidy_def dest: in_set_takeD)
  show "length (trim_to_last_sentence t) \<le> max_description_chars" using n(1,3) by simp
qed

lemma normalise_result:
  assumes "n = normalise_description_text t"
  shows "tidy n \<and> length n \<le> max_description_chars \<and> (n = [] \<or> \<not> is_blank n)"
  using collapse_tidy [of t] trim_tidy [of "collapse_to_one_line t"] assms
  by (auto simp: normalise_description_text_def Let_def tidy_def split: if_splits)

end
