(* ===== verification/Description_Properties.thy ===== *)
theory Description_Properties
  imports Lifecycle_Progress Description_Facts Description_Text
begin

text \<open>
  What the description service promises: the text rules, the stored row, the guarded write, and the lifecycle of a
  generation under every interleaving.
\<close>

section \<open>Writes of the service\<close>

lemma service_writes:
  assumes "service_step w w'"
  shows "mstore w' = mstore w \<or> (\<exists>t c ns f e r. write_description t c ns f (Expect e) (mstore w) = (r, mstore w'))"
  using assms
proof (induction rule: service_step.induct)
  case (saved l j x t e docs vector att now s s' l')
  then show ?case
    by (auto simp: save_lands_def finish_apply_def change_guard_def split: sum.splits prod.splits if_splits)
next
  case (recorded l j x e att s s' l')
  then show ?case by (auto simp: record_lands_def record_failure_def split: sum.splits prod.splits if_splits)
next
  case (cancelled_saving l j x t e docs vector att now s r s')
  then show ?case
    by (auto simp: finish_apply_def change_guard_def split: sum.splits prod.splits if_splits)
next
  case (cancelled_recording l j x e att s r s')
  then show ?case by (auto simp: record_failure_def)
qed simp_all

lemma store_ok_other:
  assumes "other_change s s'" and "store_ok s"
  shows "store_ok s'"
  using assms
proof (induction rule: other_change.induct)
  case (create s m r)
  then show ?case by (simp add: store_ok_put)
next
  case (upkeep s m r m' r')
  then have "m_namespace m \<noteq> []" by (metis store_okE)
  then show ?case using upkeep store_ok_put [of s m' r'] by simp
qed (auto intro: store_ok_write store_ok_delete)

lemma store_ok_service: "service_step w w' \<Longrightarrow> store_ok (mstore w) \<Longrightarrow> store_ok (mstore w')"
  using service_writes store_ok_write by metis

definition store_start :: "life_world \<Rightarrow> bool" where
  "store_start w \<longleftrightarrow> life_start w \<and> store_ok (mstore w)"

interpretation stored: machine_invariant store_start life_step "\<lambda>w. store_ok (mstore w)"
proof
  show "store_ok (mstore w')" if "store_ok (mstore w)" and "life_step w w'" for w w'
    using that(2,1) by (induction rule: life_step.induct) (simp_all add: store_ok_service store_ok_other)
qed (simp add: store_start_def)

lemma guarded_write_respects_manual:
  assumes "store_ok s" and "write_description t c' ns' f (Expect e) s = (res, s')"
    and "meta_rows s (c, ns) = Some r" and "row_to_meta r = Inr m" and "m_source m = Some ''manual''"
  shows "meta_rows s' (c, ns) = Some r"
  using assms(1,2)
proof (cases rule: write_description_cases)
  case same
  then show ?thesis using assms(3) by simp
next
  case (changed r1 m1 r2)
  then show ?thesis
    using assms(3-5) by (auto simp: guard_allows_def refusal_None bump_version_def put_row_def)
qed

section \<open>The queue\<close>

lemma sort_min_first:
  fixes xs :: "'a :: linorder list"
  assumes "xs \<noteq> []"
  shows "sort xs = min_list xs # sort (remove1 (min_list xs) xs)"
proof (rule properties_for_sort)
  have m: "min_list xs \<in> set xs" using assms by (rule min_list_in)
  then show "mset (min_list xs # sort (remove1 (min_list xs) xs)) = mset xs" by simp
  have "min_list xs \<le> x" if "x \<in> set xs" for x using assms that by (simp add: min_list_Min)
  then show "sorted (min_list xs # sort (remove1 (min_list xs) xs))"
    using set_remove1_subset [of "min_list xs" xs] by auto
qed

section \<open>Settling every job\<close>

definition work_left :: "lifecycle \<Rightarrow> nat" where
  "work_left l = (\<Sum>j \<in> dom (gjobs l). stretches_left (j_phase (the (gjobs l j))))"

lemma advances_work_left:
  assumes "advances j l l'" and "lifecycle_ok l"
  shows "work_left l' < work_left l"
proof -
  obtain x y where xy: "gjobs l j = Some x" "gjobs l' j = Some y" "stretches_left (j_phase y) < stretches_left (j_phase x)"
    and same: "\<And>i. i \<noteq> j \<Longrightarrow> gjobs l' i = gjobs l i"
    using assms(1) by (auto simp: advances_def)
  have "dom (gjobs l) \<subseteq> {..<next_job l}" using assms(2) by (auto simp: lifecycle_ok_def flight_ok_def)
  then have fin: "finite (dom (gjobs l))" by (rule finite_subset) simp
  have dom: "dom (gjobs l') = dom (gjobs l)"
  proof (rule set_eqI)
    show "i \<in> dom (gjobs l') \<longleftrightarrow> i \<in> dom (gjobs l)" for i using same [of i] xy by (cases "i = j") (simp_all add: domIff)
  qed
  have j: "j \<in> dom (gjobs l)" using xy by auto
  have "stretches_left (j_phase (the (gjobs l' i))) \<le> stretches_left (j_phase (the (gjobs l i)))" for i
    using same [of i] xy by (cases "i = j") simp_all
  moreover have "stretches_left (j_phase (the (gjobs l' j))) < stretches_left (j_phase (the (gjobs l j)))" using xy by simp
  ultimately show ?thesis unfolding work_left_def dom using j by (intro sum_strict_mono_ex1 [OF fin]) blast+
qed

lemma settled_slot_free:
  assumes "lifecycle_ok l" and "\<forall>j x. gjobs l j = Some x \<longrightarrow> is_done x"
  shows "holder (lc_slot l) = None"
proof (rule ccontr)
  assume "holder (lc_slot l) \<noteq> None"
  then obtain j where "holder (lc_slot l) = Some j" by blast
  then obtain l' s' where "advances j l l'" using holder_can_run [OF assms(1)] unfolding can_run_def by blast
  then show False using assms(2) by (auto simp: advances_def is_done_iff)
qed

text \<open>A run of the tasks alone: nobody closes the service and no job is added.\<close>

definition same_jobs :: "lifecycle \<Rightarrow> lifecycle \<Rightarrow> bool" where
  "same_jobs l l' \<longleftrightarrow> lc_closed l' = lc_closed l \<and> dom (gjobs l') = dom (gjobs l)"

lemma advances_dom: "advances j l l' \<Longrightarrow> dom (gjobs l') = dom (gjobs l)"
  unfolding advances_def dom_def by (metis option.distinct(1))

lemma every_job_can_settle:
  assumes "life_inv_closed w"
  shows "\<exists>w'. service_step\<^sup>*\<^sup>* w w' \<and> same_jobs (life w) (life w') \<and> lifecycle_ok (life w') \<and>
    (\<forall>j x. gjobs (life w') j = Some x \<longrightarrow> is_done x)"
  using assms
proof (induction "work_left (life w)" arbitrary: w rule: less_induct)
  case less
  have ok: "lifecycle_ok (life w)" using less.prems by (simp add: life_inv_closed_def life_inv_def)
  show ?case
  proof (cases "\<forall>j x. gjobs (life w) j = Some x \<longrightarrow> is_done x")
    case True
    then show ?thesis using ok by (intro exI [of _ w]) (simp add: same_jobs_def)
  next
    case False
    then obtain i where "can_run i (life w) (mstore w)" using some_task_can_run [OF less.prems] by blast
    then obtain l' s' where step: "service_step w \<lparr>life = l', mstore = s'\<rparr>" and adv: "advances i (life w) l'"
      and closed: "lc_closed l' = lc_closed (life w)"
      unfolding can_run_def by (cases w) auto
    have "life_inv_closed \<lparr>life = l', mstore = s'\<rparr>"
      using shutdown.inv_step [OF less.prems life_step.service [OF step]] .
    from less.hyps [OF _ this] advances_work_left [OF adv ok]
    obtain w' where w': "service_step\<^sup>*\<^sup>* \<lparr>life = l', mstore = s'\<rparr> w'" "same_jobs l' (life w')" "lifecycle_ok (life w')"
      "\<forall>j x. gjobs (life w') j = Some x \<longrightarrow> is_done x"
      by auto
    moreover have "same_jobs (life w) (life w')" using w'(2) closed advances_dom [OF adv] by (simp add: same_jobs_def)
    ultimately show ?thesis using step by (meson converse_rtranclp_into_rtranclp)
  qed
qed

section \<open>Properties of the text and of one write\<close>

text \<open>
  Whatever an archive holds, \<open>normalise_description_text\<close> gives either nothing or one line of plain text within the
  limit that \<open>check_description_text\<close> accepts, and a text it gave is not changed by another import.
\<close>

lemma normalised_text_storable:
  "(normalise_description_text t = [] \<or> check_description_text (normalise_description_text t) = None) \<and>
   normalise_description_text (normalise_description_text t) = normalise_description_text t"
proof -
  define n where "n = normalise_description_text t"
  have r: "tidy n" "length n \<le> max_description_chars" "n = [] \<or> \<not> is_blank n"
    using normalise_result [OF n_def] by auto
  have "n = [] \<or> check_description_text n = None"
    using r tidy_no_control [OF r(1)] by (auto simp: check_description_text_def)
  moreover have "normalise_description_text n = n"
    using r collapse_tidy_id [OF r(1)] by (auto simp: normalise_description_text_def Let_def)
  ultimately show ?thesis by (simp add: n_def)
qed

text \<open>
  Every row that can be read gives a metadata object inside the contract (a known source and status or none, both
  present when there is a text, no empty text), and writing that object gives a row that reads back as the same object.
\<close>

lemma meta_row_roundtrip:
  assumes "row_to_meta r = Inr m"
  shows "check_stored_description_value (m_source m) description_sources \<and>
    check_stored_description_value (m_status m) description_stored_statuses \<and>
    (case m_description m of None \<Rightarrow> True | Some text \<Rightarrow> text \<noteq> [] \<and> m_source m \<noteq> None \<and> m_status m \<noteq> None) \<and>
    (\<exists>r'. meta_to_row m = Inr r' \<and> row_to_meta r' = Inr m)"
proof -
  have ok: "meta_ok m" using assms by (rule row_to_meta_ok)
  show ?thesis
    using ok meta_ok_writes [OF ok] row_reads_back [OF ok] by (auto simp: meta_ok_def desc_contract_def split: option.split)
qed

text \<open>
  C7: a guarded write (a generated text, a recorded failure) is a compare-and-set. When it changed the store, the row held
  exactly the state the generation started from and no manual text, and the change is that one row with that one
  collection's version moved; in every other case, errors included, the store is untouched.
\<close>

theorem guarded_write_compare_and_set:
  assumes "store_ok s" and "write_description t c ns f (Expect e) s = (res, s')"
  shows "(s' = s \<and> res \<noteq> Inr Written) \<or>
    (\<exists>r m r'. meta_rows s (c, ns) = Some r \<and> row_to_meta r = Inr m \<and> m_source m \<noteq> Some ''manual'' \<and>
      or_none (m_description m) = or_none (e_description e) \<and> m_source m = e_source e \<and>
      m_last_described m = e_last_described e \<and> m_status m = e_status e \<and>
      meta_to_row (apply_to f m) = Inr r' \<and> meta_rows s' = (meta_rows s)((c, ns) \<mapsto> r') \<and>
      versions s' = (versions s)(c := Suc (versions s c)))"
  using assms
proof (cases rule: write_description_cases)
  case same
  then show ?thesis by simp
next
  case (changed r m r')
  then show ?thesis
    by - (rule disjI2, rule exI [of _ r], rule exI [of _ m], rule exI [of _ r'], auto simp: guard_allows_def refusal_None bump_version_def put_row_def)
qed

text \<open>
  What the writer wrote is what a reader reads. A text that was set, generated or imported is stored with its source,
  the status ok, the time, and its own vector or none (never the vector of an older text); every other field of the row
  is the one found under the lock, every other row is untouched, and the collection's version moved by one.
\<close>

lemma description_read_after_write:
  assumes "store_ok (between s)" and "change_text change = Some txt'"
    and "apply_change_of t works emb between now dm c ns change s = (Inr (Written, v), s')"
  shows "\<exists>m vec. get_collection_meta True c ns (between s) = Inr (Some m) \<and>
    get_collection_meta True c ns s' = Inr (Some (apply_to (text_fields now change vec) m)) \<and>
    v = (if vec = None then Kept_without_vector else Refreshed) \<and>
    m_description (apply_to (text_fields now change vec) m) = Some txt' \<and>
    m_embedding (apply_to (text_fields now change vec) m) = vec \<and>
    versions s' c = Suc (versions (between s) c) \<and> (\<forall>k. k \<noteq> (c, ns) \<longrightarrow> meta_rows s' k = meta_rows (between s) k)"
proof -
  obtain vec where fin: "finish_apply t now c ns change vec (between s) = (Inr (Written, v), s')"
    using assms(2,3) by (auto simp: apply_change_of_def Let_def split: if_splits sum.splits option.splits)
  let ?f = "text_fields now change vec"
  have f: "fields_ok ?f" and w: "write_description t c ns ?f (change_guard change) (between s) = (Inr Written, s')"
    and v: "v = (if vec = None then Kept_without_vector else Refreshed)"
    using fin by (auto simp: finish_apply_def vector_outcome_of_def split: if_splits sum.splits prod.splits)
  from assms(1) w show ?thesis
  proof (cases rule: write_description_cases)
    case (changed r m r')
    have ok: "meta_ok (apply_to ?f m)" using changed(5) f assms(2) by (rule apply_text_ok)
    have "get_collection_meta True c ns s' = Inr (Some (apply_to ?f m))"
      using get_after_put [OF ok changed(7,9,10)] changed(8) by simp
    moreover have "get_collection_meta True c ns (between s) = Inr (Some m)"
      using changed by (simp add: get_collection_meta_def)
    moreover have "m_description (apply_to ?f m) = Some txt'" "m_embedding (apply_to ?f m) = vec"
      using assms(2) by (auto simp: apply_to_def text_fields_def split: description_change.splits option.splits)
    ultimately show ?thesis using v changed(8) by (auto simp: bump_version_def put_row_def)
  qed simp
qed

section \<open>Properties of the lifecycle\<close>

text \<open>
  Passing the slot on is the same as sorting the queue by rank and arrival, dropping the cancelled places at its front,
  and serving the first that is left; nobody is skipped and nobody else leaves the queue.
\<close>

lemma slot_serves_best_place:
  "holder (pass_on s) =
     (case dropWhile (\<lambda>e. snd (snd e) \<in> set (cancelled s)) (sort (waiting s)) of [] \<Rightarrow> None | e # _ \<Rightarrow> Some (snd (snd e))) \<and>
   sort (waiting (pass_on s)) = tl (dropWhile (\<lambda>e. snd (snd e) \<in> set (cancelled s)) (sort (waiting s)))"
proof (induction s rule: pass_on.induct)
  case (1 s)
  show ?case
  proof (cases "waiting s = []")
    case True
    then show ?thesis by (simp add: pass_on_empty)
  next
    case False
    define e s' where "e = min_list (waiting s)" and "s' = s\<lparr>waiting := remove1 e (waiting s)\<rparr>"
    have q: "sort (waiting s) = e # sort (waiting s')" using sort_min_first [OF False] by (simp add: e_def s'_def)
    have c: "cancelled s' = cancelled s" by (simp add: s'_def)
    show ?thesis
    proof (cases "snd (snd e) \<in> set (cancelled s)")
      case True
      then have "pass_on s = pass_on s'" by (simp add: pass_on_next [OF False] Let_def e_def s'_def)
      then show ?thesis using "1.IH" [OF False e_def s'_def refl] True by (simp add: q c)
    next
      case False
      have "pass_on s = s'\<lparr>holder := Some (snd (snd e))\<rparr>"
        using False by (simp add: pass_on_next [OF \<open>waiting s \<noteq> []\<close>] Let_def e_def s'_def)
      then show ?thesis using False by (simp add: q)
    qed
  qed
qed

text \<open>
  C8: under every interleaving of requests, tasks, shutdown and other changes of the rows there is one generation of a
  collection at a time and one drafting task in the process: two unfinished jobs of one collection are the same job, a
  drafting job holds the slot, the queue stays within its bound, and a collection is pending exactly while it has an
  unfinished job.
\<close>

theorem one_generation_at_a_time:
  assumes "reachable life_start life_step w"
    and "gjobs (life w) i = Some x" and "\<not> is_done x" and "gjobs (life w) j = Some y" and "\<not> is_done y"
  shows "(if j_collection x = j_collection y then i = j else True) \<and>
    (if drafting (j_phase x) then holder (lc_slot (life w)) = Some i else True) \<and>
    (if drafting (j_phase x) \<and> drafting (j_phase y) then i = j else True) \<and>
    length (waiting (lc_slot (life w))) \<le> max_queued (lc_slot (life w)) \<and>
    (\<forall>c. is_pending (life w) c = (\<exists>k z. gjobs (life w) k = Some z \<and> \<not> is_done z \<and> j_collection z = c))"
proof -
  have ok: "lifecycle_ok (life w)" using generation.inv_reachable [OF assms(1)] by (simp add: life_inv_def)
  then have s: "slot_ok (lc_slot (life w)) (waiters (gjobs (life w))) (drafters (gjobs (life w)))"
    and f: "flight_ok (in_flight (life w)) (gjobs (life w)) (next_job (life w))" by (simp_all add: lifecycle_ok_def)
  have d: "holder (lc_slot (life w)) = Some k" if "gjobs (life w) k = Some z" "drafting (j_phase z)" for k z
    using slot_okD(1) [OF s] that by (auto simp: drafters_def)
  have "i = j" if "j_collection x = j_collection y"
    using f assms(2-5) that by (auto simp: flight_ok_def unfinished_def)
  moreover have "i = j" if "drafting (j_phase x)" "drafting (j_phase y)"
    using d [OF assms(2) that(1)] d [OF assms(4) that(2)] by simp
  moreover have "is_pending (life w) c = (\<exists>k z. gjobs (life w) k = Some z \<and> \<not> is_done z \<and> j_collection z = c)" for c
    using f by (auto simp: flight_ok_def is_pending_def unfinished_def)
  ultimately show ?thesis using d [OF assms(2)] slot_okD(8) [OF s] by auto
qed

text \<open>
  C39: a generation ends. In every reachable state each step that changes a job's record brings it nearer to its settlement,
  so no job can be changed for ever: the relation between a job's record after and before a step is well founded.
\<close>

theorem generation_steps_terminate:
  "wf {(y, x). \<exists>w w' j. reachable life_start life_step w \<and> life_step w w' \<and> gjobs (life w) j = Some x \<and>
     gjobs (life w') j = Some y \<and> y \<noteq> x}"
proof (rule wf_subset [OF wf_measure [of "\<lambda>x. stretches_left (j_phase x)"]], safe)
  fix y x :: generation_job and w w' j
  assume "reachable life_start life_step w" "life_step w w'" "gjobs (life w) j = Some x" "gjobs (life w') j = Some y" "y \<noteq> x"
  then show "(y, x) \<in> measure (\<lambda>x. stretches_left (j_phase x))"
    using job_never_moves_back [of w w' j x y] generation.inv_reachable by auto
qed

text \<open>
  C10: nothing is ever stuck, and the slot is passed on. From every reachable state, whatever was cancelled and whoever held the
  slot, the tasks have a run that does not close the service and adds no job, after which every job is settled and nobody holds the
  slot. So in an open service, where no task can be cancelled, the slot reaches every job that waits for it.
\<close>

theorem every_generation_can_settle:
  assumes "reachable life_start life_step w"
  shows "\<exists>w'. service_step\<^sup>*\<^sup>* w w' \<and> lc_closed (life w') = lc_closed (life w) \<and> dom (gjobs (life w')) = dom (gjobs (life w)) \<and>
    holder (lc_slot (life w')) = None \<and> (\<forall>j. case gjobs (life w') j of None \<Rightarrow> True | Some x \<Rightarrow> is_done x)"
proof -
  obtain w' where "service_step\<^sup>*\<^sup>* w w'" "same_jobs (life w) (life w')" "lifecycle_ok (life w')"
    "\<forall>j x. gjobs (life w') j = Some x \<longrightarrow> is_done x"
    using every_job_can_settle [OF shutdown.inv_reachable [OF assms]] by blast
  then show ?thesis
    using settled_slot_free by (intro exI [of _ w']) (auto simp: same_jobs_def split: option.splits)
qed

text \<open>
  C9: a manual description is never touched by the service: along every run of its tasks, failures and cancellations
  included, a row whose source is manual stays as it is.
\<close>

theorem manual_description_survives:
  assumes "service_step\<^sup>*\<^sup>* w w'" and "store_ok (mstore w)"
    and "meta_rows (mstore w) (c, ns) = Some r" and "row_to_meta r = Inr m" and "m_source m = Some ''manual''"
  shows "meta_rows (mstore w') (c, ns) = Some r"
proof -
  have "store_ok (mstore w') \<and> meta_rows (mstore w') (c, ns) = Some r"
    using assms(1)
  proof (induction rule: rtranclp_induct)
    case base
    then show ?case using assms(2,3) by simp
  next
    case (step v v')
    then show ?case
      using service_writes [OF step(2)] store_ok_service [OF step(2)]
        guarded_write_respects_manual [OF _ _ _ assms(4,5)] by metis
  qed
  then show ?thesis by simp
qed

text \<open>
  C38: the table stays well formed. Under every interleaving each row stands under its own name and namespace, can be read,
  and what is read is inside the description contract.
\<close>

theorem stored_rows_keep_contract:
  assumes "reachable store_start life_step w" and "meta_rows (mstore w) (c, ns) = Some r"
  shows "\<exists>m. row_to_meta r = Inr m \<and> m_name m = c \<and> m_namespace m = ns \<and>
    check_stored_description_value (m_source m) description_sources \<and>
    check_stored_description_value (m_status m) description_stored_statuses \<and>
    (case m_description m of None \<Rightarrow> True | Some text \<Rightarrow> text \<noteq> [] \<and> m_source m \<noteq> None \<and> m_status m \<noteq> None)"
proof -
  obtain m where "row_to_meta r = Inr m" "m_name m = c" "m_namespace m = ns" "meta_ok m"
    using store_okE [OF stored.inv_reachable [OF assms(1)] assms(2)] by blast
  then show ?thesis by (intro exI [of _ m]) (auto simp: meta_ok_def desc_contract_def split: option.split)
qed

section \<open>Concrete runs\<close>

text \<open>A row with a manual text, a row without one, and a request for the second.\<close>

definition sample_meta :: "string \<Rightarrow> string option \<Rightarrow> string option \<Rightarrow> string option \<Rightarrow> collection_meta" where
  "sample_meta c des src st =
     \<lparr>m_name = c, m_description = des, m_centroid = None, m_centroid_sum = None, m_mutations = 0,
      m_needs_recompute = False, m_doc_count = 4, m_chunk_count = 9, m_active_model = ''m'', m_pending_model = None,
      m_needs_reindex = False, m_reindex_job = None, m_rebuild_job = None, m_metadata_job = None, m_last_indexed = Some 7,
      m_last_described = None, m_described_at = None, m_namespace = ''default'', m_embedding = None, m_schema_version = 3,
      m_default_ttl = None, m_source = src, m_status = st\<rparr>"

definition sample_row :: "string \<Rightarrow> string option \<Rightarrow> string option \<Rightarrow> string option \<Rightarrow> meta_row" where
  "sample_row c des src st =
     (case meta_to_row (sample_meta c des src st) of Inr r \<Rightarrow> r | Inl _ \<Rightarrow> undefined)"

definition manual_row :: meta_row where
  "manual_row = sample_row ''docs'' (Some ''Notes.'') (Some ''manual'') (Some ''ok'')"

definition bare_row :: meta_row where
  "bare_row = sample_row ''wiki'' None None None"

definition sample_store :: meta_store where
  "sample_store =
     \<lparr>meta_rows = [(''docs'', ''default'') \<mapsto> manual_row, (''wiki'', ''default'') \<mapsto> bare_row], versions = (\<lambda>_. 0)\<rparr>"

definition world0 :: life_world where
  "world0 = \<lparr>life = new_lifecycle 2, mstore = sample_store\<rparr>"

definition world1 :: life_world where
  "world1 =
     \<lparr>life = snd (request_generation ''wiki'' ''default'' Describe
        (get_collection_meta True ''wiki'' ''default'' sample_store) (new_lifecycle 2)), mstore = sample_store\<rparr>"

lemma manual_row_reads: "row_to_meta manual_row = Inr (sample_meta ''docs'' (Some ''Notes.'') (Some ''manual'') (Some ''ok''))"
  by code_simp

lemma bare_row_reads: "row_to_meta bare_row = Inr (sample_meta ''wiki'' None None None)"
  by code_simp

lemma sample_rows_at: "row_at ''docs'' ''default'' manual_row" "row_at ''wiki'' ''default'' bare_row"
proof -
  have "r_name manual_row = ''docs'' \<and> r_namespace manual_row = Some ''default''" by code_simp
  then show "row_at ''docs'' ''default'' manual_row" using manual_row_reads by (simp add: row_at_def)
  have "r_name bare_row = ''wiki'' \<and> r_namespace bare_row = Some ''default''" by code_simp
  then show "row_at ''wiki'' ''default'' bare_row" using bare_row_reads by (simp add: row_at_def)
qed

lemma sample_store_ok: "store_ok sample_store"
  using sample_rows_at by (simp add: store_ok_def sample_store_def)

lemma world0_start: "life_start world0"
  by (auto simp: life_start_def world0_def)

lemma world_step: "service_step world0 world1"
  unfolding world0_def world1_def by (rule service_step.request) (rule surjective_pairing)

lemma world1_reachable: "reachable life_start life_step world1"
  by (rule reach_step, rule reach_init, rule world0_start, rule life_step.service, rule world_step)

lemma world1_job:
  "gjobs (life world1) 0 =
     Some \<lparr>j_collection = ''wiki'', j_namespace = ''default'', j_kind = Describe, j_phase = Awaiting_slot, j_version = None\<rparr>"
proof -
  have v: "is_valid_collection_name ''wiki''" "valid_namespace ''default''" by code_simp+
  have "get_collection_meta True ''wiki'' ''default'' sample_store = Inr (Some (sample_meta ''wiki'' None None None))"
    using v bare_row_reads by (simp add: get_collection_meta_def sample_store_def)
  then show ?thesis
    by (simp add: world1_def request_generation_def refused_without_reading_def new_lifecycle_def generation_refusal_def
        sample_meta_def admit_def is_full_def reserve_def)
qed

theorem meta_row_roundtrip_witness:
  "row_to_meta manual_row = Inr (sample_meta ''docs'' (Some ''Notes.'') (Some ''manual'') (Some ''ok'')) \<and>
   check_stored_description_value (Some ''manual'') description_sources"
  using manual_row_reads meta_row_roundtrip [OF manual_row_reads] by (simp add: sample_meta_def)

definition idle_try :: store_try where
  "idle_try = \<lparr>lock_free = True, read_works = True, merge = Merged\<rparr>"

definition bare_state :: expected_state where
  "bare_state = \<lparr>e_description = None, e_source = None, e_last_described = None, e_status = None\<rparr>"

theorem guarded_write_compare_and_set_witness:
  "store_ok sample_store \<and>
   fst (write_description idle_try ''wiki'' ''default'' failure_fields (Expect bare_state) sample_store) = Inr Written \<and>
   versions (snd (write_description idle_try ''wiki'' ''default'' failure_fields (Expect bare_state) sample_store)) ''wiki'' = 1"
proof -
  have w: "fst (write_description idle_try ''wiki'' ''default'' failure_fields (Expect bare_state) sample_store) = Inr Written"
    by code_simp
  show ?thesis
    using w sample_store_ok
      guarded_write_compare_and_set [OF sample_store_ok surjective_pairing,
        of idle_try "''wiki''" "''default''" failure_fields bare_state]
    by (auto simp: sample_store_def)
qed

theorem one_generation_at_a_time_witness:
  "reachable life_start life_step world1 \<and> is_pending (life world1) ''wiki''"
proof -
  let ?x = "\<lparr>j_collection = ''wiki'', j_namespace = ''default'', j_kind = Describe, j_phase = Awaiting_slot, j_version = None\<rparr>"
  have u: "\<not> is_done ?x" by (simp add: is_done_def)
  then have "\<exists>k z. gjobs (life world1) k = Some z \<and> \<not> is_done z \<and> j_collection z = ''wiki''"
    using world1_job by (intro exI [of _ 0] exI [of _ ?x]) simp
  then show ?thesis using world1_reachable one_generation_at_a_time [OF world1_reachable world1_job u world1_job u] by simp
qed

theorem every_generation_can_settle_witness:
  "\<exists>w'. service_step\<^sup>*\<^sup>* world1 w' \<and> lc_closed (life w') = lc_closed (life world1) \<and> holder (lc_slot (life w')) = None \<and>
     (\<forall>j. case gjobs (life w') j of None \<Rightarrow> True | Some x \<Rightarrow> is_done x)"
  using every_generation_can_settle [OF world1_reachable] by blast

theorem manual_description_survives_witness:
  "service_step\<^sup>*\<^sup>* world0 world1 \<and> meta_rows (mstore world1) (''docs'', ''default'') = Some manual_row"
proof
  show s: "service_step\<^sup>*\<^sup>* world0 world1" using world_step by (rule r_into_rtranclp)
  show "meta_rows (mstore world1) (''docs'', ''default'') = Some manual_row"
    by (rule manual_description_survives [OF s _ _ manual_row_reads])
      (simp_all add: world0_def sample_store_ok sample_meta_def, simp add: sample_store_def)
qed

theorem stored_rows_keep_contract_witness:
  "reachable store_start life_step world1 \<and>
   (\<exists>m. row_to_meta manual_row = Inr m \<and> m_name m = ''docs'')"
proof
  have "store_start world0" using world0_start sample_store_ok by (simp add: store_start_def world0_def)
  then have "reachable store_start life_step world0" by (rule reach_init)
  then show r: "reachable store_start life_step world1" by (rule reach_step) (rule life_step.service, rule world_step)
  show "\<exists>m. row_to_meta manual_row = Inr m \<and> m_name m = ''docs''"
    using stored_rows_keep_contract [OF r, of "''docs''" "''default''" manual_row]
    by (auto simp: world1_def sample_store_def)
qed

theorem description_read_after_write_witness:
  "fst (apply_change_of idle_try True (\<lambda>_ _. None) id 5 ''m'' ''docs'' ''default'' (Manual_set ''New.'') sample_store) =
     Inr (Written, Kept_without_vector) \<and>
   versions (snd (apply_change_of idle_try True (\<lambda>_ _. None) id 5 ''m'' ''docs'' ''default'' (Manual_set ''New.'') sample_store))
     ''docs'' = 1"
proof
  let ?r = "apply_change_of idle_try True (\<lambda>_ _. None) id 5 ''m'' ''docs'' ''default'' (Manual_set ''New.'') sample_store"
  show f: "fst ?r = Inr (Written, Kept_without_vector)" by code_simp
  have "?r = (Inr (Written, Kept_without_vector), snd ?r)" using f by (metis surjective_pairing)
  moreover have "store_ok (id sample_store)" "change_text (Manual_set ''New.'') = Some ''New.''" by (simp_all add: sample_store_ok)
  ultimately have "versions (snd ?r) ''docs'' = Suc (versions (id sample_store) ''docs'')"
    using description_read_after_write by blast
  moreover have "versions (id sample_store) ''docs'' = 0" by (simp add: sample_store_def)
  ultimately show "versions (snd ?r) ''docs'' = 1" by simp
qed

end
