(* ===== verification/Durable_IO.thy ===== *)
theory Durable_IO
  imports Prelude
begin

text \<open>
  \<open>archon_search/_durable_io.py\<close>: durable atomic file writes, on one directory of a POSIX file system.

  The directory maps names to inodes and inodes to bytes and mode bits. A power loss keeps of an inode what was last
  synced (anything at all when it changed since), and of the directory one of the states it had since it was last
  synced: entries reach the disk in order, a rename in one piece. Every system call may fail; which ones do, how many
  bytes a failing or short write leaves, and the umask are arguments. A program is a function on the states it went
  through, the current one first, so a theorem can speak of a power loss at every point.
\<close>

section \<open>The disk\<close>

type_synonym directory = "string \<Rightarrow> nat option"

record disk =
  entries :: directory
  unsynced :: "directory list"
  contents :: "nat \<Rightarrow> string"
  synced :: "nat \<Rightarrow> string option"
  modes :: "nat \<Rightarrow> nat"
  fresh :: nat

definition look :: "disk \<Rightarrow> string \<Rightarrow> string option" where
  "look d n = map_option (contents d) (entries d n)"

text \<open>\<open>unsynced\<close> are the directory states a power loss may bring back, the current one among them.\<close>

definition set_entries :: "directory \<Rightarrow> disk \<Rightarrow> disk" where
  "set_entries e d = d\<lparr>entries := e, unsynced := e # unsynced d\<rparr>"

definition set_contents :: "nat \<Rightarrow> string \<Rightarrow> disk \<Rightarrow> disk" where
  "set_contents i b d = d\<lparr>contents := (contents d)(i := b), synced := (synced d)(i := None)\<rparr>"

definition power_loss :: "disk \<Rightarrow> disk \<Rightarrow> bool" where
  "power_loss d d' \<longleftrightarrow>
     entries d' \<in> set (unsynced d) \<and> unsynced d' = [entries d'] \<and>
     (\<forall>i b. synced d i = Some b \<longrightarrow> contents d' i = b) \<and> synced d' = (\<lambda>i. Some (contents d' i)) \<and>
     fresh d' = fresh d"

section \<open>System calls\<close>

datatype os_exc = OS_error | File_exists_error | Durability_unconfirmed | Interrupted

type_synonym 'a io = "disk list \<Rightarrow> (os_exc + 'a) \<times> disk list"

definition io_return :: "'a \<Rightarrow> 'a io" where
  "io_return x ds = (Inr x, ds)"

definition io_raise :: "os_exc \<Rightarrow> 'a io" where
  "io_raise e ds = (Inl e, ds)"

definition io_bind :: "'a io \<Rightarrow> ('a \<Rightarrow> 'b io) \<Rightarrow> 'b io" where
  "io_bind m f ds = (case m ds of (Inl e, ds') \<Rightarrow> (Inl e, ds') | (Inr x, ds') \<Rightarrow> f x ds')"

definition io_then :: "'a io \<Rightarrow> 'b io \<Rightarrow> 'b io" where
  "io_then m k = io_bind m (\<lambda>_. k)"

text \<open>\<open>try: ... except BaseException: cleanup; raise\<close>.\<close>

definition io_except :: "'a io \<Rightarrow> unit io \<Rightarrow> 'a io" where
  "io_except m cleanup ds =
     (case m ds of
        (Inr x, ds') \<Rightarrow> (Inr x, ds')
      | (Inl e, ds') \<Rightarrow> (case cleanup ds' of (Inl e', ds'') \<Rightarrow> (Inl e', ds'') | (Inr _, ds'') \<Rightarrow> (Inl e, ds'')))"

text \<open>A call that works changes the disk; one that fails raises and changes nothing.\<close>

definition call :: "bool \<Rightarrow> (disk \<Rightarrow> disk) \<Rightarrow> unit io" where
  "call works f ds = (if works then (Inr (), f (hd ds) # ds) else (Inl OS_error, ds))"

definition create_inode :: "string \<Rightarrow> nat \<Rightarrow> disk \<Rightarrow> disk" where
  "create_inode n mode d =
     (let i = fresh d
      in (set_entries ((entries d)(n \<mapsto> i)) (set_contents i [] d))\<lparr>modes := (modes d)(i := mode), fresh := Suc i\<rparr>)"

text \<open>\<open>os.open(tmp, O_WRONLY | O_CREAT | O_TRUNC, mode)\<close>; \<open>given\<close> is the mode after the umask.\<close>

definition open_trunc :: "bool \<Rightarrow> string \<Rightarrow> nat \<Rightarrow> nat io" where
  "open_trunc works n given ds =
     (if \<not> works then (Inl OS_error, ds)
      else case entries (hd ds) n of
             Some i \<Rightarrow> (Inr i, set_contents i [] (hd ds) # ds)
           | None \<Rightarrow> (Inr (fresh (hd ds)), create_inode n given (hd ds) # ds))"

text \<open>\<open>os.open(tmp, O_WRONLY | O_CREAT | O_EXCL, mode)\<close>.\<close>

definition open_excl :: "bool \<Rightarrow> string \<Rightarrow> nat \<Rightarrow> nat io" where
  "open_excl works n given ds =
     (if \<not> works then (Inl OS_error, ds)
      else case entries (hd ds) n of
             Some i \<Rightarrow> (Inl File_exists_error, ds)
           | None \<Rightarrow> (Inr (fresh (hd ds)), create_inode n given (hd ds) # ds))"

definition sys_fsync :: "nat \<Rightarrow> disk \<Rightarrow> disk" where
  "sys_fsync i d = d\<lparr>synced := (synced d)(i \<mapsto> contents d i)\<rparr>"

definition sys_chmod :: "nat \<Rightarrow> nat \<Rightarrow> disk \<Rightarrow> disk" where
  "sys_chmod i m d = d\<lparr>modes := (modes d)(i := m)\<rparr>"

definition sys_replace :: "string \<Rightarrow> string \<Rightarrow> disk \<Rightarrow> disk" where
  "sys_replace src dst d = set_entries ((entries d)(dst := entries d src, src := None)) d"

text \<open>\<open>os.link\<close> refuses an existing target.\<close>

definition sys_link :: "bool \<Rightarrow> string \<Rightarrow> string \<Rightarrow> unit io" where
  "sys_link works src dst ds =
     (if \<not> works then (Inl OS_error, ds)
      else if entries (hd ds) dst \<noteq> None then (Inl File_exists_error, ds)
      else (Inr (), set_entries ((entries (hd ds))(dst := entries (hd ds) src)) (hd ds) # ds))"

definition unlink_quietly :: "bool \<Rightarrow> string \<Rightarrow> unit io" where
  "unlink_quietly works n ds =
     (if works \<and> entries (hd ds) n \<noteq> None then (Inr (), set_entries ((entries (hd ds))(n := None)) (hd ds) # ds)
      else (Inr (), ds))"

definition fsync_dir :: "disk \<Rightarrow> disk" where
  "fsync_dir d = d\<lparr>unsynced := [entries d]\<rparr>"

text \<open>\<open>_fsync_published_dir\<close>: an \<open>OSError\<close> here is told apart from one before the rename.\<close>

definition fsync_published_dir :: "bool \<Rightarrow> unit io" where
  "fsync_published_dir works ds = (if works then (Inr (), fsync_dir (hd ds) # ds) else (Inl Durability_unconfirmed, ds))"

section \<open>Atomic writes\<close>

text \<open>\<open>path.with_suffix(path.suffix + ".tmp")\<close>.\<close>

definition tmp_of :: "string \<Rightarrow> string" where
  "tmp_of n = n @ ''.tmp''"

text \<open>
  What happens during one write. \<open>written\<close> is how much of the text has been written when \<open>dump_ok\<close> fails;
  \<open>interrupted\<close> is a signal that arrives right after the replacement, still inside the \<open>try\<close>.
\<close>

record write_try =
  open_ok :: bool
  chmod_ok :: bool
  dump_ok :: bool
  written :: nat
  sync_ok :: bool
  close_ok :: bool
  publish_ok :: bool
  interrupted :: bool
  unlink_ok :: bool
  dirsync_ok :: bool
  umask_mode :: nat

text \<open>\<open>json.dump(data, fh); fh.flush()\<close>: a buffered writer writes the whole text or raises.\<close>

definition dump :: "write_try \<Rightarrow> nat \<Rightarrow> string \<Rightarrow> unit io" where
  "dump t i text ds =
     (if dump_ok t then (Inr (), set_contents i text (hd ds) # ds)
      else (Inl OS_error, set_contents i (take (written t) text) (hd ds) # ds))"

definition interrupt :: "bool \<Rightarrow> unit io" where
  "interrupt b ds = (if b then (Inl Interrupted, ds) else (Inr (), ds))"

definition atomic_write_json :: "write_try \<Rightarrow> string \<Rightarrow> string \<Rightarrow> nat \<Rightarrow> unit io" where
  "atomic_write_json t path text mode =
     io_bind (open_trunc (open_ok t) (tmp_of path) (umask_mode t)) (\<lambda>fd.
       io_then
         (io_except
           (io_then (call (chmod_ok t) (sys_chmod fd mode))
           (io_then (dump t fd text)
           (io_then (call (sync_ok t) (sys_fsync fd))
           (io_then (call (close_ok t) id)
           (io_then (call (publish_ok t) (sys_replace (tmp_of path) path))
             (interrupt (interrupted t)))))))
           (unlink_quietly (unlink_ok t) (tmp_of path)))
         (fsync_published_dir (dirsync_ok t)))"

text \<open>\<open>os.write(fd, data)\<close>: it may write less than it was given; the caller does not look at the count.\<close>

definition os_write :: "write_try \<Rightarrow> nat \<Rightarrow> string \<Rightarrow> unit io" where
  "os_write t i data ds =
     (if dump_ok t then (Inr (), set_contents i (take (written t) data) (hd ds) # ds) else (Inl OS_error, ds))"

definition atomic_write_bytes :: "write_try \<Rightarrow> string \<Rightarrow> string \<Rightarrow> nat \<Rightarrow> bool \<Rightarrow> unit io" where
  "atomic_write_bytes t path data mode repl =
     io_bind (open_excl (open_ok t) (tmp_of path) mode) (\<lambda>fd.
       io_then
         (io_except
           (io_then (os_write t fd data)
           (io_then (call (sync_ok t) (sys_fsync fd))
           (io_then (call (close_ok t) id)
           (io_then
              (if repl then call (publish_ok t) (sys_replace (tmp_of path) path)
               else io_then (sys_link (publish_ok t) (tmp_of path) path) (unlink_quietly (unlink_ok t) (tmp_of path)))
              (interrupt (interrupted t))))))
           (unlink_quietly (unlink_ok t) (tmp_of path)))
         (fsync_published_dir (dirsync_ok t)))"

end
