(* ===== verification/Durable_Facts.thy ===== *)
theory Durable_Facts
  imports Durable_IO
begin

text \<open>
  Contracts of the file programs. A program is run on the states it went through; \<open>io_valid I p m q\<close> says that \<open>I\<close> holds in
  every state on the way, and \<open>q\<close> in the last one, for the result it gives.
\<close>

section \<open>Contracts\<close>

definition io_valid ::
    "(disk \<Rightarrow> bool) \<Rightarrow> (disk \<Rightarrow> bool) \<Rightarrow> 'a io \<Rightarrow> (os_exc + 'a \<Rightarrow> disk \<Rightarrow> bool) \<Rightarrow> bool" where
  "io_valid I p m q \<longleftrightarrow>
     (\<forall>ds. ds \<noteq> [] \<and> (\<forall>d \<in> set ds. I d) \<and> p (hd ds) \<longrightarrow>
       (case m ds of (r, ds') \<Rightarrow> ds' \<noteq> [] \<and> (\<forall>d \<in> set ds'. I d) \<and> q r (hd ds')))"

lemma io_validD:
  assumes "io_valid I p m q" and "m ds = (r, ds')" and "ds \<noteq> []" and "\<forall>d \<in> set ds. I d" and "p (hd ds)"
  shows "ds' \<noteq> []" and "\<forall>d \<in> set ds'. I d" and "q r (hd ds')"
  using assms unfolding io_valid_def by force+

lemma io_valid_bind:
  assumes "io_valid I p m q" and "\<And>e d. q (Inl e) d \<Longrightarrow> q' (Inl e) d" and "\<And>x. io_valid I (q (Inr x)) (f x) q'"
  shows "io_valid I p (io_bind m f) q'"
  unfolding io_valid_def
proof (intro allI impI)
  fix ds :: "disk list"
  assume d: "ds \<noteq> [] \<and> (\<forall>d \<in> set ds. I d) \<and> p (hd ds)"
  obtain r ds1 where m: "m ds = (r, ds1)" by fastforce
  have 1: "ds1 \<noteq> []" "\<forall>d \<in> set ds1. I d" "q r (hd ds1)" using io_validD [OF assms(1) m] d by blast+
  show "case io_bind m f ds of (r, ds') \<Rightarrow> ds' \<noteq> [] \<and> (\<forall>d \<in> set ds'. I d) \<and> q' r (hd ds')"
  proof (cases r)
    case (Inl e)
    then show ?thesis using m 1 assms(2) by (simp add: io_bind_def)
  next
    case (Inr x)
    obtain r2 ds2 where f: "f x ds1 = (r2, ds2)" by fastforce
    have "ds2 \<noteq> []" "\<forall>d \<in> set ds2. I d" "q' r2 (hd ds2)" using io_validD [OF assms(3) f] 1 Inr by blast+
    then show ?thesis using m f Inr by (simp add: io_bind_def)
  qed
qed

lemma io_valid_then:
  assumes "io_valid I p m q" and "\<And>e d. q (Inl e) d \<Longrightarrow> q' (Inl e) d" and "io_valid I (\<lambda>d. q (Inr ()) d) k q'"
  shows "io_valid I p (io_then m k) q'"
  unfolding io_then_def using assms by (intro io_valid_bind [where q = q]) auto

lemma io_valid_except:
  assumes "io_valid I p m q" and "\<And>x d. q (Inr x) d \<Longrightarrow> q' (Inr x) d"
    and "\<And>e. io_valid I (q (Inl e)) cleanup (\<lambda>r d. q' (case r of Inl e' \<Rightarrow> Inl e' | Inr _ \<Rightarrow> Inl e) d)"
  shows "io_valid I p (io_except m cleanup) q'"
  unfolding io_valid_def
proof (intro allI impI)
  fix ds :: "disk list"
  assume d: "ds \<noteq> [] \<and> (\<forall>d \<in> set ds. I d) \<and> p (hd ds)"
  obtain r ds1 where m: "m ds = (r, ds1)" by fastforce
  have 1: "ds1 \<noteq> []" "\<forall>d \<in> set ds1. I d" "q r (hd ds1)" using io_validD [OF assms(1) m] d by blast+
  show "case io_except m cleanup ds of (r, ds') \<Rightarrow> ds' \<noteq> [] \<and> (\<forall>d \<in> set ds'. I d) \<and> q' r (hd ds')"
  proof (cases r)
    case (Inr x)
    then show ?thesis using m 1 assms(2) by (simp add: io_except_def)
  next
    case (Inl e)
    obtain r2 ds2 where f: "cleanup ds1 = (r2, ds2)" by fastforce
    have "ds2 \<noteq> []" "\<forall>d \<in> set ds2. I d" "q' (case r2 of Inl e' \<Rightarrow> Inl e' | Inr _ \<Rightarrow> Inl e) (hd ds2)"
      using io_validD [OF assms(3) f] 1 Inl by blast+
    then show ?thesis using m f Inl by (cases r2) (simp_all add: io_except_def)
  qed
qed

lemma io_valid_weaken:
  "io_valid I p m q \<Longrightarrow> (\<And>d. p' d \<Longrightarrow> p d) \<Longrightarrow> (\<And>r d. q r d \<Longrightarrow> q' r d) \<Longrightarrow> io_valid I p' m q'"
  unfolding io_valid_def by (fastforce split: prod.splits)

lemma io_valid_call:
  assumes "\<And>d. I d \<Longrightarrow> p d \<Longrightarrow> works \<Longrightarrow> I (f d) \<and> q (Inr ()) (f d)"
    and "\<And>d. I d \<Longrightarrow> p d \<Longrightarrow> \<not> works \<Longrightarrow> q (Inl OS_error) d"
  shows "io_valid I p (call works f) q"
  unfolding io_valid_def
proof (intro allI impI)
  fix ds :: "disk list"
  assume "ds \<noteq> [] \<and> (\<forall>d \<in> set ds. I d) \<and> p (hd ds)"
  then have "I (hd ds)" "p (hd ds)" "ds \<noteq> []" "\<forall>d \<in> set ds. I d" by auto
  then show "case call works f ds of (r, ds') \<Rightarrow> ds' \<noteq> [] \<and> (\<forall>d \<in> set ds'. I d) \<and> q r (hd ds')"
    using assms [of "hd ds"] by (auto simp: call_def)
qed

text \<open>Calls with their own shape: enough to look at the state they start from.\<close>

lemma io_valid_prim:
  assumes "\<And>ds r ds'. ds \<noteq> [] \<Longrightarrow> I (hd ds) \<Longrightarrow> p (hd ds) \<Longrightarrow> m ds = (r, ds') \<Longrightarrow>
      (ds' = ds \<or> (\<exists>d'. ds' = d' # ds \<and> I d')) \<and> q r (hd ds')"
  shows "io_valid I p m q"
  unfolding io_valid_def
proof (intro allI impI)
  fix ds :: "disk list"
  assume d: "ds \<noteq> [] \<and> (\<forall>d \<in> set ds. I d) \<and> p (hd ds)"
  obtain r ds' where m: "m ds = (r, ds')" by fastforce
  show "case m ds of (r, ds') \<Rightarrow> ds' \<noteq> [] \<and> (\<forall>d \<in> set ds'. I d) \<and> q r (hd ds')"
    using assms [OF _ _ _ m] d m by auto
qed

section \<open>The published file\<close>

definition held :: "(string option \<Rightarrow> bool) \<Rightarrow> string \<Rightarrow> disk \<Rightarrow> directory \<Rightarrow> bool" where
  "held P path d e =
     (case e path of None \<Rightarrow> P None | Some i \<Rightarrow> synced d i = Some (contents d i) \<and> P (Some (contents d i)))"

text \<open>
  In every directory state a power loss can bring back, the published file is synced and its text is allowed by \<open>P\<close>, and the
  temporary file is another file.
\<close>

definition published :: "string \<Rightarrow> (string option \<Rightarrow> bool) \<Rightarrow> disk \<Rightarrow> bool" where
  "published path P d \<longleftrightarrow>
     entries d \<in> set (unsynced d) \<and>
     (\<forall>e \<in> set (unsynced d). held P path d e \<and> (\<forall>n i. e n = Some i \<longrightarrow> i < fresh d) \<and>
        (\<forall>i. e (tmp_of path) = Some i \<longrightarrow> e path \<noteq> Some i) \<and>
        (\<forall>i. entries d (tmp_of path) = Some i \<longrightarrow> e path \<noteq> Some i))"

lemma tmp_neq [simp]: "tmp_of path \<noteq> path" "path \<noteq> tmp_of path"
  by (simp_all add: tmp_of_def)

lemma publishedD:
  assumes "published path P d" and "e \<in> set (unsynced d)"
  shows "held P path d e" and "e n = Some i \<Longrightarrow> i < fresh d" and "e (tmp_of path) = Some i \<Longrightarrow> e path \<noteq> Some i"
    and "entries d (tmp_of path) = Some i \<Longrightarrow> e path \<noteq> Some i"
  using assms unfolding published_def by blast+

lemma published_now: "published path P d \<Longrightarrow> entries d \<in> set (unsynced d)"
  by (simp add: published_def)

lemma publishedI:
  assumes "entries d \<in> set (unsynced d)" and "\<And>e. e \<in> set (unsynced d) \<Longrightarrow> held P path d e"
    and "\<And>e n i. e \<in> set (unsynced d) \<Longrightarrow> e n = Some i \<Longrightarrow> i < fresh d"
    and "\<And>e i. e \<in> set (unsynced d) \<Longrightarrow> e (tmp_of path) = Some i \<Longrightarrow> e path \<noteq> Some i"
    and "\<And>e i. e \<in> set (unsynced d) \<Longrightarrow> entries d (tmp_of path) = Some i \<Longrightarrow> e path \<noteq> Some i"
  shows "published path P d"
  unfolding published_def using assms by blast

lemma held_look: "held P path d (entries d) \<Longrightarrow> P (look d path)"
  by (simp add: held_def look_def split: option.splits)

lemma published_look: "published path P d \<Longrightarrow> P (look d path)"
  using publishedD(1) published_now held_look by blast

lemma published_power_loss:
  assumes "published path P d" and "power_loss d d'"
  shows "P (look d' path)" and "published path P d'"
proof -
  have e: "entries d' \<in> set (unsynced d)" and l: "\<And>i b. synced d i = Some b \<Longrightarrow> contents d' i = b"
    and s: "unsynced d' = [entries d']" "synced d' = (\<lambda>i. Some (contents d' i))" "fresh d' = fresh d"
    using assms(2) by (auto simp: power_loss_def)
  note D = publishedD [OF assms(1) e]
  have "held P path d' (entries d')" using D(1) l s(2) by (auto simp: held_def split: option.splits)
  then show "published path P d'" using D(2,3) s by (auto intro!: publishedI)
  then show "P (look d' path)" by (rule published_look)
qed

lemma held_weaken: "held P path d e \<Longrightarrow> (\<And>v. P v \<Longrightarrow> Q v) \<Longrightarrow> held Q path d e"
  by (auto simp: held_def split: option.splits)

lemma published_weaken: "published path P d \<Longrightarrow> (\<And>v. P v \<Longrightarrow> Q v) \<Longrightarrow> published path Q d"
  unfolding published_def using held_weaken by blast

lemma published_same_entries:
  assumes "published path P d" and "entries d' = entries d" and "unsynced d' = unsynced d" and "fresh d' = fresh d"
    and "\<And>e. e \<in> set (unsynced d) \<Longrightarrow> held P path d e \<Longrightarrow> held P path d' e"
  shows "published path P d'"
  using assms unfolding published_def by simp

lemma published_set_contents:
  assumes "published path P d" and "entries d (tmp_of path) = Some i"
  shows "published path P (set_contents i b d)"
  by (rule published_same_entries [OF assms(1)])
    (use publishedD(4) [OF assms(1) _ assms(2)] in \<open>auto simp: set_contents_def held_def split: option.splits\<close>)

lemma published_create:
  assumes "published path P d" and "entries d (tmp_of path) = None"
  shows "published path P (create_inode (tmp_of path) m d)" (is "published path P ?d")
proof -
  have u: "unsynced ?d = (entries d)(tmp_of path \<mapsto> fresh d) # unsynced d"
      "entries ?d = (entries d)(tmp_of path \<mapsto> fresh d)" "fresh ?d = Suc (fresh d)"
    by (simp_all add: create_inode_def Let_def set_entries_def set_contents_def)
  note now = published_now [OF assms(1)] and D = publishedD [OF assms(1)]
  have other: "e path \<noteq> Some (fresh d)" if "e \<in> set (unsynced d)" for e using D(2) [OF that] by blast
  have h: "held P path ?d e" if "e \<in> set (unsynced d)" for e
    using D(1) [OF that] other [OF that]
    by (auto simp: held_def create_inode_def Let_def set_entries_def set_contents_def split: option.splits)
  have path: "((entries d)(tmp_of path \<mapsto> fresh d)) path = entries d path" by simp
  show ?thesis
  proof (rule publishedI)
    show "entries ?d \<in> set (unsynced ?d)" by (simp add: u)
    show "held P path ?d e" if "e \<in> set (unsynced ?d)" for e
      using that h h [OF now] path by (auto simp: u held_def)
    show "i < fresh ?d" if "e \<in> set (unsynced ?d)" "e n = Some i" for e n i
      using that D(2) [OF now] D(2) [of e] by (auto simp: u less_Suc_eq split: if_splits)
    show "e path \<noteq> Some i" if "e \<in> set (unsynced ?d)" "e (tmp_of path) = Some i" for e i
      using that D(3) [of e] other [OF now] by (auto simp: u)
    show "e path \<noteq> Some i" if "e \<in> set (unsynced ?d)" "entries ?d (tmp_of path) = Some i" for e i
      using that other other [OF now] by (auto simp: u)
  qed
qed

lemma published_fsync: "published path P d \<Longrightarrow> published path P (sys_fsync i d)"
  by (erule published_same_entries) (auto simp: sys_fsync_def held_def split: option.splits)

lemma published_chmod: "published path P d \<Longrightarrow> published path P (sys_chmod i m d)"
  by (erule published_same_entries) (auto simp: sys_chmod_def held_def split: option.splits)

lemma published_entries:
  assumes "published path P d" and "held P path d e'" and "e' (tmp_of path) = None" and "\<And>n i. e' n = Some i \<Longrightarrow> i < fresh d"
  shows "published path P (set_entries e' d)" (is "published path P ?d")
proof -
  have h: "held P path ?d e = held P path d e" for e by (simp add: held_def set_entries_def split: option.split)
  note D = publishedD [OF assms(1)]
  show ?thesis
    by (rule publishedI) (use assms(2-4) D in \<open>auto simp: h, auto simp: set_entries_def h\<close>)
qed

lemma published_dirsync: "published path P d \<Longrightarrow> published path P (fsync_dir d)"
proof -
  assume p: "published path P d"
  note D = publishedD [OF p published_now [OF p]]
  have h: "held P path (fsync_dir d) e = held P path d e" for e by (simp add: held_def fsync_dir_def split: option.split)
  show ?thesis by (rule publishedI) (use D in \<open>auto simp: h, auto simp: fsync_dir_def h\<close>)
qed

section \<open>One atomic write\<close>

text \<open>While the temporary file is written the published one stays as it was.\<close>

definition drafting_tmp :: "string \<Rightarrow> string option \<Rightarrow> nat \<Rightarrow> nat \<Rightarrow> disk \<Rightarrow> bool" where
  "drafting_tmp path old i mode d \<longleftrightarrow> entries d (tmp_of path) = Some i \<and> look d path = old \<and> modes d i = mode"

definition draft_done :: "string \<Rightarrow> string option \<Rightarrow> nat \<Rightarrow> nat \<Rightarrow> string \<Rightarrow> disk \<Rightarrow> bool" where
  "draft_done path old i mode text d \<longleftrightarrow>
     drafting_tmp path old i mode d \<and> contents d i = text \<and> synced d i = Some text"

definition replaced :: "string \<Rightarrow> nat \<Rightarrow> string \<Rightarrow> disk \<Rightarrow> bool" where
  "replaced path mode text d \<longleftrightarrow>
     look d path = Some text \<and> entries d (tmp_of path) = None \<and> (\<exists>i. entries d path = Some i \<and> modes d i = mode)"

lemma look_path_tmp:
  assumes "published path P d" and "entries d (tmp_of path) = Some i"
  shows "look (set_contents i b d) path = look d path"
  using publishedD(4) [OF assms(1) published_now [OF assms(1)] assms(2)]
  by (auto simp: look_def set_contents_def option.map_comp intro!: option.map_cong0 split: option.splits)

lemma look_create:
  assumes "published path P d"
  shows "look (create_inode (tmp_of path) m d) path = look d path"
  using publishedD(2) [OF assms published_now [OF assms], of path]
  by (cases "entries d path") (auto simp: look_def create_inode_def Let_def set_entries_def set_contents_def)

text \<open>The clean-up of a failed write: the temporary file goes, if it can be removed.\<close>

lemma unlink_contract:
  "io_valid (published path P) (\<lambda>d. look d path = old) (unlink_quietly works (tmp_of path))
     (\<lambda>r d. r = Inr () \<and> look d path = old \<and> (works \<longrightarrow> entries d (tmp_of path) = None))"
proof (rule io_valid_prim)
  fix ds r ds'
  assume a: "ds \<noteq> []" "published path P (hd ds)" "look (hd ds) path = old" "unlink_quietly works (tmp_of path) ds = (r, ds')"
  let ?e = "(entries (hd ds))(tmp_of path := None)"
  note now = published_now [OF a(2)]
  have "held P path (hd ds) ?e" using publishedD(1) [OF a(2) now] by (simp add: held_def)
  then have p: "published path P (set_entries ?e (hd ds))"
    by (rule published_entries [OF a(2)]) (use publishedD(2) [OF a(2) now] in \<open>auto split: if_splits\<close>)
  have "look (set_entries ?e (hd ds)) path = look (hd ds) path" by (simp add: look_def set_entries_def)
  then show "(ds' = ds \<or> (\<exists>d'. ds' = d' # ds \<and> published path P d')) \<and>
      (r = Inr () \<and> look (hd ds') path = old \<and> (works \<longrightarrow> entries (hd ds') (tmp_of path) = None))"
    using a(3,4) p by (auto simp: unlink_quietly_def set_entries_def split: if_splits)
qed

lemma dirsync_contract:
  "io_valid (published path P) (\<lambda>d. look d path = v \<and> R (modes d) (entries d)) (fsync_published_dir works)
     (\<lambda>r d. look d path = v \<and> R (modes d) (entries d) \<and>
        (r = Inr () \<and> unsynced d = [entries d] \<or> r = Inl Durability_unconfirmed))"
proof (rule io_valid_prim)
  fix ds r ds'
  assume a: "ds \<noteq> []" "published path P (hd ds)" "look (hd ds) path = v \<and> R (modes (hd ds)) (entries (hd ds))"
    "fsync_published_dir works ds = (r, ds')"
  then show "(ds' = ds \<or> (\<exists>d'. ds' = d' # ds \<and> published path P d')) \<and>
      look (hd ds') path = v \<and> R (modes (hd ds')) (entries (hd ds')) \<and>
      (r = Inr () \<and> unsynced (hd ds') = [entries (hd ds')] \<or> r = Inl Durability_unconfirmed)"
    using published_dirsync [OF a(2)]
    by (auto simp: fsync_published_dir_def fsync_dir_def look_def split: if_splits)
qed

lemma open_contract:
  "io_valid (published path P) (\<lambda>d. look d path = old) (open_trunc works (tmp_of path) m)
     (\<lambda>r d. look d path = old \<and> (case r of Inl e \<Rightarrow> e = OS_error \<and> \<not> works | Inr i \<Rightarrow> entries d (tmp_of path) = Some i))"
proof (rule io_valid_prim)
  fix ds r ds'
  assume a: "ds \<noteq> []" "published path P (hd ds)" "look (hd ds) path = old" "open_trunc works (tmp_of path) m ds = (r, ds')"
  note c = published_create [OF a(2)] look_create [OF a(2)] and w = published_set_contents [OF a(2)] look_path_tmp [OF a(2)]
  have e: "entries (create_inode (tmp_of path) m (hd ds)) (tmp_of path) = Some (fresh (hd ds))"
    "entries (set_contents i b d) = entries d" for i b d
    by (simp_all add: create_inode_def Let_def set_entries_def set_contents_def)
  show "(ds' = ds \<or> (\<exists>d'. ds' = d' # ds \<and> published path P d')) \<and>
      look (hd ds') path = old \<and> (case r of Inl e \<Rightarrow> e = OS_error \<and> \<not> works | Inr i \<Rightarrow> entries (hd ds') (tmp_of path) = Some i)"
    using a(3,4) c w e by (auto simp: open_trunc_def split: if_splits option.splits)
qed

lemma replace_published:
  assumes "published path P d" and "entries d (tmp_of path) = Some i" and "synced d i = Some text" and "contents d i = text"
    and "P (Some text)"
  shows "published path P (sys_replace (tmp_of path) path d)" and "look (sys_replace (tmp_of path) path d) path = Some text"
    and "entries (sys_replace (tmp_of path) path d) path = Some i" and "entries (sys_replace (tmp_of path) path d) (tmp_of path) = None"
proof -
  let ?e = "(entries d)(path := entries d (tmp_of path), tmp_of path := None)"
  note D = publishedD [OF assms(1) published_now [OF assms(1)]]
  have "held P path d ?e" using assms(2-5) by (simp add: held_def)
  then show "published path P (sys_replace (tmp_of path) path d)" unfolding sys_replace_def
    by (rule published_entries [OF assms(1)]) (use D(2) in \<open>auto split: if_splits\<close>)
  show "look (sys_replace (tmp_of path) path d) path = Some text" "entries (sys_replace (tmp_of path) path d) path = Some i"
    "entries (sys_replace (tmp_of path) path d) (tmp_of path) = None"
    using assms(2,4) by (simp_all add: look_def sys_replace_def set_entries_def)
qed

definition old_or_new :: "string option \<Rightarrow> string \<Rightarrow> string option \<Rightarrow> bool" where
  "old_or_new old text v \<longleftrightarrow> v = old \<or> v = Some text"

definition body_post :: "string \<Rightarrow> string option \<Rightarrow> nat \<Rightarrow> string \<Rightarrow> os_exc + unit \<Rightarrow> disk \<Rightarrow> bool" where
  "body_post path old mode text r d =
     (case r of
        Inr _ \<Rightarrow> replaced path mode text d
      | Inl Interrupted \<Rightarrow> look d path = Some text
      | Inl e \<Rightarrow> e \<noteq> Durability_unconfirmed \<and> look d path = old)"

lemma dump_contract:
  "io_valid (published path P) (drafting_tmp path old i mode) (dump t i text)
     (\<lambda>r d. drafting_tmp path old i mode d \<and> (case r of Inl e \<Rightarrow> e = OS_error | Inr _ \<Rightarrow> contents d i = text))"
proof (rule io_valid_prim)
  fix ds r ds'
  assume a: "ds \<noteq> []" "published path P (hd ds)" "drafting_tmp path old i mode (hd ds)" "dump t i text ds = (r, ds')"
  have e: "entries (hd ds) (tmp_of path) = Some i" using a(3) by (simp add: drafting_tmp_def)
  note w = published_set_contents [OF a(2) e] look_path_tmp [OF a(2) e]
  have "drafting_tmp path old i mode (set_contents i b (hd ds))" "contents (set_contents i b (hd ds)) i = b" for b
    using a(3) w by (simp_all add: drafting_tmp_def, simp_all add: set_contents_def)
  then show "(ds' = ds \<or> (\<exists>d'. ds' = d' # ds \<and> published path P d')) \<and>
      drafting_tmp path old i mode (hd ds') \<and> (case r of Inl e \<Rightarrow> e = OS_error | Inr _ \<Rightarrow> contents (hd ds') i = text)"
    using a(4) w by (auto simp: dump_def split: if_splits)
qed

lemma publish_contract:
  assumes "P (Some text)"
  shows "io_valid (published path P) (draft_done path old i mode text)
     (io_then (call works (sys_replace (tmp_of path) path)) (interrupt b)) (body_post path old mode text)"
proof (rule io_valid_then [where q = "\<lambda>r d. case r of Inl e \<Rightarrow> e = OS_error \<and> look d path = old | Inr _ \<Rightarrow> replaced path mode text d"])
  show "io_valid (published path P) (draft_done path old i mode text) (call works (sys_replace (tmp_of path) path))
     (\<lambda>r d. case r of Inl e \<Rightarrow> e = OS_error \<and> look d path = old | Inr _ \<Rightarrow> replaced path mode text d)"
  proof (rule io_valid_call)
    fix d
    assume p: "published path P d" and dd: "draft_done path old i mode text d"
    have f: "entries d (tmp_of path) = Some i" "synced d i = Some text" "contents d i = text" "modes d i = mode" "look d path = old"
      using dd by (simp_all add: draft_done_def drafting_tmp_def)
    have "modes (sys_replace (tmp_of path) path d) = modes d" by (simp add: sys_replace_def set_entries_def)
    then show "published path P (sys_replace (tmp_of path) path d) \<and>
        (case Inr () of Inl e \<Rightarrow> e = OS_error \<and> look (sys_replace (tmp_of path) path d) path = old
         | Inr _ \<Rightarrow> replaced path mode text (sys_replace (tmp_of path) path d))"
      using replace_published [OF p f(1-3) assms] f(4) by (simp add: replaced_def)
    show "case Inl OS_error of Inl e \<Rightarrow> e = OS_error \<and> look d path = old | Inr _ \<Rightarrow> replaced path mode text d" using f(5) by simp
  qed
  show "body_post path old mode text (Inl e) d"
    if "case Inl e of Inl e \<Rightarrow> e = OS_error \<and> look d path = old | Inr _ \<Rightarrow> replaced path mode text d" for e d
    using that by (simp add: body_post_def)
  show "io_valid (published path P) (\<lambda>d. case Inr () of Inl e \<Rightarrow> e = OS_error \<and> look d path = old | Inr _ \<Rightarrow> replaced path mode text d)
      (interrupt b) (body_post path old mode text)"
    by (rule io_valid_prim) (auto simp: interrupt_def body_post_def replaced_def split: if_splits)
qed

lemma sync_contract:
  "io_valid (published path P) (\<lambda>d. drafting_tmp path old i mode d \<and> contents d i = text) (call works (sys_fsync i))
     (\<lambda>r d. case r of Inl e \<Rightarrow> e = OS_error \<and> look d path = old | Inr _ \<Rightarrow> draft_done path old i mode text d)"
proof (rule io_valid_call)
  fix d
  assume "published path P d" "drafting_tmp path old i mode d \<and> contents d i = text"
  then show "published path P (sys_fsync i d) \<and>
      (case Inr () of Inl e \<Rightarrow> e = OS_error \<and> look (sys_fsync i d) path = old | Inr _ \<Rightarrow> draft_done path old i mode text (sys_fsync i d))"
    "case Inl OS_error of Inl e \<Rightarrow> e = OS_error \<and> look d path = old | Inr _ \<Rightarrow> draft_done path old i mode text d"
    using published_fsync by (auto simp: draft_done_def drafting_tmp_def sys_fsync_def look_def)
qed

lemma close_contract:
  "io_valid (published path P) (draft_done path old i mode text) (call works id)
     (\<lambda>r d. case r of Inl e \<Rightarrow> e = OS_error \<and> look d path = old | Inr _ \<Rightarrow> draft_done path old i mode text d)"
  by (rule io_valid_call) (auto simp: draft_done_def drafting_tmp_def)

lemma chmod_contract:
  "io_valid (published path P) (\<lambda>d. entries d (tmp_of path) = Some i \<and> look d path = old) (call works (sys_chmod i mode))
     (\<lambda>r d. case r of Inl e \<Rightarrow> e = OS_error \<and> look d path = old | Inr _ \<Rightarrow> drafting_tmp path old i mode d)"
  by (rule io_valid_call) (auto simp: published_chmod, auto simp: drafting_tmp_def sys_chmod_def look_def)

text \<open>The end of a body that has its text in the temporary file.\<close>

lemma body_error: "e = OS_error \<and> look d path = old \<Longrightarrow> body_post path old mode text (Inl e) d"
  by (simp add: body_post_def)

lemma finish_body_contract:
  assumes "P (Some text)"
  shows "io_valid (published path P) (\<lambda>d. drafting_tmp path old i mode d \<and> contents d i = text)
     (io_then (call s (sys_fsync i)) (io_then (call c id) (io_then (call w (sys_replace (tmp_of path) path)) (interrupt b))))
     (body_post path old mode text)"
  by (rule io_valid_then [OF sync_contract], simp add: body_error, simp, rule io_valid_then [OF close_contract],
      simp add: body_error, simp, rule publish_contract, rule assms)

lemma json_body_contract:
  assumes "P (Some text)"
  shows "io_valid (published path P) (\<lambda>d. entries d (tmp_of path) = Some i \<and> look d path = old)
     (io_then (call (chmod_ok t) (sys_chmod i mode))
       (io_then (dump t i text)
       (io_then (call (sync_ok t) (sys_fsync i))
       (io_then (call (close_ok t) id)
       (io_then (call (publish_ok t) (sys_replace (tmp_of path) path)) (interrupt (interrupted t)))))))
     (body_post path old mode text)"
proof (rule io_valid_then [OF chmod_contract])
  show "io_valid (published path P) (\<lambda>d. case Inr () of Inl e \<Rightarrow> e = OS_error \<and> look d path = old | Inr _ \<Rightarrow> drafting_tmp path old i mode d)
     (io_then (dump t i text)
       (io_then (call (sync_ok t) (sys_fsync i))
       (io_then (call (close_ok t) id)
       (io_then (call (publish_ok t) (sys_replace (tmp_of path) path)) (interrupt (interrupted t))))))
     (body_post path old mode text)"
    unfolding sum.case
    by (rule io_valid_then [OF dump_contract], simp add: body_post_def drafting_tmp_def, simp, rule finish_body_contract, rule assms)
qed (simp add: body_error)

text \<open>A body inside \<open>try\<close>, with the temporary file removed when it raised.\<close>

definition guarded_post :: "bool \<Rightarrow> string \<Rightarrow> string option \<Rightarrow> nat \<Rightarrow> string \<Rightarrow> os_exc + unit \<Rightarrow> disk \<Rightarrow> bool" where
  "guarded_post cleans path old mode text r d =
     (case r of
        Inr _ \<Rightarrow> replaced path mode text d
      | Inl Interrupted \<Rightarrow> look d path = Some text
      | Inl e \<Rightarrow> e \<noteq> Durability_unconfirmed \<and> look d path = old \<and> (cleans \<longrightarrow> entries d (tmp_of path) = None))"

lemma guarded_contract:
  assumes "io_valid (published path P) p body (body_post path old mode text)"
  shows "io_valid (published path P) p (io_except body (unlink_quietly works (tmp_of path))) (guarded_post works path old mode text)"
proof (rule io_valid_except [OF assms])
  fix e
  define v where "v = (if e = Interrupted then Some text else old)"
  show "io_valid (published path P) (body_post path old mode text (Inl e)) (unlink_quietly works (tmp_of path))
      (\<lambda>r d. guarded_post works path old mode text (case r of Inl e' \<Rightarrow> Inl e' | Inr _ \<Rightarrow> Inl e) d)"
  proof (cases "e = Durability_unconfirmed")
    case True
    then show ?thesis by (simp add: io_valid_def body_post_def)
  next
    case False
    show ?thesis
    proof (rule io_valid_weaken [OF unlink_contract [of path P v]])
      show "look d path = v" if "body_post path old mode text (Inl e) d" for d
        using that False by (cases e) (simp_all add: body_post_def v_def)
      show "guarded_post works path old mode text (case r of Inl e' \<Rightarrow> Inl e' | Inr _ \<Rightarrow> Inl e) d"
        if "r = Inr () \<and> look d path = v \<and> (works \<longrightarrow> entries d (tmp_of path) = None)" for r d
        using that False by (cases e) (simp_all add: guarded_post_def v_def)
    qed
  qed
qed (simp add: body_post_def guarded_post_def)

definition write_post :: "bool \<Rightarrow> string \<Rightarrow> string option \<Rightarrow> nat \<Rightarrow> string \<Rightarrow> os_exc + unit \<Rightarrow> disk \<Rightarrow> bool" where
  "write_post cleans path old mode text r d =
     (case r of
        Inr _ \<Rightarrow> replaced path mode text d \<and> unsynced d = [entries d]
      | Inl Durability_unconfirmed \<Rightarrow> replaced path mode text d
      | Inl Interrupted \<Rightarrow> look d path = Some text
      | Inl e \<Rightarrow> look d path = old \<and> (cleans \<longrightarrow> entries d (tmp_of path) = None))"

lemma guarded_write_contract:
  assumes "io_valid (published path P) p body (body_post path old mode text)"
  shows "io_valid (published path P) p (io_then (io_except body (unlink_quietly works (tmp_of path))) (fsync_published_dir dw))
     (write_post works path old mode text)"
proof (rule io_valid_then [OF guarded_contract [OF assms]])
  show "write_post works path old mode text (Inl e) d" if "guarded_post works path old mode text (Inl e) d" for e d
    using that by (cases e) (simp_all add: write_post_def guarded_post_def)
  show "io_valid (published path P) (\<lambda>d. guarded_post works path old mode text (Inr ()) d) (fsync_published_dir dw)
      (write_post works path old mode text)"
  proof (rule io_valid_weaken [OF dirsync_contract [of path P "Some text"
          "\<lambda>m e. e (tmp_of path) = None \<and> (\<exists>i. e path = Some i \<and> m i = mode)" dw]])
  qed (auto simp: guarded_post_def replaced_def write_post_def)
qed

lemma json_contract:
  assumes "P (Some text)"
  shows "io_valid (published path P) (\<lambda>d. look d path = old) (atomic_write_json t path text mode)
     (write_post (open_ok t \<and> unlink_ok t) path old mode text)"
  unfolding atomic_write_json_def
proof (rule io_valid_bind [OF open_contract])
  show "write_post (open_ok t \<and> unlink_ok t) path old mode text (Inl e) d"
    if "look d path = old \<and> (case Inl e of Inl e \<Rightarrow> e = OS_error \<and> \<not> open_ok t | Inr i \<Rightarrow> entries d (tmp_of path) = Some i)" for e d
    using that by (simp add: write_post_def)
  show "io_valid (published path P)
      (\<lambda>d. look d path = old \<and> (case Inr fd of Inl e \<Rightarrow> e = OS_error \<and> \<not> open_ok t | Inr i \<Rightarrow> entries d (tmp_of path) = Some i))
      (io_then (io_except (io_then (call (chmod_ok t) (sys_chmod fd mode))
           (io_then (dump t fd text)
           (io_then (call (sync_ok t) (sys_fsync fd))
           (io_then (call (close_ok t) id)
           (io_then (call (publish_ok t) (sys_replace (tmp_of path) path)) (interrupt (interrupted t)))))))
         (unlink_quietly (unlink_ok t) (tmp_of path))) (fsync_published_dir (dirsync_ok t)))
      (write_post (open_ok t \<and> unlink_ok t) path old mode text)" for fd
    by (rule io_valid_weaken [OF guarded_write_contract [OF json_body_contract [of P "text" path fd, OF assms]]])
      (auto simp: write_post_def split: sum.splits os_exc.splits)
qed

end
