(* ===== verification/Durable_Properties.thy ===== *)
theory Durable_Properties
  imports Durable_Facts Job_Store
begin

text \<open>
  What the atomic writes promise: one write under a power loss at any point, any sequence of writes and power losses, and that
  the three outcomes the job store's model knows are the outcomes of the file write it makes.
\<close>

section \<open>Any sequence of writes\<close>

text \<open>A file that is synced under its name holds its text after every power loss.\<close>

lemma synced_name:
  assumes "published path P d" and "unsynced d = [entries d]"
  shows "published path (\<lambda>v. v = look d path) d"
  using publishedD [OF assms(1) published_now [OF assms(1)]]
  by (intro publishedI) (auto simp: assms(2) held_def look_def split: option.splits)

record file_world =
  fdisk :: disk
  confirmed :: "string option"
  pending :: "string list"

text \<open>\<open>confirmed\<close> is the text of the last write that returned, \<open>pending\<close> the texts of the writes that raised since.\<close>

inductive file_step :: "string \<Rightarrow> file_world \<Rightarrow> file_world \<Rightarrow> bool" for path where
  write_returns: "atomic_write_json t path text mode [d] = (Inr (), ds) \<Longrightarrow>
     file_step path \<lparr>fdisk = d, confirmed = c, pending = ps\<rparr> \<lparr>fdisk = hd ds, confirmed = Some text, pending = []\<rparr>"
| write_raises: "atomic_write_json t path text mode [d] = (Inl e, ds) \<Longrightarrow>
     file_step path \<lparr>fdisk = d, confirmed = c, pending = ps\<rparr> \<lparr>fdisk = hd ds, confirmed = c, pending = text # ps\<rparr>"
| write_cut_off: "atomic_write_json t path text mode [d] = (r, ds) \<Longrightarrow> s \<in> set ds \<Longrightarrow> power_loss s d' \<Longrightarrow>
     file_step path \<lparr>fdisk = d, confirmed = c, pending = ps\<rparr> \<lparr>fdisk = d', confirmed = c, pending = text # ps\<rparr>"
| loses_power: "power_loss d d' \<Longrightarrow>
     file_step path \<lparr>fdisk = d, confirmed = c, pending = ps\<rparr> \<lparr>fdisk = d', confirmed = c, pending = ps\<rparr>"

definition allowed :: "file_world \<Rightarrow> string option \<Rightarrow> bool" where
  "allowed w v \<longleftrightarrow> v = confirmed w \<or> (\<exists>text \<in> set (pending w). v = Some text)"

definition file_inv :: "string \<Rightarrow> file_world \<Rightarrow> bool" where
  "file_inv path w \<longleftrightarrow> published path (allowed w) (fdisk w)"

definition file_start :: "string \<Rightarrow> file_world \<Rightarrow> bool" where
  "file_start path w \<longleftrightarrow> published path (\<lambda>v. v = confirmed w) (fdisk w) \<and> pending w = []"

lemma write_run:
  assumes "published path P d" and "P (Some text)" and "atomic_write_json t path text mode [d] = (r, ds)"
  shows "ds \<noteq> []" and "\<forall>s \<in> set ds. published path P s"
    and "write_post (open_ok t \<and> unlink_ok t) path (look d path) mode text r (hd ds)"
  using io_validD [OF json_contract [of P "text" path "look d path" t mode, OF assms(2)] assms(3)] assms(1) by simp_all

lemma file_inv_step: "file_step path w w' \<Longrightarrow> file_inv path w \<Longrightarrow> file_inv path w'"
proof (induction rule: file_step.induct)
  case (write_returns t txt' mode d ds c ps)
  let ?P = "\<lambda>v. allowed \<lparr>fdisk = d, confirmed = c, pending = ps\<rparr> v \<or> v = Some txt'"
  have p: "published path ?P d" using write_returns.prems published_weaken by (fastforce simp: file_inv_def)
  note run = write_run [OF p _ write_returns.hyps]
  have hd: "published path ?P (hd ds)" using run by simp
  have post: "replaced path mode txt' (hd ds)" "unsynced (hd ds) = [entries (hd ds)]" using run by (auto simp: write_post_def)
  have "published path (\<lambda>v. v = Some txt') (hd ds)" using synced_name [OF hd post(2)] post(1) by (simp add: replaced_def)
  then show ?case by (simp add: file_inv_def published_weaken allowed_def)
next
  case (write_raises t txt' mode d e ds c ps)
  let ?P = "allowed \<lparr>fdisk = hd ds, confirmed = c, pending = txt' # ps\<rparr>"
  have p: "published path ?P d" using write_raises.prems published_weaken by (fastforce simp: file_inv_def allowed_def)
  show ?case using write_run [OF p _ write_raises.hyps] by (simp add: file_inv_def allowed_def)
next
  case (write_cut_off t txt' mode d r ds s d' c ps)
  let ?P = "allowed \<lparr>fdisk = d', confirmed = c, pending = txt' # ps\<rparr>"
  have p: "published path ?P d" using write_cut_off.prems published_weaken by (fastforce simp: file_inv_def allowed_def)
  have "published path ?P s" using write_run(2) [OF p _ write_cut_off.hyps(1)] write_cut_off.hyps(2) by (simp add: allowed_def)
  then show ?case using published_power_loss(2) [OF _ write_cut_off.hyps(3)] by (simp add: file_inv_def)
next
  case (loses_power d d' c ps)
  have "allowed \<lparr>fdisk = d, confirmed = c, pending = ps\<rparr> = allowed \<lparr>fdisk = d', confirmed = c, pending = ps\<rparr>"
    by (simp add: allowed_def fun_eq_iff)
  then show ?case using loses_power published_power_loss(2) by (simp add: file_inv_def)
qed

interpretation durable: machine_invariant "file_start path" "file_step path" "file_inv path" for path
proof
  show "file_inv path w" if "file_start path w" for w
    using that by (auto simp: file_start_def file_inv_def allowed_def intro: published_weaken)
qed (auto intro: file_inv_step)

section \<open>Properties\<close>

text \<open>
  C11: one atomic write, whatever fails and wherever the power is lost: the published file always holds its old text or the
  whole new text. A write that returned is there for good, with its mode, and left no temporary file; one that raised
  \<open>DurabilityUnconfirmedError\<close>, or was interrupted after the rename, is visible; any other error left the old text.
\<close>

theorem atomic_write_survives_power_loss:
  assumes "published path (\<lambda>v. v = old) d" and "atomic_write_json t path text mode [d] = (r, ds)"
  shows "(\<forall>s \<in> set ds. look s path \<in> {old, Some text} \<and> (\<forall>s'. power_loss s s' \<longrightarrow> look s' path \<in> {old, Some text})) \<and>
    (case r of
       Inr _ \<Rightarrow> look (hd ds) path = Some text \<and> entries (hd ds) (tmp_of path) = None \<and>
         (\<exists>i. entries (hd ds) path = Some i \<and> modes (hd ds) i = mode) \<and>
         (\<forall>s'. power_loss (hd ds) s' \<longrightarrow> look s' path = Some text)
     | Inl e \<Rightarrow>
         if e = Durability_unconfirmed \<or> e = Interrupted then look (hd ds) path = Some text
         else look (hd ds) path = old \<and>
           (if open_ok t \<and> unlink_ok t then entries (hd ds) (tmp_of path) = None else True))"
proof -
  let ?P = "\<lambda>v. v = old \<or> v = Some text"
  have p: "published path ?P d" using assms(1) by (rule published_weaken) simp
  have old: "look d path = old" using published_look [OF assms(1)] .
  note run = write_run [OF p _ assms(2), simplified old, simplified]
  have I: "published path ?P s" if "s \<in> set ds" for s using run(2) that by simp
  have all: "\<forall>s \<in> set ds. look s path \<in> {old, Some text} \<and> (\<forall>s'. power_loss s s' \<longrightarrow> look s' path \<in> {old, Some text})"
    using published_look [OF I] published_power_loss(1) [OF I] by auto
  have last: "published path ?P (hd ds)" using I run(1) by simp
  show ?thesis
  proof (cases r)
    case (Inr u)
    then have q: "replaced path mode text (hd ds)" "unsynced (hd ds) = [entries (hd ds)]"
      using run(3) by (auto simp: write_post_def)
    have "look s' path = Some text" if "power_loss (hd ds) s'" for s'
      using published_power_loss(1) [OF synced_name [OF last q(2)] that] q(1) by (simp add: replaced_def)
    then show ?thesis using all q(1) Inr by (simp add: replaced_def)
  next
    case (Inl e)
    then show ?thesis using all run(3) by (cases e) (auto simp: write_post_def replaced_def)
  qed
qed

text \<open>
  C12: along every sequence of atomic writes of a file, each failing or not at every call, and power losses between and
  inside them: what is on the disk is the text of the last write that returned, or in full the text of a later
  write that raised; and a further power loss cannot change that.
\<close>

theorem confirmed_writes_are_kept:
  assumes "reachable (file_start path) (file_step path) w"
  shows "(look (fdisk w) path = confirmed w \<or> (\<exists>text \<in> set (pending w). look (fdisk w) path = Some text)) \<and>
    (\<forall>d'. power_loss (fdisk w) d' \<longrightarrow>
       look d' path = confirmed w \<or> (\<exists>text \<in> set (pending w). look d' path = Some text))"
proof -
  have i: "published path (allowed w) (fdisk w)" using durable.inv_reachable [OF assms] by (simp add: file_inv_def)
  show ?thesis using published_look [OF i] published_power_loss(1) [OF i] by (simp add: allowed_def)
qed

text \<open>The outcome the job store's model gives to a write that ended with this result.\<close>

fun outcome_of :: "os_exc + unit \<Rightarrow> Job_Store.write_outcome" where
  "outcome_of (Inr _) = Persisted"
| "outcome_of (Inl Durability_unconfirmed) = Raised_after OSError"
| "outcome_of (Inl Interrupted) = Raised_after BaseExc"
| "outcome_of (Inl _) = Raised_before OSError"

definition file_text :: "(row list \<Rightarrow> string) \<Rightarrow> jobs_file \<Rightarrow> string option" where
  "file_text dumps f = (case f of No_file \<Rightarrow> None | Corrupt_file \<Rightarrow> Some ''?'' | Rows rs \<Rightarrow> Some (dumps rs))"

text \<open>
  C13: the job store's model of a persist is the file write it makes. When the jobs file on disk holds what the model says,
  running \<open>atomic_write_json\<close> on the rows leaves on disk what \<open>write_atomic\<close> leaves in the model, for the outcome the run
  had; so its three outcomes (persisted, raised before, raised after the rename) are all there are.
\<close>

theorem job_persist_refines_file_write:
  assumes "published path (\<lambda>v. v = file_text dumps (jfile s)) d" and "evict_old fromiso now (jobs s) = Some js"
    and "atomic_write_json t path (dumps (rows_of js)) mode [d] = (r, ds)"
  shows "look (hd ds) path = file_text dumps (jfile (snd (write_atomic fromiso \<lparr>at_time = now, outcome = outcome_of r\<rparr> s))) \<and>
    (fst (write_atomic fromiso \<lparr>at_time = now, outcome = outcome_of r\<rparr> s) = Inr () \<longleftrightarrow> r = Inr ())"
proof -
  let ?new = "dumps (rows_of js)"
  have p: "published path (\<lambda>v. v = file_text dumps (jfile s) \<or> v = Some ?new) d"
    using assms(1) by (rule published_weaken) simp
  have old: "look d path = file_text dumps (jfile s)" using published_look [OF assms(1)] .
  note run = write_run(3) [OF p _ assms(3), simplified old, simplified]
  show ?thesis
  proof (cases r)
    case (Inr u)
    then show ?thesis using run assms(2) by (simp add: write_post_def replaced_def write_atomic_def file_text_def)
  next
    case (Inl e)
    then show ?thesis using run assms(2)
      by (cases e) (auto simp: write_post_def replaced_def write_atomic_def file_text_def)
  qed
qed

section \<open>The raw byte writer\<close>

lemma open_excl_contract:
  "io_valid (published path P) (\<lambda>d. look d path = old) (open_excl works (tmp_of path) mode)
     (\<lambda>r d. look d path = old \<and> (case r of Inl e \<Rightarrow> e \<noteq> Durability_unconfirmed \<and> e \<noteq> Interrupted | Inr i \<Rightarrow> drafting_tmp path old i mode d))"
proof (rule io_valid_prim)
  fix ds r ds'
  assume a: "ds \<noteq> []" "published path P (hd ds)" "look (hd ds) path = old" "open_excl works (tmp_of path) mode ds = (r, ds')"
  note c = published_create [OF a(2)] look_create [OF a(2)]
  have "entries (create_inode (tmp_of path) mode (hd ds)) (tmp_of path) = Some (fresh (hd ds))"
    "modes (create_inode (tmp_of path) mode (hd ds)) (fresh (hd ds)) = mode"
    by (simp_all add: create_inode_def Let_def set_entries_def set_contents_def)
  then show "(ds' = ds \<or> (\<exists>d'. ds' = d' # ds \<and> published path P d')) \<and> look (hd ds') path = old \<and>
      (case r of Inl e \<Rightarrow> e \<noteq> Durability_unconfirmed \<and> e \<noteq> Interrupted | Inr i \<Rightarrow> drafting_tmp path old i mode (hd ds'))"
    using a(3,4) c by (auto simp: open_excl_def drafting_tmp_def split: if_splits option.splits)
qed

lemma os_write_contract:
  "io_valid (published path P) (drafting_tmp path old i mode) (os_write t i data)
     (\<lambda>r d. drafting_tmp path old i mode d \<and> (case r of Inl e \<Rightarrow> e = OS_error | Inr _ \<Rightarrow> contents d i = take (written t) data))"
proof (rule io_valid_prim)
  fix ds r ds'
  assume a: "ds \<noteq> []" "published path P (hd ds)" "drafting_tmp path old i mode (hd ds)" "os_write t i data ds = (r, ds')"
  have e: "entries (hd ds) (tmp_of path) = Some i" using a(3) by (simp add: drafting_tmp_def)
  note w = published_set_contents [OF a(2) e] look_path_tmp [OF a(2) e]
  have "drafting_tmp path old i mode (set_contents i b (hd ds))" "contents (set_contents i b (hd ds)) i = b" for b
    using a(3) w by (simp_all add: drafting_tmp_def, simp_all add: set_contents_def)
  then show "(ds' = ds \<or> (\<exists>d'. ds' = d' # ds \<and> published path P d')) \<and>
      drafting_tmp path old i mode (hd ds') \<and> (case r of Inl e \<Rightarrow> e = OS_error | Inr _ \<Rightarrow> contents (hd ds') i = take (written t) data)"
    using a(3,4) w by (auto simp: os_write_def split: if_splits)
qed

lemma bytes_contract:
  assumes "P (Some (take (written t) data))"
  shows "io_valid (published path P) (\<lambda>d. look d path = old) (atomic_write_bytes t path data mode True)
     (write_post False path old mode (take (written t) data))"
  unfolding atomic_write_bytes_def if_True
proof (rule io_valid_bind [OF open_excl_contract])
  show "write_post False path old mode (take (written t) data) (Inl e) d"
    if "look d path = old \<and> (case Inl e of Inl e \<Rightarrow> e \<noteq> Durability_unconfirmed \<and> e \<noteq> Interrupted
      | Inr i \<Rightarrow> drafting_tmp path old i mode d)" for e d
    using that by (cases e) (simp_all add: write_post_def)
  show "io_valid (published path P)
      (\<lambda>d. look d path = old \<and> (case Inr fd of Inl e \<Rightarrow> e \<noteq> Durability_unconfirmed \<and> e \<noteq> Interrupted
        | Inr i \<Rightarrow> drafting_tmp path old i mode d))
      (io_then (io_except (io_then (os_write t fd data)
           (io_then (call (sync_ok t) (sys_fsync fd))
           (io_then (call (close_ok t) id)
           (io_then (call (publish_ok t) (sys_replace (tmp_of path) path)) (interrupt (interrupted t))))))
         (unlink_quietly (unlink_ok t) (tmp_of path))) (fsync_published_dir (dirsync_ok t)))
      (write_post False path old mode (take (written t) data))" for fd
  proof (rule io_valid_weaken [OF guarded_write_contract])
    show "io_valid (published path P) (drafting_tmp path old fd mode)
        (io_then (os_write t fd data)
           (io_then (call (sync_ok t) (sys_fsync fd))
           (io_then (call (close_ok t) id)
           (io_then (call (publish_ok t) (sys_replace (tmp_of path) path)) (interrupt (interrupted t))))))
        (body_post path old mode (take (written t) data))"
      by (rule io_valid_then [OF os_write_contract], simp add: body_post_def drafting_tmp_def, simp, rule finish_body_contract, rule assms)
  qed (auto simp: write_post_def split: sum.splits os_exc.splits)
qed

text \<open>
  \<open>atomic_write_bytes\<close> publishes what \<open>os.write\<close> took, and it does not look at the count \<open>os.write\<close> returns: with a
  full write the file is the old one or the whole data after a power loss anywhere; after a short write the call returns
  normally and a truncated file has replaced the old one.
\<close>

lemma byte_write_publishes_what_was_taken:
  assumes "published path (\<lambda>v. v = old) d" and "atomic_write_bytes t path data mode True [d] = (r, ds)"
  shows "(\<forall>s \<in> set ds. \<forall>s'. power_loss s s' \<longrightarrow> look s' path \<in> {old, Some (take (written t) data)}) \<and>
    (if r = Inr () then look (hd ds) path = Some (take (written t) data) else True)"
proof -
  let ?P = "\<lambda>v. v = old \<or> v = Some (take (written t) data)"
  have p: "published path ?P d" using assms(1) by (rule published_weaken) simp
  have old: "look d path = old" using published_look [OF assms(1)] .
  note run = io_validD [OF bytes_contract [of ?P t data path old mode] assms(2), simplified]
  have I: "published path ?P s" if "s \<in> set ds" for s using run(2) p old that by simp
  have "look s' path \<in> {old, Some (take (written t) data)}" if "s \<in> set ds" "power_loss s s'" for s s'
    using published_power_loss(1) [OF I [OF that(1)] that(2)] by simp
  moreover have "write_post False path old mode (take (written t) data) r (hd ds)" using run(3) p old by simp
  ultimately show ?thesis by (auto simp: write_post_def replaced_def)
qed

text \<open>
  With \<open>replace=False\<close> an existing file is never overwritten: in every state on the way and after every power loss it has its
  text, and the call raises.
\<close>

lemma link_contract:
  "io_valid (published path (\<lambda>v. v = Some x)) (\<lambda>d. look d path = Some x) (sys_link works (tmp_of path) path)
     (\<lambda>r d. look d path = Some x \<and> (r = Inl OS_error \<or> r = Inl File_exists_error))"
  by (rule io_valid_prim) (auto simp: sys_link_def look_def split: if_splits)

lemma exclusive_create_never_overwrites:
  assumes "published path (\<lambda>v. v = Some x) d" and "atomic_write_bytes t path data mode False [d] = (r, ds)"
  shows "r \<noteq> Inr () \<and> (\<forall>s \<in> set ds. look s path = Some x \<and> (\<forall>s'. power_loss s s' \<longrightarrow> look s' path = Some x))"
proof -
  let ?I = "published path (\<lambda>v. v = Some x)" and ?q = "\<lambda>r d. look d path = Some x \<and> (\<exists>e. r = Inl e)"
  have link: "io_valid ?I (\<lambda>d. look d path = Some x)
      (io_then (io_then (sys_link (publish_ok t) (tmp_of path) path) (unlink_quietly (unlink_ok t) (tmp_of path)))
        (interrupt (interrupted t))) ?q"
    by (rule io_valid_then [where q = ?q], rule io_valid_then [OF link_contract]) (auto simp: io_valid_def)
  have body: "io_valid ?I (drafting_tmp path (Some x) fd mode)
      (io_then (os_write t fd data) (io_then (call (sync_ok t) (sys_fsync fd)) (io_then (call (close_ok t) id)
        (io_then (io_then (sys_link (publish_ok t) (tmp_of path) path) (unlink_quietly (unlink_ok t) (tmp_of path)))
          (interrupt (interrupted t)))))) ?q" for fd
    by (rule io_valid_then [OF os_write_contract], simp add: drafting_tmp_def, simp, rule io_valid_then [OF sync_contract], simp,
        simp, rule io_valid_then [OF close_contract], simp, simp,
        rule io_valid_weaken [OF link], simp add: draft_done_def drafting_tmp_def, simp)
  have guarded: "io_valid ?I (drafting_tmp path (Some x) fd mode)
      (io_then (io_except (io_then (os_write t fd data) (io_then (call (sync_ok t) (sys_fsync fd)) (io_then (call (close_ok t) id)
        (io_then (io_then (sys_link (publish_ok t) (tmp_of path) path) (unlink_quietly (unlink_ok t) (tmp_of path)))
          (interrupt (interrupted t)))))) (unlink_quietly (unlink_ok t) (tmp_of path))) (fsync_published_dir (dirsync_ok t))) ?q" for fd
  proof (rule io_valid_then [where q = ?q], rule io_valid_except [OF body])
    show "io_valid ?I (\<lambda>d. look d path = Some x \<and> (\<exists>ea. Inl e = Inl ea)) (unlink_quietly (unlink_ok t) (tmp_of path))
      (\<lambda>r d. look d path = Some x \<and> (\<exists>ea. (case r of Inl e' \<Rightarrow> Inl e' | Inr _ \<Rightarrow> Inl e) = Inl ea))" for e
      by (rule io_valid_weaken [OF unlink_contract]) auto
  qed (auto simp: io_valid_def)
  have whole: "io_valid ?I (\<lambda>d. look d path = Some x) (atomic_write_bytes t path data mode False) ?q"
    unfolding atomic_write_bytes_def if_False
    by (rule io_valid_bind [OF open_excl_contract], simp, rule io_valid_weaken [OF guarded], simp, simp)
  have l: "look d path = Some x" using published_look [OF assms(1)] .
  note run = io_validD [OF whole assms(2)]
  have I: "?I s" if "s \<in> set ds" for s using run(2) assms(1) l that by simp
  have "r \<noteq> Inr ()" using run(3) assms(1) l by auto
  moreover have "look s path = Some x" if "s \<in> set ds" for s using published_look [OF I [OF that]] .
  moreover have "look s' path = Some x" if "s \<in> set ds" "power_loss s s'" for s s'
    using published_power_loss(1) [OF I [OF that(1)] that(2)] .
  ultimately show ?thesis by blast
qed

section \<open>Concrete runs\<close>

definition empty_disk :: disk where
  "empty_disk =
     \<lparr>entries = Map.empty, unsynced = [Map.empty], contents = (\<lambda>_. []), synced = (\<lambda>_. None), modes = (\<lambda>_. 0), fresh = 0\<rparr>"

definition good_try :: write_try where
  "good_try =
     \<lparr>open_ok = True, chmod_ok = True, dump_ok = True, written = 3, sync_ok = True, close_ok = True, publish_ok = True,
      interrupted = False, unlink_ok = True, dirsync_ok = True, umask_mode = 384\<rparr>"

lemma empty_published: "published path (\<lambda>v. v = None) empty_disk"
  by (simp add: published_def empty_disk_def held_def)

lemma good_write:
  "fst (atomic_write_json good_try ''j'' t 384 [empty_disk]) = Inr ()"
  by (simp add: atomic_write_json_def io_bind_def io_then_def io_except_def open_trunc_def call_def dump_def interrupt_def
      fsync_published_dir_def good_try_def empty_disk_def)

theorem atomic_write_survives_power_loss_witness:
  "fst (atomic_write_json good_try ''j'' ''[]'' 384 [empty_disk]) = Inr () \<and>
   look (hd (snd (atomic_write_json good_try ''j'' ''[]'' 384 [empty_disk]))) ''j'' = Some ''[]''"
  using atomic_write_survives_power_loss [OF empty_published surjective_pairing, of good_try "''j''" "''[]''" 384]
    good_write [of "''[]''"] by simp

theorem confirmed_writes_are_kept_witness:
  "reachable (file_start ''j'') (file_step ''j'')
     \<lparr>fdisk = hd (snd (atomic_write_json good_try ''j'' ''[]'' 384 [empty_disk])), confirmed = Some ''[]'', pending = []\<rparr> \<and>
   look (hd (snd (atomic_write_json good_try ''j'' ''[]'' 384 [empty_disk]))) ''j'' = Some ''[]''"
proof
  have "file_start ''j'' \<lparr>fdisk = empty_disk, confirmed = None, pending = []\<rparr>"
    using empty_published by (simp add: file_start_def)
  then have 0: "reachable (file_start ''j'') (file_step ''j'') \<lparr>fdisk = empty_disk, confirmed = None, pending = []\<rparr>"
    by (rule reach_init)
  have "file_step ''j'' \<lparr>fdisk = empty_disk, confirmed = None, pending = []\<rparr>
      \<lparr>fdisk = hd (snd (atomic_write_json good_try ''j'' ''[]'' 384 [empty_disk])), confirmed = Some ''[]'', pending = []\<rparr>"
    by (rule write_returns [where t = good_try and mode = 384]) (metis good_write surjective_pairing)
  with 0 show r: "reachable (file_start ''j'') (file_step ''j'')
     \<lparr>fdisk = hd (snd (atomic_write_json good_try ''j'' ''[]'' 384 [empty_disk])), confirmed = Some ''[]'', pending = []\<rparr>"
    by (rule reach_step)
  from confirmed_writes_are_kept [OF r]
  show "look (hd (snd (atomic_write_json good_try ''j'' ''[]'' 384 [empty_disk]))) ''j'' = Some ''[]''" by simp
qed

theorem job_persist_refines_file_write_witness:
  "look (hd (snd (atomic_write_json good_try ''j'' ''[]'' 384 [empty_disk]))) ''j'' =
     file_text (\<lambda>_. ''[]'') (jfile (snd (write_atomic (\<lambda>_. None) \<lparr>at_time = 0, outcome = Persisted\<rparr>
       \<lparr>jobs = [], jfile = No_file, crashed_ingest_on_load = False\<rparr>)))"
  using job_persist_refines_file_write
    [where path = "''j''" and dumps = "\<lambda>_. ''[]''" and s = "\<lparr>jobs = [], jfile = No_file, crashed_ingest_on_load = False\<rparr>" and d = empty_disk
      and fromiso = "\<lambda>_. None" and now = 0 and js = "[]" and t = good_try and mode = 384, OF _ _ surjective_pairing]
    empty_published good_write [of "''[]''"]
  by (simp add: file_text_def evict_old_def dict_values_def)

theorem byte_write_publishes_what_was_taken_witness:
  "fst (atomic_write_bytes good_try ''c'' ''abcdef'' 384 True [empty_disk]) = Inr () \<and>
   look (hd (snd (atomic_write_bytes good_try ''c'' ''abcdef'' 384 True [empty_disk]))) ''c'' = Some ''abc''"
proof -
  have "fst (atomic_write_bytes good_try ''c'' ''abcdef'' 384 True [empty_disk]) = Inr ()"
    by (simp add: atomic_write_bytes_def io_bind_def io_then_def io_except_def open_excl_def call_def os_write_def interrupt_def
        fsync_published_dir_def good_try_def empty_disk_def)
  moreover have "written good_try = 3" by (simp add: good_try_def)
  ultimately show ?thesis
    using byte_write_publishes_what_was_taken [OF empty_published surjective_pairing, of good_try "''c''" "''abcdef''" 384] by simp
qed

end
