(* ===== verification/Private_Files.thy ===== *)
theory Private_Files
  imports Prelude "HOL-Library.Sublist"
begin

text \<open>
  The rest of \<open>archon_search/_durable_io.py\<close>: creating private directories, restricting a tree to its owner, and syncing a
  whole tree. A path is its list of components. The file system maps real paths to what \<open>lstat\<close> tells; \<open>resolve\<close> (links
  resolved), the walk of a tree, what \<open>mkdir\<close> and \<open>chmod\<close> do, and the effective user are arguments. The Windows branches,
  which do nothing, are left out.
\<close>

type_synonym dpath = "string list"

datatype entry_kind = Directory | Regular | Other_kind

record stat_info =
  kind :: entry_kind
  mode_bits :: nat
  owner :: nat

type_synonym tree = "dpath \<Rightarrow> stat_info option"

definition private_dir_mode :: nat where
  "private_dir_mode = 448"

definition private_file_mode :: nat where
  "private_file_mode = 384"

section \<open>Private directories\<close>

text \<open>The loop that collects missing ancestors, nearest first; the parent of the root is the root.\<close>

function missing_dirs :: "(dpath \<Rightarrow> dpath) \<Rightarrow> tree \<Rightarrow> dpath \<Rightarrow> dpath list" where
  "missing_dirs resolve fs probe =
     (if fs (resolve probe) \<noteq> None then [] else if probe = [] then [probe] else probe # missing_dirs resolve fs (butlast probe))"
  by pat_completeness auto

termination missing_dirs
  by (relation "measure (\<lambda>(resolve, fs, probe). length probe)") auto

text \<open>What another process or the kernel does at one \<open>mkdir\<close>.\<close>

datatype mkdir_try = Made | Made_then_error nat | Created_by_other stat_info | Mkdir_error

fun make_dirs :: "(dpath \<Rightarrow> mkdir_try) \<Rightarrow> (dpath \<Rightarrow> dpath) \<Rightarrow> nat \<Rightarrow> dpath list \<Rightarrow> tree \<Rightarrow> bool \<times> tree" where
  "make_dirs mk resolve me [] fs = (True, fs)"
| "make_dirs mk resolve me (p # ps) fs =
     (if fs (resolve p) \<noteq> None then make_dirs mk resolve me ps fs
      else case mk p of
             Made \<Rightarrow>
               make_dirs mk resolve me ps (fs(resolve p \<mapsto> \<lparr>kind = Directory, mode_bits = private_dir_mode, owner = me\<rparr>))
           | Made_then_error m \<Rightarrow> (False, fs(resolve p \<mapsto> \<lparr>kind = Directory, mode_bits = m, owner = me\<rparr>))
           | Created_by_other i \<Rightarrow> make_dirs mk resolve me ps (fs(resolve p \<mapsto> i))
           | Mkdir_error \<Rightarrow> (False, fs))"

definition tighten :: "nat \<Rightarrow> dpath \<Rightarrow> tree \<Rightarrow> bool \<times> tree" where
  "tighten me p fs =
     (case fs p of
        None \<Rightarrow> (False, fs)
      | Some i \<Rightarrow>
          (if owner i = me \<and> mode_bits i \<noteq> private_dir_mode then (True, fs(p \<mapsto> i\<lparr>mode_bits := private_dir_mode\<rparr>))
           else (True, fs)))"

text \<open>\<open>for directory in (resolved, *resolved.parents)\<close>, up to the data directory.\<close>

function tighten_up :: "nat \<Rightarrow> dpath \<Rightarrow> dpath \<Rightarrow> tree \<Rightarrow> bool \<times> tree" where
  "tighten_up me root p fs =
     (case tighten me p fs of
        (False, fs') \<Rightarrow> (False, fs')
      | (True, fs') \<Rightarrow> if p = root \<or> p = [] then (True, fs') else tighten_up me root (butlast p) fs')"
  by pat_completeness auto

termination tighten_up
  by (relation "measure (\<lambda>(me, root, p, fs). length p)") auto

definition ensure_private_dir ::
    "(dpath \<Rightarrow> mkdir_try) \<Rightarrow> (dpath \<Rightarrow> dpath) \<Rightarrow> nat \<Rightarrow> dpath option \<Rightarrow> dpath \<Rightarrow> tree \<Rightarrow> bool \<times> tree" where
  "ensure_private_dir mk resolve me data_dir path fs =
     (case make_dirs mk resolve me (rev (missing_dirs resolve fs path)) fs of
        (False, fs') \<Rightarrow> (False, fs')
      | (True, fs') \<Rightarrow>
          (case data_dir of
             None \<Rightarrow> (True, fs')
           | Some root \<Rightarrow> if prefix root (resolve path) then tighten_up me root (resolve path) fs' else (True, fs')))"

section \<open>Restricting a tree\<close>

definition wanted_mode :: "stat_info \<Rightarrow> nat option" where
  "wanted_mode i = (case kind i of Directory \<Rightarrow> Some private_dir_mode | Regular \<Rightarrow> Some private_file_mode | Other_kind \<Rightarrow> None)"

text \<open>\<open>_restrict_entry\<close>; \<open>False\<close> is an \<open>OSError\<close> of \<open>chmod\<close>.\<close>

definition restrict_entry :: "(dpath \<Rightarrow> bool) \<Rightarrow> nat \<Rightarrow> dpath \<Rightarrow> tree \<Rightarrow> bool \<times> tree" where
  "restrict_entry chmod_works me p fs =
     (case fs p of
        None \<Rightarrow> (True, fs)
      | Some i \<Rightarrow>
          (if owner i \<noteq> me then (True, fs)
           else case wanted_mode i of
                  None \<Rightarrow> (True, fs)
                | Some want \<Rightarrow>
                    (if mode_bits i = want then (True, fs)
                     else if chmod_works p then (True, fs(p \<mapsto> i\<lparr>mode_bits := want\<rparr>))
                     else (False, fs))))"

text \<open>\<open>restrict_tree_to_owner\<close>: every entry is tried, the first error is raised at the end.\<close>

fun restrict_entries :: "(dpath \<Rightarrow> bool) \<Rightarrow> nat \<Rightarrow> dpath list \<Rightarrow> tree \<Rightarrow> bool \<times> tree" where
  "restrict_entries works me [] fs = (True, fs)"
| "restrict_entries works me (p # ps) fs =
     (case restrict_entry works me p fs of
        (ok, fs') \<Rightarrow> (case restrict_entries works me ps fs' of (ok', fs'') \<Rightarrow> (ok \<and> ok', fs'')))"

definition restrict_tree_to_owner :: "(dpath \<Rightarrow> bool) \<Rightarrow> nat \<Rightarrow> (dpath \<Rightarrow> bool) \<Rightarrow> dpath \<Rightarrow> dpath list \<Rightarrow> tree \<Rightarrow> bool \<times> tree" where
  "restrict_tree_to_owner works me is_link root walk fs =
     (if is_link root then (True, fs) else restrict_entries works me (root # walk) fs)"

section \<open>Syncing a tree\<close>

text \<open>\<open>fsync_tree\<close>: the order of its calls; \<open>sorted\<close> with \<open>reverse\<close> keeps the order of equal keys.\<close>

definition fsync_tree :: "dpath \<Rightarrow> dpath list \<Rightarrow> dpath list \<Rightarrow> dpath list" where
  "fsync_tree root files dirs = files @ sort_key (\<lambda>p. - int (length p)) dirs @ [root]"

section \<open>Facts\<close>

declare missing_dirs.simps [simp del] tighten_up.simps [simp del]

lemma missing_dirs_missing: "q \<in> set (missing_dirs resolve fs p) \<Longrightarrow> fs (resolve q) = None"
  by (induction resolve fs p rule: missing_dirs.induct) (subst (asm) missing_dirs.simps, auto split: if_splits)

text \<open>Directories that were there keep their entry; new ones are private, or someone else's.\<close>

definition only_adds_private :: "(dpath \<Rightarrow> mkdir_try) \<Rightarrow> nat \<Rightarrow> tree \<Rightarrow> tree \<Rightarrow> bool" where
  "only_adds_private mk me fs fs' \<longleftrightarrow>
     (\<forall>q. case fs q of
            Some i \<Rightarrow> fs' q = Some i
          | None \<Rightarrow> fs' q = None \<or> fs' q = Some \<lparr>kind = Directory, mode_bits = private_dir_mode, owner = me\<rparr> \<or>
                    (\<exists>p i. mk p = Created_by_other i \<and> fs' q = Some i))"

lemma make_dirs_adds:
  assumes "make_dirs mk resolve me ps fs = (True, fs')"
  shows "only_adds_private mk me fs fs' \<and> (\<forall>p \<in> set ps. fs' (resolve p) \<noteq> None)"
  using assms
proof (induction ps arbitrary: fs)
  case Nil
  then show ?case by (simp add: only_adds_private_def split: option.split)
next
  case (Cons p ps)
  show ?case
  proof (cases "fs (resolve p)")
    case (Some i)
    then have r: "make_dirs mk resolve me ps fs = (True, fs')" using Cons.prems by simp
    from Cons.IH [OF r] have "only_adds_private mk me fs fs'" "\<forall>p \<in> set ps. fs' (resolve p) \<noteq> None" by auto
    moreover have "fs' (resolve p) = Some i" using calculation(1) Some by (auto simp: only_adds_private_def dest: spec [of _ "resolve p"])
    ultimately show ?thesis by simp
  next
    case None
    then obtain i where i: "make_dirs mk resolve me ps (fs(resolve p \<mapsto> i)) = (True, fs')"
      "i = \<lparr>kind = Directory, mode_bits = private_dir_mode, owner = me\<rparr> \<or> mk p = Created_by_other i"
      using Cons.prems by (auto split: mkdir_try.splits)
    have a: "only_adds_private mk me (fs(resolve p \<mapsto> i)) fs'" "\<forall>p \<in> set ps. fs' (resolve p) \<noteq> None"
      using Cons.IH [OF i(1)] by blast+
    have p: "fs' (resolve p) = Some i" using a(1) by (auto simp: only_adds_private_def dest: spec [of _ "resolve p"])
    have "only_adds_private mk me fs fs'" unfolding only_adds_private_def
    proof
      fix q
      show "case fs q of Some i \<Rightarrow> fs' q = Some i
          | None \<Rightarrow> fs' q = None \<or> fs' q = Some \<lparr>kind = Directory, mode_bits = private_dir_mode, owner = me\<rparr> \<or>
                    (\<exists>p i. mk p = Created_by_other i \<and> fs' q = Some i)"
        using a(1) [unfolded only_adds_private_def, rule_format, of q] p i(2) None
        by (cases "q = resolve p") (auto split: option.splits)
    qed
    then show ?thesis using a(2) p by simp
  qed
qed

lemma tighten_up_changes:
  assumes "tighten_up me root p fs = (ok, fs')" and "prefix root p"
  shows "fs' q = fs q \<or> (prefix root q \<and> prefix q p \<and> (\<exists>i. fs q = Some i \<and> owner i = me \<and> fs' q = Some (i\<lparr>mode_bits := private_dir_mode\<rparr>)))"
  using assms
proof (induction me root p fs arbitrary: fs' rule: tighten_up.induct)
  case (1 me root p fs)
  obtain b fs1 where t: "tighten me p fs = (b, fs1)" by fastforce
  have here: "fs1 q = fs q \<or> (q = p \<and> (\<exists>i. fs q = Some i \<and> owner i = me \<and> fs1 q = Some (i\<lparr>mode_bits := private_dir_mode\<rparr>)))"
    using t by (auto simp: tighten_def split: option.splits if_splits)
  show ?case
  proof (cases "b \<and> p \<noteq> root \<and> p \<noteq> []")
    case False
    then have "fs' = fs1" using "1.prems"(1) t by (subst (asm) tighten_up.simps) (auto split: bool.splits if_splits)
    then show ?thesis using here "1.prems"(2) by auto
  next
    case True
    then have r: "tighten_up me root (butlast p) fs1 = (ok, fs')" using "1.prems"(1) t by (subst (asm) tighten_up.simps) simp
    have pre: "prefix root (butlast p)" using "1.prems"(2) True by (metis append_butlast_last_id prefix_snoc)
    have below: "prefix q p" "q \<noteq> p" if "prefix q (butlast p)"
      using that True by (auto simp: prefix_def, metis append.assoc append_butlast_last_id, metis length_butlast length_append le_add1 diff_less length_greater_0_conv not_less One_nat_def less_numeral_extra(1))
    from "1.IH" [OF t [symmetric] _ _ r pre] True
    have "fs' q = fs1 q \<or> (prefix root q \<and> prefix q (butlast p) \<and>
        (\<exists>i. fs1 q = Some i \<and> owner i = me \<and> fs' q = Some (i\<lparr>mode_bits := private_dir_mode\<rparr>)))" by simp
    then show ?thesis using here below "1.prems"(2) by auto
  qed
qed

text \<open>An entry is left as it was, or is the caller's own and gets the private mode of its kind.\<close>

definition restricted :: "nat \<Rightarrow> stat_info option \<Rightarrow> stat_info option \<Rightarrow> bool" where
  "restricted me e e' \<longleftrightarrow>
     e' = e \<or> (\<exists>i m. e = Some i \<and> owner i = me \<and> wanted_mode i = Some m \<and> e' = Some (i\<lparr>mode_bits := m\<rparr>))"

definition private_entry :: "nat \<Rightarrow> stat_info option \<Rightarrow> bool" where
  "private_entry me e =
     (case e of None \<Rightarrow> True
      | Some i \<Rightarrow> if owner i = me then (case wanted_mode i of None \<Rightarrow> True | Some m \<Rightarrow> mode_bits i = m) else True)"

lemma wanted_mode_upd [simp]: "wanted_mode (i\<lparr>mode_bits := m\<rparr>) = wanted_mode i"
  by (simp add: wanted_mode_def)

lemma restricted_trans: "restricted me a b \<Longrightarrow> restricted me b c \<Longrightarrow> restricted me a c"
  by (auto simp: restricted_def)

lemma restricted_private: "restricted me a b \<Longrightarrow> private_entry me a \<Longrightarrow> private_entry me b"
  unfolding restricted_def by (elim disjE exE conjE) (simp_all add: private_entry_def)

lemma restrict_entry_changes:
  assumes "restrict_entry works me p fs = (ok, fs')"
  shows "q \<noteq> p \<Longrightarrow> fs' q = fs q" and "restricted me (fs p) (fs' p)" and "ok \<Longrightarrow> private_entry me (fs' p)"
  using assms
  by (auto simp: restrict_entry_def restricted_def private_entry_def wanted_mode_def split: option.splits if_splits entry_kind.splits)

lemma restrict_entries_result:
  assumes "restrict_entries works me ps fs = (ok, fs')"
  shows "q \<notin> set ps \<Longrightarrow> fs' q = fs q" and "restricted me (fs q) (fs' q)"
    and "ok \<Longrightarrow> q \<in> set ps \<Longrightarrow> private_entry me (fs' q)"
proof -
  have "(q \<notin> set ps \<longrightarrow> fs' q = fs q) \<and> restricted me (fs q) (fs' q) \<and> (ok \<and> q \<in> set ps \<longrightarrow> private_entry me (fs' q))"
    using assms
  proof (induction ps arbitrary: fs ok)
    case (Cons p ps)
    obtain ok1 fs1 where e: "restrict_entry works me p fs = (ok1, fs1)" by fastforce
    obtain ok2 where r: "restrict_entries works me ps fs1 = (ok2, fs')" and ok: "ok = (ok1 \<and> ok2)"
      using Cons.prems e by (auto split: prod.splits)
    note c = restrict_entry_changes [OF e]
    have "restricted me (fs q) (fs1 q)" using c(1,2) by (cases "q = p") (auto simp: restricted_def)
    then have "restricted me (fs q) (fs' q)" using Cons.IH [OF r] restricted_trans by blast
    moreover have "private_entry me (fs' q)" if ok "q = p"
      using c(3) ok that Cons.IH [OF r] restricted_private by blast
    moreover have "fs' q = fs q" if "q \<notin> set (p # ps)" using that c(1) [of q] Cons.IH [OF r] by simp
    ultimately show ?case using Cons.IH [OF r] ok by auto
  qed (simp add: restricted_def)
  then show "q \<notin> set ps \<Longrightarrow> fs' q = fs q" "restricted me (fs q) (fs' q)" "ok \<Longrightarrow> q \<in> set ps \<Longrightarrow> private_entry me (fs' q)"
    by blast+
qed

section \<open>Properties\<close>

text \<open>
  \<open>ensure_private_dir\<close> gives a directory at the path and never loosens or touches anything else: what it creates is
  private to the owner, and an entry that was there changes only when it lies between the data directory and the
  path, belongs to the caller, and then only to the private mode.
\<close>

lemma private_dirs_only:
  assumes "ensure_private_dir mk resolve me data_dir path fs = (True, fs')"
  shows "fs' (resolve path) \<noteq> None \<and>
    (\<forall>q. case fs q of
       Some i \<Rightarrow> fs' q = Some i \<or>
         (\<exists>root. data_dir = Some root \<and> prefix root q \<and> prefix q (resolve path) \<and> owner i = me \<and>
            fs' q = Some (i\<lparr>mode_bits := private_dir_mode\<rparr>))
     | None \<Rightarrow> fs' q = None \<or> fs' q = Some \<lparr>kind = Directory, mode_bits = private_dir_mode, owner = me\<rparr> \<or>
         (\<exists>p i. mk p = Created_by_other i \<and> (fs' q = Some i \<or> fs' q = Some (i\<lparr>mode_bits := private_dir_mode\<rparr>))))"
proof -
  obtain fs1 where m: "make_dirs mk resolve me (rev (missing_dirs resolve fs path)) fs = (True, fs1)"
    and r: "fs' = fs1 \<or> (\<exists>root. data_dir = Some root \<and> prefix root (resolve path) \<and> tighten_up me root (resolve path) fs1 = (True, fs'))"
    using assms by (auto simp: ensure_private_dir_def split: prod.splits bool.splits option.splits if_splits)
  note a = make_dirs_adds [OF m]
  have here: "fs1 (resolve path) \<noteq> None"
  proof (cases "fs (resolve path)")
    case None
    then have "path \<in> set (missing_dirs resolve fs path)" by (subst missing_dirs.simps) simp
    then show ?thesis using a by simp
  next
    case (Some i)
    then show ?thesis using a by (auto simp: only_adds_private_def dest!: spec [of _ "resolve path"])
  qed
  have ch: "fs' q = fs1 q \<or> (\<exists>root i. data_dir = Some root \<and> prefix root q \<and> prefix q (resolve path) \<and> fs1 q = Some i \<and> owner i = me \<and>
      fs' q = Some (i\<lparr>mode_bits := private_dir_mode\<rparr>))" for q
    using r
  proof (elim disjE exE conjE)
    fix root
    assume x: "data_dir = Some root" "prefix root (resolve path)" "tighten_up me root (resolve path) fs1 = (True, fs')"
    show ?thesis using tighten_up_changes [OF x(3,2), of q] x(1) by blast
  qed simp
  have "case fs q of
       Some i \<Rightarrow> fs' q = Some i \<or>
         (\<exists>root. data_dir = Some root \<and> prefix root q \<and> prefix q (resolve path) \<and> owner i = me \<and>
            fs' q = Some (i\<lparr>mode_bits := private_dir_mode\<rparr>))
     | None \<Rightarrow> fs' q = None \<or> fs' q = Some \<lparr>kind = Directory, mode_bits = private_dir_mode, owner = me\<rparr> \<or>
         (\<exists>p i. mk p = Created_by_other i \<and> (fs' q = Some i \<or> fs' q = Some (i\<lparr>mode_bits := private_dir_mode\<rparr>)))" for q
  proof (cases "fs q")
    case None
    from a [THEN conjunct1, unfolded only_adds_private_def, rule_format, of q] None
    consider "fs1 q = None" | "fs1 q = Some \<lparr>kind = Directory, mode_bits = private_dir_mode, owner = me\<rparr>"
      | p i where "mk p = Created_by_other i" "fs1 q = Some i" by auto
    then show ?thesis
    proof cases
      case (3 p i)
      then have "fs' q = Some i \<or> fs' q = Some (i\<lparr>mode_bits := private_dir_mode\<rparr>)" using ch [of q] by auto
      then show ?thesis using None 3(1) by auto
    qed (use ch [of q] None in auto)
  next
    case (Some i)
    then have "fs1 q = Some i" using a [THEN conjunct1, unfolded only_adds_private_def, rule_format, of q] by simp
    then show ?thesis using ch [of q] Some by auto
  qed
  moreover have "fs' (resolve path) \<noteq> None" using ch [of "resolve path"] here by auto
  ultimately show ?thesis by blast
qed

theorem private_dirs_only_witness:
  "fst (ensure_private_dir (\<lambda>_. Made) id 7 (Some [''d'']) [''d'', ''s'']
     [[''d''] \<mapsto> \<lparr>kind = Directory, mode_bits = 493, owner = 7\<rparr>]) \<and>
   snd (ensure_private_dir (\<lambda>_. Made) id 7 (Some [''d'']) [''d'', ''s'']
     [[''d''] \<mapsto> \<lparr>kind = Directory, mode_bits = 493, owner = 7\<rparr>]) [''d'', ''s''] \<noteq> None"
proof -
  let ?r = "ensure_private_dir (\<lambda>_. Made) id 7 (Some [''d'']) [''d'', ''s'']
     [[''d''] \<mapsto> \<lparr>kind = Directory, mode_bits = 493, owner = 7\<rparr>]"
  have f: "fst ?r" by code_simp
  then have "?r = (True, snd ?r)" by (metis (full_types) prod.collapse)
  from private_dirs_only [OF this] f show ?thesis by simp
qed

text \<open>
  Syncing a tree: every file and directory is synced, the files first, and no directory before one below it.
\<close>

lemma fsync_tree_order:
  assumes "\<forall>p \<in> set dirs. strict_prefix root p"
  shows "set (fsync_tree root files dirs) = insert root (set files \<union> set dirs) \<and>
    sorted_wrt (\<lambda>p q. \<not> strict_prefix p q) (drop (length files) (fsync_tree root files dirs))"
proof -
  have "sorted_wrt (\<lambda>p q. \<not> strict_prefix p q) (sort_key (\<lambda>p. - int (length p)) dirs)"
  proof (rule sorted_wrt_mono_rel)
    show "sorted_wrt (\<lambda>p q. - int (length p) \<le> - int (length q)) (sort_key (\<lambda>p. - int (length p)) dirs)"
      using sorted_sort_key [of "\<lambda>p. - int (length p)" dirs] by (simp add: sorted_map)
    show "\<not> strict_prefix p q" if "- int (length p) \<le> - int (length q)" for p q :: dpath
      using that prefix_length_less by fastforce
  qed
  then show ?thesis using assms by (auto simp: fsync_tree_def sorted_wrt_append dest: prefix_order.less_asym)
qed

text \<open>
  Restricting a tree: without an error every walked entry of the caller's has the private mode of its kind; nothing else
  changes, also when an entry could not be changed.
\<close>

lemma restrict_tree_result:
  assumes "restrict_tree_to_owner works me is_link root walk fs = (ok, fs')"
  shows "restricted me (fs q) (fs' q) \<and> (if q \<in> set (root # walk) then True else fs' q = fs q) \<and>
    (if ok \<and> \<not> is_link root \<and> q \<in> set (root # walk) then private_entry me (fs' q) else True)"
  using assms restrict_entries_result [of works me "root # walk" fs ok fs' q]
  by (auto simp: restrict_tree_to_owner_def restricted_def simp del: restrict_entries.simps split: if_splits)

end
