(* ===== verification/Backup_Loop.thy ===== *)
theory Backup_Loop
  imports Job_Store
begin

text \<open>
  \<open>archon_search/jobs/backup_loop.py\<close> and \<open>archon_search/server/routes_backup.py\<close>: the scheduled backups. A tick enqueues
  export jobs through the job store's own \<open>create_export\<close>; a drain looks at the tracked jobs, writes the state file and
  rotates the archives. Between its one \<open>await\<close> (listing the collections) and its end a tick runs without interruption,
  so it is one function of the listing. The sleeping loops around them are sequences of these steps.
\<close>

record backup_config =
  interval_hours :: int
  keep :: nat
  exclude :: "string list"
  output_dir :: string

text \<open>The state file as the loader meets it: absent, unreadable, or a JSON value.\<close>

datatype state_file = No_state | Unreadable_state | State_json json

record backup_loop =
  tracked :: "(string, string \<times> string) dict"
  state_on_disk :: state_file
  archives :: "string \<Rightarrow> string list option"
  last_tick_at :: "string option"

definition is_collection_in_flight :: "string \<Rightarrow> string \<Rightarrow> backup_loop \<Rightarrow> bool" where
  "is_collection_in_flight ns col b \<longleftrightarrow> (ns, col) \<in> set (dict_values (tracked b))"

definition track :: "string \<Rightarrow> string \<Rightarrow> string \<Rightarrow> backup_loop \<Rightarrow> backup_loop" where
  "track jid ns col b = b\<lparr>tracked := dict_set jid (ns, col) (tracked b)\<rparr>"

definition is_excluded :: "backup_config \<Rightarrow> string \<Rightarrow> string \<Rightarrow> bool" where
  "is_excluded c ns col \<longleftrightarrow>
     (\<exists>pattern \<in> set (exclude c).
        if CHR ''/'' \<in> set pattern then pattern = ns @ ''/'' @ col else pattern = col)"

section \<open>The state file\<close>

text \<open>\<open>str\<close> of a number or a truth value is an argument; a string is itself. Other values are dropped.\<close>

fun coerced :: "(json \<Rightarrow> string) \<Rightarrow> json \<Rightarrow> string option" where
  "coerced py_str (JStr s) = Some s"
| "coerced py_str (JInt n) = Some (py_str (JInt n))"
| "coerced py_str (JBool b) = Some (py_str (JBool b))"
| "coerced py_str (JFloat f) = Some (py_str (JFloat f))"
| "coerced py_str _ = None"

definition load_state :: "(json \<Rightarrow> string) \<Rightarrow> backup_loop \<Rightarrow> (string, string) dict" where
  "load_state py_str b =
     (case state_on_disk b of
        State_json (JObj kvs) \<Rightarrow>
          List.map_filter (\<lambda>(k, v). map_option (Pair k) (coerced py_str v)) kvs
      | _ \<Rightarrow> [])"

definition state_json :: "(string, string) dict \<Rightarrow> json" where
  "state_json d = JObj (map (\<lambda>(k, v). (k, JStr v)) d)"

text \<open>\<open>_save_state\<close>: \<open>None\<close> is success; otherwise whether the file had been replaced when it raised.\<close>

definition save_state :: "bool option \<Rightarrow> (string, string) dict \<Rightarrow> backup_loop \<Rightarrow> bool \<times> backup_loop" where
  "save_state fails d b =
     (case fails of
        None \<Rightarrow> (True, b\<lparr>state_on_disk := State_json (state_json d)\<rparr>)
      | Some published \<Rightarrow> (False, if published then b\<lparr>state_on_disk := State_json (state_json d)\<rparr> else b))"

section \<open>Rotation\<close>

text \<open>The glob \<open>{col}.backup.*.tar.gz\<close>; a collection name has no pattern characters.\<close>

definition archive_prefix :: "string \<Rightarrow> string" where
  "archive_prefix col = col @ ''.backup.''"

definition archive_suffix :: string where
  "archive_suffix = ''.tar.gz''"

definition is_archive_of :: "string \<Rightarrow> string \<Rightarrow> bool" where
  "is_archive_of col n \<longleftrightarrow>
     length (archive_prefix col) + length archive_suffix \<le> length n \<and>
     take (length (archive_prefix col)) n = archive_prefix col \<and>
     drop (length n - length archive_suffix) n = archive_suffix"

definition to_delete :: "nat \<Rightarrow> string list \<Rightarrow> string list" where
  "to_delete k names = (if length names > k then take (length names - k) names else [])"

definition rotate :: "(string \<Rightarrow> bool) \<Rightarrow> backup_config \<Rightarrow> string \<Rightarrow> string \<Rightarrow> backup_loop \<Rightarrow> backup_loop" where
  "rotate unlinks c ns col b =
     (if keep c = 0 then b
      else case archives b ns of
             None \<Rightarrow> b
           | Some names \<Rightarrow>
               (let doomed = to_delete (keep c) (sort (filter (is_archive_of col) names))
                in b\<lparr>archives := (archives b)(ns \<mapsto> filter (\<lambda>n. \<not> (n \<in> set doomed \<and> unlinks n)) names)\<rparr>))"

section \<open>One tick\<close>

definition queued_backup_keys :: "job_store \<Rightarrow> (string \<times> string) list" where
  "queued_backup_keys s = map (\<lambda>j. (namespace j, collection j)) (filter (\<lambda>j. source j = ''backup'') (list_queued_bulk s))"

definition archive_path :: "backup_config \<Rightarrow> string \<Rightarrow> string \<Rightarrow> string \<Rightarrow> string" where
  "archive_path c ts ns col = output_dir c @ ''/'' @ ns @ ''/'' @ col @ ''.backup.'' @ ts @ ''.tar.gz''"

text \<open>What one \<open>create_export\<close> meets: the fresh id, the clock, and its two possible writes.\<close>

record enqueue_try =
  new_id :: string
  stamp :: string
  write1 :: write_attempt
  write2 :: write_attempt

definition create_backup ::
    "(string \<Rightarrow> int option) \<Rightarrow> backup_config \<Rightarrow> string \<Rightarrow> enqueue_try \<Rightarrow> string \<Rightarrow> string \<Rightarrow> job_store \<Rightarrow>
     (store_exc + job) \<times> job_store" where
  "create_backup fromiso c ts t ns col s =
     (let path = archive_path c ts ns col
      in create_job fromiso (write1 t) (write2 t)
           (new_export (new_id t) (stamp t) col path (path @ ''.tmp'') ns ''backup'') s)"

datatype skip_reason = Skip_excluded | Already_active | Already_queued | Enqueue_failed

text \<open>The body of the loop over collections, shared by the tick and the route.\<close>

definition enqueue_one ::
    "(string \<Rightarrow> int option) \<Rightarrow> backup_config \<Rightarrow> string \<Rightarrow> (string \<times> string) list \<Rightarrow> enqueue_try \<Rightarrow> string \<Rightarrow> string \<Rightarrow>
     backup_loop \<Rightarrow> job_store \<Rightarrow> (skip_reason + string) \<times> backup_loop \<times> job_store" where
  "enqueue_one fromiso c ts queued t ns col b s =
     (if is_excluded c ns col then (Inl Skip_excluded, b, s)
      else if is_collection_in_flight ns col b then (Inl Already_active, b, s)
      else if (ns, col) \<in> set queued then (Inl Already_queued, b, s)
      else case create_backup fromiso c ts t ns col s of
             (Inl e, s') \<Rightarrow> (Inl Enqueue_failed, b, s')
           | (Inr j, s') \<Rightarrow> (Inr (job_id j), track (job_id j) ns col b, s'))"

fun enqueue_all ::
    "(string \<Rightarrow> int option) \<Rightarrow> backup_config \<Rightarrow> string \<Rightarrow> (string \<times> string) list \<Rightarrow> (string \<times> string \<Rightarrow> enqueue_try) \<Rightarrow>
     (string \<times> string) list \<Rightarrow> backup_loop \<Rightarrow> job_store \<Rightarrow>
     (string \<times> (skip_reason + string)) list \<times> backup_loop \<times> job_store" where
  "enqueue_all fromiso c ts queued tries [] b s = ([], b, s)"
| "enqueue_all fromiso c ts queued tries ((ns, col) # infos) b s =
     (case enqueue_one fromiso c ts queued (tries (ns, col)) ns col b s of
        (r, b', s') \<Rightarrow>
          (case enqueue_all fromiso c ts queued tries infos b' s' of (rs, b'', s'') \<Rightarrow> ((col, r) # rs, b'', s'')))"

text \<open>\<open>_run_one_tick\<close>; the listing is \<open>None\<close> when it raised. An exception that is no \<open>Exception\<close> is not modelled here.\<close>

definition run_one_tick ::
    "(string \<Rightarrow> int option) \<Rightarrow> backup_config \<Rightarrow> string \<Rightarrow> string \<Rightarrow> (string \<times> string \<Rightarrow> enqueue_try) \<Rightarrow>
     (string \<times> string) list option \<Rightarrow> backup_loop \<Rightarrow> job_store \<Rightarrow> backup_loop \<times> job_store" where
  "run_one_tick fromiso c now ts tries listing b s =
     (let b = b\<lparr>last_tick_at := Some now\<rparr>
      in case listing of
           None \<Rightarrow> (b, s)
         | Some infos \<Rightarrow> snd (enqueue_all fromiso c ts (queued_backup_keys s) tries infos b s))"

definition trigger_backup ::
    "(string \<Rightarrow> int option) \<Rightarrow> backup_config \<Rightarrow> string \<Rightarrow> (string \<times> string \<Rightarrow> enqueue_try) \<Rightarrow> string \<Rightarrow>
     (string \<times> string) list \<Rightarrow> backup_loop \<Rightarrow> job_store \<Rightarrow>
     ((string \<times> string) list \<times> (string \<times> skip_reason) list) \<times> backup_loop \<times> job_store" where
  "trigger_backup fromiso c ts tries ns listing b s =
     (case enqueue_all fromiso c ts (queued_backup_keys s) tries (filter (\<lambda>(n, col). n = ns) listing) b s of
        (rs, b', s') \<Rightarrow>
          ((List.map_filter (\<lambda>(col, r). case r of Inr jid \<Rightarrow> Some (col, jid) | Inl _ \<Rightarrow> None) rs,
            List.map_filter (\<lambda>(col, r). case r of Inl why \<Rightarrow> Some (col, why) | Inr _ \<Rightarrow> None) rs), b', s'))"

text \<open>\<open>_startup_overdue_check\<close>: \<open>None\<close> is the \<open>TypeError\<close> of subtracting a time without a zone.\<close>

datatype stamp_reading = Bad_stamp | Naive_stamp | Aware_stamp int

definition hour :: int where
  "hour = 3600 * 1000000"

fun any_overdue :: "(string \<Rightarrow> stamp_reading) \<Rightarrow> int \<Rightarrow> int \<Rightarrow> string list \<Rightarrow> bool option" where
  "any_overdue parse threshold now [] = Some False"
| "any_overdue parse threshold now (t # ts) =
     (case parse t of
        Bad_stamp \<Rightarrow> any_overdue parse threshold now ts
      | Naive_stamp \<Rightarrow> None
      | Aware_stamp n \<Rightarrow> if now - n \<ge> threshold then Some True else any_overdue parse threshold now ts)"

definition startup_overdue_check ::
    "(json \<Rightarrow> string) \<Rightarrow> (string \<Rightarrow> stamp_reading) \<Rightarrow> backup_config \<Rightarrow> int \<Rightarrow> backup_loop \<Rightarrow> bool option" where
  "startup_overdue_check py_str parse c now b =
     (if interval_hours c \<le> 0 then Some False
      else any_overdue parse (interval_hours c * hour) now (dict_values (load_state py_str b)))"

section \<open>The drain\<close>

definition state_key :: "string \<Rightarrow> string \<Rightarrow> string" where
  "state_key ns col = ns @ ''/'' @ col"

definition drop_tracked :: "string \<Rightarrow> backup_loop \<Rightarrow> backup_loop" where
  "drop_tracked jid b = b\<lparr>tracked := dict_del jid (tracked b)\<rparr>"

text \<open>\<open>_drain_completed\<close> over its snapshot of the tracked jobs; \<open>False\<close> is an exception of the state write.\<close>

fun drain ::
    "(json \<Rightarrow> string) \<Rightarrow> (string \<Rightarrow> bool option) \<Rightarrow> (string \<Rightarrow> bool) \<Rightarrow> backup_config \<Rightarrow> job_store \<Rightarrow>
     (string \<times> string \<times> string) list \<Rightarrow> backup_loop \<Rightarrow> bool \<times> backup_loop" where
  "drain py_str saves unlinks c s [] b = (True, b)"
| "drain py_str saves unlinks c s ((jid, ns, col) # rest) b =
     (case get jid s of
        None \<Rightarrow> drain py_str saves unlinks c s rest (drop_tracked jid b)
      | Some j \<Rightarrow>
          (if status j = DONE then
             (case save_state (saves jid) (dict_set (state_key ns col) (updated_at j) (load_state py_str b)) b of
                (False, b') \<Rightarrow> (False, b')
              | (True, b') \<Rightarrow> drain py_str saves unlinks c s rest (drop_tracked jid (rotate unlinks c ns col b')))
           else if status j = FAILED \<or> status j = CANCELLED then drain py_str saves unlinks c s rest (drop_tracked jid b)
           else drain py_str saves unlinks c s rest b))"

definition drain_completed ::
    "(json \<Rightarrow> string) \<Rightarrow> (string \<Rightarrow> bool option) \<Rightarrow> (string \<Rightarrow> bool) \<Rightarrow> backup_config \<Rightarrow> job_store \<Rightarrow> backup_loop \<Rightarrow>
     bool \<times> backup_loop" where
  "drain_completed py_str saves unlinks c s b =
     drain py_str saves unlinks c s (tracked b) b"

end
