(* ===== verification/Backup_Properties.thy ===== *)
theory Backup_Properties
  imports Backup_Loop Job_Machine
begin

text \<open>
  The scheduled backups together with the job store: who gets a backup job and who does not, that a collection never has
  two tracked jobs, that a finished backup is recorded before it is forgotten, and what rotation keeps.
\<close>

section \<open>Dictionaries of tracked jobs\<close>

lemma dict_values_get: "dict_get d k = Some v \<Longrightarrow> v \<in> set (dict_values d)"
  by (force simp: dict_values_def dest: dict_get_SomeD)

lemma dict_values_getI: "dict_ok d \<Longrightarrow> v \<in> set (dict_values d) \<Longrightarrow> \<exists>k. dict_get d k = Some v"
  by (auto simp: dict_values_def dict_get_iff)

lemma dict_values_set_distinct:
  "distinct (dict_values d) \<Longrightarrow> v \<notin> set (dict_values d) \<Longrightarrow> distinct (dict_values (dict_set k v d))"
proof (induction d)
  case (Cons e d)
  have "set (dict_values (dict_set k v d)) \<subseteq> insert v (set (dict_values d))" by (rule dict_values_set_subset)
  then show ?case using Cons by (cases e) (auto simp: dict_set_def dict_values_def)
qed (simp add: dict_set_def dict_values_def)

lemma dict_values_del_distinct: "distinct (dict_values d) \<Longrightarrow> distinct (dict_values (dict_del k d))"
  by (induction d) (auto simp: dict_del_def dict_values_def AList.delete_eq)

section \<open>One tracked job per collection\<close>

definition tracked_once :: "backup_loop \<Rightarrow> bool" where
  "tracked_once b \<longleftrightarrow> dict_ok (tracked b) \<and> distinct (dict_values (tracked b))"

lemma enqueue_one_once:
  assumes "enqueue_one fromiso c ts queued t ns col b s = (r, b', s')" and "tracked_once b"
  shows "tracked_once b'"
  using assms
  by (auto simp: enqueue_one_def tracked_once_def track_def is_collection_in_flight_def
      intro: dict_ok_set dict_values_set_distinct split: if_splits prod.splits sum.splits)

lemma enqueue_all_once:
  "enqueue_all fromiso c ts queued tries infos b s = (rs, b', s') \<Longrightarrow> tracked_once b \<Longrightarrow> tracked_once b'"
proof (induction infos arbitrary: b s rs)
  case (Cons info infos)
  then show ?case by (cases info) (auto split: prod.splits dest: enqueue_one_once)
qed simp

lemma rotate_tracked [simp]: "tracked (rotate u c ns col b) = tracked b"
  by (simp add: rotate_def Let_def split: option.split)

lemma save_state_tracked: "save_state f d b = (ok, b') \<Longrightarrow> tracked b' = tracked b"
  by (auto simp: save_state_def split: option.splits if_splits)

lemma drop_tracked_once: "tracked_once b \<Longrightarrow> tracked_once (drop_tracked jid b)"
  by (auto simp: tracked_once_def drop_tracked_def intro: dict_ok_del dict_values_del_distinct)

lemma tracked_once_cong: "tracked b' = tracked b \<Longrightarrow> tracked_once b' = tracked_once b"
  by (simp add: tracked_once_def)

lemma drain_once: "drain p sv u c s es b = (ok, b') \<Longrightarrow> tracked_once b \<Longrightarrow> tracked_once b'"
proof (induction es arbitrary: b)
  case (Cons e es)
  obtain jid ns col where e: "e = (jid, ns, col)" by (cases e)
  show ?case
  proof (cases "get jid s")
    case None
    then show ?thesis using Cons e drop_tracked_once by auto
  next
    case (Some j)
    obtain ok1 b1 where sv: "save_state (sv jid) (dict_set (state_key ns col) (updated_at j) (load_state p b)) b = (ok1, b1)"
      by fastforce
    have b1: "tracked_once b1" using save_state_tracked [OF sv] Cons.prems(2) tracked_once_cong by blast
    have "tracked_once (drop_tracked jid (rotate u c ns col b1))"
      using b1 tracked_once_cong [of "rotate u c ns col b1" b1] drop_tracked_once by simp
    then show ?thesis using Cons e Some sv b1 drop_tracked_once by (auto split: if_splits bool.splits)
  qed
qed simp

text \<open>The loop and the store as one machine: ticks, manual triggers, drains, anything else the store does, and restarts.\<close>

record backup_world =
  bloop :: backup_loop
  bstore :: job_store

definition new_loop :: "backup_loop \<Rightarrow> backup_loop" where
  "new_loop b = b\<lparr>tracked := [], last_tick_at := None\<rparr>"

inductive backup_step :: "(string \<Rightarrow> int option) \<Rightarrow> backup_config \<Rightarrow> backup_world \<Rightarrow> backup_world \<Rightarrow> bool" for fromiso c where
  tick: "run_one_tick fromiso c now ts tries listing b s = (b', s') \<Longrightarrow>
     backup_step fromiso c \<lparr>bloop = b, bstore = s\<rparr> \<lparr>bloop = b', bstore = s'\<rparr>"
| trigger: "trigger_backup fromiso c ts tries ns infos b s = (answer, b', s') \<Longrightarrow>
     backup_step fromiso c \<lparr>bloop = b, bstore = s\<rparr> \<lparr>bloop = b', bstore = s'\<rparr>"
| drains: "drain_completed p sv u c s b = (ok, b') \<Longrightarrow>
     backup_step fromiso c \<lparr>bloop = b, bstore = s\<rparr> \<lparr>bloop = b', bstore = s\<rparr>"
| store_moves: "store_step fromiso s s' \<Longrightarrow>
     backup_step fromiso c \<lparr>bloop = b, bstore = s\<rparr> \<lparr>bloop = b, bstore = s'\<rparr>"
| restarts: "store_step fromiso s s' \<Longrightarrow>
     backup_step fromiso c \<lparr>bloop = b, bstore = s\<rparr> \<lparr>bloop = new_loop b, bstore = s'\<rparr>"

definition backup_start :: "backup_world \<Rightarrow> bool" where
  "backup_start w \<longleftrightarrow> tracked (bloop w) = []"

interpretation backups: machine_invariant backup_start "backup_step fromiso c" "\<lambda>w. tracked_once (bloop w)" for fromiso c
proof
  show "tracked_once (bloop w)" if "backup_start w" for w
    using that by (simp add: backup_start_def tracked_once_def dict_ok_def dict_values_def)
  show "tracked_once (bloop w')" if "tracked_once (bloop w)" and "backup_step fromiso c w w'" for w w'
    using that(2,1)
  proof (induction rule: backup_step.induct)
    case (tick now ts tries listing b s b' s')
    have "tracked_once (b\<lparr>last_tick_at := Some now\<rparr>)" using tick.prems by (simp add: tracked_once_def)
    then show ?case using tick.hyps enqueue_all_once
      by (auto simp: run_one_tick_def Let_def split: option.splits) (metis prod.collapse)
  next
    case (trigger ts tries ns infos b s answer b' s')
    then show ?case using enqueue_all_once by (auto simp: trigger_backup_def split: prod.splits)
  next
    case (drains p sv u s b ok b')
    then show ?case by (auto simp: drain_completed_def intro: drain_once)
  qed (simp_all add: new_loop_def tracked_once_def dict_ok_def dict_values_def)
qed

section \<open>What a tick creates\<close>

definition live :: "job \<Rightarrow> bool" where
  "live j \<longleftrightarrow> status j \<notin> set terminal_statuses"

definition keeps_live :: "job_store \<Rightarrow> job_store \<Rightarrow> bool" where
  "keeps_live s s' \<longleftrightarrow> (\<forall>k j. get k s = Some j \<longrightarrow> live j \<longrightarrow> get k s' = Some j)"

definition backup_job :: "job_store \<Rightarrow> string \<Rightarrow> string \<Rightarrow> string \<Rightarrow> bool" where
  "backup_job s jid ns col \<longleftrightarrow>
     (\<exists>j. get jid s = Some j \<and> live j \<and> status j = QUEUED \<and> source j = ''backup'' \<and> namespace j = ns \<and> collection j = col)"

lemma backup_job_kept: "backup_job s jid ns col \<Longrightarrow> keeps_live s s' \<Longrightarrow> backup_job s' jid ns col"
  by (auto simp: backup_job_def keeps_live_def)

lemma keeps_live_trans: "keeps_live s t \<Longrightarrow> keeps_live t u \<Longrightarrow> keeps_live s u"
  by (simp add: keeps_live_def)

text \<open>A try that works: its write lands and its stamp is one the clock gives.\<close>

definition try_works :: "(string \<Rightarrow> int option) \<Rightarrow> enqueue_try \<Rightarrow> bool" where
  "try_works fromiso t \<longleftrightarrow> outcome (write1 t) = Persisted \<and> stamp_ok fromiso (stamp t)"

lemma create_backup_works:
  assumes "machine_inv fromiso s" and "try_works fromiso t" and "get (new_id t) s = None"
  obtains s' where "create_backup fromiso c ts t ns col s = (Inr (new_export (new_id t) (stamp t) col (archive_path c ts ns col)
      (archive_path c ts ns col @ ''.tmp'') ns ''backup''), s')"
    and "machine_inv fromiso s'" and "keeps_live s s'" and "backup_job s' (new_id t) ns col"
    and "\<And>k. k \<noteq> new_id t \<Longrightarrow> get k s = None \<Longrightarrow> get k s' = None"
proof -
  let ?j = "new_export (new_id t) (stamp t) col (archive_path c ts ns col) (archive_path c ts ns col @ ''.tmp'') ns ''backup''"
  have f: "job_id ?j = new_id t" "source ?j = ''backup''" "status ?j = QUEUED" "namespace ?j = ns" "collection ?j = col"
      "updated_at ?j = stamp t" by (simp_all add: new_export_def base_job_def)
  have ok: "post_init_ok ?j" using f(2) by (simp add: post_init_ok_def valid_ingest_sources_def)
  have live: "live ?j" using f(3) by (simp add: live_def terminal_statuses_def)
  let ?s = "s\<lparr>jobs := dict_set (job_id ?j) ?j (jobs s)\<rparr>"
  have "jobs_stamped fromiso (jobs ?s)"
    using assms(1,2) f by (simp add: machine_inv_def try_works_def jobs_stamped_set)
  then have "evict_old fromiso (at_time (write1 t)) (jobs ?s) \<noteq> None" using evict_old_stamped by (metis option.distinct(1))
  then obtain s' where w: "write_atomic fromiso (write1 t) ?s = (Inr (), s')"
    using write_atomic_Persisted assms(2) unfolding try_works_def by blast
  then have c: "create_job fromiso (write1 t) (write2 t) ?j s = (Inr ?j, s')" by (simp add: create_job_def)
  have inv: "store_inv s" using assms(1) by (simp add: machine_inv_def)
  have "store_step fromiso s s'" using ok c assms(2) f(6) by (auto simp: try_works_def intro: step_create)
  then have m: "machine_inv fromiso s'" using assms(1) by (rule store_step_machine)
  have ev: "only_evicts ?s s'" using create_job_created [OF c inv ok] by simp
  have bwd: "get k ?s = Some j" if "get k s' = Some j" for k j using ev that unfolding only_evicts_def get_def by blast
  have fwd: "get k s' = Some j" if "get k ?s = Some j" "live j" for k j
    using ev that unfolding only_evicts_def get_def live_def by blast
  have at: "get k ?s = (if k = new_id t then Some ?j else get k s)" for k using f(1) by (simp add: get_def)
  have "keeps_live s s'" unfolding keeps_live_def
  proof (intro allI impI)
    fix k j
    assume "get k s = Some j" "live j"
    then show "get k s' = Some j" using fwd [of k j] at [of k] assms(3) by (cases "k = new_id t") simp_all
  qed
  moreover have "get (new_id t) s' = Some ?j" using fwd [OF _ live] at [of "new_id t"] by simp
  then have "backup_job s' (new_id t) ns col" using f live by (auto simp: backup_job_def)
  moreover have "get k s' = None" if "k \<noteq> new_id t" "get k s = None" for k
    using bwd [of k] at [of k] that by (cases "get k s'") simp_all
  ultimately show thesis using that m c by (simp add: create_backup_def Let_def)
qed

definition tick_result ::
    "backup_config \<Rightarrow> (string \<times> string) list \<Rightarrow> (string \<times> string \<Rightarrow> enqueue_try) \<Rightarrow> (string \<times> string) list \<Rightarrow>
     backup_loop \<Rightarrow> backup_loop \<Rightarrow> job_store \<Rightarrow> bool" where
  "tick_result c queued tries infos b b' s' \<longleftrightarrow>
     (\<forall>(ns, col) \<in> set infos. is_excluded c ns col \<or> is_collection_in_flight ns col b' \<or> (ns, col) \<in> set queued) \<and>
     (\<forall>jid v. dict_get (tracked b) jid = Some v \<longrightarrow> dict_get (tracked b') jid = Some v) \<and>
     (\<forall>jid ns col. dict_get (tracked b') jid = Some (ns, col) \<longrightarrow>
        dict_get (tracked b) jid = Some (ns, col) \<or>
        ((ns, col) \<in> set infos \<and> \<not> is_excluded c ns col \<and> (ns, col) \<notin> set queued \<and> backup_job s' jid ns col))"

lemma in_flight_mono:
  assumes "\<forall>jid v. dict_get (tracked b) jid = Some v \<longrightarrow> dict_get (tracked b') jid = Some v" and "tracked_once b"
    and "is_collection_in_flight ns col b"
  shows "is_collection_in_flight ns col b'"
  using assms dict_values_getI dict_values_get unfolding is_collection_in_flight_def tracked_once_def by metis

lemma enqueue_one_works:
  assumes "enqueue_one fromiso c ts queued t ns col b s = (r, b', s')" and "machine_inv fromiso s" and "try_works fromiso t"
    and "get (new_id t) s = None" and "dict_get (tracked b) (new_id t) = None"
  shows "machine_inv fromiso s' \<and> keeps_live s s' \<and> tick_result c queued (\<lambda>_. t) [(ns, col)] b b' s' \<and>
    (\<forall>k. k \<noteq> new_id t \<longrightarrow> get k s = None \<longrightarrow> get k s' = None) \<and>
    (\<forall>k. k \<noteq> new_id t \<longrightarrow> dict_get (tracked b') k = dict_get (tracked b) k)"
proof (cases "is_excluded c ns col \<or> is_collection_in_flight ns col b \<or> (ns, col) \<in> set queued")
  case True
  then have "b' = b" "s' = s" using assms(1) by (auto simp: enqueue_one_def split: if_splits)
  then show ?thesis using True assms(2) by (auto simp: tick_result_def keeps_live_def)
next
  case False
  obtain s1 where s1: "create_backup fromiso c ts t ns col s = (Inr (new_export (new_id t) (stamp t) col (archive_path c ts ns col)
      (archive_path c ts ns col @ ''.tmp'') ns ''backup''), s1)" "machine_inv fromiso s1" "keeps_live s s1"
      "backup_job s1 (new_id t) ns col" "\<And>k. k \<noteq> new_id t \<Longrightarrow> get k s = None \<Longrightarrow> get k s1 = None"
    using create_backup_works [OF assms(2-4)] by blast
  have "b' = track (new_id t) ns col b" "s' = s1"
    using assms(1) False s1(1) by (auto simp: enqueue_one_def new_export_def base_job_def)
  moreover have "is_collection_in_flight ns col (track (new_id t) ns col b)"
    using dict_values_get [of "dict_set (new_id t) (ns, col) (tracked b)" "new_id t"]
    by (simp add: is_collection_in_flight_def track_def)
  ultimately show ?thesis using s1 False assms(5) by (auto simp: tick_result_def track_def split: if_splits)
qed

lemma enqueue_all_works:
  assumes "enqueue_all fromiso c ts queued tries infos b s = (rs, b', s')" and "machine_inv fromiso s" and "tracked_once b"
    and "distinct infos" and "inj_on (\<lambda>k. new_id (tries k)) (set infos)"
    and "\<forall>k \<in> set infos. try_works fromiso (tries k) \<and> get (new_id (tries k)) s = None \<and> dict_get (tracked b) (new_id (tries k)) = None"
  shows "machine_inv fromiso s' \<and> keeps_live s s' \<and> tick_result c queued tries infos b b' s'"
  using assms
proof (induction infos arbitrary: b s rs)
  case Nil
  then show ?case by (auto simp: tick_result_def keeps_live_def)
next
  case (Cons info infos)
  obtain ns col where i: "info = (ns, col)" by (cases info)
  let ?t = "tries (ns, col)"
  obtain r b1 s1 where one: "enqueue_one fromiso c ts queued ?t ns col b s = (r, b1, s1)" by (metis prod_cases3)
  obtain rs1 where rest: "enqueue_all fromiso c ts queued tries infos b1 s1 = (rs1, b', s')"
    using Cons.prems(1) one i by (auto split: prod.splits)
  have w: "machine_inv fromiso s1" "keeps_live s s1" "tick_result c queued (\<lambda>_. ?t) [(ns, col)] b b1 s1"
      "\<And>k. k \<noteq> new_id ?t \<Longrightarrow> get k s = None \<Longrightarrow> get k s1 = None"
      "\<And>k. k \<noteq> new_id ?t \<Longrightarrow> dict_get (tracked b1) k = dict_get (tracked b) k"
    using enqueue_one_works [OF one Cons.prems(2)] Cons.prems(6) i by auto
  have once: "tracked_once b1" using enqueue_one_once [OF one Cons.prems(3)] .
  have ne: "new_id (tries k) \<noteq> new_id ?t" if "k \<in> set infos" for k
    using that Cons.prems(4,5) i by (auto simp: inj_on_def)
  have fresh: "\<forall>k \<in> set infos. try_works fromiso (tries k) \<and> get (new_id (tries k)) s1 = None \<and>
      dict_get (tracked b1) (new_id (tries k)) = None"
    using Cons.prems(6) w(4,5) ne by simp
  have IH: "machine_inv fromiso s'" "keeps_live s1 s'" "tick_result c queued tries infos b1 b' s'"
    using Cons.IH [OF rest w(1) once _ _ fresh] Cons.prems(4,5) by (auto simp: inj_on_def)
  have "tick_result c queued tries (info # infos) b b' s'"
    unfolding tick_result_def
  proof (intro conjI)
    show "\<forall>(n, k) \<in> set (info # infos). is_excluded c n k \<or> is_collection_in_flight n k b' \<or> (n, k) \<in> set queued"
      using IH(3) w(3) i in_flight_mono [OF _ once] by (auto simp: tick_result_def)
    show "\<forall>jid v. dict_get (tracked b) jid = Some v \<longrightarrow> dict_get (tracked b') jid = Some v"
      using IH(3) w(3) by (simp add: tick_result_def)
    show "\<forall>jid n k. dict_get (tracked b') jid = Some (n, k) \<longrightarrow> dict_get (tracked b) jid = Some (n, k) \<or>
        ((n, k) \<in> set (info # infos) \<and> \<not> is_excluded c n k \<and> (n, k) \<notin> set queued \<and> backup_job s' jid n k)"
    proof (intro allI impI)
      fix jid n k
      assume "dict_get (tracked b') jid = Some (n, k)"
      then consider "dict_get (tracked b1) jid = Some (n, k)"
        | "(n, k) \<in> set infos" "\<not> is_excluded c n k" "(n, k) \<notin> set queued" "backup_job s' jid n k"
        using IH(3) unfolding tick_result_def by blast
      then show "dict_get (tracked b) jid = Some (n, k) \<or>
          ((n, k) \<in> set (info # infos) \<and> \<not> is_excluded c n k \<and> (n, k) \<notin> set queued \<and> backup_job s' jid n k)"
      proof cases
        case 1
        then have "dict_get (tracked b) jid = Some (n, k) \<or>
            ((n, k) = (ns, col) \<and> \<not> is_excluded c n k \<and> (n, k) \<notin> set queued \<and> backup_job s1 jid n k)"
          using w(3) by (simp add: tick_result_def)
        then show ?thesis using backup_job_kept [OF _ IH(2)] i by auto
      qed simp
    qed
  qed
  then show ?case using IH keeps_live_trans w(2) by blast
qed

section \<open>What a drain does\<close>

lemma load_saved: "load_state p (b\<lparr>state_on_disk := State_json (state_json d)\<rparr>) = d"
proof -
  have "List.map_filter (\<lambda>(k, v). map_option (Pair k) (coerced p v)) (map (\<lambda>(k, v). (k, JStr v)) d) = d"
    by (induction d) (auto simp: List.map_filter_simps)
  then show ?thesis by (simp add: load_state_def state_json_def)
qed

lemma load_state_cong: "state_on_disk b' = state_on_disk b \<Longrightarrow> load_state p b' = load_state p b"
  by (simp add: load_state_def)

lemma rotate_state [simp]: "state_on_disk (rotate u c ns col b) = state_on_disk b"
  by (simp add: rotate_def Let_def split: option.split)

lemma drop_tracked_simps [simp]:
  "state_on_disk (drop_tracked jid b) = state_on_disk b"
  "dict_get (tracked (drop_tracked jid b)) k = (if k = jid then None else dict_get (tracked b) k)"
  by (simp_all add: drop_tracked_def)

lemma load_state_loop [simp]:
  "load_state p (drop_tracked jid b) = load_state p b" "load_state p (rotate u c ns col b) = load_state p b"
  by (rule load_state_cong, simp)+

lemma save_state_load:
  assumes "save_state f d b = (ok, b')"
  shows "ok \<Longrightarrow> load_state p b' = d" and "load_state p b' = d \<or> load_state p b' = load_state p b"
proof -
  have "(ok \<longrightarrow> load_state p b' = d) \<and> (load_state p b' = d \<or> load_state p b' = load_state p b)"
  proof (cases f)
    case None
    then have "ok" "b' = b\<lparr>state_on_disk := State_json (state_json d)\<rparr>" using assms by (auto simp: save_state_def)
    then show ?thesis by (simp add: load_saved)
  next
    case (Some x)
    then have "\<not> ok" "b' = (if x then b\<lparr>state_on_disk := State_json (state_json d)\<rparr> else b)"
      using assms by (auto simp: save_state_def)
    then show ?thesis by (simp add: load_saved)
  qed
  then show "ok \<Longrightarrow> load_state p b' = d" and "load_state p b' = d \<or> load_state p b' = load_state p b" by blast+
qed

definition entry_keys :: "(string \<times> string \<times> string) list \<Rightarrow> string set" where
  "entry_keys es = (\<lambda>(jid, ns, col). state_key ns col) ` set es"

text \<open>Entries that are not looked at stay, in the tracker and in the state file.\<close>

lemma drain_frame:
  assumes "drain p sv u c s es b = (ok, b')"
  shows "jid \<notin> fst ` set es \<Longrightarrow> dict_get (tracked b') jid = dict_get (tracked b) jid"
    and "key \<notin> entry_keys es \<Longrightarrow> dict_get (load_state p b') key = dict_get (load_state p b) key"
proof -
  have "(jid \<notin> fst ` set es \<longrightarrow> dict_get (tracked b') jid = dict_get (tracked b) jid) \<and>
      (key \<notin> entry_keys es \<longrightarrow> dict_get (load_state p b') key = dict_get (load_state p b) key)"
    using assms
  proof (induction es arbitrary: b)
    case (Cons e es)
    obtain i ns col where e: "e = (i, ns, col)" by (cases e)
    show ?case
    proof (cases "get i s")
      case None
      then show ?thesis using Cons.IH [of "drop_tracked i b"] Cons.prems e by (auto simp: entry_keys_def)
    next
      case (Some j)
      let ?d = "dict_set (state_key ns col) (updated_at j) (load_state p b)"
      obtain ok1 b1 where sv: "save_state (sv i) ?d b = (ok1, b1)" by fastforce
      note t = save_state_tracked [OF sv] and l = save_state_load(2) [OF sv, of p]
      have key: "dict_get (load_state p b1) key = dict_get (load_state p b) key" if "key \<noteq> state_key ns col"
        using l that by auto
      consider (finished) ok1 "status j = DONE" | (raised) "\<not> ok1" "status j = DONE"
        | (over) "status j = FAILED \<or> status j = CANCELLED" | (live) "status j \<noteq> DONE" "status j \<noteq> FAILED" "status j \<noteq> CANCELLED"
        by blast
      then show ?thesis
      proof cases
        case finished
        then show ?thesis using Cons.IH [of "drop_tracked i (rotate u c ns col b1)"] Cons.prems e Some sv t key
          by (auto simp: entry_keys_def)
      next
        case raised
        then show ?thesis using Cons.prems e Some sv t key by (auto simp: entry_keys_def)
      next
        case over
        then show ?thesis using Cons.IH [of "drop_tracked i b"] Cons.prems e Some by (auto simp: entry_keys_def)
      next
        case live
        then show ?thesis using Cons.IH [of b] Cons.prems e Some by (auto simp: entry_keys_def)
      qed
    qed
  qed simp
  then show "jid \<notin> fst ` set es \<Longrightarrow> dict_get (tracked b') jid = dict_get (tracked b) jid"
    and "key \<notin> entry_keys es \<Longrightarrow> dict_get (load_state p b') key = dict_get (load_state p b) key" by blast+
qed

definition settled :: "job \<Rightarrow> bool" where
  "settled j \<longleftrightarrow> status j = DONE \<or> status j = FAILED \<or> status j = CANCELLED"

lemma drain_entry:
  assumes "drain p sv u c s es b = (ok, b')" and "(jid, ns, col) \<in> set es" and "distinct (map fst es)"
    and "distinct (map (\<lambda>(i, n, k). state_key n k) es)" and "dict_get (tracked b) jid = Some (ns, col)" and "get jid s = Some j"
  shows "(if dict_get (tracked b') jid = None \<and> status j = DONE
          then dict_get (load_state p b') (state_key ns col) = Some (updated_at j) else True) \<and>
    (if ok then (dict_get (tracked b') jid = None) = settled j else True)"
  using assms
proof (induction es arbitrary: b)
  case (Cons e es)
  obtain i n k where e: "e = (i, n, k)" by (cases e)
  show ?case
  proof (cases "i = jid")
    case True
    then have nk: "n = ns" "k = col" using Cons.prems(2,3) e by (auto simp: rev_image_eqI)
    have notin: "jid \<notin> fst ` set es" "state_key ns col \<notin> entry_keys es"
      using Cons.prems(3,4) e True nk by (auto simp: entry_keys_def image_def)
    let ?d = "dict_set (state_key ns col) (updated_at j) (load_state p b)"
    obtain ok1 b1 where sv: "save_state (sv jid) ?d b = (ok1, b1)" by fastforce
    note t = save_state_tracked [OF sv]
    have l: "load_state p b1 = ?d" if ok1 using save_state_load(1) [OF sv that] .
    note fr = drain_frame(1) [OF _ notin(1)] drain_frame(2) [OF _ notin(2)]
    consider (finished) ok1 "status j = DONE" | (raised) "\<not> ok1" "status j = DONE"
      | (over) "status j = FAILED \<or> status j = CANCELLED" | (live) "\<not> settled j" by (auto simp: settled_def)
    then show ?thesis
    proof cases
      case finished
      then have "drain p sv u c s es (drop_tracked jid (rotate u c ns col b1)) = (ok, b')"
        using Cons.prems(1,6) e True nk sv by simp
      from fr [OF this] show ?thesis using finished l by (simp add: settled_def)
    next
      case raised
      then have "ok = False" "b' = b1" using Cons.prems(1,6) e True nk sv by simp_all
      then show ?thesis using t Cons.prems(5) by simp
    next
      case over
      then have "drain p sv u c s es (drop_tracked jid b) = (ok, b')" using Cons.prems(1,6) e True nk by auto
      from fr [OF this] show ?thesis using over by (auto simp: settled_def)
    next
      case live
      then have "drain p sv u c s es b = (ok, b')" using Cons.prems(1,6) e True nk by (auto simp: settled_def)
      from fr [OF this] show ?thesis using live Cons.prems(5) by (simp add: settled_def)
    qed
  next
    case False
    then have m: "(jid, ns, col) \<in> set es" using Cons.prems(2) e by simp
    have d: "distinct (map fst es)" "distinct (map (\<lambda>(i, n, k). state_key n k) es)" using Cons.prems(3,4) by simp_all
    note IH = Cons.IH [OF _ m d _ Cons.prems(6)]
    show ?thesis
    proof (cases "get i s")
      case None
      then show ?thesis using IH [of "drop_tracked i b"] Cons.prems(1,5) e False by simp
    next
      case (Some j')
      obtain ok1 b1 where sv: "save_state (sv i) (dict_set (state_key n k) (updated_at j') (load_state p b)) b = (ok1, b1)" by fastforce
      note t = save_state_tracked [OF sv]
      show ?thesis
        using Cons.prems(1,5) e Some sv t False IH [of "drop_tracked i (rotate u c n k b1)"] IH [of "drop_tracked i b"] IH [of b]
        by (auto split: if_splits bool.splits)
    qed
  qed
qed simp

lemma state_key_inj:
  assumes "CHR ''/'' \<notin> set ns" and "CHR ''/'' \<notin> set ns'" and "state_key ns col = state_key ns' col'"
  shows "(ns, col) = (ns', col')"
proof -
  have tw: "takeWhile (\<lambda>x. x \<noteq> CHR ''/'') (state_key n k) = n" if "CHR ''/'' \<notin> set n" for n k
    using that by (induction n) (auto simp: state_key_def)
  have "ns = ns'" using tw [OF assms(1), of col] tw [OF assms(2), of col'] assms(3) by simp
  then show ?thesis using assms(3) by (simp add: state_key_def)
qed

section \<open>What rotation keeps\<close>

lemma to_delete_keeps:
  assumes "distinct ms"
  shows "filter (\<lambda>n. n \<notin> set (to_delete k ms)) ms = drop (length ms - k) ms"
proof (cases "length ms > k")
  case True
  let ?i = "length ms - k"
  have split: "ms = take ?i ms @ drop ?i ms" by simp
  have disj: "set (take ?i ms) \<inter> set (drop ?i ms) = {}" using assms by (rule set_take_disj_set_drop_if_distinct) simp
  have "filter (\<lambda>n. n \<notin> set (take ?i ms)) (take ?i ms @ drop ?i ms) = drop ?i ms"
    unfolding filter_append using disj by (auto simp: filter_empty_conv filter_id_conv)
  then show ?thesis using True by (simp add: to_delete_def)
qed (simp add: to_delete_def)

section \<open>Properties\<close>

text \<open>
  C14: under every sequence of ticks, manual triggers, drains, restarts and other work of the job store, the loop tracks at most
  one job per collection.
\<close>

theorem one_backup_per_collection:
  assumes "reachable backup_start (backup_step fromiso c) w"
    and "dict_get (tracked (bloop w)) i = Some k" and "dict_get (tracked (bloop w)) j = Some k"
  shows "i = j"
proof -
  have o: "tracked_once (bloop w)" using backups.inv_reachable [OF assms(1)] .
  then have "distinct (map snd (tracked (bloop w)))" "(i, k) \<in> set (tracked (bloop w))" "(j, k) \<in> set (tracked (bloop w))"
    using assms(2,3) by (auto simp: tracked_once_def dict_values_def dict_get_iff)
  then have "(i, k) = (j, k)" by (metis distinct_map inj_onD snd_conv)
  then show ?thesis by simp
qed

text \<open>
  A tick whose writes land misses nobody and disturbs nobody. Every listed collection that is not excluded is then
  tracked, or was queued already; what was tracked stays tracked; each newly tracked job is a queued backup export of a
  listed collection that is not excluded and was not queued; and every live job of the store is still there.
\<close>

lemma tick_backs_up_every_collection:
  assumes "machine_inv fromiso s" and "tracked_once b" and "distinct infos" and "inj_on (\<lambda>k. new_id (tries k)) (set infos)"
    and "\<forall>k \<in> set infos. try_works fromiso (tries k) \<and> get (new_id (tries k)) s = None \<and> dict_get (tracked b) (new_id (tries k)) = None"
    and "run_one_tick fromiso c now ts tries (Some infos) b s = (b', s')"
  shows "(\<forall>(ns, col) \<in> set infos. is_excluded c ns col \<or> is_collection_in_flight ns col b' \<or> (ns, col) \<in> set (queued_backup_keys s)) \<and>
    (\<forall>jid v. dict_get (tracked b) jid = Some v \<longrightarrow> dict_get (tracked b') jid = Some v) \<and>
    (\<forall>jid ns col. dict_get (tracked b') jid = Some (ns, col) \<longrightarrow> dict_get (tracked b) jid = Some (ns, col) \<or>
       ((ns, col) \<in> set infos \<and> \<not> is_excluded c ns col \<and> (ns, col) \<notin> set (queued_backup_keys s) \<and> backup_job s' jid ns col)) \<and>
    keeps_live s s'"
proof -
  let ?b = "b\<lparr>last_tick_at := Some now\<rparr>"
  have t: "tracked ?b = tracked b" by simp
  obtain rs where e: "enqueue_all fromiso c ts (queued_backup_keys s) tries infos ?b s = (rs, b', s')"
    using assms(6) by (auto simp: run_one_tick_def Let_def) (metis prod.collapse)
  have "machine_inv fromiso s' \<and> keeps_live s s' \<and> tick_result c (queued_backup_keys s) tries infos ?b b' s'"
    by (rule enqueue_all_works [OF e assms(1) _ assms(3,4)]) (use assms(2,5) in \<open>simp_all add: tracked_once_def\<close>)
  then show ?thesis unfolding tick_result_def t by blast
qed

text \<open>
  A finished backup is written to the state file before it is forgotten. After a drain, also one that stopped at a
  failing write, a completed job that is no longer tracked has its time in the state file; and a drain that ran through
  has dropped exactly the jobs that are done, failed or cancelled.
\<close>

lemma completed_backups_are_recorded:
  assumes "tracked_once b" and "\<forall>(ns, col) \<in> set (dict_values (tracked b)). CHR ''/'' \<notin> set ns"
    and "drain_completed p sv u c s b = (ok, b')" and "dict_get (tracked b) jid = Some (ns, col)" and "get jid s = Some j"
  shows "(if dict_get (tracked b') jid = None \<and> status j = DONE
          then dict_get (load_state p b') (state_key ns col) = Some (updated_at j) else True) \<and>
    (if ok then (dict_get (tracked b') jid = None) = settled j else True)"
proof (rule drain_entry)
  show "drain p sv u c s (tracked b) b = (ok, b')" using assms(3) by (simp add: drain_completed_def)
  show "(jid, ns, col) \<in> set (tracked b)" using assms(4) by (rule dict_get_SomeD)
  show "distinct (map fst (tracked b))" using assms(1) by (simp add: tracked_once_def dict_ok_def)
  show "distinct (map (\<lambda>(i, n, k). state_key n k) (tracked b))"
  proof -
    have d: "distinct (map snd (tracked b))" using assms(1) by (simp add: tracked_once_def dict_values_def)
    have "inj_on (\<lambda>(n, k). state_key n k) (set (map snd (tracked b)))"
    proof (rule inj_onI)
      fix x y
      assume xy: "x \<in> set (map snd (tracked b))" "y \<in> set (map snd (tracked b))"
        "(case x of (n, k) \<Rightarrow> state_key n k) = (case y of (n, k) \<Rightarrow> state_key n k)"
      obtain n k n' k' where p: "x = (n, k)" "y = (n', k')" by (cases x, cases y)
      have "CHR ''/'' \<notin> set n" "CHR ''/'' \<notin> set n'" using xy(1,2) p assms(2) unfolding dict_values_def by auto
      then show "x = y" using state_key_inj [of n n' k k'] xy(3) p by simp
    qed
    then have "distinct (map (\<lambda>(n, k). state_key n k) (map snd (tracked b)))" using d distinct_map [of _ "map snd (tracked b)"] by blast
    then show ?thesis by (simp add: comp_def case_prod_unfold)
  qed
qed (use assms in simp_all)

text \<open>
  Rotation keeps the newest archives. When the deletions work, exactly the last \<open>keep\<close> archives of the collection in
  name order, which is time order, are left; files of other collections and all other files stay.
\<close>

lemma rotation_keeps_newest:
  assumes "keep c > 0" and "archives b ns = Some names" and "distinct names" and "\<forall>n. unlinks n"
    and "rotate unlinks c ns col b = b'"
  shows "\<exists>names'. archives b' ns = Some names' \<and>
    sort (filter (is_archive_of col) names') =
      (let ms = sort (filter (is_archive_of col) names) in drop (length ms - keep c) ms) \<and>
    filter (\<lambda>n. \<not> is_archive_of col n) names' = filter (\<lambda>n. \<not> is_archive_of col n) names \<and>
    (\<forall>ns'. ns' \<noteq> ns \<longrightarrow> archives b' ns' = archives b ns')"
proof -
  define ms where "ms = sort (filter (is_archive_of col) names)"
  define doomed where "doomed = to_delete (keep c) ms"
  let ?names = "filter (\<lambda>n. n \<notin> set doomed) names"
  have b': "b' = b\<lparr>archives := (archives b)(ns \<mapsto> ?names)\<rparr>"
    using assms by (auto simp: rotate_def Let_def ms_def doomed_def)
  have sub: "set doomed \<subseteq> set ms" by (auto simp: doomed_def to_delete_def dest: in_set_takeD)
  then have arch: "is_archive_of col n" if "n \<in> set doomed" for n using that by (auto simp: ms_def)
  have "sort (filter (is_archive_of col) ?names) = filter (\<lambda>n. n \<notin> set doomed) ms"
    unfolding ms_def filter_sort by (simp add: conj_commute)
  also have "\<dots> = drop (length ms - keep c) ms"
    unfolding doomed_def by (rule to_delete_keeps) (use assms(3) in \<open>simp add: ms_def\<close>)
  finally have 1: "sort (filter (is_archive_of col) ?names) = drop (length ms - keep c) ms" .
  have 2: "filter (\<lambda>n. \<not> is_archive_of col n) ?names = filter (\<lambda>n. \<not> is_archive_of col n) names"
    using arch by (auto simp: intro!: filter_cong)
  show ?thesis using 1 2 b' by (simp add: ms_def Let_def)
qed

section \<open>Concrete runs\<close>

definition demo_config :: backup_config where
  "demo_config = \<lparr>interval_hours = 24, keep = 2, exclude = [''logs''], output_dir = ''/b''\<rparr>"

definition idle_loop :: backup_loop where
  "idle_loop = \<lparr>tracked = [], state_on_disk = No_state, archives = Map.empty, last_tick_at = None\<rparr>"

definition demo_try :: "string \<times> string \<Rightarrow> enqueue_try" where
  "demo_try k =
     \<lparr>new_id = snd k, stamp = ''t'', write1 = \<lparr>at_time = 0, outcome = Persisted\<rparr>, write2 = \<lparr>at_time = 0, outcome = Persisted\<rparr>\<rparr>"

definition empty_store :: job_store where
  "empty_store = \<lparr>jobs = [], jfile = No_file, crashed_ingest_on_load = False\<rparr>"

definition tick_once :: "backup_loop \<times> job_store" where
  "tick_once = run_one_tick (\<lambda>_. Some 0) demo_config ''t'' ''T'' demo_try (Some [(''default'', ''docs''), (''default'', ''logs'')]) idle_loop empty_store"

lemma empty_store_inv: "machine_inv (\<lambda>_. Some 0) empty_store"
  by (rule jobs_machine.inv_init) (simp add: fresh_install_def empty_store_def)

lemma idle_once: "tracked_once idle_loop"
  by (simp add: tracked_once_def idle_loop_def dict_ok_def dict_values_def)

lemma tick_once_pair: "run_one_tick (\<lambda>_. Some 0) demo_config ''t'' ''T'' demo_try (Some [(''default'', ''docs''), (''default'', ''logs'')])
   idle_loop empty_store = (fst tick_once, snd tick_once)"
  by (simp add: tick_once_def)

theorem tick_backs_up_every_collection_witness:
  "is_collection_in_flight ''default'' ''docs'' (fst tick_once) \<and> keeps_live empty_store (snd tick_once)"
proof -
  have "\<not> is_excluded demo_config ''default'' ''docs''" "(''default'', ''docs'') \<notin> set (queued_backup_keys empty_store)" by code_simp+
  moreover have "\<forall>k \<in> set [(''default'', ''docs''), (''default'', ''logs'')]. try_works (\<lambda>_. Some 0) (demo_try k) \<and>
      get (new_id (demo_try k)) empty_store = None \<and> dict_get (tracked idle_loop) (new_id (demo_try k)) = None"
    by (simp add: try_works_def demo_try_def stamp_ok_def get_def empty_store_def idle_loop_def)
  moreover have "inj_on (\<lambda>k. new_id (demo_try k)) (set [(''default'', ''docs''), (''default'', ''logs'')])"
    by (simp add: demo_try_def)
  ultimately show ?thesis
    using tick_backs_up_every_collection [OF empty_store_inv idle_once _ _ _ tick_once_pair] by simp
qed

theorem one_backup_per_collection_witness:
  "reachable backup_start (backup_step (\<lambda>_. Some 0) demo_config) \<lparr>bloop = fst tick_once, bstore = snd tick_once\<rparr> \<and>
   dict_get (tracked (fst tick_once)) ''docs'' = Some (''default'', ''docs'') \<and> ''docs'' = ''docs''"
proof -
  have "backup_start \<lparr>bloop = idle_loop, bstore = empty_store\<rparr>" by (simp add: backup_start_def idle_loop_def)
  then have "reachable backup_start (backup_step (\<lambda>_. Some 0) demo_config) \<lparr>bloop = idle_loop, bstore = empty_store\<rparr>"
    by (rule reach_init)
  then have r: "reachable backup_start (backup_step (\<lambda>_. Some 0) demo_config) \<lparr>bloop = fst tick_once, bstore = snd tick_once\<rparr>"
    by (rule reach_step) (rule backup_step.tick [OF tick_once_pair])
  have d: "dict_get (tracked (fst tick_once)) ''docs'' = Some (''default'', ''docs'')" by code_simp
  show ?thesis using r d one_backup_per_collection [OF r, of "''docs''" "(''default'', ''docs'')" "''docs''"] by simp
qed

definition done_store :: job_store where
  "done_store = (snd tick_once)\<lparr>jobs := map (\<lambda>(k, j). (k, j\<lparr>status := DONE\<rparr>)) (jobs (snd tick_once))\<rparr>"

definition drained :: "bool \<times> backup_loop" where
  "drained = drain_completed (\<lambda>_. []) (\<lambda>_. None) (\<lambda>_. True) demo_config done_store (fst tick_once)"

theorem completed_backups_are_recorded_witness:
  "fst drained \<and> dict_get (tracked (snd drained)) ''docs'' = None \<and>
   dict_get (load_state (\<lambda>_. []) (snd drained)) (state_key ''default'' ''docs'') = Some ''t''"
proof -
  have f: "dict_get (tracked (fst tick_once)) ''docs'' = Some (''default'', ''docs'')"
    "map_option updated_at (get ''docs'' done_store) = Some ''t''" "map_option status (get ''docs'' done_store) = Some DONE"
    "fst drained" "list_all (\<lambda>(ns, col). CHR ''/'' \<notin> set ns) (dict_values (tracked (fst tick_once)))"
    by code_simp+
  then obtain j where j: "get ''docs'' done_store = Some j" "updated_at j = ''t''" "status j = DONE" by auto
  have once: "tracked_once (fst tick_once)"
    by (simp add: tracked_once_def dict_ok_def) code_simp
  have d: "drain_completed (\<lambda>_. []) (\<lambda>_. None) (\<lambda>_. True) demo_config done_store (fst tick_once) = (fst drained, snd drained)"
    by (simp add: drained_def)
  have "\<forall>(ns, col) \<in> set (dict_values (tracked (fst tick_once))). CHR ''/'' \<notin> set ns" using f(5) by (simp add: list_all_iff)
  from completed_backups_are_recorded [OF once this d f(1) j(1)] f(4) j(2,3) show ?thesis by (simp add: settled_def)
qed

theorem rotation_keeps_newest_witness:
  "archives (rotate (\<lambda>_. True) demo_config ''default'' ''docs''
     (idle_loop\<lparr>archives := [''default'' \<mapsto> [''docs.backup.3.tar.gz'', ''docs.backup.1.tar.gz'', ''docs.backup.2.tar.gz'', ''x'']]\<rparr>)) ''default'' \<noteq> None"
  using rotation_keeps_newest [of demo_config
      "idle_loop\<lparr>archives := [''default'' \<mapsto> [''docs.backup.3.tar.gz'', ''docs.backup.1.tar.gz'', ''docs.backup.2.tar.gz'', ''x'']]\<rparr>"
      "''default''" "[''docs.backup.3.tar.gz'', ''docs.backup.1.tar.gz'', ''docs.backup.2.tar.gz'', ''x'']" "\<lambda>_. True" "''docs''", OF _ _ _ _ refl]
  by (auto simp: demo_config_def)

end
