(* ===== verification/Sync_Names.thy ===== *)
theory Sync_Names
  imports Path_Safety Names
begin

text \<open>
  The pure half of \<open>archon_search/sync.py\<close>: from configured paths to collection names, and the order of ingestion.

  \<open>resolve\<close> stands for \<open>Path(p).expanduser().resolve()\<close>, \<open>sha\<close> for the first six hexadecimal digits of \<open>hashlib.sha1\<close>.
  A resolved path is the list of its components below the root; \<open>str\<close> of it is \<open>path_str\<close>, its \<open>parts\<close> are the root
  and the components.
\<close>

type_synonym resolver = "string \<Rightarrow> abs_path"

definition path_str :: "abs_path \<Rightarrow> string" where
  "path_str p = (if p = [] then ''/'' else concat (map (\<lambda>c. CHR ''/'' # c) p))"

definition path_parts :: "abs_path \<Rightarrow> string list" where
  "path_parts p = ''/'' # p"

section \<open>Names\<close>

definition is_slug_char :: "char \<Rightarrow> bool" where
  "is_slug_char c \<longleftrightarrow> 97 \<le> ord c \<and> ord c \<le> 122 \<or> is_digit c"

text \<open>\<open>re.sub(r"[^a-z0-9]+", "_", s)\<close>\<close>

function sub_runs :: "string \<Rightarrow> string" where
  "sub_runs [] = []"
| "sub_runs (c # cs) =
     (if is_slug_char c then c # sub_runs cs
      else CHR ''_'' # sub_runs (dropWhile (\<lambda>d. \<not> is_slug_char d) cs))"
  by pat_completeness auto
termination
  by (relation "measure length") (auto simp: le_imp_less_Suc length_dropWhile_le)

definition strip_underscores :: "string \<Rightarrow> string" where
  "strip_underscores s =
     rev (dropWhile (\<lambda>c. c = CHR ''_'') (rev (dropWhile (\<lambda>c. c = CHR ''_'') s)))"

definition sanitize :: "string \<Rightarrow> string" where
  "sanitize raw =
     (let name = strip_underscores (sub_runs (py_lower raw)) in if name = [] then ''collection'' else name)"

definition path_to_collection_name :: "resolver \<Rightarrow> string \<Rightarrow> string" where
  "path_to_collection_name resolve path = sanitize (path_name (resolve path))"

definition last_parts :: "nat \<Rightarrow> 'a list \<Rightarrow> 'a list" where
  "last_parts n xs = drop (length xs - n) xs"

definition name_at_depth :: "abs_path \<Rightarrow> nat \<Rightarrow> string" where
  "name_at_depth p depth = sanitize (py_join ''_'' (last_parts depth (path_parts p)))"

section \<open>The wanted collections\<close>

text \<open>The keys of a dictionary filled in order: first occurrences.\<close>

definition dedup :: "'a list \<Rightarrow> 'a list" where
  "dedup xs = rev (remdups (rev xs))"

text \<open>
  One round of the collision loop. The list of names is changed while it is walked, but only at the current place and
  before it, so the walk sees the names of the round's start.
\<close>

fun deepen ::
    "nat \<Rightarrow> abs_path list \<Rightarrow> (string, nat) dict \<Rightarrow> nat \<Rightarrow> string list \<Rightarrow> string list \<Rightarrow> string list" where
  "deepen depth paths seen i [] names = names"
| "deepen depth paths seen i (name # rest) names =
     (case dict_get seen name of
        Some prev \<Rightarrow>
          deepen depth paths seen (Suc i) rest
            (names[i := name_at_depth (paths ! i) (Suc depth), prev := name_at_depth (paths ! prev) (Suc depth)])
      | None \<Rightarrow> deepen depth paths (dict_set name i seen) (Suc i) rest names)"

text \<open>The fallback after the last round: every name that still occurs twice is replaced by base name and hash.\<close>

definition hashed_name :: "(string \<Rightarrow> string) \<Rightarrow> abs_path \<Rightarrow> string" where
  "hashed_name sha p = sanitize (path_name p) @ ''_'' @ sha (path_str p)"

definition hash_fallback :: "(string \<Rightarrow> string) \<Rightarrow> abs_path list \<Rightarrow> string list \<Rightarrow> string list" where
  "hash_fallback sha paths names =
     map (\<lambda>(p, n). if count_list names n > 1 then hashed_name sha p else n) (zip paths names)"

function collision_loop ::
    "(string \<Rightarrow> string) \<Rightarrow> nat \<Rightarrow> abs_path list \<Rightarrow> nat \<Rightarrow> string list \<Rightarrow> string list" where
  "collision_loop sha max_depth paths depth names =
     (if depth \<le> max_depth then
        (if distinct names then names
         else collision_loop sha max_depth paths (Suc depth) (deepen depth paths [] 0 names names))
      else hash_fallback sha paths names)"
  by pat_completeness auto
termination
  by (relation "measure (\<lambda>(sha, max_depth, paths, depth, names). Suc max_depth - depth)") auto

declare collision_loop.simps [simp del]

definition wanted_names :: "(string \<Rightarrow> string) \<Rightarrow> abs_path list \<Rightarrow> string list" where
  "wanted_names sha paths =
     collision_loop sha (foldl max 0 (map (\<lambda>p. length (path_parts p)) paths)) paths 1
       (map (\<lambda>p. sanitize (path_name p)) paths)"

text \<open>\<open>build_desired\<close>: a resolved path resolves to itself, so the base name of a resolved path is that of the path.\<close>

definition build_desired :: "resolver \<Rightarrow> (string \<Rightarrow> string) \<Rightarrow> string list \<Rightarrow> (string, abs_path) dict" where
  "build_desired resolve sha collections =
     (let paths = dedup (map resolve collections)
      in if collections = [] then [] else dict_set_all (zip (wanted_names sha paths) paths) [])"

section \<open>The order of ingestion\<close>

fun pinned_names :: "resolver \<Rightarrow> (abs_path, string) dict \<Rightarrow> string set \<Rightarrow> string list \<Rightarrow> string list \<Rightarrow> string list" where
  "pinned_names resolve path_to_name to_add [] acc = acc"
| "pinned_names resolve path_to_name to_add (p # ps) acc =
     pinned_names resolve path_to_name to_add ps
       (case dict_get path_to_name (resolve p) of
          Some name \<Rightarrow> if name \<in> to_add \<and> name \<notin> set acc then acc @ [name] else acc
        | None \<Rightarrow> acc)"

definition sort_ingestion_order :: "resolver \<Rightarrow> string list \<Rightarrow> string set \<Rightarrow> (string, abs_path) dict \<Rightarrow> string list" where
  "sort_ingestion_order resolve pinned to_add desired =
     (if pinned = [] then sorted_list_of_set to_add
      else
        (let path_to_name = dict_set_all (map (\<lambda>(n, p). (p, n)) desired) [];
             first = pinned_names resolve path_to_name to_add pinned []
         in first @ sorted_list_of_set (to_add - set first)))"

section \<open>Facts about names\<close>

definition slug :: "string \<Rightarrow> bool" where
  "slug s \<longleftrightarrow>
     s \<noteq> [] \<and> hd s \<noteq> CHR ''_'' \<and> last s \<noteq> CHR ''_'' \<and> list_all (\<lambda>c. is_slug_char c \<or> c = CHR ''_'') s \<and>
     \<not> py_contains s ''__''"

lemma ord_underscore: "ord (CHR ''_'') = 95"
  by (simp add: ord_def)

lemma underscore_no_slug [simp]: "\<not> is_slug_char (CHR ''_'')"
  by (simp add: is_slug_char_def is_digit_def ord_underscore)

lemma sub_runs_chars: "c \<in> set (sub_runs s) \<Longrightarrow> is_slug_char c \<or> c = CHR ''_''"
  by (induction s rule: sub_runs.induct) (auto split: if_splits)

lemma sub_runs_hd: "s \<noteq> [] \<Longrightarrow> is_slug_char (hd s) \<Longrightarrow> hd (sub_runs s) = hd s"
  by (cases s) auto

lemma sub_runs_Nil [simp]: "sub_runs s = [] \<longleftrightarrow> s = []"
  by (cases s) auto

lemma no_double_Cons: "\<not> sublist ''__'' s \<Longrightarrow> c \<noteq> CHR ''_'' \<or> s = [] \<or> hd s \<noteq> CHR ''_'' \<Longrightarrow> \<not> sublist ''__'' (c # s)"
  by (cases s) (auto simp: sublist_Cons_right)

lemma sub_runs_single: "\<not> sublist ''__'' (sub_runs s)"
proof (induction s rule: sub_runs.induct)
  case (2 c cs)
  show ?case
  proof (cases "is_slug_char c")
    case True
    then have "c \<noteq> CHR ''_''" by auto
    with True 2 show ?thesis by (simp add: no_double_Cons)
  next
    case False
    let ?r = "dropWhile (\<lambda>d. \<not> is_slug_char d) cs"
    have "?r \<noteq> [] \<Longrightarrow> is_slug_char (hd ?r)" using hd_dropWhile [of "\<lambda>d. \<not> is_slug_char d" cs] by blast
    then have "sub_runs ?r = [] \<or> hd (sub_runs ?r) \<noteq> CHR ''_''"
      using sub_runs_hd [of ?r] by (metis sub_runs_Nil underscore_no_slug)
    moreover from False 2 have "\<not> sublist ''__'' (sub_runs ?r)" by simp
    ultimately have "\<not> sublist ''__'' (CHR ''_'' # sub_runs ?r)" by (intro no_double_Cons) blast+
    with False show ?thesis by simp
  qed
qed simp

lemma strip_sublist: "sublist (strip_underscores s) s"
proof -
  let ?d = "dropWhile (\<lambda>c. c = CHR ''_'') s" and ?P = "\<lambda>c. c = CHR ''_''"
  have "suffix (dropWhile ?P (rev ?d)) (rev ?d)" by (rule suffix_dropWhile)
  then have "prefix (strip_underscores s) ?d" by (simp add: strip_underscores_def suffix_to_prefix)
  moreover have "suffix ?d s" by (rule suffix_dropWhile)
  ultimately show ?thesis by (metis prefix_imp_sublist suffix_imp_sublist sublist_order.order.trans)
qed

lemma strip_ends:
  assumes "strip_underscores s \<noteq> []"
  shows "hd (strip_underscores s) \<noteq> CHR ''_''" "last (strip_underscores s) \<noteq> CHR ''_''"
proof -
  let ?P = "\<lambda>c. c = CHR ''_''" let ?d = "dropWhile ?P s" let ?e = "dropWhile ?P (rev ?d)"
  from assms have e: "?e \<noteq> []" by (simp add: strip_underscores_def)
  then have "hd ?e \<noteq> CHR ''_''" by (rule hd_dropWhile)
  with e show "last (strip_underscores s) \<noteq> CHR ''_''" by (simp add: strip_underscores_def last_rev)
  have "?d \<noteq> []" using e by (cases ?d) simp_all
  then have h: "hd ?d \<noteq> CHR ''_''" by (rule hd_dropWhile)
  have "suffix ?e (rev ?d)" by (rule suffix_dropWhile)
  then have "prefix (rev ?e) ?d" by (simp add: suffix_to_prefix)
  then obtain r where r: "?d = rev ?e @ r" by (rule prefixE)
  have "hd (rev ?e) = hd ?d" by (subst (2) r) (simp only: hd_append rev_is_Nil_conv e if_False)
  with h show "hd (strip_underscores s) \<noteq> CHR ''_''" by (simp add: strip_underscores_def)
qed

lemma sublist_set: "sublist xs ys \<Longrightarrow> set xs \<subseteq> set ys"
  by (auto simp: sublist_def)

lemma slug_collection: "slug ''collection''"
  by code_simp

lemma sanitize_slug: "slug (sanitize raw)"
proof (cases "strip_underscores (sub_runs (py_lower raw)) = []")
  case True
  then show ?thesis by (simp add: sanitize_def slug_collection)
next
  case False
  let ?s = "sub_runs (py_lower raw)" let ?n = "strip_underscores ?s"
  have s: "sublist ?n ?s" by (rule strip_sublist)
  have "list_all (\<lambda>c. is_slug_char c \<or> c = CHR ''_'') ?n"
    using sublist_set [OF s] sub_runs_chars [of _ "py_lower raw"] by (auto simp: list_all_iff)
  moreover have "\<not> py_contains ?n ''__''"
    using sub_runs_single [of "py_lower raw"] s by (auto simp: py_contains_iff dest: sublist_order.order.trans)
  moreover have "sanitize raw = ?n" using False by (simp add: sanitize_def)
  ultimately show ?thesis using False strip_ends [OF False] by (simp add: slug_def)
qed

end
