(* ===== verification/Progress.thy ===== *)
theory Progress
  imports Py_Strings
begin

text \<open>
  \<open>archon_search/progress.py\<close>: how far each collection is indexed, and the file it is kept in.

  The reader takes any JSON value. Floats are tags (theory \<open>Prelude\<close>), so the two conversions it makes are arguments,
  collected in \<open>float_ops\<close>: \<open>float(n)\<close> of an integer, which overflows for a huge one, and \<open>int(x)\<close> of a float, which
  has no value for a NaN (\<open>ValueError\<close>) and overflows for an infinity (\<open>OverflowError\<close>, not caught by \<open>_safe_int\<close>).
  The fields the reader copies unchecked (\<open>started_at\<close>, \<open>completed_at\<close>, \<open>error\<close>, \<open>last_updated\<close>) are JSON values.
\<close>

datatype float_int = Whole int | No_number | Infinite

record float_ops =
  float_of_int :: "int \<Rightarrow> int option"
  int_of_float :: "int \<Rightarrow> float_int"

datatype indexing_status = Ix_pending | Ix_in_progress | Ix_done | Ix_failed

definition ix_value :: "indexing_status \<Rightarrow> string" where
  "ix_value s =
     (case s of Ix_pending \<Rightarrow> ''pending'' | Ix_in_progress \<Rightarrow> ''in_progress'' | Ix_done \<Rightarrow> ''done'' | Ix_failed \<Rightarrow> ''failed'')"

definition ix_of_json :: "json \<Rightarrow> indexing_status" where
  "ix_of_json j =
     (if j = JStr ''in_progress'' then Ix_in_progress
      else if j = JStr ''done'' then Ix_done
      else if j = JStr ''failed'' then Ix_failed
      else Ix_pending)"

record collection_progress =
  cp_status :: indexing_status
  cp_total :: int
  cp_processed :: int
  cp_started :: json
  cp_completed :: json
  cp_error :: json
  cp_error_count :: int
  cp_paths :: "string list"
  cp_mtimes :: "(string, int) dict"
  cp_hashes :: "(string, string) dict"
  cp_model :: string
  cp_chunk_size :: "int option"

text \<open>The dataclass with its defaults.\<close>

definition new_progress :: "indexing_status \<Rightarrow> collection_progress" where
  "new_progress s =
     \<lparr>cp_status = s, cp_total = 0, cp_processed = 0, cp_started = JNull, cp_completed = JNull, cp_error = JNull,
      cp_error_count = 0, cp_paths = [], cp_mtimes = [], cp_hashes = [], cp_model = [], cp_chunk_size = None\<rparr>"

record indexing_state =
  ix_collections :: "(string, collection_progress) dict"
  ix_updated :: json
  ix_trigger :: "string option"

definition empty_state :: "string \<Rightarrow> indexing_state" where
  "empty_state now = \<lparr>ix_collections = [], ix_updated = JStr now, ix_trigger = None\<rparr>"

section \<open>Writing and reading the JSON\<close>

definition opt_json :: "('a \<Rightarrow> json) \<Rightarrow> 'a option \<Rightarrow> json" where
  "opt_json f v = (case v of None \<Rightarrow> JNull | Some x \<Rightarrow> f x)"

definition progress_json :: "collection_progress \<Rightarrow> json" where
  "progress_json cp =
     JObj [(''status'', JStr (ix_value (cp_status cp))),
           (''total_files'', JInt (cp_total cp)),
           (''processed_files'', JInt (cp_processed cp)),
           (''started_at'', cp_started cp),
           (''completed_at'', cp_completed cp),
           (''error'', cp_error cp),
           (''error_count'', JInt (cp_error_count cp)),
           (''processed_paths'', JArr (map JStr (cp_paths cp))),
           (''file_mtimes'', JObj (map (\<lambda>(k, v). (k, JFloat v)) (cp_mtimes cp))),
           (''file_hashes'', JObj (map (\<lambda>(k, v). (k, JStr v)) (cp_hashes cp))),
           (''indexed_embedding_model'', JStr (cp_model cp)),
           (''indexed_chunk_size'', opt_json JInt (cp_chunk_size cp))]"

definition to_dict :: "indexing_state \<Rightarrow> json" where
  "to_dict s =
     JObj [(''last_updated'', ix_updated s),
           (''trigger'', opt_json JStr (ix_trigger s)),
           (''collections'', JObj (map (\<lambda>(k, cp). (k, progress_json cp)) (ix_collections s)))]"

text \<open>\<open>raw.get(k, default)\<close>, and \<open>_safe_int\<close>; \<open>None\<close> is the \<open>OverflowError\<close> that escapes it.\<close>

definition obj_get :: "(string \<times> json) list \<Rightarrow> string \<Rightarrow> json \<Rightarrow> json" where
  "obj_get kvs k d = (case dict_get kvs k of None \<Rightarrow> d | Some v \<Rightarrow> v)"

fun safe_int :: "float_ops \<Rightarrow> json \<Rightarrow> int option" where
  "safe_int fl (JInt n) = Some n"
| "safe_int fl (JBool b) = Some (if b then 1 else 0)"
| "safe_int fl (JFloat f) = (case int_of_float fl f of Whole n \<Rightarrow> Some n | No_number \<Rightarrow> Some 0 | Infinite \<Rightarrow> None)"
| "safe_int fl (JStr s) = (case py_int s of None \<Rightarrow> Some 0 | Some n \<Rightarrow> Some n)"
| "safe_int fl _ = Some 0"

fun all_strs :: "json list \<Rightarrow> string list option" where
  "all_strs [] = Some []"
| "all_strs (JStr s # js) = map_option ((#) s) (all_strs js)"
| "all_strs (_ # js) = None"

definition paths_of_json :: "json \<Rightarrow> string list" where
  "paths_of_json j = (case j of JArr js \<Rightarrow> (case all_strs js of None \<Rightarrow> [] | Some ps \<Rightarrow> ps) | _ \<Rightarrow> [])"

definition is_number :: "json \<Rightarrow> bool" where
  "is_number j = (case j of JInt _ \<Rightarrow> True | JFloat _ \<Rightarrow> True | _ \<Rightarrow> False)"

definition py_float :: "float_ops \<Rightarrow> json \<Rightarrow> int option" where
  "py_float fl j = (case j of JInt n \<Rightarrow> float_of_int fl n | JFloat f \<Rightarrow> Some f | _ \<Rightarrow> None)"

fun floats_of :: "float_ops \<Rightarrow> (string \<times> json) list \<Rightarrow> (string, int) dict option" where
  "floats_of fl [] = Some []"
| "floats_of fl ((k, v) # kvs) =
     (case py_float fl v of None \<Rightarrow> None | Some f \<Rightarrow> map_option ((#) (k, f)) (floats_of fl kvs))"

definition mtimes_of_json :: "float_ops \<Rightarrow> json \<Rightarrow> (string, int) dict option" where
  "mtimes_of_json fl j =
     (case j of JObj kvs \<Rightarrow> if list_all (\<lambda>(k, v). is_number v) kvs then floats_of fl kvs else Some [] | _ \<Rightarrow> Some [])"

definition hashes_of_json :: "json \<Rightarrow> (string, string) dict" where
  "hashes_of_json j =
     (case j of
        JObj kvs \<Rightarrow> (case all_strs (map snd kvs) of None \<Rightarrow> [] | Some vs \<Rightarrow> zip (map fst kvs) vs)
      | _ \<Rightarrow> [])"

text \<open>The body of the loop over the collections; \<open>None\<close> is an exception that ends \<open>from_dict\<close>.\<close>

definition progress_of_json :: "float_ops \<Rightarrow> (string \<times> json) list \<Rightarrow> collection_progress option" where
  "progress_of_json fl raw =
     (case mtimes_of_json fl (obj_get raw ''file_mtimes'' (JObj [])) of
        None \<Rightarrow> None
      | Some ms \<Rightarrow>
          (case safe_int fl (obj_get raw ''total_files'' (JInt 0)) of
             None \<Rightarrow> None
           | Some t \<Rightarrow>
               (case safe_int fl (obj_get raw ''processed_files'' (JInt 0)) of
                  None \<Rightarrow> None
                | Some p \<Rightarrow>
                    (case safe_int fl (obj_get raw ''error_count'' (JInt 0)) of
                       None \<Rightarrow> None
                     | Some ec \<Rightarrow>
                         (case safe_int fl (obj_get raw ''indexed_chunk_size'' JNull) of
                            None \<Rightarrow> None
                          | Some cs \<Rightarrow>
                              Some \<lparr>cp_status = ix_of_json (obj_get raw ''status'' (JStr ''pending'')),
                                    cp_total = t,
                                    cp_processed = p,
                                    cp_started = obj_get raw ''started_at'' JNull,
                                    cp_completed = obj_get raw ''completed_at'' JNull,
                                    cp_error = obj_get raw ''error'' JNull,
                                    cp_error_count = ec,
                                    cp_paths = paths_of_json (obj_get raw ''processed_paths'' (JArr [])),
                                    cp_mtimes = ms,
                                    cp_hashes = hashes_of_json (obj_get raw ''file_hashes'' (JObj [])),
                                    cp_model =
                                      (case obj_get raw ''indexed_embedding_model'' (JStr []) of JStr m \<Rightarrow> m | _ \<Rightarrow> []),
                                    cp_chunk_size = (if cs = 0 then None else Some cs)\<rparr>)))))"

fun collections_of :: "float_ops \<Rightarrow> (string \<times> json) list \<Rightarrow> (string, collection_progress) dict option" where
  "collections_of fl [] = Some []"
| "collections_of fl ((name, JObj raw) # rest) =
     (case progress_of_json fl raw of
        None \<Rightarrow> None
      | Some cp \<Rightarrow> map_option ((#) (name, cp)) (collections_of fl rest))"
| "collections_of fl (_ # rest) = collections_of fl rest"

definition from_dict :: "float_ops \<Rightarrow> string \<Rightarrow> json \<Rightarrow> indexing_state" where
  "from_dict fl now j =
     (case j of
        JObj kvs \<Rightarrow>
          (case obj_get kvs ''collections'' (JObj []) of
             JObj cs \<Rightarrow>
               (case collections_of fl cs of
                  None \<Rightarrow> empty_state now
                | Some d \<Rightarrow>
                    \<lparr>ix_collections = d,
                     ix_updated = obj_get kvs ''last_updated'' (JStr now),
                     ix_trigger = json_str (obj_get kvs ''trigger'' JNull)\<rparr>)
           | _ \<Rightarrow> empty_state now)
      | _ \<Rightarrow> empty_state now)"

section \<open>The store\<close>

text \<open>
  The state file as the reader meets it. \<open>read_text\<close> of a file that is not UTF-8 raises \<open>UnicodeDecodeError\<close>, which
  \<open>read\<close> does not catch; everything else it meets is a value. \<open>Inl ()\<close> is that exception.
\<close>

datatype progress_file = Absent | Unreadable | Not_utf8 | Not_json | Json_file json

definition read_state :: "float_ops \<Rightarrow> string \<Rightarrow> progress_file \<Rightarrow> unit + indexing_state option" where
  "read_state fl now f =
     (case f of
        Absent \<Rightarrow> Inr None
      | Unreadable \<Rightarrow> Inr None
      | Not_utf8 \<Rightarrow> Inl ()
      | Not_json \<Rightarrow> Inr None
      | Json_file j \<Rightarrow> Inr (Some (from_dict fl now j)))"

text \<open>
  The mutators run under one lock, so each is one step. The argument of a write says how it ends: \<open>None\<close> is success, \<open>Some b\<close> an
  exception, after the new file was published when \<open>b\<close> holds. The result is whether the call returned.
\<close>

definition write_state :: "bool option \<Rightarrow> indexing_state \<Rightarrow> progress_file \<Rightarrow> bool \<times> progress_file" where
  "write_state w s f =
     (case w of
        None \<Rightarrow> (True, Json_file (to_dict s))
      | Some published \<Rightarrow> (False, if published then Json_file (to_dict s) else f))"

definition change_state ::
    "float_ops \<Rightarrow> string \<Rightarrow> bool option \<Rightarrow> (indexing_state \<Rightarrow> indexing_state) \<Rightarrow> progress_file \<Rightarrow> bool \<times> progress_file" where
  "change_state fl now w g f =
     (case read_state fl now f of
        Inl e \<Rightarrow> (False, f)
      | Inr s \<Rightarrow> write_state w (g (case s of None \<Rightarrow> empty_state now | Some st \<Rightarrow> st)) f)"

definition update_collection ::
    "float_ops \<Rightarrow> string \<Rightarrow> bool option \<Rightarrow> string \<Rightarrow> collection_progress \<Rightarrow> progress_file \<Rightarrow> bool \<times> progress_file" where
  "update_collection fl now w name cp =
     change_state fl now w (\<lambda>s. s\<lparr>ix_collections := dict_set name cp (ix_collections s), ix_updated := JStr now\<rparr>)"

definition set_trigger ::
    "float_ops \<Rightarrow> string \<Rightarrow> bool option \<Rightarrow> string option \<Rightarrow> progress_file \<Rightarrow> bool \<times> progress_file" where
  "set_trigger fl now w t = change_state fl now w (\<lambda>s. s\<lparr>ix_trigger := t, ix_updated := JStr now\<rparr>)"

definition remove_collection ::
    "float_ops \<Rightarrow> string \<Rightarrow> bool option \<Rightarrow> string \<Rightarrow> progress_file \<Rightarrow> bool \<times> progress_file" where
  "remove_collection fl now w name f =
     (case read_state fl now f of
        Inl e \<Rightarrow> (False, f)
      | Inr None \<Rightarrow> (True, f)
      | Inr (Some s) \<Rightarrow>
          (if dict_get (ix_collections s) name = None then (True, f)
           else write_state w (s\<lparr>ix_collections := dict_del name (ix_collections s), ix_updated := JStr now\<rparr>) f))"

definition reset_progress :: "collection_progress \<Rightarrow> collection_progress" where
  "reset_progress cp =
     (new_progress Ix_pending)
       \<lparr>cp_total := cp_total cp, cp_processed := cp_processed cp, cp_paths := cp_paths cp, cp_mtimes := cp_mtimes cp,
        cp_hashes := cp_hashes cp, cp_model := cp_model cp, cp_chunk_size := cp_chunk_size cp\<rparr>"

definition reset_in_progress ::
    "float_ops \<Rightarrow> string \<Rightarrow> bool option \<Rightarrow> (collection_progress \<Rightarrow> bool) \<Rightarrow> progress_file \<Rightarrow> bool \<times> progress_file" where
  "reset_in_progress fl now w predicate f =
     (case read_state fl now f of
        Inl e \<Rightarrow> (False, f)
      | Inr None \<Rightarrow> (True, f)
      | Inr (Some s) \<Rightarrow>
          (if filter (\<lambda>(k, cp). predicate cp) (ix_collections s) = [] then (True, f)
           else write_state w
                  (s\<lparr>ix_collections :=
                       map (\<lambda>(k, cp). (k, if predicate cp then reset_progress cp else cp)) (ix_collections s),
                     ix_updated := JStr now\<rparr>) f))"

section \<open>The estimate\<close>

text \<open>
  \<open>parse\<close> is \<open>fromisoformat\<close> with a naive stamp read as UTC, in microseconds; a value that is no string is a
  \<open>TypeError\<close>, which is caught. \<open>seconds\<close> is the floating-point \<open>int(remaining / (processed / elapsed))\<close>.
\<close>

definition compute_eta_seconds ::
    "(string \<Rightarrow> int option) \<Rightarrow> (int \<Rightarrow> int \<Rightarrow> int \<Rightarrow> int) \<Rightarrow> int \<Rightarrow> collection_progress \<Rightarrow> int option" where
  "compute_eta_seconds parse seconds now cp =
     (if cp_status cp \<noteq> Ix_in_progress then None
      else if cp_processed cp < 10 then None
      else if cp_processed cp \<ge> cp_total cp then None
      else case cp_started cp of
             JStr s \<Rightarrow>
               (case parse s of
                  None \<Rightarrow> None
                | Some started \<Rightarrow>
                    (if now - started \<le> 0 then None
                     else Some (max 0 (seconds (cp_processed cp) (cp_total cp - cp_processed cp) (now - started)))))
           | _ \<Rightarrow> None)"

section \<open>Facts\<close>

lemma all_strs_map [simp]: "all_strs (map JStr ps) = Some ps"
  by (induction ps) simp_all

lemma all_strs_length: "all_strs js = Some vs \<Longrightarrow> length vs = length js"
  by (induction js arbitrary: vs rule: all_strs.induct) auto

lemma floats_of_map [simp]: "floats_of fl (map (\<lambda>(k, v). (k, JFloat v)) d) = Some d"
  by (induction d) (auto simp: py_float_def)

lemma ix_roundtrip [simp]: "ix_of_json (JStr (ix_value s)) = s"
  by (cases s) (simp_all add: ix_of_json_def ix_value_def)

lemma mtimes_roundtrip [simp]: "mtimes_of_json fl (JObj (map (\<lambda>(k, v). (k, JFloat v)) d)) = Some d"
proof -
  have "list_all (\<lambda>(k, v). is_number v) (map (\<lambda>(k, v). (k, JFloat v)) d)"
    by (induction d) (auto simp: is_number_def)
  then show ?thesis by (simp add: mtimes_of_json_def)
qed

lemma hashes_roundtrip [simp]: "hashes_of_json (JObj (map (\<lambda>(k, v). (k, JStr v)) d)) = d"
proof -
  have "map snd (map (\<lambda>(k, v). (k, JStr v)) d) = map JStr (map snd d)"
    and "map fst (map (\<lambda>(k, v). (k, JStr v)) d) = map fst d" by (induction d) auto
  then show ?thesis by (simp only: hashes_of_json_def json.case all_strs_map option.case zip_map_fst_snd)
qed

text \<open>What the store can hold: a recorded chunk size is never 0, which the reader takes for unknown.\<close>

definition progress_ok :: "collection_progress \<Rightarrow> bool" where
  "progress_ok cp \<longleftrightarrow> cp_chunk_size cp \<noteq> Some 0"

definition state_ok :: "indexing_state \<Rightarrow> bool" where
  "state_ok s \<longleftrightarrow> list_all (\<lambda>(k, cp). progress_ok cp) (ix_collections s)"

text \<open>What a reader gets back of an entry.\<close>

definition read_back :: "collection_progress \<Rightarrow> collection_progress" where
  "read_back cp = cp\<lparr>cp_chunk_size := (if cp_chunk_size cp = Some 0 then None else cp_chunk_size cp)\<rparr>"

lemma read_back_simps [simp]:
  "cp_status (read_back cp) = cp_status cp" "cp_paths (read_back cp) = cp_paths cp" "cp_mtimes (read_back cp) = cp_mtimes cp"
  "cp_model (read_back cp) = cp_model cp"
  by (simp_all add: read_back_def)

lemma read_back_id: "progress_ok cp \<Longrightarrow> read_back cp = cp"
  by (simp add: read_back_def progress_ok_def)

lemma progress_roundtrip:
  assumes "progress_json cp = JObj raw"
  shows "progress_of_json fl raw = Some (read_back cp)"
proof (cases "cp_chunk_size cp")
  case None
  with assms show ?thesis
    by (auto simp: progress_json_def progress_of_json_def obj_get_def opt_json_def paths_of_json_def read_back_def)
next
  case (Some n)
  with assms show ?thesis
    by (auto simp: progress_json_def progress_of_json_def obj_get_def opt_json_def paths_of_json_def read_back_def)
qed

lemma collections_read_back:
  "collections_of fl (map (\<lambda>(k, cp). (k, progress_json cp)) d) = Some (map (\<lambda>(k, cp). (k, read_back cp)) d)"
proof (induction d)
  case (Cons e d)
  obtain k cp where e: "e = (k, cp)" by (cases e)
  obtain raw where raw: "progress_json cp = JObj raw" by (simp add: progress_json_def)
  from Cons e raw progress_roundtrip [OF raw] show ?case by simp
qed simp

lemma collections_read_back_id:
  "list_all (\<lambda>(k, cp). progress_ok cp) d \<Longrightarrow> map (\<lambda>(k, cp). (k, read_back cp)) d = d"
  by (induction d) (auto simp: read_back_id)

lemma state_read_back:
  "from_dict fl now (to_dict s) = s\<lparr>ix_collections := map (\<lambda>(k, cp). (k, read_back cp)) (ix_collections s)\<rparr>"
  by (cases s, cases "ix_trigger s")
    (simp_all add: from_dict_def to_dict_def obj_get_def opt_json_def collections_read_back)

lemma state_roundtrip: "state_ok s \<Longrightarrow> from_dict fl now (to_dict s) = s"
  by (simp add: state_read_back state_ok_def collections_read_back_id)

lemma progress_of_json_ok: "progress_of_json fl raw = Some cp \<Longrightarrow> progress_ok cp"
  by (auto simp: progress_of_json_def progress_ok_def split: option.splits if_splits)

lemma collections_of_ok: "collections_of fl cs = Some d \<Longrightarrow> list_all (\<lambda>(k, cp). progress_ok cp) d"
  by (induction fl cs arbitrary: d rule: collections_of.induct)
    (auto split: option.splits dest: progress_of_json_ok)

lemma from_dict_ok: "state_ok (from_dict fl now j)"
  by (auto simp: from_dict_def empty_state_def state_ok_def split: json.split option.split dest: collections_of_ok)

lemma collections_of_keys: "collections_of fl cs = Some d \<Longrightarrow> set (map fst d) \<subseteq> set (map fst cs)"
proof (induction fl cs arbitrary: d rule: collections_of.induct)
  case (2 fl name raw rest)
  from 2(2) obtain cp d' where d: "progress_of_json fl raw = Some cp" "d = (name, cp) # d'" "collections_of fl rest = Some d'"
    by (auto split: option.splits)
  from 2(1) [OF d(1,3)] d(2) show ?case by auto
qed auto

lemma collections_of_distinct: "collections_of fl cs = Some d \<Longrightarrow> distinct (map fst cs) \<Longrightarrow> distinct (map fst d)"
proof (induction fl cs arbitrary: d rule: collections_of.induct)
  case (2 fl name raw rest)
  from 2(2) obtain cp d' where d: "progress_of_json fl raw = Some cp" "d = (name, cp) # d'" "collections_of fl rest = Some d'"
    by (auto split: option.splits)
  with 2(1) [OF d(1,3)] 2(3) collections_of_keys [OF d(3)] show ?case by auto
qed auto

text \<open>The state a mutator works on, and what a reader sees after it.\<close>

definition seen_state :: "float_ops \<Rightarrow> string \<Rightarrow> progress_file \<Rightarrow> indexing_state" where
  "seen_state fl now f =
     (case read_state fl now f of Inr (Some s) \<Rightarrow> s | _ \<Rightarrow> empty_state now)"

definition seen_progress :: "float_ops \<Rightarrow> progress_file \<Rightarrow> string \<Rightarrow> collection_progress option" where
  "seen_progress fl f name = dict_get (ix_collections (seen_state fl [] f)) name"

lemma seen_state_ok: "state_ok (seen_state fl now f)"
  using from_dict_ok [unfolded state_ok_def]
  by (auto simp: seen_state_def read_state_def empty_state_def state_ok_def split: progress_file.split)

lemma from_dict_collections: "ix_collections (from_dict fl now j) = ix_collections (from_dict fl now' j)"
  by (auto simp: from_dict_def empty_state_def split: json.split option.split)

lemma seen_collections: "ix_collections (seen_state fl now f) = ix_collections (seen_state fl now' f)"
  by (auto simp: seen_state_def read_state_def empty_state_def split: progress_file.split intro: from_dict_collections)

lemma seen_progress_eq: "seen_progress fl f name = dict_get (ix_collections (seen_state fl now f)) name"
  unfolding seen_progress_def by (subst seen_collections [of fl "[]" f now]) (rule refl)

lemma seen_json: "state_ok s \<Longrightarrow> seen_state fl now (Json_file (to_dict s)) = s"
  by (simp add: seen_state_def read_state_def state_roundtrip)

lemma dict_get_read_back:
  "dict_get (map (\<lambda>(k, cp). (k, read_back cp)) d) n = map_option read_back (dict_get d n)"
  by (induction d) auto

lemma seen_progress_ok: "seen_progress fl f n = Some cp \<Longrightarrow> progress_ok cp"
  using seen_state_ok [of fl "[]" f]
  by (auto simp: seen_progress_def state_ok_def list_all_iff dest: dict_get_SomeD)

lemma seen_written:
  "seen_progress fl (Json_file (to_dict s)) n = map_option read_back (dict_get (ix_collections s) n)"
  by (simp add: seen_progress_def seen_state_def read_state_def state_read_back dict_get_read_back)

text \<open>An update changes what is seen of its own collection only, and only when its write lands.\<close>

lemma seen_update:
  "seen_progress fl (snd (update_collection fl now w name cp f)) n =
     (if n = name \<and> f \<noteq> Not_utf8 \<and> w \<noteq> Some False then Some (read_back cp) else seen_progress fl f n)"
proof -
  let ?s = "seen_state fl now f"
  let ?new = "Json_file (to_dict (?s\<lparr>ix_collections := dict_set name cp (ix_collections ?s), ix_updated := JStr now\<rparr>))"
  have keep: "map_option read_back (seen_progress fl f n) = seen_progress fl f n"
    by (cases "seen_progress fl f n") (auto simp: read_back_id dest: seen_progress_ok)
  have new: "seen_progress fl ?new n = (if n = name then Some (read_back cp) else seen_progress fl f n)"
    using keep by (simp add: seen_written seen_progress_eq [of fl f n now])
  have "snd (update_collection fl now w name cp f) = (if f \<noteq> Not_utf8 \<and> w \<noteq> Some False then ?new else f)"
    by (cases f; cases w) (auto simp: update_collection_def change_state_def write_state_def read_state_def seen_state_def)
  then show ?thesis using new by (cases "n = name") simp_all
qed

end
