(* ===== verification/Sync_Changes.thy ===== *)
theory Sync_Changes
  imports Sync_Names Discovery Progress Collection_Meta
begin

text \<open>
  Indexing one collection: \<open>_iter_eligible_files\<close>, \<open>_check_collection_changes\<close>, \<open>_apply_collection_changes\<close> and
  \<open>_ingest_collection\<close> of \<open>archon_search/sync.py\<close>, with the loop of \<open>SearchPipeline.ingest_directory\<close>.

  A file is \<open>str\<close> of its path. What the file system says of it at some moment is a \<open>file_view\<close>: the resolved path, which is
  the key of its recorded time and of its document, and its modification time, \<open>None\<close> when \<open>stat\<close> raises. What a collection holds
  is a map from keys to documents; a document is known by the modification time of the content that was read and by the model
  that embedded it. Parsing, embedding and storing one file is an argument, an \<open>ingest_outcome\<close>: it says how the
  call ends and, when it did not succeed, what it left of the file's document.
\<close>

type_synonym doc = "int \<times> string"
type_synonym docs = "string \<Rightarrow> doc option"

record file_view =
  fv_key :: "string \<Rightarrow> string"
  fv_mtime :: "string \<Rightarrow> int option"

text \<open>The two ways out of a coroutine that does not return: an \<open>Exception\<close>, or one that is none (a cancellation).\<close>

datatype exit = Raised | Cancelled

datatype ingest_outcome = Ingest_ok int | Ingest_soft "doc option" | Ingest_exit exit "doc option"

record sync_env =
  ev_floats :: float_ops
  ev_now :: string
  ev_has_store :: bool
  ev_chunk_size :: int
  ev_auto_reindex :: bool
  ev_global :: string
  ev_loads :: "string \<Rightarrow> bool"

section \<open>The files of a collection\<close>

text \<open>An entry of \<open>path.glob("**/*")\<close> with its components below the root.\<close>

record glob_entry =
  ge_parts :: "string list"
  ge_symlink :: bool
  ge_file :: bool

definition is_eligible :: "glob_entry \<Rightarrow> bool" where
  "is_eligible e \<longleftrightarrow>
     \<not> ge_symlink e \<and> ge_file e \<and> \<not> is_hidden (ge_parts e) \<and>
     py_lower (path_suffix (path_name (ge_parts e))) \<notin> set binary_extensions"

definition iter_eligible_files :: "abs_path \<Rightarrow> glob_entry list \<Rightarrow> abs_path list" where
  "iter_eligible_files root entries = sort (map (\<lambda>e. root @ ge_parts e) (filter is_eligible entries))"

section \<open>What changed\<close>

definition active_model :: "collection_meta option \<Rightarrow> string" where
  "active_model meta = (case meta of None \<Rightarrow> [] | Some m \<Rightarrow> m_active_model m)"

definition force_full_reindex :: "sync_env \<Rightarrow> string \<Rightarrow> int option \<Rightarrow> collection_meta option \<Rightarrow> bool" where
  "force_full_reindex env indexed_model indexed_size meta \<longleftrightarrow>
     active_model meta \<noteq> indexed_model \<and> indexed_model \<noteq> [] \<or>
     (case indexed_size of None \<Rightarrow> ev_auto_reindex env | Some n \<Rightarrow> ev_chunk_size env \<noteq> n \<and> ev_auto_reindex env)"

record change_set =
  new_files :: "string list"
  changed_files :: "string list"
  deleted_paths :: "string list"
  forced :: bool

definition looks_changed :: "file_view \<Rightarrow> (string, int) dict \<Rightarrow> string \<Rightarrow> bool" where
  "looks_changed v mtimes f \<longleftrightarrow> (case fv_mtime v f of None \<Rightarrow> True | Some t \<Rightarrow> dict_get mtimes (fv_key v f) \<noteq> Some t)"

definition check_collection_changes ::
    "sync_env \<Rightarrow> file_view \<Rightarrow> string list \<Rightarrow> (string, int) dict \<Rightarrow> string \<Rightarrow> int option \<Rightarrow> collection_meta option \<Rightarrow> change_set" where
  "check_collection_changes env v eligible mtimes indexed_model indexed_size meta =
     (let keys = map (fv_key v) eligible;
          deleted = filter (\<lambda>k. k \<notin> set keys) (dict_keys mtimes)
      in if force_full_reindex env indexed_model indexed_size meta
         then \<lparr>new_files = [], changed_files = eligible, deleted_paths = deleted, forced = True\<rparr>
         else \<lparr>new_files = filter (\<lambda>f. dict_get mtimes (fv_key v f) = None) eligible,
               changed_files = filter (\<lambda>f. dict_get mtimes (fv_key v f) \<noteq> None \<and> looks_changed v mtimes f) eligible,
               deleted_paths = deleted, forced = False\<rparr>)"

section \<open>Ingesting one file\<close>

text \<open>The embedder of a collection: its own model, or the global one when it has none or it cannot be loaded.\<close>

definition chosen_embedder :: "sync_env \<Rightarrow> string \<Rightarrow> string" where
  "chosen_embedder env active =
     (if active = [] \<or> active = ev_global env then ev_global env
      else if ev_loads env active then active else ev_global env)"

text \<open>
  \<open>SearchPipeline.ingest_file\<close>: the ownership check comes first and may raise; an access-list sidecar is then accepted and
  nothing is stored for it.
\<close>

definition ingest_file ::
    "(string \<Rightarrow> ingest_outcome) \<Rightarrow> string \<Rightarrow> string \<Rightarrow> string \<Rightarrow> docs \<Rightarrow> exit option \<times> bool \<times> docs" where
  "ingest_file outcome embedder f key d =
     (case outcome key of
        Ingest_exit x left \<Rightarrow> (Some x, False, d(key := left))
      | Ingest_soft left \<Rightarrow> if py_endswith f ''.acl'' then (None, True, d) else (None, False, d(key := left))
      | Ingest_ok t \<Rightarrow> (None, True, if py_endswith f ''.acl'' then d else d(key \<mapsto> (t, embedder))))"

section \<open>Applying changes\<close>

definition checkpoint_files :: nat where
  "checkpoint_files = 50"

definition safe_state_update ::
    "sync_env \<Rightarrow> bool option \<Rightarrow> string \<Rightarrow> collection_progress \<Rightarrow> progress_file \<Rightarrow> progress_file" where
  "safe_state_update env w name cp f =
     (if ev_has_store env then snd (update_collection (ev_floats env) (ev_now env) w name cp f) else f)"

text \<open>
  What the environment does during one run: how each deletion and each ingest ends, what \<open>stat\<close> says afterwards, whether the text
  index can be refreshed, whether the settling of the row is cancelled, and how each write of the state file ends
  (the first, the one after \<open>n\<close> files, the last).
\<close>

record apply_try =
  at_delete :: "string \<Rightarrow> (exit \<times> doc option) option"
  at_ingest :: "string \<Rightarrow> ingest_outcome"
  at_stat :: "string \<Rightarrow> int option"
  at_refresh :: "exit option"
  at_settle_cancelled :: bool
  at_save :: "nat \<Rightarrow> bool option"
  at_last_save :: "bool option"

record apply_state =
  as_mtimes :: "(string, int) dict"
  as_paths :: "string list"
  as_count :: nat
  as_docs :: docs
  as_file :: progress_file

definition applied_progress :: "sync_env \<Rightarrow> string \<Rightarrow> indexing_status \<Rightarrow> apply_state \<Rightarrow> collection_progress" where
  "applied_progress env model st a =
     (new_progress st)
       \<lparr>cp_total := int (length (as_mtimes a)), cp_processed := int (length (as_mtimes a)), cp_paths := as_paths a,
        cp_mtimes := as_mtimes a, cp_model := model, cp_chunk_size := Some (ev_chunk_size env)\<rparr>"

text \<open>One more file is done; every fiftieth time the state is written.\<close>

definition count_file :: "sync_env \<Rightarrow> string \<Rightarrow> string \<Rightarrow> apply_try \<Rightarrow> apply_state \<Rightarrow> apply_state" where
  "count_file env name model t a =
     (let a = a\<lparr>as_count := Suc (as_count a)\<rparr>
      in if as_count a mod checkpoint_files = 0
         then a\<lparr>as_file := safe_state_update env (at_save t (as_count a)) name (applied_progress env model Ix_in_progress a) (as_file a)\<rparr>
         else a)"

definition delete_step ::
    "sync_env \<Rightarrow> string \<Rightarrow> string \<Rightarrow> apply_try \<Rightarrow> string \<Rightarrow> apply_state \<Rightarrow> exit option \<times> apply_state" where
  "delete_step env name model t path a =
     (case at_delete t path of
        Some (x, left) \<Rightarrow> (Some x, a\<lparr>as_docs := (as_docs a)(path := left)\<rparr>)
      | None \<Rightarrow>
          (None, count_file env name model t
                   (a\<lparr>as_docs := (as_docs a)(path := None), as_mtimes := dict_del path (as_mtimes a),
                      as_paths := remove1 path (as_paths a)\<rparr>)))"

definition append_new :: "'a \<Rightarrow> 'a list \<Rightarrow> 'a list" where
  "append_new x xs = (if x \<in> set xs then xs else xs @ [x])"

text \<open>The bodies of the loops over changed and over new files; they differ in what a soft failure does.\<close>

definition file_step ::
    "sync_env \<Rightarrow> file_view \<Rightarrow> string \<Rightarrow> string \<Rightarrow> apply_try \<Rightarrow> bool \<Rightarrow> string \<Rightarrow> apply_state \<Rightarrow> exit option \<times> apply_state" where
  "file_step env v name model t is_changed f a =
     (let key = fv_key v f
      in case ingest_file (at_ingest t) (chosen_embedder env model) f key (as_docs a) of
           (Some x, _, d) \<Rightarrow> (Some x, a\<lparr>as_docs := d\<rparr>)
         | (None, ok, d) \<Rightarrow>
             (None, count_file env name model t
                (if ok then
                   a\<lparr>as_docs := d,
                     as_mtimes := (case at_stat t f of None \<Rightarrow> as_mtimes a | Some m \<Rightarrow> dict_set key m (as_mtimes a)),
                     as_paths := append_new key (as_paths a)\<rparr>
                 else
                   a\<lparr>as_docs := d, as_paths := (if is_changed then remove1 key (as_paths a) else as_paths a)\<rparr>)))"

text \<open>The body of the \<open>try\<close>: deletions, changed files, new files, the text index, the settling of the row.\<close>

definition apply_loops ::
    "sync_env \<Rightarrow> file_view \<Rightarrow> string \<Rightarrow> string \<Rightarrow> apply_try \<Rightarrow> change_set \<Rightarrow> apply_state \<Rightarrow> exit option \<times> apply_state" where
  "apply_loops env v name model t ch a =
     (case run_all (delete_step env name model t) (deleted_paths ch) a of
        (Some x, a) \<Rightarrow> (Some x, a)
      | (None, a) \<Rightarrow>
          (case run_all (file_step env v name model t True) (changed_files ch) a of
             (Some x, a) \<Rightarrow> (Some x, a)
           | (None, a) \<Rightarrow>
               (case run_all (file_step env v name model t False) (new_files ch) a of
                  (Some x, a) \<Rightarrow> (Some x, a)
                | (None, a) \<Rightarrow>
                    (case at_refresh t of
                       Some x \<Rightarrow> (Some x, a)
                     | None \<Rightarrow> if at_settle_cancelled t then (Some Cancelled, a) else (None, a)))))"

text \<open>\<open>{name!r}\<close>: a collection name has no character that \<open>repr\<close> escapes.\<close>

definition py_repr :: "string \<Rightarrow> string" where
  "py_repr name = CHR 0x27 # name @ [CHR 0x27]"

definition sync_failed_detail :: "string \<Rightarrow> string" where
  "sync_failed_detail name = ''sync of collection '' @ py_repr name @ '' failed; see the server log for details''"

text \<open>How a write of a collection ends: it returns \<open>None\<close>, it returns its error, or an exception leaves it.\<close>

datatype write_result = Written | Write_failed | Write_raised | Write_cancelled

definition apply_collection_changes ::
    "sync_env \<Rightarrow> file_view \<Rightarrow> string \<Rightarrow> apply_try \<Rightarrow> change_set \<Rightarrow> (string, int) dict \<Rightarrow> collection_meta option \<Rightarrow>
     docs \<Rightarrow> progress_file \<Rightarrow> write_result \<times> docs \<times> progress_file" where
  "apply_collection_changes env v name t ch mtimes meta d file =
     (let model = active_model meta
      in case (if ev_has_store env then read_state (ev_floats env) (ev_now env) file else Inr None) of
           Inl _ \<Rightarrow> (Write_raised, d, file)
         | Inr s \<Rightarrow>
             (let paths = (case s of
                             None \<Rightarrow> []
                           | Some st \<Rightarrow> (case dict_get (ix_collections st) name of None \<Rightarrow> [] | Some cp \<Rightarrow> cp_paths cp));
                  a = \<lparr>as_mtimes = mtimes, as_paths = paths, as_count = 0, as_docs = d, as_file = file\<rparr>;
                  a = a\<lparr>as_file := safe_state_update env (at_save t 0) name (applied_progress env model Ix_in_progress a) file\<rparr>
              in case apply_loops env v name model t ch a of
                   (Some Cancelled, a) \<Rightarrow> (Write_cancelled, as_docs a, as_file a)
                 | (Some Raised, a) \<Rightarrow>
                     (Write_failed, as_docs a,
                      safe_state_update env (at_last_save t) name
                        ((applied_progress env model Ix_failed a)\<lparr>cp_error := JStr (sync_failed_detail name)\<rparr>) (as_file a))
                 | (None, a) \<Rightarrow>
                     (Written, as_docs a,
                      safe_state_update env (at_last_save t) name (applied_progress env model Ix_done a) (as_file a))))"

section \<open>The first ingest and its resumption\<close>

text \<open>
  \<open>ig_listing\<close> is what \<open>_discover_ingest_files\<close> gives \<open>ingest_directory\<close> after the ownership check, or how one of them exits.
  \<open>ig_finish\<close> is how the settling after the last file ends; it runs when a file was stored. \<open>ig_view\<close> is the file system
  when the modification times are taken. The progress callback of the caller returns.
\<close>

record ingest_try =
  ig_eligible :: "string list"
  ig_listing :: "exit + string list"
  ig_ingest :: "string \<Rightarrow> ingest_outcome"
  ig_finish :: "exit option"
  ig_view :: file_view
  ig_save :: "nat \<Rightarrow> bool option"
  ig_last_save :: "bool option"

record ingest_state =
  is_new :: "string list"
  is_errors :: nat
  is_docs :: docs
  is_progress :: progress_file

definition processed_paths :: "sync_env \<Rightarrow> string \<Rightarrow> progress_file \<Rightarrow> string list" where
  "processed_paths env name file =
     (if ev_has_store env then
        (case read_state (ev_floats env) (ev_now env) file of
           Inr (Some s) \<Rightarrow> (case dict_get (ix_collections s) name of None \<Rightarrow> [] | Some cp \<Rightarrow> cp_paths cp)
         | _ \<Rightarrow> [])
      else [])"

definition ingest_progress :: "sync_env \<Rightarrow> indexing_status \<Rightarrow> nat \<Rightarrow> nat \<Rightarrow> string list \<Rightarrow> collection_progress" where
  "ingest_progress env st n_total n_done paths =
     (new_progress st)
       \<lparr>cp_total := int n_total, cp_processed := int n_done, cp_started := JStr (ev_now env), cp_paths := paths\<rparr>"

text \<open>The body of the loop of \<open>ingest_directory\<close> with the callback of the sync.\<close>

definition ingest_step ::
    "sync_env \<Rightarrow> file_view \<Rightarrow> string \<Rightarrow> string \<Rightarrow> ingest_try \<Rightarrow> string list \<Rightarrow> nat \<Rightarrow> string \<Rightarrow> ingest_state \<Rightarrow>
     exit option \<times> ingest_state" where
  "ingest_step env v name embedder t resume total_new f a =
     (case ingest_file (ig_ingest t) embedder f (fv_key v f) (is_docs a) of
        (Some x, _, d) \<Rightarrow> (Some x, a\<lparr>is_docs := d\<rparr>)
      | (None, ok, d) \<Rightarrow>
          (None,
           if ok then
             (let a = a\<lparr>is_docs := d, is_new := is_new a @ [f]\<rparr>
              in if length (is_new a) mod checkpoint_files = 0
                 then a\<lparr>is_progress :=
                          safe_state_update env (ig_save t (length (is_new a))) name
                            (ingest_progress env Ix_in_progress (length resume + total_new)
                               (length resume + length (is_new a)) (resume @ is_new a)) (is_progress a)\<rparr>
                 else a)
           else a\<lparr>is_docs := d, is_errors := Suc (is_errors a)\<rparr>))"

definition ingest_directory ::
    "sync_env \<Rightarrow> file_view \<Rightarrow> string \<Rightarrow> string \<Rightarrow> ingest_try \<Rightarrow> string list \<Rightarrow> nat \<Rightarrow> ingest_state \<Rightarrow> exit option \<times> ingest_state" where
  "ingest_directory env v name embedder t resume total_new a =
     (case ig_listing t of
        Inl x \<Rightarrow> (Some x, a)
      | Inr files \<Rightarrow>
          (case run_all (ingest_step env v name embedder t resume total_new) (filter (\<lambda>f. f \<notin> set resume) files) a of
             (Some x, a) \<Rightarrow> (Some x, a)
           | (None, a) \<Rightarrow> (if is_new a = [] then None else ig_finish t, a)))"

text \<open>The modification times recorded at the end: of every path that was ever ingested and can still be read.\<close>

fun partial_mtimes :: "file_view \<Rightarrow> string list \<Rightarrow> (string, int) dict \<Rightarrow> (string, int) dict" where
  "partial_mtimes v [] ms = ms"
| "partial_mtimes v (p # ps) ms =
     partial_mtimes v ps (case fv_mtime v (fv_key v p) of None \<Rightarrow> ms | Some t \<Rightarrow> dict_set (fv_key v p) t ms)"

definition ingest_collection ::
    "sync_env \<Rightarrow> file_view \<Rightarrow> string \<Rightarrow> ingest_try \<Rightarrow> collection_meta option \<Rightarrow> docs \<Rightarrow> progress_file \<Rightarrow>
     write_result \<times> docs \<times> progress_file" where
  "ingest_collection env v name t meta d file =
     (let resume = processed_paths env name file;
          offset = length resume;
          total_new = length (filter (\<lambda>f. f \<notin> set resume) (ig_eligible t));
          model = active_model meta;
          file = (if resume = [] then safe_state_update env (ig_save t 0) name (new_progress Ix_pending) file else file);
          file = safe_state_update env (ig_save t 1) name (ingest_progress env Ix_in_progress offset offset resume) file;
          settled = (\<lambda>st n_total n_done a.
            (ingest_progress env st n_total n_done (resume @ is_new a))
              \<lparr>cp_completed := JStr (ev_now env), cp_mtimes := partial_mtimes (ig_view t) (resume @ is_new a) [],
               cp_model := model, cp_chunk_size := Some (ev_chunk_size env)\<rparr>)
      in case ingest_directory env v name (chosen_embedder env model) t resume total_new
                \<lparr>is_new = [], is_errors = 0, is_docs = d, is_progress = file\<rparr> of
           (Some Cancelled, a) \<Rightarrow> (Write_cancelled, is_docs a, is_progress a)
         | (Some Raised, a) \<Rightarrow>
             (Write_failed, is_docs a,
              safe_state_update env (ig_last_save t) name
                ((settled Ix_failed (offset + total_new) (offset + length (is_new a)) a)\<lparr>cp_error := JStr (sync_failed_detail name)\<rparr>)
                (is_progress a))
         | (None, a) \<Rightarrow>
             (Written, is_docs a,
              safe_state_update env (ig_last_save t) name
                (if is_new a = [] \<and> is_errors a = 0 \<and> offset > 0 then settled Ix_done offset offset a
                 else (settled Ix_done (offset + total_new) (offset + length (is_new a)) a)\<lparr>cp_error_count := int (is_errors a)\<rparr>)
                (is_progress a)))"

end
