(* ===== verification/Sync_Run.thy ===== *)
theory Sync_Run
  imports Sync_Changes Job_Store
begin

text \<open>
  \<open>SearchCollectionSync.sync\<close> and \<open>sync_collection\<close> of \<open>archon_search/sync.py\<close>: which collections a sync drops, ingests,
  resumes and updates, the guards around each of these, and the manifest of the collections it manages.

  Everything the rest of the server may do at an \<open>await\<close> reaches the sync through what it reads there: the locks, the job store and the
  registered writers at each drop, the live configuration at each write, the file system. These are fields of \<open>run_env\<close>; a
  collection is visited by one phase only, so they are functions of its name (the listings of the store before and after the
  migration may fail, and leave out tables that cannot be inspected). A Python set is walked in an unspecified order, \<open>r_iter\<close>.
\<close>

datatype manifest_file = No_manifest | Bad_manifest | Manifest "(string, abs_path) dict"

record sync_world =
  sw_tables :: "string set"
  sw_docs :: "string \<Rightarrow> docs"
  sw_progress :: progress_file
  sw_manifest :: manifest_file

datatype sync_error =
    Path_missing abs_path
  | Sync_failed string
  | Sync_busy string
  | Drop_deferred string
  | Drop_missing string

record sync_result =
  sr_added :: "string list"
  sr_removed :: "string list"
  sr_unchanged :: "string list"
  sr_errors :: "sync_error list"
  sr_skipped :: "string list"
  sr_updated :: "string list"

section \<open>The manifest\<close>

definition load_manifest :: "manifest_file \<Rightarrow> (string, abs_path) dict" where
  "load_manifest m = (case m of Manifest d \<Rightarrow> d | _ \<Rightarrow> [])"

text \<open>\<open>None\<close> is success; otherwise whether the file had been replaced when the write raised.\<close>

definition write_manifest :: "bool option \<Rightarrow> (string, abs_path) dict \<Rightarrow> manifest_file \<Rightarrow> bool \<times> manifest_file" where
  "write_manifest w d m = (case w of None \<Rightarrow> (True, Manifest d) | Some published \<Rightarrow> (False, if published then Manifest d else m))"

text \<open>\<open>manifest_lookup_by_path\<close>, which raises on a file it cannot parse (\<open>Inl\<close>), and \<open>manifest_remove_entry\<close>, which never does.\<close>

definition manifest_lookup_by_path :: "(abs_path \<Rightarrow> abs_path) \<Rightarrow> abs_path \<Rightarrow> manifest_file \<Rightarrow> unit + string option" where
  "manifest_lookup_by_path again path m =
     (case m of
        No_manifest \<Rightarrow> Inr None
      | Bad_manifest \<Rightarrow> Inl ()
      | Manifest d \<Rightarrow> Inr (map_option fst (find (\<lambda>(n, p). again p = path) d)))"

definition manifest_remove_entry :: "bool option \<Rightarrow> string \<Rightarrow> manifest_file \<Rightarrow> manifest_file" where
  "manifest_remove_entry w name m = (case m of Manifest d \<Rightarrow> snd (write_manifest w (dict_del name d) m) | _ \<Rightarrow> m)"

section \<open>The environment of a sync\<close>

datatype writer_guard = Registered | Lock_busy

record drop_env =
  de_locked :: bool
  de_jobs :: "job_store option"
  de_writers :: "string list"
  de_outcome :: "exit option"
  de_gone :: bool

datatype rename_outcome = Renamed | Rename_unsupported | Rename_raised

record run_env =
  r_env :: sync_env
  r_resolve :: resolver
  r_sha :: "string \<Rightarrow> string"
  r_pinned :: "string list"
  r_iter :: "string set \<Rightarrow> string list"
  r_reset_write :: "bool option"
  r_reads_ok :: bool
  r_reads_again_ok :: bool
  r_listed :: "string \<Rightarrow> bool"
  r_rename :: rename_outcome
  r_rename_write :: "bool option"
  r_namespaces :: "(string \<times> string) list"
  r_drop :: "string \<Rightarrow> drop_env"
  r_remove_write :: "string \<Rightarrow> bool option"
  r_exists :: "string \<Rightarrow> bool"
  r_guard :: "string \<Rightarrow> writer_guard"
  r_configured :: "string \<Rightarrow> bool"
  r_view :: "string \<Rightarrow> file_view"
  r_ingest :: "string \<Rightarrow> ingest_try"
  r_created :: "string \<Rightarrow> bool"
  r_meta :: "string \<Rightarrow> collection_meta option"
  r_eligible :: "string \<Rightarrow> string list"
  r_apply :: "string \<Rightarrow> apply_try"
  r_manifest_write :: "bool option"

definition namespace_of :: "run_env \<Rightarrow> string \<Rightarrow> string" where
  "namespace_of re name = (case dict_get (dict_set_all (r_namespaces re) []) name of None \<Rightarrow> default_ns | Some ns \<Rightarrow> ns)"

text \<open>\<open>list_collections\<close> leaves out a table it cannot inspect.\<close>

definition listed_tables :: "run_env \<Rightarrow> sync_world \<Rightarrow> string set" where
  "listed_tables re w = Set.filter (r_listed re) (sw_tables w)"

section \<open>Migration\<close>

definition legacy_collection :: string where
  "legacy_collection = ''archon-history''"

definition default_sessions_name :: string where
  "default_sessions_name = ''sessions''"

text \<open>\<open>_maybe_migrate\<close>; \<open>False\<close> is an exception of the rename other than the unsupported one. A failed manifest write is swallowed.\<close>

definition migrated_manifest :: "bool option \<Rightarrow> manifest_file \<Rightarrow> manifest_file" where
  "migrated_manifest w m =
     (case m of
        Manifest d \<Rightarrow>
          (case dict_get d legacy_collection of
             None \<Rightarrow> m
           | Some p \<Rightarrow> snd (write_manifest w (dict_set default_sessions_name p (dict_del legacy_collection d)) m))
      | _ \<Rightarrow> m)"

definition maybe_migrate :: "run_env \<Rightarrow> sync_world \<Rightarrow> bool \<times> sync_world" where
  "maybe_migrate re w =
     (if legacy_collection \<in> listed_tables re w \<and> default_sessions_name \<notin> listed_tables re w then
        (case r_rename re of
           Rename_raised \<Rightarrow> (False, w)
         | Rename_unsupported \<Rightarrow> (True, w)
         | Renamed \<Rightarrow>
             if default_sessions_name \<in> sw_tables w then (False, w)
             else (True, w\<lparr>sw_tables := insert default_sessions_name (sw_tables w - {legacy_collection}),
                      sw_docs := (sw_docs w)(default_sessions_name := sw_docs w legacy_collection,
                                             legacy_collection := (\<lambda>_. None)),
                      sw_manifest := migrated_manifest (r_rename_write re) (sw_manifest w)\<rparr>))
      else (True, w))"

section \<open>Dropping\<close>

datatype drop_result = Dropped | Kept | Not_found | Drop_exit exit

definition drop_table :: "string \<Rightarrow> sync_world \<Rightarrow> sync_world" where
  "drop_table name w = w\<lparr>sw_tables := sw_tables w - {name}, sw_docs := (sw_docs w)(name := (\<lambda>_. None))\<rparr>"

text \<open>
  \<open>_drop_if_idle\<close>: under the collection's lock, and only when no job and no registered writer may write the collection. A drop that raises or is
  cancelled may have removed the table already.
\<close>

definition drop_if_idle :: "drop_env \<Rightarrow> string \<Rightarrow> string \<Rightarrow> sync_world \<Rightarrow> drop_result \<times> sync_world" where
  "drop_if_idle de name ns w =
     (if \<not> de_locked de then (Kept, w)
      else if (case de_jobs de of None \<Rightarrow> False | Some js \<Rightarrow> find_active_collection_job name ns None js \<noteq> None) then (Kept, w)
      else if name \<in> set (de_writers de) then (Kept, w)
      else case de_outcome de of
             Some x \<Rightarrow> (Drop_exit x, if de_gone de \<and> name \<in> sw_tables w then drop_table name w else w)
           | None \<Rightarrow>
               (if name \<in> sw_tables w
                then (Dropped, drop_table name w)
                else (Not_found, w)))"

section \<open>Writing\<close>

text \<open>\<open>_write_collection\<close>: the collection is registered as being written, then the live configuration is asked.\<close>

definition write_collection ::
    "run_env \<Rightarrow> string \<Rightarrow> (sync_world \<Rightarrow> write_result \<times> sync_world) \<Rightarrow> sync_world \<Rightarrow>
     (exit + bool \<times> sync_error option) \<times> sync_world" where
  "write_collection re name wr w =
     (if is_valid_collection_name name \<and> r_guard re name = Lock_busy then (Inr (True, Some (Sync_busy name)), w)
      else if \<not> r_configured re name then (Inr (False, None), w)
      else case wr w of
             (Written, w') \<Rightarrow> (Inr (True, None), w')
           | (Write_failed, w') \<Rightarrow> (Inr (True, Some (Sync_failed name)), w')
           | (Write_raised, w') \<Rightarrow> (Inl Raised, w')
           | (Write_cancelled, w') \<Rightarrow> (Inl Cancelled, w'))"

definition write_ingest :: "run_env \<Rightarrow> string \<Rightarrow> collection_meta option \<Rightarrow> sync_world \<Rightarrow> write_result \<times> sync_world" where
  "write_ingest re name meta w =
     (case ingest_collection (r_env re) (r_view re name) name (r_ingest re name) meta (sw_docs w name) (sw_progress w) of
        (r, d, f) \<Rightarrow>
          (r, w\<lparr>sw_docs := (sw_docs w)(name := d), sw_progress := f,
                sw_tables := (if r_created re name then insert name (sw_tables w) else sw_tables w)\<rparr>))"

definition write_changes ::
    "run_env \<Rightarrow> string \<Rightarrow> change_set \<Rightarrow> (string, int) dict \<Rightarrow> sync_world \<Rightarrow> write_result \<times> sync_world" where
  "write_changes re name ch mtimes w =
     (case apply_collection_changes (r_env re) (r_view re name) name (r_apply re name) ch mtimes (r_meta re name)
             (sw_docs w name) (sw_progress w) of
        (r, d, f) \<Rightarrow> (r, w\<lparr>sw_docs := (sw_docs w)(name := d), sw_progress := f\<rparr>))"

section \<open>The phases\<close>

record run_state =
  rs_world :: sync_world
  rs_result :: sync_result
  rs_deferred :: "string set"
  rs_managed :: "string set"
  rs_to_update :: "string set"

definition add_error :: "sync_error \<Rightarrow> run_state \<Rightarrow> run_state" where
  "add_error e s = s\<lparr>rs_result := (rs_result s)\<lparr>sr_errors := sr_errors (rs_result s) @ [e]\<rparr>\<rparr>"

definition safe_state_remove :: "sync_env \<Rightarrow> bool option \<Rightarrow> string \<Rightarrow> progress_file \<Rightarrow> progress_file" where
  "safe_state_remove env w name f =
     (if ev_has_store env then snd (remove_collection (ev_floats env) (ev_now env) w name f) else f)"

text \<open>Step 4: one collection that is managed and no longer configured.\<close>

definition drop_phase_step :: "run_env \<Rightarrow> string \<Rightarrow> run_state \<Rightarrow> exit option \<times> run_state" where
  "drop_phase_step re name s =
     (case drop_if_idle (r_drop re name) name (namespace_of re name) (rs_world s) of
        (Drop_exit x, w) \<Rightarrow> (Some x, s\<lparr>rs_world := w\<rparr>)
      | (Not_found, w) \<Rightarrow> (None, add_error (Drop_missing name) (s\<lparr>rs_world := w\<rparr>))
      | (Dropped, w) \<Rightarrow>
          (None, s\<lparr>rs_world := w\<lparr>sw_progress := safe_state_remove (r_env re) (r_remove_write re name) name (sw_progress w)\<rparr>,
                   rs_result := (rs_result s)\<lparr>sr_removed := sr_removed (rs_result s) @ [name]\<rparr>\<rparr>)
      | (Kept, w) \<Rightarrow> (None, add_error (Drop_deferred name) (s\<lparr>rs_world := w, rs_deferred := insert name (rs_deferred s)\<rparr>)))"

text \<open>Steps 6 and 6.5: one collection to ingest or to resume.\<close>

definition ingest_phase_step :: "run_env \<Rightarrow> (string \<Rightarrow> collection_meta option) \<Rightarrow> (string, abs_path) dict \<Rightarrow> string \<Rightarrow> run_state \<Rightarrow> exit option \<times> run_state" where
  "ingest_phase_step re meta_of desired name s =
     (if \<not> r_exists re name then (None, add_error (Path_missing (the (dict_get desired name))) s)
      else
        (case write_collection re name (write_ingest re name (meta_of name)) (rs_world s) of
           (Inl x, w) \<Rightarrow> (Some x, s\<lparr>rs_world := w\<rparr>)
         | (Inr (False, _), w) \<Rightarrow> (None, s\<lparr>rs_world := w\<rparr>)
         | (Inr (True, None), w) \<Rightarrow>
             (None, s\<lparr>rs_world := w, rs_managed := insert name (rs_managed s),
                      rs_result := (rs_result s)\<lparr>sr_added := sr_added (rs_result s) @ [name]\<rparr>\<rparr>)
         | (Inr (True, Some e), w) \<Rightarrow> (None, add_error e (s\<lparr>rs_world := w\<rparr>))))"

text \<open>Step 7: one collection that is complete; \<open>file0\<close> is the state file as it was read before the loop.\<close>

definition known_progress :: "run_env \<Rightarrow> progress_file \<Rightarrow> string \<Rightarrow> collection_progress option" where
  "known_progress re file0 name = seen_progress (ev_floats (r_env re)) file0 name"

definition phase_changes :: "run_env \<Rightarrow> progress_file \<Rightarrow> string \<Rightarrow> change_set" where
  "phase_changes re file0 name =
     (let cp = known_progress re file0 name
      in check_collection_changes (r_env re) (r_view re name) (r_eligible re name)
           (case cp of None \<Rightarrow> [] | Some c \<Rightarrow> cp_mtimes c) (case cp of None \<Rightarrow> [] | Some c \<Rightarrow> cp_model c)
           (case cp of None \<Rightarrow> None | Some c \<Rightarrow> cp_chunk_size c) (r_meta re name))"

definition has_changes :: "change_set \<Rightarrow> bool" where
  "has_changes ch \<longleftrightarrow> new_files ch \<noteq> [] \<or> changed_files ch \<noteq> [] \<or> deleted_paths ch \<noteq> []"

definition update_phase_step :: "run_env \<Rightarrow> progress_file \<Rightarrow> (string, abs_path) dict \<Rightarrow> string \<Rightarrow> run_state \<Rightarrow> exit option \<times> run_state" where
  "update_phase_step re file0 desired name s =
     (if \<not> r_exists re name then (None, add_error (Path_missing (the (dict_get desired name))) s)
      else
        (let ch = phase_changes re file0 name;
             mtimes = (case known_progress re file0 name of None \<Rightarrow> [] | Some c \<Rightarrow> cp_mtimes c)
         in if \<not> has_changes ch then (None, s)
            else
              (let s = s\<lparr>rs_to_update := insert name (rs_to_update s)\<rparr>
               in case write_collection re name (write_changes re name ch mtimes) (rs_world s) of
                    (Inl x, w) \<Rightarrow> (Some x, s\<lparr>rs_world := w\<rparr>)
                  | (Inr (False, _), w) \<Rightarrow> (None, s\<lparr>rs_world := w\<rparr>)
                  | (Inr (True, None), w) \<Rightarrow>
                      (None, s\<lparr>rs_world := w, rs_managed := insert name (rs_managed s),
                               rs_result := (rs_result s)\<lparr>sr_updated := sr_updated (rs_result s) @ [name]\<rparr>\<rparr>)
                  | (Inr (True, Some e), w) \<Rightarrow> (None, add_error e (s\<lparr>rs_world := w\<rparr>)))))"

text \<open>Step 6.5: the collections whose recorded status is not done; a state file that cannot be read counts as done.\<close>

definition to_resume :: "run_env \<Rightarrow> progress_file \<Rightarrow> string set \<Rightarrow> string set" where
  "to_resume re file0 names =
     Set.filter (\<lambda>n. ev_has_store (r_env re) \<and>
                     (case known_progress re file0 n of None \<Rightarrow> False | Some cp \<Rightarrow> cp_status cp \<noteq> Ix_done)) names"

definition reset_stale :: "run_env \<Rightarrow> progress_file \<Rightarrow> progress_file" where
  "reset_stale re f =
     (if ev_has_store (r_env re)
      then snd (reset_in_progress (ev_floats (r_env re)) (ev_now (r_env re)) (r_reset_write re)
                  (\<lambda>cp. cp_status cp = Ix_in_progress) f)
      else f)"

text \<open>Steps 4 to 7 after the first reads; the phases run one after another and an exception ends the sync.\<close>

definition sync_phases ::
    "run_env \<Rightarrow> (string, abs_path) dict \<Rightarrow> string set \<Rightarrow> string set \<Rightarrow> run_state \<Rightarrow> exit option \<times> run_state \<times> string set" where
  "sync_phases re desired existing managed s =
     (let wanted = set (dict_keys desired)
      in case run_all (drop_phase_step re) (r_iter re ((existing \<inter> managed) - wanted)) s of
           (Some x, s) \<Rightarrow> (Some x, s, {})
         | (None, s) \<Rightarrow>
             (let s = s\<lparr>rs_result := (rs_result s)\<lparr>sr_skipped := sorted_list_of_set (existing - managed - wanted)\<rparr>\<rparr>
              in case run_all (ingest_phase_step re (\<lambda>_. None) desired)
                        (sort_ingestion_order (r_resolve re) (r_pinned re) (wanted - existing) desired) s of
                   (Some x, s) \<Rightarrow> (Some x, s, {})
                 | (None, s) \<Rightarrow>
                     (let resume = to_resume re (sw_progress (rs_world s)) (existing \<inter> wanted);
                          check = (existing \<inter> wanted) - resume
                      in case run_all (ingest_phase_step re (r_meta re) desired) (sorted_list_of_set resume) s of
                           (Some x, s) \<Rightarrow> (Some x, s, {})
                         | (None, s) \<Rightarrow>
                             (if \<not> ev_has_store (r_env re) then (None, s, check)
                              else if sw_progress (rs_world s) = Not_utf8 then (Some Raised, s, {})
                              else case run_all (update_phase_step re (sw_progress (rs_world s)) desired)
                                          (sort_ingestion_order (r_resolve re) (r_pinned re) check desired) s of
                                     (Some x, s) \<Rightarrow> (Some x, s, {})
                                   | (None, s) \<Rightarrow> (None, s, check - rs_to_update s)))))"

definition new_manifest :: "(string, abs_path) dict \<Rightarrow> (string, abs_path) dict \<Rightarrow> string list \<Rightarrow> string set \<Rightarrow> (string, abs_path) dict" where
  "new_manifest desired old deferred kept =
     fold (\<lambda>n d. dict_set n (the (dict_get old n)) d) deferred (filter (\<lambda>(n, p). n \<in> kept) desired)"

text \<open>\<open>sync\<close>: \<open>Inl\<close> is the exception that ends it.\<close>

definition sync :: "run_env \<Rightarrow> string list \<Rightarrow> sync_world \<Rightarrow> (exit + sync_result) \<times> sync_world" where
  "sync re collections w =
     (let w = w\<lparr>sw_progress := reset_stale re (sw_progress w)\<rparr>
      in if \<not> r_reads_ok re then (Inl Raised, w)
         else
           (case maybe_migrate re w of
              (False, w) \<Rightarrow> (Inl Raised, w)
            | (True, w) \<Rightarrow>
                if \<not> r_reads_again_ok re then (Inl Raised, w)
                else
                (let desired = build_desired (r_resolve re) (r_sha re) collections;
                     old = load_manifest (sw_manifest w)
                 in case sync_phases re desired (listed_tables re w) (set (dict_keys old))
                           \<lparr>rs_world = w,
                            rs_result = \<lparr>sr_added = [], sr_removed = [], sr_unchanged = [], sr_errors = [], sr_skipped = [], sr_updated = []\<rparr>,
                            rs_deferred = {}, rs_managed = {}, rs_to_update = {}\<rparr> of
                      (Some x, s, _) \<Rightarrow> (Inl x, rs_world s)
                    | (None, s, unchanged) \<Rightarrow>
                        (case write_manifest (r_manifest_write re)
                                (new_manifest desired old (r_iter re (rs_deferred s)) (rs_managed s \<union> unchanged))
                                (sw_manifest (rs_world s)) of
                           (ok, m) \<Rightarrow>
                             (if ok then Inr ((rs_result s)\<lparr>sr_unchanged := sorted_list_of_set unchanged\<rparr>) else Inl Raised,
                              (rs_world s)\<lparr>sw_manifest := m\<rparr>)))))"

section \<open>The watcher\<close>

text \<open>\<open>sync_collection\<close>, the update of one collection after its files changed; the caller has registered as its writer.\<close>

definition sync_collection :: "run_env \<Rightarrow> string \<Rightarrow> sync_world \<Rightarrow> exit option \<times> sync_world" where
  "sync_collection re name w =
     (if \<not> ev_has_store (r_env re) then (None, w)
      else
        (case read_state (ev_floats (r_env re)) (ev_now (r_env re)) (sw_progress w) of
           Inl _ \<Rightarrow> (Some Raised, w)
         | Inr None \<Rightarrow> (None, w)
         | Inr (Some _) \<Rightarrow>
             (let ch = phase_changes re (sw_progress w) name;
                  mtimes = (case known_progress re (sw_progress w) name of None \<Rightarrow> [] | Some c \<Rightarrow> cp_mtimes c)
              in if \<not> has_changes ch then (None, w)
                 else
                   (case write_changes re name ch mtimes w of
                      (Write_raised, w') \<Rightarrow> (Some Raised, w')
                    | (Write_cancelled, w') \<Rightarrow> (Some Cancelled, w')
                    | (_, w') \<Rightarrow> (None, w')))))"

end
