(* ===== verification/Sync_Facts.thy ===== *)
theory Sync_Facts
  imports Sync_Changes
begin

text \<open>
  How a run over the files of a collection moves its records: what each loop does to the recorded times, to the list of processed
  paths and to the documents, for every way the calls in it can end.
\<close>

section \<open>One step\<close>

lemma count_file_frame [simp]:
  "as_mtimes (count_file env name model t a) = as_mtimes a" "as_paths (count_file env name model t a) = as_paths a"
  "as_docs (count_file env name model t a) = as_docs a"
  by (simp_all add: count_file_def Let_def)

text \<open>Whether the ingest of a file reports success.\<close>

definition ingests :: "apply_try \<Rightarrow> string \<Rightarrow> string \<Rightarrow> bool" where
  "ingests t f key =
     (case at_ingest t key of Ingest_ok _ \<Rightarrow> True | Ingest_soft _ \<Rightarrow> py_endswith f ''.acl'' | Ingest_exit _ _ \<Rightarrow> False)"

text \<open>What a run knows and holds of one key.\<close>

definition entry_of :: "string \<Rightarrow> apply_state \<Rightarrow> int option \<times> bool \<times> doc option" where
  "entry_of k a = (dict_get (as_mtimes a) k, k \<in> set (as_paths a), as_docs a k)"

lemma delete_step_frame: "delete_step env name model t path a = (r, a') \<Longrightarrow> k \<noteq> path \<Longrightarrow> entry_of k a' = entry_of k a"
  by (auto simp: entry_of_def delete_step_def split: option.splits prod.splits)

lemma delete_step_done:
  assumes "delete_step env name model t path a = (None, a')"
  shows "as_docs a' path = None" "dict_get (as_mtimes a') path = None"
  using assms by (auto simp: delete_step_def split: option.splits prod.splits)

lemma file_step_frame:
  "file_step env v name model t b f a = (r, a') \<Longrightarrow> k \<noteq> fv_key v f \<Longrightarrow> entry_of k a' = entry_of k a"
  by (auto simp: entry_of_def file_step_def ingest_file_def Let_def append_new_def
      split: ingest_outcome.splits option.splits if_splits prod.splits)

lemma file_step_ok:
  assumes "file_step env v name model t b f a = (None, a')" "ingests t f (fv_key v f)"
  shows "dict_get (as_mtimes a') (fv_key v f) =
           (case at_stat t f of None \<Rightarrow> dict_get (as_mtimes a) (fv_key v f) | Some m \<Rightarrow> Some m)"
    and "fv_key v f \<in> set (as_paths a')"
    and "\<not> py_endswith f ''.acl'' \<Longrightarrow> at_ingest t (fv_key v f) = Ingest_ok u \<Longrightarrow>
           as_docs a' (fv_key v f) = Some (u, chosen_embedder env model)"
  using assms
  by (auto simp: file_step_def ingest_file_def ingests_def Let_def append_new_def
      split: ingest_outcome.splits option.splits if_splits prod.splits)

lemma file_step_not_ok:
  assumes "file_step env v name model t b f a = (r, a')" "\<not> ingests t f (fv_key v f)"
  shows "as_mtimes a' = as_mtimes a"
  using assms
  by (auto simp: file_step_def ingest_file_def ingests_def Let_def split: ingest_outcome.splits option.splits if_splits prod.splits)

lemma file_step_exit:
  assumes "at_ingest t (fv_key v f) = Ingest_exit x left"
  shows "file_step env v name model t b f a = (Some x, a\<lparr>as_docs := (as_docs a)(fv_key v f := left)\<rparr>)"
  using assms by (simp add: file_step_def ingest_file_def Let_def)

section \<open>The loops over files\<close>

lemma delete_loop_frame:
  "run_all (delete_step env name model t) ps a = (r, a') \<Longrightarrow> k \<notin> set ps \<Longrightarrow> entry_of k a' = entry_of k a"
  by (rule run_all_frame [where g = "entry_of k"]) (auto intro: delete_step_frame)

lemma file_loop_frame:
  "run_all (file_step env v name model t b) fs a = (r, a') \<Longrightarrow> k \<notin> fv_key v ` set fs \<Longrightarrow> entry_of k a' = entry_of k a"
  by (rule run_all_frame [where g = "entry_of k"]) (auto intro: file_step_frame)

lemma delete_loop_done:
  assumes "run_all (delete_step env name model t) ps a = (None, a')" "k \<in> set ps" "distinct ps"
  shows "as_docs a' k = None" "dict_get (as_mtimes a') k = None"
proof -
  have "\<exists>w1 w2. delete_step env name model t k w1 = (None, w2) \<and> entry_of k w1 = entry_of k a \<and> entry_of k a' = entry_of k w2"
    by (rule run_all_last_word [OF assms]) (auto intro: delete_step_frame)
  then show "as_docs a' k = None" "dict_get (as_mtimes a') k = None"
    by (auto simp: entry_of_def dest: delete_step_done)
qed

lemma file_loop_last:
  assumes "run_all (file_step env v name model t b) fs a = (None, a')" "f \<in> set fs" "distinct (map (fv_key v) fs)"
  shows "\<exists>w1 w2. file_step env v name model t b f w1 = (None, w2) \<and> entry_of (fv_key v f) w1 = entry_of (fv_key v f) a \<and>
           entry_of (fv_key v f) a' = entry_of (fv_key v f) w2"
proof (rule run_all_last_word [OF assms(1,2)])
  show "distinct fs" using assms(3) by (simp add: distinct_map)
  fix y w r w' assume "y \<in> set fs" "y \<noteq> f" "file_step env v name model t b y w = (r, w')"
  then show "entry_of (fv_key v f) w' = entry_of (fv_key v f) w"
    using assms(2,3) by (intro file_step_frame) (auto simp: distinct_map inj_on_def)
qed

lemma file_loop_ok:
  assumes "run_all (file_step env v name model t b) fs a = (None, a')" "f \<in> set fs" "distinct (map (fv_key v) fs)"
    and "ingests t f (fv_key v f)"
  shows "dict_get (as_mtimes a') (fv_key v f) =
           (case at_stat t f of None \<Rightarrow> dict_get (as_mtimes a) (fv_key v f) | Some m \<Rightarrow> Some m)"
    and "fv_key v f \<in> set (as_paths a')"
    and "\<not> py_endswith f ''.acl'' \<Longrightarrow> at_ingest t (fv_key v f) = Ingest_ok u \<Longrightarrow>
           as_docs a' (fv_key v f) = Some (u, chosen_embedder env model)"
  using file_loop_last [OF assms(1-3)] file_step_ok [OF _ assms(4)]
  by (auto simp: entry_of_def split: option.splits)

text \<open>A file whose ingest does not succeed keeps its recorded time, in a loop that ends as in one that is left.\<close>

lemma file_loop_not_ok:
  assumes "run_all (file_step env v name model t b) fs a = (r, a')" "\<not> ingests t f (fv_key v f)"
    and "inj_on (fv_key v) (insert f (set fs))"
  shows "dict_get (as_mtimes a') (fv_key v f) = dict_get (as_mtimes a) (fv_key v f)"
proof (rule run_all_frame [OF assms(1), where g = "\<lambda>a. dict_get (as_mtimes a) (fv_key v f)"])
  fix y w r w' assume y: "y \<in> set fs" "file_step env v name model t b y w = (r, w')"
  show "dict_get (as_mtimes w') (fv_key v f) = dict_get (as_mtimes w) (fv_key v f)"
  proof (cases "y = f")
    case True
    with y assms(2) show ?thesis by (auto dest: file_step_not_ok)
  next
    case False
    with y(1) assms(3) have "fv_key v f \<noteq> fv_key v y" by (auto simp: inj_on_def)
    from file_step_frame [OF y(2) this] show ?thesis by (simp add: entry_of_def)
  qed
qed

section \<open>A whole run\<close>

definition changes_ok :: "file_view \<Rightarrow> change_set \<Rightarrow> bool" where
  "changes_ok v ch \<longleftrightarrow>
     distinct (map (fv_key v) (changed_files ch @ new_files ch)) \<and> distinct (deleted_paths ch) \<and>
     set (deleted_paths ch) \<inter> fv_key v ` (set (changed_files ch) \<union> set (new_files ch)) = {}"

lemma distinct_map_filter_two:
  "distinct (map g xs) \<Longrightarrow> (\<And>x. \<not> (P x \<and> Q x)) \<Longrightarrow> distinct (map g (filter P xs @ filter Q xs))"
  by (auto simp: distinct_map inj_on_def)

lemma check_changes_ok:
  assumes "distinct (map (fv_key v) eligible)" "dict_ok mtimes"
  shows "changes_ok v (check_collection_changes env v eligible mtimes im ics meta)"
proof -
  have "distinct (map (fv_key v)
          (filter (\<lambda>f. dict_get mtimes (fv_key v f) \<noteq> None \<and> looks_changed v mtimes f) eligible @
           filter (\<lambda>f. dict_get mtimes (fv_key v f) = None) eligible))"
    using assms(1) by (rule distinct_map_filter_two) blast
  moreover have "distinct (dict_keys mtimes)" using assms(2) by (simp add: dict_ok_def dict_keys_def)
  ultimately show ?thesis using assms(1)
    by (simp add: check_collection_changes_def changes_ok_def Let_def) blast
qed

text \<open>A run that reached its end went through its three loops.\<close>

lemma apply_loops_None:
  assumes "apply_loops env v name model t ch a = (None, a')"
  obtains a1 a2 where "run_all (delete_step env name model t) (deleted_paths ch) a = (None, a1)"
    and "run_all (file_step env v name model t True) (changed_files ch) a1 = (None, a2)"
    and "run_all (file_step env v name model t False) (new_files ch) a2 = (None, a')"
  using assms by (auto simp: apply_loops_def split: option.splits prod.splits if_splits)

text \<open>A fact about the state that every step of the three loops keeps is kept by the run, however it ends.\<close>

lemma apply_loops_inv:
  assumes "apply_loops env v name model t ch a = (r, a')" "P a"
    and "\<And>p w r w'. p \<in> set (deleted_paths ch) \<Longrightarrow> delete_step env name model t p w = (r, w') \<Longrightarrow> P w \<Longrightarrow> P w'"
    and "\<And>b f w r w'. f \<in> set (changed_files ch) \<union> set (new_files ch) \<Longrightarrow>
           file_step env v name model t b f w = (r, w') \<Longrightarrow> P w \<Longrightarrow> P w'"
  shows "P a'"
proof -
  obtain r1 a1 where 1: "run_all (delete_step env name model t) (deleted_paths ch) a = (r1, a1)" by fastforce
  obtain r2 a2 where 2: "run_all (file_step env v name model t True) (changed_files ch) a1 = (r2, a2)" by fastforce
  obtain r3 a3 where 3: "run_all (file_step env v name model t False) (new_files ch) a2 = (r3, a3)" by fastforce
  have p1: "P a1" using 1 assms(2) by (rule run_all_inv) (rule assms(3))
  have p2: "P a2" using 2 p1 by (rule run_all_inv) (rule assms(4), simp_all)
  have p3: "P a3" using 3 p2 by (rule run_all_inv) (rule assms(4), simp_all)
  have "a' = a1 \<or> a' = a2 \<or> a' = a3"
    using assms(1) 1 2 3 by (auto simp: apply_loops_def split: option.splits if_splits)
  with p1 p2 p3 show ?thesis by blast
qed

lemma apply_loops_frame:
  assumes "apply_loops env v name model t ch a = (r, a')" "k \<notin> set (deleted_paths ch)"
    and "k \<notin> fv_key v ` (set (changed_files ch) \<union> set (new_files ch))"
  shows "entry_of k a' = entry_of k a"
proof (rule apply_loops_inv [OF assms(1), where P = "\<lambda>a'. entry_of k a' = entry_of k a"])
  fix p w r w' assume p: "p \<in> set (deleted_paths ch)" "delete_step env name model t p w = (r, w')"
  with assms(2) have "k \<noteq> p" by auto
  from delete_step_frame [OF p(2) this] show "entry_of k w = entry_of k a \<Longrightarrow> entry_of k w' = entry_of k a" by simp
next
  fix b f w r w' assume f: "f \<in> set (changed_files ch) \<union> set (new_files ch)" "file_step env v name model t b f w = (r, w')"
  with assms(3) have "k \<noteq> fv_key v f" by auto
  from file_step_frame [OF f(2) this] show "entry_of k w = entry_of k a \<Longrightarrow> entry_of k w' = entry_of k a" by simp
qed simp

lemma apply_loops_not_ok:
  assumes "apply_loops env v name model t ch a = (r, a')" "changes_ok v ch"
    and "f \<in> set (changed_files ch) \<union> set (new_files ch)" "\<not> ingests t f (fv_key v f)"
  shows "dict_get (as_mtimes a') (fv_key v f) = dict_get (as_mtimes a) (fv_key v f)"
proof (rule apply_loops_inv [OF assms(1), where P = "\<lambda>a'. dict_get (as_mtimes a') (fv_key v f) = dict_get (as_mtimes a) (fv_key v f)"])
  fix p w r w' assume "p \<in> set (deleted_paths ch)" "delete_step env name model t p w = (r, w')"
  then have "entry_of (fv_key v f) w' = entry_of (fv_key v f) w"
    using assms(2,3) by (intro delete_step_frame) (auto simp: changes_ok_def)
  then show "dict_get (as_mtimes w) (fv_key v f) = dict_get (as_mtimes a) (fv_key v f) \<Longrightarrow>
      dict_get (as_mtimes w') (fv_key v f) = dict_get (as_mtimes a) (fv_key v f)" by (simp add: entry_of_def)
next
  fix b g w r w' assume g: "g \<in> set (changed_files ch) \<union> set (new_files ch)" "file_step env v name model t b g w = (r, w')"
  have "dict_get (as_mtimes w') (fv_key v f) = dict_get (as_mtimes w) (fv_key v f)"
  proof (cases "g = f")
    case True
    with g assms(4) show ?thesis by (auto dest: file_step_not_ok)
  next
    case False
    then have "fv_key v f \<noteq> fv_key v g"
      using g(1) assms(2,3) unfolding changes_ok_def distinct_map inj_on_def by auto
    from file_step_frame [OF g(2) this] show ?thesis by (simp add: entry_of_def)
  qed
  then show "dict_get (as_mtimes w) (fv_key v f) = dict_get (as_mtimes a) (fv_key v f) \<Longrightarrow>
      dict_get (as_mtimes w') (fv_key v f) = dict_get (as_mtimes a) (fv_key v f)" by simp
qed simp

lemma apply_loops_deleted:
  assumes "apply_loops env v name model t ch a = (None, a')" "changes_ok v ch" "k \<in> set (deleted_paths ch)"
  shows "as_docs a' k = None" "dict_get (as_mtimes a') k = None"
proof -
  from assms(1) obtain a1 a2 where 1: "run_all (delete_step env name model t) (deleted_paths ch) a = (None, a1)"
    and 2: "run_all (file_step env v name model t True) (changed_files ch) a1 = (None, a2)"
    and 3: "run_all (file_step env v name model t False) (new_files ch) a2 = (None, a')" by (rule apply_loops_None)
  have "k \<notin> fv_key v ` (set (changed_files ch) \<union> set (new_files ch))" using assms(2,3) by (auto simp: changes_ok_def)
  then have "entry_of k a' = entry_of k a2" "entry_of k a2 = entry_of k a1"
    using file_loop_frame [OF 3] file_loop_frame [OF 2] by (auto simp: image_Un)
  moreover have "distinct (deleted_paths ch)" using assms(2) by (simp add: changes_ok_def)
  ultimately show "as_docs a' k = None" "dict_get (as_mtimes a') k = None"
    using delete_loop_done [OF 1 assms(3)] by (simp_all add: entry_of_def)
qed

lemma apply_loops_ok:
  assumes "apply_loops env v name model t ch a = (None, a')" "changes_ok v ch"
    and "f \<in> set (changed_files ch) \<union> set (new_files ch)" "ingests t f (fv_key v f)"
  shows "dict_get (as_mtimes a') (fv_key v f) =
           (case at_stat t f of None \<Rightarrow> dict_get (as_mtimes a) (fv_key v f) | Some m \<Rightarrow> Some m)"
    and "fv_key v f \<in> set (as_paths a')"
    and "\<not> py_endswith f ''.acl'' \<Longrightarrow> at_ingest t (fv_key v f) = Ingest_ok u \<Longrightarrow>
           as_docs a' (fv_key v f) = Some (u, chosen_embedder env model)"
proof -
  from assms(1) obtain a1 a2 where 1: "run_all (delete_step env name model t) (deleted_paths ch) a = (None, a1)"
    and 2: "run_all (file_step env v name model t True) (changed_files ch) a1 = (None, a2)"
    and 3: "run_all (file_step env v name model t False) (new_files ch) a2 = (None, a')" by (rule apply_loops_None)
  let ?k = "fv_key v f"
  have d: "distinct (map (fv_key v) (changed_files ch))" "distinct (map (fv_key v) (new_files ch))"
    using assms(2) by (simp_all add: changes_ok_def)
  have k1: "entry_of ?k a1 = entry_of ?k a"
    using 1 by (rule delete_loop_frame) (use assms(2,3) in \<open>auto simp: changes_ok_def\<close>)
  have "(dict_get (as_mtimes a') ?k = (case at_stat t f of None \<Rightarrow> dict_get (as_mtimes a) ?k | Some m \<Rightarrow> Some m)) \<and>
        ?k \<in> set (as_paths a') \<and>
        (\<not> py_endswith f ''.acl'' \<longrightarrow> at_ingest t ?k = Ingest_ok u \<longrightarrow> as_docs a' ?k = Some (u, chosen_embedder env model))"
  proof (cases "f \<in> set (changed_files ch)")
    case True
    then have "?k \<notin> fv_key v ` set (new_files ch)" using assms(2) by (auto simp: changes_ok_def)
    from file_loop_frame [OF 3 this] have "entry_of ?k a' = entry_of ?k a2" .
    with file_loop_ok [OF 2 True d(1) assms(4)] k1 show ?thesis by (auto simp: entry_of_def split: option.splits)
  next
    case False
    with assms(3) have f: "f \<in> set (new_files ch)" by simp
    then have "?k \<notin> fv_key v ` set (changed_files ch)" using assms(2) by (auto simp: changes_ok_def)
    from file_loop_frame [OF 2 this] have "entry_of ?k a2 = entry_of ?k a1" .
    with file_loop_ok [OF 3 f d(2) assms(4)] k1 show ?thesis by (auto simp: entry_of_def split: option.splits)
  qed
  then show "dict_get (as_mtimes a') ?k = (case at_stat t f of None \<Rightarrow> dict_get (as_mtimes a) ?k | Some m \<Rightarrow> Some m)"
    and "?k \<in> set (as_paths a')"
    and "\<not> py_endswith f ''.acl'' \<Longrightarrow> at_ingest t ?k = Ingest_ok u \<Longrightarrow> as_docs a' ?k = Some (u, chosen_embedder env model)"
    by blast+
qed

section \<open>The state file during a run\<close>

lemma safe_update_readable: "f \<noteq> Not_utf8 \<Longrightarrow> safe_state_update env w name cp f \<noteq> Not_utf8"
  by (cases w)
    (auto simp: safe_state_update_def update_collection_def change_state_def write_state_def split: sum.splits option.splits)

lemma seen_safe_update:
  "seen_progress (ev_floats env) (safe_state_update env w name cp f) n =
     (if n = name \<and> ev_has_store env \<and> f \<noteq> Not_utf8 \<and> w \<noteq> Some False then Some (read_back cp)
      else seen_progress (ev_floats env) f n)"
  by (simp add: safe_state_update_def seen_update)

lemma count_file_file:
  "as_file (count_file env name model t a) = as_file a \<or>
   (\<exists>w st. as_file (count_file env name model t a) =
       safe_state_update env w name (applied_progress env model st (a\<lparr>as_count := Suc (as_count a)\<rparr>)) (as_file a))"
  by (auto simp: count_file_def Let_def)

lemma count_file_readable: "as_file (count_file env name model t a) = Not_utf8 \<Longrightarrow> as_file a = Not_utf8"
  using count_file_file [of env name model t a] safe_update_readable by metis

lemma apply_loops_readable:
  assumes "apply_loops env v name model t ch a = (r, a')" "as_file a \<noteq> Not_utf8"
  shows "as_file a' \<noteq> Not_utf8"
  by (rule apply_loops_inv [OF assms(1), where P = "\<lambda>a. as_file a \<noteq> Not_utf8"])
    (use assms(2) in \<open>auto simp: delete_step_def file_step_def ingest_file_def Let_def
       split: option.splits ingest_outcome.splits if_splits prod.splits dest!: count_file_readable\<close>)

text \<open>The state with which the loops start.\<close>

definition start_state :: "sync_env \<Rightarrow> string \<Rightarrow> apply_try \<Rightarrow> (string, int) dict \<Rightarrow> string \<Rightarrow> docs \<Rightarrow> progress_file \<Rightarrow> apply_state" where
  "start_state env name t mtimes model d file =
     (let a = \<lparr>as_mtimes = mtimes, as_paths = processed_paths env name file, as_count = 0, as_docs = d, as_file = file\<rparr>
      in a\<lparr>as_file := safe_state_update env (at_save t 0) name (applied_progress env model Ix_in_progress a) file\<rparr>)"

lemma start_state_simps [simp]:
  "as_mtimes (start_state env name t mtimes model d file) = mtimes"
  "as_paths (start_state env name t mtimes model d file) = processed_paths env name file"
  "as_docs (start_state env name t mtimes model d file) = d"
  by (simp_all add: start_state_def Let_def)

lemma start_state_readable: "file \<noteq> Not_utf8 \<Longrightarrow> as_file (start_state env name t mtimes model d file) \<noteq> Not_utf8"
  by (simp add: start_state_def Let_def safe_update_readable)

lemma apply_unfold:
  assumes "file \<noteq> Not_utf8"
  shows "apply_collection_changes env v name t ch mtimes meta d file =
     (case apply_loops env v name (active_model meta) t ch (start_state env name t mtimes (active_model meta) d file) of
        (Some Cancelled, a) \<Rightarrow> (Write_cancelled, as_docs a, as_file a)
      | (Some Raised, a) \<Rightarrow>
          (Write_failed, as_docs a,
           safe_state_update env (at_last_save t) name
             ((applied_progress env (active_model meta) Ix_failed a)\<lparr>cp_error := JStr (sync_failed_detail name)\<rparr>) (as_file a))
      | (None, a) \<Rightarrow>
          (Written, as_docs a,
           safe_state_update env (at_last_save t) name (applied_progress env (active_model meta) Ix_done a) (as_file a)))"
proof -
  have "\<exists>s. (if ev_has_store env then read_state (ev_floats env) (ev_now env) file else Inr None) = Inr s"
    using assms by (cases "file") (auto simp: read_state_def)
  then obtain s where s: "(if ev_has_store env then read_state (ev_floats env) (ev_now env) file else Inr None) = Inr s" ..
  have "(case s of None \<Rightarrow> [] | Some st \<Rightarrow> (case dict_get (ix_collections st) name of None \<Rightarrow> [] | Some cp \<Rightarrow> cp_paths cp)) =
        processed_paths env name file"
    using s by (auto simp: processed_paths_def split: if_splits option.splits)
  then show ?thesis by (simp add: apply_collection_changes_def s start_state_def Let_def)
qed

lemma not_utf8_raises: "ev_has_store env \<Longrightarrow> apply_collection_changes env v name t ch mtimes meta d Not_utf8 = (Write_raised, d, Not_utf8)"
  by (simp add: apply_collection_changes_def read_state_def)

lemma apply_written:
  assumes "apply_collection_changes env v name t ch mtimes meta d file = (Written, d', file')" "ev_has_store env"
  obtains a' where "file \<noteq> Not_utf8"
    and "apply_loops env v name (active_model meta) t ch (start_state env name t mtimes (active_model meta) d file) = (None, a')"
    and "d' = as_docs a'"
    and "file' = safe_state_update env (at_last_save t) name (applied_progress env (active_model meta) Ix_done a') (as_file a')"
    and "as_file a' \<noteq> Not_utf8"
proof -
  have f: "file \<noteq> Not_utf8" using assms not_utf8_raises by fastforce
  obtain r a' where l: "apply_loops env v name (active_model meta) t ch (start_state env name t mtimes (active_model meta) d file) = (r, a')"
    by fastforce
  have "as_file a' \<noteq> Not_utf8" using apply_loops_readable [OF l start_state_readable [OF f]] .
  moreover have "r = None" "d' = as_docs a'"
    "file' = safe_state_update env (at_last_save t) name (applied_progress env (active_model meta) Ix_done a') (as_file a')"
    using assms(1) l by (auto simp: apply_unfold [OF f] split: option.splits exit.splits)
  ultimately show ?thesis using that f l by blast
qed

lemma applied_progress_simps [simp]:
  "cp_status (applied_progress env model st a) = st" "cp_paths (applied_progress env model st a) = as_paths a"
  "cp_mtimes (applied_progress env model st a) = as_mtimes a" "cp_model (applied_progress env model st a) = model"
  "cp_chunk_size (applied_progress env model st a) = Some (ev_chunk_size env)"
  by (simp_all add: applied_progress_def new_progress_def)

end
