(* ===== verification/Sync_Name_Facts.thy ===== *)
theory Sync_Name_Facts
  imports Sync_Names
begin

text \<open>
  What the naming of collections guarantees: one round of the collision loop deepens exactly the colliding names, every
  configured path gets a name of its own unless two hashed names meet, and the order of ingestion loses nobody.
\<close>

section \<open>A round of the collision loop\<close>

text \<open>The names after the first \<open>i\<close> places were walked.\<close>

definition deepened :: "nat \<Rightarrow> abs_path list \<Rightarrow> string list \<Rightarrow> nat \<Rightarrow> string list" where
  "deepened depth paths names i =
     map (\<lambda>k. if k < i \<and> (\<exists>j < i. j \<noteq> k \<and> names ! j = names ! k) then name_at_depth (paths ! k) (Suc depth) else names ! k)
       [0..<length names]"

definition seen_ok :: "string list \<Rightarrow> nat \<Rightarrow> (string, nat) dict \<Rightarrow> bool" where
  "seen_ok names i seen \<longleftrightarrow>
     (\<forall>n. case dict_get seen n of
            Some k \<Rightarrow> k < i \<and> names ! k = n
          | None \<Rightarrow> \<forall>k < i. names ! k \<noteq> n)"

lemma deepened_seen:
  assumes "i < length names" "prev < i" "names ! prev = names ! i"
  shows "(deepened depth paths names i)
           [i := name_at_depth (paths ! i) (Suc depth), prev := name_at_depth (paths ! prev) (Suc depth)]
         = deepened depth paths names (Suc i)"
proof (rule nth_equalityI)
  fix k assume "k < length ((deepened depth paths names i)
           [i := name_at_depth (paths ! i) (Suc depth), prev := name_at_depth (paths ! prev) (Suc depth)])"
  then have k: "k < length names" by (simp add: deepened_def)
  have p: "prev < length names" using assms by simp
  show "(deepened depth paths names i)
           [i := name_at_depth (paths ! i) (Suc depth), prev := name_at_depth (paths ! prev) (Suc depth)] ! k
         = deepened depth paths names (Suc i) ! k"
  proof (cases "k = prev \<or> k = i")
    case True
    have "\<exists>j < Suc i. j \<noteq> k \<and> names ! j = names ! k"
      using True assms by (metis less_Suc_eq less_irrefl)
    then show ?thesis using True assms k p by (auto simp: deepened_def nth_list_update)
  next
    case False
    have "(k < i \<and> (\<exists>j < i. j \<noteq> k \<and> names ! j = names ! k)) \<longleftrightarrow>
          (k < Suc i \<and> (\<exists>j < Suc i. j \<noteq> k \<and> names ! j = names ! k))"
      using False assms by (metis less_Suc_eq)
    then show ?thesis using False k by (simp add: deepened_def nth_list_update)
  qed
qed (simp add: deepened_def)

lemma deepened_fresh:
  assumes "i < length names" "\<forall>k < i. names ! k \<noteq> names ! i"
  shows "deepened depth paths names (Suc i) = deepened depth paths names i"
proof -
  have "(k < i \<and> (\<exists>j < i. j \<noteq> k \<and> names ! j = names ! k)) \<longleftrightarrow>
        (k < Suc i \<and> (\<exists>j < Suc i. j \<noteq> k \<and> names ! j = names ! k))" for k
    using assms by (metis less_Suc_eq)
  then show ?thesis by (simp add: deepened_def)
qed

lemma deepen_walk:
  "seen_ok names i seen \<Longrightarrow> i + length rest = length names \<Longrightarrow> rest = drop i names \<Longrightarrow>
   deepen depth paths seen i rest (deepened depth paths names i) = deepened depth paths names (length names)"
proof (induction rest arbitrary: i seen)
  case (Cons name rest)
  have i: "i < length names" using Cons.prems(2) by simp
  have n: "names ! i = name" "rest = drop (Suc i) names"
    using Cons.prems(3) by (metis nth_via_drop, metis drop_Suc list.sel(3) tl_drop)
  show ?case
  proof (cases "dict_get seen name")
    case None
    then have f: "\<forall>k < i. names ! k \<noteq> names ! i"
      using Cons.prems(1) [unfolded seen_ok_def, rule_format, of name] n by simp
    have "seen_ok names (Suc i) (dict_set name i seen)"
      unfolding seen_ok_def
    proof
      fix m
      show "case dict_get (dict_set name i seen) m of
              Some k \<Rightarrow> k < Suc i \<and> names ! k = m | None \<Rightarrow> \<forall>k < Suc i. names ! k \<noteq> m"
        using Cons.prems(1) [unfolded seen_ok_def, rule_format, of m] n by (auto simp: less_Suc_eq split: option.splits)
    qed
    from Cons.IH [OF this _ n(2)] Cons.prems(2) None deepened_fresh [OF i f] show ?thesis by simp
  next
    case (Some prev)
    then have p: "prev < i" "names ! prev = names ! i"
      using Cons.prems(1) [unfolded seen_ok_def, rule_format, of name] n by simp_all
    have "seen_ok names (Suc i) seen"
      unfolding seen_ok_def
    proof
      fix m
      show "case dict_get seen m of Some k \<Rightarrow> k < Suc i \<and> names ! k = m | None \<Rightarrow> \<forall>k < Suc i. names ! k \<noteq> m"
        using Cons.prems(1) [unfolded seen_ok_def, rule_format, of m] Some n by (auto simp: less_Suc_eq split: option.splits)
    qed
    from Cons.IH [OF this _ n(2)] Cons.prems(2) Some deepened_seen [OF i p] show ?thesis by simp
  qed
qed simp

lemma deepen_colliders:
  "deepen depth paths [] 0 names names =
   map (\<lambda>k. if \<exists>j < length names. j \<noteq> k \<and> names ! j = names ! k then name_at_depth (paths ! k) (Suc depth) else names ! k)
     [0..<length names]"
proof -
  have "deepened depth paths names 0 = names" by (simp add: deepened_def map_nth)
  moreover have "seen_ok names 0 []" by (simp add: seen_ok_def)
  ultimately have "deepen depth paths [] 0 names names = deepened depth paths names (length names)"
    using deepen_walk [of names 0 "[]" names depth paths] by simp
  then show ?thesis by (auto simp: deepened_def)
qed

lemma length_deepen [simp]: "length (deepen depth paths [] 0 names names) = length names"
  by (simp add: deepen_colliders)

section \<open>Every path has a name\<close>

lemma count_repeats:
  assumes "i < length xs"
  shows "count_list xs (xs ! i) > 1 \<longleftrightarrow> (\<exists>j < length xs. j \<noteq> i \<and> xs ! j = xs ! i)"
proof -
  let ?S = "{j. j < length xs \<and> xs ! i = xs ! j}"
  have "count_list xs (xs ! i) = card ?S"
    by (simp add: count_list_eq_length_filter length_filter_conv_card)
  moreover have "card ?S > 1 \<longleftrightarrow> (\<exists>j \<in> ?S. j \<noteq> i)"
  proof
    assume "card ?S > 1"
    then have "\<not> ?S \<subseteq> {i}" by (metis card.empty card_insert_disjoint card_mono empty_iff finite.intros leD One_nat_def)
    then show "\<exists>j \<in> ?S. j \<noteq> i" by blast
  next
    assume "\<exists>j \<in> ?S. j \<noteq> i"
    then obtain j where "j \<in> ?S" "j \<noteq> i" by blast
    with assms have "{i, j} \<subseteq> ?S" by auto
    then have "card {i, j} \<le> card ?S" by (intro card_mono) auto
    with \<open>j \<noteq> i\<close> show "card ?S > 1" by simp
  qed
  ultimately show ?thesis by auto
qed

lemma collision_loop_cases:
  "length names = length paths \<Longrightarrow>
   distinct (collision_loop sha m paths d names) \<and> length (collision_loop sha m paths d names) = length paths \<or>
   (\<exists>N. length N = length paths \<and> collision_loop sha m paths d names = hash_fallback sha paths N)"
proof (induction sha m paths d names rule: collision_loop.induct)
  case (1 sha m paths d names)
  show ?case
  proof (cases "d \<le> m \<and> \<not> distinct names")
    case True
    with 1 show ?thesis by (subst (1 2 3) collision_loop.simps) simp
  next
    case False
    with 1(2) show ?thesis by (subst (1 2 3) collision_loop.simps) auto
  qed
qed

lemma length_wanted [simp]: "length (wanted_names sha paths) = length paths"
  using collision_loop_cases [of "map (\<lambda>p. sanitize (path_name p)) paths" paths sha
      "foldl max 0 (map (\<lambda>p. length (path_parts p)) paths)" 1]
  by (auto simp: wanted_names_def hash_fallback_def)

lemma wanted_repeats:
  assumes "i < length paths" "j < length paths" "i \<noteq> j" "wanted_names sha paths ! i = wanted_names sha paths ! j"
  shows "wanted_names sha paths ! i = hashed_name sha (paths ! i) \<or> wanted_names sha paths ! i = hashed_name sha (paths ! j)"
proof -
  let ?W = "wanted_names sha paths"
  have "\<not> distinct ?W" using assms by (auto simp: distinct_conv_nth)
  then obtain N where N: "length N = length paths" "?W = hash_fallback sha paths N"
    using collision_loop_cases [of "map (\<lambda>p. sanitize (path_name p)) paths" paths sha
      "foldl max 0 (map (\<lambda>p. length (path_parts p)) paths)" 1] by (auto simp: wanted_names_def)
  have w: "?W ! k = (if count_list N (N ! k) > 1 then hashed_name sha (paths ! k) else N ! k)" if "k < length paths" for k
    using that N by (simp add: hash_fallback_def)
  show ?thesis
  proof (rule ccontr)
    assume c: "\<not> ?thesis"
    then have "\<not> count_list N (N ! i) > 1" "\<not> count_list N (N ! j) > 1"
      using w [OF assms(1)] w [OF assms(2)] assms(4) by auto
    moreover from this have "N ! i = N ! j" using w [OF assms(1)] w [OF assms(2)] assms(4) by simp
    ultimately show False using count_repeats [of i N] assms(1-3) N(1) by auto
  qed
qed

lemma set_dedup [simp]: "set (dedup xs) = set xs"
  by (simp add: dedup_def)

lemma distinct_dedup [simp]: "distinct (dedup xs)"
  by (simp add: dedup_def)

lemma desired_entry:
  "dict_get (build_desired resolve sha cs) n = Some p \<Longrightarrow>
   \<exists>k < length (dedup (map resolve cs)). p = dedup (map resolve cs) ! k \<and> n = wanted_names sha (dedup (map resolve cs)) ! k"
  by (auto simp: build_desired_def Let_def dict_get_set_all_rev in_set_zip split: if_splits option.splits dest!: dict_get_SomeD)

lemma desired_has_name:
  assumes "k < length (dedup (map resolve cs))"
  shows "\<exists>q. dict_get (build_desired resolve sha cs) (wanted_names sha (dedup (map resolve cs)) ! k) = Some q"
proof -
  let ?P = "dedup (map resolve cs)" let ?n = "wanted_names sha ?P ! k"
  have "(?n, ?P ! k) \<in> set (rev (zip (wanted_names sha ?P) ?P))" using assms by (auto simp: in_set_zip)
  then have "dict_get (rev (zip (wanted_names sha ?P) ?P)) ?n \<noteq> None"
    by (auto simp: dict_get_None_iff dict_keys_def intro: image_eqI [where x = "(?n, ?P ! k)"])
  moreover have "cs \<noteq> []" using assms by (auto simp: dedup_def)
  ultimately show ?thesis by (auto simp: build_desired_def Let_def dict_get_set_all_rev)
qed

lemma collision_loop_slug:
  "\<forall>n \<in> set names. slug n \<Longrightarrow>
   \<forall>n \<in> set (collision_loop sha m ps d names). slug n \<or> (\<exists>p \<in> set ps. n = hashed_name sha p)"
proof (induction sha m ps d names rule: collision_loop.induct)
  case (1 sha m ps d names)
  show ?case
  proof (cases "d \<le> m \<and> \<not> distinct names")
    case True
    have "\<forall>n \<in> set (deepen d ps [] 0 names names). slug n"
      using 1(2) by (auto simp: deepen_colliders name_at_depth_def sanitize_slug)
    with True 1 show ?thesis by (subst collision_loop.simps) simp
  next
    case False
    have "slug n \<or> (\<exists>p \<in> set ps. n = hashed_name sha p)" if "n \<in> set (hash_fallback sha ps names)" for n
    proof -
      from that obtain p b where "(p, b) \<in> set (zip ps names)" "n = hashed_name sha p \<or> n = b"
        by (auto simp: hash_fallback_def split: if_splits)
      moreover from this(1) have "p \<in> set ps" "b \<in> set names" by (auto dest: set_zip_leftD set_zip_rightD)
      ultimately show ?thesis using 1(2) by auto
    qed
    with False 1(2) show ?thesis by (subst collision_loop.simps) simp
  qed
qed

lemma wanted_slug: "n \<in> set (wanted_names sha paths) \<Longrightarrow> slug n \<or> (\<exists>p \<in> set paths. n = hashed_name sha p)"
  unfolding wanted_names_def by (rule bspec [OF collision_loop_slug]) (simp_all add: sanitize_slug)

section \<open>The order of ingestion\<close>

lemma pinned_names_set:
  "set acc \<subseteq> to_add \<Longrightarrow> distinct acc \<Longrightarrow>
   set (pinned_names resolve ptn to_add ps acc) \<subseteq> to_add \<and> distinct (pinned_names resolve ptn to_add ps acc)"
  by (induction resolve ptn to_add ps acc rule: pinned_names.induct) (auto split: option.splits)

lemma sort_ingestion_set:
  assumes "finite to_add"
  shows "set (sort_ingestion_order resolve pinned to_add desired) = to_add"
    and "distinct (sort_ingestion_order resolve pinned to_add desired)"
proof -
  let ?f = "pinned_names resolve (dict_set_all (map (\<lambda>(n, p). (p, n)) desired) []) to_add pinned []"
  have f: "set ?f \<subseteq> to_add" "distinct ?f" using pinned_names_set [of "[]" to_add] by auto
  then show "set (sort_ingestion_order resolve pinned to_add desired) = to_add"
    using assms by (auto simp: sort_ingestion_order_def Let_def)
  show "distinct (sort_ingestion_order resolve pinned to_add desired)"
    using f assms by (auto simp: sort_ingestion_order_def Let_def)
qed

end
