(* ===== verification/Sync_Run_Facts.thy ===== *)
theory Sync_Run_Facts
  imports Sync_Run Sync_Facts Sync_Name_Facts
begin

text \<open>What each phase of a sync may touch, and what it records about the collections it visits.\<close>

section \<open>Idle collections\<close>

text \<open>At the moment of the drop: the lock is held, no job may write the collection and no writer is registered.\<close>

definition idle :: "drop_env \<Rightarrow> string \<Rightarrow> bool" where
  "idle de name \<longleftrightarrow>
     de_locked de \<and> name \<notin> set (de_writers de) \<and>
     (case de_jobs de of
        None \<Rightarrow> True
      | Some js \<Rightarrow> list_all (\<lambda>j. collection j = name \<longrightarrow> \<not> may_write_collection j) (dict_values (jobs js)))"

lemma find_active_None:
  "find_active_collection_job name ns None js = None \<longleftrightarrow>
     list_all (\<lambda>j. collection j = name \<longrightarrow> \<not> may_write_collection j) (dict_values (jobs js))"
proof -
  let ?act = "filter (\<lambda>j. collection j = name \<and> Some (job_id j) \<noteq> None \<and> may_write_collection j) (dict_values (jobs js))"
  have "find_active_collection_job name ns None js = None \<longleftrightarrow> ?act = []"
    by (cases ?act) (auto simp: find_active_collection_job_def Let_def split: option.split)
  also have "\<dots> \<longleftrightarrow> list_all (\<lambda>j. collection j = name \<longrightarrow> \<not> may_write_collection j) (dict_values (jobs js))"
    by (auto simp: filter_empty_conv list_all_iff)
  finally show ?thesis .
qed

lemma drop_if_idle_cases:
  assumes "drop_if_idle de name ns w = (r, w')"
  shows "(idle de name \<and> name \<in> sw_tables w \<and> w' = drop_table name w) \<or> (r \<noteq> Dropped \<and> w' = w)"
  using assms
  by (auto simp: drop_if_idle_def idle_def find_active_None split: if_splits option.splits)

section \<open>What a sync may touch\<close>

text \<open>From one world to another, only collections that may be dropped lost their table, and only those and the wanted ones changed.\<close>

definition touches ::
    "(string \<Rightarrow> bool) \<Rightarrow> string set \<Rightarrow> sync_world \<Rightarrow> sync_world \<Rightarrow> bool" where
  "touches droppable wanted w w' \<longleftrightarrow>
     (\<forall>n. n \<in> sw_tables w \<and> n \<notin> sw_tables w' \<longrightarrow> droppable n) \<and>
     (\<forall>n. sw_docs w' n \<noteq> sw_docs w n \<longrightarrow> droppable n \<or> n \<in> wanted)"

lemma touches_refl [simp]: "touches P W w w"
  by (simp add: touches_def)

lemma touches_same: "sw_tables w' = sw_tables w \<Longrightarrow> sw_docs w' = sw_docs w \<Longrightarrow> touches P W w w'"
  by (simp add: touches_def)

lemma touchesD:
  "touches P W w w' \<Longrightarrow> n \<in> sw_tables w \<and> n \<notin> sw_tables w' \<or> sw_docs w' n \<noteq> sw_docs w n \<Longrightarrow> n \<notin> W \<Longrightarrow> P n"
  unfolding touches_def by blast

lemma touches_trans: "touches P W w1 w2 \<Longrightarrow> touches P W w2 w3 \<Longrightarrow> touches P W w1 w3"
  unfolding touches_def by metis

lemma drop_step_touches:
  assumes "drop_phase_step re name s = (r, s')" "idle (r_drop re name) name \<Longrightarrow> P name"
  shows "touches P W (rs_world s) (rs_world s')"
proof -
  obtain q w' where q: "drop_if_idle (r_drop re name) name (namespace_of re name) (rs_world s) = (q, w')" by fastforce
  have "sw_tables (rs_world s') = sw_tables w'" "sw_docs (rs_world s') = sw_docs w'"
    using assms(1) q by (auto simp: drop_phase_step_def add_error_def split: drop_result.splits)
  moreover have "touches P W (rs_world s) w'"
    using drop_if_idle_cases [OF q] assms(2) by (auto simp: touches_def drop_table_def)
  ultimately show ?thesis by (simp add: touches_def)
qed

lemma write_collection_touches:
  assumes "write_collection re name wr w = (r, w')"
    and "\<And>q w''. wr w = (q, w'') \<Longrightarrow> touches P W w w''"
  shows "touches P W w w'"
  using assms by (auto simp: write_collection_def split: if_splits prod.splits write_result.splits)

lemma write_ingest_touches: "name \<in> W \<Longrightarrow> write_ingest re name meta w = (q, w') \<Longrightarrow> touches P W w w'"
  by (auto simp: write_ingest_def touches_def split: prod.splits if_splits)

lemma write_changes_touches: "name \<in> W \<Longrightarrow> write_changes re name ch mtimes w = (q, w') \<Longrightarrow> touches P W w w'"
  by (auto simp: write_changes_def touches_def split: prod.splits)

lemma ingest_step_touches:
  assumes "ingest_phase_step re m desired name s = (r, s')" "name \<in> W"
  shows "touches P W (rs_world s) (rs_world s')"
proof (cases "r_exists re name")
  case True
  obtain q w' where q: "write_collection re name (write_ingest re name (m name)) (rs_world s) = (q, w')" by fastforce
  from write_collection_touches [OF this write_ingest_touches [OF assms(2)]] have "touches P W (rs_world s) w'" .
  moreover have "rs_world s' = w'"
    using assms(1) q True by (auto simp: ingest_phase_step_def add_error_def split: sum.splits option.splits bool.splits)
  ultimately show ?thesis by simp
qed (use assms(1) in \<open>auto simp: ingest_phase_step_def add_error_def\<close>)

lemma update_step_touches:
  assumes "update_phase_step re file0 desired name s = (r, s')" "name \<in> W"
  shows "touches P W (rs_world s) (rs_world s')"
proof (cases "r_exists re name \<and> has_changes (phase_changes re file0 name)")
  case True
  let ?wr = "write_changes re name (phase_changes re file0 name) (case known_progress re file0 name of None \<Rightarrow> [] | Some c \<Rightarrow> cp_mtimes c)"
  obtain q w' where q: "write_collection re name ?wr (rs_world s) = (q, w')" by fastforce
  from write_collection_touches [OF this write_changes_touches [OF assms(2)]] have "touches P W (rs_world s) w'" .
  moreover have "rs_world s' = w'"
    using assms(1) q True by (auto simp: update_phase_step_def add_error_def Let_def split: sum.splits option.splits bool.splits)
  ultimately show ?thesis by simp
qed (use assms(1) in \<open>auto simp: update_phase_step_def add_error_def Let_def split: if_splits\<close>)

lemma run_all_touches:
  assumes "run_all step xs s = (r, s')"
    and "\<And>x s r s'. x \<in> set xs \<Longrightarrow> step x s = (r, s') \<Longrightarrow> touches P W (rs_world s) (rs_world s')"
  shows "touches P W (rs_world s) (rs_world s')"
  by (rule run_all_inv [OF assms(1), where P = "\<lambda>s'. touches P W (rs_world s) (rs_world s')"])
    (use assms(2) touches_trans in \<open>auto\<close>)

definition iter_ok :: "run_env \<Rightarrow> bool" where
  "iter_ok re \<longleftrightarrow> (\<forall>S. finite S \<longrightarrow> set (r_iter re S) = S \<and> distinct (r_iter re S))"

definition droppable :: "run_env \<Rightarrow> string set \<Rightarrow> string set \<Rightarrow> string \<Rightarrow> bool" where
  "droppable re managed wanted n \<longleftrightarrow> n \<in> managed \<and> n \<notin> wanted \<and> idle (r_drop re n) n"

text \<open>The four loops of a sync, each with the collections it visits.\<close>

lemma sync_phases_cases:
  assumes "sync_phases re desired existing managed s = (x, s', unchanged)"
  obtains x1 s1 x2 s2 x3 s3 x4 s4 where
    "run_all (drop_phase_step re) (r_iter re ((existing \<inter> managed) - set (dict_keys desired))) s = (x1, s1)"
    and "run_all (ingest_phase_step re (\<lambda>_. None) desired)
           (sort_ingestion_order (r_resolve re) (r_pinned re) (set (dict_keys desired) - existing) desired)
           (s1\<lparr>rs_result := (rs_result s1)\<lparr>sr_skipped := sorted_list_of_set (existing - managed - set (dict_keys desired))\<rparr>\<rparr>) = (x2, s2)"
    and "run_all (ingest_phase_step re (r_meta re) desired)
           (sorted_list_of_set (to_resume re (sw_progress (rs_world s2)) (existing \<inter> set (dict_keys desired)))) s2 = (x3, s3)"
    and "run_all (update_phase_step re (sw_progress (rs_world s3)) desired)
           (sort_ingestion_order (r_resolve re) (r_pinned re)
             ((existing \<inter> set (dict_keys desired)) - to_resume re (sw_progress (rs_world s2)) (existing \<inter> set (dict_keys desired))) desired) s3 = (x4, s4)"
    and "rs_world s' = rs_world s1 \<or> rs_world s' = rs_world s2 \<or> rs_world s' = rs_world s3 \<or> rs_world s' = rs_world s4"
    and "x = None \<Longrightarrow> x1 = None \<and> x2 = None \<and> x3 = None \<and>
           unchanged = (existing \<inter> set (dict_keys desired)) - to_resume re (sw_progress (rs_world s2)) (existing \<inter> set (dict_keys desired))
             - (if ev_has_store (r_env re) then rs_to_update s4 else {}) \<and>
           s' = (if ev_has_store (r_env re) then s4 else s3) \<and> (ev_has_store (r_env re) \<longrightarrow> x4 = None)"
proof -
  let ?W = "set (dict_keys desired)"
  obtain x1 s1 where 1: "run_all (drop_phase_step re) (r_iter re ((existing \<inter> managed) - ?W)) s = (x1, s1)" by fastforce
  obtain x2 s2 where 2: "run_all (ingest_phase_step re (\<lambda>_. None) desired)
           (sort_ingestion_order (r_resolve re) (r_pinned re) (?W - existing) desired)
           (s1\<lparr>rs_result := (rs_result s1)\<lparr>sr_skipped := sorted_list_of_set (existing - managed - ?W)\<rparr>\<rparr>) = (x2, s2)" by fastforce
  let ?R = "to_resume re (sw_progress (rs_world s2)) (existing \<inter> ?W)"
  obtain x3 s3 where 3: "run_all (ingest_phase_step re (r_meta re) desired) (sorted_list_of_set ?R) s2 = (x3, s3)" by fastforce
  obtain x4 s4 where 4: "run_all (update_phase_step re (sw_progress (rs_world s3)) desired)
           (sort_ingestion_order (r_resolve re) (r_pinned re) ((existing \<inter> ?W) - ?R) desired) s3 = (x4, s4)" by fastforce
  note e = assms [unfolded sync_phases_def Let_def 1]
  show ?thesis
  proof (rule that [OF 1 2 3 4])
    show "rs_world s' = rs_world s1 \<or> rs_world s' = rs_world s2 \<or> rs_world s' = rs_world s3 \<or> rs_world s' = rs_world s4"
      using e by (cases x1; cases x2; cases x3; cases x4) (auto simp: 2 3 4 split: if_splits)
    show "x = None \<Longrightarrow> x1 = None \<and> x2 = None \<and> x3 = None \<and>
           unchanged = (existing \<inter> ?W) - ?R - (if ev_has_store (r_env re) then rs_to_update s4 else {}) \<and>
           s' = (if ev_has_store (r_env re) then s4 else s3) \<and> (ev_has_store (r_env re) \<longrightarrow> x4 = None)"
      using e by (cases x1; cases x2; cases x3; cases x4) (auto simp: 2 3 4 split: if_splits)
  qed
qed

lemma to_resume_subset: "to_resume re f N \<subseteq> N"
  by (auto simp: to_resume_def)

lemma sync_phases_touches:
  assumes "sync_phases re desired existing managed s = (x, s', unchanged)" "iter_ok re" "finite existing"
  shows "touches (droppable re managed (set (dict_keys desired))) (set (dict_keys desired)) (rs_world s) (rs_world s')"
proof -
  let ?W = "set (dict_keys desired)" let ?P = "droppable re managed ?W"
  from assms(1) obtain x1 s1 x2 s2 x3 s3 x4 s4 where
    1: "run_all (drop_phase_step re) (r_iter re ((existing \<inter> managed) - ?W)) s = (x1, s1)"
    and 2: "run_all (ingest_phase_step re (\<lambda>_. None) desired)
           (sort_ingestion_order (r_resolve re) (r_pinned re) (?W - existing) desired)
           (s1\<lparr>rs_result := (rs_result s1)\<lparr>sr_skipped := sorted_list_of_set (existing - managed - ?W)\<rparr>\<rparr>) = (x2, s2)"
    and 3: "run_all (ingest_phase_step re (r_meta re) desired)
           (sorted_list_of_set (to_resume re (sw_progress (rs_world s2)) (existing \<inter> ?W))) s2 = (x3, s3)"
    and 4: "run_all (update_phase_step re (sw_progress (rs_world s3)) desired)
           (sort_ingestion_order (r_resolve re) (r_pinned re)
             ((existing \<inter> ?W) - to_resume re (sw_progress (rs_world s2)) (existing \<inter> ?W)) desired) s3 = (x4, s4)"
    and e: "rs_world s' = rs_world s1 \<or> rs_world s' = rs_world s2 \<or> rs_world s' = rs_world s3 \<or> rs_world s' = rs_world s4"
    by (rule sync_phases_cases)
  have t1: "touches ?P ?W (rs_world s) (rs_world s1)"
  proof (rule run_all_touches [OF 1])
    fix n a r a' assume n: "n \<in> set (r_iter re ((existing \<inter> managed) - ?W))" "drop_phase_step re n a = (r, a')"
    have "set (r_iter re ((existing \<inter> managed) - ?W)) = (existing \<inter> managed) - ?W" using assms(2,3) by (simp add: iter_ok_def)
    with n(1) have "n \<in> managed" "n \<notin> ?W" by auto
    with n(2) show "touches ?P ?W (rs_world a) (rs_world a')" by (intro drop_step_touches) (auto simp: droppable_def)
  qed
  have t2: "touches ?P ?W (rs_world s1) (rs_world s2)"
    using run_all_touches [OF 2, of ?P ?W] by (auto simp: sort_ingestion_set intro: ingest_step_touches)
  have "set (sorted_list_of_set (to_resume re (sw_progress (rs_world s2)) (existing \<inter> ?W))) \<subseteq> ?W"
    using assms(3) to_resume_subset [of re _ "existing \<inter> ?W"]
    by (metis Int_lower2 finite_Int finite_subset order_trans set_sorted_list_of_set)
  then have t3: "touches ?P ?W (rs_world s2) (rs_world s3)"
    by (intro run_all_touches [OF 3]) (auto intro: ingest_step_touches)
  have t4: "touches ?P ?W (rs_world s3) (rs_world s4)"
    by (rule run_all_touches [OF 4]) (use assms(3) in \<open>auto simp: sort_ingestion_set intro: update_step_touches\<close>)
  from e t1 t2 t3 t4 show ?thesis by (metis touches_trans)
qed

end
