(* ===== verification/Sync_Resume.thy ===== *)
theory Sync_Resume
  imports Sync_Facts
begin

text \<open>
  Resuming a collection: what \<open>ingest_collection\<close> does to the processed paths, the recorded times and the documents, and what an
  update that was left half way hands over to it.
\<close>

lemma processed_paths_seen:
  "processed_paths env name file =
     (if ev_has_store env then (case seen_progress (ev_floats env) file name of None \<Rightarrow> [] | Some cp \<Rightarrow> cp_paths cp) else [])"
  by (auto simp: processed_paths_def seen_progress_eq [of "ev_floats env" "file" name "ev_now env"] seen_state_def empty_state_def
      split: sum.split option.split)

lemma processed_safe_update:
  "processed_paths env name (safe_state_update env w name cp f) =
     (if ev_has_store env \<and> f \<noteq> Not_utf8 \<and> w \<noteq> Some False then cp_paths cp else processed_paths env name f)"
  by (simp add: processed_paths_seen seen_safe_update)

lemma processed_update_member:
  "p \<in> set (processed_paths env name f) \<Longrightarrow> p \<in> set (cp_paths cp) \<Longrightarrow> p \<in> set (processed_paths env name (safe_state_update env w name cp f))"
  by (simp add: processed_safe_update)

section \<open>The times recorded at the end\<close>

lemma partial_mtimes_get:
  "dict_get (partial_mtimes v ps ms) k =
     (if k \<in> fv_key v ` set ps \<and> fv_mtime v k \<noteq> None then fv_mtime v k else dict_get ms k)"
  by (induction v ps ms rule: partial_mtimes.induct) (auto split: option.splits)

section \<open>The ingest loop\<close>

definition ingested :: "ingest_try \<Rightarrow> string \<Rightarrow> string \<Rightarrow> bool" where
  "ingested t f key =
     (case ig_ingest t key of Ingest_ok _ \<Rightarrow> True | Ingest_soft _ \<Rightarrow> py_endswith f ''.acl'' | Ingest_exit _ _ \<Rightarrow> False)"

lemma ingest_step_docs:
  "ingest_step env v name e t resume n f a = (r, a') \<Longrightarrow> k \<noteq> fv_key v f \<Longrightarrow> is_docs a' k = is_docs a k"
  by (auto simp: ingest_step_def ingest_file_def Let_def split: ingest_outcome.splits option.splits if_splits prod.splits)

lemma ingest_step_new:
  assumes "ingest_step env v name e t resume n f a = (r, a')"
  shows "is_new a' = (if ingested t f (fv_key v f) then is_new a @ [f] else is_new a)"
  using assms
  by (auto simp: ingest_step_def ingest_file_def ingested_def Let_def split: ingest_outcome.splits option.splits if_splits prod.splits)

lemma ingest_step_stored:
  assumes "ingest_step env v name e t resume n f a = (r, a')" "ingested t f (fv_key v f)"
  shows "is_docs a' (fv_key v f) \<noteq> None \<or> py_endswith f ''.acl''"
  using assms
  by (auto simp: ingest_step_def ingest_file_def ingested_def Let_def split: ingest_outcome.splits option.splits if_splits prod.splits)

lemma ingest_step_progress:
  assumes "ingest_step env v name e t resume n f a = (r, a')"
  shows "is_progress a' = is_progress a \<or>
         (\<exists>w n1 n2. is_progress a' =
            safe_state_update env w name (ingest_progress env Ix_in_progress n1 n2 (resume @ is_new a')) (is_progress a))"
  using assms
  by (auto simp: ingest_step_def ingest_file_def Let_def split: ingest_outcome.splits option.splits if_splits prod.splits; blast)

text \<open>The invariant of the loop over the listed files that are not yet processed.\<close>

definition ingest_inv ::
    "sync_env \<Rightarrow> file_view \<Rightarrow> string \<Rightarrow> string list \<Rightarrow> string set \<Rightarrow> docs \<Rightarrow> ingest_state \<Rightarrow> bool" where
  "ingest_inv env v name resume fs d a \<longleftrightarrow>
     is_progress a \<noteq> Not_utf8 \<and>
     set (is_new a) \<subseteq> fs \<and>
     (\<forall>f \<in> set (is_new a). is_docs a (fv_key v f) \<noteq> None \<or> py_endswith f ''.acl'') \<and>
     (\<forall>k. k \<notin> fv_key v ` fs \<longrightarrow> is_docs a k = d k) \<and>
     set resume \<subseteq> set (processed_paths env name (is_progress a)) \<and>
     set (processed_paths env name (is_progress a)) \<subseteq> set resume \<union> set (is_new a)"

lemma ingest_progress_simps [simp]:
  "cp_paths (ingest_progress env st n1 n2 ps) = ps" "cp_status (ingest_progress env st n1 n2 ps) = st"
  by (simp_all add: ingest_progress_def new_progress_def)

lemma ingest_step_inv:
  assumes "ingest_step env v name e t resume n f a = (r, a')" "ingest_inv env v name resume fs d a"
    and "f \<in> fs" "inj_on (fv_key v) fs" "f \<notin> set (is_new a)"
  shows "ingest_inv env v name resume fs d a'"
proof -
  have new: "set (is_new a) \<subseteq> set (is_new a')" "set (is_new a') \<subseteq> insert f (set (is_new a))"
    using ingest_step_new [OF assms(1)] by auto
  have other: "is_docs a' (fv_key v g) = is_docs a (fv_key v g)" if "g \<in> fs" "g \<noteq> f" for g
    using that assms(3,4) by (intro ingest_step_docs [OF assms(1)]) (auto simp: inj_on_def)
  have "is_docs a' (fv_key v g) \<noteq> None \<or> py_endswith g ''.acl''" if "g \<in> set (is_new a')" for g
  proof (cases "g = f")
    case True
    with that assms(5) have "ingested t f (fv_key v f)" using ingest_step_new [OF assms(1)] by (auto split: if_splits)
    with True ingest_step_stored [OF assms(1)] show ?thesis by simp
  next
    case False
    with that new(2) have g: "g \<in> set (is_new a)" by blast
    with assms(2) have "g \<in> fs" "is_docs a (fv_key v g) \<noteq> None \<or> py_endswith g ''.acl''" by (auto simp: ingest_inv_def)
    with False other [of g] show ?thesis by simp
  qed
  moreover have "is_docs a' k = d k" if "k \<notin> fv_key v ` fs" for k
    using that assms(2,3) ingest_step_docs [OF assms(1), of k] by (auto simp: ingest_inv_def)
  moreover have "is_progress a' \<noteq> Not_utf8 \<and> set resume \<subseteq> set (processed_paths env name (is_progress a')) \<and>
      set (processed_paths env name (is_progress a')) \<subseteq> set resume \<union> set (is_new a')"
    using ingest_step_progress [OF assms(1)]
  proof
    assume "is_progress a' = is_progress a"
    with assms(2) new(1) show ?thesis by (auto simp: ingest_inv_def)
  next
    assume "\<exists>w n1 n2. is_progress a' =
            safe_state_update env w name (ingest_progress env Ix_in_progress n1 n2 (resume @ is_new a')) (is_progress a)"
    then obtain w n1 n2 where w: "is_progress a' =
            safe_state_update env w name (ingest_progress env Ix_in_progress n1 n2 (resume @ is_new a')) (is_progress a)" by blast
    with assms(2) new(1) show ?thesis
      by (auto simp: ingest_inv_def processed_safe_update safe_update_readable)
  qed
  ultimately show ?thesis using assms(2,3) new(2) by (auto simp: ingest_inv_def)
qed

lemma ingest_loop:
  assumes "run_all (ingest_step env v name e t resume n) xs a = (r, a')" "ingest_inv env v name resume fs d a"
    and "set xs \<subseteq> fs" "inj_on (fv_key v) fs" "distinct xs" "set xs \<inter> set (is_new a) = {}"
  shows "ingest_inv env v name resume fs d a' \<and>
         (r = None \<longrightarrow> is_new a' = is_new a @ filter (\<lambda>f. ingested t f (fv_key v f)) xs)"
  using assms
proof (induction xs arbitrary: a)
  case (Cons f xs)
  obtain r1 a1 where s: "ingest_step env v name e t resume n f a = (r1, a1)" by fastforce
  have i: "ingest_inv env v name resume fs d a1" using ingest_step_inv [OF s Cons.prems(2)] Cons.prems by auto
  have n: "is_new a1 = (if ingested t f (fv_key v f) then is_new a @ [f] else is_new a)" by (rule ingest_step_new [OF s])
  show ?case
  proof (cases r1)
    case None
    with Cons.prems(1) s have "run_all (ingest_step env v name e t resume n) xs a1 = (r, a')" by simp
    from Cons.IH [OF this i] Cons.prems n show ?thesis by (auto split: if_splits)
  qed (use Cons.prems(1) s i in auto)
qed simp

lemma ingest_directory_inv:
  assumes "ingest_directory env v name e t resume n a = (r, a')" "ingest_inv env v name resume fs d a" "is_new a = []"
    and "inj_on (fv_key v) fs"
    and "\<And>files. ig_listing t = Inr files \<Longrightarrow> distinct files \<and> set files - set resume \<subseteq> fs"
  shows "ingest_inv env v name resume fs d a'"
    and "r = None \<Longrightarrow> \<exists>files. ig_listing t = Inr files \<and>
           is_new a' = filter (\<lambda>f. ingested t f (fv_key v f)) (filter (\<lambda>f. f \<notin> set resume) files)"
proof -
  have "ingest_inv env v name resume fs d a' \<and>
        (r = None \<longrightarrow> (\<exists>files. ig_listing t = Inr files \<and>
           is_new a' = filter (\<lambda>f. ingested t f (fv_key v f)) (filter (\<lambda>f. f \<notin> set resume) files)))"
  proof (cases "ig_listing t")
    case (Inl x)
    with assms(1,2) show ?thesis by (simp add: ingest_directory_def) blast
  next
    case (Inr files)
    obtain r1 a1 where l: "run_all (ingest_step env v name e t resume n) (filter (\<lambda>f. f \<notin> set resume) files) a = (r1, a1)" by fastforce
    from ingest_loop [OF this assms(2) _ assms(4)] assms(3,5) Inr
    have "ingest_inv env v name resume fs d a1 \<and>
      (r1 = None \<longrightarrow> is_new a1 = filter (\<lambda>f. ingested t f (fv_key v f)) (filter (\<lambda>f. f \<notin> set resume) files))" by auto
    then show ?thesis using assms(1) Inr l by (auto simp: ingest_directory_def split: option.splits if_splits)
  qed
  then show "ingest_inv env v name resume fs d a'"
    and "r = None \<Longrightarrow> \<exists>files. ig_listing t = Inr files \<and>
           is_new a' = filter (\<lambda>f. ingested t f (fv_key v f)) (filter (\<lambda>f. f \<notin> set resume) files)" by blast+
qed

section \<open>A whole run\<close>

text \<open>The state with which the loop starts.\<close>

definition ingest_start :: "sync_env \<Rightarrow> string \<Rightarrow> ingest_try \<Rightarrow> docs \<Rightarrow> progress_file \<Rightarrow> ingest_state" where
  "ingest_start env name t d file =
     (let resume = processed_paths env name file;
          file = (if resume = [] then safe_state_update env (ig_save t 0) name (new_progress Ix_pending) file else file)
      in \<lparr>is_new = [], is_errors = 0, is_docs = d,
          is_progress = safe_state_update env (ig_save t 1) name
            (ingest_progress env Ix_in_progress (length resume) (length resume) resume) file\<rparr>)"

lemma ingest_start_inv:
  assumes "file \<noteq> Not_utf8"
  shows "ingest_inv env v name (processed_paths env name file) fs d (ingest_start env name t d file)"
  using assms
  by (auto simp: ingest_inv_def ingest_start_def Let_def safe_update_readable processed_safe_update new_progress_def)

text \<open>What is recorded when a run ends by itself.\<close>

definition settled_progress ::
    "sync_env \<Rightarrow> indexing_status \<Rightarrow> ingest_try \<Rightarrow> string \<Rightarrow> string list \<Rightarrow> collection_progress \<Rightarrow> bool" where
  "settled_progress env st t model paths cp \<longleftrightarrow>
     cp_status cp = st \<and> cp_paths cp = paths \<and> cp_mtimes cp = partial_mtimes (ig_view t) paths [] \<and> cp_model cp = model \<and>
     cp_chunk_size cp = Some (ev_chunk_size env)"

lemma ingest_collection_cases:
  assumes "ingest_collection env v name t meta d file = (res, d', file')"
  obtains r a' n where
    "ingest_directory env v name (chosen_embedder env (active_model meta)) t (processed_paths env name file) n
       (ingest_start env name t d file) = (r, a')"
    and "d' = is_docs a'"
    and "r = Some Cancelled \<and> res = Write_cancelled \<and> file' = is_progress a' \<or>
         (\<exists>cp. file' = safe_state_update env (ig_last_save t) name cp (is_progress a') \<and>
            (r = Some Raised \<and> res = Write_failed \<and>
               settled_progress env Ix_failed t (active_model meta) (processed_paths env name file @ is_new a') cp \<or>
             r = None \<and> res = Written \<and>
               settled_progress env Ix_done t (active_model meta) (processed_paths env name file @ is_new a') cp))"
proof -
  let ?n = "length (filter (\<lambda>f. f \<notin> set (processed_paths env name file)) (ig_eligible t))"
  obtain r a' where l: "ingest_directory env v name (chosen_embedder env (active_model meta)) t (processed_paths env name file) ?n
       (ingest_start env name t d file) = (r, a')" by fastforce
  note eq = assms [unfolded ingest_collection_def Let_def, folded ingest_start_def [unfolded Let_def], unfolded l]
  show ?thesis
  proof (rule that [OF l])
    show "d' = is_docs a'" using eq by (auto split: option.splits exit.splits)
    show "r = Some Cancelled \<and> res = Write_cancelled \<and> file' = is_progress a' \<or>
         (\<exists>cp. file' = safe_state_update env (ig_last_save t) name cp (is_progress a') \<and>
            (r = Some Raised \<and> res = Write_failed \<and>
               settled_progress env Ix_failed t (active_model meta) (processed_paths env name file @ is_new a') cp \<or>
             r = None \<and> res = Written \<and>
               settled_progress env Ix_done t (active_model meta) (processed_paths env name file @ is_new a') cp))"
      using eq by (cases r) (auto simp: settled_progress_def split: exit.splits intro!: exI)
  qed
qed

end
