(* ===== verification/Sync_Update_Properties.thy ===== *)
theory Sync_Update_Properties
  imports Sync_Facts Sync_Name_Facts
begin

text \<open>
  Keeping a collection equal to its directory: what an update does, when the next check finds nothing left to do, what is tried again,
  and what an interrupted update leaves.
\<close>

section \<open>The documents after an update\<close>

text \<open>The specification: deleted paths are gone, ingested files hold the content that was read, everything else is as it was.\<close>

definition updated_docs ::
    "sync_env \<Rightarrow> file_view \<Rightarrow> string \<Rightarrow> apply_try \<Rightarrow> change_set \<Rightarrow> docs \<Rightarrow> docs" where
  "updated_docs env v model t ch d k =
     (if k \<in> set (deleted_paths ch) then None
      else case find (\<lambda>f. fv_key v f = k) (changed_files ch @ new_files ch) of
             None \<Rightarrow> d k
           | Some f \<Rightarrow>
               if py_endswith f ''.acl'' then d k
               else case at_ingest t k of
                      Ingest_ok u \<Rightarrow> Some (u, chosen_embedder env model)
                    | Ingest_soft left \<Rightarrow> left
                    | Ingest_exit x left \<Rightarrow> d k)"

lemma file_step_docs:
  assumes "file_step env v name model t b f a = (None, a')"
  shows "as_docs a' (fv_key v f) =
           (if py_endswith f ''.acl'' then as_docs a (fv_key v f)
            else case at_ingest t (fv_key v f) of
                   Ingest_ok u \<Rightarrow> Some (u, chosen_embedder env model)
                 | Ingest_soft left \<Rightarrow> left
                 | Ingest_exit x left \<Rightarrow> as_docs a (fv_key v f))"
  using assms
  by (auto simp: file_step_def ingest_file_def Let_def split: ingest_outcome.splits option.splits if_splits prod.splits)

lemma file_loop_docs:
  assumes "run_all (file_step env v name model t b) fs a = (None, a')" "f \<in> set fs" "distinct (map (fv_key v) fs)"
  shows "as_docs a' (fv_key v f) =
           (if py_endswith f ''.acl'' then as_docs a (fv_key v f)
            else case at_ingest t (fv_key v f) of
                   Ingest_ok u \<Rightarrow> Some (u, chosen_embedder env model)
                 | Ingest_soft left \<Rightarrow> left
                 | Ingest_exit x left \<Rightarrow> as_docs a (fv_key v f))"
proof -
  obtain w1 w2 where w: "file_step env v name model t b f w1 = (None, w2)" "entry_of (fv_key v f) w1 = entry_of (fv_key v f) a"
      "entry_of (fv_key v f) a' = entry_of (fv_key v f) w2"
    using file_loop_last [OF assms] by blast
  then have "as_docs w1 (fv_key v f) = as_docs a (fv_key v f)" "as_docs a' (fv_key v f) = as_docs w2 (fv_key v f)"
    by (simp_all add: entry_of_def)
  with file_step_docs [OF w(1)] show ?thesis by (simp split: ingest_outcome.split)
qed

lemma find_key:
  assumes "distinct (map g fs)" "f \<in> set fs"
  shows "find (\<lambda>x. g x = g f) fs = Some f"
proof (cases "find (\<lambda>x. g x = g f) fs")
  case None
  with assms(2) show ?thesis by (auto simp: filter_find_None)
next
  case (Some x)
  with assms show ?thesis by (auto simp: distinct_map inj_on_def dest!: find_SomeD)
qed

lemma apply_loops_docs:
  assumes "apply_loops env v name model t ch a = (None, a')" "changes_ok v ch"
  shows "as_docs a' = updated_docs env v model t ch (as_docs a)"
proof
  fix k
  from assms(1) obtain a1 a2 where 1: "run_all (delete_step env name model t) (deleted_paths ch) a = (None, a1)"
    and 2: "run_all (file_step env v name model t True) (changed_files ch) a1 = (None, a2)"
    and 3: "run_all (file_step env v name model t False) (new_files ch) a2 = (None, a')" by (rule apply_loops_None)
  note ok = assms(2) [unfolded changes_ok_def]
  have d: "distinct (map (fv_key v) (changed_files ch @ new_files ch))" using ok by blast
  then have d2: "distinct (map (fv_key v) (changed_files ch))" "distinct (map (fv_key v) (new_files ch))" by simp_all
  consider "k \<in> set (deleted_paths ch)"
    | f where "f \<in> set (changed_files ch)" "k = fv_key v f" | f where "f \<in> set (new_files ch)" "k = fv_key v f"
    | "k \<notin> set (deleted_paths ch)" "k \<notin> fv_key v ` (set (changed_files ch) \<union> set (new_files ch))" by blast
  then show "as_docs a' k = updated_docs env v model t ch (as_docs a) k"
  proof cases
    case 1
    then show ?thesis using apply_loops_deleted [OF assms] by (simp add: updated_docs_def)
  next
    case (2 f)
    then have n: "k \<notin> set (deleted_paths ch)" using ok by auto
    have "k \<notin> fv_key v ` set (new_files ch)" using 2 d by auto
    from file_loop_frame [OF 3 this] have e: "entry_of k a' = entry_of k a2" .
    have "find (\<lambda>x. fv_key v x = k) (changed_files ch @ new_files ch) = Some f" using find_key [OF d, of f] 2 by simp
    with e file_loop_docs [OF \<open>run_all (file_step env v name model t True) (changed_files ch) a1 = (None, a2)\<close> 2(1) d2(1)]
      delete_loop_frame [OF \<open>run_all (delete_step env name model t) (deleted_paths ch) a = (None, a1)\<close> n] n 2
    show ?thesis by (auto simp: updated_docs_def entry_of_def split: ingest_outcome.splits)
  next
    case (3 f)
    then have n: "k \<notin> set (deleted_paths ch)" using ok by auto
    have "k \<notin> fv_key v ` set (changed_files ch)" using 3 d by auto
    from file_loop_frame [OF 2 this] have e: "entry_of k a2 = entry_of k a1" .
    have "find (\<lambda>x. fv_key v x = k) (changed_files ch @ new_files ch) = Some f" using find_key [OF d, of f] 3 by simp
    with e file_loop_docs [OF \<open>run_all (file_step env v name model t False) (new_files ch) a2 = (None, a')\<close> 3(1) d2(2)]
      delete_loop_frame [OF \<open>run_all (delete_step env name model t) (deleted_paths ch) a = (None, a1)\<close> n] n 3
    show ?thesis by (auto simp: updated_docs_def entry_of_def split: ingest_outcome.splits)
  next
    case 4
    then have "find (\<lambda>x. fv_key v x = k) (changed_files ch @ new_files ch) = None" by (auto simp: filter_find_None)
    with apply_loops_frame [OF assms(1) 4] 4 show ?thesis by (simp add: updated_docs_def entry_of_def)
  qed
qed

section \<open>Detection\<close>

lemma detection_exact:
  assumes "\<not> force_full_reindex env im ics meta"
  shows "f \<in> set (new_files (check_collection_changes env v eligible mtimes im ics meta)) \<longleftrightarrow>
           f \<in> set eligible \<and> dict_get mtimes (fv_key v f) = None"
    and "f \<in> set (changed_files (check_collection_changes env v eligible mtimes im ics meta)) \<longleftrightarrow>
           f \<in> set eligible \<and> dict_get mtimes (fv_key v f) \<noteq> None \<and>
           (fv_mtime v f = None \<or> fv_mtime v f \<noteq> dict_get mtimes (fv_key v f))"
  using assms by (auto simp: check_collection_changes_def looks_changed_def Let_def split: option.splits)

lemma detection_deleted:
  "k \<in> set (deleted_paths (check_collection_changes env v eligible mtimes im ics meta)) \<longleftrightarrow>
     dict_get mtimes k \<noteq> None \<and> k \<notin> fv_key v ` set eligible"
  using dict_get_None_iff [of mtimes k] by (auto simp: check_collection_changes_def Let_def)

lemma detection_forced:
  "force_full_reindex env im ics meta \<Longrightarrow>
   changed_files (check_collection_changes env v eligible mtimes im ics meta) = eligible \<and>
   new_files (check_collection_changes env v eligible mtimes im ics meta) = []"
  by (simp add: check_collection_changes_def Let_def)

lemma touched_eligible:
  "f \<in> set (changed_files (check_collection_changes env v eligible mtimes im ics meta)) \<union>
       set (new_files (check_collection_changes env v eligible mtimes im ics meta)) \<Longrightarrow> f \<in> set eligible"
  by (auto simp: check_collection_changes_def Let_def split: if_splits)

text \<open>An eligible file that the check leaves out is recorded with its present time.\<close>

lemma untouched_current:
  assumes "f \<in> set eligible"
    and "f \<notin> set (changed_files (check_collection_changes env v eligible mtimes im ics meta)) \<union>
             set (new_files (check_collection_changes env v eligible mtimes im ics meta))"
  shows "dict_get mtimes (fv_key v f) = fv_mtime v f \<and> fv_mtime v f \<noteq> None"
proof (cases "force_full_reindex env im ics meta")
  case True
  with assms show ?thesis by (simp add: detection_forced)
next
  case False
  with assms show ?thesis by (simp add: detection_exact) (metis not_None_eq)
qed

section \<open>Properties\<close>

definition no_changes :: change_set where
  "no_changes = \<lparr>new_files = [], changed_files = [], deleted_paths = [], forced = False\<rparr>"

text \<open>A check against times that are those of the eligible files, and of nothing else, finds nothing.\<close>

lemma clean_check:
  assumes "\<forall>f \<in> set eligible. dict_get ms (fv_key v f) = fv_mtime v f \<and> fv_mtime v f \<noteq> None"
    and "\<forall>k. k \<notin> fv_key v ` set eligible \<longrightarrow> dict_get ms k = None"
  shows "check_collection_changes env v eligible ms (active_model meta) (Some (ev_chunk_size env)) meta = no_changes"
proof -
  let ?c = "check_collection_changes env v eligible ms (active_model meta) (Some (ev_chunk_size env)) meta"
  have nf: "\<not> force_full_reindex env (active_model meta) (Some (ev_chunk_size env)) meta" by (simp add: force_full_reindex_def)
  have "set (new_files ?c) = {}" "set (changed_files ?c) = {}" "set (deleted_paths ?c) = {}"
    using assms detection_exact [OF nf, of _ v eligible ms]
      detection_deleted [of _ env v eligible ms "active_model meta" "Some (ev_chunk_size env)" meta]
    by (metis all_not_in_conv)+
  moreover have "forced ?c = False" using nf by (simp add: check_collection_changes_def Let_def)
  ultimately show ?thesis by (simp add: no_changes_def)
qed

text \<open>After a run in which every ingest succeeded the recorded times are exactly those of the eligible files.\<close>

lemma run_times_current:
  assumes run: "apply_loops env v name model t ch (start_state env name t mtimes model d file) = (None, a')"
    and ch: "ch = check_collection_changes env v eligible mtimes im ics meta"
    and ok: "distinct (map (fv_key v) eligible)" "dict_ok mtimes"
    and good: "\<forall>f \<in> set (changed_files ch) \<union> set (new_files ch).
           fv_mtime v f \<noteq> None \<and> at_stat t f = fv_mtime v f \<and> ingests t f (fv_key v f)"
  shows "\<forall>f \<in> set eligible. dict_get (as_mtimes a') (fv_key v f) = fv_mtime v f \<and> fv_mtime v f \<noteq> None"
    and "\<forall>k. k \<notin> fv_key v ` set eligible \<longrightarrow> dict_get (as_mtimes a') k = None"
proof -
  have cok: "changes_ok v ch" unfolding ch using ok by (rule check_changes_ok)
  have "dict_get (as_mtimes a') (fv_key v f) = fv_mtime v f \<and> fv_mtime v f \<noteq> None" if f: "f \<in> set eligible" for f
  proof (cases "f \<in> set (changed_files ch) \<union> set (new_files ch)")
    case True
    with good have "fv_mtime v f \<noteq> None" "at_stat t f = fv_mtime v f" "ingests t f (fv_key v f)" by blast+
    with apply_loops_ok(1) [OF run cok True] show ?thesis by auto
  next
    case False
    have "fv_key v f \<notin> fv_key v ` (set (changed_files ch) \<union> set (new_files ch))"
      using False f ok(1) touched_eligible [of _ env v eligible mtimes im ics meta] unfolding ch
      by (auto simp: distinct_map inj_on_def)
    moreover have "fv_key v f \<notin> set (deleted_paths ch)" unfolding ch detection_deleted using f by auto
    ultimately have "entry_of (fv_key v f) a' = entry_of (fv_key v f) (start_state env name t mtimes model d file)"
      by (intro apply_loops_frame [OF run])
    with untouched_current [of f eligible env v mtimes im ics meta] f False ch show ?thesis by (simp add: entry_of_def)
  qed
  then show "\<forall>f \<in> set eligible. dict_get (as_mtimes a') (fv_key v f) = fv_mtime v f \<and> fv_mtime v f \<noteq> None" by blast
  have "dict_get (as_mtimes a') k = None" if k: "k \<notin> fv_key v ` set eligible" for k
  proof (cases "dict_get mtimes k")
    case None
    have "k \<notin> set (deleted_paths ch)" unfolding ch detection_deleted using None by simp
    moreover have "k \<notin> fv_key v ` (set (changed_files ch) \<union> set (new_files ch))"
      using k touched_eligible [of _ env v eligible mtimes im ics meta] unfolding ch by auto
    ultimately have "entry_of k a' = entry_of k (start_state env name t mtimes model d file)"
      by (intro apply_loops_frame [OF run])
    with None show ?thesis by (simp add: entry_of_def)
  next
    case (Some m)
    then have "k \<in> set (deleted_paths ch)" unfolding ch detection_deleted using k by simp
    from apply_loops_deleted(2) [OF run cok this] show ?thesis .
  qed
  then show "\<forall>k. k \<notin> fv_key v ` set eligible \<longrightarrow> dict_get (as_mtimes a') k = None" by blast
qed

text \<open>
  C22: an update that runs to its end makes the collection what the directory is, and the next check agrees. With a state store
  whose last write lands, a chunk size that is not zero, every ingest successful and the directory at rest, the documents are exactly the specification (deleted paths gone, new and changed files with the
  content that was read, the rest untouched), the recorded state is done, and checking the same directory against what was recorded
  reports no new, changed or deleted file and forces no re-index.
\<close>

theorem update_converges:
  assumes "apply_collection_changes env v name t ch mtimes meta d file = (Written, d', file')"
    and "ch = check_collection_changes env v eligible mtimes im ics meta"
    and "ev_has_store env" "ev_chunk_size env \<noteq> 0" "at_last_save t = None"
    and "distinct (map (fv_key v) eligible)" "dict_ok mtimes"
    and "\<forall>f \<in> set (changed_files ch) \<union> set (new_files ch).
           fv_mtime v f \<noteq> None \<and> at_stat t f = fv_mtime v f \<and> ingests t f (fv_key v f)"
  shows "d' = updated_docs env v (active_model meta) t ch d \<and>
         (\<exists>cp. seen_progress (ev_floats env) file' name = Some cp \<and> cp_status cp = Ix_done \<and>
           check_collection_changes env v eligible (cp_mtimes cp) (cp_model cp) (cp_chunk_size cp) meta = no_changes)"
proof -
  from assms(1,3) obtain a' where a: "file \<noteq> Not_utf8"
      "apply_loops env v name (active_model meta) t ch (start_state env name t mtimes (active_model meta) d file) = (None, a')"
      "d' = as_docs a'"
      "file' = safe_state_update env (at_last_save t) name (applied_progress env (active_model meta) Ix_done a') (as_file a')"
      "as_file a' \<noteq> Not_utf8"
    by (rule apply_written)
  have ok: "changes_ok v ch" unfolding assms(2) using assms(6,7) by (rule check_changes_ok)
  from apply_loops_docs [OF a(2) ok] a(3) have docs: "d' = updated_docs env v (active_model meta) t ch d" by simp
  let ?cp = "read_back (applied_progress env (active_model meta) Ix_done a')"
  have seen: "seen_progress (ev_floats env) file' name = Some ?cp"
    using assms(3,5) a(4,5) by (simp add: seen_safe_update)
  have "check_collection_changes env v eligible (as_mtimes a') (active_model meta) (Some (ev_chunk_size env)) meta = no_changes"
    by (rule clean_check) (use run_times_current [OF a(2) assms(2)] assms(6-8) in auto)
  moreover have "cp_chunk_size ?cp = Some (ev_chunk_size env)" using assms(4) by (simp add: read_back_def)
  ultimately have "\<exists>cp. seen_progress (ev_floats env) file' name = Some cp \<and> cp_status cp = Ix_done \<and>
      check_collection_changes env v eligible (cp_mtimes cp) (cp_model cp) (cp_chunk_size cp) meta = no_changes"
    using seen by (intro exI [of _ ?cp]) simp
  with docs show ?thesis ..
qed

text \<open>
  A file whose ingest fails softly is tried again. When a check reported it as new or changed (and forced nothing), then after an update
  that ran to its end and recorded it, the recorded time of the file is not its present one: any check of the
  same directory against the recorded state reports it again.
\<close>

lemma soft_failures_are_retried:
  assumes "apply_collection_changes env v name t ch mtimes meta d file = (Written, d', file')"
    and "ch = check_collection_changes env v eligible mtimes im ics meta" "\<not> force_full_reindex env im ics meta"
    and "ev_has_store env" "distinct (map (fv_key v) eligible)" "dict_ok mtimes"
    and "at_last_save t = None"
    and "f \<in> set (changed_files ch) \<union> set (new_files ch)" "\<not> ingests t f (fv_key v f)"
  shows "\<exists>cp. seen_progress (ev_floats env) file' name = Some cp \<and>
           f \<in> set (changed_files (check_collection_changes env v eligible (cp_mtimes cp) im' ics' meta')) \<union>
               set (new_files (check_collection_changes env v eligible (cp_mtimes cp) im' ics' meta'))"
proof -
  from assms(1,4) obtain a' where a: "file \<noteq> Not_utf8"
      "apply_loops env v name (active_model meta) t ch (start_state env name t mtimes (active_model meta) d file) = (None, a')"
      "d' = as_docs a'"
      "file' = safe_state_update env (at_last_save t) name (applied_progress env (active_model meta) Ix_done a') (as_file a')"
      "as_file a' \<noteq> Not_utf8"
    by (rule apply_written)
  have ok: "changes_ok v ch" unfolding assms(2) using assms(5,6) by (rule check_changes_ok)
  have m: "dict_get (as_mtimes a') (fv_key v f) = dict_get mtimes (fv_key v f)"
    using apply_loops_not_ok [OF a(2) ok assms(8,9)] by simp
  have e: "f \<in> set eligible" using assms(8) unfolding assms(2) by (rule touched_eligible)
  have "dict_get mtimes (fv_key v f) = None \<or> fv_mtime v f = None \<or> fv_mtime v f \<noteq> dict_get mtimes (fv_key v f)"
    using assms(8) unfolding assms(2) by (auto simp: detection_exact [OF assms(3)])
  with m e have "f \<in> set (changed_files (check_collection_changes env v eligible (as_mtimes a') im' ics' meta')) \<union>
               set (new_files (check_collection_changes env v eligible (as_mtimes a') im' ics' meta'))"
    by (cases "force_full_reindex env im' ics' meta'") (auto simp: detection_forced detection_exact)
  then show ?thesis using assms(4,7) a(4,5) by (simp add: seen_safe_update)
qed

section \<open>Where a forced re-index and the eligible files fall short\<close>

text \<open>
  In a forced re-index a soft failure is not tried again: the file keeps its recorded time, which is its present one, and the new model and
  chunk size are recorded for the whole collection, so the next check neither forces nor reports anything for it.
\<close>

lemma forced_failure_forgotten:
  assumes "apply_collection_changes env v name t ch mtimes meta d file = (Written, d', file')"
    and "ch = check_collection_changes env v eligible mtimes im ics meta"
    and "ev_has_store env" "ev_chunk_size env \<noteq> 0" "distinct (map (fv_key v) eligible)" "dict_ok mtimes" "at_last_save t = None"
    and "f \<in> set (changed_files ch) \<union> set (new_files ch)" "\<not> ingests t f (fv_key v f)"
    and "fv_mtime v f \<noteq> None" "dict_get mtimes (fv_key v f) = fv_mtime v f"
  shows "\<exists>cp. seen_progress (ev_floats env) file' name = Some cp \<and>
           f \<notin> set (changed_files (check_collection_changes env v eligible (cp_mtimes cp) (cp_model cp) (cp_chunk_size cp) meta)) \<union>
               set (new_files (check_collection_changes env v eligible (cp_mtimes cp) (cp_model cp) (cp_chunk_size cp) meta))"
proof -
  from assms(1,3) obtain a' where a: "file \<noteq> Not_utf8"
      "apply_loops env v name (active_model meta) t ch (start_state env name t mtimes (active_model meta) d file) = (None, a')"
      "d' = as_docs a'"
      "file' = safe_state_update env (at_last_save t) name (applied_progress env (active_model meta) Ix_done a') (as_file a')"
      "as_file a' \<noteq> Not_utf8"
    by (rule apply_written)
  have ok: "changes_ok v ch" unfolding assms(2) using assms(5,6) by (rule check_changes_ok)
  have m: "dict_get (as_mtimes a') (fv_key v f) = fv_mtime v f"
    using apply_loops_not_ok [OF a(2) ok assms(8,9)] assms(11) by simp
  have "\<not> force_full_reindex env (active_model meta) (Some (ev_chunk_size env)) meta" by (simp add: force_full_reindex_def)
  from detection_exact [OF this, of f v eligible "as_mtimes a'"] m assms(10)
  have "f \<notin> set (changed_files (check_collection_changes env v eligible (as_mtimes a') (active_model meta) (Some (ev_chunk_size env)) meta)) \<union>
            set (new_files (check_collection_changes env v eligible (as_mtimes a') (active_model meta) (Some (ev_chunk_size env)) meta))"
    by auto
  then show ?thesis using assms(3,4,7) a(4,5) by (simp add: seen_safe_update read_back_def)
qed

text \<open>
  When the row of a collection cannot be read, its own model is unknown. A collection that was indexed with a model of its own is then
  re-indexed in full with the global model, and the recorded model is empty: the model test of later checks is off for good.
\<close>

lemma unreadable_row_reembeds:
  assumes "apply_collection_changes env v name t ch mtimes None d file = (Written, d', file')"
    and "ch = check_collection_changes env v eligible mtimes im ics None" "im \<noteq> []"
    and "ev_has_store env" "distinct (map (fv_key v) eligible)" "dict_ok mtimes" "at_last_save t = None"
    and "f \<in> set eligible" "\<not> py_endswith f ''.acl''" "at_ingest t (fv_key v f) = Ingest_ok u"
  shows "d' (fv_key v f) = Some (u, ev_global env) \<and>
         (\<exists>cp. seen_progress (ev_floats env) file' name = Some cp \<and> cp_model cp = [])"
proof -
  from assms(1,4) obtain a' where a: "file \<noteq> Not_utf8"
      "apply_loops env v name (active_model None) t ch (start_state env name t mtimes (active_model None) d file) = (None, a')"
      "d' = as_docs a'"
      "file' = safe_state_update env (at_last_save t) name (applied_progress env (active_model None) Ix_done a') (as_file a')"
      "as_file a' \<noteq> Not_utf8"
    by (rule apply_written)
  have ok: "changes_ok v ch" unfolding assms(2) using assms(5,6) by (rule check_changes_ok)
  have "force_full_reindex env im ics None" using assms(3) by (auto simp: force_full_reindex_def active_model_def)
  then have "f \<in> set (changed_files ch) \<union> set (new_files ch)" using assms(2,8) by (simp add: detection_forced)
  moreover have "ingests t f (fv_key v f)" using assms(10) by (simp add: ingests_def)
  ultimately have "as_docs a' (fv_key v f) = Some (u, chosen_embedder env (active_model None))"
    using apply_loops_ok(3) [OF a(2) ok] assms(9,10) by blast
  then show ?thesis using a(3-5) assms(4,7) by (simp add: seen_safe_update chosen_embedder_def active_model_def)
qed

text \<open>
  The files a check looks at are not the files a directory ingest takes. A file below a pruned directory is eligible here, while
  \<open>os_walk\<close> never descends into the directory.
\<close>

lemma pruned_files_are_eligible:
  assumes "p \<in> set pruned_directory_names"
  shows "is_eligible \<lparr>ge_parts = [p, ''readme.md''], ge_symlink = False, ge_file = True\<rparr> \<and> \<not> descends fs pol (root @ [p])"
proof -
  have "is_eligible \<lparr>ge_parts = [p, ''readme.md''], ge_symlink = False, ge_file = True\<rparr>"
    if "p \<in> {''node_modules'', ''__pycache__'', ''venv'', ''site-packages''}"
    using that by (elim insertE emptyE; simp; code_simp)
  then show ?thesis using assms by (simp add: pruned_directory_names_def descends_def path_name_def)
qed

text \<open>
  The modification time is taken after the file was read. A file that is written in between is stored with its old content under its new
  time, and a check that sees this time does not report it.
\<close>

lemma late_stat_hides_change:
  assumes "apply_collection_changes env v name t ch mtimes meta d file = (Written, d', file')"
    and "ev_has_store env" "changes_ok v ch" "at_last_save t = None"
    and "f \<in> set (changed_files ch) \<union> set (new_files ch)" "\<not> py_endswith f ''.acl''"
    and "at_ingest t (fv_key v f) = Ingest_ok u" "at_stat t f = Some m"
    and "fv_key v' f = fv_key v f" "fv_mtime v' f = Some m"
  shows "d' (fv_key v f) = Some (u, chosen_embedder env (active_model meta)) \<and>
         (\<exists>cp. seen_progress (ev_floats env) file' name = Some cp \<and> \<not> looks_changed v' (cp_mtimes cp) f)"
proof -
  from assms(1,2) obtain a' where a: "file \<noteq> Not_utf8"
      "apply_loops env v name (active_model meta) t ch (start_state env name t mtimes (active_model meta) d file) = (None, a')"
      "d' = as_docs a'"
      "file' = safe_state_update env (at_last_save t) name (applied_progress env (active_model meta) Ix_done a') (as_file a')"
      "as_file a' \<noteq> Not_utf8"
    by (rule apply_written)
  have "ingests t f (fv_key v f)" using assms(7) by (simp add: ingests_def)
  from apply_loops_ok(1,3) [OF a(2) assms(3,5) this] assms(6-8)
  have "as_docs a' (fv_key v f) = Some (u, chosen_embedder env (active_model meta))" "dict_get (as_mtimes a') (fv_key v f) = Some m" by auto
  then show ?thesis using a(3-5) assms(2,4,9,10) by (simp add: seen_safe_update looks_changed_def)
qed

end
