(* ===== verification/Sync_Resume_Properties.thy ===== *)
theory Sync_Resume_Properties
  imports Sync_Resume Sync_Update_Properties
begin

text \<open>
  Interrupted work: a first ingest can be interrupted any number of times and still completes; an interrupted update, which is resumed
  by the same code, does not.
\<close>

section \<open>Interrupted first ingests\<close>

text \<open>Runs of \<open>_ingest_collection\<close> one after another, whatever each of them meets.\<close>

fun ingest_runs ::
    "sync_env \<Rightarrow> file_view \<Rightarrow> string \<Rightarrow> collection_meta option \<Rightarrow> ingest_try list \<Rightarrow> docs \<times> progress_file \<Rightarrow> docs \<times> progress_file" where
  "ingest_runs env v name meta [] w = w"
| "ingest_runs env v name meta (t # ts) (d, file) = ingest_runs env v name meta ts (snd (ingest_collection env v name t meta d file))"

definition listing_within :: "string set \<Rightarrow> ingest_try \<Rightarrow> bool" where
  "listing_within F t \<longleftrightarrow> (case ig_listing t of Inl x \<Rightarrow> True | Inr files \<Rightarrow> distinct files \<and> set files \<subseteq> F)"

text \<open>Every processed path is stored.\<close>

definition processed_stored :: "sync_env \<Rightarrow> file_view \<Rightarrow> string \<Rightarrow> string set \<Rightarrow> docs \<Rightarrow> progress_file \<Rightarrow> bool" where
  "processed_stored env v name F d file \<longleftrightarrow>
     file \<noteq> Not_utf8 \<and>
     (\<forall>p \<in> set (processed_paths env name file). p \<in> F \<and> (d (fv_key v p) \<noteq> None \<or> py_endswith p ''.acl''))"

lemma ingest_collection_stored:
  assumes "ingest_collection env v name t meta d file = (res, d', file')"
    and "processed_stored env v name F d file" "listing_within F t" "inj_on (fv_key v) F"
  shows "processed_stored env v name F d' file'"
    and "res = Written \<Longrightarrow> ev_has_store env \<Longrightarrow> ig_last_save t = None \<Longrightarrow> ig_listing t = Inr files \<Longrightarrow>
         \<forall>f \<in> set files. ingested t f (fv_key v f) \<Longrightarrow> set files \<subseteq> set (processed_paths env name file')"
proof -
  let ?resume = "processed_paths env name file" let ?fs = "F - set ?resume"
  from assms(1) obtain r a' n where
    l: "ingest_directory env v name (chosen_embedder env (active_model meta)) t ?resume n (ingest_start env name t d file) = (r, a')"
    and d': "d' = is_docs a'"
    and e: "r = Some Cancelled \<and> res = Write_cancelled \<and> file' = is_progress a' \<or>
         (\<exists>cp. file' = safe_state_update env (ig_last_save t) name cp (is_progress a') \<and>
            (r = Some Raised \<and> res = Write_failed \<and> settled_progress env Ix_failed t (active_model meta) (?resume @ is_new a') cp \<or>
             r = None \<and> res = Written \<and> settled_progress env Ix_done t (active_model meta) (?resume @ is_new a') cp))"
    by (rule ingest_collection_cases)
  have f: "file \<noteq> Not_utf8" using assms(2) by (simp add: processed_stored_def)
  have start: "is_new (ingest_start env name t d file) = []" by (simp add: ingest_start_def Let_def)
  have inj: "inj_on (fv_key v) ?fs" using assms(4) by (rule inj_on_subset) blast
  have within: "\<And>files. ig_listing t = Inr files \<Longrightarrow> distinct files \<and> set files - set ?resume \<subseteq> ?fs"
    using assms(3) by (auto simp: listing_within_def)
  have inv: "ingest_inv env v name ?resume ?fs d a'"
    using ingest_directory_inv(1) [OF l ingest_start_inv [OF f] start inj within] by blast
  have rd: "is_progress a' \<noteq> Not_utf8" using inv by (simp add: ingest_inv_def)
  have sub: "set (processed_paths env name file') \<subseteq> set ?resume \<union> set (is_new a')"
    using e inv rd by (auto simp: processed_safe_update settled_progress_def ingest_inv_def split: if_splits)
  have rd': "file' \<noteq> Not_utf8"
  proof -
    from e have "file' = is_progress a' \<or> (\<exists>cp. file' = safe_state_update env (ig_last_save t) name cp (is_progress a'))" by blast
    with rd show ?thesis by (elim disjE exE) (simp_all add: safe_update_readable)
  qed
  have "p \<in> F \<and> (d' (fv_key v p) \<noteq> None \<or> py_endswith p ''.acl'')" if "p \<in> set (processed_paths env name file')" for p
  proof (cases "p \<in> set ?resume")
    case True
    with assms(2) have p: "p \<in> F" "d (fv_key v p) \<noteq> None \<or> py_endswith p ''.acl''" by (auto simp: processed_stored_def)
    have "fv_key v p \<notin> fv_key v ` ?fs" using True p(1) assms(4) by (auto simp: inj_on_def)
    with inv have "is_docs a' (fv_key v p) = d (fv_key v p)" by (simp add: ingest_inv_def)
    with p d' show ?thesis by simp
  next
    case False
    with that sub have "p \<in> set (is_new a')" by blast
    with inv d' show ?thesis by (auto simp: ingest_inv_def)
  qed
  with rd' show "processed_stored env v name F d' file'" by (simp add: processed_stored_def)
  assume w: "res = Written" "ev_has_store env" "ig_last_save t = None" "ig_listing t = Inr files"
    "\<forall>f \<in> set files. ingested t f (fv_key v f)"
  from w(1) e have r: "r = None" and cp: "\<exists>cp. file' = safe_state_update env (ig_last_save t) name cp (is_progress a') \<and>
      settled_progress env Ix_done t (active_model meta) (?resume @ is_new a') cp" by auto
  from ingest_directory_inv(2) [OF l ingest_start_inv [OF f] start inj within r] w(4)
  have "is_new a' = filter (\<lambda>f. ingested t f (fv_key v f)) (filter (\<lambda>f. f \<notin> set ?resume) files)" by auto
  then have "set files \<subseteq> set (?resume @ is_new a')" using w(5) by auto
  moreover from cp w(2,3) rd have "processed_paths env name file' = ?resume @ is_new a'"
    by (auto simp: processed_safe_update settled_progress_def)
  ultimately show "set files \<subseteq> set (processed_paths env name file')" by simp
qed

lemma ingest_runs_stored:
  "processed_stored env v name F d file \<Longrightarrow> \<forall>t \<in> set ts. listing_within F t \<Longrightarrow> inj_on (fv_key v) F \<Longrightarrow>
   ingest_runs env v name meta ts (d, file) = (d', file') \<Longrightarrow> processed_stored env v name F d' file'"
proof (induction ts arbitrary: d "file")
  case (Cons t ts)
  obtain res d1 file1 where r: "ingest_collection env v name t meta d file = (res, d1, file1)" by (metis prod_cases3)
  have "processed_stored env v name F d1 file1"
    using ingest_collection_stored(1) [OF r Cons.prems(1)] Cons.prems(2,3) by simp
  from Cons.IH [OF this] Cons.prems r show ?case by simp
qed simp

text \<open>
  C23: a first ingest survives any number of interruptions. Start a collection with nothing processed, run its ingest any number of times,
  each run failing, being cancelled or losing state writes anywhere; then one run that ends, stores what it is given and records
  it. Every file that run listed is then recorded as processed and, unless it is an \<open>.acl\<close> sidecar, has its document in the collection, also the files it skipped because an
  earlier run had done them.
\<close>

theorem first_ingest_survives_interruptions:
  assumes "file \<noteq> Not_utf8" "processed_paths env name file = []" "ev_has_store env"
    and "\<forall>t \<in> set (u # ts). listing_within F t" "inj_on (fv_key v) F"
    and "ingest_runs env v name meta ts (d, file) = (d1, file1)"
    and "ingest_collection env v name u meta d1 file1 = (Written, d2, file2)"
    and "ig_last_save u = None" "ig_listing u = Inr files" "\<forall>f \<in> set files. ingested u f (fv_key v f)"
  shows "\<forall>f \<in> set files. f \<in> set (processed_paths env name file2) \<and> (d2 (fv_key v f) \<noteq> None \<or> py_endswith f ''.acl'')"
proof -
  have "processed_stored env v name F d file" using assms(1,2) by (simp add: processed_stored_def)
  from ingest_runs_stored [OF this _ assms(5,6)] assms(4) have s: "processed_stored env v name F d1 file1" by simp
  have u: "listing_within F u" using assms(4) by simp
  note ingest_collection_stored(1) [OF assms(7) s u assms(5)]
  moreover have "set files \<subseteq> set (processed_paths env name file2)"
    using ingest_collection_stored(2) [OF assms(7) s u assms(5) refl assms(3,8,9,10)] .
  ultimately show ?thesis by (auto simp: processed_stored_def)
qed

section \<open>Interrupted updates\<close>

text \<open>What an update keeps of a processed file whose own ingest ends in an exception.\<close>

definition still_listed :: "sync_env \<Rightarrow> string \<Rightarrow> string \<Rightarrow> doc option \<Rightarrow> apply_state \<Rightarrow> bool" where
  "still_listed env name k x a \<longleftrightarrow> k \<in> set (as_paths a) \<and> as_docs a k = x \<and> k \<in> set (processed_paths env name (as_file a))"

lemma still_listed_count:
  assumes "k \<in> set (as_paths a)" "as_docs a k = x" "k \<in> set (processed_paths env name (as_file a))"
  shows "still_listed env name k x (count_file env name model t a)"
  using count_file_file [of env name model t a] assms
  by (auto simp: still_listed_def processed_safe_update)

lemma still_listed_delete:
  assumes "delete_step env name model t p a = (r, a')" "still_listed env name k x a" "p \<noteq> k"
  shows "still_listed env name k x a'"
  using assms
  by (auto simp: delete_step_def still_listed_def split: option.splits prod.splits
      intro!: still_listed_count [unfolded still_listed_def, THEN conjunct1]
        still_listed_count [unfolded still_listed_def, THEN conjunct2, THEN conjunct2])

lemma still_listed_file:
  assumes "file_step env v name model t b f a = (r, a')" "still_listed env name k x a"
    and "fv_key v f \<noteq> k \<or> (\<exists>e. at_ingest t (fv_key v f) = Ingest_exit e x)"
  shows "still_listed env name k x a'"
proof (cases "\<exists>e left. at_ingest t (fv_key v f) = Ingest_exit e left")
  case True
  then obtain e left where e: "at_ingest t (fv_key v f) = Ingest_exit e left" by blast
  with assms show ?thesis by (auto simp: file_step_exit [OF e] still_listed_def)
next
  case False
  with assms(3) have "fv_key v f \<noteq> k" by blast
  then obtain a0 where "a' = count_file env name model t a0" "k \<in> set (as_paths a0)" "as_docs a0 k = x" "as_file a0 = as_file a"
    using assms(1,2) False
    by (auto simp: file_step_def ingest_file_def Let_def still_listed_def append_new_def
        split: ingest_outcome.splits option.splits if_splits prod.splits)
  with assms(2) show ?thesis using still_listed_count [of k a0 x env name model t] by (simp add: still_listed_def)
qed

lemma exiting_file_stops:
  assumes "apply_loops env v name model t ch a = (None, a')" "changes_ok v ch" "f \<in> set (changed_files ch)"
  shows "at_ingest t (fv_key v f) \<noteq> Ingest_exit x left"
proof
  assume e: "at_ingest t (fv_key v f) = Ingest_exit x left"
  from assms(1) obtain a1 a2 where "run_all (file_step env v name model t True) (changed_files ch) a1 = (None, a2)"
    by (rule apply_loops_None)
  from file_loop_last [OF this assms(3)] assms(2) show False by (auto simp: changes_ok_def file_step_exit [OF e])
qed

lemma interrupted_update_keeps:
  assumes "apply_collection_changes env v name t ch mtimes meta d file = (r, d1, file1)" "file \<noteq> Not_utf8"
    and "changes_ok v ch" "f \<in> set (changed_files ch)" "at_ingest t (fv_key v f) = Ingest_exit x (d (fv_key v f))"
    and "fv_key v f \<in> set (processed_paths env name file)"
  shows "r \<noteq> Written \<and> d1 (fv_key v f) = d (fv_key v f) \<and> fv_key v f \<in> set (processed_paths env name file1) \<and> file1 \<noteq> Not_utf8"
proof -
  let ?k = "fv_key v f" let ?m = "active_model meta" let ?s = "start_state env name t mtimes ?m d file"
  obtain e a where l: "apply_loops env v name ?m t ch ?s = (e, a)" by fastforce
  have e: "e \<noteq> None"
  proof
    assume "e = None"
    from exiting_file_stops [OF l [unfolded this] assms(3,4)] assms(5) show False by blast
  qed
  have "still_listed env name ?k (d ?k) ?s"
    using assms(6) by (auto simp: still_listed_def start_state_def Let_def processed_safe_update)
  have keep: "still_listed env name ?k (d ?k) a"
  proof (rule apply_loops_inv [OF l, where P = "still_listed env name ?k (d ?k)"])
    show "still_listed env name ?k (d ?k) ?s" by fact
    fix p w r w' assume p: "p \<in> set (deleted_paths ch)" "delete_step env name ?m t p w = (r, w')" "still_listed env name ?k (d ?k) w"
    have "?k \<notin> set (deleted_paths ch)" using assms(3,4) unfolding changes_ok_def by blast
    with p(1) have "p \<noteq> ?k" by blast
    from still_listed_delete [OF p(2,3) this] show "still_listed env name ?k (d ?k) w'" .
  next
    fix b g w r w' assume g: "g \<in> set (changed_files ch) \<union> set (new_files ch)" "file_step env v name ?m t b g w = (r, w')"
      "still_listed env name ?k (d ?k) w"
    have "g = f \<or> fv_key v g \<noteq> ?k"
      using g(1) assms(3,4) unfolding changes_ok_def distinct_map inj_on_def by auto
    with assms(5) show "still_listed env name ?k (d ?k) w'" by (intro still_listed_file [OF g(2,3)]) auto
  qed
  have rd: "as_file a \<noteq> Not_utf8" using apply_loops_readable [OF l start_state_readable [OF assms(2)]] .
  from assms(1) l e keep rd show ?thesis
    by (auto simp: apply_unfold [OF assms(2)] still_listed_def processed_safe_update safe_update_readable split: option.splits exit.splits)
qed

text \<open>
  A change whose update was interrupted is lost. A processed file has changed, and its ingest raises or is cancelled (the embedding
  service is down, the server stops). The update does not end; the next sync takes the collection for one whose first ingest was
  interrupted and skips every processed path, the changed file among them. When that run ends it records the collection as done and
  the file with its present modification time: the collection keeps the old content, and no later check reports the file until it changes again.
\<close>

lemma interrupted_change_is_lost:
  assumes "apply_collection_changes env v name t ch mtimes meta d file = (r, d1, file1)" "file \<noteq> Not_utf8" "ev_has_store env"
    and "changes_ok v ch" "f \<in> set (changed_files ch)" "fv_key v f = f" "f \<in> set (processed_paths env name file)"
    and "at_ingest t f = Ingest_exit x (d f)"
    and "ingest_collection env w name u meta d1 file1 = (Written, d2, file2)" "ig_last_save u = None"
    and "\<forall>files. ig_listing u = Inr files \<longrightarrow> distinct files \<and> inj_on (fv_key w) (insert f (set files))"
    and "fv_key w f = f" "fv_key (ig_view u) f = f" "fv_mtime (ig_view u) f = Some m"
  shows "r \<noteq> Written \<and> d2 f = d f \<and>
         (\<exists>cp. seen_progress (ev_floats env) file2 name = Some cp \<and> cp_status cp = Ix_done \<and>
            \<not> looks_changed (ig_view u) (cp_mtimes cp) f)"
proof -
  let ?resume = "processed_paths env name file1"
  have k: "r \<noteq> Written" "d1 f = d f" "f \<in> set ?resume" "file1 \<noteq> Not_utf8"
    using interrupted_update_keeps [OF assms(1,2,4,5)] assms(6-8) by auto
  from assms(9) obtain r' a' n where
    l: "ingest_directory env w name (chosen_embedder env (active_model meta)) u ?resume n (ingest_start env name u d1 file1) = (r', a')"
    and d2: "d2 = is_docs a'"
    and e: "r' = Some Cancelled \<and> Written = Write_cancelled \<and> file2 = is_progress a' \<or>
         (\<exists>cp. file2 = safe_state_update env (ig_last_save u) name cp (is_progress a') \<and>
            (r' = Some Raised \<and> Written = Write_failed \<and> settled_progress env Ix_failed u (active_model meta) (?resume @ is_new a') cp \<or>
             r' = None \<and> Written = Written \<and> settled_progress env Ix_done u (active_model meta) (?resume @ is_new a') cp))"
    by (rule ingest_collection_cases)
  let ?fs = "(case ig_listing u of Inl x \<Rightarrow> {} | Inr files \<Rightarrow> set files - set ?resume)"
  have inj: "inj_on (fv_key w) ?fs" using assms(11) by (auto simp: inj_on_def split: sum.split)
  have start: "is_new (ingest_start env name u d1 file1) = []" by (simp add: ingest_start_def Let_def)
  have inv: "ingest_inv env w name ?resume ?fs d1 a'"
    by (rule ingest_directory_inv(1) [OF l ingest_start_inv [OF k(4)] start inj]) (use assms(11) in auto)
  have "f \<notin> fv_key w ` ?fs"
  proof
    assume "f \<in> fv_key w ` ?fs"
    then obtain files g where "ig_listing u = Inr files" "g \<in> set files" "g \<notin> set ?resume" "fv_key w g = f"
      by (auto split: sum.splits)
    with assms(11,12) k(3) show False by (auto simp: inj_on_def)
  qed
  with inv have "d2 f = d1 f" by (simp add: ingest_inv_def d2)
  moreover obtain cp where cp: "file2 = safe_state_update env (ig_last_save u) name cp (is_progress a')"
      "settled_progress env Ix_done u (active_model meta) (?resume @ is_new a') cp" using e by blast
  have "dict_get (cp_mtimes cp) f = Some m"
    using cp(2) k(3) assms(13,14) by (auto simp: settled_progress_def partial_mtimes_get image_iff intro: bexI [of _ f])
  then have "\<not> looks_changed (ig_view u) (cp_mtimes (read_back cp)) f" using assms(13,14) by (simp add: looks_changed_def)
  moreover have "seen_progress (ev_floats env) file2 name = Some (read_back cp)"
    using cp(1) assms(3,10) inv by (simp add: seen_safe_update ingest_inv_def)
  ultimately show ?thesis using k cp(2) by (auto simp: settled_progress_def)
qed

end
