(* ===== verification/Sync_Properties.thy ===== *)
theory Sync_Properties
  imports Sync_Run_Facts Sync_Resume_Properties
begin

text \<open>The properties of a whole sync: what it may drop, and which collections it goes on managing.\<close>

section \<open>What a sync records\<close>

definition deferred_in :: "run_state \<Rightarrow> string set" where
  "deferred_in s = {n. Drop_deferred n \<in> set (sr_errors (rs_result s))}"

text \<open>The bookkeeping sets agree with the result that is reported.\<close>

definition records_ok :: "run_state \<Rightarrow> bool" where
  "records_ok s \<longleftrightarrow>
     rs_managed s = set (sr_added (rs_result s)) \<union> set (sr_updated (rs_result s)) \<and> rs_deferred s = deferred_in s"

text \<open>A later step takes nothing back.\<close>

definition settled :: "string \<Rightarrow> run_state \<Rightarrow> bool" where
  "settled n s \<longleftrightarrow>
     n \<in> set (sr_removed (rs_result s)) \<or> Drop_missing n \<in> set (sr_errors (rs_result s)) \<or> n \<in> rs_deferred s"

lemma drop_step_records:
  assumes "drop_phase_step re name s = (r, s')"
  shows "records_ok s \<Longrightarrow> records_ok s'" "settled n s \<Longrightarrow> settled n s'" "r = None \<Longrightarrow> settled name s'"
    "rs_managed s' = rs_managed s" "sr_skipped (rs_result s') = sr_skipped (rs_result s)"
    "rs_deferred s' \<subseteq> insert name (rs_deferred s)"
  using assms
  by (auto simp: drop_phase_step_def records_ok_def deferred_in_def settled_def add_error_def split: prod.splits drop_result.splits)

text \<open>The only errors of a write are those of its own collection.\<close>

lemma write_collection_error:
  "write_collection re name wr w = (Inr (b, Some e), w') \<Longrightarrow> e = Sync_busy name \<or> e = Sync_failed name"
  by (auto simp: write_collection_def split: if_splits prod.splits write_result.splits)

lemma ingest_step_records:
  assumes "ingest_phase_step re m desired name s = (r, s')"
  shows "records_ok s \<Longrightarrow> records_ok s'" "settled n s \<Longrightarrow> settled n s'" "rs_deferred s' = rs_deferred s"
  using assms
  by (auto simp: ingest_phase_step_def records_ok_def deferred_in_def settled_def add_error_def
      split: prod.splits sum.splits option.splits bool.splits if_splits dest: write_collection_error)

lemma update_step_records:
  assumes "update_phase_step re file0 desired name s = (r, s')"
  shows "records_ok s \<Longrightarrow> records_ok s'" "settled n s \<Longrightarrow> settled n s'" "rs_deferred s' = rs_deferred s"
  using assms
  by (auto simp: update_phase_step_def records_ok_def deferred_in_def settled_def add_error_def Let_def
      split: prod.splits sum.splits option.splits bool.splits if_splits dest: write_collection_error)

lemma sync_phases_records:
  assumes "sync_phases re desired existing managed s = (None, s', unchanged)" "iter_ok re" "finite existing"
    and "records_ok s" "rs_deferred s = {}"
  shows "records_ok s'" "\<forall>n \<in> existing \<inter> managed - set (dict_keys desired). settled n s'"
    "rs_deferred s' \<subseteq> existing \<inter> managed - set (dict_keys desired)"
    "unchanged \<subseteq> existing \<inter> set (dict_keys desired)"
proof -
  let ?W = "set (dict_keys desired)" let ?D = "existing \<inter> managed - ?W"
  from assms(1) obtain x1 s1 x2 s2 x3 s3 x4 s4 where
    1: "run_all (drop_phase_step re) (r_iter re ?D) s = (x1, s1)"
    and 2: "run_all (ingest_phase_step re (\<lambda>_. None) desired)
           (sort_ingestion_order (r_resolve re) (r_pinned re) (?W - existing) desired)
           (s1\<lparr>rs_result := (rs_result s1)\<lparr>sr_skipped := sorted_list_of_set (existing - managed - ?W)\<rparr>\<rparr>) = (x2, s2)"
    and 3: "run_all (ingest_phase_step re (r_meta re) desired)
           (sorted_list_of_set (to_resume re (sw_progress (rs_world s2)) (existing \<inter> ?W))) s2 = (x3, s3)"
    and 4: "run_all (update_phase_step re (sw_progress (rs_world s3)) desired)
           (sort_ingestion_order (r_resolve re) (r_pinned re)
             ((existing \<inter> ?W) - to_resume re (sw_progress (rs_world s2)) (existing \<inter> ?W)) desired) s3 = (x4, s4)"
    and n: "x1 = None \<and> x2 = None \<and> x3 = None \<and>
           unchanged = (existing \<inter> ?W) - to_resume re (sw_progress (rs_world s2)) (existing \<inter> ?W)
             - (if ev_has_store (r_env re) then rs_to_update s4 else {}) \<and>
           s' = (if ev_has_store (r_env re) then s4 else s3) \<and> (ev_has_store (r_env re) \<longrightarrow> x4 = None)"
    by (rule sync_phases_cases) auto
  have D: "set (r_iter re ?D) = ?D" using assms(2,3) by (simp add: iter_ok_def)
  let ?s1 = "s1\<lparr>rs_result := (rs_result s1)\<lparr>sr_skipped := sorted_list_of_set (existing - managed - ?W)\<rparr>\<rparr>"
  let ?P = "\<lambda>s. records_ok s \<and> (\<forall>n \<in> ?D. settled n s) \<and> rs_deferred s \<subseteq> ?D"
  have "records_ok s1" by (rule run_all_inv [OF 1, where P = records_ok]) (use assms(4) drop_step_records(1) in auto)
  moreover have "\<forall>n \<in> set (r_iter re ?D). settled n s1"
    by (rule run_all_each [OF 1 [unfolded conjunct1 [OF n]]]) (auto dest: drop_step_records)
  moreover have "rs_deferred s1 \<subseteq> ?D"
  proof (rule run_all_inv [OF 1, where P = "\<lambda>s. rs_deferred s \<subseteq> ?D"])
    fix n w r w' assume "n \<in> set (r_iter re ?D)" and s: "drop_phase_step re n w = (r, w')" and "rs_deferred w \<subseteq> ?D"
    with D drop_step_records(6) [OF s] show "rs_deferred w' \<subseteq> ?D" by blast
  qed (simp add: assms(5))
  ultimately have "?P ?s1" by (auto simp: D records_ok_def deferred_in_def settled_def)
  then have "?P s2" by (rule run_all_inv [OF 2]) (use ingest_step_records in auto)
  then have p3: "?P s3" by (rule run_all_inv [OF 3]) (use ingest_step_records in auto)
  then have "?P s4" by (rule run_all_inv [OF 4]) (use update_step_records in auto)
  with p3 n have "?P s'" by auto
  then show "records_ok s'" "\<forall>n \<in> ?D. settled n s'" "rs_deferred s' \<subseteq> ?D" by blast+
  show "unchanged \<subseteq> existing \<inter> ?W" using n by auto
qed

section \<open>The manifest\<close>

lemma new_manifest_keys:
  "set (dict_keys (new_manifest desired old deferred kept)) = (set (dict_keys desired) \<inter> kept) \<union> set deferred"
proof -
  have "set (dict_keys (fold (\<lambda>n d. dict_set n (g n) d) ns d)) = set ns \<union> set (dict_keys d)" for g :: "string \<Rightarrow> abs_path" and ns d
    by (induction ns arbitrary: d) (auto simp: dict_keys_set)
  then show ?thesis by (auto simp: new_manifest_def dict_keys_def)
qed

lemma migrate_manifest_keys:
  assumes "maybe_migrate re w = (ok, w')" "n \<noteq> legacy_collection" "n \<noteq> default_sessions_name"
  shows "n \<in> set (dict_keys (load_manifest (sw_manifest w'))) \<longleftrightarrow> n \<in> set (dict_keys (load_manifest (sw_manifest w)))"
    and "n \<in> sw_tables w' \<longleftrightarrow> n \<in> sw_tables w" "sw_docs w' n = sw_docs w n"
proof -
  have k: "n \<in> set (dict_keys (load_manifest (migrated_manifest x m))) \<longleftrightarrow> n \<in> set (dict_keys (load_manifest m))" for x m
    using assms(2,3)
    by (auto simp: migrated_manifest_def load_manifest_def write_manifest_def dict_keys_set dict_keys_del
        split: manifest_file.split option.split)
  show "n \<in> set (dict_keys (load_manifest (sw_manifest w'))) \<longleftrightarrow> n \<in> set (dict_keys (load_manifest (sw_manifest w)))"
    using assms(1) k by (auto simp: maybe_migrate_def split: if_splits rename_outcome.splits)
  show "n \<in> sw_tables w' \<longleftrightarrow> n \<in> sw_tables w" "sw_docs w' n = sw_docs w n"
    using assms by (auto simp: maybe_migrate_def split: if_splits rename_outcome.splits)
qed

lemma migrate_finite: "maybe_migrate re w = (ok, w') \<Longrightarrow> finite (sw_tables w) \<Longrightarrow> finite (sw_tables w')"
  by (auto simp: maybe_migrate_def split: if_splits rename_outcome.splits)

lemma finite_listed: "finite (sw_tables w) \<Longrightarrow> finite (listed_tables re w)"
  by (auto simp: listed_tables_def)

text \<open>The world in which the phases start.\<close>

definition sync_start :: "run_env \<Rightarrow> sync_world \<Rightarrow> bool \<times> sync_world" where
  "sync_start re w = maybe_migrate re (w\<lparr>sw_progress := reset_stale re (sw_progress w)\<rparr>)"

definition start_of :: "sync_world \<Rightarrow> run_state" where
  "start_of w = \<lparr>rs_world = w,
     rs_result = \<lparr>sr_added = [], sr_removed = [], sr_unchanged = [], sr_errors = [], sr_skipped = [], sr_updated = []\<rparr>,
     rs_deferred = {}, rs_managed = {}, rs_to_update = {}\<rparr>"

lemma sync_cases:
  assumes "sync re cs w = (r, w')"
  obtains "(\<exists>x. r = Inl x)" "w' = w\<lparr>sw_progress := reset_stale re (sw_progress w)\<rparr>"
  | ok w1 where "sync_start re w = (ok, w1)" "w' = w1" "(\<exists>x. r = Inl x)"
  | w1 x s u where "sync_start re w = (True, w1)"
      "sync_phases re (build_desired (r_resolve re) (r_sha re) cs) (listed_tables re w1)
         (set (dict_keys (load_manifest (sw_manifest w1)))) (start_of w1) = (x, s, u)"
      "sw_tables w' = sw_tables (rs_world s)" "sw_docs w' = sw_docs (rs_world s)"
      "\<And>res. r = Inr res \<Longrightarrow> x = None \<and> res = (rs_result s)\<lparr>sr_unchanged := sorted_list_of_set u\<rparr> \<and>
         sw_manifest w' = Manifest (new_manifest (build_desired (r_resolve re) (r_sha re) cs) (load_manifest (sw_manifest w1))
            (r_iter re (rs_deferred s)) (rs_managed s \<union> u))"
proof -
  obtain ok w1 where m: "sync_start re w = (ok, w1)" by fastforce
  note e = assms [unfolded sync_def Let_def, folded sync_start_def, folded start_of_def, unfolded m]
  show ?thesis
  proof (cases "r_reads_ok re")
    case False
    with e show ?thesis by (intro that(1)) auto
  next
    case True
    show ?thesis
    proof (cases "ok \<and> r_reads_again_ok re")
      case False
      with True e show ?thesis by (intro that(2) [OF m]) (auto split: bool.splits)
    next
      case ok: True
      obtain x s u where p: "sync_phases re (build_desired (r_resolve re) (r_sha re) cs) (listed_tables re w1)
         (set (dict_keys (load_manifest (sw_manifest w1)))) (start_of w1) = (x, s, u)" by (metis prod_cases3)
      from ok m have "sync_start re w = (True, w1)" by simp
      then show ?thesis
        by (rule that(3) [OF _ p]; insert e True ok p)
          (auto simp: write_manifest_def split: option.splits)
    qed
  qed
qed

section \<open>Properties\<close>

text \<open>
  C21: a sync drops only what it manages, what nobody wants and what nobody writes. If a collection that the configuration does not
  name lost its table or any of its documents in a sync, whatever else failed in it, then the manifest listed it, and at the moment of the
  drop its lock was held, no job might write it and no writer was registered. (The rename of the old history collection is apart.)
\<close>

theorem sync_drops_only_idle_managed:
  assumes "sync re cs w = (r, w')" "iter_ok re" "finite (sw_tables w)"
    and "n \<noteq> legacy_collection" "n \<noteq> default_sessions_name"
    and "n \<notin> set (dict_keys (build_desired (r_resolve re) (r_sha re) cs))"
    and "n \<in> sw_tables w \<and> n \<notin> sw_tables w' \<or> sw_docs w' n \<noteq> sw_docs w n"
  shows "n \<in> set (dict_keys (load_manifest (sw_manifest w))) \<and> idle (r_drop re n) n"
  using assms(1)
proof (cases rule: sync_cases)
  case 1
  with assms(7) show ?thesis by simp
next
  case (2 ok w1)
  with migrate_manifest_keys [OF 2(1) [unfolded sync_start_def] assms(4,5)] assms(7) show ?thesis by simp
next
  case (3 w1 x s u)
  note m = migrate_manifest_keys [OF 3(1) [unfolded sync_start_def] assms(4,5)]
  have "finite (sw_tables w1)" using migrate_finite [OF 3(1) [unfolded sync_start_def]] assms(3) by simp
  from sync_phases_touches [OF 3(2) assms(2) finite_listed [OF this]]
  have "touches (droppable re (set (dict_keys (load_manifest (sw_manifest w1)))) (set (dict_keys (build_desired (r_resolve re) (r_sha re) cs))))
     (set (dict_keys (build_desired (r_resolve re) (r_sha re) cs))) w1 (rs_world s)" by (simp add: start_of_def)
  then have "droppable re (set (dict_keys (load_manifest (sw_manifest w1)))) (set (dict_keys (build_desired (r_resolve re) (r_sha re) cs))) n"
    by (rule touchesD) (use assms(6,7) m 3(3,4) in auto)
  with m show ?thesis by (simp add: droppable_def)
qed

text \<open>
  What a sync goes on managing. After a sync that returned, the manifest lists exactly the wanted collections it added, updated or
  found unchanged, and those it wanted to drop but could not. None of the managed collections that left the configuration is forgotten:
  each was removed, had no table any more, or is still in the manifest, so that the next sync tries again.
\<close>

lemma sync_keeps_managing:
  assumes "sync re cs w = (Inr res, w')" "iter_ok re" "finite (sw_tables w)" "sync_start re w = (True, w1)"
    and "W = set (dict_keys (build_desired (r_resolve re) (r_sha re) cs))"
  shows "\<exists>m. sw_manifest w' = Manifest m \<and>
           set (dict_keys m) = W \<inter> (set (sr_added res) \<union> set (sr_updated res) \<union> set (sr_unchanged res)) \<union>
                               {n. Drop_deferred n \<in> set (sr_errors res)} \<and>
           (\<forall>n \<in> listed_tables re w1 \<inter> set (dict_keys (load_manifest (sw_manifest w1))) - W.
              n \<in> set (sr_removed res) \<or> Drop_missing n \<in> set (sr_errors res) \<or> n \<in> set (dict_keys m))"
  using assms(1)
proof (cases rule: sync_cases)
  case (3 w1' x s u)
  have w1: "w1' = w1" using 3(1) assms(4) by simp
  note p = 3(2) [unfolded w1 assms(5) [symmetric]]
  have fin: "finite (listed_tables re w1)"
    using migrate_finite [OF assms(4) [unfolded sync_start_def]] assms(3) by (simp add: finite_listed)
  from 3(5) have x: "x = None" and res: "res = (rs_result s)\<lparr>sr_unchanged := sorted_list_of_set u\<rparr>"
    and man: "sw_manifest w' = Manifest (new_manifest (build_desired (r_resolve re) (r_sha re) cs) (load_manifest (sw_manifest w1))
            (r_iter re (rs_deferred s)) (rs_managed s \<union> u))" using w1 by blast+
  have "records_ok (start_of w1)" "rs_deferred (start_of w1) = {}" by (simp_all add: start_of_def records_ok_def deferred_in_def)
  note r = sync_phases_records [OF p [unfolded x] assms(2) fin this]
  have "finite u" "finite (rs_deferred s)" using r(3,4) fin by (auto intro: finite_subset)
  then have "set (sr_unchanged res) = u" "set (r_iter re (rs_deferred s)) = rs_deferred s"
    using assms(2) by (simp_all add: res iter_ok_def)
  moreover have "rs_deferred s = {n. Drop_deferred n \<in> set (sr_errors res)}" "rs_managed s = set (sr_added res) \<union> set (sr_updated res)"
    using r(1) by (auto simp: res records_ok_def deferred_in_def)
  ultimately show ?thesis
    using man r(2) by (auto simp: new_manifest_keys assms(5) settled_def res)
qed auto

text \<open>
  Every configured path gets a collection. The table of wanted collections maps names to configured paths only, and each configured
  path is in it under a name of its own, unless its place is taken under a name that the hash fallback made for one of the two paths: no
  collision of plain names loses a path.
\<close>

lemma every_path_is_wanted:
  assumes "p \<in> resolve ` set cs"
  shows "(\<exists>n. dict_get (build_desired resolve sha cs) n = Some p) \<or>
         (\<exists>n q. dict_get (build_desired resolve sha cs) n = Some q \<and> q \<noteq> p \<and> q \<in> resolve ` set cs \<and>
                (n = hashed_name sha p \<or> n = hashed_name sha q))"
proof -
  let ?P = "dedup (map resolve cs)"
  from assms have "p \<in> set ?P" by simp
  then obtain i where i: "i < length ?P" "p = ?P ! i" by (metis in_set_conv_nth)
  obtain q where q: "dict_get (build_desired resolve sha cs) (wanted_names sha ?P ! i) = Some q"
    using desired_has_name [OF i(1)] by blast
  from desired_entry [OF this] obtain j where j: "j < length ?P" "q = ?P ! j" "wanted_names sha ?P ! i = wanted_names sha ?P ! j" by blast
  show ?thesis
  proof (cases "i = j")
    case True
    with q i j show ?thesis by auto
  next
    case False
    then have "q \<noteq> p" using i j nth_eq_iff_index_eq [OF distinct_dedup, of i "map resolve cs" j] by auto
    moreover have "q \<in> resolve ` set cs" using j by (metis nth_mem set_dedup set_map)
    ultimately show ?thesis using wanted_repeats [OF i(1) j(1) False j(3)] q i j by auto
  qed
qed

end
