(* ===== verification/Sync_Witnesses.thy ===== *)
theory Sync_Witnesses
  imports Sync_Properties
begin

text \<open>The properties of the synchronisation at concrete inputs.\<close>

definition wit_env :: sync_env where
  "wit_env =
     \<lparr>ev_floats = \<lparr>float_of_int = Some, int_of_float = Whole\<rparr>, ev_now = ''now'', ev_has_store = True, ev_chunk_size = 100,
      ev_auto_reindex = False, ev_global = ''g'', ev_loads = (\<lambda>_. True)\<rparr>"

definition wit_view :: file_view where
  "wit_view = \<lparr>fv_key = (\<lambda>f. f), fv_mtime = (\<lambda>_. Some 5)\<rparr>"

definition wit_try :: "(string \<Rightarrow> ingest_outcome) \<Rightarrow> apply_try" where
  "wit_try oc =
     \<lparr>at_delete = (\<lambda>_. None), at_ingest = oc, at_stat = (\<lambda>_. Some 5), at_refresh = None, at_settle_cancelled = False,
      at_save = (\<lambda>_. None), at_last_save = None\<rparr>"

text \<open>A directory with a changed and a new file; a third file is gone.\<close>

definition wit_files :: "string list" where
  "wit_files = [''/d/a'', ''/d/b'']"

definition wit_mtimes :: "(string, int) dict" where
  "wit_mtimes = [(''/d/a'', 1), (''/d/c'', 1)]"

definition wit_changes :: change_set where
  "wit_changes = check_collection_changes wit_env wit_view wit_files wit_mtimes [] (Some 100) None"

definition wit_file :: progress_file where
  "wit_file =
     Json_file (to_dict \<lparr>ix_collections = [(''d'', (new_progress Ix_done)\<lparr>cp_paths := [''/d/a'', ''/d/c''], cp_mtimes := wit_mtimes,
                                                    cp_chunk_size := Some 100\<rparr>)],
                          ix_updated = JNull, ix_trigger = None\<rparr>)"

definition wit_run :: "apply_try \<Rightarrow> write_result \<times> docs \<times> progress_file" where
  "wit_run t = apply_collection_changes wit_env wit_view ''d'' t wit_changes wit_mtimes None (\<lambda>_. Some (1, ''g'')) wit_file"

lemma wit_changes_value:
  "wit_changes = \<lparr>new_files = [''/d/b''], changed_files = [''/d/a''], deleted_paths = [''/d/c''], forced = False\<rparr>"
  by code_simp

lemma wit_distinct: "distinct (map (fv_key wit_view) wit_files)" "dict_ok wit_mtimes"
  by code_simp+

lemma wit_changes_ok: "changes_ok wit_view wit_changes"
  unfolding wit_changes_def by (rule check_changes_ok) (rule wit_distinct)+

lemma wit_env_simps [simp]:
  "ev_has_store wit_env = True" "ev_chunk_size wit_env = 100" "ev_floats wit_env = \<lparr>float_of_int = Some, int_of_float = Whole\<rparr>"
  by (simp_all add: wit_env_def)

lemma wit_view_simps [simp]: "fv_key wit_view f = f" "fv_mtime wit_view f = Some 5"
  by (simp_all add: wit_view_def)

lemma wit_run_split: "fst (wit_run t) = r \<Longrightarrow>
  apply_collection_changes wit_env wit_view ''d'' t wit_changes wit_mtimes None (\<lambda>_. Some (1, ''g'')) wit_file =
    (r, fst (snd (wit_run t)), snd (snd (wit_run t)))"
  by (auto simp: wit_run_def)

lemma wit_run_written: "fst (wit_run (wit_try (\<lambda>_. Ingest_ok 5))) = Written" "fst (wit_run (wit_try (\<lambda>_. Ingest_soft None))) = Written"
  by code_simp+

lemma wit_no_acl: "\<not> py_endswith ''/d/a'' ''.acl''" "\<not> py_endswith ''/d/b'' ''.acl''"
  by code_simp+

theorem update_converges_witness:
  "fst (snd (wit_run (wit_try (\<lambda>_. Ingest_ok 5)))) =
     updated_docs wit_env wit_view (active_model None) (wit_try (\<lambda>_. Ingest_ok 5)) wit_changes (\<lambda>_. Some (1, ''g'')) \<and>
   (\<exists>cp. seen_progress (ev_floats wit_env) (snd (snd (wit_run (wit_try (\<lambda>_. Ingest_ok 5))))) ''d'' = Some cp \<and> cp_status cp = Ix_done \<and>
      check_collection_changes wit_env wit_view wit_files (cp_mtimes cp) (cp_model cp) (cp_chunk_size cp) None = no_changes)"
  by (rule update_converges [OF wit_run_split [OF wit_run_written(1)] wit_changes_def _ _ _ wit_distinct])
    (simp_all add: wit_changes_value wit_try_def ingests_def)

theorem soft_failures_are_retried_witness:
  "\<exists>cp. seen_progress (ev_floats wit_env) (snd (snd (wit_run (wit_try (\<lambda>_. Ingest_soft None))))) ''d'' = Some cp \<and>
     ''/d/a'' \<in> set (changed_files (check_collection_changes wit_env wit_view wit_files (cp_mtimes cp) [] (Some 100) None)) \<union>
                set (new_files (check_collection_changes wit_env wit_view wit_files (cp_mtimes cp) [] (Some 100) None))"
  by (rule soft_failures_are_retried [OF wit_run_split [OF wit_run_written(2)] wit_changes_def _ _ wit_distinct])
    (simp_all add: wit_changes_value wit_try_def ingests_def force_full_reindex_def active_model_def wit_no_acl)

section \<open>Interrupted runs\<close>

definition wit_ingest :: "exit + string list \<Rightarrow> ingest_outcome \<Rightarrow> ingest_try" where
  "wit_ingest listing oc =
     \<lparr>ig_eligible = wit_files, ig_listing = listing, ig_ingest = (\<lambda>_. oc), ig_finish = None, ig_view = wit_view,
      ig_save = (\<lambda>_. None), ig_last_save = None\<rparr>"

definition wit_attempts :: "docs \<times> progress_file" where
  "wit_attempts =
     ingest_runs wit_env wit_view ''d'' None [wit_ingest (Inr wit_files) (Ingest_exit Raised None), wit_ingest (Inl Cancelled) (Ingest_ok 5)]
       (\<lambda>_. None, Absent)"

definition wit_last :: "write_result \<times> docs \<times> progress_file" where
  "wit_last = ingest_collection wit_env wit_view ''d'' (wit_ingest (Inr wit_files) (Ingest_ok 5)) None (fst wit_attempts) (snd wit_attempts)"

lemma wit_last_written: "fst wit_last = Written"
  by code_simp

theorem first_ingest_survives_interruptions_witness:
  "''/d/b'' \<in> set (processed_paths wit_env ''d'' (snd (snd wit_last))) \<and>
   fst (snd wit_last) ''/d/b'' \<noteq> None"
proof -
  have "\<forall>f \<in> set wit_files. f \<in> set (processed_paths wit_env ''d'' (snd (snd wit_last))) \<and>
      (fst (snd wit_last) (fv_key wit_view f) \<noteq> None \<or> py_endswith f ''.acl'')"
  proof (rule first_ingest_survives_interruptions)
    show "ingest_runs wit_env wit_view ''d'' None [wit_ingest (Inr wit_files) (Ingest_exit Raised None), wit_ingest (Inl Cancelled) (Ingest_ok 5)]
       (\<lambda>_. None, Absent) = (fst wit_attempts, snd wit_attempts)" by (simp add: wit_attempts_def)
    show "ingest_collection wit_env wit_view ''d'' (wit_ingest (Inr wit_files) (Ingest_ok 5)) None (fst wit_attempts) (snd wit_attempts) =
       (Written, fst (snd wit_last), snd (snd wit_last))" using wit_last_written unfolding wit_last_def by (metis prod.collapse)
    show "\<forall>t \<in> set (wit_ingest (Inr wit_files) (Ingest_ok 5) #
        [wit_ingest (Inr wit_files) (Ingest_exit Raised None), wit_ingest (Inl Cancelled) (Ingest_ok 5)]). listing_within (set wit_files) t"
      by (simp add: listing_within_def wit_ingest_def wit_files_def)
    show "processed_paths wit_env ''d'' Absent = []" by (simp add: processed_paths_def read_state_def)
    show "ig_listing (wit_ingest (Inr wit_files) (Ingest_ok 5)) = Inr wit_files" by (simp add: wit_ingest_def)
  qed (simp_all add: wit_ingest_def ingested_def inj_on_def)
  then show ?thesis by (simp add: wit_files_def wit_no_acl)
qed

definition wit_broken :: "write_result \<times> docs \<times> progress_file" where
  "wit_broken = wit_run (wit_try (\<lambda>_. Ingest_exit Raised (Some (1, ''g''))))"

definition wit_resumed :: "write_result \<times> docs \<times> progress_file" where
  "wit_resumed = ingest_collection wit_env wit_view ''d'' (wit_ingest (Inr wit_files) (Ingest_ok 5)) None (fst (snd wit_broken)) (snd (snd wit_broken))"

lemma wit_resumed_written: "fst wit_resumed = Written"
  by code_simp

theorem interrupted_change_is_lost_witness:
  "fst wit_broken \<noteq> Written \<and> fst (snd wit_resumed) ''/d/a'' = Some (1, ''g'') \<and>
   (\<exists>cp. seen_progress (ev_floats wit_env) (snd (snd wit_resumed)) ''d'' = Some cp \<and> cp_status cp = Ix_done \<and>
      \<not> looks_changed (ig_view (wit_ingest (Inr wit_files) (Ingest_ok 5))) (cp_mtimes cp) ''/d/a'')"
proof (rule interrupted_change_is_lost)
  show "apply_collection_changes wit_env wit_view ''d'' (wit_try (\<lambda>_. Ingest_exit Raised (Some (1, ''g'')))) wit_changes wit_mtimes None
      (\<lambda>_. Some (1, ''g'')) wit_file = (fst wit_broken, fst (snd wit_broken), snd (snd wit_broken))" by (simp add: wit_broken_def wit_run_def)
  show "ingest_collection wit_env wit_view ''d'' (wit_ingest (Inr wit_files) (Ingest_ok 5)) None (fst (snd wit_broken)) (snd (snd wit_broken)) =
       (Written, fst (snd wit_resumed), snd (snd wit_resumed))" using wit_resumed_written unfolding wit_resumed_def by (metis prod.collapse)
  show "''/d/a'' \<in> set (processed_paths wit_env ''d'' wit_file)" by code_simp
  show "changes_ok wit_view wit_changes" by (rule wit_changes_ok)
qed (simp_all add: wit_changes_value wit_file_def wit_try_def wit_ingest_def wit_files_def inj_on_def)

section \<open>A whole sync\<close>

text \<open>The configuration names \<open>/x/docs\<close>; the managed collection \<open>old\<close> is gone from it, \<open>busy\<close> too but a writer is registered for it.\<close>

definition wit_drop :: "string list \<Rightarrow> drop_env" where
  "wit_drop writers = \<lparr>de_locked = True, de_jobs = Some \<lparr>jobs = [], jfile = No_file, crashed_ingest_on_load = False\<rparr>, de_writers = writers, de_outcome = None, de_gone = False\<rparr>"

definition wit_re :: run_env where
  "wit_re =
     \<lparr>r_env = wit_env, r_resolve = (\<lambda>p. [''x'', ''docs'']), r_sha = (\<lambda>_. ''h''), r_pinned = [], r_iter = sorted_list_of_set,
      r_reset_write = None, r_reads_ok = True, r_reads_again_ok = True, r_listed = (\<lambda>_. True), r_rename = Renamed, r_rename_write = None,
      r_namespaces = [], r_drop = (\<lambda>_. wit_drop [''busy'']), r_remove_write = (\<lambda>_. None), r_exists = (\<lambda>_. True),
      r_guard = (\<lambda>_. Registered), r_configured = (\<lambda>_. True), r_view = (\<lambda>_. wit_view),
      r_ingest = (\<lambda>_. wit_ingest (Inr wit_files) (Ingest_ok 5)), r_created = (\<lambda>_. True), r_meta = (\<lambda>_. None),
      r_eligible = (\<lambda>_. wit_files), r_apply = (\<lambda>_. wit_try (\<lambda>_. Ingest_ok 5)), r_manifest_write = None\<rparr>"

definition wit_world :: sync_world where
  "wit_world = \<lparr>sw_tables = {''old'', ''busy'', ''other''}, sw_docs = (\<lambda>_ _. None), sw_progress = Absent,
                sw_manifest = Manifest [(''old'', [''x'', ''old'']), (''busy'', [''x'', ''busy''])]\<rparr>"

definition wit_synced :: "(exit + sync_result) \<times> sync_world" where
  "wit_synced = sync wit_re [''docs''] wit_world"

lemma wit_iter_ok: "iter_ok wit_re"
  by (simp add: iter_ok_def wit_re_def)

lemma wit_tables: "sw_tables (snd wit_synced) = {''docs'', ''busy'', ''other''}"
  by code_simp

lemma wit_result:
  "fst wit_synced = Inr \<lparr>sr_added = [''docs''], sr_removed = [''old''], sr_unchanged = [], sr_errors = [Drop_deferred ''busy''],
                        sr_skipped = [''other''], sr_updated = []\<rparr>"
  by code_simp

lemma wit_wanted: "dict_keys (build_desired (r_resolve wit_re) (r_sha wit_re) [''docs'']) = [''docs'']"
  by code_simp

theorem sync_drops_only_idle_managed_witness:
  "''old'' \<in> set (dict_keys (load_manifest (sw_manifest wit_world))) \<and> idle (r_drop wit_re ''old'') ''old''"
proof (rule sync_drops_only_idle_managed)
  show "sync wit_re [''docs''] wit_world = (fst wit_synced, snd wit_synced)" by (simp add: wit_synced_def)
  show "''old'' \<notin> set (dict_keys (build_desired (r_resolve wit_re) (r_sha wit_re) [''docs'']))" by (simp add: wit_wanted)
  show "''old'' \<in> sw_tables wit_world \<and> ''old'' \<notin> sw_tables (snd wit_synced) \<or> sw_docs (snd wit_synced) ''old'' \<noteq> sw_docs wit_world ''old''"
    by (simp add: wit_tables wit_world_def)
qed (simp_all add: wit_iter_ok wit_world_def legacy_collection_def default_sessions_name_def)

lemma wit_start: "sync_start wit_re wit_world = (True, snd (sync_start wit_re wit_world))"
proof -
  have "fst (sync_start wit_re wit_world)" by code_simp
  then show ?thesis by (metis prod.collapse)
qed

theorem sync_keeps_managing_witness:
  "\<exists>m. sw_manifest (snd wit_synced) = Manifest m \<and> set (dict_keys m) = {''docs'', ''busy''}"
proof -
  let ?r = "\<lparr>sr_added = [''docs''], sr_removed = [''old''], sr_unchanged = [], sr_errors = [Drop_deferred ''busy''],
             sr_skipped = [''other''], sr_updated = []\<rparr>"
  have s: "sync wit_re [''docs''] wit_world = (Inr ?r, snd wit_synced)"
    using wit_result unfolding wit_synced_def by (metis prod.collapse)
  have f: "finite (sw_tables wit_world)" by (simp add: wit_world_def)
  from sync_keeps_managing [OF s wit_iter_ok f wit_start refl] show ?thesis by (auto simp: wit_wanted)
qed

theorem every_path_is_wanted_witness:
  "(\<exists>n. dict_get (build_desired (\<lambda>p. [p, ''docs'']) (\<lambda>_. ''h'') [''a'', ''b'']) n = Some [''b'', ''docs'']) \<or>
   (\<exists>n q. dict_get (build_desired (\<lambda>p. [p, ''docs'']) (\<lambda>_. ''h'') [''a'', ''b'']) n = Some q \<and> q \<noteq> [''b'', ''docs''] \<and>
          q \<in> (\<lambda>p. [p, ''docs'']) ` set [''a'', ''b''] \<and>
          (n = hashed_name (\<lambda>_. ''h'') [''b'', ''docs''] \<or> n = hashed_name (\<lambda>_. ''h'') q))"
  by (rule every_path_is_wanted) simp

end
