(* ===== verification/Async_Lock.thy ===== *)
theory Async_Lock
  imports Names Prelude
begin

text \<open>
  The collection locks of \<open>archon_search/store.py\<close>: \<open>lock_for\<close>, \<open>discard_lock\<close> and the acquisition that \<open>locked_collection\<close>,
  \<open>locked_collection_meta\<close> and \<open>server/_ingest_lock.py\<close> share, over \<open>asyncio.Lock\<close>.

  A lock object is a flag and the queue of the futures its waiters sleep on. A future that was set, or cancelled, stays in the queue
  until the task that waits on it runs again, so between a release and the next acquisition the lock is free although a task was
  already told to take it. Tasks are numbered; \<open>phase\<close> says what each of them has of the locks.
\<close>

section \<open>\<open>asyncio.Lock\<close>\<close>

datatype fut = Fut_pending | Fut_set | Fut_cancelled

record alock =
  is_locked :: bool
  waiters :: "(nat \<times> fut) list"

definition fresh_lock :: alock where
  "fresh_lock = \<lparr>is_locked = False, waiters = []\<rparr>"

text \<open>\<open>Lock._wake_up_first\<close>: the first waiter is told, unless it already was (or gave up).\<close>

definition wake_up_first :: "alock \<Rightarrow> alock" where
  "wake_up_first l =
     (case waiters l of
        (t, Fut_pending) # ws \<Rightarrow> l\<lparr>waiters := (t, Fut_set) # ws\<rparr>
      | _ \<Rightarrow> l)"

text \<open>The fast path of \<open>Lock.acquire\<close>: the lock is free and nobody waits who has not given up.\<close>

definition may_enter :: "alock \<Rightarrow> bool" where
  "may_enter l \<longleftrightarrow> \<not> is_locked l \<and> list_all (\<lambda>w. snd w = Fut_cancelled) (waiters l)"

definition without_waiter :: "nat \<Rightarrow> alock \<Rightarrow> alock" where
  "without_waiter t l = l\<lparr>waiters := filter (\<lambda>w. fst w \<noteq> t) (waiters l)\<rparr>"

text \<open>\<open>Task.cancel\<close> cancels a future that is still pending; one that was set already stays set.\<close>

definition cancel_future :: "nat \<Rightarrow> alock \<Rightarrow> alock" where
  "cancel_future t l =
     l\<lparr>waiters := map (\<lambda>(u, f). (u, if u = t \<and> f = Fut_pending then Fut_cancelled else f)) (waiters l)\<rparr>"

section \<open>The lock table of the store\<close>

text \<open>
  \<open>Waiting c i b\<close>: the task waits for lock object \<open>i\<close> of collection \<open>c\<close>; with \<open>b\<close> it was cancelled meanwhile, by the timeout of
  \<open>wait_for\<close> or by a cancellation of the task, and gets \<open>CancelledError\<close> when it runs again.
\<close>

datatype lock_phase = Away | Waiting string nat bool | Holding string nat

record lock_state =
  lock_objs :: "alock list"
  lock_table :: "(string, nat) dict"
  phase :: "nat \<Rightarrow> lock_phase"

definition lock_for :: "string \<Rightarrow> lock_state \<Rightarrow> nat \<times> lock_state" where
  "lock_for c s =
     (case dict_get (lock_table s) c of
        Some i \<Rightarrow> (i, s)
      | None \<Rightarrow>
          (length (lock_objs s),
           s\<lparr>lock_objs := lock_objs s @ [fresh_lock], lock_table := dict_set c (length (lock_objs s)) (lock_table s)\<rparr>))"

definition discard_lock :: "string \<Rightarrow> lock_state \<Rightarrow> lock_state" where
  "discard_lock c s =
     (case dict_get (lock_table s) c of
        None \<Rightarrow> s
      | Some i \<Rightarrow>
          (let l = lock_objs s ! i
           in if \<not> is_locked l \<and> waiters l = [] then s\<lparr>lock_table := dict_del c (lock_table s)\<rparr> else s))"

definition put_lock :: "nat \<Rightarrow> alock \<Rightarrow> nat \<Rightarrow> lock_phase \<Rightarrow> lock_state \<Rightarrow> lock_state" where
  "put_lock i l t p s = s\<lparr>lock_objs := (lock_objs s)[i := l], phase := (phase s)(t := p)\<rparr>"

text \<open>\<open>lock = lock_for(c); await lock.acquire()\<close> up to the point where the task holds the lock or sleeps.\<close>

definition acquire :: "nat \<Rightarrow> string \<Rightarrow> lock_state \<Rightarrow> lock_state" where
  "acquire t c s =
     (case lock_for c s of
        (i, s1) \<Rightarrow>
          (let l = lock_objs s1 ! i
           in if may_enter l then put_lock i (l\<lparr>is_locked := True\<rparr>) t (Holding c i) s1
              else put_lock i (l\<lparr>waiters := waiters l @ [(t, Fut_pending)]\<rparr>) t (Waiting c i False) s1))"

text \<open>A sleeping task can run again once its future is done.\<close>

definition can_resume :: "nat \<Rightarrow> lock_state \<Rightarrow> bool" where
  "can_resume t s =
     (case phase s t of
        Waiting c i b \<Rightarrow> b \<or> (t, Fut_set) \<in> set (waiters (lock_objs s ! i))
      | _ \<Rightarrow> False)"

text \<open>The rest of \<open>Lock.acquire\<close>: the future leaves the queue; a cancelled task passes the wake-up on.\<close>

definition resume :: "nat \<Rightarrow> lock_state \<Rightarrow> lock_state" where
  "resume t s =
     (case phase s t of
        Waiting c i b \<Rightarrow>
          (let l = without_waiter t (lock_objs s ! i)
           in if b then put_lock i (if is_locked l then l else wake_up_first l) t Away s
              else put_lock i (l\<lparr>is_locked := True\<rparr>) t (Holding c i) s)
      | _ \<Rightarrow> s)"

text \<open>The timeout of \<open>wait_for(lock.acquire(), INGEST_LOCK_TIMEOUT_S)\<close>, or a cancellation of the task, while it waits.\<close>

definition cancel_wait :: "nat \<Rightarrow> lock_state \<Rightarrow> lock_state" where
  "cancel_wait t s =
     (case phase s t of
        Waiting c i False \<Rightarrow> put_lock i (cancel_future t (lock_objs s ! i)) t (Waiting c i True) s
      | _ \<Rightarrow> s)"

definition release :: "nat \<Rightarrow> lock_state \<Rightarrow> lock_state" where
  "release t s =
     (case phase s t of
        Holding c i \<Rightarrow> put_lock i (wake_up_first ((lock_objs s ! i)\<lparr>is_locked := False\<rparr>)) t Away s
      | _ \<Rightarrow> s)"

definition no_locks :: lock_state where
  "no_locks = \<lparr>lock_objs = [], lock_table = [], phase = (\<lambda>_. Away)\<rparr>"

text \<open>Any tasks, in any order; the table entry of any collection may be discarded at any time.\<close>

inductive lock_step :: "lock_state \<Rightarrow> lock_state \<Rightarrow> bool" where
  step_acquire: "phase s t = Away \<Longrightarrow> lock_step s (acquire t c s)"
| step_resume: "can_resume t s \<Longrightarrow> lock_step s (resume t s)"
| step_cancel: "lock_step s (cancel_wait t s)"
| step_release: "lock_step s (release t s)"
| step_discard: "lock_step s (discard_lock c s)"

inductive_simps lock_step_iff: "lock_step s s'"

section \<open>The invariant\<close>

text \<open>
  The queue of a lock: only its head was told to go, and only while the lock is free; while the lock is free and somebody queues, the head
  was told, or gave up and will tell the next.
\<close>

fun queue_ok :: "bool \<Rightarrow> (nat \<times> fut) list \<Rightarrow> bool" where
  "queue_ok lk [] = True"
| "queue_ok lk ((t, f) # ws) \<longleftrightarrow>
     list_all (\<lambda>w. snd w \<noteq> Fut_set) ws \<and> (if lk then f \<noteq> Fut_set else f \<noteq> Fut_pending)"

definition future_fits :: "fut \<Rightarrow> bool \<Rightarrow> bool" where
  "future_fits f b \<longleftrightarrow> (f = Fut_pending \<longrightarrow> \<not> b) \<and> (f = Fut_cancelled \<longrightarrow> b)"

text \<open>What the tasks have of one lock object, and how its flag and queue must fit that.\<close>

definition waits_on :: "(nat \<Rightarrow> lock_phase) \<Rightarrow> nat \<Rightarrow> nat \<Rightarrow> bool \<Rightarrow> bool" where
  "waits_on ph i t b = (case ph t of Waiting c j b' \<Rightarrow> j = i \<and> b' = b | _ \<Rightarrow> False)"

definition holds :: "(nat \<Rightarrow> lock_phase) \<Rightarrow> nat \<Rightarrow> nat \<Rightarrow> bool" where
  "holds ph i t = (case ph t of Holding c j \<Rightarrow> j = i | _ \<Rightarrow> False)"

definition obj_fits :: "(nat \<Rightarrow> bool \<Rightarrow> bool) \<Rightarrow> (nat \<Rightarrow> bool) \<Rightarrow> alock \<Rightarrow> bool" where
  "obj_fits w h l \<longleftrightarrow>
     distinct (map fst (waiters l)) \<and>
     (\<forall>(t, f) \<in> set (waiters l). \<exists>b. w t b \<and> future_fits f b) \<and>
     (\<forall>t b. w t b \<longrightarrow> t \<in> fst ` set (waiters l)) \<and>
     (is_locked l \<longleftrightarrow> (\<exists>t. h t)) \<and>
     (\<forall>t t'. h t \<longrightarrow> h t' \<longrightarrow> t = t') \<and>
     queue_ok (is_locked l) (waiters l)"

abbreviation obj_inv :: "(nat \<Rightarrow> lock_phase) \<Rightarrow> nat \<Rightarrow> alock \<Rightarrow> bool" where
  "obj_inv ph i \<equiv> obj_fits (waits_on ph i) (holds ph i)"

lemma obj_fitsD:
  assumes "obj_fits w h l"
  shows "distinct (map fst (waiters l))"
    and "(t, f) \<in> set (waiters l) \<Longrightarrow> \<exists>b. w t b \<and> future_fits f b"
    and "w t b \<Longrightarrow> t \<in> fst ` set (waiters l)"
    and "is_locked l \<longleftrightarrow> (\<exists>t. h t)"
    and "h t \<Longrightarrow> h t' \<Longrightarrow> t = t'"
    and "queue_ok (is_locked l) (waiters l)"
  using assms unfolding obj_fits_def by blast+

lemma obj_fitsI:
  assumes "distinct (map fst (waiters l))"
    and "\<And>t f. (t, f) \<in> set (waiters l) \<Longrightarrow> \<exists>b. w t b \<and> future_fits f b"
    and "\<And>t b. w t b \<Longrightarrow> t \<in> fst ` set (waiters l)"
    and "is_locked l \<longleftrightarrow> (\<exists>t. h t)"
    and "\<And>t t'. h t \<Longrightarrow> h t' \<Longrightarrow> t = t'"
    and "queue_ok (is_locked l) (waiters l)"
  shows "obj_fits w h l"
  unfolding obj_fits_def by (intro conjI ballI) (use assms in auto)

fun uses_lock :: "lock_phase \<Rightarrow> string \<Rightarrow> nat \<Rightarrow> bool" where
  "uses_lock Away c i = False"
| "uses_lock (Waiting c' i' b) c i \<longleftrightarrow> c' = c \<and> i' = i"
| "uses_lock (Holding c' i') c i \<longleftrightarrow> c' = c \<and> i' = i"

definition lock_inv :: "lock_state \<Rightarrow> bool" where
  "lock_inv s \<longleftrightarrow>
     dict_ok (lock_table s) \<and>
     (\<forall>c i. dict_get (lock_table s) c = Some i \<longrightarrow> i < length (lock_objs s)) \<and>
     (\<forall>c c' i. dict_get (lock_table s) c = Some i \<longrightarrow> dict_get (lock_table s) c' = Some i \<longrightarrow> c = c') \<and>
     (\<forall>t c i. uses_lock (phase s t) c i \<longrightarrow> dict_get (lock_table s) c = Some i) \<and>
     (\<forall>i < length (lock_objs s). obj_inv (phase s) i (lock_objs s ! i))"

lemma lock_invD:
  assumes "lock_inv s"
  shows "dict_ok (lock_table s)"
    and "dict_get (lock_table s) c = Some i \<Longrightarrow> i < length (lock_objs s)"
    and "dict_get (lock_table s) c = Some i \<Longrightarrow> dict_get (lock_table s) c' = Some i \<Longrightarrow> c = c'"
    and "uses_lock (phase s t) c i \<Longrightarrow> dict_get (lock_table s) c = Some i"
    and "i < length (lock_objs s) \<Longrightarrow> obj_inv (phase s) i (lock_objs s ! i)"
  using assms by (auto simp: lock_inv_def)

lemma uses_lock_obj: "lock_inv s \<Longrightarrow> uses_lock (phase s t) c i \<Longrightarrow> obj_inv (phase s) i (lock_objs s ! i)"
  by (meson lock_invD)

lemma uses_lock_bound: "lock_inv s \<Longrightarrow> uses_lock (phase s t) c i \<Longrightarrow> i < length (lock_objs s)"
  by (meson lock_invD)

text \<open>Another lock does not notice a task that neither had anything of it nor has now.\<close>

lemma waits_on_upd: "waits_on (ph(t := p)) i = (waits_on ph i)(t := waits_on (\<lambda>_. p) i t)"
  by (rule ext) (auto simp: waits_on_def)

lemma holds_upd: "holds (ph(t := p)) i = (holds ph i)(t := holds (\<lambda>_. p) i t)"
  by (rule ext) (auto simp: holds_def)

lemma not_using:
  assumes "\<forall>c. \<not> uses_lock (ph t) c j"
  shows "waits_on ph j t = (\<lambda>_. False)" "holds ph j t = False"
  using assms by (auto simp: waits_on_def holds_def split: lock_phase.splits)

lemma obj_inv_other_task:
  assumes "obj_inv ph j l" "\<forall>c. \<not> uses_lock (ph t) c j" "\<forall>c. \<not> uses_lock p c j"
  shows "obj_inv (ph(t := p)) j l"
proof -
  have "waits_on (ph(t := p)) j = waits_on ph j" "holds (ph(t := p)) j = holds ph j"
    using not_using [of ph t j] assms(2) not_using [of "\<lambda>_. p" t j] assms(3) by (auto simp: waits_on_upd holds_upd fun_eq_iff)
  then show ?thesis using assms(1) by simp
qed

lemma put_lock_inv:
  assumes "lock_inv s" "i < length (lock_objs s)"
    and "\<And>c j. uses_lock (phase s t) c j \<Longrightarrow> j = i"
    and "\<And>c j. uses_lock p c j \<Longrightarrow> j = i \<and> dict_get (lock_table s) c = Some i"
    and "obj_inv ((phase s)(t := p)) i l"
  shows "lock_inv (put_lock i l t p s)"
proof -
  have "obj_inv ((phase s)(t := p)) j (lock_objs s ! j)" if "j < length (lock_objs s)" "j \<noteq> i" for j
    by (rule obj_inv_other_task) (use assms that in \<open>auto dest: lock_invD(5)\<close>)
  then show ?thesis
    using assms unfolding lock_inv_def put_lock_def
    by (auto simp: nth_list_update)
qed

lemma queue_ok_append: "queue_ok lk ws \<Longrightarrow> ws \<noteq> [] \<or> lk \<Longrightarrow> queue_ok lk (ws @ [(t, Fut_pending)])"
  by (cases ws) auto

lemma queue_ok_set_at_head:
  "queue_ok lk ws \<Longrightarrow> (t, Fut_set) \<in> set ws \<Longrightarrow> \<not> lk \<and> (\<exists>ws'. ws = (t, Fut_set) # ws')"
  by (cases ws) (fastforce simp: list_all_iff split: if_splits)+

lemma queue_ok_tail_locked: "list_all (\<lambda>w. snd w \<noteq> Fut_set) ws \<Longrightarrow> queue_ok True ws"
  by (cases ws) auto

lemma queue_ok_no_set: "queue_ok True ws \<Longrightarrow> list_all (\<lambda>w. snd w \<noteq> Fut_set) ws"
  by (cases ws) auto

lemma queue_ok_wake_up:
  "queue_ok True (waiters l) \<Longrightarrow> \<not> is_locked l \<Longrightarrow> queue_ok False (waiters (wake_up_first l))"
  by (auto simp: wake_up_first_def split: list.splits fut.splits prod.splits)

lemma queue_ok_filter_locked: "queue_ok True ws \<Longrightarrow> queue_ok True (filter P ws)"
  using queue_ok_no_set [of ws] by (intro queue_ok_tail_locked) (simp add: list_all_iff)

lemma queue_ok_leave_free:
  assumes "queue_ok False (waiters l)" "\<not> is_locked l" "distinct (map fst (waiters l))"
  shows "queue_ok False (waiters (wake_up_first (without_waiter t l)))"
proof (cases "waiters l")
  case (Cons w ws)
  then obtain u f where w: "waiters l = (u, f) # ws" by (metis surj_pair)
  show ?thesis
  proof (cases "u = t")
    case True
    have "list_all (\<lambda>w. snd w \<noteq> Fut_set) (filter (\<lambda>w. fst w \<noteq> t) ws)" using assms(1) w by (auto simp: list_all_iff)
    then have "queue_ok True (waiters (without_waiter t l))"
      using True w by (simp add: without_waiter_def queue_ok_tail_locked)
    then show ?thesis using assms(2) by (intro queue_ok_wake_up) (auto simp: without_waiter_def)
  next
    case False
    then show ?thesis using assms(1) w
      by (auto simp: without_waiter_def wake_up_first_def list_all_iff split: fut.splits)
  qed
qed (simp add: without_waiter_def wake_up_first_def)

section \<open>Every operation keeps the invariant\<close>

lemma set_wake_up_first:
  "map fst (waiters (wake_up_first l)) = map fst (waiters l)" "is_locked (wake_up_first l) = is_locked l"
  by (auto simp: wake_up_first_def split: list.splits fut.splits)

lemma wake_up_first_member:
  "(t, f) \<in> set (waiters (wake_up_first l)) \<Longrightarrow> \<exists>f'. (t, f') \<in> set (waiters l) \<and> (f = f' \<or> f = Fut_set)"
  by (auto simp: wake_up_first_def split: list.splits fut.splits if_splits)

lemma lock_for_inv:
  assumes "lock_inv s" "lock_for c s = (i, s1)"
  shows "lock_inv s1 \<and> dict_get (lock_table s1) c = Some i \<and> i < length (lock_objs s1) \<and> phase s1 = phase s"
proof (cases "dict_get (lock_table s) c")
  case None
  let ?n = "length (lock_objs s)"
  have s1: "i = ?n" "s1 = s\<lparr>lock_objs := lock_objs s @ [fresh_lock], lock_table := dict_set c ?n (lock_table s)\<rparr>"
    using assms(2) None by (auto simp: lock_for_def)
  have no: "\<not> uses_lock (phase s t) d ?n" for t d
    using uses_lock_bound [OF assms(1), of t d ?n] by auto
  have fresh: "obj_inv (phase s) ?n fresh_lock"
    using no not_using [of "phase s" _ ?n] by (auto simp: obj_fits_def fresh_lock_def)
  have old: "dict_get (lock_table s) d = Some j \<Longrightarrow> j \<noteq> ?n" for d j using lock_invD(2) [OF assms(1), of d j] by auto
  have "lock_inv s1"
    unfolding lock_inv_def
  proof (intro conjI allI impI)
    show "dict_ok (lock_table s1)" using lock_invD(1) [OF assms(1)] by (simp add: s1 dict_ok_set)
    show "j < length (lock_objs s1)" if "dict_get (lock_table s1) d = Some j" for d j
      using that lock_invD(2) [OF assms(1), of d j] by (auto simp: s1 split: if_splits)
    show "d = d'" if "dict_get (lock_table s1) d = Some j" "dict_get (lock_table s1) d' = Some j" for d d' j
      using that lock_invD(3) [OF assms(1), of d j d'] old by (auto simp: s1 split: if_splits)
    show "dict_get (lock_table s1) d = Some j" if "uses_lock (phase s1 t) d j" for t d j
      using that lock_invD(4) [OF assms(1), of t d j] None by (auto simp: s1)
    show "obj_inv (phase s1) j (lock_objs s1 ! j)" if "j < length (lock_objs s1)" for j
      using that lock_invD(5) [OF assms(1), of j] fresh by (auto simp: s1 nth_append less_Suc_eq)
  qed
  then show ?thesis by (simp add: s1)
qed (use assms in \<open>auto simp: lock_for_def dest: lock_invD\<close>)

lemma acquire_inv:
  assumes "lock_inv s" "phase s t = Away"
  shows "lock_inv (acquire t c s)"
proof -
  obtain i s1 where f: "lock_for c s = (i, s1)" by fastforce
  have s1: "lock_inv s1" "dict_get (lock_table s1) c = Some i" "i < length (lock_objs s1)" "phase s1 t = Away"
    using lock_for_inv [OF assms(1) f] assms(2) by auto
  let ?l = "lock_objs s1 ! i"
  have o: "obj_inv (phase s1) i ?l" using lock_invD(5) [OF s1(1) s1(3)] .
  have nt: "waits_on (phase s1) i t = (\<lambda>_. False)" "\<not> holds (phase s1) i t" "t \<notin> fst ` set (waiters ?l)"
    using o s1(4) by (auto simp: waits_on_def holds_def obj_fits_def fun_eq_iff)
  show ?thesis
  proof (cases "may_enter ?l")
    case True
    have "obj_inv ((phase s1)(t := Holding c i)) i (?l\<lparr>is_locked := True\<rparr>)"
      using o nt True by (auto simp: obj_fits_def may_enter_def waits_on_upd holds_upd list_all_iff split_beta
          waits_on_def [of "\<lambda>_. Holding c i"] holds_def [of "\<lambda>_. Holding c i"] intro!: queue_ok_tail_locked)
    then have "lock_inv (put_lock i (?l\<lparr>is_locked := True\<rparr>) t (Holding c i) s1)"
      using s1 by (intro put_lock_inv) auto
    then show ?thesis using True f by (simp add: acquire_def Let_def)
  next
    case False
    have "queue_ok (is_locked ?l) (waiters ?l @ [(t, Fut_pending)])"
      using obj_fitsD(6) [OF o] False by (intro queue_ok_append) (auto simp: may_enter_def)
    then have "obj_inv ((phase s1)(t := Waiting c i False)) i (?l\<lparr>waiters := waiters ?l @ [(t, Fut_pending)]\<rparr>)"
      using o nt by (auto simp: obj_fits_def waits_on_upd holds_upd split_beta future_fits_def
          waits_on_def [of "\<lambda>_. Waiting c i False"] holds_def [of "\<lambda>_. Waiting c i False"])
    then have "lock_inv (put_lock i (?l\<lparr>waiters := waiters ?l @ [(t, Fut_pending)]\<rparr>) t (Waiting c i False) s1)"
      using s1 by (intro put_lock_inv) auto
    then show ?thesis using False f by (simp add: acquire_def Let_def)
  qed
qed

text \<open>A task that leaves the queue, for whatever it has of the lock afterwards.\<close>

lemma obj_fits_leave:
  assumes o: "obj_fits w h l" and t: "\<not> h t"
    and m: "map fst (waiters m) = filter (\<lambda>u. u \<noteq> t) (map fst (waiters l))"
    and mem: "\<And>u f. (u, f) \<in> set (waiters m) \<Longrightarrow> \<exists>f'. (u, f') \<in> set (waiters l) \<and> (f = f' \<or> f = Fut_set)"
    and lk: "is_locked m \<longleftrightarrow> is_locked l \<or> h'" and free: "h' \<Longrightarrow> \<not> is_locked l"
    and q: "queue_ok (is_locked m) (waiters m)"
  shows "obj_fits (w(t := (\<lambda>_. False))) (h(t := h')) m"
proof (rule obj_fitsI)
  have mem': "u \<in> fst ` set (waiters m) \<longleftrightarrow> u \<in> fst ` set (waiters l) \<and> u \<noteq> t" for u
    using arg_cong [OF m, of set] by auto
  show "distinct (map fst (waiters m))" using obj_fitsD(1) [OF o] m by simp
  show "\<exists>b. (w(t := (\<lambda>_. False))) u b \<and> future_fits f b" if uf: "(u, f) \<in> set (waiters m)" for u f
  proof -
    obtain f' b where "(u, f') \<in> set (waiters l)" "f = f' \<or> f = Fut_set" "w u b" "future_fits f' b"
      using mem [OF uf] obj_fitsD(2) [OF o] by blast
    moreover have "u \<noteq> t" using mem' [of u] uf by force
    ultimately show ?thesis by (auto simp: future_fits_def)
  qed
  show "u \<in> fst ` set (waiters m)" if "(w(t := (\<lambda>_. False))) u b" for u b
    using that mem' obj_fitsD(3) [OF o] by (auto split: if_splits)
  show "is_locked m \<longleftrightarrow> (\<exists>u. (h(t := h')) u)" using lk obj_fitsD(4) [OF o] t by auto
  show "u = u'" if "(h(t := h')) u" "(h(t := h')) u'" for u u'
    using that obj_fitsD(4) [OF o] obj_fitsD(5) [OF o, of u u'] free by (cases "u = t"; cases "u' = t") auto
qed (rule q)

lemma map_fst_without: "map fst (waiters (without_waiter t l)) = filter (\<lambda>u. u \<noteq> t) (map fst (waiters l))"
  by (simp add: without_waiter_def filter_map o_def)

lemma without_waiter_sel:
  "is_locked (without_waiter t l) = is_locked l"
  "(u, f) \<in> set (waiters (without_waiter t l)) \<longleftrightarrow> (u, f) \<in> set (waiters l) \<and> u \<noteq> t"
  by (auto simp: without_waiter_def)

lemma resume_inv:
  assumes "lock_inv s" "can_resume t s"
  shows "lock_inv (resume t s)"
proof -
  obtain c i b where p: "phase s t = Waiting c i b" and r: "b \<or> (t, Fut_set) \<in> set (waiters (lock_objs s ! i))"
    using assms(2) by (auto simp: can_resume_def split: lock_phase.splits)
  let ?l = "lock_objs s ! i" and ?l' = "without_waiter t (lock_objs s ! i)"
  have u: "uses_lock (phase s t) c i" using p by simp
  note o = uses_lock_obj [OF assms(1) u] and i = uses_lock_bound [OF assms(1) u]
  have th: "\<not> holds (phase s) i t" using p by (simp add: holds_def)
  show ?thesis
  proof (cases b)
    case True
    let ?m = "if is_locked ?l' then ?l' else wake_up_first ?l'"
    have q: "queue_ok (is_locked ?m) (waiters ?m)"
      using obj_fitsD(6,1) [OF o] queue_ok_leave_free [of ?l t]
      by (auto simp: set_wake_up_first without_waiter_sel without_waiter_def queue_ok_filter_locked)
    have "obj_inv ((phase s)(t := Away)) i ?m"
      unfolding waits_on_upd holds_upd waits_on_def [of "\<lambda>_. Away"] holds_def [of "\<lambda>_. Away"] lock_phase.case
      by (rule obj_fits_leave [OF o th]) (use q in \<open>auto simp: set_wake_up_first map_fst_without without_waiter_sel
          dest!: wake_up_first_member split: if_splits\<close>)
    then have "lock_inv (put_lock i ?m t Away s)" using assms(1) i p by (intro put_lock_inv) auto
    then show ?thesis using p True by (simp add: resume_def Let_def)
  next
    case False
    then obtain ws' where w: "waiters ?l = (t, Fut_set) # ws'" "\<not> is_locked ?l"
      using r queue_ok_set_at_head [OF obj_fitsD(6) [OF o]] by blast
    have "list_all (\<lambda>w. snd w \<noteq> Fut_set) ws'" using obj_fitsD(6) [OF o] w by simp
    then have q: "queue_ok True (waiters ?l')"
      using w by (simp add: without_waiter_def queue_ok_tail_locked queue_ok_filter_locked)
    have "obj_inv ((phase s)(t := Holding c i)) i (?l'\<lparr>is_locked := True\<rparr>)"
      unfolding waits_on_upd holds_upd waits_on_def [of "\<lambda>_. Holding c i"] holds_def [of "\<lambda>_. Holding c i"] lock_phase.case
      by (rule obj_fits_leave [OF o th]) (use q w in \<open>auto simp: map_fst_without without_waiter_sel\<close>)
    then have "lock_inv (put_lock i (?l'\<lparr>is_locked := True\<rparr>) t (Holding c i) s)"
      using assms(1) i p lock_invD(4) [OF assms(1) u] by (intro put_lock_inv) auto
    then show ?thesis using p False by (simp add: resume_def Let_def)
  qed
qed

lemma cancel_future_sel:
  "is_locked (cancel_future t l) = is_locked l"
  "map fst (waiters (cancel_future t l)) = map fst (waiters l)"
  by (auto simp: cancel_future_def comp_def split_beta)

lemma cancel_future_member:
  "(u, f) \<in> set (waiters (cancel_future t l)) \<Longrightarrow>
   \<exists>f'. (u, f') \<in> set (waiters l) \<and> f = (if u = t \<and> f' = Fut_pending then Fut_cancelled else f')"
  by (auto simp: cancel_future_def)

lemma queue_ok_cancel_future: "queue_ok lk (waiters l) \<Longrightarrow> queue_ok lk (waiters (cancel_future t l))"
  by (cases "waiters l") (fastforce simp: cancel_future_def list_all_iff split: if_splits)+

lemma cancel_wait_inv:
  assumes "lock_inv s"
  shows "lock_inv (cancel_wait t s)"
proof (cases "\<exists>c i. phase s t = Waiting c i False")
  case True
  then obtain c i where p: "phase s t = Waiting c i False" by blast
  let ?l = "lock_objs s ! i"
  have u: "uses_lock (phase s t) c i" using p by simp
  note o = uses_lock_obj [OF assms u]
  have tw: "waits_on (phase s) i t b \<longleftrightarrow> \<not> b" and th: "\<not> holds (phase s) i t" for b
    using p by (auto simp: waits_on_def holds_def)
  have "obj_fits ((waits_on (phase s) i)(t := (\<lambda>b. b))) (holds (phase s) i) (cancel_future t ?l)"
  proof (rule obj_fitsI)
    show "\<exists>b. ((waits_on (phase s) i)(t := (\<lambda>b. b))) v b \<and> future_fits f b"
      if vf: "(v, f) \<in> set (waiters (cancel_future t ?l))" for v f
    proof -
      obtain f' b where "f = (if v = t \<and> f' = Fut_pending then Fut_cancelled else f')" "waits_on (phase s) i v b" "future_fits f' b"
        using cancel_future_member [OF vf] obj_fitsD(2) [OF o] by blast
      then show ?thesis using tw by (cases "v = t") (auto simp: future_fits_def)
    qed
    show "v \<in> fst ` set (waiters (cancel_future t ?l))" if "((waits_on (phase s) i)(t := (\<lambda>b. b))) v b" for v b
      using that obj_fitsD(3) [OF o] tw cancel_future_sel(2) [of t ?l] by (metis fun_upd_apply set_map)
  qed (use o in \<open>auto simp: cancel_future_sel queue_ok_cancel_future dest: obj_fitsD\<close>)
  moreover have "waits_on ((phase s)(t := Waiting c i True)) i = (waits_on (phase s) i)(t := (\<lambda>b. b))"
    "holds ((phase s)(t := Waiting c i True)) i = holds (phase s) i"
    using th by (auto simp: waits_on_def holds_def fun_eq_iff)
  ultimately have "lock_inv (put_lock i (cancel_future t ?l) t (Waiting c i True) s)"
    using assms uses_lock_bound [OF assms u] p lock_invD(4) [OF assms u] by (intro put_lock_inv) auto
  then show ?thesis using p by (simp add: cancel_wait_def)
next
  case False
  then have "cancel_wait t s = s" by (auto simp: cancel_wait_def split: lock_phase.splits bool.splits)
  then show ?thesis using assms by simp
qed

lemma release_inv:
  assumes "lock_inv s"
  shows "lock_inv (release t s)"
proof (cases "\<exists>c i. phase s t = Holding c i")
  case True
  then obtain c i where p: "phase s t = Holding c i" by blast
  let ?l = "lock_objs s ! i" and ?m = "wake_up_first ((lock_objs s ! i)\<lparr>is_locked := False\<rparr>)"
  have u: "uses_lock (phase s t) c i" using p by simp
  note o = uses_lock_obj [OF assms u]
  have h: "holds (phase s) i t" using p by (simp add: holds_def)
  have lk: "is_locked ?l" using obj_fitsD(4) [OF o] h by blast
  have only: "v = t" if "holds (phase s) i v" for v using obj_fitsD(5) [OF o that h] .
  have q: "queue_ok False (waiters ?m)"
    by (rule queue_ok_wake_up) (use obj_fitsD(6) [OF o] lk in auto)
  have ms: "map fst (waiters ?m) = map fst (waiters ?l)" "\<not> is_locked ?m" by (simp_all add: set_wake_up_first)
  have "obj_fits (waits_on (phase s) i) (\<lambda>_. False) ?m"
  proof (rule obj_fitsI)
    show "\<exists>b. waits_on (phase s) i v b \<and> future_fits f b" if vf: "(v, f) \<in> set (waiters ?m)" for v f
    proof -
      obtain f' where "(v, f') \<in> set (waiters ?l)" "f = f' \<or> f = Fut_set" using wake_up_first_member [OF vf] by auto
      then show ?thesis using obj_fitsD(2) [OF o, of v f'] by (auto simp: future_fits_def)
    qed
    show "v \<in> fst ` set (waiters ?m)" if "waits_on (phase s) i v b" for v b
      using that obj_fitsD(3) [OF o] ms(1) by (metis set_map)
  qed (use obj_fitsD(1) [OF o] ms q in auto)
  moreover have "waits_on ((phase s)(t := Away)) i = waits_on (phase s) i" "holds ((phase s)(t := Away)) i = (\<lambda>_. False)"
    using p only by (auto simp: waits_on_def holds_def fun_eq_iff)
  ultimately have "lock_inv (put_lock i ?m t Away s)"
    using assms uses_lock_bound [OF assms u] p by (intro put_lock_inv) auto
  then show ?thesis using p by (simp add: release_def)
next
  case False
  then have "release t s = s" by (auto simp: release_def split: lock_phase.splits)
  then show ?thesis using assms by simp
qed

text \<open>An entry is dropped only when no task holds or waits for its lock.\<close>

lemma discard_lock_inv:
  assumes "lock_inv s"
  shows "lock_inv (discard_lock c s)"
proof (cases "discard_lock c s = s")
  case False
  then obtain i where i: "dict_get (lock_table s) c = Some i" "\<not> is_locked (lock_objs s ! i)" "waiters (lock_objs s ! i) = []"
    and d: "discard_lock c s = s\<lparr>lock_table := dict_del c (lock_table s)\<rparr>"
    by (auto simp: discard_lock_def Let_def split: option.splits if_splits)
  have o: "obj_inv (phase s) i (lock_objs s ! i)" using lock_invD(2,5) [OF assms] i(1) by blast
  have none: "\<not> holds (phase s) i t" "\<not> waits_on (phase s) i t b" for t b
    using obj_fitsD(3) [OF o, of t] obj_fitsD(4) [OF o] i by auto
  have "\<not> uses_lock (phase s t) c' i" for t c'
    using none [of t] by (cases "phase s t") (auto simp: waits_on_def holds_def)
  then have free: "\<not> uses_lock (phase s t) c j" for t j
    using lock_invD(4) [OF assms, of t c j] i(1) by auto
  show ?thesis
    unfolding lock_inv_def d
  proof (intro conjI allI impI)
    show "dict_ok (lock_table (s\<lparr>lock_table := dict_del c (lock_table s)\<rparr>))" using lock_invD(1) [OF assms] by (simp add: dict_ok_del)
  qed (use lock_invD [OF assms] free in \<open>auto split: if_splits\<close>)
qed (use assms in simp)

lemma no_locks_inv: "lock_inv no_locks"
  by (simp add: lock_inv_def no_locks_def dict_ok_def dict_get_def)

lemmas lock_op_inv = acquire_inv resume_inv cancel_wait_inv release_inv discard_lock_inv

interpretation locks: machine_invariant "\<lambda>s. s = no_locks" lock_step lock_inv
  by unfold_locales (auto simp: lock_step_iff no_locks_inv intro: lock_op_inv)

lemma lock_exclusive:
  assumes "lock_inv l" "phase l t = Holding c i" "phase l u = Holding c j"
  shows "t = u"
proof -
  have "dict_get (lock_table l) c = Some i" "dict_get (lock_table l) c = Some j"
    using lock_invD(4) [OF assms(1), of t c i] lock_invD(4) [OF assms(1), of u c j] assms(2,3) by simp_all
  then have "i = j" by simp
  then have "holds (phase l) i t" "holds (phase l) i u" using assms(2,3) by (simp_all add: holds_def)
  then show ?thesis using obj_fitsD(5) [OF uses_lock_obj [OF assms(1), of t c i]] assms(2) by simp
qed

end
