(* ===== verification/Collection_Tasks.thy ===== *)
theory Collection_Tasks
  imports Async_Lock Job_Store Sync_Names
begin

text \<open>
  The requests and background tasks that create, write and drop collections, cut at their \<open>await\<close> points. Here: their common state, the
  configuration's path lists, \<open>remove_collection\<close> of \<open>server/routes_collections.py\<close> and \<open>collection_writer\<close> of \<open>store.py\<close>, which the MCP ingest tools,
  the sync and the watcher write under. The search store and the job store are there, as in a server that finished its start.

  The state is the store's (locks, registered writers, tables with their row counts, owners of the metadata rows), the job store, the two path
  lists of the configuration, and what each task does next. Every stretch of a task is one function of the state; what LanceDB, a file write or
  the event loop may do meanwhile is an argument of it. A task that has to wait for a lock says so with \<open>acquire\<close>; it goes on when it holds it.
\<close>

section \<open>State\<close>

datatype job_kind_started = Reindex_job | Metadata_job bool | Community_job

datatype task =
  Idle
| Ended nat
| Del_waiting string string bool "abs_path option"
| Del_dropping string string "(nat \<times> string) list" "(nat \<times> string) list"
| Del_dropped string string
| Wr_waiting string "string option"
| Wr_running string
| In_waiting string string
| In_claiming string string bool
| In_running string string bool
| Cj_waiting string string job_kind_started
| Cj_recording string job
| Cj_loading string string
| Cj_running string string
| Ac_stub_waiting string string string
| Ac_waiting string string string
| Dr_waiting string string
| Dr_dropping string string
| Im_waiting string string string
| Im_dropping string string bool
| Im_dropped string string

record csys =
  sys_locks :: lock_state
  sys_writers :: "(string, nat) dict"
  sys_tables :: "(string, nat) dict"
  sys_metas :: "(string \<times> string) list"
  sys_jobs :: job_store
  sys_collections :: "string list"
  sys_pinned :: "string list"
  sys_tasks :: "nat \<Rightarrow> task"

definition goto :: "nat \<Rightarrow> task \<Rightarrow> csys \<Rightarrow> csys" where
  "goto t p s = s\<lparr>sys_tasks := (sys_tasks s)(t := p)\<rparr>"

definition lock_collection :: "nat \<Rightarrow> string \<Rightarrow> task \<Rightarrow> csys \<Rightarrow> csys" where
  "lock_collection t c p s = goto t p (s\<lparr>sys_locks := acquire t c (sys_locks s)\<rparr>)"

definition unlock :: "nat \<Rightarrow> task \<Rightarrow> csys \<Rightarrow> csys" where
  "unlock t p s = goto t p (s\<lparr>sys_locks := release t (sys_locks s)\<rparr>)"

text \<open>\<open>finally: lock.release(); store.discard_lock(c)\<close>\<close>

definition unlock_discard :: "nat \<Rightarrow> string \<Rightarrow> task \<Rightarrow> csys \<Rightarrow> csys" where
  "unlock_discard t c p s = goto t p (s\<lparr>sys_locks := discard_lock c (release t (sys_locks s))\<rparr>)"

abbreviation lock_phase_of :: "csys \<Rightarrow> nat \<Rightarrow> lock_phase" where
  "lock_phase_of s \<equiv> phase (sys_locks s)"

definition holding :: "csys \<Rightarrow> nat \<Rightarrow> string \<Rightarrow> bool" where
  "holding s t c = (case lock_phase_of s t of Holding c' i \<Rightarrow> c' = c | _ \<Rightarrow> False)"

section \<open>The store\<close>

definition owner_namespaces :: "csys \<Rightarrow> string \<Rightarrow> string list" where
  "owner_namespaces s c = map snd (filter (\<lambda>(n, ns). n = c) (sys_metas s))"

text \<open>\<open>_require_collection_access\<close>: a row names the owner; a table with rows but no row in the metadata is \<open>default\<close>'s.\<close>

definition collection_access :: "csys \<Rightarrow> string \<Rightarrow> string \<Rightarrow> bool" where
  "collection_access s c ns \<longleftrightarrow>
     valid_namespace ns \<and>
     (let owners = owner_namespaces s c
      in if owners \<noteq> [] then ns \<in> set owners
         else ns = default_ns \<or> (case dict_get (sys_tables s) c of None \<Rightarrow> True | Some n \<Rightarrow> n = 0))"

definition ensure_collection :: "string \<Rightarrow> string \<Rightarrow> csys \<Rightarrow> csys" where
  "ensure_collection c ns s =
     (if is_valid_collection_name c \<and> collection_access s c ns \<and> dict_get (sys_tables s) c = None
      then s\<lparr>sys_tables := dict_set c 0 (sys_tables s)\<rparr> else s)"

text \<open>What \<open>await db.drop_table\<close> may do; a failure or a cancellation may come before or after the table went.\<close>

datatype db_outcome = Db_done | Db_error bool | Db_cancelled bool

datatype drop_exc = Drop_refused | Drop_missing | Drop_error | Drop_cancelled

definition without_table :: "string \<Rightarrow> csys \<Rightarrow> csys" where
  "without_table c s = s\<lparr>sys_tables := dict_del c (sys_tables s)\<rparr>"

definition drop_collection :: "db_outcome \<Rightarrow> string \<Rightarrow> string \<Rightarrow> csys \<Rightarrow> (drop_exc + unit) \<times> csys" where
  "drop_collection out c ns s =
     (if \<not> collection_access s c ns then (Inl Drop_refused, s)
      else if dict_get (sys_tables s) c = None then (Inl Drop_missing, s)
      else case out of
             Db_done \<Rightarrow> (Inr (), without_table c s)
           | Db_error gone \<Rightarrow> (Inl Drop_error, if gone then without_table c s else s)
           | Db_cancelled gone \<Rightarrow> (Inl Drop_cancelled, if gone then without_table c s else s))"

definition delete_meta_row :: "string \<Rightarrow> string \<Rightarrow> csys \<Rightarrow> csys" where
  "delete_meta_row c ns s = s\<lparr>sys_metas := filter (\<lambda>m. m \<noteq> (c, ns)) (sys_metas s)\<rparr>"

text \<open>\<open>update_collection_meta\<close> refuses a name that has a row of another namespace.\<close>

definition upsert_meta_row :: "string \<Rightarrow> string \<Rightarrow> csys \<Rightarrow> csys option" where
  "upsert_meta_row c ns s =
     (if owner_namespaces s c = [] then Some (s\<lparr>sys_metas := sys_metas s @ [(c, ns)]\<rparr>)
      else if hd (owner_namespaces s c) = ns then Some s
      else None)"

definition has_active_writer :: "csys \<Rightarrow> string \<Rightarrow> bool" where
  "has_active_writer s c \<longleftrightarrow> c \<in> set (dict_keys (sys_writers s))"

section \<open>The configuration's path lists\<close>

definition split_paths :: "resolver \<Rightarrow> abs_path option \<Rightarrow> string list \<Rightarrow> string list \<times> (nat \<times> string) list" where
  "split_paths resolve resolved ps =
     (filter (\<lambda>p. Some (resolve p) \<noteq> resolved) ps,
      filter (\<lambda>(i, p). Some (resolve p) = resolved) (enumerate 0 ps))"

definition insert_at :: "nat \<Rightarrow> 'a \<Rightarrow> 'a list \<Rightarrow> 'a list" where
  "insert_at i x xs = take i xs @ x # drop i xs"

fun insert_removed :: "resolver \<Rightarrow> abs_path set \<Rightarrow> (nat \<times> string) list \<Rightarrow> string list \<Rightarrow> string list" where
  "insert_removed resolve present [] ps = ps"
| "insert_removed resolve present ((i, p) # removed) ps =
     insert_removed resolve present removed (if resolve p \<notin> present then insert_at i p ps else ps)"

definition restore_paths :: "resolver \<Rightarrow> (nat \<times> string) list \<Rightarrow> string list \<Rightarrow> string list" where
  "restore_paths resolve removed ps = insert_removed resolve (resolve ` set ps) removed ps"

definition all_collection_paths :: "resolver \<Rightarrow> csys \<Rightarrow> (string, abs_path) dict" where
  "all_collection_paths resolve s =
     dict_set_all (map (\<lambda>p. (path_to_collection_name resolve p, resolve p)) (dedup (sys_collections s @ sys_pinned s))) []"

definition drop_path_from_config ::
    "resolver \<Rightarrow> abs_path option \<Rightarrow> csys \<Rightarrow> (nat \<times> string) list \<times> (nat \<times> string) list \<times> csys" where
  "drop_path_from_config resolve resolved s =
     (case split_paths resolve resolved (sys_collections s) of
        (kept, removed) \<Rightarrow>
          (case split_paths resolve resolved (sys_pinned s) of
             (kept_pinned, removed_pinned) \<Rightarrow>
               (removed, removed_pinned, s\<lparr>sys_collections := kept, sys_pinned := kept_pinned\<rparr>)))"

definition restore_config :: "resolver \<Rightarrow> (nat \<times> string) list \<Rightarrow> (nat \<times> string) list \<Rightarrow> csys \<Rightarrow> csys" where
  "restore_config resolve removed removed_pinned s =
     s\<lparr>sys_collections := restore_paths resolve removed (sys_collections s),
       sys_pinned := restore_paths resolve removed_pinned (sys_pinned s)\<rparr>"

section \<open>\<open>DELETE /collections/{name}\<close>\<close>

text \<open>\<open>_visible_meta_or_404\<close>: \<open>Some True\<close> for a row, \<open>Some False\<close> for a collection that only the configuration names, \<open>None\<close> for 404.\<close>

definition visible_meta :: "resolver \<Rightarrow> csys \<Rightarrow> string \<Rightarrow> string \<Rightarrow> bool option" where
  "visible_meta resolve s c ns =
     (if (c, ns) \<in> set (sys_metas s) then Some True
      else if ns = default_ns \<and> dict_get (all_collection_paths resolve s) c \<noteq> None \<and> owner_namespaces s c = [] then Some False
      else None)"

definition remove_collection :: "resolver \<Rightarrow> nat \<Rightarrow> string \<Rightarrow> string \<Rightarrow> csys \<Rightarrow> csys" where
  "remove_collection resolve t c ns s =
     (if \<not> is_valid_collection_name c \<or> \<not> valid_namespace ns then goto t (Ended 500) s
      else case visible_meta resolve s c ns of
        None \<Rightarrow> goto t (Ended 404) s
      | Some row \<Rightarrow>
          (let resolved = dict_get (all_collection_paths resolve s) c;
               in_collections = resolved \<in> (Some \<circ> resolve) ` set (sys_collections s);
               in_pinned = resolved \<in> (Some \<circ> resolve) ` set (sys_pinned s)
           in if in_pinned \<and> \<not> in_collections then goto t (Ended 409) s
              else lock_collection t c (Del_waiting c ns row resolved) s))"

text \<open>Job store calls of the tasks: the clock, and how the two possible writes of the jobs file end.\<close>

record job_call =
  jc_now :: string
  jc_write :: write_attempt
  jc_rewrite :: write_attempt

definition cancel_retries :: "(string \<Rightarrow> int option) \<Rightarrow> job_call \<Rightarrow> string \<Rightarrow> csys \<Rightarrow> csys" where
  "cancel_retries fromiso jc c s =
     s\<lparr>sys_jobs := snd (cancel_ingest_retries fromiso (jc_now jc) (jc_write jc) (jc_rewrite jc) c (sys_jobs s))\<rparr>"

text \<open>
  With the lock held: the row read again when there was none, the two checks, and the configuration. \<open>saved\<close> says whether the
  configuration file could be written.
\<close>

definition remove_checked :: "resolver \<Rightarrow> (string \<Rightarrow> int option) \<Rightarrow> job_call \<Rightarrow> bool \<Rightarrow> nat \<Rightarrow> csys \<Rightarrow> csys" where
  "remove_checked resolve fromiso jc saved t s =
     (case sys_tasks s t of
        Del_waiting c ns row resolved \<Rightarrow>
          (case (if row then Some True else visible_meta resolve s c ns) of
             None \<Rightarrow> unlock t (Ended 404) s
           | Some row' \<Rightarrow>
               (if find_active_collection_job c ns None (sys_jobs s) \<noteq> None then unlock t (Ended 503) s
                else if has_active_writer s c then unlock t (Ended 503) s
                else case drop_path_from_config resolve resolved s of
                       (removed, removed_pinned, s1) \<Rightarrow>
                         (if \<not> saved then unlock t (Ended 500) (restore_config resolve removed removed_pinned s1)
                          else if \<not> row' then unlock_discard t c (Ended 200) (cancel_retries fromiso jc c s1)
                          else goto t (Del_dropping c ns removed removed_pinned) s1)))
      | _ \<Rightarrow> s)"

definition remove_dropped :: "resolver \<Rightarrow> (string \<Rightarrow> int option) \<Rightarrow> job_call \<Rightarrow> db_outcome \<Rightarrow> nat \<Rightarrow> csys \<Rightarrow> csys" where
  "remove_dropped resolve fromiso jc out t s =
     (case sys_tasks s t of
        Del_dropping c ns removed removed_pinned \<Rightarrow>
          (case drop_collection out c ns s of
             (Inr _, s1) \<Rightarrow> goto t (Del_dropped c ns) (cancel_retries fromiso jc c s1)
           | (Inl Drop_missing, s1) \<Rightarrow> goto t (Del_dropped c ns) (cancel_retries fromiso jc c s1)
           | (Inl Drop_cancelled, s1) \<Rightarrow> unlock t (Ended 0) s1
           | (Inl _, s1) \<Rightarrow> unlock t (Ended 500) (restore_config resolve removed removed_pinned s1))
      | _ \<Rightarrow> s)"

definition remove_meta :: "db_outcome \<Rightarrow> nat \<Rightarrow> csys \<Rightarrow> csys" where
  "remove_meta out t s =
     (case sys_tasks s t of
        Del_dropped c ns \<Rightarrow>
          (case out of
             Db_done \<Rightarrow> unlock_discard t c (Ended 200) (delete_meta_row c ns s)
           | Db_error gone \<Rightarrow> unlock_discard t c (Ended 500) (if gone then delete_meta_row c ns s else s)
           | Db_cancelled gone \<Rightarrow> unlock_discard t c (Ended 0) (if gone then delete_meta_row c ns s else s))
      | _ \<Rightarrow> s)"

section \<open>Registered writers\<close>

definition register_writer :: "string \<Rightarrow> csys \<Rightarrow> csys" where
  "register_writer c s =
     s\<lparr>sys_writers := dict_set c ((case dict_get (sys_writers s) c of Some n \<Rightarrow> n | None \<Rightarrow> 0) + 1) (sys_writers s)\<rparr>"

definition deregister_writer :: "string \<Rightarrow> csys \<Rightarrow> csys" where
  "deregister_writer c s =
     (case dict_get (sys_writers s) c of
        Some n \<Rightarrow> (if n - 1 \<noteq> 0 then s\<lparr>sys_writers := dict_set c (n - 1) (sys_writers s)\<rparr>
                  else s\<lparr>sys_writers := dict_del c (sys_writers s)\<rparr>)
      | None \<Rightarrow> s)"

definition collection_writer :: "nat \<Rightarrow> string \<Rightarrow> string option \<Rightarrow> csys \<Rightarrow> csys" where
  "collection_writer t c ns s =
     (if is_valid_collection_name c then lock_collection t c (Wr_waiting c ns) s else goto t (Ended 0) s)"

text \<open>Under the lock, the namespace check (when the writer acts for one) and the registration; then the lock is free again.\<close>

definition writer_registered :: "nat \<Rightarrow> csys \<Rightarrow> csys" where
  "writer_registered t s =
     (case sys_tasks s t of
        Wr_waiting c ns \<Rightarrow>
          (if (case ns of None \<Rightarrow> True | Some n \<Rightarrow> collection_access s c n)
           then unlock t (Wr_running c) (register_writer c s) else unlock t (Ended 0) s)
      | _ \<Rightarrow> s)"

definition writer_ends :: "nat \<Rightarrow> csys \<Rightarrow> csys" where
  "writer_ends t s =
     (case sys_tasks s t of
        Wr_running c \<Rightarrow> goto t (Ended 0) (deregister_writer c s)
      | _ \<Rightarrow> s)"

end
