(* ===== verification/Collection_Jobs.thy ===== *)
theory Collection_Jobs
  imports Collection_Tasks
begin

text \<open>
  The tasks that write a collection through a job, and the drops other than \<open>DELETE /collections/{name}\<close>: \<open>POST /ingest\<close> and the ingest tasks of
  \<open>server/routes_jobs.py\<close>, \<open>create_collection_job\<close> of \<open>server/_collection_job.py\<close> with the tasks of its three routes, \<open>add_collection\<close> of
  \<open>server/routes_collections.py\<close>, \<open>_drop_if_idle\<close> of \<open>sync.py\<close> and \<open>_ensure_collection_absent\<close> of \<open>server/routes_export.py\<close>.
\<close>

section \<open>Ingest jobs\<close>

text \<open>
  \<open>acquire_collection_lock_or_503\<close> with a namespace: a collection that this namespace may not write gets no lock, and its job runs without.
\<close>

definition new_ingest_job :: "job_call \<Rightarrow> string \<Rightarrow> string \<Rightarrow> string \<Rightarrow> string \<Rightarrow> ingest_options option \<Rightarrow> job" where
  "new_ingest_job jc jid ns c path opts = new_ingest jid (jc_now jc) ns ''user'' path c opts 0"

definition create_ingest ::
    "(string \<Rightarrow> int option) \<Rightarrow> job_call \<Rightarrow> string \<Rightarrow> string \<Rightarrow> string \<Rightarrow> string \<Rightarrow> ingest_options option \<Rightarrow> csys \<Rightarrow> bool \<times> csys" where
  "create_ingest fromiso jc jid ns c path opts s =
     (case create_job fromiso (jc_write jc) (jc_rewrite jc) (new_ingest_job jc jid ns c path opts) (sys_jobs s) of
        (Inr _, js) \<Rightarrow> (True, s\<lparr>sys_jobs := js\<rparr>)
      | (Inl _, js) \<Rightarrow> (False, s\<lparr>sys_jobs := js\<rparr>))"

definition post_ingest ::
    "(string \<Rightarrow> int option) \<Rightarrow> job_call \<Rightarrow> string \<Rightarrow> string \<Rightarrow> ingest_options option \<Rightarrow> nat \<Rightarrow> string \<Rightarrow> string \<Rightarrow> csys \<Rightarrow> csys" where
  "post_ingest fromiso jc jid path opts t c ns s =
     (if \<not> is_valid_collection_name c \<or> \<not> valid_namespace ns then goto t (Ended 500) s
      else if collection_access s c ns then lock_collection t c (In_waiting c ns) s
      else case create_ingest fromiso jc jid ns c path opts s of
             (True, s1) \<Rightarrow> goto t (In_claiming c jid False) s1
           | (False, s1) \<Rightarrow> goto t (Ended 500) s1)"

definition ingest_created ::
    "(string \<Rightarrow> int option) \<Rightarrow> job_call \<Rightarrow> string \<Rightarrow> string \<Rightarrow> ingest_options option \<Rightarrow> nat \<Rightarrow> csys \<Rightarrow> csys" where
  "ingest_created fromiso jc jid path opts t s =
     (case sys_tasks s t of
        In_waiting c ns \<Rightarrow>
          (case create_ingest fromiso jc jid ns c path opts s of
             (True, s1) \<Rightarrow> goto t (In_claiming c jid True) s1
           | (False, s1) \<Rightarrow> unlock t (Ended 500) s1)
      | _ \<Rightarrow> s)"

text \<open>\<open>_run_maintenance_retry\<close>: an already created job waits for the lock before its claim.\<close>

definition maintenance_retry :: "nat \<Rightarrow> string \<Rightarrow> string \<Rightarrow> csys \<Rightarrow> csys" where
  "maintenance_retry t c jid s = lock_collection t c (In_claiming c jid True) s"

definition persist_status :: "(string \<Rightarrow> int option) \<Rightarrow> job_call \<Rightarrow> string \<Rightarrow> field_change list \<Rightarrow> csys \<Rightarrow> csys" where
  "persist_status fromiso jc jid cs s =
     s\<lparr>sys_jobs := snd (update fromiso (jc_now jc) (jc_write jc) jid cs (sys_jobs s))\<rparr>"

definition is_cancelling :: "string \<Rightarrow> csys \<Rightarrow> bool" where
  "is_cancelling jid s = (case get jid (sys_jobs s) of Some j \<Rightarrow> status j = CANCELLING | None \<Rightarrow> False)"

definition finish_requested_cancel :: "(string \<Rightarrow> int option) \<Rightarrow> job_call \<Rightarrow> string \<Rightarrow> csys \<Rightarrow> csys" where
  "finish_requested_cancel fromiso jc jid s =
     (if is_cancelling jid s then persist_status fromiso jc jid [Set_status CANCELLED] s else s)"

definition unlock_if :: "bool \<Rightarrow> nat \<Rightarrow> task \<Rightarrow> csys \<Rightarrow> csys" where
  "unlock_if locked t p s = (if locked then unlock t p s else goto t p s)"

definition ingest_failed_detail :: string where
  "ingest_failed_detail = ''ingest failed; see the server log for details''"

text \<open>
  The first stretch of \<open>_default_ingest_task(_with_lock)\<close>: \<open>_claim_ingest\<close>, and the lock released before the dispatch (or by the
  \<open>finally\<close> when nothing runs). \<open>jc'\<close> is for the write that ends a job that could not be claimed.
\<close>

definition ingest_claims :: "(string \<Rightarrow> int option) \<Rightarrow> job_call \<Rightarrow> job_call \<Rightarrow> nat \<Rightarrow> csys \<Rightarrow> csys" where
  "ingest_claims fromiso jc jc' t s =
     (case sys_tasks s t of
        In_claiming c jid locked \<Rightarrow>
          (case transition fromiso (jc_now jc) (jc_write jc) (jc_rewrite jc) jid [PENDING] RUNNING [] (sys_jobs s) of
             (Inr (Some _), js) \<Rightarrow> unlock_if locked t (In_running c jid locked) (s\<lparr>sys_jobs := js\<rparr>)
           | (Inr None, js) \<Rightarrow> unlock_if locked t (Ended 0) (finish_requested_cancel fromiso jc' jid (s\<lparr>sys_jobs := js\<rparr>))
           | (Inl e, js) \<Rightarrow>
               unlock_if locked t (Ended 0)
                 (if is_exception e
                  then persist_status fromiso jc' jid [Set_status FAILED, Set_error (Some ingest_failed_detail)] (s\<lparr>sys_jobs := js\<rparr>)
                  else s\<lparr>sys_jobs := js\<rparr>))
      | _ \<Rightarrow> s)"

text \<open>How the work of an ingest ended decides the status it leaves: a cancelled or failed ingest says so, a successful one is \<open>DONE\<close> unless a cancel is asked for.\<close>

datatype work_end = Work_done json | Work_failed string | Work_cancelled

definition persist_final_status :: "(string \<Rightarrow> int option) \<Rightarrow> job_call \<Rightarrow> string \<Rightarrow> field_change list \<Rightarrow> csys \<Rightarrow> csys" where
  "persist_final_status fromiso jc jid results s =
     (if is_cancelling jid s then persist_status fromiso jc jid [Set_status CANCELLED] s
      else persist_status fromiso jc jid (Set_status DONE # results) s)"

definition ingest_ends :: "(string \<Rightarrow> int option) \<Rightarrow> job_call \<Rightarrow> work_end \<Rightarrow> nat \<Rightarrow> csys \<Rightarrow> csys" where
  "ingest_ends fromiso jc w t s =
     (case sys_tasks s t of
        In_running c jid locked \<Rightarrow>
          goto t (Ended 0)
            (case w of
               Work_cancelled \<Rightarrow> persist_status fromiso jc jid [Set_status CANCELLED] s
             | Work_failed e \<Rightarrow> persist_status fromiso jc jid [Set_status FAILED, Set_error (Some e)] s
             | Work_done r \<Rightarrow> persist_final_status fromiso jc jid [Set_result r] s)
      | _ \<Rightarrow> s)"

section \<open>\<open>create_collection_job\<close>\<close>

fun kind_pointer :: "job_kind_started \<Rightarrow> bool" where
  "kind_pointer (Metadata_job dry_run) = (\<not> dry_run)"
| "kind_pointer _ = True"

fun started_job :: "job_kind_started \<Rightarrow> string option \<Rightarrow> job_call \<Rightarrow> string \<Rightarrow> string \<Rightarrow> string \<Rightarrow> job" where
  "started_job Reindex_job model jc jid c ns = new_reindex jid (jc_now jc) c ns model"
| "started_job (Metadata_job dry_run) model jc jid c ns = new_metadata_reindex jid (jc_now jc) c ns dry_run"
| "started_job Community_job model jc jid c ns = new_community_rebuild jid (jc_now jc) c ns"

definition job_superseded_detail :: string where
  "job_superseded_detail = ''never started; superseded by a newer request''"

text \<open>\<open>_reindex_in_progress_409\<close> and \<open>refuse_active_job_or_fail_legacy\<close>; \<open>pointed\<close> is the job the metadata row names.\<close>

definition reindex_in_progress :: "string option \<Rightarrow> csys \<Rightarrow> bool" where
  "reindex_in_progress pointed s =
     (case pointed of
        None \<Rightarrow> False
      | Some jid \<Rightarrow> (case get jid (sys_jobs s) of None \<Rightarrow> False | Some j \<Rightarrow> status j \<in> {RUNNING, PENDING}))"

definition refuse_active_job_or_fail_legacy ::
    "(string \<Rightarrow> int option) \<Rightarrow> job_call \<Rightarrow> string option \<Rightarrow> csys \<Rightarrow> bool \<times> csys" where
  "refuse_active_job_or_fail_legacy fromiso jc pointed s =
     (case pointed of
        None \<Rightarrow> (False, s)
      | Some jid \<Rightarrow>
          (case get jid (sys_jobs s) of
             None \<Rightarrow> (False, s)
           | Some j \<Rightarrow>
               (if status j \<in> {RUNNING, CANCELLING} then (True, s)
                else if status j \<in> {QUEUED, PENDING}
                then (False, persist_status fromiso jc jid [Set_status FAILED, Set_error (Some job_superseded_detail)] s)
                else (False, s))))"

definition refuse_duplicate ::
    "(string \<Rightarrow> int option) \<Rightarrow> job_call \<Rightarrow> job_kind_started \<Rightarrow> string option \<Rightarrow> csys \<Rightarrow> bool \<times> csys" where
  "refuse_duplicate fromiso jc k pointed s =
     (if k = Reindex_job then (reindex_in_progress pointed s, s) else refuse_active_job_or_fail_legacy fromiso jc pointed s)"

definition create_collection_job ::
    "(string \<Rightarrow> int option) \<Rightarrow> job_call \<Rightarrow> string option \<Rightarrow> nat \<Rightarrow> string \<Rightarrow> string \<Rightarrow> job_kind_started \<Rightarrow> csys \<Rightarrow> csys" where
  "create_collection_job fromiso jc pointed t c ns k s =
     (if \<not> is_valid_collection_name c \<or> \<not> valid_namespace ns then goto t (Ended 500) s
      else if (c, ns) \<notin> set (sys_metas s) then goto t (Ended 404) s
      else case refuse_duplicate fromiso jc k pointed s of
             (True, s1) \<Rightarrow> goto t (Ended 409) s1
           | (False, s1) \<Rightarrow> lock_collection t c (Cj_waiting c ns k) s1)"

text \<open>Under the lock: the row and the duplicate guard again, then the job. A dry run only reads, so its task is no writer.\<close>

definition collection_job_created ::
    "(string \<Rightarrow> int option) \<Rightarrow> job_call \<Rightarrow> job_call \<Rightarrow> string option \<Rightarrow> string option \<Rightarrow> string \<Rightarrow> nat \<Rightarrow> csys \<Rightarrow> csys" where
  "collection_job_created fromiso jc jc' pointed model jid t s =
     (case sys_tasks s t of
        Cj_waiting c ns k \<Rightarrow>
          (if (c, ns) \<notin> set (sys_metas s) then unlock_discard t c (Ended 404) s
           else case refuse_duplicate fromiso jc k pointed s of
                  (True, s1) \<Rightarrow> unlock t (Ended 409) s1
                | (False, s1) \<Rightarrow>
                    (let j = started_job k model jc' jid c ns
                     in case create_job fromiso (jc_write jc') (jc_rewrite jc') j (sys_jobs s1) of
                          (Inl _, js) \<Rightarrow> unlock t (Ended 500) (s1\<lparr>sys_jobs := js\<rparr>)
                        | (Inr _, js) \<Rightarrow>
                            (if kind_pointer k then goto t (Cj_recording c j) (s1\<lparr>sys_jobs := js\<rparr>)
                             else unlock t (Ended 202) (s1\<lparr>sys_jobs := js\<rparr>))))
      | _ \<Rightarrow> s)"

definition reindex_failed_detail :: string where
  "reindex_failed_detail = ''reindex failed; see the server log for details''"

fun is_reindex :: "job_details \<Rightarrow> bool" where
  "is_reindex (ReindexJob m) = True"
| "is_reindex _ = False"

text \<open>The job's id on the metadata row: a failed write ends a reindex, and is only logged for the others.\<close>

definition collection_job_recorded :: "(string \<Rightarrow> int option) \<Rightarrow> job_call \<Rightarrow> bool \<Rightarrow> nat \<Rightarrow> csys \<Rightarrow> csys" where
  "collection_job_recorded fromiso jc written t s =
     (case sys_tasks s t of
        Cj_recording c j \<Rightarrow>
          (if \<not> written \<and> is_reindex (details j)
           then unlock t (Ended 500)
                  (persist_status fromiso jc (job_id j) [Set_status FAILED, Set_error (Some reindex_failed_detail)] s)
           else unlock t (if is_reindex (details j) then Cj_loading c (job_id j) else Cj_running c (job_id j)) s)
      | _ \<Rightarrow> s)"

text \<open>\<open>_end_reindex_cancelled_or_failed\<close>: a requested cancel is completed, else the error (if there is one) is recorded.\<close>

definition end_reindex :: "(string \<Rightarrow> int option) \<Rightarrow> job_call \<Rightarrow> string \<Rightarrow> string option \<Rightarrow> csys \<Rightarrow> csys" where
  "end_reindex fromiso jc jid err s =
     (if is_cancelling jid s then persist_status fromiso jc jid [Set_status CANCELLED] s
      else case err of
             None \<Rightarrow> s
           | Some e \<Rightarrow> persist_status fromiso jc jid [Set_status FAILED, Set_error (Some e)] s)"

text \<open>
  \<open>_reindex_task\<close> up to its claim, \<open>_claim_reindex\<close>: \<open>load_error\<close> is the error that loading the embedder ended with, if it failed. The claim is a
  compare-and-set from \<open>PENDING\<close>; one that is refused or cannot be written ends the task.
\<close>

definition reindex_claims :: "(string \<Rightarrow> int option) \<Rightarrow> job_call \<Rightarrow> job_call \<Rightarrow> string option \<Rightarrow> nat \<Rightarrow> csys \<Rightarrow> csys" where
  "reindex_claims fromiso jc jc' load_error t s =
     (case sys_tasks s t of
        Cj_loading c jid \<Rightarrow>
          (if load_error \<noteq> None then goto t (Ended 0) (end_reindex fromiso jc jid load_error s)
           else case transition fromiso (jc_now jc) (jc_write jc) (jc_rewrite jc) jid [PENDING] RUNNING [] (sys_jobs s) of
             (Inr (Some _), js) \<Rightarrow> goto t (Cj_running c jid) (s\<lparr>sys_jobs := js\<rparr>)
           | (Inr None, js) \<Rightarrow>
               goto t (Ended 0)
                 (case get jid js of
                    Some j \<Rightarrow> (if status j = RUNNING then s\<lparr>sys_jobs := js\<rparr> else end_reindex fromiso jc' jid None (s\<lparr>sys_jobs := js\<rparr>))
                  | None \<Rightarrow> end_reindex fromiso jc' jid None (s\<lparr>sys_jobs := js\<rparr>))
           | (Inl e, js) \<Rightarrow>
               goto t (Ended 0)
                 (if is_exception e then end_reindex fromiso jc' jid (Some reindex_failed_detail) (s\<lparr>sys_jobs := js\<rparr>)
                  else s\<lparr>sys_jobs := js\<rparr>))
      | _ \<Rightarrow> s)"

text \<open>
  The last stretch of \<open>_reindex_task\<close>, \<open>_reindex_metadata_task\<close> and \<open>_community_rebuild_task\<close>. A reindex that succeeded looks for a requested
  cancel; the other two write \<open>DONE\<close> whatever was asked. A cancelled metadata reindex or rebuild ends without a status.
\<close>

definition collection_job_ends :: "(string \<Rightarrow> int option) \<Rightarrow> job_call \<Rightarrow> work_end \<Rightarrow> nat \<Rightarrow> csys \<Rightarrow> csys" where
  "collection_job_ends fromiso jc w t s =
     (case sys_tasks s t of
        Cj_running c jid \<Rightarrow>
          goto t (Ended 0)
            (let reindex = (case get jid (sys_jobs s) of Some j \<Rightarrow> is_reindex (details j) | None \<Rightarrow> False)
             in case w of
                  Work_cancelled \<Rightarrow> (if reindex then persist_status fromiso jc jid [Set_status CANCELLED] s else s)
                | Work_failed e \<Rightarrow> persist_status fromiso jc jid [Set_status FAILED, Set_error (Some e)] s
                | Work_done r \<Rightarrow>
                    (if reindex then persist_final_status fromiso jc jid [] s
                     else persist_status fromiso jc jid [Set_status DONE, Set_result r] s))
      | _ \<Rightarrow> s)"

section \<open>\<open>POST /collections/\<close>\<close>

text \<open>\<open>_rollback_config_entry\<close> takes one entry of that very string out of the list; \<open>_rollback_add\<close> also deletes the stub row.\<close>

definition rollback_config_entry :: "string \<Rightarrow> csys \<Rightarrow> csys" where
  "rollback_config_entry path s = s\<lparr>sys_collections := remove1 path (sys_collections s)\<rparr>"

definition rollback_add :: "bool \<Rightarrow> string \<Rightarrow> string \<Rightarrow> string \<Rightarrow> csys \<Rightarrow> csys" where
  "rollback_add deleted path c ns s =
     (let s1 = rollback_config_entry path s in if deleted then delete_meta_row c ns s1 else s1)"

text \<open>
  \<open>checked\<close> is what \<open>validate_ingest_source\<close> answered (\<open>None\<close>: unsafe), \<open>model_ok\<close> and \<open>saved\<close> what the validation of the model and the write
  of the configuration did. The stub row is written by a store call of its own, with the lock.
\<close>

definition add_collection :: "resolver \<Rightarrow> bool \<Rightarrow> abs_path option \<Rightarrow> bool \<Rightarrow> nat \<Rightarrow> string \<Rightarrow> csys \<Rightarrow> csys" where
  "add_collection resolve model_ok checked saved t ns s =
     (if \<not> model_ok then goto t (Ended 422) s
      else case checked of
             None \<Rightarrow> goto t (Ended 400) s
           | Some resolved \<Rightarrow>
               (let path = path_str resolved; c = path_to_collection_name resolve path
                in if resolved \<in> resolve ` set (sys_collections s @ sys_pinned s) then goto t (Ended 409) s
                   else if c \<in> fst ` set (sys_metas s) then goto t (Ended 409) s
                   else if \<not> saved then goto t (Ended 500) s
                   else lock_collection t c (Ac_stub_waiting c ns path)
                          (s\<lparr>sys_collections := sys_collections s @ [path]\<rparr>)))"

definition stub_written :: "bool \<Rightarrow> nat \<Rightarrow> csys \<Rightarrow> csys" where
  "stub_written works t s =
     (case sys_tasks s t of
        Ac_stub_waiting c ns path \<Rightarrow>
          (if \<not> works then unlock t (Ended 500) (rollback_config_entry path s)
           else case upsert_meta_row c ns s of
                  None \<Rightarrow> unlock t (Ended 409) (rollback_config_entry path s)
                | Some s1 \<Rightarrow> lock_collection t c (Ac_waiting c ns path) (unlock t Idle s1))
      | _ \<Rightarrow> s)"

definition add_job_created ::
    "(string \<Rightarrow> int option) \<Rightarrow> job_call \<Rightarrow> string \<Rightarrow> bool \<Rightarrow> nat \<Rightarrow> csys \<Rightarrow> csys" where
  "add_job_created fromiso jc jid deleted t s =
     (case sys_tasks s t of
        Ac_waiting c ns path \<Rightarrow>
          (case create_ingest fromiso jc jid ns c '''' None s of
             (True, s1) \<Rightarrow> goto t (In_claiming c jid True) s1
           | (False, s1) \<Rightarrow> unlock_discard t c (Ended 500) (rollback_add deleted path c ns s1))
      | _ \<Rightarrow> s)"

section \<open>The drops of the sync and of an import\<close>

definition start_drop_if_idle :: "nat \<Rightarrow> string \<Rightarrow> string \<Rightarrow> csys \<Rightarrow> csys" where
  "start_drop_if_idle t c ns s =
     (if is_valid_collection_name c then lock_collection t c (Dr_waiting c ns) s else goto t (Ended 0) s)"

definition idle_checked :: "nat \<Rightarrow> csys \<Rightarrow> csys" where
  "idle_checked t s =
     (case sys_tasks s t of
        Dr_waiting c ns \<Rightarrow>
          (if find_active_collection_job c ns None (sys_jobs s) \<noteq> None \<or> has_active_writer s c
           then unlock_discard t c (Ended 0) s
           else goto t (Dr_dropping c ns) s)
      | _ \<Rightarrow> s)"

definition idle_dropped :: "db_outcome \<Rightarrow> nat \<Rightarrow> csys \<Rightarrow> csys" where
  "idle_dropped out t s =
     (case sys_tasks s t of
        Dr_dropping c ns \<Rightarrow> unlock_discard t c (Ended 0) (snd (drop_collection out c ns s))
      | _ \<Rightarrow> s)"

text \<open>\<open>_ensure_collection_absent\<close> with \<open>may_drop\<close>, for the import job \<open>jid\<close>.\<close>

definition ensure_absent :: "nat \<Rightarrow> string \<Rightarrow> string \<Rightarrow> string \<Rightarrow> csys \<Rightarrow> csys" where
  "ensure_absent t c ns jid s =
     (if is_valid_collection_name c \<and> collection_access s c ns then lock_collection t c (Im_waiting c ns jid) s
      else goto t (Ended 0) s)"

definition absent_checked :: "nat \<Rightarrow> csys \<Rightarrow> csys" where
  "absent_checked t s =
     (case sys_tasks s t of
        Im_waiting c ns jid \<Rightarrow>
          (let existing = (c, ns) \<in> set (sys_metas s);
               chunks = (case dict_get (sys_tables s) c of None \<Rightarrow> 0 | Some n \<Rightarrow> n)
           in if \<not> existing \<and> chunks = 0 then unlock t (Ended 0) s
              else if find_active_collection_job c ns (Some jid) (sys_jobs s) \<noteq> None then unlock t (Ended 0) s
              else goto t (Im_dropping c ns existing) s)
      | _ \<Rightarrow> s)"

text \<open>A missing table and a \<open>RuntimeError\<close> are ignored; \<open>runtime\<close> says whether a failure of the drop was one.\<close>

definition absent_dropped :: "db_outcome \<Rightarrow> bool \<Rightarrow> nat \<Rightarrow> csys \<Rightarrow> csys" where
  "absent_dropped out runtime t s =
     (case sys_tasks s t of
        Im_dropping c ns existing \<Rightarrow>
          (case drop_collection out c ns s of
             (r, s1) \<Rightarrow>
               (if r \<in> {Inr (), Inl Drop_missing} \<or> r = Inl Drop_error \<and> runtime
                then if existing then goto t (Im_dropped c ns) s1 else unlock_discard t c (Ended 0) s1
                else unlock_discard t c (Ended 0) s1))
      | _ \<Rightarrow> s)"

definition absent_meta :: "bool \<Rightarrow> nat \<Rightarrow> csys \<Rightarrow> csys" where
  "absent_meta deleted t s =
     (case sys_tasks s t of
        Im_dropped c ns \<Rightarrow> unlock_discard t c (Ended 0) (if deleted then delete_meta_row c ns s else s)
      | _ \<Rightarrow> s)"

end
