(* ===== verification/Collection_Machine.thy ===== *)
theory Collection_Machine
  imports Collection_Jobs Job_Store_Facts
begin

text \<open>
  All the tasks of \<open>Collection_Tasks\<close> and \<open>Collection_Jobs\<close> together, in every order, with every way their waits, their writes and their store
  calls can end; and the invariant that keeps a drop away from those who write.
\<close>

section \<open>Steps\<close>

text \<open>What a task does when its wait for the lock timed out or was cancelled; \<open>deleted\<close> is for \<open>_rollback_add\<close>.\<close>

definition wait_over :: "(string \<Rightarrow> int option) \<Rightarrow> job_call \<Rightarrow> bool \<Rightarrow> nat \<Rightarrow> csys \<Rightarrow> csys" where
  "wait_over fromiso jc deleted t s =
     (case sys_tasks s t of
        Del_waiting c ns row resolved \<Rightarrow> goto t (Ended 503) s
      | Wr_waiting c ns \<Rightarrow> goto t (Ended 0) s
      | In_waiting c ns \<Rightarrow> goto t (Ended 503) s
      | In_claiming c jid locked \<Rightarrow> goto t (Ended 0) (finish_requested_cancel fromiso jc jid s)
      | Cj_waiting c ns k \<Rightarrow> goto t (Ended 503) s
      | Ac_stub_waiting c ns path \<Rightarrow> goto t (Ended 503) (rollback_config_entry path s)
      | Ac_waiting c ns path \<Rightarrow> goto t (Ended 503) (rollback_add deleted path c ns s)
      | Dr_waiting c ns \<Rightarrow> goto t (Ended 0) (s\<lparr>sys_locks := discard_lock c (sys_locks s)\<rparr>)
      | Im_waiting c ns jid \<Rightarrow> goto t (Ended 0) s
      | _ \<Rightarrow> s)"

text \<open>A task wakes up: it holds the lock now, or its wait is over.\<close>

definition lock_resumed :: "(string \<Rightarrow> int option) \<Rightarrow> job_call \<Rightarrow> bool \<Rightarrow> nat \<Rightarrow> csys \<Rightarrow> csys" where
  "lock_resumed fromiso jc deleted t s =
     (let s1 = s\<lparr>sys_locks := resume t (sys_locks s)\<rparr>
      in if lock_phase_of s1 t = Away then wait_over fromiso jc deleted t s1 else s1)"

text \<open>The await of a task that holds the lock is cancelled: the \<open>finally\<close> (or \<open>async with\<close>) releases it.\<close>

definition aborted :: "nat \<Rightarrow> csys \<Rightarrow> csys" where
  "aborted t s =
     (case sys_tasks s t of
        Del_waiting c ns row resolved \<Rightarrow> unlock t (Ended 0) s
      | Wr_waiting c ns \<Rightarrow> unlock t (Ended 0) s
      | Cj_waiting c ns k \<Rightarrow> unlock t (Ended 0) s
      | Cj_recording c j \<Rightarrow> unlock t (Ended 0) s
      | Ac_stub_waiting c ns path \<Rightarrow> unlock t (Ended 0) s
      | Im_waiting c ns jid \<Rightarrow> unlock t (Ended 0) s
      | _ \<Rightarrow> s)"

text \<open>Who may call the store for a collection: a registered writer, and a task whose job runs.\<close>

fun writes_to :: "task \<Rightarrow> string option" where
  "writes_to (Wr_running c) = Some c"
| "writes_to (In_running c jid locked) = Some c"
| "writes_to (Cj_running c jid) = Some c"
| "writes_to _ = None"

text \<open>\<open>ingest_chunks\<close> and the other store calls of such a task: the lock, then rows and a metadata row.\<close>

definition rows_written :: "string \<Rightarrow> string \<Rightarrow> nat \<Rightarrow> csys \<Rightarrow> csys" where
  "rows_written c ns n s =
     (if collection_access s c ns
      then (case upsert_meta_row c ns s of None \<Rightarrow> s | Some s1 \<Rightarrow> s1\<lparr>sys_tables := dict_set c n (sys_tables s1)\<rparr>) else s)"

text \<open>Where a task waits for its lock before it does anything.\<close>

fun waits_for :: "task \<Rightarrow> string option" where
  "waits_for (Del_waiting c ns row resolved) = Some c"
| "waits_for (Wr_waiting c ns) = Some c"
| "waits_for (In_waiting c ns) = Some c"
| "waits_for (In_claiming c jid locked) = (if locked then Some c else None)"
| "waits_for (Cj_waiting c ns k) = Some c"
| "waits_for (Ac_stub_waiting c ns path) = Some c"
| "waits_for (Ac_waiting c ns path) = Some c"
| "waits_for (Dr_waiting c ns) = Some c"
| "waits_for (Im_waiting c ns jid) = Some c"
| "waits_for _ = None"

definition may_go :: "csys \<Rightarrow> nat \<Rightarrow> bool" where
  "may_go s t = (case waits_for (sys_tasks s t) of None \<Rightarrow> True | Some c \<Rightarrow> holding s t c)"

text \<open>The job a task is about.\<close>

fun task_job :: "task \<Rightarrow> string option" where
  "task_job (In_claiming c jid locked) = Some jid"
| "task_job (In_running c jid locked) = Some jid"
| "task_job (Cj_recording c j) = Some (job_id j)"
| "task_job (Cj_loading c jid) = Some jid"
| "task_job (Cj_running c jid) = Some jid"
| "task_job _ = None"

text \<open>Job ids are random: a new one is nobody's.\<close>

definition fresh_job :: "csys \<Rightarrow> string \<Rightarrow> bool" where
  "fresh_job s jid \<longleftrightarrow> dict_get (jobs (sys_jobs s)) jid = None \<and> (\<forall>t. task_job (sys_tasks s t) \<noteq> Some jid)"

text \<open>The pointers of a metadata row to metadata reindexes and community rebuilds name jobs of these classes.\<close>

definition pointer_ok :: "csys \<Rightarrow> job_kind_started \<Rightarrow> string option \<Rightarrow> bool" where
  "pointer_ok s k pointed \<longleftrightarrow>
     (case pointed of
        Some jid \<Rightarrow>
          (case get jid (sys_jobs s) of
             Some j \<Rightarrow> k = Reindex_job \<or> (\<exists>k' dry. details j = MetadataReindexJob k' dry) \<or> details j = CommunityRebuildJob
           | None \<Rightarrow> True)
      | None \<Rightarrow> True)"

text \<open>The requests and background tasks that begin. A job that is retried was made for that, so no other task is about it.\<close>

inductive task_starts :: "resolver \<Rightarrow> (string \<Rightarrow> int option) \<Rightarrow> nat \<Rightarrow> csys \<Rightarrow> csys \<Rightarrow> bool" for resolve fromiso t where
  starts_delete: "task_starts resolve fromiso t s (remove_collection resolve t c ns s)"
| starts_writer: "task_starts resolve fromiso t s (collection_writer t c w s)"
| starts_ingest: "fresh_job s jid \<Longrightarrow> task_starts resolve fromiso t s (post_ingest fromiso jc jid path opts t c ns s)"
| starts_retry: "get jid (sys_jobs s) = Some j \<Longrightarrow> details j = IngestJob \<Longrightarrow> collection j = c \<Longrightarrow> \<forall>u. task_job (sys_tasks s u) \<noteq> Some jid \<Longrightarrow>
     task_starts resolve fromiso t s (maintenance_retry t c jid s)"
| starts_job: "pointer_ok s k pointed \<Longrightarrow> task_starts resolve fromiso t s (create_collection_job fromiso jc pointed t c ns k s)"
| starts_add: "task_starts resolve fromiso t s (add_collection resolve model_ok checked saved t ns s)"
| starts_drop: "task_starts resolve fromiso t s (start_drop_if_idle t c ns s)"
| starts_import: "task_starts resolve fromiso t s (ensure_absent t c ns jid s)"

text \<open>The stretches of a task that has what it waited for. The job of an import is an import job.\<close>

inductive task_goes_on :: "resolver \<Rightarrow> (string \<Rightarrow> int option) \<Rightarrow> nat \<Rightarrow> csys \<Rightarrow> csys \<Rightarrow> bool" for resolve fromiso t where
  goes_delete_check: "task_goes_on resolve fromiso t s (remove_checked resolve fromiso jc saved t s)"
| goes_delete_drop: "task_goes_on resolve fromiso t s (remove_dropped resolve fromiso jc out t s)"
| goes_delete_meta: "task_goes_on resolve fromiso t s (remove_meta out t s)"
| goes_writer: "task_goes_on resolve fromiso t s (writer_registered t s)"
| goes_ingest: "fresh_job s jid \<Longrightarrow> task_goes_on resolve fromiso t s (ingest_created fromiso jc jid path opts t s)"
| goes_claim: "task_goes_on resolve fromiso t s (ingest_claims fromiso jc jc' t s)"
| goes_job: "fresh_job s jid \<Longrightarrow> (\<forall>c ns k. sys_tasks s t = Cj_waiting c ns k \<longrightarrow> pointer_ok s k pointed) \<Longrightarrow>
     task_goes_on resolve fromiso t s (collection_job_created fromiso jc jc' pointed model jid t s)"
| goes_pointer: "task_goes_on resolve fromiso t s (collection_job_recorded fromiso jc written t s)"
| goes_stub: "task_goes_on resolve fromiso t s (stub_written works t s)"
| goes_add: "fresh_job s jid \<Longrightarrow> task_goes_on resolve fromiso t s (add_job_created fromiso jc jid deleted t s)"
| goes_idle_check: "task_goes_on resolve fromiso t s (idle_checked t s)"
| goes_idle_drop: "task_goes_on resolve fromiso t s (idle_dropped out t s)"
| goes_import_check: "(\<forall>c ns jid j. sys_tasks s t = Im_waiting c ns jid \<longrightarrow> get jid (sys_jobs s) = Some j \<longrightarrow> is_bulk (details j)) \<Longrightarrow>
     task_goes_on resolve fromiso t s (absent_checked t s)"
| goes_import_drop: "task_goes_on resolve fromiso t s (absent_dropped out runtime t s)"
| goes_import_meta: "task_goes_on resolve fromiso t s (absent_meta deleted t s)"
| goes_abort: "task_goes_on resolve fromiso t s (aborted t s)"

text \<open>The ends of the tasks that write, which hold no lock then.\<close>

inductive task_finishes :: "(string \<Rightarrow> int option) \<Rightarrow> nat \<Rightarrow> csys \<Rightarrow> csys \<Rightarrow> bool" for fromiso t where
  ends_writer: "task_finishes fromiso t s (writer_ends t s)"
| ends_ingest: "task_finishes fromiso t s (ingest_ends fromiso jc w t s)"
| ends_claim: "task_finishes fromiso t s (reindex_claims fromiso jc jc' load_error t s)"
| ends_job: "task_finishes fromiso t s (collection_job_ends fromiso jc w t s)"

text \<open>
  The rest of the server, as far as it touches the job store: new jobs, a client's cancel, the scheduler and the tasks of bulk jobs, and progress
  reports.
\<close>

inductive others_step :: "(string \<Rightarrow> int option) \<Rightarrow> csys \<Rightarrow> csys \<Rightarrow> bool" for fromiso where
  other_creates: "fresh_job s (job_id j) \<Longrightarrow> post_init_ok j \<Longrightarrow>
     others_step fromiso s (s\<lparr>sys_jobs := snd (create_job fromiso a1 a2 j (sys_jobs s))\<rparr>)"
| other_cancels: "others_step fromiso s (s\<lparr>sys_jobs := snd (transition fromiso now a1 a2 jid [RUNNING, PENDING] CANCELLING
       [Set_cancel_requested True, Set_cancelled_before_start before] (sys_jobs s))\<rparr>)"
| other_bulk: "get jid (sys_jobs s) = Some j \<Longrightarrow> is_bulk (details j) \<Longrightarrow>
     others_step fromiso s (s\<lparr>sys_jobs := snd (update fromiso now a jid cs (sys_jobs s))\<rparr>)"
| other_progress: "list_all (\<lambda>c. \<not> sets_status c) cs \<Longrightarrow>
     others_step fromiso s (s\<lparr>sys_jobs := snd (update fromiso now a jid cs (sys_jobs s))\<rparr>)"

inductive csys_step :: "resolver \<Rightarrow> (string \<Rightarrow> int option) \<Rightarrow> csys \<Rightarrow> csys \<Rightarrow> bool" for resolve fromiso where
  step_start: "sys_tasks s t = Idle \<Longrightarrow> lock_phase_of s t = Away \<Longrightarrow> task_starts resolve fromiso t s s' \<Longrightarrow>
     csys_step resolve fromiso s s'"
| step_go: "may_go s t \<Longrightarrow> task_goes_on resolve fromiso t s s' \<Longrightarrow> csys_step resolve fromiso s s'"
| step_finish: "lock_phase_of s t = Away \<Longrightarrow> task_finishes fromiso t s s' \<Longrightarrow> csys_step resolve fromiso s s'"
| step_wakes: "can_resume t (sys_locks s) \<Longrightarrow> csys_step resolve fromiso s (lock_resumed fromiso jc deleted t s)"
| step_times_out: "csys_step resolve fromiso s (s\<lparr>sys_locks := cancel_wait t (sys_locks s)\<rparr>)"
| step_store_lock: "writes_to (sys_tasks s t) = Some c \<Longrightarrow> lock_phase_of s t = Away \<Longrightarrow>
     csys_step resolve fromiso s (s\<lparr>sys_locks := acquire t c (sys_locks s)\<rparr>)"
| step_store_write: "writes_to (sys_tasks s t) = Some c \<Longrightarrow> holding s t c \<Longrightarrow> csys_step resolve fromiso s (rows_written c ns n s)"
| step_store_unlock: "writes_to (sys_tasks s t) = Some c \<Longrightarrow>
     csys_step resolve fromiso s (s\<lparr>sys_locks := release t (sys_locks s)\<rparr>)"
| step_ensure: "writes_to (sys_tasks s t) = Some c \<Longrightarrow> csys_step resolve fromiso s (ensure_collection c ns s)"
| step_others: "others_step fromiso s s' \<Longrightarrow> csys_step resolve fromiso s s'"

definition started :: "csys \<Rightarrow> bool" where
  "started s \<longleftrightarrow>
     sys_locks s = no_locks \<and> sys_writers s = [] \<and> sys_tasks s = (\<lambda>_. Idle) \<and> store_inv (sys_jobs s)"

end
