(* ===== verification/Collection_Facts.thy ===== *)
theory Collection_Facts
  imports Collection_Machine Job_Properties
begin

text \<open>What the job store calls of the tasks leave of the jobs of others.\<close>

section \<open>The job store as the tasks see it\<close>

text \<open>A job that may still write collection \<open>c\<close> and is no bulk job; and a job that can only be an ingest of \<open>c\<close>.\<close>

definition active_job :: "job_store \<Rightarrow> string \<Rightarrow> string \<Rightarrow> bool" where
  "active_job js c jid \<longleftrightarrow>
     (\<exists>j. dict_get (jobs js) jid = Some j \<and> collection j = c \<and> may_write_collection j \<and> \<not> is_bulk (details j))"

definition ingest_of :: "job_store \<Rightarrow> string \<Rightarrow> string \<Rightarrow> bool" where
  "ingest_of js c jid \<longleftrightarrow> (\<forall>j. dict_get (jobs js) jid = Some j \<longrightarrow> collection j = c \<and> details j = IngestJob)"

text \<open>Every active job but \<open>X\<close> stays active, every ingest but \<open>Y\<close> stays one.\<close>

definition keeps_jobs :: "string set \<Rightarrow> string set \<Rightarrow> job_store \<Rightarrow> job_store \<Rightarrow> bool" where
  "keeps_jobs X Y js js' \<longleftrightarrow>
     store_inv js' \<and>
     (\<forall>c k. k \<notin> X \<longrightarrow> active_job js c k \<longrightarrow> active_job js' c k) \<and>
     (\<forall>c k. k \<notin> Y \<longrightarrow> ingest_of js c k \<longrightarrow> ingest_of js' c k)"

lemma keeps_jobs_refl: "store_inv js \<Longrightarrow> keeps_jobs X Y js js"
  by (simp add: keeps_jobs_def)

lemma keeps_jobs_trans:
  "keeps_jobs X Y js js1 \<Longrightarrow> keeps_jobs X Y js1 js2 \<Longrightarrow> keeps_jobs X Y js js2"
  unfolding keeps_jobs_def by blast

lemma keeps_jobs_mono: "keeps_jobs X Y js js' \<Longrightarrow> X \<subseteq> X' \<Longrightarrow> Y \<subseteq> Y' \<Longrightarrow> keeps_jobs X' Y' js js'"
  unfolding keeps_jobs_def by blast

lemma keeps_jobs_inactive:
  assumes "keeps_jobs {jid} Y js js'" "\<And>c. \<not> active_job js c jid"
  shows "keeps_jobs {} Y js js'"
  using assms unfolding keeps_jobs_def by (metis empty_iff singletonD)

lemma keeps_jobs_inv: "keeps_jobs X Y js js' \<Longrightarrow> store_inv js'"
  by (simp add: keeps_jobs_def)

lemma only_evicts_keeps:
  assumes "only_evicts js js'" "store_inv js'"
  shows "keeps_jobs {} {} js js'"
  unfolding keeps_jobs_def
proof (intro conjI allI impI)
  fix c k
  show "active_job js' c k" if "active_job js c k"
    using that assms(1) may_write_not_terminal unfolding active_job_def only_evicts_def by metis
  show "ingest_of js' c k" if "ingest_of js c k"
    using that assms(1) unfolding ingest_of_def only_evicts_def by metis
qed (rule assms(2))

lemma job_type_IngestJob: "job_type d = job_type IngestJob \<Longrightarrow> d = IngestJob"
  by (cases d) (auto split: if_splits)

text \<open>One job replaced by another of its class and collection.\<close>

lemma set_job_keeps:
  assumes "dict_get (jobs js) jid = Some j" "collection j' = collection j" "job_type (details j') = job_type (details j)"
    and "store_inv (js\<lparr>jobs := dict_set jid j' (jobs js)\<rparr>)"
    and "jid \<notin> X \<Longrightarrow> may_write_collection j \<Longrightarrow> \<not> is_bulk (details j) \<Longrightarrow> may_write_collection j' \<and> \<not> is_bulk (details j')"
  shows "keeps_jobs X {} js (js\<lparr>jobs := dict_set jid j' (jobs js)\<rparr>)"
  unfolding keeps_jobs_def
proof (intro conjI allI impI)
  fix c k
  show "active_job (js\<lparr>jobs := dict_set jid j' (jobs js)\<rparr>) c k" if "k \<notin> X" "active_job js c k"
    using that assms by (auto simp: active_job_def)
  show "ingest_of (js\<lparr>jobs := dict_set jid j' (jobs js)\<rparr>) c k" if "ingest_of js c k"
    using that assms(1-3) job_type_IngestJob [of "details j'"] by (auto simp: ingest_of_def)
qed (rule assms(4))

lemma update_keeps_if:
  assumes up: "update fromiso now a jid cs js = (r, js')" and inv: "store_inv js"
    and act: "\<And>j j'. jid \<notin> X \<Longrightarrow> dict_get (jobs js) jid = Some j \<Longrightarrow> replace cs (j\<lparr>updated_at := now\<rparr>) = Some j' \<Longrightarrow>
                may_write_collection j \<Longrightarrow> \<not> is_bulk (details j) \<Longrightarrow> may_write_collection j' \<and> \<not> is_bulk (details j')"
  shows "keeps_jobs X {} js js'"
  using up
proof (cases rule: update_cases)
  case (written j j' w)
  let ?m = "js\<lparr>jobs := dict_set jid j' (jobs js)\<rparr>"
  have wf: "store_inv ?m" using replaced_wf [OF inv written(1,2)] .
  have "keeps_jobs X {} js ?m"
    by (rule set_job_keeps [OF written(1) _ _ wf act]) (use replace_frame [OF written(2)] written(1,2) in auto)
  moreover have "keeps_jobs {} {} ?m js'"
    using write_atomic_evicts [OF written(3) wf] write_atomic_inv [OF written(3) wf] by (rule only_evicts_keeps)
  ultimately show ?thesis by (meson empty_subsetI keeps_jobs_mono keeps_jobs_trans order_refl)
qed (use inv keeps_jobs_refl in auto)

lemma update_keeps: "update fromiso now a jid cs js = (r, js') \<Longrightarrow> store_inv js \<Longrightarrow> keeps_jobs {jid} {} js js'"
  by (rule update_keeps_if) auto

lemma update_bulk_keeps:
  "update fromiso now a jid cs js = (r, js') \<Longrightarrow> store_inv js \<Longrightarrow> get jid js = Some j \<Longrightarrow> is_bulk (details j) \<Longrightarrow>
   keeps_jobs {} {} js js'"
  by (rule update_keeps_if) (auto simp: get_def)

lemma apply_change_details: "apply_change c j = Some j' \<Longrightarrow> \<not> is_bulk (details j) \<Longrightarrow> details j' = details j"
  by (cases c) (auto split: job_details.splits)

lemma replace_details: "replace cs j = Some j' \<Longrightarrow> \<not> is_bulk (details j) \<Longrightarrow> details j' = details j"
  by (induction cs arbitrary: j) (auto split: option.splits dest: apply_change_details)

lemma update_progress_keeps:
  assumes "update fromiso now a jid cs js = (r, js')" "store_inv js" "list_all (\<lambda>c. \<not> sets_status c) cs"
  shows "keeps_jobs {} {} js js'"
proof (rule update_keeps_if [OF assms(1,2)])
  fix j j'
  assume r: "replace cs (j\<lparr>updated_at := now\<rparr>) = Some j'" and "may_write_collection j" "\<not> is_bulk (details j)"
  then show "may_write_collection j' \<and> \<not> is_bulk (details j')"
    using replace_details [OF r] replace_status [OF r assms(3)] by (auto simp: may_write_collection_def split: option.splits if_splits)
qed

lemma transition_keeps_if:
  assumes tr: "transition fromiso now a1 a2 jid from_sts to_st flds js = (r, js')" and inv: "store_inv js"
    and act: "\<And>j j'. jid \<notin> X \<Longrightarrow> dict_get (jobs js) jid = Some j \<Longrightarrow> status j \<in> set from_sts \<Longrightarrow>
                replace (Set_status to_st # flds) (j\<lparr>updated_at := now\<rparr>) = Some j' \<Longrightarrow>
                may_write_collection j \<Longrightarrow> \<not> is_bulk (details j) \<Longrightarrow> may_write_collection j' \<and> \<not> is_bulk (details j')"
  shows "keeps_jobs X {} js js'"
  using tr
proof (cases rule: transition_cases)
  case (claimed j j')
  show ?thesis by (rule update_keeps_if [OF claimed(3) inv act]) (use claimed in auto)
next
  case (failed j e s1)
  have "\<exists>e. r = Inl e" using reraise_cases(2) [OF failed(4)] .
  then have "only_evicts js js'" using transition_rollback tr inv by blast
  moreover have "store_inv js'" using transition_inv [OF tr inv] .
  ultimately show ?thesis using only_evicts_keeps keeps_jobs_mono by blast
qed (use inv keeps_jobs_refl in auto)

lemma transition_keeps:
  "transition fromiso now a1 a2 jid from_sts to_st flds js = (r, js') \<Longrightarrow> store_inv js \<Longrightarrow> keeps_jobs {jid} {} js js'"
  by (rule transition_keeps_if) auto

lemma cancelling_may_write:
  "may_write_collection j \<Longrightarrow> \<not> is_bulk (details j) \<Longrightarrow> details j' = details j \<Longrightarrow> status j' \<in> {RUNNING, CANCELLING} \<Longrightarrow>
   may_write_collection j'"
  by (cases "details j") (auto simp: may_write_collection_def running_or_cancelling_def split: if_splits)

lemma cancel_request_keeps:
  assumes "transition fromiso now a1 a2 jid from_sts CANCELLING flds js = (r, js')" "store_inv js"
    and "list_all (\<lambda>c. \<not> sets_status c) flds"
  shows "keeps_jobs {} {} js js'"
proof (rule transition_keeps_if [OF assms(1,2)])
  fix j j'
  assume r: "replace (Set_status CANCELLING # flds) (j\<lparr>updated_at := now\<rparr>) = Some j'"
    and m: "may_write_collection j" "\<not> is_bulk (details j)"
  have "details j' = details j" using replace_details [OF r] m(2) by simp
  moreover have "status j' = CANCELLING" using replace_status [of flds] r assms(3) by fastforce
  ultimately show "may_write_collection j' \<and> \<not> is_bulk (details j')" using cancelling_may_write m by auto
qed

text \<open>A claim: the job was \<open>PENDING\<close>, is \<open>RUNNING\<close>, and of the class and collection it had.\<close>

lemma claim_active:
  assumes tr: "transition fromiso now a1 a2 jid [PENDING] RUNNING [] js = (Inr (Some j'), js')" and inv: "store_inv js"
    and old: "\<And>j. dict_get (jobs js) jid = Some j \<Longrightarrow> collection j = c \<and> (details j = IngestJob \<or> is_reindex (details j))"
  shows "active_job js' c jid"
proof -
  have tr': "update fromiso now a1 jid [Set_status RUNNING] js = (Inr j', js')" and p: "\<exists>j. dict_get (jobs js) jid = Some j"
    using tr by (auto elim!: transition_cases dest: reraise_cases(2))
  obtain j where j: "dict_get (jobs js) jid = Some j" "replace [Set_status RUNNING] (j\<lparr>updated_at := now\<rparr>) = Some j'"
    "only_evicts (js\<lparr>jobs := dict_set jid j' (jobs js)\<rparr>) js'"
    using update_Inr [OF tr' inv] by blast
  then have j': "j' = j\<lparr>updated_at := now, status := RUNNING\<rparr>" by simp
  have "dict_get (jobs js') jid = Some j'"
    using j(3) unfolding only_evicts_def by (auto simp: j' status_class_defs)
  moreover have "may_write_collection j'" "\<not> is_bulk (details j')"
    using old [OF j(1)] by (auto simp: j' may_write_collection_def running_or_cancelling_def elim!: is_reindex.elims)
  ultimately show ?thesis using old [OF j(1)] by (auto simp: active_job_def j')
qed

lemma create_keeps:
  assumes cr: "create_job fromiso a1 a2 j js = (r, js')" and inv: "store_inv js" "post_init_ok j"
    and fresh: "dict_get (jobs js) (job_id j) = None"
  shows "keeps_jobs {} {job_id j} js js'"
proof (cases r)
  case (Inl e)
  then have "only_evicts js js'" using create_job_rollback cr inv fresh by blast
  then show ?thesis
    using create_job_inv [OF cr inv] only_evicts_keeps keeps_jobs_mono by blast
next
  case (Inr x)
  let ?m = "js\<lparr>jobs := dict_set (job_id j) j (jobs js)\<rparr>"
  have "only_evicts ?m js'" using create_job_created [of fromiso a1 a2 j js x js'] cr inv Inr by blast
  then have "keeps_jobs {} {} ?m js'" using create_job_inv [OF cr inv] by (rule only_evicts_keeps)
  moreover have "keeps_jobs {} {job_id j} js ?m"
    using added_inv [OF inv] fresh by (auto simp: keeps_jobs_def active_job_def ingest_of_def)
  ultimately show ?thesis by (meson empty_subsetI keeps_jobs_mono keeps_jobs_trans order_refl)
qed

lemma created_job_there:
  assumes "create_job fromiso a1 a2 j js = (Inr x, js')" "store_inv js" "post_init_ok j" "status j \<notin> set terminal_statuses"
  shows "dict_get (jobs js') (job_id j) = Some j"
  using create_job_created [OF assms(1-3)] assms(4) by (auto simp: only_evicts_def)

lemma not_cancellable: "may_write_collection j \<Longrightarrow> \<not> retry_cancellable c j"
  by (cases "details j")
     (auto simp: may_write_collection_def retry_cancellable_def is_base_ingest_def status_class_defs split: if_splits)

lemma cancel_retries_keeps:
  assumes "cancel_ingest_retries fromiso now a1 a2 coll js = (r, js')" "store_inv js"
  shows "keeps_jobs {} {} js js'"
proof -
  note ir = cancel_ingest_retries_all_or_nothing [OF assms(2,1)]
  show ?thesis
  proof (cases "only_evicts js js'")
    case True
    then show ?thesis using ir by (blast intro: only_evicts_keeps)
  next
    case False
    with ir have a: "get k js' = Some j' \<Longrightarrow> \<exists>j. get k js = Some j \<and> j' = cancelled_form now coll j"
      and b: "get k js = Some j \<Longrightarrow> status j \<notin> set terminal_statuses \<Longrightarrow> \<not> retry_cancellable coll j \<Longrightarrow> get k js' = Some j"
      for k j j' by blast+
    show ?thesis
      unfolding keeps_jobs_def
    proof (intro conjI allI impI)
      fix c k
      show "active_job js' c k" if "active_job js c k"
        using that b may_write_not_terminal not_cancellable unfolding active_job_def get_def by metis
      show "ingest_of js' c k" if "ingest_of js c k"
        using that a by (fastforce simp: ingest_of_def get_def cancelled_form_def split: if_splits)
    qed (use ir in blast)
  qed
qed

text \<open>The calls as the tasks make them.\<close>

lemma persist_status_keeps:
  "store_inv (sys_jobs s) \<Longrightarrow> keeps_jobs {jid} {} (sys_jobs s) (sys_jobs (persist_status fromiso jc jid cs s))"
  by (simp add: persist_status_def) (metis prod.collapse update_keeps)

lemma finish_requested_cancel_keeps:
  "store_inv (sys_jobs s) \<Longrightarrow> keeps_jobs {jid} {} (sys_jobs s) (sys_jobs (finish_requested_cancel fromiso jc jid s))"
  by (simp add: finish_requested_cancel_def persist_status_keeps keeps_jobs_refl)

lemma persist_final_status_keeps:
  "store_inv (sys_jobs s) \<Longrightarrow> keeps_jobs {jid} {} (sys_jobs s) (sys_jobs (persist_final_status fromiso jc jid cs s))"
  by (simp add: persist_final_status_def persist_status_keeps)

lemma end_reindex_keeps:
  "store_inv (sys_jobs s) \<Longrightarrow> keeps_jobs {jid} {} (sys_jobs s) (sys_jobs (end_reindex fromiso jc jid err s))"
  by (simp add: end_reindex_def persist_status_keeps keeps_jobs_refl split: option.split)

lemma cancel_retries_sys_keeps:
  "store_inv (sys_jobs s) \<Longrightarrow> keeps_jobs {} {} (sys_jobs s) (sys_jobs (cancel_retries fromiso jc c s))"
  by (simp add: cancel_retries_def) (metis prod.collapse cancel_retries_keeps)

text \<open>A legacy row that is failed is no reindex, so nobody runs it.\<close>

lemma refuse_duplicate_keeps:
  assumes "refuse_duplicate fromiso jc k pointed s = (b, s')" "store_inv (sys_jobs s)" "pointer_ok s k pointed"
  shows "keeps_jobs {} {} (sys_jobs s) (sys_jobs s')"
proof (cases "s' = s")
  case False
  then have k: "k \<noteq> Reindex_job" using assms(1) by (auto simp: refuse_duplicate_def)
  then have r: "refuse_active_job_or_fail_legacy fromiso jc pointed s = (b, s')" using assms(1) by (simp add: refuse_duplicate_def)
  obtain jid where p: "pointed = Some jid" using r False by (cases pointed) (simp_all add: refuse_active_job_or_fail_legacy_def)
  obtain j where g: "get jid (sys_jobs s) = Some j"
    using r False p by (cases "get jid (sys_jobs s)") (simp_all add: refuse_active_job_or_fail_legacy_def)
  have j: "status j \<in> {QUEUED, PENDING}"
    and s': "s' = persist_status fromiso jc jid [Set_status FAILED, Set_error (Some job_superseded_detail)] s"
    using r False p g by (simp_all add: refuse_active_job_or_fail_legacy_def split: if_splits)
  have d: "(\<exists>k' dry. details j = MetadataReindexJob k' dry) \<or> details j = CommunityRebuildJob"
    using assms(3) k p g by (simp add: pointer_ok_def)
  then have "\<not> may_write_collection j" using j by (auto simp: may_write_collection_def running_or_cancelling_def)
  then have "\<not> active_job (sys_jobs s) c jid" for c using g by (simp add: active_job_def get_def)
  then show ?thesis
    unfolding s' by (intro keeps_jobs_inactive [OF persist_status_keeps [OF assms(2)]]) simp
qed (use assms(2) in \<open>simp add: keeps_jobs_refl\<close>)

end
