(* ===== verification/Collection_Invariant.thy ===== *)
theory Collection_Invariant
  imports Collection_Facts
begin

text \<open>
  The invariant of the collection tasks: who drops a collection holds its lock; who writes it without the lock is registered or has a job that
  says so, and got there while holding the lock; so the two never meet.
\<close>

section \<open>What a task may be doing\<close>

text \<open>The stretches at whose start the task holds the lock.\<close>

fun critical :: "task \<Rightarrow> string option" where
  "critical (Del_dropping c ns removed removed_pinned) = Some c"
| "critical (Del_dropped c ns) = Some c"
| "critical (Cj_recording c j) = Some c"
| "critical (Dr_dropping c ns) = Some c"
| "critical (Im_dropping c ns existing) = Some c"
| "critical (Im_dropped c ns) = Some c"
| "critical _ = None"

fun runs_job :: "task \<Rightarrow> (string \<times> string) option" where
  "runs_job (In_running c jid locked) = Some (c, jid)"
| "runs_job (Cj_recording c j) = Some (c, job_id j)"
| "runs_job (Cj_loading c jid) = Some (c, jid)"
| "runs_job (Cj_running c jid) = Some (c, jid)"
| "runs_job _ = None"

text \<open>A task whose job was created or claimed under the lock.\<close>

fun job_on :: "task \<Rightarrow> string option" where
  "job_on (In_running c jid locked) = (if locked then Some c else None)"
| "job_on (Cj_recording c j) = Some c"
| "job_on (Cj_loading c jid) = Some c"
| "job_on (Cj_running c jid) = Some c"
| "job_on _ = None"

fun claims :: "task \<Rightarrow> (string \<times> string) option" where
  "claims (In_claiming c jid locked) = Some (c, jid)"
| "claims _ = None"

text \<open>The drops that look for jobs and writers, and those that look for jobs only.\<close>

fun checked_drop :: "task \<Rightarrow> string option" where
  "checked_drop (Del_dropping c ns removed removed_pinned) = Some c"
| "checked_drop (Del_dropped c ns) = Some c"
| "checked_drop (Dr_dropping c ns) = Some c"
| "checked_drop _ = None"

fun some_drop :: "task \<Rightarrow> string option" where
  "some_drop (Im_dropping c ns existing) = Some c"
| "some_drop (Im_dropped c ns) = Some c"
| "some_drop p = checked_drop p"

definition counted :: "nat \<Rightarrow> nat option" where
  "counted n = (if n = 0 then None else Some n)"

definition writers_of :: "(nat \<Rightarrow> task) \<Rightarrow> string \<Rightarrow> nat set" where
  "writers_of ts c = {t. ts t = Wr_running c}"

definition csys_inv :: "csys \<Rightarrow> bool" where
  "csys_inv s \<longleftrightarrow>
     lock_inv (sys_locks s) \<and> store_inv (sys_jobs s) \<and> finite {t. sys_tasks s t \<noteq> Idle} \<and>
     (\<forall>c. dict_get (sys_writers s) c = counted (card (writers_of (sys_tasks s) c))) \<and>
     (\<forall>t c. critical (sys_tasks s t) = Some c \<longrightarrow> holding s t c) \<and>
     (\<forall>t c jid. runs_job (sys_tasks s t) = Some (c, jid) \<longrightarrow> active_job (sys_jobs s) c jid) \<and>
     (\<forall>t u jid. task_job (sys_tasks s t) = Some jid \<longrightarrow> task_job (sys_tasks s u) = Some jid \<longrightarrow> t = u) \<and>
     (\<forall>t c jid. claims (sys_tasks s t) = Some (c, jid) \<longrightarrow> ingest_of (sys_jobs s) c jid) \<and>
     (\<forall>t u c. checked_drop (sys_tasks s t) = Some c \<longrightarrow> sys_tasks s u \<noteq> Wr_running c) \<and>
     (\<forall>t u c. some_drop (sys_tasks s t) = Some c \<longrightarrow> job_on (sys_tasks s u) \<noteq> Some c)"

lemma csys_invD:
  assumes "csys_inv s"
  shows "lock_inv (sys_locks s)" "store_inv (sys_jobs s)" "finite {t. sys_tasks s t \<noteq> Idle}"
    and "dict_get (sys_writers s) c = counted (card (writers_of (sys_tasks s) c))"
    and "critical (sys_tasks s t) = Some c \<Longrightarrow> holding s t c"
    and "runs_job (sys_tasks s t) = Some (c, jid) \<Longrightarrow> active_job (sys_jobs s) c jid"
    and "task_job (sys_tasks s t) = Some jid \<Longrightarrow> task_job (sys_tasks s u) = Some jid \<Longrightarrow> t = u"
    and "claims (sys_tasks s t) = Some (c, jid) \<Longrightarrow> ingest_of (sys_jobs s) c jid"
    and "checked_drop (sys_tasks s t) = Some c \<Longrightarrow> sys_tasks s u \<noteq> Wr_running c"
    and "some_drop (sys_tasks s t) = Some c \<Longrightarrow> job_on (sys_tasks s u) \<noteq> Some c"
  using assms unfolding csys_inv_def by blast+

lemma task_job_of: "runs_job p = Some (c, jid) \<Longrightarrow> task_job p = Some jid" "claims p = Some (c, jid) \<Longrightarrow> task_job p = Some jid"
  by (cases p; simp)+

lemma job_on_runs: "job_on p = Some c \<Longrightarrow> \<exists>jid. runs_job p = Some (c, jid)"
  by (cases p) (auto split: if_splits)

lemma drop_is_critical: "some_drop p = Some c \<Longrightarrow> critical p = Some c" "checked_drop p = Some c \<Longrightarrow> some_drop p = Some c"
  by (cases p; simp)+

lemma finite_writers: "csys_inv s \<Longrightarrow> finite (writers_of (sys_tasks s) c)"
  by (rule finite_subset [OF _ csys_invD(3)]) (auto simp: writers_of_def)

text \<open>Two tasks never hold the lock of one collection.\<close>

lemma holding_phase: "holding s t c \<longleftrightarrow> (\<exists>i. lock_phase_of s t = Holding c i)"
  by (auto simp: holding_def split: lock_phase.splits)

lemma holding_exclusive: "csys_inv s \<Longrightarrow> holding s t c \<Longrightarrow> holding s u c \<Longrightarrow> t = u"
  by (meson csys_invD(1) holding_phase lock_exclusive)

lemma no_drop_beside_holder:
  assumes "csys_inv s" "holding s t c" "u \<noteq> t"
  shows "some_drop (sys_tasks s u) \<noteq> Some c" "checked_drop (sys_tasks s u) \<noteq> Some c"
  using assms holding_exclusive csys_invD(5) drop_is_critical by metis+

section \<open>One task moves\<close>

lemma csys_inv_move:
  assumes inv: "csys_inv s" and ts: "sys_tasks s' = (sys_tasks s)(t := p)"
    and lk: "lock_inv (sys_locks s')" and ph: "\<And>u. u \<noteq> t \<Longrightarrow> lock_phase_of s' u = lock_phase_of s u"
    and js: "keeps_jobs X Y (sys_jobs s) (sys_jobs s')"
    and X: "\<And>u c jid. u \<noteq> t \<Longrightarrow> runs_job (sys_tasks s u) = Some (c, jid) \<Longrightarrow> jid \<notin> X"
    and Y: "\<And>u c jid. u \<noteq> t \<Longrightarrow> claims (sys_tasks s u) = Some (c, jid) \<Longrightarrow> jid \<notin> Y"
    and wr: "\<And>c. dict_get (sys_writers s') c = counted (card (writers_of ((sys_tasks s)(t := p)) c))"
    and crit: "\<And>c. critical p = Some c \<Longrightarrow> holding s' t c"
    and runs: "\<And>c jid. runs_job p = Some (c, jid) \<Longrightarrow> active_job (sys_jobs s') c jid"
    and own: "\<And>u jid. task_job p = Some jid \<Longrightarrow> u \<noteq> t \<Longrightarrow> task_job (sys_tasks s u) \<noteq> Some jid"
    and cl: "\<And>c jid. claims p = Some (c, jid) \<Longrightarrow> ingest_of (sys_jobs s') c jid"
    and cd: "\<And>c u. checked_drop p = Some c \<Longrightarrow> u \<noteq> t \<Longrightarrow> sys_tasks s u \<noteq> Wr_running c"
    and cd': "\<And>c u. p = Wr_running c \<Longrightarrow> u \<noteq> t \<Longrightarrow> checked_drop (sys_tasks s u) \<noteq> Some c"
    and sd: "\<And>c u. some_drop p = Some c \<Longrightarrow> u \<noteq> t \<Longrightarrow> job_on (sys_tasks s u) \<noteq> Some c"
    and sd': "\<And>c u. job_on p = Some c \<Longrightarrow> u \<noteq> t \<Longrightarrow> some_drop (sys_tasks s u) \<noteq> Some c"
  shows "csys_inv s'"
proof -
  have tu: "sys_tasks s' u = (if u = t then p else sys_tasks s u)" for u using ts by simp
  have self: "checked_drop p = Some c \<Longrightarrow> p \<noteq> Wr_running c" "some_drop p = Some c \<Longrightarrow> job_on p \<noteq> Some c" for c
    by (cases p; simp)+
  show ?thesis
    unfolding csys_inv_def
  proof (intro conjI allI impI)
    show "finite {u. sys_tasks s' u \<noteq> Idle}"
      by (rule finite_subset [of _ "insert t {u. sys_tasks s u \<noteq> Idle}"]) (use csys_invD(3) [OF inv] in \<open>auto simp: tu\<close>)
    show "store_inv (sys_jobs s')" using js by (rule keeps_jobs_inv)
    show "dict_get (sys_writers s') c = counted (card (writers_of (sys_tasks s') c))" for c using wr ts by simp
    show "holding s' u c" if "critical (sys_tasks s' u) = Some c" for u c
      using that crit csys_invD(5) [OF inv, of u c] ph by (auto simp: tu holding_def split: if_splits)
    show "active_job (sys_jobs s') c jid" if "runs_job (sys_tasks s' u) = Some (c, jid)" for u c jid
      using that runs csys_invD(6) [OF inv, of u c jid] X [of u c jid] js by (auto simp: tu keeps_jobs_def split: if_splits)
    show "u = v" if "task_job (sys_tasks s' u) = Some jid" "task_job (sys_tasks s' v) = Some jid" for u v jid
      using that own [of jid] csys_invD(7) [OF inv, of u jid v] by (auto simp: tu split: if_splits)
    show "ingest_of (sys_jobs s') c jid" if "claims (sys_tasks s' u) = Some (c, jid)" for u c jid
      using that cl csys_invD(8) [OF inv, of u c jid] Y [of u c jid] js by (auto simp: tu keeps_jobs_def split: if_splits)
    show "sys_tasks s' v \<noteq> Wr_running c" if "checked_drop (sys_tasks s' u) = Some c" for u v c
      using that cd [of c v] cd' [of c u] self(1) csys_invD(9) [OF inv, of u c v] by (auto simp: tu split: if_splits)
    show "job_on (sys_tasks s' v) \<noteq> Some c" if "some_drop (sys_tasks s' u) = Some c" for u v c
      using that sd [of c v] sd' [of c u] self(2) csys_invD(10) [OF inv, of u c v] by (auto simp: tu split: if_splits)
  qed (rule lk)
qed

text \<open>A task that goes where nothing is claimed and nothing is held: it ends, or waits for a lock.\<close>

definition quiet :: "task \<Rightarrow> bool" where
  "quiet p \<longleftrightarrow> critical p = None \<and> task_job p = None \<and> (\<forall>c. p \<noteq> Wr_running c)"

lemma quietD:
  assumes "quiet p"
  shows "critical p = None" "runs_job p = None" "claims p = None" "p \<noteq> Wr_running c" "checked_drop p = None" "some_drop p = None"
    "job_on p = None" "task_job p = None"
  using assms by (cases p; simp add: quiet_def)+

lemma quiet_simps [simp]:
  "quiet Idle" "quiet (Ended n)" "quiet (Del_waiting c ns row resolved)" "quiet (Wr_waiting c w)" "quiet (In_waiting c ns)"
  "quiet (Cj_waiting c ns k)" "quiet (Ac_stub_waiting c ns path)" "quiet (Ac_waiting c ns path)" "quiet (Dr_waiting c ns)"
  "quiet (Im_waiting c ns jid)"
  by (simp_all add: quiet_def)

lemma writers_of_other:
  "ts t \<noteq> Wr_running c \<Longrightarrow> p \<noteq> Wr_running c \<Longrightarrow> writers_of (ts(t := p)) c = writers_of ts c"
  by (auto simp: writers_of_def)

lemma csys_inv_quiet:
  assumes "csys_inv s" "sys_tasks s' = (sys_tasks s)(t := p)" "quiet p" "\<And>c. sys_tasks s t \<noteq> Wr_running c"
    and "lock_inv (sys_locks s')" "\<And>u. u \<noteq> t \<Longrightarrow> lock_phase_of s' u = lock_phase_of s u"
    and "keeps_jobs X Y (sys_jobs s) (sys_jobs s')"
    and "\<And>u c jid. u \<noteq> t \<Longrightarrow> runs_job (sys_tasks s u) = Some (c, jid) \<Longrightarrow> jid \<notin> X"
    and "\<And>u c jid. u \<noteq> t \<Longrightarrow> claims (sys_tasks s u) = Some (c, jid) \<Longrightarrow> jid \<notin> Y"
    and "sys_writers s' = sys_writers s"
  shows "csys_inv s'"
  using assms(1,2,5-9)
proof (rule csys_inv_move)
  show "dict_get (sys_writers s') c = counted (card (writers_of ((sys_tasks s)(t := p)) c))" for c
    using csys_invD(4) [OF assms(1)] assms(4,10) quietD(4) [OF assms(3)] by (simp add: writers_of_other)
qed (use quietD [OF assms(3)] in auto)

section \<open>The stretches\<close>

lemma lock_ops_phase:
  "u \<noteq> t \<Longrightarrow> phase (acquire t c l) u = phase l u"
  "u \<noteq> t \<Longrightarrow> phase (resume t l) u = phase l u"
  "u \<noteq> t \<Longrightarrow> phase (cancel_wait t l) u = phase l u"
  "u \<noteq> t \<Longrightarrow> phase (release t l) u = phase l u"
  "phase (discard_lock c l) = phase l"
  by (auto simp: acquire_def resume_def cancel_wait_def release_def discard_lock_def lock_for_def put_lock_def Let_def
      split: prod.splits option.splits if_splits lock_phase.splits bool.splits)

lemma release_away: "phase (release t l) t = (case phase l t of Holding c i \<Rightarrow> Away | p \<Rightarrow> p)"
  by (simp add: release_def put_lock_def split: lock_phase.split)

lemma goto_sel [simp]:
  "sys_locks (goto t p s) = sys_locks s" "sys_writers (goto t p s) = sys_writers s" "sys_tables (goto t p s) = sys_tables s"
  "sys_metas (goto t p s) = sys_metas s" "sys_jobs (goto t p s) = sys_jobs s" "sys_tasks (goto t p s) = (sys_tasks s)(t := p)"
  "sys_collections (goto t p s) = sys_collections s" "sys_pinned (goto t p s) = sys_pinned s"
  by (simp_all add: goto_def)

lemma lock_collection_sel [simp]:
  "sys_locks (lock_collection t c p s) = acquire t c (sys_locks s)" "sys_writers (lock_collection t c p s) = sys_writers s"
  "sys_tables (lock_collection t c p s) = sys_tables s" "sys_metas (lock_collection t c p s) = sys_metas s"
  "sys_jobs (lock_collection t c p s) = sys_jobs s" "sys_tasks (lock_collection t c p s) = (sys_tasks s)(t := p)"
  "sys_collections (lock_collection t c p s) = sys_collections s" "sys_pinned (lock_collection t c p s) = sys_pinned s"
  by (simp_all add: lock_collection_def)

lemma unlock_sel [simp]:
  "sys_locks (unlock t p s) = release t (sys_locks s)" "sys_writers (unlock t p s) = sys_writers s"
  "sys_tables (unlock t p s) = sys_tables s" "sys_metas (unlock t p s) = sys_metas s"
  "sys_jobs (unlock t p s) = sys_jobs s" "sys_tasks (unlock t p s) = (sys_tasks s)(t := p)"
  "sys_collections (unlock t p s) = sys_collections s" "sys_pinned (unlock t p s) = sys_pinned s"
  by (simp_all add: unlock_def)

lemma unlock_discard_sel [simp]:
  "sys_locks (unlock_discard t c p s) = discard_lock c (release t (sys_locks s))" "sys_writers (unlock_discard t c p s) = sys_writers s"
  "sys_tables (unlock_discard t c p s) = sys_tables s" "sys_metas (unlock_discard t c p s) = sys_metas s"
  "sys_jobs (unlock_discard t c p s) = sys_jobs s" "sys_tasks (unlock_discard t c p s) = (sys_tasks s)(t := p)"
  "sys_collections (unlock_discard t c p s) = sys_collections s" "sys_pinned (unlock_discard t c p s) = sys_pinned s"
  by (simp_all add: unlock_discard_def)

text \<open>What a stretch does to the store and the configuration is no business of the invariant.\<close>

definition same_core :: "csys \<Rightarrow> csys \<Rightarrow> bool" where
  "same_core s s1 \<longleftrightarrow> sys_locks s1 = sys_locks s \<and> sys_writers s1 = sys_writers s \<and> sys_tasks s1 = sys_tasks s"

lemma same_core_simps [simp]:
  "same_core s s" "same_core s (delete_meta_row c ns s)" "same_core s (without_table c s)" "same_core s (rollback_config_entry path s)"
  "same_core s (rollback_add deleted path c ns s)" "same_core s (restore_config resolve r1 r2 s)"
  "same_core s (persist_status fromiso jc jid cs s)" "same_core s (finish_requested_cancel fromiso jc jid s)"
  "same_core s (persist_final_status fromiso jc jid cs s)" "same_core s (end_reindex fromiso jc jid err s)"
  "same_core s (cancel_retries fromiso jc c s)" "same_core s (s\<lparr>sys_jobs := js\<rparr>)" "same_core s (s\<lparr>sys_collections := ps\<rparr>)"
  by (auto simp: same_core_def delete_meta_row_def without_table_def rollback_config_entry_def rollback_add_def restore_config_def
      persist_status_def finish_requested_cancel_def persist_final_status_def end_reindex_def cancel_retries_def Let_def
      split: option.split)

lemma same_core_trans: "same_core s s1 \<Longrightarrow> same_core s1 s2 \<Longrightarrow> same_core s s2"
  by (simp add: same_core_def)

lemma same_jobs [simp]:
  "sys_jobs (delete_meta_row c ns s) = sys_jobs s" "sys_jobs (without_table c s) = sys_jobs s"
  "sys_jobs (rollback_config_entry path s) = sys_jobs s" "sys_jobs (rollback_add deleted path c ns s) = sys_jobs s"
  "sys_jobs (restore_config resolve r1 r2 s) = sys_jobs s"
  by (simp_all add: delete_meta_row_def without_table_def rollback_config_entry_def rollback_add_def restore_config_def Let_def)

lemma drop_collection_core:
  assumes "drop_collection out c ns s = (r, s1)"
  shows "same_core s s1 \<and> sys_jobs s1 = sys_jobs s"
  using assms by (auto simp: drop_collection_def split: if_splits db_outcome.splits)

lemma drop_path_core:
  assumes "drop_path_from_config resolve resolved s = (r1, r2, s1)"
  shows "same_core s s1 \<and> sys_jobs s1 = sys_jobs s"
  using assms by (auto simp: drop_path_from_config_def same_core_def split: prod.splits)

text \<open>The three ways a stretch ends that leaves nothing behind: with the lock asked for, given back, or given back and forgotten.\<close>

definition quiet_end :: "csys \<Rightarrow> csys \<Rightarrow> nat \<Rightarrow> task \<Rightarrow> bool" where
  "quiet_end s s1 t p \<longleftrightarrow>
     csys_inv s \<and> same_core s s1 \<and> quiet p \<and> (\<forall>c. sys_tasks s t \<noteq> Wr_running c) \<and>
     (\<exists>X Y. keeps_jobs X Y (sys_jobs s) (sys_jobs s1) \<and>
        (\<forall>u c jid. u \<noteq> t \<longrightarrow> runs_job (sys_tasks s u) = Some (c, jid) \<longrightarrow> jid \<notin> X) \<and>
        (\<forall>u c jid. u \<noteq> t \<longrightarrow> claims (sys_tasks s u) = Some (c, jid) \<longrightarrow> jid \<notin> Y))"

lemma quiet_endI:
  assumes "csys_inv s" "same_core s s1" "quiet p" "\<And>c. sys_tasks s t \<noteq> Wr_running c"
    and "keeps_jobs X Y (sys_jobs s) (sys_jobs s1)"
    and "\<And>u c jid. u \<noteq> t \<Longrightarrow> runs_job (sys_tasks s u) = Some (c, jid) \<Longrightarrow> jid \<notin> X"
    and "\<And>u c jid. u \<noteq> t \<Longrightarrow> claims (sys_tasks s u) = Some (c, jid) \<Longrightarrow> jid \<notin> Y"
  shows "quiet_end s s1 t p"
  using assms unfolding quiet_end_def by blast

text \<open>No job store call at all.\<close>

lemma quiet_end_simple:
  assumes "csys_inv s" "same_core s s1" "quiet p" "\<And>c. sys_tasks s t \<noteq> Wr_running c" "sys_jobs s1 = sys_jobs s"
  shows "quiet_end s s1 t p"
  by (rule quiet_endI [OF assms(1-4), of "{}" "{}"]) (use assms csys_invD(2) in \<open>auto intro: keeps_jobs_refl\<close>)

text \<open>A call that keeps every job.\<close>

lemma quiet_end_kept:
  assumes "csys_inv s" "same_core s s1" "quiet p" "\<And>c. sys_tasks s t \<noteq> Wr_running c"
    and "keeps_jobs {} {} (sys_jobs s) (sys_jobs s1)"
  shows "quiet_end s s1 t p"
  by (rule quiet_endI [OF assms(1-5)]) auto

lemma quiet_end_moves:
  assumes q: "quiet_end s s1 t p"
    and "lock_inv (sys_locks s')" "\<And>u. u \<noteq> t \<Longrightarrow> lock_phase_of s' u = lock_phase_of s u"
    and "sys_tasks s' = (sys_tasks s)(t := p)" "sys_writers s' = sys_writers s" "sys_jobs s' = sys_jobs s1"
  shows "csys_inv s'"
proof -
  obtain X Y where k: "keeps_jobs X Y (sys_jobs s) (sys_jobs s1)"
    "\<And>u c jid. u \<noteq> t \<Longrightarrow> runs_job (sys_tasks s u) = Some (c, jid) \<Longrightarrow> jid \<notin> X"
    "\<And>u c jid. u \<noteq> t \<Longrightarrow> claims (sys_tasks s u) = Some (c, jid) \<Longrightarrow> jid \<notin> Y"
    using q unfolding quiet_end_def by blast
  show ?thesis
    by (rule csys_inv_quiet [OF _ assms(4) _ _ assms(2,3) _ k(2,3) assms(5)]) (use q k(1) assms(6) in \<open>auto simp: quiet_end_def\<close>)
qed

lemma quiet_end_core: "quiet_end s s1 t p \<Longrightarrow> same_core s s1 \<and> lock_inv (sys_locks s)"
  by (auto simp: quiet_end_def dest: csys_invD(1))

lemma ends_goto:
  assumes "quiet_end s s1 t p"
  shows "csys_inv (goto t p s1)"
  using quiet_end_core [OF assms(1)]
  by (intro quiet_end_moves [OF assms(1)]) (auto simp: same_core_def lock_ops_phase)

lemma ends_unlock:
  assumes "quiet_end s s1 t p"
  shows "csys_inv (unlock t p s1)"
  using quiet_end_core [OF assms(1)]
  by (intro quiet_end_moves [OF assms(1)]) (auto simp: same_core_def lock_ops_phase intro: release_inv)

lemma ends_unlock_discard:
  assumes "quiet_end s s1 t p"
  shows "csys_inv (unlock_discard t c p s1)"
  using quiet_end_core [OF assms(1)]
  by (intro quiet_end_moves [OF assms(1)]) (auto simp: same_core_def lock_ops_phase intro: release_inv discard_lock_inv)

lemma ends_lock:
  assumes "quiet_end s s1 t p" "lock_phase_of s t = Away"
  shows "csys_inv (lock_collection t c p s1)"
  using quiet_end_core [OF assms(1)] assms(2)
  by (intro quiet_end_moves [OF assms(1)]) (auto simp: same_core_def lock_ops_phase intro: acquire_inv)

lemmas ends = ends_goto ends_unlock ends_unlock_discard ends_lock

section \<open>Beginning\<close>

lemma new_ingest_ok: "post_init_ok (new_ingest_job jc jid ns c path opts)" "job_id (new_ingest_job jc jid ns c path opts) = jid"
  "collection (new_ingest_job jc jid ns c path opts) = c" "details (new_ingest_job jc jid ns c path opts) = IngestJob"
  by (simp_all add: new_ingest_job_def new_ingest_def base_job_def post_init_ok_def valid_ingest_sources_def)

lemma fresh_job_claims: "fresh_job s jid \<Longrightarrow> claims (sys_tasks s u) = Some (c, k) \<Longrightarrow> k \<notin> {jid}"
  by (auto simp: fresh_job_def dest: task_job_of)

lemma create_ingest_facts:
  assumes "create_ingest fromiso jc jid ns c path opts s = (b, s1)" "store_inv (sys_jobs s)" "fresh_job s jid"
  shows "same_core s s1" "keeps_jobs {} {jid} (sys_jobs s) (sys_jobs s1)" "b \<Longrightarrow> ingest_of (sys_jobs s1) c jid"
proof -
  let ?j = "new_ingest_job jc jid ns c path opts"
  obtain r js where cr: "create_job fromiso (jc_write jc) (jc_rewrite jc) ?j (sys_jobs s) = (r, js)" by fastforce
  have s1: "s1 = s\<lparr>sys_jobs := js\<rparr>" "b \<longleftrightarrow> (\<exists>x. r = Inr x)"
    using assms(1) cr by (auto simp: create_ingest_def split: sum.splits)
  then show "same_core s s1" by simp
  show "keeps_jobs {} {jid} (sys_jobs s) (sys_jobs s1)"
    using create_keeps [OF cr assms(2)] assms(3) new_ingest_ok s1 by (simp add: fresh_job_def)
  show "ingest_of (sys_jobs s1) c jid" if created: b
  proof -
    obtain x where "r = Inr x" using created s1 by blast
    then have ev: "only_evicts (sys_jobs s\<lparr>jobs := dict_set (job_id ?j) ?j (jobs (sys_jobs s))\<rparr>) js"
      using create_job_created [of fromiso _ _ ?j "sys_jobs s" x js] cr assms(2) new_ingest_ok by blast
    have "j = ?j" if "dict_get (jobs js) jid = Some j" for j
      using ev that new_ingest_ok(2) [of jc jid ns c path opts] unfolding only_evicts_def by fastforce
    then show ?thesis using new_ingest_ok [of jc jid ns c path opts] s1(1) by (auto simp: ingest_of_def)
  qed
qed

text \<open>A task that goes to claim a job it knows to be an ingest of the collection.\<close>

lemma claiming_inv:
  assumes inv: "csys_inv s" and ts: "sys_tasks s' = (sys_tasks s)(t := In_claiming c jid locked)"
    and old: "\<And>c. sys_tasks s t \<noteq> Wr_running c"
    and lk: "lock_inv (sys_locks s')" "\<And>u. u \<noteq> t \<Longrightarrow> lock_phase_of s' u = lock_phase_of s u"
    and js: "keeps_jobs {} Y (sys_jobs s) (sys_jobs s')" "ingest_of (sys_jobs s') c jid"
    and Y: "\<And>u c jid. u \<noteq> t \<Longrightarrow> claims (sys_tasks s u) = Some (c, jid) \<Longrightarrow> jid \<notin> Y"
    and wr: "sys_writers s' = sys_writers s"
    and own: "\<And>u. u \<noteq> t \<Longrightarrow> task_job (sys_tasks s u) \<noteq> Some jid"
  shows "csys_inv s'"
  using inv ts lk js(1)
proof (rule csys_inv_move)
  show "dict_get (sys_writers s') d = counted (card (writers_of ((sys_tasks s)(t := In_claiming c jid locked)) d))" for d
    using csys_invD(4) [OF inv] old wr by (simp add: writers_of_other)
qed (use js(2) Y own in auto)

lemma post_ingest_inv:
  assumes "csys_inv s" "sys_tasks s t = Idle" "lock_phase_of s t = Away" "fresh_job s jid"
  shows "csys_inv (post_ingest fromiso jc jid path opts t c ns s)"
proof -
  obtain b s1 where cr: "create_ingest fromiso jc jid ns c path opts s = (b, s1)" by fastforce
  note f = create_ingest_facts [OF cr csys_invD(2) [OF assms(1)] assms(4)]
  have "csys_inv (goto t (Ended 500) s1)"
    by (rule ends_goto, rule quiet_endI [OF assms(1) f(1) _ _ f(2)]) (use assms(2) fresh_job_claims [OF assms(4)] in auto)
  moreover have "csys_inv (goto t (In_claiming c jid False) s1)" if b
    by (rule claiming_inv [OF assms(1)])
       (use f(1) f(2) f(3) [OF that] assms(2,4) csys_invD(1) [OF assms(1)] fresh_job_claims [OF assms(4)] in \<open>auto simp: same_core_def fresh_job_def\<close>)
  moreover have "quiet_end s s t (Ended 500)" "quiet_end s s t (In_waiting c ns)"
    using assms(1,2) by (auto intro!: quiet_end_simple)
  ultimately show ?thesis
    using cr assms(3) by (cases b) (auto simp: post_ingest_def intro: ends)
qed

lemma maintenance_retry_inv:
  assumes "csys_inv s" "sys_tasks s t = Idle" "lock_phase_of s t = Away"
    and "get jid (sys_jobs s) = Some j" "details j = IngestJob" "collection j = c" "\<And>u. task_job (sys_tasks s u) \<noteq> Some jid"
  shows "csys_inv (maintenance_retry t c jid s)"
  unfolding maintenance_retry_def
  by (rule claiming_inv [OF assms(1)])
     (use assms csys_invD(1,2) [OF assms(1)] in \<open>auto simp: lock_ops_phase ingest_of_def get_def intro: acquire_inv keeps_jobs_refl\<close>)

lemma create_collection_job_inv:
  assumes "csys_inv s" "sys_tasks s t = Idle" "lock_phase_of s t = Away" "pointer_ok s k pointed"
  shows "csys_inv (create_collection_job fromiso jc pointed t c ns k s)"
proof -
  obtain b s1 where r: "refuse_duplicate fromiso jc k pointed s = (b, s1)" by fastforce
  have k: "keeps_jobs {} {} (sys_jobs s) (sys_jobs s1)" using refuse_duplicate_keeps [OF r csys_invD(2) [OF assms(1)] assms(4)] .
  have c: "same_core s s1"
    using r by (auto simp: refuse_duplicate_def refuse_active_job_or_fail_legacy_def split: option.splits if_splits)
  have "quiet_end s s1 t (Ended 409)" "quiet_end s s1 t (Cj_waiting c ns k)"
    using assms(1,2) c k by (auto intro!: quiet_end_kept)
  moreover have "quiet_end s s t (Ended 500)" "quiet_end s s t (Ended 404)"
    using assms(1,2) by (auto intro!: quiet_end_simple)
  ultimately show ?thesis using r assms(3) by (cases b) (auto simp: create_collection_job_def intro: ends)
qed

lemma task_starts_inv:
  assumes "task_starts resolve fromiso t s s'" "csys_inv s" "sys_tasks s t = Idle" "lock_phase_of s t = Away"
  shows "csys_inv s'"
  using assms(1)
proof cases
  case starts_delete
  then show ?thesis using assms(2-4)
    by (auto simp: remove_collection_def Let_def split: option.split intro!: ends quiet_end_simple)
next
  case starts_writer
  then show ?thesis using assms(2-4) by (auto simp: collection_writer_def intro!: ends quiet_end_simple)
next
  case (starts_ingest jid jc path opts c ns)
  then show ?thesis using post_ingest_inv assms(2-4) by blast
next
  case (starts_retry jid j c)
  then show ?thesis using maintenance_retry_inv assms(2-4) by blast
next
  case (starts_job k pointed jc c ns)
  then show ?thesis using create_collection_job_inv assms(2-4) by blast
next
  case (starts_add model_ok checked saved ns)
  then show ?thesis using assms(2-4)
    by (auto simp: add_collection_def Let_def split: option.split intro!: ends quiet_end_simple)
next
  case (starts_drop c ns)
  then show ?thesis using assms(2-4) by (auto simp: start_drop_if_idle_def intro!: ends quiet_end_simple)
next
  case (starts_import c ns jid)
  then show ?thesis using assms(2-4) by (auto simp: ensure_absent_def intro!: ends quiet_end_simple)
qed

end
