(* ===== verification/Collection_Steps.thy ===== *)
theory Collection_Steps
  imports Collection_Invariant
begin

text \<open>Every stretch of every collection task keeps the invariant.\<close>

section \<open>Drops\<close>

lemma no_writer:
  assumes "csys_inv s" "\<not> has_active_writer s c"
  shows "sys_tasks s u \<noteq> Wr_running c"
proof
  assume "sys_tasks s u = Wr_running c"
  then have "u \<in> writers_of (sys_tasks s) c" by (simp add: writers_of_def)
  then have "card (writers_of (sys_tasks s) c) \<noteq> 0" using finite_writers [OF assms(1)] by auto
  then have "dict_get (sys_writers s) c \<noteq> None" using csys_invD(4) [OF assms(1)] by (simp add: counted_def)
  then show False using assms(2) by (simp add: has_active_writer_def dict_get_None_iff)
qed

lemma no_active_job:
  assumes "find_active_collection_job c ns excluding js = None" "store_inv js" "active_job js c jid"
  shows "excluding = Some jid"
proof -
  obtain j where j: "dict_get (jobs js) jid = Some j" "collection j = c" "may_write_collection j"
    using assms(3) by (auto simp: active_job_def)
  have "job_id j = jid" using assms(2) j(1) by (auto simp: store_inv_def dest: jobs_wf_getD)
  moreover have "j \<in> set (dict_values (jobs js))"
    using j(1) by (force simp: dict_values_def dest: dict_get_SomeD)
  ultimately show ?thesis
    using assms(1) j by (auto simp: find_active_collection_job_def Let_def filter_find_None filter_empty_conv
        split: option.splits list.splits dest!: find_SomeD)
qed

lemma no_job_on:
  assumes "csys_inv s" "find_active_collection_job c ns excluding (sys_jobs s) = None"
    and "\<And>jid. excluding = Some jid \<Longrightarrow> \<not> active_job (sys_jobs s) c jid"
  shows "job_on (sys_tasks s u) \<noteq> Some c"
proof
  assume "job_on (sys_tasks s u) = Some c"
  then obtain jid where "runs_job (sys_tasks s u) = Some (c, jid)" using job_on_runs by blast
  then have "active_job (sys_jobs s) c jid" using csys_invD(6) [OF assms(1)] by blast
  then show False using no_active_job [OF assms(2) csys_invD(2) [OF assms(1)]] assms(3) by blast
qed

text \<open>A task that holds the lock begins to drop, or goes on doing it.\<close>

lemma drop_moves:
  assumes inv: "csys_inv s" and core: "same_core s s1" and js: "keeps_jobs {} {} (sys_jobs s) (sys_jobs s1)"
    and h: "holding s t c" and old: "\<And>c. sys_tasks s t \<noteq> Wr_running c"
    and p: "some_drop p = Some c"
    and w: "\<And>u. checked_drop p = Some c \<Longrightarrow> sys_tasks s u \<noteq> Wr_running c"
    and j: "\<And>u. job_on (sys_tasks s u) \<noteq> Some c"
  shows "csys_inv (goto t p s1)"
proof -
  have facts: "critical p = Some c" "runs_job p = None" "claims p = None" "task_job p = None" "job_on p = None"
    "p \<noteq> Wr_running d" "checked_drop p = Some d \<Longrightarrow> d = c" for d
    using p by (cases p; simp)+
  have lk: "sys_locks (goto t p s1) = sys_locks s" using core by (simp add: same_core_def)
  show ?thesis
  proof (rule csys_inv_move [OF inv])
    show "sys_tasks (goto t p s1) = (sys_tasks s)(t := p)" using core by (simp add: same_core_def)
    show "dict_get (sys_writers (goto t p s1)) d = counted (card (writers_of ((sys_tasks s)(t := p)) d))" for d
      using csys_invD(4) [OF inv] core old facts(6) by (simp add: same_core_def writers_of_other)
    show "holding (goto t p s1) t d" if "critical p = Some d" for d
      using that facts(1) h lk by (simp add: holding_def)
    show "keeps_jobs {} {} (sys_jobs s) (sys_jobs (goto t p s1))" using js by simp
    show "lock_inv (sys_locks (goto t p s1))" using csys_invD(1) [OF inv] lk by simp
    show "lock_phase_of (goto t p s1) u = lock_phase_of s u" for u using lk by simp
    show "sys_tasks s u \<noteq> Wr_running d" if "checked_drop p = Some d" for d u using w facts(7) that by blast
    show "job_on (sys_tasks s u) \<noteq> Some d" if "some_drop p = Some d" for d u using j p that by simp
  qed (simp_all add: facts(2-6))
qed

lemma remove_checked_inv:
  assumes inv: "csys_inv s" and go: "may_go s t"
  shows "csys_inv (remove_checked resolve fromiso jc saved t s)"
proof (cases "sys_tasks s t")
  case (Del_waiting c ns row resolved)
  have h: "holding s t c" using go Del_waiting by (simp add: may_go_def)
  obtain r1 r2 s1 where d: "drop_path_from_config resolve resolved s = (r1, r2, s1)" by (metis prod_cases3)
  have c1: "same_core s s1" "sys_jobs s1 = sys_jobs s" using drop_path_core [OF d] by auto
  have si: "store_inv (sys_jobs s)" using csys_invD(2) [OF inv] .
  have q: "quiet_end s s t (Ended n)" for n using inv Del_waiting by (auto intro!: quiet_end_simple)
  have q500: "quiet_end s (restore_config resolve r1 r2 s1) t (Ended 500)"
    using inv Del_waiting c1 same_core_trans [OF c1(1)] by (intro quiet_end_simple) auto
  have q200: "quiet_end s (cancel_retries fromiso jc c s1) t (Ended 200)"
    using inv Del_waiting same_core_trans [OF c1(1)] cancel_retries_sys_keeps [of s1] c1(2) si by (intro quiet_end_kept) auto
  have drop: "csys_inv (goto t (Del_dropping c ns r1 r2) s1)"
    if "find_active_collection_job c ns None (sys_jobs s) = None" "\<not> has_active_writer s c"
    by (rule drop_moves [OF inv c1(1) _ h])
       (use Del_waiting c1(2) si no_writer [OF inv that(2)] no_job_on [OF inv that(1)] in \<open>auto intro: keeps_jobs_refl\<close>)
  show ?thesis
    using Del_waiting d ends_unlock [OF q] ends_unlock [OF q500] ends_unlock_discard [OF q200] drop
    by (auto simp: remove_checked_def split: option.split if_splits)
qed (use inv in \<open>auto simp: remove_checked_def\<close>)

lemma remove_dropped_inv:
  assumes inv: "csys_inv s"
  shows "csys_inv (remove_dropped resolve fromiso jc out t s)"
proof (cases "sys_tasks s t")
  case (Del_dropping c ns r1 r2)
  obtain r s1 where d: "drop_collection out c ns s = (r, s1)" by fastforce
  have c1: "same_core s s1" "sys_jobs s1 = sys_jobs s" using drop_collection_core [OF d] by auto
  have si: "store_inv (sys_jobs s)" using csys_invD(2) [OF inv] .
  have "quiet_end s s1 t (Ended 0)" using inv Del_dropping c1 by (auto intro!: quiet_end_simple)
  moreover have "quiet_end s (restore_config resolve r1 r2 s1) t (Ended 500)"
    using inv Del_dropping c1 same_core_trans [OF c1(1)] by (intro quiet_end_simple) auto
  moreover have "csys_inv (goto t (Del_dropped c ns) (cancel_retries fromiso jc c s1))"
    by (rule drop_moves [OF inv, of _ _ c])
       (use Del_dropping c1 si same_core_trans [OF c1(1)] cancel_retries_sys_keeps [of s1] csys_invD(5,9,10) [OF inv, of t] in auto)
  ultimately show ?thesis
    using Del_dropping d by (auto simp: remove_dropped_def split: sum.split drop_exc.split intro: ends)
qed (use inv in \<open>auto simp: remove_dropped_def\<close>)

lemma remove_meta_inv: "csys_inv s \<Longrightarrow> csys_inv (remove_meta out t s)"
  by (auto simp: remove_meta_def split: task.split db_outcome.split intro!: ends_unlock_discard quiet_end_simple)

lemma idle_checked_inv:
  assumes inv: "csys_inv s" and go: "may_go s t"
  shows "csys_inv (idle_checked t s)"
proof (cases "sys_tasks s t")
  case (Dr_waiting c ns)
  have h: "holding s t c" using go Dr_waiting by (simp add: may_go_def)
  have "quiet_end s s t (Ended 0)" using inv Dr_waiting by (auto intro!: quiet_end_simple)
  moreover have "csys_inv (goto t (Dr_dropping c ns) s)"
    if "find_active_collection_job c ns None (sys_jobs s) = None" "\<not> has_active_writer s c"
    by (rule drop_moves [OF inv _ _ h])
       (use Dr_waiting csys_invD(2) [OF inv] no_writer [OF inv that(2)] no_job_on [OF inv that(1)] in \<open>auto intro: keeps_jobs_refl\<close>)
  ultimately show ?thesis using Dr_waiting by (auto simp: idle_checked_def intro: ends)
qed (use inv in \<open>auto simp: idle_checked_def\<close>)

lemma idle_dropped_inv:
  assumes "csys_inv s"
  shows "csys_inv (idle_dropped out t s)"
proof (cases "sys_tasks s t")
  case (Dr_dropping c ns)
  obtain r s1 where d: "drop_collection out c ns s = (r, s1)" by fastforce
  then show ?thesis
    using Dr_dropping drop_collection_core [OF d] assms by (auto simp: idle_dropped_def intro!: ends_unlock_discard quiet_end_simple)
qed (use assms in \<open>auto simp: idle_dropped_def\<close>)

lemma absent_checked_inv:
  assumes inv: "csys_inv s" and go: "may_go s t"
    and own: "\<forall>c ns jid j. sys_tasks s t = Im_waiting c ns jid \<longrightarrow> get jid (sys_jobs s) = Some j \<longrightarrow> is_bulk (details j)"
  shows "csys_inv (absent_checked t s)"
proof (cases "sys_tasks s t")
  case (Im_waiting c ns jid)
  have h: "holding s t c" using go Im_waiting by (simp add: may_go_def)
  have na: "\<not> active_job (sys_jobs s) c jid" using own Im_waiting by (auto simp: active_job_def get_def)
  have "quiet_end s s t (Ended 0)" using inv Im_waiting by (auto intro!: quiet_end_simple)
  moreover have "csys_inv (goto t (Im_dropping c ns existing) s)"
    if "find_active_collection_job c ns (Some jid) (sys_jobs s) = None" for existing
    by (rule drop_moves [OF inv _ _ h])
       (use Im_waiting csys_invD(2) [OF inv] no_job_on [OF inv that] na in \<open>auto intro: keeps_jobs_refl\<close>)
  ultimately show ?thesis using Im_waiting by (auto simp: absent_checked_def Let_def intro: ends)
qed (use inv in \<open>auto simp: absent_checked_def\<close>)

lemma absent_dropped_inv:
  assumes inv: "csys_inv s"
  shows "csys_inv (absent_dropped out runtime t s)"
proof (cases "sys_tasks s t")
  case (Im_dropping c ns existing)
  obtain r s1 where d: "drop_collection out c ns s = (r, s1)" by fastforce
  have c1: "same_core s s1" "sys_jobs s1 = sys_jobs s" using drop_collection_core [OF d] by auto
  have "quiet_end s s1 t (Ended 0)" using inv Im_dropping c1 by (auto intro!: quiet_end_simple)
  moreover have "csys_inv (goto t (Im_dropped c ns) s1)"
    by (rule drop_moves [OF inv c1(1), of _ c])
       (use Im_dropping c1 csys_invD(2) [OF inv] csys_invD(5,10) [OF inv, of t] in \<open>auto intro: keeps_jobs_refl\<close>)
  ultimately show ?thesis using Im_dropping d by (auto simp: absent_dropped_def intro: ends)
qed (use inv in \<open>auto simp: absent_dropped_def\<close>)

lemma absent_meta_inv: "csys_inv s \<Longrightarrow> csys_inv (absent_meta deleted t s)"
  by (auto simp: absent_meta_def split: task.split intro!: ends_unlock_discard quiet_end_simple)

lemma aborted_inv: "csys_inv s \<Longrightarrow> csys_inv (aborted t s)"
  by (auto simp: aborted_def split: task.split intro!: ends_unlock quiet_end_simple)

section \<open>Writers\<close>

lemma counted_Suc: "finite A \<Longrightarrow> t \<notin> A \<Longrightarrow> counted (card (insert t A)) = Some ((case counted (card A) of Some n \<Rightarrow> n | None \<Rightarrow> 0) + 1)"
  by (simp add: counted_def)

lemma writer_registered_inv:
  assumes inv: "csys_inv s" and go: "may_go s t"
  shows "csys_inv (writer_registered t s)"
proof (cases "sys_tasks s t")
  case (Wr_waiting c ns)
  have h: "holding s t c" using go Wr_waiting by (simp add: may_go_def)
  let ?s' = "unlock t (Wr_running c) (register_writer c s)"
  have r: "sys_locks (register_writer c s) = sys_locks s" "sys_tasks (register_writer c s) = sys_tasks s"
    "sys_jobs (register_writer c s) = sys_jobs s" by (simp_all add: register_writer_def)
  have "csys_inv ?s'"
  proof (rule csys_inv_move [OF inv])
    show "sys_tasks ?s' = (sys_tasks s)(t := Wr_running c)" using r by simp
    show "lock_inv (sys_locks ?s')" using csys_invD(1) [OF inv] r by (simp add: release_inv)
    show "lock_phase_of ?s' u = lock_phase_of s u" if "u \<noteq> t" for u using that r by (simp add: lock_ops_phase)
    show "keeps_jobs {} {} (sys_jobs s) (sys_jobs ?s')" using csys_invD(2) [OF inv] r by (simp add: keeps_jobs_refl)
    show "dict_get (sys_writers ?s') d = counted (card (writers_of ((sys_tasks s)(t := Wr_running c)) d))" for d
    proof (cases "d = c")
      case True
      have w: "writers_of ((sys_tasks s)(t := Wr_running c)) c = insert t (writers_of (sys_tasks s) c)"
        and n: "t \<notin> writers_of (sys_tasks s) c" using Wr_waiting by (auto simp: writers_of_def)
      show ?thesis
        using True csys_invD(4) [OF inv, of c] counted_Suc [OF finite_writers [OF inv, of c] n]
        by (simp add: w register_writer_def)
    next
      case False
      then show ?thesis using csys_invD(4) [OF inv, of d] Wr_waiting by (simp add: register_writer_def writers_of_other)
    qed
    show "checked_drop (sys_tasks s u) \<noteq> Some d" if "Wr_running c = Wr_running d" "u \<noteq> t" for d u
      using no_drop_beside_holder(2) [OF inv h that(2)] that(1) by simp
  qed auto
  moreover have "quiet_end s s t (Ended 0)" using inv Wr_waiting by (auto intro!: quiet_end_simple)
  ultimately show ?thesis using Wr_waiting ends_unlock by (auto simp: writer_registered_def)
qed (use inv in \<open>auto simp: writer_registered_def\<close>)

lemma writer_ends_inv:
  assumes inv: "csys_inv s"
  shows "csys_inv (writer_ends t s)"
proof (cases "sys_tasks s t")
  case (Wr_running c)
  let ?A = "writers_of (sys_tasks s) c" and ?s' = "goto t (Ended 0) (deregister_writer c s)"
  have t: "t \<in> ?A" and fin: "finite ?A" using Wr_running finite_writers [OF inv] by (auto simp: writers_of_def)
  have pos: "card ?A \<noteq> 0" using t fin by auto
  have w: "dict_get (sys_writers s) c = Some (card ?A)" using csys_invD(4) [OF inv, of c] pos by (simp add: counted_def)
  have core: "sys_locks (deregister_writer c s) = sys_locks s" "sys_tasks (deregister_writer c s) = sys_tasks s"
    "sys_jobs (deregister_writer c s) = sys_jobs s" using w by (auto simp: deregister_writer_def)
  have "csys_inv ?s'"
  proof (rule csys_inv_move [OF inv])
    show "sys_tasks ?s' = (sys_tasks s)(t := Ended 0)" using core by simp
    show "keeps_jobs {} {} (sys_jobs s) (sys_jobs ?s')" using csys_invD(2) [OF inv] core by (simp add: keeps_jobs_refl)
    show "dict_get (sys_writers ?s') d = counted (card (writers_of ((sys_tasks s)(t := Ended 0)) d))" for d
    proof (cases "d = c")
      case True
      have "writers_of ((sys_tasks s)(t := Ended 0)) c = ?A - {t}" by (auto simp: writers_of_def)
      then show ?thesis using True w t fin by (simp add: deregister_writer_def counted_def card_Diff_singleton)
    next
      case False
      then show ?thesis using csys_invD(4) [OF inv, of d] Wr_running w by (simp add: deregister_writer_def writers_of_other)
    qed
  qed (use csys_invD(1) [OF inv] core in auto)
  then show ?thesis using Wr_running by (simp add: writer_ends_def)
qed (use inv in \<open>auto simp: writer_ends_def\<close>)

section \<open>Ingest jobs\<close>

lemma other_runs:
  assumes "csys_inv s" "task_job (sys_tasks s t) = Some jid" "u \<noteq> t" "runs_job (sys_tasks s u) = Some (c, k)"
  shows "k \<notin> {jid}"
  using csys_invD(7) [OF assms(1,2), of u] task_job_of(1) [OF assms(4)] assms(3) by auto

text \<open>A task that writes a last word on its own job.\<close>

lemma quiet_end_own:
  assumes "csys_inv s" "same_core s s1" "quiet p" "task_job (sys_tasks s t) = Some jid"
    and "keeps_jobs {jid} {} (sys_jobs s) (sys_jobs s1)"
  shows "quiet_end s s1 t p"
proof (rule quiet_endI [OF assms(1-3) _ assms(5)])
  show "sys_tasks s t \<noteq> Wr_running c" for c using assms(4) by auto
qed (use other_runs [OF assms(1,4)] in auto)

text \<open>A task that goes to a running job of its own.\<close>

lemma running_inv:
  assumes inv: "csys_inv s" and ts: "sys_tasks s' = (sys_tasks s)(t := p)" and old: "\<And>c. sys_tasks s t \<noteq> Wr_running c"
    and lk: "lock_inv (sys_locks s')" "\<And>u. u \<noteq> t \<Longrightarrow> lock_phase_of s' u = lock_phase_of s u"
    and js: "keeps_jobs X Y (sys_jobs s) (sys_jobs s')" "active_job (sys_jobs s') c jid"
    and p: "runs_job p = Some (c, jid)" and crit: "critical p = Some c \<Longrightarrow> holding s' t c"
    and X: "\<And>u c k. u \<noteq> t \<Longrightarrow> runs_job (sys_tasks s u) = Some (c, k) \<Longrightarrow> k \<notin> X"
    and Y: "\<And>u c k. u \<noteq> t \<Longrightarrow> claims (sys_tasks s u) = Some (c, k) \<Longrightarrow> k \<notin> Y"
    and wr: "sys_writers s' = sys_writers s"
    and own: "\<And>u. u \<noteq> t \<Longrightarrow> task_job (sys_tasks s u) \<noteq> Some jid"
    and free: "\<And>u. job_on p = Some c \<Longrightarrow> u \<noteq> t \<Longrightarrow> some_drop (sys_tasks s u) \<noteq> Some c"
  shows "csys_inv s'"
proof -
  have facts: "claims p = None" "task_job p = Some jid" "p \<noteq> Wr_running d" "checked_drop p = None" "some_drop p = None"
    "critical p = Some d \<Longrightarrow> d = c" "job_on p = Some d \<Longrightarrow> d = c" for d
    using p by (cases p; simp split: if_splits)+
  show ?thesis
    using inv ts lk js(1) X Y
  proof (rule csys_inv_move)
    show "dict_get (sys_writers s') d = counted (card (writers_of ((sys_tasks s)(t := p)) d))" for d
      using csys_invD(4) [OF inv] old wr facts(3) by (simp add: writers_of_other)
    show "holding s' t d" if "critical p = Some d" for d using crit facts(6) that by blast
    show "active_job (sys_jobs s') d k" if "runs_job p = Some (d, k)" for d k using js(2) p that by simp
    show "task_job (sys_tasks s u) \<noteq> Some k" if "task_job p = Some k" "u \<noteq> t" for u k using own facts(2) that by simp
    show "some_drop (sys_tasks s u) \<noteq> Some d" if "job_on p = Some d" "u \<noteq> t" for d u using free facts(7) that by blast
  qed (use facts in auto)
qed

lemma ingest_created_inv:
  assumes inv: "csys_inv s" and go: "may_go s t" and fresh: "fresh_job s jid"
  shows "csys_inv (ingest_created fromiso jc jid path opts t s)"
proof (cases "sys_tasks s t")
  case (In_waiting c ns)
  obtain b s1 where cr: "create_ingest fromiso jc jid ns c path opts s = (b, s1)" by fastforce
  note f = create_ingest_facts [OF cr csys_invD(2) [OF inv] fresh]
  have "csys_inv (unlock t (Ended 500) s1)"
    by (rule ends_unlock, rule quiet_endI [OF inv f(1) _ _ f(2)]) (use In_waiting fresh_job_claims [OF fresh] in auto)
  moreover have "csys_inv (goto t (In_claiming c jid True) s1)" if b
    by (rule claiming_inv [OF inv])
       (use f(1,2) f(3) [OF that] In_waiting fresh csys_invD(1) [OF inv] fresh_job_claims [OF fresh] in \<open>auto simp: same_core_def fresh_job_def\<close>)
  ultimately show ?thesis using In_waiting cr by (cases b) (auto simp: ingest_created_def)
qed (use inv in \<open>auto simp: ingest_created_def\<close>)

lemma add_job_created_inv:
  assumes inv: "csys_inv s" and go: "may_go s t" and fresh: "fresh_job s jid"
  shows "csys_inv (add_job_created fromiso jc jid deleted t s)"
proof (cases "sys_tasks s t")
  case (Ac_waiting c ns path)
  obtain b s1 where cr: "create_ingest fromiso jc jid ns c '''' None s = (b, s1)" by fastforce
  note f = create_ingest_facts [OF cr csys_invD(2) [OF inv] fresh]
  have "same_core s (rollback_add deleted path c ns s1)" using same_core_trans [OF f(1)] by simp
  then have "csys_inv (unlock_discard t c (Ended 500) (rollback_add deleted path c ns s1))"
    by (intro ends_unlock_discard, rule quiet_endI [OF inv, of _ _ _ "{}" "{jid}"])
       (use f(2) Ac_waiting fresh_job_claims [OF fresh] in auto)
  moreover have "csys_inv (goto t (In_claiming c jid True) s1)" if b
    by (rule claiming_inv [OF inv])
       (use f(1,2) f(3) [OF that] Ac_waiting fresh csys_invD(1) [OF inv] fresh_job_claims [OF fresh] in \<open>auto simp: same_core_def fresh_job_def\<close>)
  ultimately show ?thesis using Ac_waiting cr by (cases b) (auto simp: add_job_created_def)
qed (use inv in \<open>auto simp: add_job_created_def\<close>)

lemma stub_written_inv:
  assumes inv: "csys_inv s" and go: "may_go s t"
  shows "csys_inv (stub_written works t s)"
proof (cases "sys_tasks s t")
  case (Ac_stub_waiting c ns path)
  have h: "holding s t c" using go Ac_stub_waiting by (simp add: may_go_def)
  have q: "quiet_end s (rollback_config_entry path s) t (Ended n)" for n
    using inv Ac_stub_waiting by (auto intro!: quiet_end_simple)
  have "csys_inv (lock_collection t c (Ac_waiting c ns path) (unlock t Idle s1))" if u: "upsert_meta_row c ns s = Some s1" for s1
  proof -
    have s1: "same_core s s1" "sys_jobs s1 = sys_jobs s" using u by (auto simp: upsert_meta_row_def same_core_def split: if_splits)
    have i: "csys_inv (unlock t Idle s1)"
      using inv Ac_stub_waiting s1 by (intro ends_unlock quiet_end_simple) auto
    have "lock_phase_of (unlock t Idle s1) t = Away"
      using h s1(1) by (auto simp: holding_phase same_core_def release_away)
    then show ?thesis using i by (intro ends_lock [OF quiet_end_simple [OF i]]) auto
  qed
  then show ?thesis
    using Ac_stub_waiting ends_unlock [OF q] by (auto simp: stub_written_def split: option.split)
qed (use inv in \<open>auto simp: stub_written_def\<close>)

lemma unlock_if_sel [simp]:
  "sys_writers (unlock_if b t p s) = sys_writers s" "sys_jobs (unlock_if b t p s) = sys_jobs s"
  "sys_tasks (unlock_if b t p s) = (sys_tasks s)(t := p)"
  by (simp_all add: unlock_if_def)

lemma unlock_if_locks:
  assumes "lock_inv (sys_locks s)"
  shows "lock_inv (sys_locks (unlock_if b t p s))" "u \<noteq> t \<Longrightarrow> lock_phase_of (unlock_if b t p s) u = lock_phase_of s u"
  using assms by (auto simp: unlock_if_def lock_ops_phase intro: release_inv)

lemma ends_unlock_if: "quiet_end s s1 t p \<Longrightarrow> csys_inv (unlock_if b t p s1)"
  by (simp add: unlock_if_def ends_goto ends_unlock)

lemma ingest_claims_inv:
  assumes inv: "csys_inv s" and go: "may_go s t"
  shows "csys_inv (ingest_claims fromiso jc jc' t s)"
proof (cases "sys_tasks s t")
  case (In_claiming c jid locked)
  have own: "task_job (sys_tasks s t) = Some jid" using In_claiming by simp
  have si: "store_inv (sys_jobs s)" using csys_invD(2) [OF inv] .
  obtain r js where tr: "transition fromiso (jc_now jc) (jc_write jc) (jc_rewrite jc) jid [PENDING] RUNNING [] (sys_jobs s) = (r, js)"
    by fastforce
  let ?s1 = "s\<lparr>sys_jobs := js\<rparr>"
  have k: "keeps_jobs {jid} {} (sys_jobs s) js" using transition_keeps [OF tr si] .
  have sj: "store_inv (sys_jobs ?s1)" using keeps_jobs_inv [OF k] by simp
  have q: "quiet_end s s2 t (Ended 0)" if "same_core ?s1 s2" "keeps_jobs {jid} {} js (sys_jobs s2)" for s2
    by (rule quiet_end_own [OF inv _ _ own])
       (use that same_core_trans [of s ?s1 s2] keeps_jobs_trans [OF k] in auto)
  have "csys_inv (unlock_if locked t (In_running c jid locked) ?s1)" if r: "r = Inr (Some j')" for j'
  proof (rule running_inv [OF inv, of _ t _ "{jid}" "{}" c jid])
    show "active_job (sys_jobs (unlock_if locked t (In_running c jid locked) ?s1)) c jid"
      using claim_active [of fromiso _ _ _ jid "sys_jobs s" j' js c] tr r si csys_invD(8) [OF inv, of t c jid] In_claiming
      by (auto simp: ingest_of_def)
    show "some_drop (sys_tasks s u) \<noteq> Some c" if "job_on (In_running c jid locked) = Some c" "u \<noteq> t" for u
      using no_drop_beside_holder(1) [OF inv _ that(2)] that(1) go In_claiming by (auto simp: may_go_def split: if_splits)
    show "task_job (sys_tasks s u) \<noteq> Some jid" if "u \<noteq> t" for u using csys_invD(7) [OF inv own, of u] that by blast
  qed (use In_claiming k csys_invD(1) [OF inv] unlock_if_locks [of ?s1] other_runs [OF inv own] in auto)
  moreover have "csys_inv (unlock_if locked t (Ended 0) (finish_requested_cancel fromiso jc' jid ?s1))"
    by (rule ends_unlock_if, rule q) (use finish_requested_cancel_keeps [OF sj] in auto)
  moreover have "csys_inv (unlock_if locked t (Ended 0) (persist_status fromiso jc' jid cs ?s1))" for cs
    by (rule ends_unlock_if, rule q) (use persist_status_keeps [OF sj] in auto)
  moreover have "csys_inv (unlock_if locked t (Ended 0) ?s1)"
    by (rule ends_unlock_if, rule q) (use sj in \<open>auto intro: keeps_jobs_refl\<close>)
  ultimately show ?thesis
    using In_claiming tr by (auto simp: ingest_claims_def split: sum.split option.split)
qed (use inv in \<open>auto simp: ingest_claims_def\<close>)

lemma ingest_ends_inv:
  assumes inv: "csys_inv s"
  shows "csys_inv (ingest_ends fromiso jc w t s)"
proof (cases "sys_tasks s t")
  case (In_running c jid locked)
  have own: "task_job (sys_tasks s t) = Some jid" using In_running by simp
  have si: "store_inv (sys_jobs s)" using csys_invD(2) [OF inv] .
  have "quiet_end s (persist_status fromiso jc jid cs s) t (Ended 0)" "quiet_end s (persist_final_status fromiso jc jid cs s) t (Ended 0)"
    for cs
    using persist_status_keeps [OF si] persist_final_status_keeps [OF si] by (auto intro!: quiet_end_own [OF inv _ _ own])
  then show ?thesis using In_running by (auto simp: ingest_ends_def split: work_end.split intro!: ends_goto)
qed (use inv in \<open>auto simp: ingest_ends_def\<close>)

section \<open>Collection jobs\<close>

lemma only_evicts_sub: "only_evicts s s' \<Longrightarrow> dict_get (jobs s') k = Some j \<Longrightarrow> dict_get (jobs s) k = Some j"
  unfolding only_evicts_def by blast

lemma update_absent:
  assumes "update fromiso now a jid cs js = (r, js')" "store_inv js" "dict_get (jobs js) k = None"
  shows "dict_get (jobs js') k = None"
  using assms(1)
proof (cases rule: update_cases)
  case (written j j' w)
  have "only_evicts (js\<lparr>jobs := dict_set jid j' (jobs js)\<rparr>) js'"
    using write_atomic_evicts [OF written(3) replaced_wf [OF assms(2) written(1,2)]] .
  moreover have "k \<noteq> jid" using assms(3) written(1) by auto
  ultimately show ?thesis using assms(3) only_evicts_sub [of _ js' k] by (cases "dict_get (jobs js') k") fastforce+
qed (use assms(3) in auto)

lemma refuse_duplicate_facts:
  assumes "refuse_duplicate fromiso jc k pointed s = (b, s1)" "store_inv (sys_jobs s)"
  shows "same_core s s1" "dict_get (jobs (sys_jobs s)) jid = None \<Longrightarrow> dict_get (jobs (sys_jobs s1)) jid = None"
    "sys_metas s1 = sys_metas s"
proof -
  have "s1 = s \<or> (\<exists>i cs. s1 = persist_status fromiso jc i cs s)"
    using assms(1) by (auto simp: refuse_duplicate_def refuse_active_job_or_fail_legacy_def split: option.splits if_splits)
  then show "same_core s s1" "sys_metas s1 = sys_metas s"
    "dict_get (jobs (sys_jobs s)) jid = None \<Longrightarrow> dict_get (jobs (sys_jobs s1)) jid = None"
    using update_absent [OF _ assms(2)] by (auto simp: persist_status_def) (metis prod.collapse)
qed

lemma started_job_ok:
  "job_id (started_job k m jc jid c ns) = jid" "collection (started_job k m jc jid c ns) = c"
  "post_init_ok (started_job k m jc jid c ns)" "status (started_job k m jc jid c ns) \<notin> set terminal_statuses"
  "\<not> is_bulk (details (started_job k m jc jid c ns))"
  "kind_pointer k \<Longrightarrow> may_write_collection (started_job k m jc jid c ns)"
  by (cases k; simp add: new_reindex_def new_metadata_reindex_def new_community_rebuild_def base_job_def post_init_ok_def
      valid_ingest_sources_def status_class_defs may_write_collection_def)+

lemma collection_job_created_inv:
  assumes inv: "csys_inv s" and go: "may_go s t" and fresh: "fresh_job s jid"
    and ptr: "\<forall>c ns k. sys_tasks s t = Cj_waiting c ns k \<longrightarrow> pointer_ok s k pointed"
  shows "csys_inv (collection_job_created fromiso jc jc' pointed model jid t s)"
proof (cases "sys_tasks s t")
  case (Cj_waiting c ns k)
  have h: "holding s t c" using go Cj_waiting by (simp add: may_go_def)
  have si: "store_inv (sys_jobs s)" using csys_invD(2) [OF inv] .
  obtain b s1 where rd: "refuse_duplicate fromiso jc k pointed s = (b, s1)" by fastforce
  have k1: "keeps_jobs {} {} (sys_jobs s) (sys_jobs s1)" using refuse_duplicate_keeps [OF rd si] ptr Cj_waiting by blast
  note c1 = refuse_duplicate_facts [OF rd si]
  let ?j = "started_job k model jc' jid c ns"
  note jo = started_job_ok [of k model jc' jid c ns]
  obtain r js where cr: "create_job fromiso (jc_write jc') (jc_rewrite jc') ?j (sys_jobs s1) = (r, js)" by fastforce
  have f1: "dict_get (jobs (sys_jobs s1)) (job_id ?j) = None" using c1(2) fresh jo(1) by (simp add: fresh_job_def)
  have k2: "keeps_jobs {} {jid} (sys_jobs s) js"
    using create_keeps [OF cr keeps_jobs_inv [OF k1] jo(3) f1] keeps_jobs_trans keeps_jobs_mono [OF k1, of "{}" "{jid}"] jo(1) by simp
  let ?s2 = "s1\<lparr>sys_jobs := js\<rparr>"
  have c2: "same_core s ?s2" using c1(1) by (simp add: same_core_def)
  have q: "quiet_end s ?s2 t (Ended n)" for n
    by (rule quiet_endI [OF inv c2 _ _, of _ _ "{}" "{jid}"]) (use k2 Cj_waiting fresh_job_claims [OF fresh] in auto)
  have q1: "quiet_end s s1 t (Ended n)" for n using inv Cj_waiting c1(1) k1 by (auto intro!: quiet_end_kept)
  have q0: "quiet_end s s t (Ended n)" for n using inv Cj_waiting by (auto intro!: quiet_end_simple)
  have "csys_inv (goto t (Cj_recording c ?j) ?s2)" if "r = Inr x" "kind_pointer k" for x
  proof (rule running_inv [OF inv, of _ t _ "{}" "{jid}" c jid])
    show "active_job (sys_jobs (goto t (Cj_recording c ?j) ?s2)) c jid"
      using created_job_there [of fromiso _ _ ?j "sys_jobs s1" x js] cr that keeps_jobs_inv [OF k1] jo by (auto simp: active_job_def)
    show "holding (goto t (Cj_recording c ?j) ?s2) t c" using h c2 by (simp add: holding_def same_core_def)
    show "some_drop (sys_tasks s u) \<noteq> Some c" if "u \<noteq> t" for u using no_drop_beside_holder(1) [OF inv h that] .
  qed (use Cj_waiting k2 c2 csys_invD(1) [OF inv] fresh fresh_job_claims [OF fresh] jo(1) in \<open>auto simp: same_core_def fresh_job_def\<close>)
  then show ?thesis
    using Cj_waiting rd cr ends_unlock_discard [OF q0] ends_unlock [OF q1] ends_unlock [OF q]
    by (cases b) (auto simp: collection_job_created_def Let_def split: sum.split)
qed (use inv in \<open>auto simp: collection_job_created_def\<close>)

text \<open>A task that goes on with the job it has.\<close>

lemma same_job_moves:
  assumes inv: "csys_inv s" and old: "runs_job (sys_tasks s t) = Some (c, jid)" "job_on (sys_tasks s t) = Some c"
    and p: "runs_job p = Some (c, jid)" "critical p = None"
    and ts: "sys_tasks s' = (sys_tasks s)(t := p)"
    and lk: "lock_inv (sys_locks s')" "\<And>u. u \<noteq> t \<Longrightarrow> lock_phase_of s' u = lock_phase_of s u"
    and js: "keeps_jobs {jid} {} (sys_jobs s) (sys_jobs s')" "active_job (sys_jobs s') c jid"
    and wr: "sys_writers s' = sys_writers s"
  shows "csys_inv s'"
proof (rule running_inv [OF inv ts _ lk js p(1)])
  show "task_job (sys_tasks s u) \<noteq> Some jid" if "u \<noteq> t" for u
    using csys_invD(7) [OF inv task_job_of(1) [OF old(1)], of u] that by blast
  show "sys_tasks s t \<noteq> Wr_running d" for d using old(1) by auto
  show "some_drop (sys_tasks s u) \<noteq> Some c" for u using csys_invD(10) [OF inv, of u c t] old(2) by blast
qed (use p(2) wr other_runs [OF inv task_job_of(1) [OF old(1)]] in auto)

lemma collection_job_recorded_inv:
  assumes inv: "csys_inv s"
  shows "csys_inv (collection_job_recorded fromiso jc written t s)"
proof (cases "sys_tasks s t")
  case (Cj_recording c j)
  have own: "task_job (sys_tasks s t) = Some (job_id j)" using Cj_recording by simp
  have si: "store_inv (sys_jobs s)" using csys_invD(2) [OF inv] .
  have "quiet_end s (persist_status fromiso jc (job_id j) cs s) t (Ended 500)" for cs
    using persist_status_keeps [OF si] by (auto intro!: quiet_end_own [OF inv _ _ own])
  moreover have "csys_inv (unlock t p s)" if "p \<in> {Cj_loading c (job_id j), Cj_running c (job_id j)}" for p
    by (rule same_job_moves [OF inv, of t c "job_id j" p])
       (use that Cj_recording si csys_invD(1) [OF inv] csys_invD(6) [OF inv, of t] in
        \<open>auto simp: lock_ops_phase intro: release_inv keeps_jobs_refl\<close>)
  ultimately show ?thesis using Cj_recording by (auto simp: collection_job_recorded_def intro!: ends_unlock)
qed (use inv in \<open>auto simp: collection_job_recorded_def\<close>)

lemma pending_active_is_reindex:
  assumes "active_job js c jid" "dict_get (jobs js) jid = Some j" "status j = PENDING"
  shows "collection j = c \<and> is_reindex (details j)"
  using assms by (cases "details j") (auto simp: active_job_def may_write_collection_def running_or_cancelling_def split: if_splits)

lemma reindex_claims_inv:
  assumes inv: "csys_inv s"
  shows "csys_inv (reindex_claims fromiso jc jc' load_error t s)"
proof (cases "sys_tasks s t")
  case (Cj_loading c jid)
  have own: "task_job (sys_tasks s t) = Some jid" using Cj_loading by simp
  have act: "active_job (sys_jobs s) c jid" using csys_invD(6) [OF inv, of t c jid] Cj_loading by simp
  have si: "store_inv (sys_jobs s)" using csys_invD(2) [OF inv] .
  obtain r js where tr: "transition fromiso (jc_now jc) (jc_write jc) (jc_rewrite jc) jid [PENDING] RUNNING [] (sys_jobs s) = (r, js)"
    by fastforce
  let ?s1 = "s\<lparr>sys_jobs := js\<rparr>"
  have k: "keeps_jobs {jid} {} (sys_jobs s) js" using transition_keeps [OF tr si] .
  have sj: "store_inv (sys_jobs ?s1)" using keeps_jobs_inv [OF k] by simp
  have q: "quiet_end s s2 t (Ended 0)" if "same_core ?s1 s2" "keeps_jobs {jid} {} js (sys_jobs s2)" for s2
    by (rule quiet_end_own [OF inv _ _ own])
       (use that same_core_trans [of s ?s1 s2] keeps_jobs_trans [OF k] in auto)
  have "quiet_end s (end_reindex fromiso jc jid load_error s) t (Ended 0)"
    using end_reindex_keeps [OF si] by (auto intro!: quiet_end_own [OF inv _ _ own])
  moreover have "csys_inv (goto t (Cj_running c jid) ?s1)" if r: "r = Inr (Some j')" for j'
  proof (rule same_job_moves [OF inv, of t c jid "Cj_running c jid"])
    have p: "status j = PENDING" if "dict_get (jobs (sys_jobs s)) jid = Some j" for j
      using tr r that by (auto simp: transition_def split: if_splits)
    show "active_job (sys_jobs (goto t (Cj_running c jid) ?s1)) c jid"
      using claim_active [of fromiso _ _ _ jid "sys_jobs s" j' js c] tr r si pending_active_is_reindex [OF act] p by simp
  qed (use Cj_loading k csys_invD(1) [OF inv] in auto)
  moreover have "quiet_end s (end_reindex fromiso jc' jid err ?s1) t (Ended 0)" for err
    by (rule q) (use end_reindex_keeps [OF sj] in auto)
  moreover have "quiet_end s ?s1 t (Ended 0)" by (rule q) (use sj in \<open>auto intro: keeps_jobs_refl\<close>)
  ultimately show ?thesis
    using Cj_loading tr by (auto simp: reindex_claims_def split: sum.split option.split intro!: ends_goto)
qed (use inv in \<open>auto simp: reindex_claims_def\<close>)

lemma collection_job_ends_inv:
  assumes inv: "csys_inv s"
  shows "csys_inv (collection_job_ends fromiso jc w t s)"
proof (cases "sys_tasks s t")
  case (Cj_running c jid)
  have own: "task_job (sys_tasks s t) = Some jid" using Cj_running by simp
  have si: "store_inv (sys_jobs s)" using csys_invD(2) [OF inv] .
  have "quiet_end s (persist_status fromiso jc jid cs s) t (Ended 0)" "quiet_end s (persist_final_status fromiso jc jid cs s) t (Ended 0)"
    "quiet_end s s t (Ended 0)" for cs
    using persist_status_keeps [OF si] persist_final_status_keeps [OF si] keeps_jobs_refl [OF si]
    by (auto intro!: quiet_end_own [OF inv _ _ own])
  then show ?thesis using Cj_running by (auto simp: collection_job_ends_def Let_def split: work_end.split intro!: ends_goto)
qed (use inv in \<open>auto simp: collection_job_ends_def\<close>)

lemmas stretch_inv =
  remove_checked_inv remove_dropped_inv remove_meta_inv writer_registered_inv ingest_created_inv ingest_claims_inv
  collection_job_created_inv collection_job_recorded_inv stub_written_inv add_job_created_inv idle_checked_inv idle_dropped_inv
  absent_checked_inv absent_dropped_inv absent_meta_inv aborted_inv

lemma task_goes_on_inv:
  assumes "task_goes_on resolve fromiso t s s'" "csys_inv s" "may_go s t"
  shows "csys_inv s'"
  using assms by (induction rule: task_goes_on.induct) (auto intro: stretch_inv)

lemma task_finishes_inv:
  assumes "task_finishes fromiso t s s'" "csys_inv s"
  shows "csys_inv s'"
  using assms by (induction rule: task_finishes.induct)
    (auto intro: writer_ends_inv ingest_ends_inv reindex_claims_inv collection_job_ends_inv)

section \<open>Locks, store calls and the others\<close>

text \<open>Only the locks move, for one task that is in no stretch that needs its lock.\<close>

lemma locks_only:
  assumes inv: "csys_inv s" and lk: "lock_inv l" "\<And>u. u \<noteq> t \<Longrightarrow> phase l u = lock_phase_of s u"
    and crit: "\<And>c. critical (sys_tasks s t) = Some c \<Longrightarrow> phase l t = lock_phase_of s t"
  shows "csys_inv (s\<lparr>sys_locks := l\<rparr>)"
proof -
  have h: "holding (s\<lparr>sys_locks := l\<rparr>) u c" if "critical (sys_tasks s u) = Some c" for u c
    using csys_invD(5) [OF inv that] lk(2) [of u] crit [of c] that by (cases "u = t") (auto simp: holding_def)
  then have "\<forall>u c. critical (sys_tasks s u) = Some c \<longrightarrow> holding (s\<lparr>sys_locks := l\<rparr>) u c" by blast
  then show ?thesis using inv lk(1) by (simp add: csys_inv_def)
qed

lemma waiting_not_critical:
  assumes "csys_inv s" "critical (sys_tasks s t) = Some c"
  shows "\<exists>i. lock_phase_of s t = Holding c i"
  using csys_invD(5) [OF assms] by (simp add: holding_phase)

lemma lock_resumed_inv:
  assumes inv: "csys_inv s" and can: "can_resume t (sys_locks s)"
  shows "csys_inv (lock_resumed fromiso jc deleted t s)"
proof -
  let ?s1 = "s\<lparr>sys_locks := resume t (sys_locks s)\<rparr>"
  have nc: "critical (sys_tasks s t) = None"
    using waiting_not_critical [OF inv, of t] can by (cases "critical (sys_tasks s t)") (auto simp: can_resume_def)
  have i1: "csys_inv ?s1"
    by (rule locks_only [OF inv, of _ t]) (use csys_invD(1) [OF inv] can nc in \<open>auto simp: lock_ops_phase intro: resume_inv\<close>)
  have "csys_inv (wait_over fromiso jc deleted t ?s1)"
  proof (cases "sys_tasks s t")
    case (In_claiming c jid locked)
    then have own: "task_job (sys_tasks ?s1 t) = Some jid" by simp
    show ?thesis
      using In_claiming finish_requested_cancel_keeps [OF csys_invD(2) [OF i1]]
      by (auto simp: wait_over_def intro!: ends_goto quiet_end_own [OF i1 _ _ own])
  next
    case (Dr_waiting c ns)
    have "csys_inv (?s1\<lparr>sys_locks := discard_lock c (sys_locks ?s1)\<rparr>)"
      by (rule locks_only [OF i1, of _ t]) (use csys_invD(1) [OF i1] in \<open>auto simp: lock_ops_phase intro: discard_lock_inv\<close>)
    then show ?thesis using Dr_waiting by (auto simp: wait_over_def intro!: ends_goto quiet_end_simple)
  qed (use i1 in \<open>auto simp: wait_over_def intro!: ends_goto quiet_end_simple\<close>)
  then show ?thesis using i1 by (simp add: lock_resumed_def Let_def)
qed

text \<open>The tables, the metadata rows and the jobs of others move.\<close>

lemma core_kept:
  assumes inv: "csys_inv s" and core: "same_core s s'" and js: "keeps_jobs {} Y (sys_jobs s) (sys_jobs s')"
    and Y: "\<And>u c k. claims (sys_tasks s u) = Some (c, k) \<Longrightarrow> k \<notin> Y"
  shows "csys_inv s'"
proof -
  have c: "sys_locks s' = sys_locks s" "sys_writers s' = sys_writers s" "sys_tasks s' = sys_tasks s"
    using core by (simp_all add: same_core_def)
  have "active_job (sys_jobs s') d k" if "runs_job (sys_tasks s t) = Some (d, k)" for t d k
    using csys_invD(6) [OF inv that] js by (simp add: keeps_jobs_def)
  moreover have "ingest_of (sys_jobs s') d k" if "claims (sys_tasks s t) = Some (d, k)" for t d k
    using csys_invD(8) [OF inv that] js Y [OF that] by (simp add: keeps_jobs_def)
  ultimately show ?thesis using inv keeps_jobs_inv [OF js] by (simp add: csys_inv_def c holding_def)
qed

lemma others_step_inv:
  assumes "others_step fromiso s s'" "csys_inv s"
  shows "csys_inv s'"
proof -
  have si: "store_inv (sys_jobs s)" using csys_invD(2) [OF assms(2)] .
  from assms(1) show ?thesis
  proof cases
    case (other_creates j a1 a2)
    show ?thesis unfolding other_creates(1)
      by (rule core_kept [OF assms(2), of _ "{job_id j}"])
         (use other_creates(2,3) fresh_job_claims create_keeps [OF surjective_pairing si] in \<open>auto simp: fresh_job_def\<close>)
  next
    case (other_cancels now a1 a2 jid before)
    show ?thesis unfolding other_cancels
      by (rule core_kept [OF assms(2), of _ "{}"])
         (use cancel_request_keeps [OF surjective_pairing si] in \<open>auto simp: sets_status_def\<close>)
  next
    case (other_bulk jid j now a cs)
    show ?thesis unfolding other_bulk(1)
      by (rule core_kept [OF assms(2), of _ "{}"]) (use other_bulk update_bulk_keeps [OF surjective_pairing si] in auto)
  next
    case (other_progress cs now a jid)
    show ?thesis unfolding other_progress(1)
      by (rule core_kept [OF assms(2), of _ "{}"]) (use other_progress update_progress_keeps [OF surjective_pairing si] in auto)
  qed
qed

lemma store_calls_core:
  "same_core s (ensure_collection c ns s)" "sys_jobs (ensure_collection c ns s) = sys_jobs s"
  "same_core s (rows_written c ns n s)" "sys_jobs (rows_written c ns n s) = sys_jobs s"
  by (auto simp: same_core_def ensure_collection_def rows_written_def upsert_meta_row_def split: option.splits if_splits)

lemma writes_to_not_critical: "writes_to p = Some c \<Longrightarrow> critical p = None"
  by (cases p) auto

lemma csys_step_inv:
  assumes "csys_step resolve fromiso s s'" "csys_inv s"
  shows "csys_inv s'"
proof -
  note li = csys_invD(1) [OF assms(2)] and si = csys_invD(2) [OF assms(2)]
  from assms(1) show ?thesis
  proof cases
    case (step_times_out t)
    have "phase (cancel_wait t (sys_locks s)) t = lock_phase_of s t" if "critical (sys_tasks s t) = Some c" for c
      using waiting_not_critical [OF assms(2) that] by (auto simp: cancel_wait_def)
    then show ?thesis
      unfolding step_times_out by (intro locks_only [OF assms(2)]) (use li in \<open>auto simp: lock_ops_phase intro: cancel_wait_inv\<close>)
  next
    case (step_store_lock t c)
    show ?thesis unfolding step_store_lock(1)
      by (rule locks_only [OF assms(2), of _ t])
         (use li step_store_lock(2,3) writes_to_not_critical in \<open>auto simp: lock_ops_phase intro: acquire_inv\<close>)
  next
    case (step_store_unlock t c)
    show ?thesis unfolding step_store_unlock(1)
      by (rule locks_only [OF assms(2), of _ t])
         (use li step_store_unlock(2) writes_to_not_critical in \<open>auto simp: lock_ops_phase intro: release_inv\<close>)
  next
    case (step_store_write t c ns n)
    show ?thesis unfolding step_store_write(1)
      by (rule core_kept [OF assms(2), of _ "{}"]) (use store_calls_core si in \<open>auto intro: keeps_jobs_refl\<close>)
  next
    case (step_ensure t c ns)
    show ?thesis unfolding step_ensure(1)
      by (rule core_kept [OF assms(2), of _ "{}"]) (use store_calls_core si in \<open>auto intro: keeps_jobs_refl\<close>)
  next
    case (step_start t)
    then show ?thesis using task_starts_inv assms(2) by blast
  next
    case (step_go t)
    then show ?thesis using task_goes_on_inv assms(2) by blast
  next
    case (step_finish t)
    then show ?thesis using task_finishes_inv assms(2) by blast
  next
    case (step_wakes t jc deleted)
    then show ?thesis using lock_resumed_inv assms(2) by blast
  next
    case step_others
    then show ?thesis using others_step_inv assms(2) by blast
  qed
qed

lemma started_inv: "started s \<Longrightarrow> csys_inv s"
  by (auto simp: started_def csys_inv_def no_locks_inv writers_of_def counted_def dict_get_def)

interpretation collections: machine_invariant started "csys_step resolve fromiso" csys_inv
  by unfold_locales (auto intro: started_inv csys_step_inv)

end
