(* ===== verification/Lock_Properties.thy ===== *)
theory Lock_Properties
  imports Async_Lock
begin

text \<open>
  What the collection locks promise: one holder per collection although entries of the table come and go, the order of the queue, and that
  no wake-up is lost.
\<close>

section \<open>The order of the queue\<close>

lemma lock_at: "phase s t = Waiting c i b \<Longrightarrow> lock_inv s \<Longrightarrow> t \<in> set (map fst (waiters (lock_objs s ! i)))"
  using obj_fitsD(3) [OF uses_lock_obj, of s t c i t b] by (simp add: waits_on_def)

lemma live_waiter_future:
  assumes "lock_inv s" "phase s t = Waiting c i b" "(t, f) \<in> set (waiters (lock_objs s ! i))"
  shows "future_fits f b"
  using obj_fitsD(2) [OF uses_lock_obj [of s t c i] assms(3)] assms(1,2) by (auto simp: waits_on_def)

lemma no_overtaking:
  assumes "lock_inv s" "lock_step s s'" "phase s' u = Holding c i" "phase s u \<noteq> Holding c i"
    and "phase s t = Waiting c i False"
  shows "t = u \<or> (\<exists>ws. map fst (waiters (lock_objs s ! i)) = u # ws \<and> t \<in> set ws)"
proof -
  let ?l = "lock_objs s ! i"
  have tab: "dict_get (lock_table s) c = Some i" using lock_invD(4) [OF assms(1), of t c i] assms(5) by simp
  have ti: "t \<in> set (map fst (waiters ?l))" using lock_at [OF assms(5,1)] .
  have "\<not> may_enter ?l"
  proof
    assume "may_enter ?l"
    then obtain f where "(t, f) \<in> set (waiters ?l)" "f = Fut_cancelled" using ti by (auto simp: may_enter_def list_all_iff)
    then show False using live_waiter_future [OF assms(1,5)] unfolding future_fits_def by blast
  qed
  with assms(2) consider v where "can_resume v s" "s' = resume v s"
    using assms(3,4) tab
    by (auto simp: lock_step_iff acquire_def lock_for_def put_lock_def Let_def cancel_wait_def release_def discard_lock_def
        split: option.splits if_splits lock_phase.splits bool.splits)
  then show ?thesis
  proof cases
    case (1 v)
    then have "v = u" "phase s u = Waiting c i False" "(u, Fut_set) \<in> set (waiters ?l)"
      using assms(3,4) by (auto simp: resume_def can_resume_def put_lock_def Let_def split: lock_phase.splits if_splits)
    then obtain ws where "waiters ?l = (u, Fut_set) # ws"
      using queue_ok_set_at_head [OF obj_fitsD(6) [OF uses_lock_obj [of s u c i]]] assms(1) by auto
    then show ?thesis using ti by auto
  qed
qed

text \<open>One step of the queue while the lock is free: its head leaves it, with the lock or without.\<close>

lemma resume_shifts:
  assumes "phase s v = Waiting c i b" "map fst (waiters (lock_objs s ! i)) = v # ns" "distinct (v # ns)" "i < length (lock_objs s)"
  shows "map fst (waiters (lock_objs (resume v s) ! i)) = ns" "t \<noteq> v \<Longrightarrow> phase (resume v s) t = phase s t"
proof -
  have "filter (\<lambda>u. u \<noteq> v) ns = ns" using assms(3) by (auto simp: filter_id_conv)
  then show "map fst (waiters (lock_objs (resume v s) ! i)) = ns"
    using assms by (auto simp: resume_def put_lock_def Let_def map_fst_without set_wake_up_first)
  show "t \<noteq> v \<Longrightarrow> phase (resume v s) t = phase s t" using assms(1) by (simp add: resume_def put_lock_def Let_def)
qed

lemma head_can_resume:
  assumes "lock_inv s" "\<not> is_locked (lock_objs s ! i)" "map fst (waiters (lock_objs s ! i)) = v # ns" "i < length (lock_objs s)"
  shows "can_resume v s" "\<exists>c b. phase s v = Waiting c i b" "distinct (v # ns)"
proof -
  note o = lock_invD(5) [OF assms(1,4)]
  obtain f ws where w: "waiters (lock_objs s ! i) = (v, f) # ws" using assms(3) by (cases "waiters (lock_objs s ! i)") auto
  have f: "f \<noteq> Fut_pending" using obj_fitsD(6) [OF o] assms(2) w by simp
  obtain b where b: "waits_on (phase s) i v b" "future_fits f b" using obj_fitsD(2) [OF o, of v f] w by auto
  then obtain c where c: "phase s v = Waiting c i b" by (auto simp: waits_on_def split: lock_phase.splits)
  then show "\<exists>c b. phase s v = Waiting c i b" by blast
  show "can_resume v s" using c b(2) f w by (cases f) (auto simp: can_resume_def future_fits_def)
  show "distinct (v # ns)" using obj_fitsD(1) [OF o] assms(3) by simp
qed

lemma holder_exists:
  assumes "lock_inv s" "is_locked (lock_objs s ! i)" "i < length (lock_objs s)"
  shows "\<exists>u c. phase s u = Holding c i"
proof -
  obtain u where "holds (phase s) i u" using obj_fitsD(4) [OF lock_invD(5) [OF assms(1,3)]] assms(2) by blast
  then show ?thesis by (auto simp: holds_def split: lock_phase.splits)
qed

lemma unlocked_soon:
  assumes "lock_inv s" "i < length (lock_objs s)" "phase s t = Waiting c i False"
  shows "\<exists>s'. lock_step\<^sup>*\<^sup>* s s' \<and> lock_inv s' \<and> \<not> is_locked (lock_objs s' ! i) \<and>
           map fst (waiters (lock_objs s' ! i)) = map fst (waiters (lock_objs s ! i)) \<and>
           i < length (lock_objs s') \<and> phase s' t = Waiting c i False"
proof (cases "is_locked (lock_objs s ! i)")
  case True
  then obtain u d where u: "phase s u = Holding d i" using holder_exists assms by blast
  have "lock_step s (release u s)" by (rule step_release)
  moreover have "lock_inv (release u s)" using assms(1) by (rule release_inv)
  ultimately show ?thesis
    using u assms by (intro exI [of _ "release u s"]) (auto simp: release_def put_lock_def set_wake_up_first)
qed (use assms in auto)

lemma free_lock_reaches_waiter:
  assumes "lock_inv s" "map fst (waiters (lock_objs s ! i)) = pre @ t # post" "i < length (lock_objs s)"
    and "phase s t = Waiting c i False"
  shows "\<exists>s'. lock_step\<^sup>*\<^sup>* s s' \<and> phase s' t = Holding c i"
  using assms
proof (induction pre arbitrary: s)
  case Nil
  obtain s1 where s1: "lock_step\<^sup>*\<^sup>* s s1" "lock_inv s1" "\<not> is_locked (lock_objs s1 ! i)"
    "map fst (waiters (lock_objs s1 ! i)) = t # post" "i < length (lock_objs s1)" "phase s1 t = Waiting c i False"
    using unlocked_soon [OF Nil.prems(1,3,4)] Nil.prems(2) by auto
  from head_can_resume [OF s1(2-5)] s1(6) have "can_resume t s1" "phase (resume t s1) t = Holding c i"
    by (auto simp: resume_def put_lock_def Let_def)
  then show ?case using s1(1) by (meson rtranclp.rtrancl_into_rtrancl step_resume)
next
  case (Cons v pre)
  obtain s1 where s1: "lock_step\<^sup>*\<^sup>* s s1" "lock_inv s1" "\<not> is_locked (lock_objs s1 ! i)"
    "map fst (waiters (lock_objs s1 ! i)) = v # pre @ t # post" "i < length (lock_objs s1)" "phase s1 t = Waiting c i False"
    using unlocked_soon [OF Cons.prems(1,3,4)] Cons.prems(2) by auto
  note h = head_can_resume [OF s1(2-5)]
  then obtain d b where d: "phase s1 v = Waiting d i b" by blast
  have "lock_inv (resume v s1)" using resume_inv s1(2) h(1) .
  moreover have "map fst (waiters (lock_objs (resume v s1) ! i)) = pre @ t # post" "phase (resume v s1) t = Waiting c i False"
    using resume_shifts [OF d s1(4) h(3) s1(5)] h(3) s1(6) by auto
  moreover have "i < length (lock_objs (resume v s1))" using s1(5) d by (simp add: resume_def put_lock_def Let_def)
  ultimately obtain s' where "lock_step\<^sup>*\<^sup>* (resume v s1) s'" "phase s' t = Holding c i" using Cons.IH by blast
  then show ?case using s1(1) step_resume [OF h(1)] by (meson converse_rtranclp_into_rtranclp rtranclp_trans)
qed

section \<open>The properties\<close>

lemma table_entry_kept:
  "lock_step s s' \<Longrightarrow> dict_get (lock_table s) c = Some i \<Longrightarrow> dict_get (lock_table s') c = Some i \<or> dict_get (lock_table s') c = None"
  by (auto simp: lock_step_iff acquire_def lock_for_def put_lock_def Let_def cancel_wait_def resume_def release_def discard_lock_def
      split: option.splits if_splits lock_phase.splits bool.splits)

text \<open>
  C19: At most one task holds the lock of a collection, although entries of the lock table are discarded and created again: in every state the
  store can reach by acquisitions, wake-ups, timeouts, cancellations, releases and discards, two tasks that hold a lock for the same
  collection name are the same task, and the lock it holds is the one the table names.
\<close>

theorem one_holder_per_collection:
  assumes "reachable (\<lambda>s. s = no_locks) lock_step s" "phase s t = Holding c i" "phase s u = Holding c j"
  shows "t = u \<and> dict_get (lock_table s) c = Some i"
proof -
  have inv: "lock_inv s" using locks.inv_reachable assms(1) .
  then show ?thesis using lock_exclusive [OF inv assms(2,3)] lock_invD(4) [OF inv, of t c i] assms(2) by simp
qed

text \<open>
  C35: The lock of a collection is handed over in the order of arrival: when a step of any reachable state gives the lock of a collection to
  one task while another one waits for it and was not cancelled, the task that gets it was at the head of the queue, before the other one.
  No task that arrives in the gap between a release and the wake-up of the next waiter can take the lock.
\<close>

theorem waiters_take_turns:
  assumes "reachable (\<lambda>s. s = no_locks) lock_step s" "lock_step s s'"
    and "phase s t = Waiting c i False" "phase s' u = Holding c j" "phase s u \<noteq> Holding c j" "u \<noteq> t"
  shows "\<exists>ws. map fst (waiters (lock_objs s ! i)) = u # ws \<and> t \<in> set ws"
proof -
  have inv: "lock_inv s" "lock_inv s'" using locks.inv_reachable assms(1) reach_step [OF assms(1,2)] by blast+
  have "dict_get (lock_table s) c = Some i" using lock_invD(4) [OF inv(1), of t c i] assms(3) by simp
  moreover have "dict_get (lock_table s') c = Some j" using lock_invD(4) [OF inv(2), of u c j] assms(4) by simp
  ultimately have "j = i" using table_entry_kept [OF assms(2)] by fastforce
  then show ?thesis using no_overtaking [OF inv(1) assms(2)] assms(3-6) by blast
qed

text \<open>
  No wake-up is lost: from every reachable state a task that waits for the lock of a collection, and was not cancelled, can come to hold
  it, whatever queues before it and whoever of them was cancelled or timed out.
\<close>

lemma waiter_can_get_the_lock:
  assumes "reachable (\<lambda>s. s = no_locks) lock_step s" "phase s t = Waiting c i False"
  shows "\<exists>s'. lock_step\<^sup>*\<^sup>* s s' \<and> phase s' t = Holding c i"
proof -
  have inv: "lock_inv s" using locks.inv_reachable assms(1) .
  obtain pre post where "map fst (waiters (lock_objs s ! i)) = pre @ t # post" using lock_at [OF assms(2) inv] by (meson split_list)
  then show ?thesis using free_lock_reaches_waiter inv assms(2) uses_lock_bound [OF inv, of t c i] by simp
qed

section \<open>The properties at concrete states\<close>

text \<open>Task 0 holds the lock, 1 and 2 wait for it, 1 gave up.\<close>

definition crowd :: lock_state where
  "crowd = cancel_wait 1 (acquire 2 ''docs'' (acquire 1 ''docs'' (acquire 0 ''docs'' no_locks)))"

definition handover :: lock_state where
  "handover = resume 1 (release 0 (acquire 3 ''docs'' crowd))"

lemma lock_reach:
  assumes "reachable (\<lambda>s. s = no_locks) lock_step s"
  shows "phase s t = Away \<Longrightarrow> reachable (\<lambda>s. s = no_locks) lock_step (acquire t c s)"
    "can_resume t s \<Longrightarrow> reachable (\<lambda>s. s = no_locks) lock_step (resume t s)"
    "reachable (\<lambda>s. s = no_locks) lock_step (cancel_wait t s)" "reachable (\<lambda>s. s = no_locks) lock_step (release t s)"
  using assms by (auto intro: reach_step step_acquire step_resume step_cancel step_release)

lemma crowd_reachable: "reachable (\<lambda>s. s = no_locks) lock_step crowd"
proof -
  have r: "reachable (\<lambda>s. s = no_locks) lock_step no_locks" by (rule reach_init) simp
  show ?thesis unfolding crowd_def by (intro lock_reach r) code_simp+
qed

lemma handover_reachable: "reachable (\<lambda>s. s = no_locks) lock_step handover"
  unfolding handover_def by (intro lock_reach crowd_reachable) code_simp+

theorem one_holder_per_collection_witness:
  "phase crowd 0 = Holding ''docs'' 0 \<and> dict_get (lock_table crowd) ''docs'' = Some 0"
proof -
  have h: "phase crowd 0 = Holding ''docs'' 0" by code_simp
  from one_holder_per_collection [OF crowd_reachable h h] h show ?thesis by blast
qed

theorem waiters_take_turns_witness:
  "phase (resume 2 handover) 2 = Holding ''docs'' 0 \<and> (\<exists>ws. map fst (waiters (lock_objs handover ! 0)) = 2 # ws \<and> 3 \<in> set ws)"
proof -
  have h: "phase handover 3 = Waiting ''docs'' 0 False" "phase (resume 2 handover) 2 = Holding ''docs'' 0"
    "phase handover 2 \<noteq> Holding ''docs'' 0" "can_resume 2 handover" by code_simp+
  from waiters_take_turns [OF handover_reachable step_resume [OF h(4)] h(1-3)] h(2) show ?thesis by simp
qed

theorem waiter_can_get_the_lock_witness:
  "phase crowd 2 = Waiting ''docs'' 0 False \<and> (\<exists>s'. lock_step\<^sup>*\<^sup>* crowd s' \<and> phase s' 2 = Holding ''docs'' 0)"
proof -
  have "phase crowd 2 = Waiting ''docs'' 0 False" by code_simp
  with waiter_can_get_the_lock [OF crowd_reachable this] show ?thesis by blast
qed

end
