(* ===== verification/Collection_Properties.thy ===== *)
theory Collection_Properties
  imports Collection_Steps Lock_Properties
begin

text \<open>
  What the collection locks, the registered writers and the job checks achieve together: a table goes only when nobody writes it who could have
  been asked to wait. And where the code does less than it says.
\<close>

section \<open>Who can make a table go\<close>

definition table_there :: "csys \<Rightarrow> string \<Rightarrow> bool" where
  "table_there s c \<longleftrightarrow> dict_get (sys_tables s) c \<noteq> None"

lemma table_kept [simp]:
  "table_there (goto t p s) = table_there s" "table_there (unlock t p s) = table_there s"
  "table_there (unlock_discard t d p s) = table_there s" "table_there (lock_collection t d p s) = table_there s"
  "table_there (unlock_if b t p s) = table_there s"
  "table_there (delete_meta_row d ns s) = table_there s" "table_there (rollback_config_entry path s) = table_there s"
  "table_there (rollback_add deleted path d ns s) = table_there s" "table_there (restore_config resolve r1 r2 s) = table_there s"
  "table_there (persist_status fromiso jc jid cs s) = table_there s" "table_there (finish_requested_cancel fromiso jc jid s) = table_there s"
  "table_there (persist_final_status fromiso jc jid cs s) = table_there s" "table_there (end_reindex fromiso jc jid err s) = table_there s"
  "table_there (cancel_retries fromiso jc d s) = table_there s" "table_there (s\<lparr>sys_jobs := js\<rparr>) = table_there s"
  "table_there (s\<lparr>sys_collections := ps\<rparr>) = table_there s" "table_there (s\<lparr>sys_locks := l\<rparr>) = table_there s"
  "table_there (register_writer d s) = table_there s" "table_there (deregister_writer d s) = table_there s"
  by (auto simp: table_there_def fun_eq_iff delete_meta_row_def rollback_config_entry_def rollback_add_def restore_config_def
      persist_status_def finish_requested_cancel_def persist_final_status_def end_reindex_def cancel_retries_def Let_def unlock_if_def
      register_writer_def deregister_writer_def split: option.split)

lemma table_grows: "table_there s c \<Longrightarrow> table_there (ensure_collection d ns s) c"
  "table_there s c \<Longrightarrow> table_there (rows_written d ns n s) c"
  by (auto simp: table_there_def ensure_collection_def rows_written_def upsert_meta_row_def split: option.splits)

lemma table_drop_path: "drop_path_from_config resolve resolved s = (r1, r2, s1) \<Longrightarrow> table_there s1 = table_there s"
  by (auto simp: table_there_def fun_eq_iff drop_path_from_config_def split: prod.splits)

lemma table_create_ingest: "create_ingest fromiso jc jid ns c path opts s = (b, s1) \<Longrightarrow> table_there s1 = table_there s"
  by (auto simp: create_ingest_def split: prod.splits sum.splits)

lemma table_refuse_duplicate: "refuse_duplicate fromiso jc k pointed s = (b, s1) \<Longrightarrow> table_there s1 = table_there s"
  by (auto simp: refuse_duplicate_def refuse_active_job_or_fail_legacy_def split: option.splits if_splits)

lemma table_upsert: "upsert_meta_row c ns s = Some s1 \<Longrightarrow> table_there s1 = table_there s"
  by (auto simp: upsert_meta_row_def table_there_def fun_eq_iff split: if_splits)

lemma table_drop: "drop_collection out c ns s = (r, s1) \<Longrightarrow> d \<noteq> c \<Longrightarrow> table_there s1 d = table_there s d"
  by (auto simp: drop_collection_def without_table_def table_there_def split: if_splits db_outcome.splits)

lemmas table_calls = table_drop_path table_create_ingest table_refuse_duplicate table_upsert

lemma starts_keep_tables: "task_starts resolve fromiso t s s' \<Longrightarrow> table_there s' = table_there s"
  by (erule task_starts.cases)
     (auto simp: remove_collection_def collection_writer_def post_ingest_def maintenance_retry_def create_collection_job_def add_collection_def
      start_drop_if_idle_def ensure_absent_def Let_def split: option.split prod.split bool.split dest: table_calls)

lemma finishes_keep_tables: "task_finishes fromiso t s s' \<Longrightarrow> table_there s' = table_there s"
  by (erule task_finishes.cases)
     (auto simp: writer_ends_def ingest_ends_def reindex_claims_def collection_job_ends_def Let_def
      split: option.split prod.split sum.split task.split work_end.split)

lemma stretches_keep_tables:
  "table_there (remove_checked resolve fromiso jc saved t s) = table_there s" "table_there (remove_meta out t s) = table_there s"
  "table_there (writer_registered t s) = table_there s" "table_there (ingest_created fromiso jc jid path opts t s) = table_there s"
  "table_there (ingest_claims fromiso jc jc' t s) = table_there s"
  "table_there (collection_job_created fromiso jc jc' pointed model jid t s) = table_there s"
  "table_there (collection_job_recorded fromiso jc written t s) = table_there s" "table_there (stub_written works t s) = table_there s"
  "table_there (add_job_created fromiso jc jid deleted t s) = table_there s" "table_there (idle_checked t s) = table_there s"
  "table_there (absent_checked t s) = table_there s" "table_there (absent_meta deleted t s) = table_there s"
  "table_there (aborted t s) = table_there s"
  by (auto simp: remove_checked_def remove_meta_def writer_registered_def ingest_created_def ingest_claims_def collection_job_created_def
      collection_job_recorded_def stub_written_def add_job_created_def idle_checked_def absent_checked_def absent_meta_def aborted_def Let_def
      split: task.split option.split prod.split sum.split bool.split db_outcome.split dest: table_calls)

lemma remove_dropped_table:
  assumes "table_there s c" "checked_drop (sys_tasks s t) \<noteq> Some c"
  shows "table_there (remove_dropped resolve fromiso jc out t s) c"
proof (cases "sys_tasks s t")
  case (Del_dropping d ns r1 r2)
  obtain r s1 where "drop_collection out d ns s = (r, s1)" by fastforce
  with table_drop [OF this, of c] show ?thesis
    using assms Del_dropping by (auto simp: remove_dropped_def split: sum.split drop_exc.split)
qed (use assms(1) in \<open>simp_all add: remove_dropped_def\<close>)

lemma idle_dropped_table:
  assumes "table_there s c" "checked_drop (sys_tasks s t) \<noteq> Some c"
  shows "table_there (idle_dropped out t s) c"
proof (cases "sys_tasks s t")
  case (Dr_dropping d ns)
  obtain r s1 where "drop_collection out d ns s = (r, s1)" by fastforce
  with table_drop [OF this, of c] show ?thesis using assms Dr_dropping by (simp add: idle_dropped_def)
qed (use assms(1) in \<open>simp_all add: idle_dropped_def\<close>)

lemma absent_dropped_table:
  assumes "table_there s c" "some_drop (sys_tasks s t) \<noteq> Some c"
  shows "table_there (absent_dropped out runtime t s) c"
proof (cases "sys_tasks s t")
  case (Im_dropping d ns existing)
  obtain r s1 where "drop_collection out d ns s = (r, s1)" by fastforce
  with table_drop [OF this, of c] show ?thesis using assms Im_dropping by (simp add: absent_dropped_def)
qed (use assms(1) in \<open>simp_all add: absent_dropped_def\<close>)

lemma stretch_tables:
  assumes "task_goes_on resolve fromiso t s s'" "table_there s c" "some_drop (sys_tasks s t) \<noteq> Some c"
  shows "table_there s' c"
proof -
  have "checked_drop (sys_tasks s t) \<noteq> Some c" using assms(3) drop_is_critical(2) by blast
  with assms show ?thesis
    by (induction rule: task_goes_on.induct)
       (auto simp: stretches_keep_tables intro: remove_dropped_table idle_dropped_table absent_dropped_table)
qed

lemma table_goes_by_drop:
  assumes "csys_step resolve fromiso s s'" "table_there s c" "\<not> table_there s' c"
  shows "\<exists>t. some_drop (sys_tasks s t) = Some c"
  using assms(1)
proof cases
  case (step_go t)
  then show ?thesis using stretch_tables assms(2,3) by blast
next
  case step_others
  then show ?thesis by cases (use assms(2,3) in auto)
next
  case (step_wakes t jc deleted)
  then show ?thesis using assms(2,3)
    by (auto simp: lock_resumed_def Let_def wait_over_def split: if_splits task.splits)
next
  case (step_start t)
  then show ?thesis using starts_keep_tables [OF step_start(3)] assms(2,3) by simp
next
  case (step_finish t)
  then show ?thesis using finishes_keep_tables [OF step_finish(2)] assms(2,3) by simp
next
  case (step_ensure t d ns)
  then show ?thesis using table_grows(1) assms(2,3) by simp
next
  case (step_store_write t d ns n)
  then show ?thesis using table_grows(2) assms(2,3) by simp
qed (use assms(2,3) in simp_all)

text \<open>The tasks that write \<open>c\<close> and could have been seen: registered, or with a job that was created or claimed under the lock.\<close>

lemma unseen_writer:
  assumes "writes_to p = Some c" "p \<noteq> Wr_running c" "job_on p \<noteq> Some c"
  shows "\<exists>jid. p = In_running c jid False"
  using assms by (cases p) (auto split: if_splits)

lemma no_writer_registered:
  assumes "csys_inv s" "checked_drop (sys_tasks s t) = Some c"
  shows "\<not> has_active_writer s c"
proof -
  have "writers_of (sys_tasks s) c = {}" using csys_invD(9) [OF assms] by (simp add: writers_of_def)
  then show ?thesis
    using csys_invD(4) [OF assms(1), of c] by (simp add: has_active_writer_def counted_def dict_get_None_iff)
qed

text \<open>
  C18: A drop keeps writers out. From the check of \<open>DELETE /collections/{name}\<close>, or of the sync's drop, until the last write of that request, in every
  interleaving of requests, syncs, ingests, retries, reindexes, rebuilds and imports, with lock waits that time out, cancelled tasks and failing
  writes: the dropping task holds the collection's lock, no writer is registered for the collection, and no task writes it, except an ingest of
  a namespace that may not write this collection and therefore got no lock.
\<close>

theorem drop_excludes_writers:
  assumes "reachable started (csys_step resolve fromiso) s" "checked_drop (sys_tasks s t) = Some c"
  shows "holding s t c \<and> \<not> has_active_writer s c \<and>
    (\<forall>u. writes_to (sys_tasks s u) = Some c \<longrightarrow> (\<exists>jid. sys_tasks s u = In_running c jid False))"
proof -
  have inv: "csys_inv s" using collections.inv_reachable assms(1) .
  note sd = drop_is_critical(2) [OF assms(2)]
  have "\<exists>jid. sys_tasks s u = In_running c jid False" if "writes_to (sys_tasks s u) = Some c" for u
    using unseen_writer [OF that csys_invD(9) [OF inv assms(2)]] csys_invD(10) [OF inv sd] by blast
  then show ?thesis
    using no_writer_registered [OF inv assms(2)] csys_invD(5) [OF inv drop_is_critical(1) [OF sd]] by blast
qed

text \<open>
  C20: No table goes under a job. When any step makes the table of a collection go, no ingest that was claimed under the lock, no reindex, no
  metadata reindex and no community rebuild of that collection is running; and a writer can be registered only if the table is dropped by
  an import that overwrites the collection.
\<close>

theorem table_goes_under_no_job:
  assumes "reachable started (csys_step resolve fromiso) s" "csys_step resolve fromiso s s'" "table_there s c" "\<not> table_there s' c"
  shows "(\<forall>u. job_on (sys_tasks s u) \<noteq> Some c) \<and>
    (has_active_writer s c \<longrightarrow> (\<exists>t ns existing. sys_tasks s t = Im_dropping c ns existing \<or> sys_tasks s t = Im_dropped c ns))"
proof -
  have inv: "csys_inv s" using collections.inv_reachable assms(1) .
  obtain t where t: "some_drop (sys_tasks s t) = Some c" using table_goes_by_drop [OF assms(2-4)] by blast
  have "checked_drop (sys_tasks s t) = Some c" if "\<nexists>t ns existing. sys_tasks s t = Im_dropping c ns existing \<or> sys_tasks s t = Im_dropped c ns"
    using t that by (cases "sys_tasks s t") auto
  then have "\<exists>t ns existing. sys_tasks s t = Im_dropping c ns existing \<or> sys_tasks s t = Im_dropped c ns" if "has_active_writer s c"
    using that no_writer_registered [OF inv, of t c] by blast
  then show ?thesis using csys_invD(10) [OF inv t] by blast
qed

end
