(* ===== verification/Collection_Runs.thy ===== *)
theory Collection_Runs
  imports Collection_Properties
begin

text \<open>Runs of the collection tasks: the properties at concrete states, and the runs that show where the code does less than it says.\<close>

definition docs_at :: resolver where
  "docs_at p = (if p = ''/d/docs'' then [''d'', ''docs''] else [p])"

definition quick :: job_call where
  "quick = \<lparr>jc_now = ''t'', jc_write = ok_write, jc_rewrite = ok_write\<rparr>"

definition server_with :: "(string \<times> string) list \<Rightarrow> (string, nat) dict \<Rightarrow> string list \<Rightarrow> csys" where
  "server_with metas tables paths =
     \<lparr>sys_locks = no_locks, sys_writers = [], sys_tables = tables, sys_metas = metas,
      sys_jobs = \<lparr>jobs = [], jfile = No_file, crashed_ingest_on_load = False\<rparr>,
      sys_collections = paths, sys_pinned = [], sys_tasks = (\<lambda>_. Idle)\<rparr>"

abbreviation reached :: "csys \<Rightarrow> bool" where
  "reached \<equiv> reachable started (csys_step docs_at zero_clock)"

lemma server_reached: "reached (server_with metas tables paths)"
  by (rule reach_init) (simp add: started_def server_with_def store_inv_def)

lemma server_idle: "sys_tasks (server_with metas tables paths) t = Idle" "lock_phase_of (server_with metas tables paths) t = Away"
  by (simp_all add: server_with_def no_locks_def)

lemma reached_start:
  "reached s \<Longrightarrow> sys_tasks s t = Idle \<Longrightarrow> lock_phase_of s t = Away \<Longrightarrow> task_starts docs_at zero_clock t s s' \<Longrightarrow> reached s'"
  by (blast intro: reach_step step_start)

lemma reached_go: "reached s \<Longrightarrow> may_go s t \<Longrightarrow> task_goes_on docs_at zero_clock t s s' \<Longrightarrow> reached s'"
  by (blast intro: reach_step step_go)

lemma reached_wakes: "reached s \<Longrightarrow> can_resume t (sys_locks s) \<Longrightarrow> reached (lock_resumed zero_clock quick True t s)"
  by (blast intro: reach_step step_wakes)

section \<open>A delete\<close>

definition server_docs :: csys where
  "server_docs = server_with [(''docs'', ''default'')] [(''docs'', 3)] [''/d/docs'']"

definition delete_asked :: csys where
  "delete_asked = remove_collection docs_at 0 ''docs'' ''default'' server_docs"

definition delete_dropping :: csys where
  "delete_dropping = remove_checked docs_at zero_clock quick True 0 delete_asked"

lemma delete_dropping_reached: "reached delete_dropping"
proof -
  have "reached delete_asked" unfolding delete_asked_def
    unfolding server_docs_def by (rule reached_start [OF server_reached server_idle [where t = 0]]) (rule starts_delete)
  moreover have "may_go delete_asked 0" by code_simp
  ultimately show ?thesis unfolding delete_dropping_def by (rule reached_go) (rule goes_delete_check)
qed

theorem drop_excludes_writers_witness: "holding delete_dropping 0 ''docs'' \<and> \<not> has_active_writer delete_dropping ''docs''"
proof -
  have "checked_drop (sys_tasks delete_dropping 0) = Some ''docs''" by code_simp
  from drop_excludes_writers [OF delete_dropping_reached this] show ?thesis by blast
qed

definition delete_dropped :: csys where
  "delete_dropped = remove_dropped docs_at zero_clock quick Db_done 0 delete_dropping"

theorem table_goes_under_no_job_witness:
  "table_there delete_dropping ''docs'' \<and> \<not> table_there delete_dropped ''docs'' \<and> job_on (sys_tasks delete_dropping 1) \<noteq> Some ''docs''"
proof -
  have "may_go delete_dropping 0" "table_there delete_dropping ''docs''" "\<not> table_there delete_dropped ''docs''" by code_simp+
  moreover have "task_goes_on docs_at zero_clock 0 delete_dropping delete_dropped" unfolding delete_dropped_def by (rule goes_delete_drop)
  ultimately show ?thesis using table_goes_under_no_job [OF delete_dropping_reached, of delete_dropped "''docs''"] step_go by blast
qed

section \<open>An import that overwrites a collection while it is written\<close>

definition writer_asked :: csys where
  "writer_asked = collection_writer 0 ''docs'' None server_docs"

definition writer_writes :: csys where
  "writer_writes = writer_registered 0 writer_asked"

definition import_asked :: csys where
  "import_asked = ensure_absent 1 ''docs'' ''default'' ''imp'' writer_writes"

definition import_drops :: csys where
  "import_drops = absent_checked 1 import_asked"

definition import_dropped :: csys where
  "import_dropped = absent_dropped Db_done True 1 import_drops"

text \<open>
  The drop of an import with \<open>force_overwrite\<close> looks for jobs only: a run in which an MCP ingest (or a sync) is registered as a writer of the
  collection, and its table is dropped under it.
\<close>

lemma import_drops_under_writer:
  "reached import_dropped \<and> sys_tasks import_dropped 0 = Wr_running ''docs'' \<and> has_active_writer import_dropped ''docs'' \<and>
   table_there import_drops ''docs'' \<and> \<not> table_there import_dropped ''docs''"
proof -
  have r1: "reached writer_asked" unfolding writer_asked_def
    unfolding server_docs_def by (rule reached_start [OF server_reached server_idle [where t = 0]]) (rule starts_writer)
  have "may_go writer_asked 0" by code_simp
  with r1 have r2: "reached writer_writes" unfolding writer_writes_def by (rule reached_go) (rule goes_writer)
  have "sys_tasks writer_writes 1 = Idle" "lock_phase_of writer_writes 1 = Away" by code_simp+
  with r2 have r3: "reached import_asked" unfolding import_asked_def by (rule reached_start) (rule starts_import)
  have "length (jobs (sys_jobs import_asked)) = 0" by code_simp
  then have "get jid (sys_jobs import_asked) = None" for jid by (simp add: get_def dict_get_def)
  then have "task_goes_on docs_at zero_clock 1 import_asked import_drops"
    unfolding import_drops_def by (intro goes_import_check) simp
  moreover have "may_go import_asked 1" by code_simp
  ultimately have r4: "reached import_drops" using r3 reached_go by blast
  have "may_go import_drops 1" by code_simp
  with r4 have "reached import_dropped" unfolding import_dropped_def by (rule reached_go) (rule goes_import_drop)
  moreover have "sys_tasks import_dropped 0 = Wr_running ''docs''" "has_active_writer import_dropped ''docs''"
    "table_there import_drops ''docs''" "\<not> table_there import_dropped ''docs''" by code_simp+
  ultimately show ?thesis by blast
qed

section \<open>A delete between the two locks of \<open>POST /collections/\<close>\<close>

text \<open>
  Task 0 adds \<open>/d/docs\<close> and task 1 deletes \<open>docs\<close>. The add writes its stub row under the lock, gives the lock back and asks for it again; the delete
  was waiting for it.
\<close>

definition add_asked :: csys where
  "add_asked = add_collection docs_at True (Some [''d'', ''docs'']) True 0 ''default'' (server_with [] [] [])"

definition both_asked :: csys where
  "both_asked = remove_collection docs_at 1 ''docs'' ''default'' add_asked"

definition add_stubbed :: csys where
  "add_stubbed = stub_written True 0 both_asked"

definition delete_turn :: csys where
  "delete_turn = lock_resumed zero_clock quick True 1 add_stubbed"

definition delete_checked :: csys where
  "delete_checked = remove_checked docs_at zero_clock quick True 1 delete_turn"

definition delete_nothing :: csys where
  "delete_nothing = remove_dropped docs_at zero_clock quick Db_done 1 delete_checked"

definition delete_done :: csys where
  "delete_done = remove_meta Db_done 1 delete_nothing"

definition add_turn :: csys where
  "add_turn = lock_resumed zero_clock quick True 0 delete_done"

definition add_job :: csys where
  "add_job = add_job_created zero_clock quick ''job'' True 0 add_turn"

definition add_runs :: csys where
  "add_runs = ingest_claims zero_clock quick quick 0 add_job"

definition add_creates :: csys where
  "add_creates = ensure_collection ''docs'' ''default'' add_runs"

lemma others_untouched:
  assumes "u \<noteq> t"
  shows "sys_tasks (add_collection resolve model_ok checked saved t ns s) u = sys_tasks s u"
    "sys_tasks (remove_collection resolve t c ns s) u = sys_tasks s u" "sys_tasks (stub_written works t s) u = sys_tasks s u"
    "sys_tasks (remove_meta out t s) u = sys_tasks s u"
  using assms
  by (auto simp: add_collection_def remove_collection_def stub_written_def remove_meta_def Let_def delete_meta_row_def
      rollback_config_entry_def upsert_meta_row_def split: option.splits task.splits db_outcome.splits if_splits)

lemma lock_resumed_untouched: "u \<noteq> t \<Longrightarrow> sys_tasks (lock_resumed fromiso jc deleted t s) u = sys_tasks s u"
  by (auto simp: lock_resumed_def wait_over_def finish_requested_cancel_def persist_status_def rollback_config_entry_def rollback_add_def
      delete_meta_row_def Let_def split: task.splits)

lemma remove_untouched:
  assumes "u \<noteq> t"
  shows "sys_tasks (remove_checked resolve fromiso jc saved t s) u = sys_tasks s u"
    "sys_tasks (remove_dropped resolve fromiso jc out t s) u = sys_tasks s u"
  using assms drop_path_core drop_collection_core
  by (auto simp: remove_checked_def remove_dropped_def cancel_retries_def restore_config_def same_core_def
      split: option.splits task.splits prod.splits sum.splits drop_exc.splits)

lemma add_turn_fresh: "fresh_job add_turn ''job''"
proof -
  have "task_job (sys_tasks add_turn u) \<noteq> Some ''job''" for u
  proof (cases "u = 0 \<or> u = 1")
    case True
    have "task_job (sys_tasks add_turn 0) = None" "task_job (sys_tasks add_turn 1) = None" by code_simp+
    with True show ?thesis by auto
  next
    case False
    then have "sys_tasks add_turn u = Idle"
      by (simp add: add_turn_def delete_done_def delete_nothing_def delete_checked_def delete_turn_def add_stubbed_def both_asked_def
          add_asked_def others_untouched lock_resumed_untouched remove_untouched server_idle)
    then show ?thesis by simp
  qed
  moreover have "dict_get (jobs (sys_jobs add_turn)) ''job'' = None" by code_simp
  ultimately show ?thesis by (simp add: fresh_job_def)
qed

text \<open>
  The delete was answered with 200 and the configuration does not name the path any more; then the job of the add runs and creates the table
  again.
\<close>

lemma deleted_collection_is_created_again:
  "reached add_creates \<and> sys_tasks add_creates 1 = Ended 200 \<and> sys_collections add_creates = [] \<and>
   sys_tasks add_creates 0 = In_running ''docs'' ''job'' True \<and> table_there add_creates ''docs''"
proof -
  have r1: "reached add_asked" unfolding add_asked_def
    by (rule reached_start [OF server_reached server_idle [where t = 0]]) (rule starts_add)
  have "sys_tasks add_asked 1 = Idle" "lock_phase_of add_asked 1 = Away" by code_simp+
  with r1 have r2: "reached both_asked" unfolding both_asked_def by (rule reached_start) (rule starts_delete)
  have "may_go both_asked 0" by code_simp
  with r2 have r3: "reached add_stubbed" unfolding add_stubbed_def by (rule reached_go) (rule goes_stub)
  have "can_resume 1 (sys_locks add_stubbed)" by code_simp
  with r3 have r4: "reached delete_turn" unfolding delete_turn_def by (rule reached_wakes)
  have "may_go delete_turn 1" by code_simp
  with r4 have r5: "reached delete_checked" unfolding delete_checked_def by (rule reached_go) (rule goes_delete_check)
  have "may_go delete_checked 1" by code_simp
  with r5 have r6: "reached delete_nothing" unfolding delete_nothing_def by (rule reached_go) (rule goes_delete_drop)
  have "may_go delete_nothing 1" by code_simp
  with r6 have r7: "reached delete_done" unfolding delete_done_def by (rule reached_go) (rule goes_delete_meta)
  have "can_resume 0 (sys_locks delete_done)" by code_simp
  with r7 have r8: "reached add_turn" unfolding add_turn_def by (rule reached_wakes)
  have "may_go add_turn 0" by code_simp
  with r8 have r9: "reached add_job" unfolding add_job_def by (rule reached_go) (rule goes_add [OF add_turn_fresh])
  have "may_go add_job 0" by code_simp
  with r9 have r10: "reached add_runs" unfolding add_runs_def by (rule reached_go) (rule goes_claim)
  have "writes_to (sys_tasks add_runs 0) = Some ''docs''" by code_simp
  then have "csys_step docs_at zero_clock add_runs add_creates" unfolding add_creates_def by (rule step_ensure)
  with r10 have "reached add_creates" by (rule reach_step)
  moreover have "sys_tasks add_creates 1 = Ended 200" "sys_collections add_creates = []"
    "sys_tasks add_creates 0 = In_running ''docs'' ''job'' True" "table_there add_creates ''docs''" by code_simp+
  ultimately show ?thesis by blast
qed

end
