(* ===== verification/Collection_Config.thy ===== *)
theory Collection_Config
  imports Collection_Runs Lock_Properties
begin

text \<open>
  The configuration's path lists under \<open>DELETE /collections/{name}\<close>: what the rollback of a failed delete puts back, and which path a
  name stands for in the route and in the sync.
\<close>

section \<open>The rollback\<close>

lemma insert_removed_restores:
  assumes "\<And>p. p \<in> set ps \<Longrightarrow> hit p \<Longrightarrow> resolve p \<notin> present"
  shows "insert_removed resolve present (filter (\<lambda>(i, p). hit p) (enumerate (length pre) ps)) (pre @ filter (\<lambda>p. \<not> hit p) ps @ added) =
    pre @ ps @ added"
  using assms
proof (induction ps arbitrary: pre)
  case (Cons p ps)
  have "insert_removed resolve present (filter (\<lambda>(i, p). hit p) (enumerate (Suc (length pre)) ps)) (pre @ p # filter (\<lambda>p. \<not> hit p) ps @ added) =
    pre @ p # ps @ added" using Cons.IH [of "pre @ [p]"] Cons.prems by simp
  then show ?case using Cons.prems by (auto simp: insert_at_def)
qed simp

lemma restore_after_split:
  assumes "\<And>p. p \<in> set added \<Longrightarrow> Some (resolve p) \<noteq> resolved"
  shows "restore_paths resolve (snd (split_paths resolve resolved ps)) (fst (split_paths resolve resolved ps) @ added) = ps @ added"
proof -
  let ?kept = "filter (\<lambda>p. Some (resolve p) \<noteq> resolved) ps"
  have "resolve p \<notin> resolve ` set (?kept @ added)" if "Some (resolve p) = resolved" for p
  proof
    assume "resolve p \<in> resolve ` set (?kept @ added)"
    then obtain q where "q \<in> set (?kept @ added)" "resolve p = resolve q" by blast
    then show False using that assms [of q] by auto
  qed
  then show ?thesis
    using insert_removed_restores [of ps "\<lambda>p. Some (resolve p) = resolved" resolve _ "[]" added]
    by (simp add: restore_paths_def split_paths_def)
qed

text \<open>
  C36: A delete that fails leaves the configuration as it found it. When \<open>_drop_path_from_config\<close> took a path out of the two path lists, other requests
  added paths of their own meanwhile, and the callback runs after the table could not be dropped, each list holds all its old entries in their
  old order, every spelling of the path at its old index, with the paths of the other requests behind them.
\<close>

theorem failed_delete_restores_config:
  assumes "drop_path_from_config resolve resolved s = (removed, removed_pinned, s1)"
    and "\<And>p. p \<in> set added \<union> set added_pinned \<Longrightarrow> Some (resolve p) \<noteq> resolved"
  shows "restore_config resolve removed removed_pinned
      (s1\<lparr>sys_collections := sys_collections s1 @ added, sys_pinned := sys_pinned s1 @ added_pinned\<rparr>) =
    s\<lparr>sys_collections := sys_collections s @ added, sys_pinned := sys_pinned s @ added_pinned\<rparr>"
  using assms restore_after_split [of added resolve resolved "sys_collections s"] restore_after_split [of added_pinned resolve resolved "sys_pinned s"]
  by (auto simp: drop_path_from_config_def restore_config_def split: prod.splits)

definition spelled :: resolver where
  "spelled p = (if p = ''~/docs'' then [''d'', ''docs''] else if p = ''/d/docs'' then [''d'', ''docs''] else [p])"

definition spelled_server :: csys where
  "spelled_server = server_with [] [] [''/a'', ''~/docs'', ''/b'', ''/d/docs'']"

theorem failed_delete_restores_config_witness:
  "(case drop_path_from_config spelled (Some [''d'', ''docs'']) spelled_server of
     (removed, removed_pinned, s1) \<Rightarrow>
       sys_collections s1 = [''/a'', ''/b''] \<and>
       restore_config spelled removed removed_pinned (s1\<lparr>sys_collections := sys_collections s1 @ [''/c''], sys_pinned := sys_pinned s1 @ []\<rparr>) =
         spelled_server\<lparr>sys_collections := sys_collections spelled_server @ [''/c''], sys_pinned := sys_pinned spelled_server @ []\<rparr>)"
proof -
  obtain removed removed_pinned s1 where d:
    "drop_path_from_config spelled (Some [''d'', ''docs'']) spelled_server = (removed, removed_pinned, s1)" by (metis prod_cases3)
  have "sys_collections (snd (snd (drop_path_from_config spelled (Some [''d'', ''docs'']) spelled_server))) = [''/a'', ''/b'']" by code_simp
  moreover have "Some (spelled p) \<noteq> Some [''d'', ''docs'']" if "p \<in> set [''/c''] \<union> set []" for p
    using that by (auto simp: spelled_def)
  ultimately show ?thesis using d failed_delete_restores_config [OF d, of "[''/c'']" "[]"] by simp
qed

section \<open>Names of colliding paths\<close>

text \<open>
  Two configured directories with the same base name. The sync calls their collections \<open>a_docs\<close> and \<open>b_docs\<close>; the route knows one path under
  the name \<open>docs\<close> and no path for \<open>a_docs\<close>.
\<close>

definition two_docs :: resolver where
  "two_docs p = (if p = ''/a/docs'' then [''a'', ''docs''] else if p = ''/b/docs'' then [''b'', ''docs''] else [p])"

definition collided :: csys where
  "collided = server_with [(''a_docs'', ''default'')] [(''a_docs'', 3)] [''/a/docs'', ''/b/docs'']"

definition collided_deleted :: csys where
  "collided_deleted =
     remove_meta Db_done 0 (remove_dropped two_docs zero_clock quick Db_done 0
       (remove_checked two_docs zero_clock quick True 0 (remove_collection two_docs 0 ''a_docs'' ''default'' collided)))"

text \<open>
  The delete of \<open>a_docs\<close> is answered with 200 and its table goes, but its path stays in the configuration, where the next sync finds it and
  creates the collection again.
\<close>

lemma renamed_collection_keeps_its_path:
  "sys_tasks collided_deleted 0 = Ended 200 \<and> \<not> table_there collided_deleted ''a_docs'' \<and>
   sys_collections collided_deleted = [''/a/docs'', ''/b/docs''] \<and>
   dict_get (build_desired two_docs sha (sys_collections collided_deleted)) ''a_docs'' = Some [''a'', ''docs'']"
proof -
  have "sys_tasks collided_deleted 0 = Ended 200" "\<not> table_there collided_deleted ''a_docs''"
    "sys_collections collided_deleted = [''/a/docs'', ''/b/docs'']" by code_simp+
  moreover have "dict_get (build_desired two_docs sha [''/a/docs'', ''/b/docs'']) ''a_docs'' = Some [''a'', ''docs'']"
    by code_simp
  ultimately show ?thesis by simp
qed

end
