(* ===== verification/Retry_Loop.thy ===== *)
theory Retry_Loop
  imports Job_Store_Facts
begin

text \<open>
  The failed-ingest retry of \<open>archon_search/jobs/maintenance_loop.py\<close>: one call of \<open>_run_failed_ingest_retry\<close>. It has no \<open>await\<close>, so a pass is one
  function of the job store and of the health dictionary. It reads the jobs once; the jobs it creates and expires meanwhile are not among
  those it looks at.

  What the store's calls meet (fresh id, clock, how the writes end) and whether the dispatcher raised is an argument per job. \<open>fromiso\<close> is \<open>None\<close>
  for a stamp that does not parse or has no offset, which is what \<open>_created_at\<close> asks.
\<close>

section \<open>The jobs of one file\<close>

record retry_config =
  failed_ingest_retry :: bool
  retry_max_attempts :: int
  retry_max_age_hours :: int
  retry_exclude :: "string list"

definition retry_excluded :: "retry_config \<Rightarrow> string \<Rightarrow> string \<Rightarrow> bool" where
  "retry_excluded c ns col \<longleftrightarrow>
     (\<exists>pattern \<in> set (retry_exclude c).
        if CHR ''/'' \<in> set pattern then pattern = ns @ ''/'' @ col else pattern = col)"

definition retry_key :: "job \<Rightarrow> string" where
  "retry_key j = namespace j @ ''/'' @ collection j @ ''/'' @ source_path j"

datatype unretriable = No_options | Client_cancelled | Process_died

definition unretriable_reason :: "job \<Rightarrow> unretriable option" where
  "unretriable_reason j =
     (if ingest_options j = None then Some No_options
      else if cancel_requested j then Some Client_cancelled
      else if error j = Some process_restart_error then Some Process_died
      else None)"

definition superseding_statuses :: "job_status list" where
  "superseding_statuses = [PENDING, RUNNING, DONE, FAILED]"

definition supersedes :: "job \<Rightarrow> bool" where
  "supersedes j \<longleftrightarrow> status j \<in> set superseding_statuses \<or> cancel_requested j"

record key_history =
  latest :: "job option"
  origin_created :: "int option"
  failed :: "job list"
  attempts_used :: int

text \<open>\<open>max(..., key=...)\<close> and \<open>max\<close>, \<open>min\<close> with a default: the first greatest element.\<close>

fun first_max :: "('a \<Rightarrow> 'k::linorder) \<Rightarrow> 'a list \<Rightarrow> 'a option" where
  "first_max f [] = None"
| "first_max f (x # xs) = Some (foldl (\<lambda>m y. if f m < f y then y else m) x xs)"

definition lineage :: "(string \<Rightarrow> int option) \<Rightarrow> job list \<Rightarrow> (int \<times> job) list" where
  "lineage fromiso js =
     List.map_filter (\<lambda>j. if supersedes j then map_option (\<lambda>t. (t, j)) (fromiso (created_at j)) else None) js"

definition lineage_key :: "int \<times> job \<Rightarrow> int \<times> bool \<times> string" where
  "lineage_key p = (fst p, status (snd p) \<noteq> FAILED, job_id (snd p))"

definition origin_of :: "(int \<times> job) list \<Rightarrow> int option" where
  "origin_of ls =
     (let requested = map fst (filter (\<lambda>p. source (snd p) \<noteq> ''maintenance'') ls)
      in if requested \<noteq> [] then first_max id requested else first_max uminus (map fst ls))"

definition retry_counts :: "(string \<Rightarrow> int option) \<Rightarrow> int option \<Rightarrow> job list \<Rightarrow> int list" where
  "retry_counts fromiso origin js =
     map retry_count
       (filter (\<lambda>j. source j = ''maintenance'' \<and>
                    (case (origin, fromiso (created_at j)) of (Some t0, Some t) \<Rightarrow> t0 \<le> t | _ \<Rightarrow> False)) js)"

definition history_of :: "(string \<Rightarrow> int option) \<Rightarrow> job list \<Rightarrow> key_history" where
  "history_of fromiso js =
     (let ls = lineage fromiso js; origin = origin_of ls
      in \<lparr>latest = map_option snd (first_max lineage_key ls),
          origin_created = origin,
          failed = filter (\<lambda>j. is_base_ingest j \<and> status j = FAILED) js,
          attempts_used = (case first_max id (retry_counts fromiso origin js) of None \<Rightarrow> 0 | Some n \<Rightarrow> n)\<rparr>)"

text \<open>The jobs of a key, in the order of the store.\<close>

definition key_jobs :: "string \<Rightarrow> job list \<Rightarrow> job list" where
  "key_jobs k js = filter (\<lambda>j. source_path j \<noteq> '''' \<and> retry_key j = k) js"

definition history_at :: "(string \<Rightarrow> int option) \<Rightarrow> string \<Rightarrow> job list \<Rightarrow> key_history" where
  "history_at fromiso k js = history_of fromiso (key_jobs k js)"

definition is_superseded :: "job \<Rightarrow> job option \<Rightarrow> bool" where
  "is_superseded j l = (case l of None \<Rightarrow> False | Some j' \<Rightarrow> job_id j' \<noteq> job_id j)"

section \<open>Ending and continuing a chain\<close>

type_synonym health = "(string, (string, json) dict) dict"

definition empty_health_entry :: "(string, json) dict" where
  "empty_health_entry =
     [(''fts_optimized_at'', JNull), (''orphans_removed_last_run'', JInt 0), (''last_retry_at'', JNull),
      (''last_error'', JNull), (''meta_chunk_count'', JInt 0), (''expired_chunks_removed_last_run'', JInt 0),
      (''communities_invalidated'', JBool False)]"

definition set_health :: "string \<Rightarrow> string \<Rightarrow> string \<Rightarrow> health \<Rightarrow> health" where
  "set_health col_key field v h =
     (let entry = (case dict_get h col_key of None \<Rightarrow> empty_health_entry | Some e \<Rightarrow> e)
      in dict_set col_key (dict_set field (JStr v) entry) h)"

definition collection_key :: "job \<Rightarrow> string" where
  "collection_key j = namespace j @ ''/'' @ collection j"

definition retry_dispatch_failed_detail :: string where
  "retry_dispatch_failed_detail = ''maintenance retry could not be started; see the server log for details''"

text \<open>
  What the store and the dispatcher do for one job of the pass. The second write is the rewrite of a failed creation or the update of a
  retry that could not be started; there is never both.
\<close>

record retry_call =
  rc_id :: string
  rc_now :: string
  rc_write :: write_attempt
  rc_rewrite :: write_attempt
  rc_starts :: bool
  rc_later :: string

definition expire_job :: "(string \<Rightarrow> int option) \<Rightarrow> (string \<Rightarrow> retry_call) \<Rightarrow> job \<Rightarrow> job_store \<Rightarrow> store_exc option \<times> job_store" where
  "expire_job fromiso calls j s =
     (let c = calls (job_id j)
      in case transition fromiso (rc_now c) (rc_write c) (rc_rewrite c) (job_id j) [FAILED] FAILED_EXPIRED [] s of
           (Inl e, s') \<Rightarrow> (if is_exception e then (None, s') else (Some e, s'))
         | (Inr _, s') \<Rightarrow> (None, s'))"

definition end_retry_chain ::
    "(string \<Rightarrow> int option) \<Rightarrow> (string \<Rightarrow> retry_call) \<Rightarrow> key_history \<Rightarrow> job_store \<Rightarrow> store_exc option \<times> job_store" where
  "end_retry_chain fromiso calls h s = run_all (expire_job fromiso calls) (failed h) s"

text \<open>\<open>_start_retry_job\<close>: whether the retry is stranded, and the exception that no handler catches.\<close>

definition start_retry_job ::
    "(string \<Rightarrow> int option) \<Rightarrow> retry_call \<Rightarrow> job \<Rightarrow> job_store \<Rightarrow> (store_exc + bool) \<times> job_store" where
  "start_retry_job fromiso c r s =
     (if rc_starts c then (Inr False, s)
      else case update fromiso (rc_later c) (rc_rewrite c) (job_id r)
                  [Set_status FAILED, Set_error (Some retry_dispatch_failed_detail)] s of
             (Inr _, s') \<Rightarrow> (Inr False, s')
           | (Inl e, s') \<Rightarrow> (if is_exception e then (Inr True, s') else (Inl e, s')))"

definition retry_job :: "retry_call \<Rightarrow> int \<Rightarrow> job \<Rightarrow> job" where
  "retry_job c attempt j =
     new_ingest (rc_id c) (rc_now c) (namespace j) ''maintenance'' (source_path j) (collection j) (ingest_options j) attempt"

definition reenqueue_retry ::
    "(string \<Rightarrow> int option) \<Rightarrow> retry_call \<Rightarrow> int \<Rightarrow> job \<Rightarrow> job_store \<Rightarrow> (store_exc + bool) \<times> job_store" where
  "reenqueue_retry fromiso c attempt j s =
     (case create_job fromiso (rc_write c) (rc_rewrite c) (retry_job c attempt j) s of
        (Inl e, s') \<Rightarrow> (if is_exception e then (Inr False, s') else (Inl e, s'))
      | (Inr r, s') \<Rightarrow> start_retry_job fromiso c r s')"

text \<open>The state of the loop: the store, the health entries, the keys seen and the collections retried.\<close>

record retry_pass =
  rp_store :: job_store
  rp_health :: health
  rp_seen :: "string set"
  rp_retried :: "string list"

definition retry_or_end_chain ::
    "(string \<Rightarrow> int option) \<Rightarrow> retry_config \<Rightarrow> int \<Rightarrow> (string \<Rightarrow> retry_call) \<Rightarrow> key_history \<Rightarrow> job \<Rightarrow> retry_pass \<Rightarrow>
     store_exc option \<times> retry_pass" where
  "retry_or_end_chain fromiso cfg cutoff calls h j p =
     (let ended = (case end_retry_chain fromiso calls h (rp_store p) of (r, s) \<Rightarrow> (r, p\<lparr>rp_store := s\<rparr>))
      in if unretriable_reason j \<noteq> None then ended
         else case origin_created h of
           None \<Rightarrow> (None, p)
         | Some t0 \<Rightarrow>
             (if t0 < cutoff then ended
              else if retry_max_attempts cfg \<le> attempts_used h then ended
              else case reenqueue_retry fromiso (calls (job_id j)) (attempts_used h + 1) j (rp_store p) of
                     (Inl e, s) \<Rightarrow> (Some e, p\<lparr>rp_store := s\<rparr>)
                   | (Inr stranded, s) \<Rightarrow>
                       (None,
                        p\<lparr>rp_store := s,
                          rp_health := (if stranded then set_health (collection_key j) ''last_error'' retry_dispatch_failed_detail (rp_health p)
                                        else rp_health p),
                          rp_retried := rp_retried p @ [collection_key j]\<rparr>)))"

text \<open>One iteration; \<open>all_jobs\<close> is the list read at the start.\<close>

definition retry_one ::
    "(string \<Rightarrow> int option) \<Rightarrow> retry_config \<Rightarrow> int \<Rightarrow> (string \<Rightarrow> retry_call) \<Rightarrow> job list \<Rightarrow> job \<Rightarrow> retry_pass \<Rightarrow>
     store_exc option \<times> retry_pass" where
  "retry_one fromiso cfg cutoff calls all_jobs j p =
     (if \<not> is_base_ingest j \<or> status j \<noteq> FAILED then (None, p)
      else if source_path j = '''' then (None, p)
      else if retry_key j \<in> rp_seen p then (None, p)
      else if retry_excluded cfg (namespace j) (collection j) then (None, p\<lparr>rp_seen := insert (retry_key j) (rp_seen p)\<rparr>)
      else let h = history_at fromiso (retry_key j) all_jobs
           in if is_superseded j (latest h) then (None, p)
              else retry_or_end_chain fromiso cfg cutoff calls h j (p\<lparr>rp_seen := insert (retry_key j) (rp_seen p)\<rparr>))"

definition hour_micros :: int where
  "hour_micros = 3600000000"

text \<open>\<open>now\<close> is the clock of the cutoff, \<open>now_iso\<close> its text, which the health entries of the retried collections get.\<close>

definition run_failed_ingest_retry ::
    "(string \<Rightarrow> int option) \<Rightarrow> retry_config \<Rightarrow> int \<Rightarrow> string \<Rightarrow> (string \<Rightarrow> retry_call) \<Rightarrow> job_store \<Rightarrow> health \<Rightarrow>
     store_exc option \<times> job_store \<times> health" where
  "run_failed_ingest_retry fromiso cfg now now_iso calls s h =
     (if \<not> failed_ingest_retry cfg then (None, s, h)
      else let all_jobs = list_jobs s; cutoff = now - retry_max_age_hours cfg * hour_micros
           in case run_all (retry_one fromiso cfg cutoff calls all_jobs) all_jobs
                     \<lparr>rp_store = s, rp_health = h, rp_seen = {}, rp_retried = []\<rparr> of
                (Some e, p) \<Rightarrow> (Some e, rp_store p, rp_health p)
              | (None, p) \<Rightarrow>
                  (None, rp_store p,
                   foldl (\<lambda>h col_key. set_health col_key ''last_retry_at'' now_iso h) (rp_health p) (remdups (rp_retried p))))"

end
