(* ===== verification/Retry_Facts.thy ===== *)
theory Retry_Facts
  imports Retry_Loop
begin

text \<open>What a retry pass does to the jobs of the store.\<close>

section \<open>Greatest elements\<close>

lemma foldl_max:
  fixes f :: "'a \<Rightarrow> 'k::linorder"
  shows "foldl (\<lambda>m y. if f m < f y then y else m) x xs \<in> set (x # xs) \<and>
    (\<forall>y \<in> set (x # xs). f y \<le> f (foldl (\<lambda>m y. if f m < f y then y else m) x xs))"
proof (induction xs arbitrary: x)
  case (Cons y ys)
  let ?z = "if f x < f y then y else x"
  from Cons.IH [of ?z] have "f x \<le> f (foldl (\<lambda>m y. if f m < f y then y else m) ?z ys)" "f y \<le> f (foldl (\<lambda>m y. if f m < f y then y else m) ?z ys)"
    by (auto split: if_splits)
  with Cons.IH [of ?z] show ?case by (auto split: if_splits)
qed simp

lemma first_max_SomeD: "first_max f xs = Some m \<Longrightarrow> m \<in> set xs \<and> (\<forall>y \<in> set xs. f y \<le> f m)"
  using foldl_max [of f] by (cases xs) auto

lemma first_max_None [simp]: "first_max f xs = None \<longleftrightarrow> xs = []"
  by (cases xs) auto

lemma set_lineage: "(t, j) \<in> set (lineage fromiso js) \<longleftrightarrow> j \<in> set js \<and> supersedes j \<and> fromiso (created_at j) = Some t"
  by (force simp: lineage_def List.map_filter_def)

lemma latest_in: "latest (history_of fromiso js) = Some j \<Longrightarrow> j \<in> set js \<and> supersedes j \<and> fromiso (created_at j) \<noteq> None"
  by (auto simp: history_of_def Let_def set_lineage dest!: first_max_SomeD)

lemma history_lineage:
  "latest (history_of fromiso js) = None \<longleftrightarrow> lineage fromiso js = []"
  "origin_created (history_of fromiso js) = None \<longleftrightarrow> lineage fromiso js = []"
  by (auto simp: history_of_def Let_def origin_of_def)

lemma failed_history: "failed (history_of fromiso js) = filter (\<lambda>j. is_base_ingest j \<and> status j = FAILED) js"
  by (simp add: history_of_def Let_def)

lemma set_key_jobs: "j \<in> set (key_jobs k js) \<longleftrightarrow> j \<in> set js \<and> source_path j \<noteq> '''' \<and> retry_key j = k"
  by (auto simp: key_jobs_def)

text \<open>The origin is a stamp of the lineage, so no later stamp is before it.\<close>

lemma origin_le:
  assumes "origin_created (history_of fromiso js) = Some t0" "\<And>j t. j \<in> set js \<Longrightarrow> fromiso (created_at j) = Some t \<Longrightarrow> t \<le> u"
  shows "t0 \<le> u"
proof -
  have "t0 \<in> set (map fst (lineage fromiso js))"
    using assms(1) by (auto simp: history_of_def origin_of_def Let_def split: if_splits dest!: first_max_SomeD)
  then show ?thesis using assms(2) by (force simp: set_lineage)
qed

lemma attempts_used_ge:
  assumes "r \<in> set js" "source r = ''maintenance''" "origin_created (history_of fromiso js) = Some t0" "fromiso (created_at r) = Some t" "t0 \<le> t"
  shows "retry_count r \<le> attempts_used (history_of fromiso js)"
proof -
  have o: "origin_of (lineage fromiso js) = Some t0" using assms(3) by (simp add: history_of_def Let_def)
  have "retry_count r \<in> set (retry_counts fromiso (Some t0) js)" using assms by (auto simp: retry_counts_def)
  then obtain m where "first_max id (retry_counts fromiso (Some t0) js) = Some m" "retry_count r \<le> m"
    by (cases "first_max id (retry_counts fromiso (Some t0) js)") (auto dest!: first_max_SomeD)
  then show ?thesis by (simp add: history_of_def Let_def o)
qed

section \<open>The store's calls\<close>

text \<open>Every job after a call was there before it, or is the one the call is about.\<close>

lemma transition_jobs:
  assumes "transition fromiso now a1 a2 jid from_sts to_st [] s = (r, s')" "store_inv s" "dict_get (jobs s') k = Some j'"
  shows "dict_get (jobs s) k = Some j' \<or>
    (k = jid \<and> (\<exists>j. dict_get (jobs s) jid = Some j \<and> status j \<in> set from_sts \<and> j' = j\<lparr>updated_at := now, status := to_st\<rparr>))"
  using assms(1)
proof (cases rule: transition_cases)
  case (claimed j j1)
  then obtain "j1 = j\<lparr>updated_at := now, status := to_st\<rparr>" "only_evicts (s\<lparr>jobs := dict_set jid j1 (jobs s)\<rparr>) s'"
    using update_Inr [OF claimed(3) assms(2)] by auto
  then show ?thesis using assms(3) claimed unfolding only_evicts_def by (cases "k = jid") fastforce+
next
  case (failed j e s1)
  obtain e' where "r = Inl e'" using reraise_cases(2) [OF failed(4)] by blast
  then have "only_evicts s s'" using transition_rollback assms(1,2) by blast
  then show ?thesis using assms(3) unfolding only_evicts_def by blast
qed (use assms(3) in auto)

lemma create_job_jobs:
  assumes "create_job fromiso a1 a2 j s = (r, s')" "store_inv s" "post_init_ok j" "dict_get (jobs s') k = Some j'"
  shows "dict_get (jobs s) k = Some j' \<or> (k = job_id j \<and> j' = j \<and> (\<exists>j. r = Inr j))"
  using assms(1)
proof (cases rule: create_job_cases)
  case created
  then have "only_evicts (s\<lparr>jobs := dict_set (job_id j) j (jobs s)\<rparr>) s'"
    using create_job_created assms(1-3) by blast
  then show ?thesis using assms(4) created unfolding only_evicts_def by (cases "k = job_id j") fastforce+
next
  case (failed e s1)
  have "only_evicts (s\<lparr>jobs := dict_set (job_id j) j (jobs s)\<rparr>) s1"
    using failed assms(2,3) by (blast intro: write_atomic_evicts added_inv)
  moreover have "only_evicts (s1\<lparr>jobs := dict_del (job_id j) (jobs s1)\<rparr>) s'"
    using failed assms(2,3) by (blast intro: reraise_evicts removed_inv write_atomic_inv added_inv)
  ultimately show ?thesis using assms(4) unfolding only_evicts_def by (cases "k = job_id j") fastforce+
qed

lemma update_jobs:
  assumes "update fromiso now a jid cs s = (r, s')" "store_inv s" "dict_get (jobs s') k = Some j'"
  shows "dict_get (jobs s) k = Some j' \<or>
    (k = jid \<and> (\<exists>j. dict_get (jobs s) jid = Some j \<and> replace cs (j\<lparr>updated_at := now\<rparr>) = Some j'))"
  using assms(1)
proof (cases rule: update_cases)
  case (written j j1)
  have "store_inv (s\<lparr>jobs := dict_set jid j1 (jobs s)\<rparr>)" using replaced_wf [OF assms(2)] written by blast
  then have "only_evicts (s\<lparr>jobs := dict_set jid j1 (jobs s)\<rparr>) s'" using written write_atomic_evicts by blast
  then show ?thesis using assms(3) written unfolding only_evicts_def by (cases "k = jid") fastforce+
qed (use assms(3) in auto)

end
