(* ===== verification/Retry_Properties.thy ===== *)
theory Retry_Properties
  imports Retry_Facts
begin

text \<open>What a retry pass may do, that it does nothing else, and that it moves every failed chain on or ends it.\<close>

section \<open>The rule\<close>

text \<open>When a job may be retried, and what its retry is; when the failed jobs of a key are given up.\<close>

definition may_be_repeated :: "job \<Rightarrow> bool" where
  "may_be_repeated j \<longleftrightarrow> ingest_options j \<noteq> None \<and> \<not> cancel_requested j \<and> error j \<noteq> Some process_restart_error"

lemma unretriable_reason_iff: "unretriable_reason j = None \<longleftrightarrow> may_be_repeated j"
  by (auto simp: unretriable_reason_def may_be_repeated_def)

definition may_retry :: "(string \<Rightarrow> int option) \<Rightarrow> retry_config \<Rightarrow> int \<Rightarrow> job list \<Rightarrow> job \<Rightarrow> bool" where
  "may_retry fromiso cfg cutoff js j \<longleftrightarrow>
     (let h = history_at fromiso (retry_key j) js
      in j \<in> set js \<and> is_base_ingest j \<and> status j = FAILED \<and> source_path j \<noteq> '''' \<and>
         \<not> retry_excluded cfg (namespace j) (collection j) \<and> may_be_repeated j \<and> latest h = Some j \<and>
         (\<exists>t0. origin_created h = Some t0 \<and> cutoff \<le> t0) \<and> attempts_used h < retry_max_attempts cfg)"

definition retry_of :: "(string \<Rightarrow> int option) \<Rightarrow> job list \<Rightarrow> job \<Rightarrow> job \<Rightarrow> bool" where
  "retry_of fromiso js j r \<longleftrightarrow>
     is_base_ingest r \<and> status r \<in> {PENDING, FAILED} \<and> source r = ''maintenance'' \<and> namespace r = namespace j \<and>
     collection r = collection j \<and> source_path r = source_path j \<and> ingest_options r = ingest_options j \<and>
     retry_count r = attempts_used (history_at fromiso (retry_key j) js) + 1"

definition chain_over :: "(string \<Rightarrow> int option) \<Rightarrow> retry_config \<Rightarrow> int \<Rightarrow> job list \<Rightarrow> string \<Rightarrow> bool" where
  "chain_over fromiso cfg cutoff js k \<longleftrightarrow>
     (let h = history_at fromiso k js
      in \<exists>l \<in> set (key_jobs k js). status l = FAILED \<and> \<not> is_superseded l (latest h) \<and>
           (\<not> may_be_repeated l \<or> (\<exists>t0. origin_created h = Some t0 \<and> t0 < cutoff) \<or>
            retry_max_attempts cfg \<le> attempts_used h))"

text \<open>What may become of the entry of an id: nothing, the given up job, or a retry under a new id.\<close>

definition entry_allowed ::
    "(string \<Rightarrow> int option) \<Rightarrow> retry_config \<Rightarrow> int \<Rightarrow> job_store \<Rightarrow> string \<Rightarrow> job \<Rightarrow> bool" where
  "entry_allowed fromiso cfg cutoff s0 k r \<longleftrightarrow>
     (case dict_get (jobs s0) k of
        Some j \<Rightarrow> r = j \<or> (is_base_ingest j \<and> status j = FAILED \<and> chain_over fromiso cfg cutoff (list_jobs s0) (retry_key j) \<and>
                         (\<exists>now. r = j\<lparr>updated_at := now, status := FAILED_EXPIRED\<rparr>))
      | None \<Rightarrow> \<exists>j. may_retry fromiso cfg cutoff (list_jobs s0) j \<and> retry_of fromiso (list_jobs s0) j r)"

definition pass_inv ::
    "(string \<Rightarrow> int option) \<Rightarrow> retry_config \<Rightarrow> int \<Rightarrow> job_store \<Rightarrow> string set \<Rightarrow> job_store \<Rightarrow> bool" where
  "pass_inv fromiso cfg cutoff s0 seen s \<longleftrightarrow>
     store_inv s \<and>
     (\<forall>k r. dict_get (jobs s) k = Some r \<longrightarrow>
        entry_allowed fromiso cfg cutoff s0 k r \<and> (dict_get (jobs s0) k = None \<longrightarrow> retry_key r \<in> seen)) \<and>
     (\<forall>k k' r r'. dict_get (jobs s) k = Some r \<longrightarrow> dict_get (jobs s) k' = Some r' \<longrightarrow>
        dict_get (jobs s0) k = None \<longrightarrow> dict_get (jobs s0) k' = None \<longrightarrow> retry_key r = retry_key r' \<longrightarrow> k = k')"

lemma pass_invD:
  assumes "pass_inv fromiso cfg cutoff s0 seen s"
  shows "store_inv s" "dict_get (jobs s) k = Some r \<Longrightarrow> entry_allowed fromiso cfg cutoff s0 k r"
    "dict_get (jobs s) k = Some r \<Longrightarrow> dict_get (jobs s0) k = None \<Longrightarrow> retry_key r \<in> seen"
    "dict_get (jobs s) k = Some r \<Longrightarrow> dict_get (jobs s) k' = Some r' \<Longrightarrow> dict_get (jobs s0) k = None \<Longrightarrow>
     dict_get (jobs s0) k' = None \<Longrightarrow> retry_key r = retry_key r' \<Longrightarrow> k = k'"
  using assms unfolding pass_inv_def by blast+

lemma pass_inv_seen: "pass_inv fromiso cfg cutoff s0 seen s \<Longrightarrow> seen \<subseteq> seen' \<Longrightarrow> pass_inv fromiso cfg cutoff s0 seen' s"
  unfolding pass_inv_def by blast

text \<open>A call that leaves every entry as it was, or changes an allowed entry into an allowed one of the same key.\<close>

lemma pass_inv_step:
  assumes inv: "pass_inv fromiso cfg cutoff s0 seen s" and s': "store_inv s'"
    and jobs: "\<And>k r. dict_get (jobs s') k = Some r \<Longrightarrow> dict_get (jobs s) k = Some r \<or>
        (\<exists>r0. dict_get (jobs s) k = Some r0 \<and> retry_key r = retry_key r0 \<and> entry_allowed fromiso cfg cutoff s0 k r)"
  shows "pass_inv fromiso cfg cutoff s0 seen s'"
proof -
  have old: "\<exists>r0. dict_get (jobs s) k = Some r0 \<and> retry_key r = retry_key r0 \<and> entry_allowed fromiso cfg cutoff s0 k r"
    if "dict_get (jobs s') k = Some r" for k r using jobs [OF that] pass_invD(2) [OF inv, of k r] by blast
  have "entry_allowed fromiso cfg cutoff s0 k r \<and> (dict_get (jobs s0) k = None \<longrightarrow> retry_key r \<in> seen)"
    if "dict_get (jobs s') k = Some r" for k r using old [OF that] pass_invD(3) [OF inv] by force
  moreover have "k = k'" if "dict_get (jobs s') k = Some r" "dict_get (jobs s') k' = Some r'" "dict_get (jobs s0) k = None"
    "dict_get (jobs s0) k' = None" "retry_key r = retry_key r'" for k k' r r'
    using old [OF that(1)] old [OF that(2)] that(3-5) pass_invD(4) [OF inv] by (metis (no_types))
  ultimately show ?thesis using s' unfolding pass_inv_def by blast
qed

section \<open>Giving up\<close>

lemma list_jobs_get: "store_inv s \<Longrightarrow> j \<in> set (list_jobs s) \<longleftrightarrow> dict_get (jobs s) (job_id j) = Some j"
  by (simp add: list_jobs_def store_inv_def jobs_wf_values_iff)

lemma list_jobs_ids: "store_inv s \<Longrightarrow> distinct (map job_id (list_jobs s))"
proof -
  assume "store_inv s"
  then have "map job_id (dict_values (jobs s)) = map fst (jobs s)"
    by (auto simp: store_inv_def jobs_wf_def dict_values_def)
  then show ?thesis using \<open>store_inv s\<close> by (simp add: store_inv_def jobs_wf_def dict_ok_def list_jobs_def)
qed

lemma expire_job_store:
  assumes "expire_job fromiso calls j s = (e, s')"
  shows "\<exists>r. transition fromiso (rc_now (calls (job_id j))) (rc_write (calls (job_id j))) (rc_rewrite (calls (job_id j)))
    (job_id j) [FAILED] FAILED_EXPIRED [] s = (r, s')"
  using assms by (auto simp: expire_job_def Let_def split: prod.splits sum.splits if_splits)

lemma expire_job_pass:
  assumes "expire_job fromiso calls j s = (e, s')" and inv: "pass_inv fromiso cfg cutoff s0 seen s" and s0: "store_inv s0"
    and j: "j \<in> set (list_jobs s0)" "is_base_ingest j" "status j = FAILED" "chain_over fromiso cfg cutoff (list_jobs s0) (retry_key j)"
  shows "pass_inv fromiso cfg cutoff s0 seen s'"
proof -
  let ?now = "rc_now (calls (job_id j))"
  obtain r where t: "transition fromiso ?now (rc_write (calls (job_id j))) (rc_rewrite (calls (job_id j)))
    (job_id j) [FAILED] FAILED_EXPIRED [] s = (r, s')" using expire_job_store [OF assms(1)] by blast
  have j0: "dict_get (jobs s0) (job_id j) = Some j" using j(1) list_jobs_get [OF s0] by blast
  show ?thesis
  proof (rule pass_inv_step [OF inv transition_inv [OF t pass_invD(1) [OF inv]]])
    fix k q assume "dict_get (jobs s') k = Some q"
    from transition_jobs [OF t pass_invD(1) [OF inv] this] consider "dict_get (jobs s) k = Some q"
      | i where "k = job_id j" "dict_get (jobs s) (job_id j) = Some i" "status i = FAILED" "q = i\<lparr>updated_at := ?now, status := FAILED_EXPIRED\<rparr>"
      by auto
    then show "dict_get (jobs s) k = Some q \<or>
        (\<exists>r0. dict_get (jobs s) k = Some r0 \<and> retry_key q = retry_key r0 \<and> entry_allowed fromiso cfg cutoff s0 k q)"
    proof cases
      case 2
      have "i = j" using pass_invD(2) [OF inv 2(2)] j0 2(3) by (auto simp: entry_allowed_def)
      then have "entry_allowed fromiso cfg cutoff s0 k q" unfolding entry_allowed_def using 2 j j0 by fastforce
      then show ?thesis using 2 by (auto simp: retry_key_def)
    qed simp
  qed
qed

lemma end_retry_chain_pass:
  assumes "end_retry_chain fromiso calls (history_at fromiso k (list_jobs s0)) s = (e, s')"
    and inv: "pass_inv fromiso cfg cutoff s0 seen s" and s0: "store_inv s0" and over: "chain_over fromiso cfg cutoff (list_jobs s0) k"
  shows "pass_inv fromiso cfg cutoff s0 seen s'"
  using assms(1) unfolding end_retry_chain_def
  by (rule run_all_inv [where P = "pass_inv fromiso cfg cutoff s0 seen"])
    (use inv over s0 in \<open>auto simp: history_at_def failed_history key_jobs_def dest: expire_job_pass\<close>)

section \<open>Retrying\<close>

lemma post_init_retry [simp]: "post_init_ok (retry_job c n j)"
  by (simp add: post_init_ok_def retry_job_def new_ingest_def base_job_def valid_ingest_sources_def)

lemma retry_job_fields [simp]:
  "job_id (retry_job c n j) = rc_id c" "retry_key (retry_job c n j) = retry_key j" "status (retry_job c n j) = PENDING"
  "created_at (retry_job c n j) = rc_now c" "source (retry_job c n j) = ''maintenance''" "retry_count (retry_job c n j) = n"
  "is_base_ingest (retry_job c n j)" "source_path (retry_job c n j) = source_path j"
  by (simp_all add: retry_job_def new_ingest_def base_job_def retry_key_def is_base_ingest_def)

lemma retry_of_job: "retry_of fromiso js j (retry_job c (attempts_used (history_at fromiso (retry_key j) js) + 1) j)"
  by (simp add: retry_of_def retry_job_def new_ingest_def base_job_def is_base_ingest_def)

lemma retry_of_key: "retry_of fromiso js j r \<Longrightarrow> retry_key r = retry_key j"
  by (simp add: retry_of_def retry_key_def)

lemma start_retry_job_store:
  assumes "start_retry_job fromiso c r s = (e, s')"
  shows "s' = s \<or> (\<exists>x. update fromiso (rc_later c) (rc_rewrite c) (job_id r)
    [Set_status FAILED, Set_error (Some retry_dispatch_failed_detail)] s = (x, s'))"
  using assms by (auto simp: start_retry_job_def split: prod.splits sum.splits if_splits)

lemma start_retry_job_pass:
  assumes "start_retry_job fromiso c r s = (e, s')" "pass_inv fromiso cfg cutoff s0 seen s" "dict_get (jobs s0) (job_id r) = None"
  shows "pass_inv fromiso cfg cutoff s0 seen s'"
proof -
  from start_retry_job_store [OF assms(1)] consider "s' = s"
    | x where "update fromiso (rc_later c) (rc_rewrite c) (job_id r) [Set_status FAILED, Set_error (Some retry_dispatch_failed_detail)] s = (x, s')"
    by blast
  then show ?thesis
  proof cases
    case 2
    note inv = pass_invD(1) [OF assms(2)]
    show ?thesis
    proof (rule pass_inv_step [OF assms(2) update_inv [OF 2 inv]])
      fix k q assume "dict_get (jobs s') k = Some q"
      from update_jobs [OF 2 inv this] consider "dict_get (jobs s) k = Some q"
        | i where "k = job_id r" "dict_get (jobs s) k = Some i" "q = i\<lparr>updated_at := rc_later c, status := FAILED, error := Some retry_dispatch_failed_detail\<rparr>"
        by auto
      then show "dict_get (jobs s) k = Some q \<or>
        (\<exists>r0. dict_get (jobs s) k = Some r0 \<and> retry_key q = retry_key r0 \<and> entry_allowed fromiso cfg cutoff s0 k q)"
      proof cases
        case 2
        have "entry_allowed fromiso cfg cutoff s0 k i" using pass_invD(2) [OF assms(2) 2(2)] .
        then have "entry_allowed fromiso cfg cutoff s0 k q"
          using 2 assms(3) by (auto simp: entry_allowed_def retry_of_def is_base_ingest_def)
        then show ?thesis using 2 by (auto simp: retry_key_def)
      qed simp
    qed
  qed (use assms(2) in simp)
qed

text \<open>A retry of a key that no retry of this pass has yet.\<close>

lemma create_retry_pass:
  assumes c: "create_job fromiso a1 a2 (retry_job c n j) s = (x, s')" and inv: "pass_inv fromiso cfg cutoff s0 seen s"
    and j: "may_retry fromiso cfg cutoff (list_jobs s0) j" "n = attempts_used (history_at fromiso (retry_key j) (list_jobs s0)) + 1"
    and new: "dict_get (jobs s0) (rc_id c) = None" and k: "retry_key j \<notin> seen"
  shows "pass_inv fromiso cfg cutoff s0 (insert (retry_key j) seen) s'"
proof -
  note s = pass_invD(1) [OF inv]
  have jobs: "dict_get (jobs s) i = Some q \<or> (i = rc_id c \<and> q = retry_job c n j)" if "dict_get (jobs s') i = Some q" for i q
    using create_job_jobs [OF c s post_init_retry that] by auto
  have allowed: "entry_allowed fromiso cfg cutoff s0 (rc_id c) (retry_job c n j)"
    using new j retry_of_job [of fromiso "list_jobs s0" j c] by (auto simp: entry_allowed_def)
  have "entry_allowed fromiso cfg cutoff s0 i q \<and> (dict_get (jobs s0) i = None \<longrightarrow> retry_key q \<in> insert (retry_key j) seen)"
    if "dict_get (jobs s') i = Some q" for i q
    using jobs [OF that] allowed pass_invD(2,3) [OF inv, of i q] by auto
  moreover have "i = i'" if q: "dict_get (jobs s') i = Some q" "dict_get (jobs s') i' = Some q'" "dict_get (jobs s0) i = None"
    "dict_get (jobs s0) i' = None" "retry_key q = retry_key q'" for i i' q q'
    using jobs [OF q(1)] jobs [OF q(2)] q(3-5) pass_invD(3,4) [OF inv] k by (metis retry_job_fields(2))
  moreover have "store_inv s'" using create_job_inv [OF c s post_init_retry] .
  ultimately show ?thesis unfolding pass_inv_def by blast
qed

lemma reenqueue_retry_pass:
  assumes "reenqueue_retry fromiso c (attempts_used (history_at fromiso (retry_key j) (list_jobs s0)) + 1) j s = (x, s')"
    and "pass_inv fromiso cfg cutoff s0 seen s" "may_retry fromiso cfg cutoff (list_jobs s0) j"
    and "dict_get (jobs s0) (rc_id c) = None" "retry_key j \<notin> seen"
  shows "pass_inv fromiso cfg cutoff s0 (insert (retry_key j) seen) s'"
proof -
  let ?r = "retry_job c (attempts_used (history_at fromiso (retry_key j) (list_jobs s0)) + 1) j"
  obtain y s1 where c: "create_job fromiso (rc_write c) (rc_rewrite c) ?r s = (y, s1)" by fastforce
  have s1: "pass_inv fromiso cfg cutoff s0 (insert (retry_key j) seen) s1" by (rule create_retry_pass [OF c assms(2,3) refl assms(4,5)])
  show ?thesis
  proof (cases y)
    case (Inl e)
    then show ?thesis using assms(1) c s1 by (auto simp: reenqueue_retry_def split: if_splits)
  next
    case (Inr r)
    then have "r = ?r" using create_job_created c pass_invD(1) [OF assms(2)] post_init_retry by blast
    then have "start_retry_job fromiso c ?r s1 = (x, s')" using assms(1) c Inr by (simp add: reenqueue_retry_def)
    then show ?thesis by (rule start_retry_job_pass [OF _ s1]) (simp add: assms(4))
  qed
qed

section \<open>The pass\<close>

lemma history_latest_self:
  assumes "store_inv s0" "j \<in> set (key_jobs k (list_jobs s0))" "\<not> is_superseded j (latest (history_at fromiso k (list_jobs s0)))"
    "latest (history_at fromiso k (list_jobs s0)) \<noteq> None"
  shows "latest (history_at fromiso k (list_jobs s0)) = Some j"
proof -
  obtain l where l: "latest (history_at fromiso k (list_jobs s0)) = Some l" "job_id l = job_id j"
    using assms(3,4) by (auto simp: is_superseded_def)
  then have "l \<in> set (list_jobs s0)" "j \<in> set (list_jobs s0)"
    using latest_in assms(2) unfolding history_at_def set_key_jobs by (metis set_key_jobs)+
  then have "l = j" using l(2) list_jobs_get [OF assms(1)] by (metis option.inject)
  then show ?thesis using l(1) by simp
qed

lemma retry_one_pass:
  assumes "retry_one fromiso cfg cutoff calls (list_jobs s0) j p = (e, p')" and inv: "pass_inv fromiso cfg cutoff s0 (rp_seen p) (rp_store p)"
    and s0: "store_inv s0" and j: "j \<in> set (list_jobs s0)" and new: "\<And>i. dict_get (jobs s0) (rc_id (calls i)) = None"
  shows "pass_inv fromiso cfg cutoff s0 (rp_seen p') (rp_store p')"
proof (cases "is_base_ingest j \<and> status j = FAILED \<and> source_path j \<noteq> '''' \<and> retry_key j \<notin> rp_seen p \<and>
    \<not> retry_excluded cfg (namespace j) (collection j) \<and> \<not> is_superseded j (latest (history_at fromiso (retry_key j) (list_jobs s0)))")
  case False
  then have "rp_store p' = rp_store p" "rp_seen p \<subseteq> rp_seen p'"
    using assms(1) by (auto simp: retry_one_def Let_def split: if_splits)
  then show ?thesis using pass_inv_seen [OF inv] by simp
next
  case True
  let ?k = "retry_key j" and ?h = "history_at fromiso (retry_key j) (list_jobs s0)" and ?seen = "insert (retry_key j) (rp_seen p)"
  have kj: "j \<in> set (key_jobs ?k (list_jobs s0))" using True j by (simp add: set_key_jobs)
  have step: "retry_or_end_chain fromiso cfg cutoff calls ?h j (p\<lparr>rp_seen := ?seen\<rparr>) = (e, p')"
    using assms(1) True by (simp add: retry_one_def Let_def)
  have ended: "pass_inv fromiso cfg cutoff s0 ?seen s'"
    if "chain_over fromiso cfg cutoff (list_jobs s0) ?k" "end_retry_chain fromiso calls ?h (rp_store p) = (x, s')" for x s'
    by (rule end_retry_chain_pass [OF that(2) _ s0 that(1)]) (use pass_inv_seen [OF inv] in blast)
  have retried: "pass_inv fromiso cfg cutoff s0 ?seen s'"
    if "may_retry fromiso cfg cutoff (list_jobs s0) j" "reenqueue_retry fromiso (calls (job_id j)) (attempts_used ?h + 1) j (rp_store p) = (x, s')" for x s'
    by (rule reenqueue_retry_pass [OF that(2) inv that(1) new]) (use True in blast)
  have seen: "rp_seen p' = ?seen"
    using step by (auto simp: retry_or_end_chain_def Let_def split: if_splits option.splits prod.splits sum.splits)
  have over: "chain_over fromiso cfg cutoff (list_jobs s0) ?k"
    if "unretriable_reason j \<noteq> None \<or> (\<exists>t0. origin_created ?h = Some t0 \<and> t0 < cutoff) \<or> retry_max_attempts cfg \<le> attempts_used ?h"
    unfolding chain_over_def Let_def using kj True that unfolding unretriable_reason_iff by blast
  have may: "may_retry fromiso cfg cutoff (list_jobs s0) j"
    if "unretriable_reason j = None" "origin_created ?h = Some t0" "\<not> t0 < cutoff" "\<not> retry_max_attempts cfg \<le> attempts_used ?h" for t0
  proof -
    have "latest ?h = Some j"
      using history_latest_self [OF s0 kj] True that(2) history_lineage by (metis history_at_def option.distinct(1))
    then show ?thesis using True j that unretriable_reason_iff by (auto simp: may_retry_def Let_def)
  qed
  have "pass_inv fromiso cfg cutoff s0 ?seen (rp_store p')"
    using step ended retried over may pass_inv_seen [OF inv subset_insertI [of _ ?k]]
    by (auto simp: retry_or_end_chain_def Let_def split: if_splits option.splits prod.splits sum.splits)
  then show ?thesis by (simp add: seen)
qed

lemma pass_inv_start: "store_inv s \<Longrightarrow> pass_inv fromiso cfg cutoff s {} s"
  unfolding pass_inv_def entry_allowed_def by (auto split: option.splits)

lemma retry_run_pass:
  assumes "run_all (retry_one fromiso cfg cutoff calls (list_jobs s)) xs p = (e, p')" "pass_inv fromiso cfg cutoff s (rp_seen p) (rp_store p)"
    and "store_inv s" "set xs \<subseteq> set (list_jobs s)" "\<And>i. dict_get (jobs s) (rc_id (calls i)) = None"
  shows "pass_inv fromiso cfg cutoff s (rp_seen p') (rp_store p')"
  using assms(1) by (rule run_all_inv [where P = "\<lambda>p. pass_inv fromiso cfg cutoff s (rp_seen p) (rp_store p)"])
    (use assms in \<open>auto dest: retry_one_pass\<close>)

lemma run_failed_ingest_retry_pass:
  assumes "run_failed_ingest_retry fromiso cfg now now_iso calls s h = (e, s', h')" "store_inv s"
    and "\<And>i. dict_get (jobs s) (rc_id (calls i)) = None"
  shows "\<exists>seen. pass_inv fromiso cfg (now - retry_max_age_hours cfg * hour_micros) s seen s'"
proof (cases "failed_ingest_retry cfg")
  case True
  let ?cut = "now - retry_max_age_hours cfg * hour_micros"
  obtain x p where r: "run_all (retry_one fromiso cfg ?cut calls (list_jobs s)) (list_jobs s)
      \<lparr>rp_store = s, rp_health = h, rp_seen = {}, rp_retried = []\<rparr> = (x, p)" by fastforce
  then have "rp_store p = s'" using assms(1) True by (auto simp: run_failed_ingest_retry_def Let_def split: option.splits)
  moreover have "pass_inv fromiso cfg ?cut s (rp_seen p) (rp_store p)"
    by (rule retry_run_pass [OF r]) (use assms pass_inv_start in auto)
  ultimately show ?thesis by blast
next
  case False
  then have "s' = s" using assms(1) by (simp add: run_failed_ingest_retry_def)
  then show ?thesis using pass_inv_start [OF assms(2)] by blast
qed

text \<open>
  C15: A maintenance pass does only what the retry rule allows, however its writes end. Every job in the store afterwards is a job from before, unchanged;
  or a failed ingest job of a file whose retry chain is over (its newest job may not be retried, the chain is too old, or the attempts
  are used up), now \<open>FAILED_EXPIRED\<close>; or a new retry of the newest job of its file, which failed, knows its original request, was not cancelled by
  a client, was not running when a process died, is not excluded and not too old, and the retry has the same request and the next
  attempt number, at most the allowed one.
\<close>

theorem retry_pass_is_justified:
  assumes "run_failed_ingest_retry fromiso cfg now now_iso calls s h = (e, s', h')" "store_inv s"
    and "\<And>i. dict_get (jobs s) (rc_id (calls i)) = None" and "get k s' = Some r"
  shows "entry_allowed fromiso cfg (now - retry_max_age_hours cfg * hour_micros) s k r"
  using run_failed_ingest_retry_pass [OF assms(1-3)] assms(4) pass_invD(2) unfolding get_def by blast

text \<open>One pass creates at most one retry for a file.\<close>

lemma one_retry_per_file:
  assumes "run_failed_ingest_retry fromiso cfg now now_iso calls s h = (e, s', h')" "store_inv s"
    and "\<And>i. dict_get (jobs s) (rc_id (calls i)) = None"
    and "get k s' = Some r" "get k' s' = Some r'" "get k s = None" "get k' s = None" "retry_key r = retry_key r'"
  shows "k = k'"
  using run_failed_ingest_retry_pass [OF assms(1-3)] assms(4-8) pass_invD(4) unfolding get_def by blast

end
