(* ===== verification/Retry_Progress.thy ===== *)
theory Retry_Progress
  imports Retry_Properties
begin

text \<open>A retry pass without trouble moves every failed chain on: it is retried, or all its failed jobs are given up.\<close>

section \<open>A pass without trouble\<close>

text \<open>
  Every write lands, every stamp can be read, every retry is started, new ids are new and different, and the clock of the pass is not
  behind the jobs. Names of namespaces and collections have no slash.
\<close>

definition readable :: "(string \<Rightarrow> int option) \<Rightarrow> job_store \<Rightarrow> bool" where
  "readable fromiso s \<longleftrightarrow> (\<forall>j \<in> set (list_jobs s). fromiso (updated_at j) \<noteq> None)"

definition smooth :: "(string \<Rightarrow> int option) \<Rightarrow> job_store \<Rightarrow> (string \<Rightarrow> retry_call) \<Rightarrow> bool" where
  "smooth fromiso s calls \<longleftrightarrow>
     inj (\<lambda>i. rc_id (calls i)) \<and>
     (\<forall>i. dict_get (jobs s) (rc_id (calls i)) = None \<and> outcome (rc_write (calls i)) = Persisted \<and> rc_starts (calls i) \<and>
       (\<exists>t. fromiso (rc_now (calls i)) = Some t \<and> (\<forall>j \<in> set (list_jobs s). \<forall>u. fromiso (created_at j) = Some u \<longrightarrow> u \<le> t)))"

definition plain_names :: "job_store \<Rightarrow> bool" where
  "plain_names s \<longleftrightarrow> (\<forall>j \<in> set (list_jobs s). CHR ''/'' \<notin> set (namespace j) \<and> CHR ''/'' \<notin> set (collection j))"

lemma smoothD:
  assumes "smooth fromiso s calls"
  shows "rc_id (calls i) = rc_id (calls k) \<longleftrightarrow> i = k" "dict_get (jobs s) (rc_id (calls i)) = None" "outcome (rc_write (calls i)) = Persisted"
    "rc_starts (calls i)" "fromiso (rc_now (calls i)) \<noteq> None"
proof -
  show "rc_id (calls i) = rc_id (calls k) \<longleftrightarrow> i = k" using assms unfolding smooth_def inj_def by blast
  show "dict_get (jobs s) (rc_id (calls i)) = None" "outcome (rc_write (calls i)) = Persisted" "rc_starts (calls i)"
    using assms unfolding smooth_def by blast+
  show "fromiso (rc_now (calls i)) \<noteq> None" using assms unfolding smooth_def by (metis option.distinct(1))
qed

lemma slash_cut:
  "x @ CHR ''/'' # y = x' @ CHR ''/'' # y' \<Longrightarrow> CHR ''/'' \<notin> set x \<Longrightarrow> CHR ''/'' \<notin> set x' \<Longrightarrow> x = x' \<and> y = y'"
proof (induction x arbitrary: x')
  case Nil
  then show ?case by (cases x') auto
next
  case (Cons a x)
  then show ?case by (cases x') auto
qed

lemma retry_key_plain:
  assumes "plain_names s" "j \<in> set (list_jobs s)" "j' \<in> set (list_jobs s)" "retry_key j = retry_key j'"
  shows "namespace j = namespace j' \<and> collection j = collection j' \<and> source_path j = source_path j'"
proof -
  have "namespace j = namespace j' \<and> collection j @ CHR ''/'' # source_path j = collection j' @ CHR ''/'' # source_path j'"
    by (rule slash_cut) (use assms in \<open>auto simp: plain_names_def retry_key_def\<close>)
  moreover have "collection j = collection j' \<and> source_path j = source_path j'"
    by (rule slash_cut) (use assms calculation in \<open>auto simp: plain_names_def\<close>)
  ultimately show ?thesis by blast
qed

section \<open>Calls that succeed\<close>

text \<open>
  How the store moves: no job becomes \<open>FAILED\<close>, and a pending job stays, except under the ids \<open>X\<close>.
\<close>

definition moves :: "(string \<Rightarrow> int option) \<Rightarrow> string set \<Rightarrow> job_store \<Rightarrow> job_store \<Rightarrow> bool" where
  "moves fromiso X s s' \<longleftrightarrow>
     store_inv s' \<and> readable fromiso s' \<and>
     (\<forall>i r. dict_get (jobs s') i = Some r \<longrightarrow> dict_get (jobs s) i = Some r \<or> status r \<noteq> FAILED) \<and>
     (\<forall>i r. dict_get (jobs s) i = Some r \<longrightarrow> status r = PENDING \<longrightarrow> i \<notin> X \<longrightarrow> dict_get (jobs s') i = Some r)"

lemma movesD:
  assumes "moves fromiso X s s'"
  shows "store_inv s'" "readable fromiso s'" "dict_get (jobs s') i = Some r \<Longrightarrow> status r = FAILED \<Longrightarrow> dict_get (jobs s) i = Some r"
    "dict_get (jobs s) i = Some r \<Longrightarrow> status r = PENDING \<Longrightarrow> i \<notin> X \<Longrightarrow> dict_get (jobs s') i = Some r"
  using assms unfolding moves_def by blast+

lemma moves_refl: "store_inv s \<Longrightarrow> readable fromiso s \<Longrightarrow> moves fromiso {} s s"
  unfolding moves_def by blast

lemma moves_trans: "moves fromiso X s s' \<Longrightarrow> moves fromiso Y s' s'' \<Longrightarrow> moves fromiso (X \<union> Y) s s''"
  unfolding moves_def by (metis UnI1 UnI2)

lemma moves_mono: "moves fromiso X s s' \<Longrightarrow> X \<subseteq> Y \<Longrightarrow> moves fromiso Y s s'"
  unfolding moves_def by blast

lemma evict_readable: "readable fromiso s \<Longrightarrow> evict_old fromiso t (jobs s) \<noteq> None"
  by (auto simp: readable_def evict_old_def list_jobs_def)

lemma readable_get: "store_inv s \<Longrightarrow> readable fromiso s \<longleftrightarrow> (\<forall>i r. dict_get (jobs s) i = Some r \<longrightarrow> fromiso (updated_at r) \<noteq> None)"
  using list_jobs_get [of s] jobs_wf_getD [of "jobs s"] unfolding readable_def store_inv_def by (metis)

text \<open>A job that was written, with everything else as before or evicted.\<close>

lemma readable_set:
  assumes "store_inv s" "store_inv (s\<lparr>jobs := dict_set i j (jobs s)\<rparr>)" "readable fromiso s" "fromiso (updated_at j) \<noteq> None"
  shows "readable fromiso (s\<lparr>jobs := dict_set i j (jobs s)\<rparr>)"
  using assms readable_get [OF assms(2)] readable_get [OF assms(1)] by (auto split: if_splits)

lemma moves_written:
  assumes s: "store_inv s" "readable fromiso s" and w: "only_evicts (s\<lparr>jobs := dict_set i j (jobs s)\<rparr>) s'" "store_inv s'"
    and j: "status j \<noteq> FAILED" "fromiso (updated_at j) \<noteq> None"
  shows "moves fromiso {i} s s'"
proof -
  have old: "dict_get (jobs s) k = Some r \<or> r = j" if "dict_get (jobs s') k = Some r" for k r
  proof -
    have "dict_get (jobs (s\<lparr>jobs := dict_set i j (jobs s)\<rparr>)) k = Some r" using w(1) that unfolding only_evicts_def by blast
    then show ?thesis by (cases "k = i") simp_all
  qed
  then have "readable fromiso s'" using readable_get [OF w(2)] readable_get [OF s(1)] s(2) j(2) by metis
  moreover have "dict_get (jobs s') k = Some r" if "dict_get (jobs s) k = Some r" "status r = PENDING" "k \<noteq> i" for k r
  proof -
    have "dict_get (jobs (s\<lparr>jobs := dict_set i j (jobs s)\<rparr>)) k = Some r" "status r \<notin> set terminal_statuses"
      using that by (simp_all add: terminal_statuses_def)
    then show ?thesis using w(1) unfolding only_evicts_def by blast
  qed
  ultimately show ?thesis using old w(2) j(1) unfolding moves_def by blast
qed

lemma update_lands:
  assumes "readable fromiso s" "store_inv s" "outcome a = Persisted" "fromiso now \<noteq> None" "dict_get (jobs s) i = Some j"
  shows "\<exists>s'. update fromiso now a i [Set_status st] s = (Inr (j\<lparr>updated_at := now, status := st\<rparr>), s')"
proof -
  let ?s = "s\<lparr>jobs := dict_set i (j\<lparr>updated_at := now, status := st\<rparr>) (jobs s)\<rparr>"
  have "store_inv ?s" using replaced_wf [OF assms(2,5), of "[Set_status st]" now] by simp
  then have "readable fromiso ?s" using readable_set assms by simp
  then obtain s' where "write_atomic fromiso a ?s = (Inr (), s')" using write_atomic_Persisted assms(3) evict_readable by blast
  then show ?thesis using assms(5) by (simp add: update_def)
qed

lemma expire_lands:
  assumes "readable fromiso s" "store_inv s" "smooth fromiso s0 calls"
  obtains s' where "expire_job fromiso calls j s = (None, s')" "moves fromiso {} s s'"
    "\<And>r. dict_get (jobs s') (job_id j) = Some r \<Longrightarrow> status r \<noteq> FAILED"
proof (cases "\<exists>i. dict_get (jobs s) (job_id j) = Some i \<and> status i = FAILED")
  case True
  let ?c = "calls (job_id j)"
  obtain i where i: "dict_get (jobs s) (job_id j) = Some i" "status i = FAILED" using True by blast
  let ?i = "i\<lparr>updated_at := rc_now ?c, status := FAILED_EXPIRED\<rparr>"
  obtain s' where u: "update fromiso (rc_now ?c) (rc_write ?c) (job_id j) [Set_status FAILED_EXPIRED] s = (Inr ?i, s')"
    using update_lands [OF assms(1,2) smoothD(3,5) [OF assms(3)] i(1)] by blast
  have e: "only_evicts (s\<lparr>jobs := dict_set (job_id j) ?i (jobs s)\<rparr>) s'" "store_inv s'"
    using update_Inr [OF u assms(2)] update_inv [OF u assms(2)] i(1) by auto
  have "moves fromiso {job_id j} s s'" by (rule moves_written [OF assms(2,1) e]) (simp_all add: smoothD [OF assms(3)])
  then have m: "moves fromiso {} s s'" using i unfolding moves_def by (metis empty_iff job_status.distinct(7) option.inject singletonD)
  have "expire_job fromiso calls j s = (None, s')" using u i by (simp add: expire_job_def Let_def transition_def)
  moreover have "status r \<noteq> FAILED" if "dict_get (jobs s') (job_id j) = Some r" for r
    using e(1) that unfolding only_evicts_def by fastforce
  ultimately show ?thesis using that m by blast
next
  case False
  then have "expire_job fromiso calls j s = (None, s)"
    by (auto simp: expire_job_def Let_def transition_def split: option.splits)
  then show ?thesis using that False moves_refl [OF assms(2,1)] by blast
qed

lemma expire_all_land:
  assumes "readable fromiso s" "store_inv s" "smooth fromiso s0 calls"
  shows "\<exists>s'. run_all (expire_job fromiso calls) js s = (None, s') \<and> moves fromiso {} s s' \<and>
    (\<forall>j \<in> set js. \<forall>r. dict_get (jobs s') (job_id j) = Some r \<longrightarrow> status r \<noteq> FAILED)"
  using assms(1,2)
proof (induction js arbitrary: s)
  case Nil
  then show ?case using moves_refl by auto
next
  case (Cons j js)
  obtain s1 where s1: "expire_job fromiso calls j s = (None, s1)" "moves fromiso {} s s1"
    "\<And>r. dict_get (jobs s1) (job_id j) = Some r \<Longrightarrow> status r \<noteq> FAILED" using expire_lands [OF Cons.prems assms(3)] by blast
  obtain s2 where s2: "run_all (expire_job fromiso calls) js s1 = (None, s2)" "moves fromiso {} s1 s2"
    "\<forall>j \<in> set js. \<forall>r. dict_get (jobs s2) (job_id j) = Some r \<longrightarrow> status r \<noteq> FAILED"
    using Cons.IH movesD(1,2) [OF s1(2)] by blast
  have "status r \<noteq> FAILED" if "dict_get (jobs s2) (job_id j) = Some r" for r
    using s1(3) movesD(3) [OF s2(2) that] by blast
  then show ?case using s1(1) s2 moves_trans [OF s1(2) s2(2)] by simp
qed

lemma retry_lands:
  assumes "readable fromiso s" "store_inv s" "smooth fromiso s0 calls"
  obtains s' where "reenqueue_retry fromiso (calls i) n j s = (Inr False, s')" "moves fromiso {rc_id (calls i)} s s'"
    "dict_get (jobs s') (rc_id (calls i)) = Some (retry_job (calls i) n j)"
proof -
  let ?r = "retry_job (calls i) n j" and ?s = "s\<lparr>jobs := dict_set (rc_id (calls i)) (retry_job (calls i) n j) (jobs s)\<rparr>"
  have up: "updated_at ?r = rc_now (calls i)" by (simp add: retry_job_def new_ingest_def base_job_def)
  have inv: "store_inv ?s" using added_inv [OF assms(2) post_init_retry, of "calls i" n j] by simp
  have rd: "fromiso (updated_at ?r) \<noteq> None" using smoothD(5) [OF assms(3)] up by simp
  then have "readable fromiso ?s" using readable_set [OF assms(2) inv assms(1)] by simp
  then obtain s' where w: "write_atomic fromiso (rc_write (calls i)) ?s = (Inr (), s')"
    using write_atomic_Persisted smoothD(3) [OF assms(3)] evict_readable by blast
  then have e: "only_evicts ?s s'" "store_inv s'" using write_atomic_evicts write_atomic_inv inv by blast+
  have "moves fromiso {rc_id (calls i)} s s'" by (rule moves_written [OF assms(2,1) e]) (use rd in simp_all)
  moreover have "dict_get (jobs s') (rc_id (calls i)) = Some ?r"
    using e(1) unfolding only_evicts_def by (simp add: terminal_statuses_def)
  moreover have "reenqueue_retry fromiso (calls i) n j s = (Inr False, s')"
    using w smoothD(4) [OF assms(3)] by (simp add: reenqueue_retry_def create_job_def start_retry_job_def)
  ultimately show ?thesis using that by blast
qed

section \<open>The loop\<close>

lemma retry_one_lands:
  assumes "readable fromiso (rp_store p)" "store_inv (rp_store p)" "smooth fromiso s0 calls"
  obtains p' where "retry_one fromiso cfg cutoff calls js j p = (None, p')"
    "moves fromiso {rc_id (calls (job_id j))} (rp_store p) (rp_store p')"
proof -
  let ?h = "history_at fromiso (retry_key j) js"
  obtain s1 where s1: "end_retry_chain fromiso calls ?h (rp_store p) = (None, s1)" "moves fromiso {} (rp_store p) s1"
    using expire_all_land [OF assms] unfolding end_retry_chain_def by blast
  obtain s2 where s2: "reenqueue_retry fromiso (calls (job_id j)) (attempts_used ?h + 1) j (rp_store p) = (Inr False, s2)"
    "moves fromiso {rc_id (calls (job_id j))} (rp_store p) s2" using retry_lands [OF assms] by blast
  obtain e p' where r: "retry_one fromiso cfg cutoff calls js j p = (e, p')" by fastforce
  then have "e = None \<and> rp_store p' \<in> {rp_store p, s1, s2}"
    using s1(1) s2(1) by (auto simp: retry_one_def retry_or_end_chain_def Let_def split: if_splits option.splits)
  moreover have "moves fromiso {rc_id (calls (job_id j))} (rp_store p) s" if "s \<in> {rp_store p, s1, s2}" for s
    using that s1(2) s2(2) moves_refl [OF assms(2,1)] moves_mono by blast
  ultimately show ?thesis using that r by blast
qed

lemma retry_all_land:
  assumes "readable fromiso (rp_store p)" "store_inv (rp_store p)" "smooth fromiso s0 calls"
  shows "\<exists>p'. run_all (retry_one fromiso cfg cutoff calls js) xs p = (None, p') \<and>
    moves fromiso ((\<lambda>j. rc_id (calls (job_id j))) ` set xs) (rp_store p) (rp_store p')"
  using assms(1,2)
proof (induction xs arbitrary: p)
  case Nil
  then show ?case using moves_refl by auto
next
  case (Cons x xs)
  obtain p1 where p1: "retry_one fromiso cfg cutoff calls js x p = (None, p1)"
    "moves fromiso {rc_id (calls (job_id x))} (rp_store p) (rp_store p1)" using retry_one_lands [OF Cons.prems assms(3)] by blast
  obtain p2 where "run_all (retry_one fromiso cfg cutoff calls js) xs p1 = (None, p2)"
    "moves fromiso ((\<lambda>j. rc_id (calls (job_id j))) ` set xs) (rp_store p1) (rp_store p2)"
    using Cons.IH movesD(1,2) [OF p1(2)] by blast
  then show ?case using p1 moves_trans [OF p1(2)] by force
qed

text \<open>The key of the newest failed job is not seen before its turn: the older failed jobs of the key are superseded by it.\<close>

lemma unseen_before:
  assumes "run_all (retry_one fromiso cfg cutoff calls (list_jobs s)) ys p = (e, p')" "retry_key j \<notin> rp_seen p" "plain_names s"
    and "set ys \<subseteq> set (list_jobs s)" "\<forall>y \<in> set ys. job_id y \<noteq> job_id j" "j \<in> set (list_jobs s)"
    and "latest (history_at fromiso (retry_key j) (list_jobs s)) = Some j" "\<not> retry_excluded cfg (namespace j) (collection j)"
  shows "retry_key j \<notin> rp_seen p'"
  using assms(1)
proof (rule run_all_inv [where P = "\<lambda>p. retry_key j \<notin> rp_seen p"])
  fix y q e q' assume y: "y \<in> set ys" "retry_one fromiso cfg cutoff calls (list_jobs s) y q = (e, q')" "retry_key j \<notin> rp_seen q"
  show "retry_key j \<notin> rp_seen q'"
  proof (cases "retry_key y = retry_key j")
    case True
    then have "\<not> retry_excluded cfg (namespace y) (collection y)" "is_superseded y (latest (history_at fromiso (retry_key y) (list_jobs s)))"
      using retry_key_plain [OF assms(3), of y j] y(1) assms(4-8) by (auto simp: is_superseded_def)
    then have "q' = q" using y(2) by (auto simp: retry_one_def Let_def split: if_splits)
    then show ?thesis using y(3) by simp
  next
    case False
    have "rp_seen q' \<subseteq> insert (retry_key y) (rp_seen q)"
      using y(2) by (auto simp: retry_one_def retry_or_end_chain_def Let_def split: if_splits option.splits prod.splits sum.splits)
    then show ?thesis using y(3) False by auto
  qed
qed (rule assms(2))

text \<open>Its turn: a retry, or the end of the chain.\<close>

lemma retry_one_hits:
  assumes "readable fromiso (rp_store p)" "store_inv (rp_store p)" "smooth fromiso s0 calls"
    and "retry_one fromiso cfg cutoff calls js j p = (e, p')" "retry_key j \<notin> rp_seen p"
    and "is_base_ingest j" "status j = FAILED" "source_path j \<noteq> ''''" "\<not> retry_excluded cfg (namespace j) (collection j)"
    and "latest (history_at fromiso (retry_key j) js) = Some j"
  shows "(attempts_used (history_at fromiso (retry_key j) js) < retry_max_attempts cfg \<and>
      dict_get (jobs (rp_store p')) (rc_id (calls (job_id j))) =
        Some (retry_job (calls (job_id j)) (attempts_used (history_at fromiso (retry_key j) js) + 1) j)) \<or>
    (\<forall>y \<in> set (failed (history_at fromiso (retry_key j) js)). \<forall>r. dict_get (jobs (rp_store p')) (job_id y) = Some r \<longrightarrow> status r \<noteq> FAILED)"
proof -
  let ?h = "history_at fromiso (retry_key j) js" and ?c = "calls (job_id j)"
  obtain s1 where s1: "end_retry_chain fromiso calls ?h (rp_store p) = (None, s1)"
    "\<forall>y \<in> set (failed ?h). \<forall>r. dict_get (jobs s1) (job_id y) = Some r \<longrightarrow> status r \<noteq> FAILED"
    using expire_all_land [OF assms(1-3)] unfolding end_retry_chain_def by blast
  obtain s2 where s2: "reenqueue_retry fromiso ?c (attempts_used ?h + 1) j (rp_store p) = (Inr False, s2)"
    "dict_get (jobs s2) (rc_id ?c) = Some (retry_job ?c (attempts_used ?h + 1) j)" using retry_lands [OF assms(1-3)] by blast
  obtain t0 where "origin_created ?h = Some t0"
    using assms(10) history_lineage unfolding history_at_def by (metis not_None_eq)
  moreover have "\<not> is_superseded j (latest ?h)" using assms(10) by (simp add: is_superseded_def)
  ultimately have "(rp_store p' = s1) \<or> (rp_store p' = s2 \<and> attempts_used ?h < retry_max_attempts cfg)"
    using assms(4-9) s1(1) s2(1) by (auto simp: retry_one_def retry_or_end_chain_def Let_def split: if_splits)
  then show ?thesis using s1(2) s2(2) by blast
qed

text \<open>After a retry the key's history counts it.\<close>

lemma attempts_after:
  assumes inv: "pass_inv fromiso cfg cutoff s seen s'" and s: "store_inv s" and sm: "smooth fromiso s calls"
    and r: "dict_get (jobs s') (rc_id c) = Some (retry_job c n j)" "c = calls i" "source_path j \<noteq> ''''"
  shows "n \<le> attempts_used (history_at fromiso (retry_key j) (list_jobs s'))"
proof -
  let ?js = "key_jobs (retry_key j) (list_jobs s')" and ?r = "retry_job c n j"
  obtain t where t: "fromiso (rc_now c) = Some t" "\<forall>y \<in> set (list_jobs s). \<forall>u. fromiso (created_at y) = Some u \<longrightarrow> u \<le> t"
    using sm r(2) unfolding smooth_def by blast
  have rin: "?r \<in> set ?js" using r pass_invD(1) [OF inv] by (simp add: set_key_jobs list_jobs_get)
  have "fromiso (created_at y) = Some u \<Longrightarrow> u \<le> t" if "y \<in> set ?js" for y u
  proof -
    have y: "dict_get (jobs s') (job_id y) = Some y" "retry_key y = retry_key j"
      using that list_jobs_get [OF pass_invD(1) [OF inv]] by (auto simp: set_key_jobs)
    show "fromiso (created_at y) = Some u \<Longrightarrow> u \<le> t"
    proof (cases "dict_get (jobs s) (job_id y)")
      case None
      then have "job_id y = rc_id c" using pass_invD(4) [OF inv y(1) r(1)] y(2) smoothD(2) [OF sm] r(2) by simp
      then have "y = ?r" using y(1) r(1) by simp
      then have "created_at y = rc_now c" by (simp only: retry_job_fields)
      then show "fromiso (created_at y) = Some u \<Longrightarrow> u \<le> t" using t(1) by simp
    next
      case (Some z)
      then have "created_at y = created_at z" using pass_invD(2) [OF inv y(1)] by (auto simp: entry_allowed_def)
      moreover have "z \<in> set (list_jobs s)" using Some s by (simp add: list_jobs_get store_inv_def jobs_wf_getD)
      ultimately show "fromiso (created_at y) = Some u \<Longrightarrow> u \<le> t" using t(2) by simp
    qed
  qed
  moreover have "lineage fromiso ?js \<noteq> []" using rin t(1) set_lineage [of t ?r fromiso ?js] by (auto simp: supersedes_def superseding_statuses_def)
  then obtain t0 where t0: "origin_created (history_of fromiso ?js) = Some t0" using history_lineage(2) by blast
  ultimately have "t0 \<le> t" using origin_le [OF t0] by blast
  then have "retry_count ?r \<le> attempts_used (history_of fromiso ?js)" using attempts_used_ge [OF rin _ t0] t(1) by simp
  then show ?thesis by (simp add: history_at_def)
qed

text \<open>The pass around the turn of one job.\<close>

lemma pass_around:
  assumes run: "run_failed_ingest_retry fromiso cfg now now_iso calls s h = (e, s', h')" "failed_ingest_retry cfg" and s: "store_inv s"
    and sm: "smooth fromiso s calls" "readable fromiso s" "plain_names s" and j: "j \<in> set (list_jobs s)"
    "\<not> retry_excluded cfg (namespace j) (collection j)" "latest (history_at fromiso (retry_key j) (list_jobs s)) = Some j"
  obtains p1 p2 X Y where "retry_one fromiso cfg (now - retry_max_age_hours cfg * hour_micros) calls (list_jobs s) j p1 = (None, p2)"
    "readable fromiso (rp_store p1)" "store_inv (rp_store p1)" "retry_key j \<notin> rp_seen p1"
    "moves fromiso X (rp_store p2) s'" "rc_id (calls (job_id j)) \<notin> X" "moves fromiso Y s s'"
proof -
  let ?one = "retry_one fromiso cfg (now - retry_max_age_hours cfg * hour_micros) calls (list_jobs s)"
  let ?p0 = "\<lparr>rp_store = s, rp_health = h, rp_seen = {}, rp_retried = []\<rparr>" and ?ids = "\<lambda>xs. (\<lambda>j. rc_id (calls (job_id j))) ` set xs"
  obtain ys zs where xs: "list_jobs s = ys @ j # zs" using j(1) by (meson split_list)
  have ids: "\<forall>y \<in> set ys. job_id y \<noteq> job_id j" "\<forall>y \<in> set zs. job_id y \<noteq> job_id j"
    using list_jobs_ids [OF s] by (auto simp: xs) (metis image_eqI)+
  obtain p1 where p1: "run_all ?one ys ?p0 = (None, p1)" "moves fromiso (?ids ys) s (rp_store p1)"
    using retry_all_land [of fromiso ?p0, simplified, OF sm(2) s sm(1)] by blast
  obtain p2 where p2: "?one j p1 = (None, p2)" "moves fromiso {rc_id (calls (job_id j))} (rp_store p1) (rp_store p2)"
    using retry_one_lands movesD(1,2) [OF p1(2)] sm(1) by blast
  obtain p3 where p3: "run_all ?one zs p2 = (None, p3)" "moves fromiso (?ids zs) (rp_store p2) (rp_store p3)"
    using retry_all_land movesD(1,2) [OF p2(2)] sm(1) by blast
  have "run_all ?one (list_jobs s) ?p0 = (None, p3)" using p1(1) p2(1) p3(1) unfolding xs by (simp add: run_all_append)
  then have s': "rp_store p3 = s'" using run by (simp add: run_failed_ingest_retry_def Let_def)
  have "retry_key j \<notin> rp_seen p1" by (rule unseen_before [OF p1(1)]) (use ids(1) sm(3) j in \<open>auto simp: xs\<close>)
  moreover have "rc_id (calls (job_id j)) \<notin> ?ids zs" using ids(2) smoothD(1) [OF sm(1)] by auto
  moreover note moves_trans [OF moves_trans [OF p1(2) p2(2)] p3(2)]
  ultimately show ?thesis using that [OF p2(1) movesD(2,1) [OF p1(2)]] p3(2) unfolding s' by blast
qed

section \<open>The theorem\<close>

text \<open>
  C16: A retry pass without trouble moves a failed file on. Assume that retries are on, all writes land, every retry is started, ids of new jobs
  are new and different, stamps can be read, the clock of the pass is not behind the creation of any job, and names of namespaces and
  collections have no slash; and take a failed ingest job with a path, in a collection that is not excluded, that is the newest job of
  its file. After the pass, either the attempts used were below \<open>retry_max_attempts\<close>, a retry of the job with the next attempt number is pending
  and the history now counts more attempts than before; or no ingest job of the file is \<open>FAILED\<close> any more.
\<close>

theorem failed_file_moves_on:
  assumes "run_failed_ingest_retry fromiso cfg now now_iso calls s h = (e, s', h')" "failed_ingest_retry cfg" "store_inv s"
    and "smooth fromiso s calls" "readable fromiso s" "plain_names s"
    and "j \<in> set (list_jobs s)" "is_base_ingest j" "status j = FAILED" "source_path j \<noteq> ''''" "\<not> retry_excluded cfg (namespace j) (collection j)"
    and "latest (history_at fromiso (retry_key j) (list_jobs s)) = Some j"
  shows "attempts_used (history_at fromiso (retry_key j) (list_jobs s)) < retry_max_attempts cfg \<and>
      attempts_used (history_at fromiso (retry_key j) (list_jobs s)) < attempts_used (history_at fromiso (retry_key j) (list_jobs s')) \<and>
      (\<exists>r \<in> set (list_jobs s'). status r = PENDING \<and> retry_of fromiso (list_jobs s) j r) \<or>
    \<not> (\<exists>r \<in> set (list_jobs s'). is_base_ingest r \<and> status r = FAILED \<and> retry_key r = retry_key j)"
proof -
  let ?h = "history_at fromiso (retry_key j) (list_jobs s)" and ?c = "calls (job_id j)" and ?cut = "now - retry_max_age_hours cfg * hour_micros"
  obtain p1 p2 X Y where p: "retry_one fromiso cfg ?cut calls (list_jobs s) j p1 = (None, p2)" "readable fromiso (rp_store p1)"
    "store_inv (rp_store p1)" "retry_key j \<notin> rp_seen p1" "moves fromiso X (rp_store p2) s'" "rc_id ?c \<notin> X" "moves fromiso Y s s'"
    using pass_around [OF assms(1-7,11,12)] by blast
  note get' = list_jobs_get [OF movesD(1) [OF p(7)]]
  from retry_one_hits [OF p(2,3) assms(4) p(1,4) assms(8-12)]
  consider (retried) "attempts_used ?h < retry_max_attempts cfg" "dict_get (jobs (rp_store p2)) (rc_id ?c) = Some (retry_job ?c (attempts_used ?h + 1) j)"
    | (ended) "\<forall>y \<in> set (failed ?h). \<forall>r. dict_get (jobs (rp_store p2)) (job_id y) = Some r \<longrightarrow> status r \<noteq> FAILED" by blast
  then show ?thesis
  proof cases
    case retried
    have r: "dict_get (jobs s') (rc_id ?c) = Some (retry_job ?c (attempts_used ?h + 1) j)"
      using movesD(4) [OF p(5) retried(2) _ p(6)] by simp
    obtain seen where pi: "pass_inv fromiso cfg ?cut s seen s'"
      using run_failed_ingest_retry_pass [OF assms(1,3) smoothD(2) [OF assms(4)]] by blast
    have "attempts_used ?h + 1 \<le> attempts_used (history_at fromiso (retry_key j) (list_jobs s'))"
      by (rule attempts_after [OF pi assms(3,4) r refl assms(10)])
    moreover have "retry_job ?c (attempts_used ?h + 1) j \<in> set (list_jobs s')" using r get' by simp
    ultimately show ?thesis using retried(1) retry_of_job [of fromiso "list_jobs s" j ?c] by force
  next
    case ended
    have False if r: "r \<in> set (list_jobs s')" "is_base_ingest r" "status r = FAILED" "retry_key r = retry_key j" for r
    proof -
      have g: "dict_get (jobs s') (job_id r) = Some r" using r(1) get' by blast
      then have rs: "r \<in> set (list_jobs s)" using movesD(3) [OF p(7) g r(3)] list_jobs_get [OF assms(3)] by blast
      then have "source_path r \<noteq> ''''" using retry_key_plain [OF assms(6) rs assms(7) r(4)] assms(10) by simp
      then have "r \<in> set (failed ?h)" using r rs by (simp add: history_at_def failed_history set_key_jobs)
      then show False using movesD(3) [OF p(5) g r(3)] ended r(3) by blast
    qed
    then show ?thesis by blast
  qed
qed

section \<open>A pass at a concrete store\<close>

definition any_stamp :: "string \<Rightarrow> int option" where
  "any_stamp t = Some 0"

definition lost_file :: job where
  "lost_file =
     (new_ingest ''a'' ''t'' ''default'' ''user'' ''/d/x'' ''docs''
        (Some \<lparr>submitted_path = ''/d/x'', ingested_by = ''user'', chunk_ttl_seconds = None, chunk_scopes = None\<rparr>) 0)
       \<lparr>status := FAILED, error := Some ''ingest failed''\<rparr>"

definition lost_store :: job_store where
  "lost_store = \<lparr>jobs = [(''a'', lost_file)], jfile = No_file, crashed_ingest_on_load = False\<rparr>"

definition three_retries :: retry_config where
  "three_retries = \<lparr>failed_ingest_retry = True, retry_max_attempts = 3, retry_max_age_hours = 72, retry_exclude = []\<rparr>"

definition calm :: "string \<Rightarrow> retry_call" where
  "calm i = \<lparr>rc_id = CHR ''r'' # i, rc_now = ''t'', rc_write = \<lparr>at_time = 0, outcome = Persisted\<rparr>,
             rc_rewrite = \<lparr>at_time = 0, outcome = Persisted\<rparr>, rc_starts = True, rc_later = ''t''\<rparr>"

definition lost_pass :: "store_exc option \<times> job_store \<times> health" where
  "lost_pass = run_failed_ingest_retry any_stamp three_retries 0 ''t'' calm lost_store []"

abbreviation retried_store :: job_store where
  "retried_store \<equiv> fst (snd lost_pass)"

lemma lost_store_inv: "store_inv lost_store"
  by (simp add: store_inv_def jobs_wf_def dict_ok_def lost_store_def lost_file_def new_ingest_def base_job_def post_init_ok_def valid_ingest_sources_def)

lemma lost_fresh: "dict_get (jobs lost_store) (rc_id (calm i)) = None"
  by (simp add: lost_store_def calm_def)

lemma lost_run: "run_failed_ingest_retry any_stamp three_retries 0 ''t'' calm lost_store [] = (fst lost_pass, retried_store, snd (snd lost_pass))"
  by (simp add: lost_pass_def)

theorem retry_pass_is_justified_witness:
  "get ''ra'' lost_store = None \<and> get ''ra'' retried_store \<noteq> None \<and>
   entry_allowed any_stamp three_retries (0 - retry_max_age_hours three_retries * hour_micros) lost_store ''ra'' (the (get ''ra'' retried_store))"
proof -
  have n: "get ''ra'' lost_store = None" "get ''ra'' retried_store \<noteq> None" by code_simp+
  then have "get ''ra'' retried_store = Some (the (get ''ra'' retried_store))" by simp
  from retry_pass_is_justified [OF lost_run lost_store_inv lost_fresh this] n show ?thesis by blast
qed

theorem failed_file_moves_on_witness:
  "attempts_used (history_at any_stamp (retry_key lost_file) (list_jobs retried_store)) > 0 \<and>
   (\<exists>r \<in> set (list_jobs retried_store). status r = PENDING \<and> retry_of any_stamp (list_jobs lost_store) lost_file r)"
proof -
  have j: "lost_file \<in> set (list_jobs lost_store)" by (simp add: lost_store_def list_jobs_def dict_values_def)
  have sm: "smooth any_stamp lost_store calm" using lost_fresh by (auto simp: smooth_def calm_def any_stamp_def inj_def)
  have rd: "readable any_stamp lost_store" "plain_names lost_store"
    by (auto simp: readable_def any_stamp_def plain_names_def lost_store_def list_jobs_def dict_values_def lost_file_def new_ingest_def base_job_def)
  have "latest (history_at any_stamp (retry_key lost_file) (list_jobs lost_store)) = Some lost_file" by code_simp
  from failed_file_moves_on [OF lost_run _ lost_store_inv sm rd j _ _ _ _ this]
  have "attempts_used (history_at any_stamp (retry_key lost_file) (list_jobs lost_store)) <
      attempts_used (history_at any_stamp (retry_key lost_file) (list_jobs retried_store)) \<and>
      (\<exists>r \<in> set (list_jobs retried_store). status r = PENDING \<and> retry_of any_stamp (list_jobs lost_store) lost_file r)"
    if "\<exists>r \<in> set (list_jobs retried_store). is_base_ingest r \<and> status r = FAILED \<and> retry_key r = retry_key lost_file"
    using that by (auto simp: three_retries_def lost_file_def new_ingest_def base_job_def is_base_ingest_def retry_excluded_def)
  moreover have "\<exists>r \<in> set (list_jobs retried_store). is_base_ingest r \<and> status r = FAILED \<and> retry_key r = retry_key lost_file" by code_simp
  moreover have "attempts_used (history_at any_stamp (retry_key lost_file) (list_jobs lost_store)) = 0" by code_simp
  ultimately show ?thesis by simp
qed

end
