(* ===== verification/Single_Flight.thy ===== *)
theory Single_Flight
  imports Prelude
begin

text \<open>
  The background recomputations of \<open>archon_search/jobs/maintenance_loop.py\<close>: \<open>schedule_pagerank_recompute\<close> (and \<open>schedule_synonym_enrichment\<close>,
  which is the same code over another dictionary), the community rebuilds, and the loop that \<open>POST /maintenance/trigger\<close> wakes.

  A task that ended is \<open>done()\<close> at once, but its done-callback runs later: other code of the event loop can run in between.
  \<open>Ended\<close> is a task whose callback has still to run, \<open>Settled\<close> one whose callback did.
\<close>

section \<open>Tasks and their entries\<close>

datatype flight = Running | Ended | Settled

type_synonym graph_key = "string \<times> string"

record rebuild_state =
  st_task :: nat
  st_pending :: bool
  st_completed :: bool

record flights =
  fl_states :: "(graph_key, rebuild_state) dict"
  fl_tasks :: "(graph_key \<times> flight) list"

definition task_done :: "flights \<Rightarrow> nat \<Rightarrow> bool" where
  "task_done s t \<longleftrightarrow> snd (fl_tasks s ! t) \<noteq> Running"

definition spawn_task :: "graph_key \<Rightarrow> flights \<Rightarrow> flights" where
  "spawn_task k s =
     s\<lparr>fl_tasks := fl_tasks s @ [(k, Running)],
       fl_states := dict_set k \<lparr>st_task = length (fl_tasks s), st_pending = False, st_completed = False\<rparr> (fl_states s)\<rparr>"

definition set_phase :: "nat \<Rightarrow> flight \<Rightarrow> flights \<Rightarrow> flights" where
  "set_phase t ph s = s\<lparr>fl_tasks := (fl_tasks s)[t := (fst (fl_tasks s ! t), ph)]\<rparr>"

definition task_ends :: "nat \<Rightarrow> flights \<Rightarrow> flights" where
  "task_ends t s = set_phase t Ended s"

section \<open>Recomputations\<close>

definition schedule_recompute :: "graph_key \<Rightarrow> flights \<Rightarrow> flights" where
  "schedule_recompute k s =
     (case dict_get (fl_states s) k of
        None \<Rightarrow> spawn_task k s
      | Some e \<Rightarrow>
          (if \<not> task_done s (st_task e) then s\<lparr>fl_states := dict_set k (e\<lparr>st_pending := True\<rparr>) (fl_states s)\<rparr>
           else spawn_task k (s\<lparr>fl_states := dict_del k (fl_states s)\<rparr>)))"

definition on_recompute_done :: "nat \<Rightarrow> flights \<Rightarrow> flights" where
  "on_recompute_done t s0 =
     (let s = set_phase t Settled s0; k = fst (fl_tasks s0 ! t)
      in case dict_get (fl_states s) k of
           None \<Rightarrow> s
         | Some e \<Rightarrow>
             (if st_pending e
              then schedule_recompute k (s\<lparr>fl_states := dict_set k (e\<lparr>st_pending := False\<rparr>) (fl_states s)\<rparr>)
              else s\<lparr>fl_states := dict_del k (fl_states s)\<rparr>))"

definition no_flights :: flights where
  "no_flights = \<lparr>fl_states = [], fl_tasks = []\<rparr>"

abbreviation flying :: "flights \<Rightarrow> nat \<Rightarrow> flight \<Rightarrow> bool" where
  "flying s t ph \<equiv> t < length (fl_tasks s) \<and> snd (fl_tasks s ! t) = ph"

inductive recompute_step :: "flights \<Rightarrow> flights \<Rightarrow> bool" where
  rec_schedule: "recompute_step s (schedule_recompute k s)"
| rec_ends: "flying s t Running \<Longrightarrow> recompute_step s (task_ends t s)"
| rec_callback: "flying s t Ended \<Longrightarrow> recompute_step s (on_recompute_done t s)"

text \<open>The event loop runs the callback of an ended task before anything else happens.\<close>

inductive prompt_step :: "flights \<Rightarrow> flights \<Rightarrow> bool" where
  prompt_schedule: "\<forall>t. \<not> flying s t Ended \<Longrightarrow> prompt_step s (schedule_recompute k s)"
| prompt_ends: "\<forall>t. \<not> flying s t Ended \<Longrightarrow> flying s t Running \<Longrightarrow> prompt_step s (task_ends t s)"
| prompt_callback: "flying s t Ended \<Longrightarrow> prompt_step s (on_recompute_done t s)"

inductive_simps recompute_step_iff: "recompute_step s s'"
inductive_simps prompt_step_iff: "prompt_step s s'"

section \<open>Community rebuilds\<close>

definition gc_invalidated :: "graph_key \<Rightarrow> flights \<Rightarrow> flights" where
  "gc_invalidated k s =
     (case dict_get (fl_states s) k of
        None \<Rightarrow> spawn_task k s
      | Some e \<Rightarrow>
          (if \<not> task_done s (st_task e) then s\<lparr>fl_states := dict_set k (e\<lparr>st_pending := True\<rparr>) (fl_states s)\<rparr>
           else spawn_task k (s\<lparr>fl_states := dict_del k (fl_states s)\<rparr>)))"

definition on_rebuild_done :: "nat \<Rightarrow> flights \<Rightarrow> flights" where
  "on_rebuild_done t s0 =
     (let s = set_phase t Settled s0; k = fst (fl_tasks s0 ! t)
      in case dict_get (fl_states s) k of
           None \<Rightarrow> s
         | Some e \<Rightarrow>
             (if st_pending e then spawn_task k (s\<lparr>fl_states := dict_set k (e\<lparr>st_pending := False\<rparr>) (fl_states s)\<rparr>)
              else s\<lparr>fl_states := dict_set k (e\<lparr>st_completed := True\<rparr>) (fl_states s)\<rparr>))"

definition consume_completed_rebuild :: "graph_key \<Rightarrow> flights \<Rightarrow> bool \<times> flights" where
  "consume_completed_rebuild k s =
     (case dict_get (fl_states s) k of
        Some e \<Rightarrow> (if st_completed e then (True, s\<lparr>fl_states := dict_del k (fl_states s)\<rparr>) else (False, s))
      | None \<Rightarrow> (False, s))"

definition drain_communities_pending_rebuild :: "graph_key list \<Rightarrow> flights \<Rightarrow> flights" where
  "drain_communities_pending_rebuild ks s = fold spawn_task ks s"

inductive rebuild_step :: "flights \<Rightarrow> flights \<Rightarrow> bool" where
  reb_gc: "rebuild_step s (gc_invalidated k s)"
| reb_drain: "rebuild_step s (drain_communities_pending_rebuild ks s)"
| reb_consume: "rebuild_step s (snd (consume_completed_rebuild k s))"
| reb_ends: "flying s t Running \<Longrightarrow> rebuild_step s (task_ends t s)"
| reb_callback: "flying s t Ended \<Longrightarrow> rebuild_step s (on_rebuild_done t s)"

section \<open>The trigger\<close>

record trigger_loop =
  trigger_event :: bool
  in_pass :: bool
  passes :: nat

datatype trigger_answer = Triggered | Already_triggered

definition trigger_maintenance :: "trigger_loop \<Rightarrow> trigger_answer \<times> trigger_loop" where
  "trigger_maintenance s = (if trigger_event s then (Already_triggered, s) else (Triggered, s\<lparr>trigger_event := True\<rparr>))"

text \<open>The wait ends because the event is set or because the interval elapsed; then a pass runs; then the event is cleared.\<close>

inductive trigger_step :: "trigger_loop \<Rightarrow> trigger_loop \<Rightarrow> bool" where
  pass_begins: "\<not> in_pass s \<Longrightarrow> trigger_step s (s\<lparr>in_pass := True, passes := Suc (passes s)\<rparr>)"
| pass_ends: "in_pass s \<Longrightarrow> trigger_step s (s\<lparr>in_pass := False, trigger_event := False\<rparr>)"
| client_triggers: "trigger_step s (snd (trigger_maintenance s))"

section \<open>No request is lost\<close>

text \<open>An entry names a task of its key whose callback has still to run.\<close>

definition entries_live :: "flights \<Rightarrow> bool" where
  "entries_live s \<longleftrightarrow>
     (\<forall>k e. dict_get (fl_states s) k = Some e \<longrightarrow>
        st_task e < length (fl_tasks s) \<and> fst (fl_tasks s ! st_task e) = k \<and> snd (fl_tasks s ! st_task e) \<noteq> Settled)"

lemma spawn_live: "entries_live s \<Longrightarrow> entries_live (spawn_task k s)"
  unfolding entries_live_def spawn_task_def by (auto simp: nth_append split: if_splits) (meson less_SucI)

lemma del_live: "entries_live s \<Longrightarrow> entries_live (s\<lparr>fl_states := dict_del k (fl_states s)\<rparr>)"
  unfolding entries_live_def by (auto split: if_splits)

lemma flag_live:
  "entries_live s \<Longrightarrow> dict_get (fl_states s) k = Some e \<Longrightarrow> st_task e' = st_task e \<Longrightarrow>
   entries_live (s\<lparr>fl_states := dict_set k e' (fl_states s)\<rparr>)"
  unfolding entries_live_def by (auto split: if_splits)

lemma schedule_live: "entries_live s \<Longrightarrow> entries_live (schedule_recompute k s)"
  by (auto simp: schedule_recompute_def intro: spawn_live del_live flag_live split: option.splits)

lemma set_phase_sel:
  "fl_states (set_phase t ph s) = fl_states s" "length (fl_tasks (set_phase t ph s)) = length (fl_tasks s)"
  "fst (fl_tasks (set_phase t ph s) ! u) = fst (fl_tasks s ! u)"
  "u < length (fl_tasks s) \<Longrightarrow> snd (fl_tasks (set_phase t ph s) ! u) = (if u = t then ph else snd (fl_tasks s ! u))"
proof -
  show "fl_states (set_phase t ph s) = fl_states s" "length (fl_tasks (set_phase t ph s)) = length (fl_tasks s)"
    by (simp_all add: set_phase_def)
  show "fst (fl_tasks (set_phase t ph s) ! u) = fst (fl_tasks s ! u)"
    by (cases "u = t"; cases "t < length (fl_tasks s)") (simp_all add: set_phase_def list_update_beyond)
  show "u < length (fl_tasks s) \<Longrightarrow> snd (fl_tasks (set_phase t ph s) ! u) = (if u = t then ph else snd (fl_tasks s ! u))"
    by (simp add: set_phase_def)
qed

text \<open>A callback settles its task; the entry of its key goes, or names a task that is not settled.\<close>

lemma settled_live:
  assumes "entries_live s" "\<And>e. dict_get (fl_states s) (fst (fl_tasks s ! t)) = Some e \<Longrightarrow> st_task e \<noteq> t"
  shows "entries_live (set_phase t Settled s)"
  unfolding entries_live_def set_phase_sel
proof (intro allI impI conjI)
  fix k e assume "dict_get (fl_states s) k = Some e"
  then have "st_task e < length (fl_tasks s)" "fst (fl_tasks s ! st_task e) = k" "snd (fl_tasks s ! st_task e) \<noteq> Settled" "st_task e \<noteq> t"
    using assms unfolding entries_live_def by blast+
  then show "st_task e < length (fl_tasks s)" "fst (fl_tasks s ! st_task e) = k"
    "snd (fl_tasks (set_phase t Settled s) ! st_task e) \<noteq> Settled" by (simp_all add: set_phase_sel)
qed

lemma settled_del_live:
  assumes "entries_live s" "\<And>k. dict_get d k = (if k = fst (fl_tasks s ! t) then None else dict_get (fl_states s) k)"
  shows "entries_live (set_phase t Settled s\<lparr>fl_states := d\<rparr>)"
  unfolding entries_live_def
proof (intro allI impI)
  fix k e assume "dict_get (fl_states (set_phase t Settled s\<lparr>fl_states := d\<rparr>)) k = Some e"
  then have k: "k \<noteq> fst (fl_tasks s ! t)" "dict_get (fl_states s) k = Some e" using assms(2) [of k] by (auto split: if_splits)
  then have e: "st_task e < length (fl_tasks s)" "fst (fl_tasks s ! st_task e) = k" "snd (fl_tasks s ! st_task e) \<noteq> Settled"
    using assms(1) unfolding entries_live_def by blast+
  then have "st_task e \<noteq> t" using k(1) by auto
  then show "st_task e < length (fl_tasks (set_phase t Settled s\<lparr>fl_states := d\<rparr>)) \<and>
    fst (fl_tasks (set_phase t Settled s\<lparr>fl_states := d\<rparr>) ! st_task e) = k \<and>
    snd (fl_tasks (set_phase t Settled s\<lparr>fl_states := d\<rparr>) ! st_task e) \<noteq> Settled"
    using e by (simp add: set_phase_sel)
qed

lemma callback_live:
  assumes "entries_live s"
  shows "entries_live (on_recompute_done t s)"
proof -
  let ?k = "fst (fl_tasks s ! t)" and ?s = "set_phase t Settled s"
  consider (none) "dict_get (fl_states s) ?k = None" | (idle) e where "dict_get (fl_states s) ?k = Some e" "\<not> st_pending e"
    | (again) e where "dict_get (fl_states s) ?k = Some e" "st_pending e" by blast
  then show ?thesis
  proof cases
    case none
    have "entries_live ?s" by (rule settled_live [OF assms]) (use none in simp)
    then show ?thesis using none by (simp add: on_recompute_done_def Let_def set_phase_sel)
  next
    case idle
    then show ?thesis using settled_del_live [OF assms, of "dict_del ?k (fl_states s)"] by (simp add: on_recompute_done_def Let_def set_phase_sel)
  next
    case (again e)
    have e: "st_task e < length (fl_tasks s)" using assms again(1) unfolding entries_live_def by blast
    show ?thesis
    proof (cases "task_done ?s (st_task e)")
      case True
      have "entries_live (?s\<lparr>fl_states := dict_del ?k (dict_set ?k (e\<lparr>st_pending := False\<rparr>) (fl_states s))\<rparr>)"
        by (rule settled_del_live [OF assms]) simp
      from spawn_live [OF this, of ?k] show ?thesis
        using True again by (simp add: on_recompute_done_def Let_def set_phase_sel schedule_recompute_def task_done_def)
    next
      case False
      then have "st_task e \<noteq> t" using e by (auto simp: task_done_def set_phase_sel)
      then have "entries_live ?s" by (intro settled_live [OF assms]) (use again(1) in auto)
      then have "entries_live (?s\<lparr>fl_states := dict_set ?k (e\<lparr>st_pending := False\<rparr>) (fl_states s)\<rparr>)"
        using flag_live [of ?s ?k e "e\<lparr>st_pending := False\<rparr>"] again(1) by (simp add: set_phase_sel)
      then show ?thesis using again schedule_live by (simp add: on_recompute_done_def Let_def set_phase_sel)
    qed
  qed
qed

lemma ends_live: "entries_live s \<Longrightarrow> entries_live (task_ends t s)"
  unfolding entries_live_def task_ends_def by (auto simp: set_phase_sel)

interpretation recomputes: machine_invariant "\<lambda>s. s = no_flights" recompute_step entries_live
proof unfold_locales
  show "entries_live s" if "s = no_flights" for s using that by (simp add: entries_live_def no_flights_def dict_get_def)
  show "entries_live t" if "entries_live s" "recompute_step s t" for s t
    using that by (auto simp: recompute_step_iff intro: schedule_live ends_live callback_live)
qed

lemma spawned_runs: "\<exists>t. length (fl_tasks s) \<le> t \<and> t < length (fl_tasks (spawn_task k s)) \<and> fl_tasks (spawn_task k s) ! t = (k, Running)"
  by (intro exI [of _ "length (fl_tasks s)"]) (simp add: spawn_task_def)

lemma spawn_other: "k' \<noteq> k \<Longrightarrow> dict_get (fl_states (spawn_task k' s)) k = dict_get (fl_states s) k"
  by (simp add: spawn_task_def)

lemma schedule_other: "k' \<noteq> k \<Longrightarrow> dict_get (fl_states (schedule_recompute k' s)) k = dict_get (fl_states s) k"
  by (auto simp: schedule_recompute_def spawn_other split: option.splits)

lemma callback_other: "fst (fl_tasks s ! t) \<noteq> k \<Longrightarrow> dict_get (fl_states (on_recompute_done t s)) k = dict_get (fl_states s) k"
  by (auto simp: on_recompute_done_def Let_def schedule_other set_phase_sel split: option.splits)

text \<open>A request is recorded on the entry of its key, which names a task of that key whose callback has still to run; or a task starts.\<close>

definition recorded :: "graph_key \<Rightarrow> nat \<Rightarrow> flights \<Rightarrow> bool" where
  "recorded k t s \<longleftrightarrow>
     (\<exists>e. dict_get (fl_states s) k = Some e \<and> st_pending e \<and> st_task e = t) \<and>
     t < length (fl_tasks s) \<and> fst (fl_tasks s ! t) = k \<and> snd (fl_tasks s ! t) \<noteq> Settled"

definition started :: "graph_key \<Rightarrow> flights \<Rightarrow> flights \<Rightarrow> bool" where
  "started k s s' \<longleftrightarrow> (\<exists>u. length (fl_tasks s) \<le> u \<and> u < length (fl_tasks s') \<and> fl_tasks s' ! u = (k, Running))"

lemma recordedI:
  "entries_live s \<Longrightarrow> dict_get (fl_states s) k = Some e \<Longrightarrow> st_pending e \<Longrightarrow> recorded k (st_task e) s"
  unfolding recorded_def entries_live_def by blast

lemma schedule_served:
  assumes "dict_get (fl_states s) k = Some e"
  shows "(\<exists>e'. dict_get (fl_states (schedule_recompute k s)) k = Some e' \<and> st_pending e' \<and> st_task e' = st_task e) \<or>
    started k s (schedule_recompute k s)"
proof (cases "task_done s (st_task e)")
  case True
  then show ?thesis using assms spawned_runs [of "s\<lparr>fl_states := dict_del k (fl_states s)\<rparr>" k]
    by (simp add: schedule_recompute_def started_def)
next
  case False
  then show ?thesis using assms by (simp add: schedule_recompute_def)
qed

lemma request_recorded_or_started:
  assumes "entries_live s"
  shows "(\<exists>t. recorded k t (schedule_recompute k s)) \<or> started k s (schedule_recompute k s)"
proof (cases "dict_get (fl_states s) k")
  case None
  then show ?thesis using spawned_runs [of s k] by (simp add: schedule_recompute_def started_def)
next
  case (Some e)
  then show ?thesis using schedule_served recordedI [OF schedule_live [OF assms]] by blast
qed

lemma callback_served:
  assumes "dict_get (fl_states s) k = Some e" "st_pending e" "fst (fl_tasks s ! t) = k"
  shows "(\<exists>e'. dict_get (fl_states (on_recompute_done t s)) k = Some e' \<and> st_pending e' \<and> st_task e' = st_task e) \<or>
    started k s (on_recompute_done t s)"
  using schedule_served [of "set_phase t Settled s\<lparr>fl_states := dict_set k (e\<lparr>st_pending := False\<rparr>) (fl_states s)\<rparr>" k "e\<lparr>st_pending := False\<rparr>"] assms
  by (simp add: on_recompute_done_def Let_def set_phase_sel started_def)

lemma recorded_step:
  assumes "entries_live s" "recorded k t s" "recompute_step s s'"
  shows "recorded k t s' \<or> started k s s'"
proof -
  obtain e where e: "dict_get (fl_states s) k = Some e" "st_pending e" "st_task e = t" using assms(2) unfolding recorded_def by blast
  have live: "entries_live s'" using recomputes.inv_step [OF assms(1,3)] .
  have kept: "recorded k t s'" if "dict_get (fl_states s') k = dict_get (fl_states s) k"
    using recordedI [OF live, of k e] that e by simp
  have again: ?thesis if "(\<exists>e'. dict_get (fl_states s') k = Some e' \<and> st_pending e' \<and> st_task e' = st_task e) \<or> started k s s'"
    using recordedI [OF live, of k] that e(3) by auto
  show ?thesis using assms(3)
  proof cases
    case (rec_schedule k')
    then show ?thesis using again schedule_served [OF e(1)] kept schedule_other by (cases "k' = k") auto
  next
    case (rec_ends u)
    then show ?thesis using kept by (simp add: task_ends_def set_phase_sel)
  next
    case (rec_callback u)
    then show ?thesis using again callback_served [OF e(1,2)] kept callback_other by (cases "fst (fl_tasks s ! u) = k") auto
  qed
qed

text \<open>Tasks are only added, and keep their key.\<close>

definition tasks_grow :: "flights \<Rightarrow> flights \<Rightarrow> bool" where
  "tasks_grow s s' \<longleftrightarrow>
     length (fl_tasks s) \<le> length (fl_tasks s') \<and> (\<forall>t < length (fl_tasks s). fst (fl_tasks s' ! t) = fst (fl_tasks s ! t))"

lemma tasks_grow_trans: "tasks_grow s s' \<Longrightarrow> tasks_grow s' s'' \<Longrightarrow> tasks_grow s s''"
  by (auto simp: tasks_grow_def)

lemma schedule_grows: "tasks_grow s (schedule_recompute k s)"
  by (auto simp: tasks_grow_def schedule_recompute_def spawn_task_def nth_append split: option.split)

lemma step_grows: "recompute_step s s' \<Longrightarrow> tasks_grow s s'"
proof (induction rule: recompute_step.induct)
  case (rec_schedule s k)
  then show ?case by (rule schedule_grows)
next
  case (rec_ends s t)
  then show ?case by (simp add: tasks_grow_def task_ends_def set_phase_sel)
next
  case (rec_callback s t)
  have phase: "tasks_grow s (set_phase t Settled s\<lparr>fl_states := d\<rparr>)" for d by (simp add: tasks_grow_def set_phase_sel)
  then have "tasks_grow s (set_phase t Settled s)" by (simp add: tasks_grow_def)
  then show ?case using phase tasks_grow_trans [OF phase schedule_grows]
    by (auto simp: on_recompute_done_def Let_def split: option.split)
qed

lemma run_grows: "recompute_step\<^sup>*\<^sup>* s s' \<Longrightarrow> tasks_grow s s'"
  by (induction rule: rtranclp_induct) (auto simp: tasks_grow_def dest!: step_grows)

text \<open>A task of the key that started since \<open>s\<close>, whatever became of it.\<close>

definition followed :: "graph_key \<Rightarrow> flights \<Rightarrow> flights \<Rightarrow> bool" where
  "followed k s s' \<longleftrightarrow> (\<exists>u. length (fl_tasks s) \<le> u \<and> u < length (fl_tasks s') \<and> fst (fl_tasks s' ! u) = k)"

lemma followed_grows: "followed k s s' \<Longrightarrow> tasks_grow s' s'' \<Longrightarrow> followed k s s''"
  unfolding followed_def tasks_grow_def by (metis order_less_le_trans)

lemma started_followed: "started k s' s'' \<Longrightarrow> length (fl_tasks s) \<le> length (fl_tasks s') \<Longrightarrow> followed k s s''"
  unfolding started_def followed_def by (metis fst_conv order_trans)

lemma recorded_run:
  assumes "recompute_step\<^sup>*\<^sup>* s s'" "entries_live s" "recorded k t s"
  shows "recorded k t s' \<or> followed k s s'"
  using assms(1)
proof (induction rule: rtranclp_induct)
  case (step y z)
  have "entries_live y" using step.hyps(1) by (induction rule: rtranclp_induct) (auto intro: assms(2) recomputes.inv_step)
  moreover have "length (fl_tasks s) \<le> length (fl_tasks y)" using run_grows [OF step.hyps(1)] by (simp add: tasks_grow_def)
  ultimately show ?case
    using step.IH recorded_step [OF _ _ step.hyps(2)] started_followed followed_grows [OF _ step_grows [OF step.hyps(2)]] by blast
qed (use assms(3) in blast)

text \<open>
  C30: No request for a recomputation is lost, in whatever order requests, ends of tasks and done-callbacks come. In every reachable state a request
  either starts a task of its key, or is recorded on the entry of its key, which names a task of that key whose callback has still to
  run. A recorded request stays recorded on that task or a task of the key is started, at every step. So, after a request, once the callbacks of all
  tasks that were there at the request have run, a task of the key has been started since the request.
\<close>

theorem deferred_request_is_kept:
  assumes "reachable (\<lambda>s. s = no_flights) recompute_step s"
  shows "((\<exists>t. recorded k t (schedule_recompute k s)) \<or> started k s (schedule_recompute k s)) \<and>
    (\<forall>t s'. recorded k t s \<longrightarrow> recompute_step s s' \<longrightarrow> recorded k t s' \<or> started k s s') \<and>
    (\<forall>s'. recompute_step\<^sup>*\<^sup>* (schedule_recompute k s) s' \<longrightarrow> (\<forall>t < length (fl_tasks s). snd (fl_tasks s' ! t) = Settled) \<longrightarrow> followed k s s')"
proof (intro conjI allI impI)
  let ?r = "schedule_recompute k s"
  have live: "entries_live s" using recomputes.inv_reachable assms .
  show first: "(\<exists>t. recorded k t ?r) \<or> started k s ?r" by (rule request_recorded_or_started [OF live])
  show "recorded k t s' \<or> started k s s'" if "recorded k t s" "recompute_step s s'" for t s' by (rule recorded_step [OF live that])
  fix s' assume run: "recompute_step\<^sup>*\<^sup>* ?r s'" and over: "\<forall>t < length (fl_tasks s). snd (fl_tasks s' ! t) = Settled"
  show "followed k s s'"
  proof (cases "started k s ?r")
    case True
    then show ?thesis using started_followed [of k s ?r s] followed_grows run_grows [OF run] by blast
  next
    case False
    then obtain t where t: "recorded k t ?r" using first by blast
    have grow: "length (fl_tasks s) \<le> length (fl_tasks ?r)" using schedule_grows [of s k] by (simp add: tasks_grow_def)
    consider "recorded k t s'" | "followed k ?r s'" using recorded_run [OF run schedule_live [OF live] t] by blast
    then show ?thesis
    proof cases
      case 1
      then have "t < length (fl_tasks s')" "fst (fl_tasks s' ! t) = k" "\<not> t < length (fl_tasks s)" using over by (auto simp: recorded_def)
      then show ?thesis unfolding followed_def using leI by blast
    next
      case 2
      then show ?thesis using grow unfolding followed_def by (metis order_trans)
    qed
  qed
qed

section \<open>One at a time\<close>

text \<open>Every task that is not settled is the one its key's entry names.\<close>

definition one_flight :: "flights \<Rightarrow> bool" where
  "one_flight s \<longleftrightarrow>
     (\<forall>t < length (fl_tasks s). snd (fl_tasks s ! t) \<noteq> Settled \<longrightarrow>
        (\<exists>e. dict_get (fl_states s) (fst (fl_tasks s ! t)) = Some e \<and> st_task e = t))"

lemma spawn_one_flight:
  assumes "one_flight s" "\<forall>t < length (fl_tasks s). fst (fl_tasks s ! t) = k \<longrightarrow> snd (fl_tasks s ! t) = Settled"
  shows "one_flight (spawn_task k s)"
  unfolding one_flight_def
proof (intro allI impI)
  fix t assume t: "t < length (fl_tasks (spawn_task k s))" "snd (fl_tasks (spawn_task k s) ! t) \<noteq> Settled"
  show "\<exists>e. dict_get (fl_states (spawn_task k s)) (fst (fl_tasks (spawn_task k s) ! t)) = Some e \<and> st_task e = t"
  proof (cases "t = length (fl_tasks s)")
    case False
    then have l: "t < length (fl_tasks s)" "fl_tasks (spawn_task k s) ! t = fl_tasks s ! t" using t(1) by (simp_all add: spawn_task_def nth_append)
    then have "fst (fl_tasks s ! t) \<noteq> k" using assms(2) t(2) by auto
    then have "dict_get (fl_states (spawn_task k s)) (fst (fl_tasks s ! t)) = dict_get (fl_states s) (fst (fl_tasks s ! t))"
      by (intro spawn_other) simp
    then show ?thesis using assms(1) l t(2) unfolding one_flight_def by simp
  qed (simp add: spawn_task_def)
qed

lemma del_one_flight:
  assumes "one_flight s" "\<forall>t < length (fl_tasks s). fst (fl_tasks s ! t) = k \<longrightarrow> snd (fl_tasks s ! t) = Settled"
  shows "one_flight (s\<lparr>fl_states := dict_del k (fl_states s)\<rparr>)"
  unfolding one_flight_def
proof (intro allI impI)
  fix t assume t: "t < length (fl_tasks (s\<lparr>fl_states := dict_del k (fl_states s)\<rparr>))"
    "snd (fl_tasks (s\<lparr>fl_states := dict_del k (fl_states s)\<rparr>) ! t) \<noteq> Settled"
  then have "fst (fl_tasks s ! t) \<noteq> k" using assms(2) by auto
  then show "\<exists>e. dict_get (fl_states (s\<lparr>fl_states := dict_del k (fl_states s)\<rparr>))
      (fst (fl_tasks (s\<lparr>fl_states := dict_del k (fl_states s)\<rparr>) ! t)) = Some e \<and> st_task e = t"
    using t assms(1) unfolding one_flight_def by simp
qed

lemma flag_one_flight:
  assumes "one_flight s" "dict_get (fl_states s) k = Some e" "st_task e' = st_task e"
  shows "one_flight (s\<lparr>fl_states := dict_set k e' (fl_states s)\<rparr>)"
  unfolding one_flight_def
proof (intro allI impI)
  fix t assume t: "t < length (fl_tasks (s\<lparr>fl_states := dict_set k e' (fl_states s)\<rparr>))"
    "snd (fl_tasks (s\<lparr>fl_states := dict_set k e' (fl_states s)\<rparr>) ! t) \<noteq> Settled"
  then obtain i where i: "dict_get (fl_states s) (fst (fl_tasks s ! t)) = Some i" "st_task i = t"
    using assms(1) unfolding one_flight_def by auto
  then show "\<exists>e. dict_get (fl_states (s\<lparr>fl_states := dict_set k e' (fl_states s)\<rparr>))
      (fst (fl_tasks (s\<lparr>fl_states := dict_set k e' (fl_states s)\<rparr>) ! t)) = Some e \<and> st_task e = t"
    using assms(2,3) by (cases "fst (fl_tasks s ! t) = k") simp_all
qed

lemma phase_one_flight: "one_flight s \<Longrightarrow> (ph \<noteq> Settled \<longrightarrow> snd (fl_tasks s ! t) \<noteq> Settled) \<Longrightarrow> one_flight (set_phase t ph s)"
  unfolding one_flight_def set_phase_sel by (auto simp: set_phase_sel split: if_splits)

lemma schedule_one_flight:
  assumes "one_flight s" "entries_live s" "\<forall>t. \<not> flying s t Ended"
  shows "one_flight (schedule_recompute k s)"
proof (cases "dict_get (fl_states s) k")
  case None
  have "one_flight (spawn_task k s)"
    by (rule spawn_one_flight [OF assms(1)]) (use assms(1) None in \<open>auto simp: one_flight_def\<close>)
  then show ?thesis using None by (simp add: schedule_recompute_def)
next
  case (Some e)
  then have "st_task e < length (fl_tasks s)" "snd (fl_tasks s ! st_task e) \<noteq> Settled" using assms(2) unfolding entries_live_def by blast+
  then have "\<not> task_done s (st_task e)" using assms(3) by (cases "snd (fl_tasks s ! st_task e)") (auto simp: task_done_def)
  then show ?thesis using Some flag_one_flight [OF assms(1) Some, of "e\<lparr>st_pending := True\<rparr>"] by (simp add: schedule_recompute_def)
qed

lemma callback_one_flight:
  assumes "one_flight s" "flying s t Ended"
  shows "one_flight (on_recompute_done t s)"
proof -
  let ?k = "fst (fl_tasks s ! t)" and ?s = "set_phase t Settled s"
  obtain e where e: "dict_get (fl_states s) ?k = Some e" "st_task e = t" using assms unfolding one_flight_def by force
  have all: "snd (fl_tasks ?s ! u) = Settled" if "u < length (fl_tasks s)" "fst (fl_tasks s ! u) = ?k" for u
    using that assms(1) e unfolding one_flight_def by (auto simp: set_phase_sel)
  have one: "one_flight ?s" by (rule phase_one_flight [OF assms(1)]) simp
  have del: "one_flight (?s\<lparr>fl_states := dict_del ?k (fl_states s)\<rparr>)"
    using del_one_flight [OF one, of ?k] all by (simp add: set_phase_sel)
  let ?f = "?s\<lparr>fl_states := dict_set ?k (e\<lparr>st_pending := False\<rparr>) (fl_states s)\<rparr>"
  have "one_flight ?f" using flag_one_flight [OF one, of ?k e "e\<lparr>st_pending := False\<rparr>"] e by (simp add: set_phase_sel)
  then have "one_flight (?f\<lparr>fl_states := dict_del ?k (fl_states ?f)\<rparr>)" by (rule del_one_flight) (use all in \<open>simp add: set_phase_sel\<close>)
  then have "one_flight (spawn_task ?k (?f\<lparr>fl_states := dict_del ?k (fl_states ?f)\<rparr>))"
    by (rule spawn_one_flight) (use all in \<open>simp add: set_phase_sel\<close>)
  moreover have "task_done ?f t" using assms(2) by (simp add: task_done_def set_phase_sel)
  ultimately have "one_flight (schedule_recompute ?k ?f)" using e by (simp add: schedule_recompute_def)
  then show ?thesis using e del by (simp add: on_recompute_done_def Let_def set_phase_sel)
qed

interpretation prompt_recomputes: machine_invariant "\<lambda>s. s = no_flights" prompt_step "\<lambda>s. one_flight s \<and> entries_live s"
proof unfold_locales
  show "one_flight s \<and> entries_live s" if "s = no_flights" for s
    using that by (simp add: one_flight_def entries_live_def no_flights_def dict_get_def)
  show "one_flight t \<and> entries_live t" if "one_flight s \<and> entries_live s" "prompt_step s t" for s t
    using that
    by (auto simp: prompt_step_iff task_ends_def intro: schedule_one_flight callback_one_flight phase_one_flight schedule_live ends_live [unfolded task_ends_def] callback_live)
qed

text \<open>
  One recomputation per collection at a time, provided that done-callbacks run as soon as their task ended: in every state reachable then, two
  running recomputations of the same namespace and collection are the same task.
\<close>

lemma one_recompute_at_a_time:
  assumes "reachable (\<lambda>s. s = no_flights) prompt_step s" "flying s t Running" "flying s u Running" "fst (fl_tasks s ! t) = fst (fl_tasks s ! u)"
  shows "t = u"
proof -
  have "one_flight s" using prompt_recomputes.inv_reachable [OF assms(1)] by blast
  then obtain e e' where "dict_get (fl_states s) (fst (fl_tasks s ! t)) = Some e" "st_task e = t"
    "dict_get (fl_states s) (fst (fl_tasks s ! u)) = Some e'" "st_task e' = u"
    using assms(2,3) unfolding one_flight_def by (metis flight.distinct(3))
  then show ?thesis using assms(4) by simp
qed

section \<open>Runs\<close>

abbreviation docs_key :: graph_key where
  "docs_key \<equiv> (''default'', ''docs'')"

definition recompute_deferred :: flights where
  "recompute_deferred = schedule_recompute docs_key (schedule_recompute docs_key no_flights)"

abbreviation recomputed :: "flights \<Rightarrow> bool" where
  "recomputed \<equiv> reachable (\<lambda>s. s = no_flights) recompute_step"

lemma recompute_reach:
  assumes "recomputed s"
  shows "recomputed (schedule_recompute k s)" "flying s t Running \<Longrightarrow> recomputed (task_ends t s)"
    "flying s t Ended \<Longrightarrow> recomputed (on_recompute_done t s)"
  by (blast intro: reach_step [OF assms] rec_schedule rec_ends rec_callback)+

lemma start_reach: "recomputed no_flights"
  by (rule reach_init) simp

lemma recompute_deferred_reached: "recomputed recompute_deferred"
  unfolding recompute_deferred_def by (intro recompute_reach(1) start_reach)

lemma recompute_deferred_prompt: "reachable (\<lambda>s. s = no_flights) prompt_step recompute_deferred"
proof -
  have "reachable (\<lambda>s. s = no_flights) prompt_step no_flights" by (rule reach_init) simp
  moreover have "prompt_step no_flights (schedule_recompute docs_key no_flights)"
    by (rule prompt_schedule) (simp add: no_flights_def)
  ultimately have r: "reachable (\<lambda>s. s = no_flights) prompt_step (schedule_recompute docs_key no_flights)" by (rule reach_step)
  have "prompt_step (schedule_recompute docs_key no_flights) recompute_deferred"
    unfolding recompute_deferred_def
    by (rule prompt_schedule) (auto simp: no_flights_def schedule_recompute_def spawn_task_def dict_get_def)
  with r show ?thesis by (rule reach_step)
qed

text \<open>The second request waits for the first task; the callback of that task starts the second.\<close>

definition recompute_repeated :: flights where
  "recompute_repeated = on_recompute_done 0 (task_ends 0 recompute_deferred)"

lemma recompute_repeated_run: "recompute_step\<^sup>*\<^sup>* recompute_deferred recompute_repeated"
proof -
  have f: "flying recompute_deferred 0 Running" "flying (task_ends 0 recompute_deferred) 0 Ended" by code_simp+
  have "recompute_step\<^sup>*\<^sup>* recompute_deferred (task_ends 0 recompute_deferred)" using rec_ends [OF f(1)] by blast
  then show ?thesis unfolding recompute_repeated_def by (rule rtranclp.rtrancl_into_rtrancl) (rule rec_callback [OF f(2)])
qed

theorem deferred_request_is_kept_witness:
  "recorded docs_key 0 recompute_deferred \<and> followed docs_key (schedule_recompute docs_key no_flights) recompute_repeated"
proof -
  let ?s = "schedule_recompute docs_key no_flights"
  note kept = deferred_request_is_kept [OF recompute_reach(1) [OF start_reach, of docs_key], of docs_key]
  have "length (fl_tasks ?s) = 1" "length (fl_tasks (schedule_recompute docs_key ?s)) = 1" by code_simp+
  then have "\<not> started docs_key ?s (schedule_recompute docs_key ?s)" by (simp add: started_def)
  then obtain t where "recorded docs_key t recompute_deferred" using kept [THEN conjunct1] unfolding recompute_deferred_def by blast
  moreover have "length (fl_tasks recompute_deferred) = 1" by code_simp
  ultimately have "recorded docs_key 0 recompute_deferred" by (cases "t = 0") (simp_all add: recorded_def)
  moreover have "length (fl_tasks ?s) = 1" "snd (fl_tasks recompute_repeated ! 0) = Settled" by code_simp+
  then have "followed docs_key ?s recompute_repeated"
    using kept [THEN conjunct2, THEN conjunct2] recompute_repeated_run unfolding recompute_deferred_def by simp
  ultimately show ?thesis by blast
qed

theorem one_recompute_at_a_time_witness:
  "{t. flying recompute_deferred t Running \<and> fst (fl_tasks recompute_deferred ! t) = docs_key} = {0}"
proof -
  have f: "flying recompute_deferred 0 Running" "fst (fl_tasks recompute_deferred ! 0) = docs_key" by code_simp+
  then have "t = 0" if "flying recompute_deferred t Running" "fst (fl_tasks recompute_deferred ! t) = docs_key" for t
    using one_recompute_at_a_time [OF recompute_deferred_prompt that(1) f(1)] that(2) by simp
  then show ?thesis using f by blast
qed

text \<open>
  Without that proviso the done-callback of an old task removes the entry of the next one: a request that comes between the end of a
  task and its callback starts a second task, the callback forgets it, and the next request starts a third beside it.
\<close>

definition forgotten :: flights where
  "forgotten = on_recompute_done 0 (schedule_recompute docs_key (task_ends 0 (schedule_recompute docs_key no_flights)))"

definition twice :: flights where
  "twice = schedule_recompute docs_key forgotten"

lemma two_recomputes_run:
  "recomputed twice \<and> flying twice 1 Running \<and> flying twice 2 Running \<and>
   fst (fl_tasks twice ! 1) = fst (fl_tasks twice ! 2)"
proof -
  have f: "flying (schedule_recompute docs_key no_flights) 0 Running"
    "flying (schedule_recompute docs_key (task_ends 0 (schedule_recompute docs_key no_flights))) 0 Ended" by code_simp+
  have "recomputed twice" unfolding twice_def forgotten_def
    by (intro recompute_reach(1) recompute_reach(3) [OF _ f(2)] recompute_reach(2) [OF _ f(1)] start_reach)
  moreover have "flying twice 1 Running" "flying twice 2 Running" "fst (fl_tasks twice ! 1) = fst (fl_tasks twice ! 2)" by code_simp+
  ultimately show ?thesis by blast
qed

text \<open>The drain after a synonym enrichment does not look for a rebuild in flight.\<close>

lemma drain_starts_second_rebuild:
  "flying (drain_communities_pending_rebuild [docs_key] (gc_invalidated docs_key no_flights)) 0 Running \<and>
   flying (drain_communities_pending_rebuild [docs_key] (gc_invalidated docs_key no_flights)) 1 Running"
  by code_simp

text \<open>A trigger that arrives during a scheduled pass is answered as accepted, cleared when the pass ends, and starts nothing.\<close>

lemma trigger_during_pass_is_lost:
  assumes "in_pass s" "\<not> trigger_event s"
  shows "fst (trigger_maintenance s) = Triggered \<and>
    (snd (trigger_maintenance s))\<lparr>in_pass := False, trigger_event := False\<rparr> = s\<lparr>in_pass := False, trigger_event := False\<rparr>"
  using assms by (simp add: trigger_maintenance_def)

end
