(* ===== verification/Warmup_Admission.thy ===== *)
theory Warmup_Admission
  imports Prelude
begin

text \<open>
  Two small guards: \<open>warmup_coordinator.py\<close>, which keeps one build of a model in flight, and \<open>server/_ingest_admission.py\<close>, which bounds the ingest jobs
  that requests may have running.
\<close>

section \<open>\<open>WarmupCoordinator\<close>\<close>

text \<open>
  The builds by number. A build is a task on an event loop and a thread of \<open>asyncio.to_thread\<close> that loads the model. The task ends when the thread
  did, or at its ceiling \<open>WARMUP_TIMEOUT_SECONDS\<close>, and a task of another loop is cancelled when it is replaced; the thread cannot be cancelled and runs on
  in the last two cases. A task that ended is \<open>done()\<close> before its callback \<open>_on_build_done\<close> runs.
\<close>

datatype build_outcome = Built | Build_raised | Past_ceiling
datatype build_phase = Building | Build_ended build_outcome | Build_settled build_outcome | Build_cancelled

record warm_build =
  b_loop :: nat
  b_phase :: build_phase
  b_thread :: bool

record coordinator =
  is_warm :: bool
  w_loop :: "nat option"
  w_task :: "nat option"
  w_waiters :: int
  builds :: "warm_build list"
  logged_failures :: "nat list"

definition build_done :: "coordinator \<Rightarrow> nat \<Rightarrow> bool" where
  "build_done s t \<longleftrightarrow> b_phase (builds s ! t) \<noteq> Building"

definition set_build :: "nat \<Rightarrow> build_phase \<Rightarrow> coordinator \<Rightarrow> coordinator" where
  "set_build t ph s = s\<lparr>builds := (builds s)[t := (builds s ! t)\<lparr>b_phase := ph\<rparr>]\<rparr>"

definition drop_task_of_another_loop :: "nat \<Rightarrow> coordinator \<Rightarrow> coordinator" where
  "drop_task_of_another_loop lp s =
     (if w_loop s \<noteq> Some lp
      then (case w_task s of
              Some t \<Rightarrow> if build_done s t then s else set_build t Build_cancelled s
            | None \<Rightarrow> s)\<lparr>w_task := None, w_loop := Some lp\<rparr>
      else s)"

definition run_build :: "nat \<Rightarrow> coordinator \<Rightarrow> coordinator" where
  "run_build lp s =
     s\<lparr>builds := builds s @ [\<lparr>b_loop = lp, b_phase = Building, b_thread = True\<rparr>], w_task := Some (length (builds s))\<rparr>"

definition wait_begins :: "coordinator \<Rightarrow> coordinator" where
  "wait_begins s = s\<lparr>w_waiters := w_waiters s + 1\<rparr>"

text \<open>\<open>warmup()\<close> up to its wait; \<open>None\<close> when the model is warm, else the build the caller waits for.\<close>

definition warmup :: "nat \<Rightarrow> coordinator \<Rightarrow> nat option \<times> coordinator" where
  "warmup lp s0 =
     (if is_warm s0 then (None, s0)
      else let s = drop_task_of_another_loop lp s0
           in case w_task s of
                Some t \<Rightarrow>
                  (if build_done s t
                   then (Some (length (builds s)), wait_begins (run_build lp s))
                   else (Some t, wait_begins s))
              | None \<Rightarrow> (Some (length (builds s)), wait_begins (run_build lp s)))"



definition build_ends :: "build_outcome \<Rightarrow> nat \<Rightarrow> coordinator \<Rightarrow> coordinator" where
  "build_ends outcome t s = set_build t (Build_ended outcome) s"

text \<open>\<open>_on_build_done\<close>, for a task that was not cancelled: a failure that no caller waits for is logged.\<close>

definition on_build_done :: "build_outcome \<Rightarrow> nat \<Rightarrow> coordinator \<Rightarrow> coordinator" where
  "on_build_done outcome t s =
     (set_build t (Build_settled outcome) s)
       \<lparr>w_task := (if w_task s = Some t then None else w_task s),
        logged_failures := (if outcome \<noteq> Built \<and> w_waiters s = 0 then logged_failures s @ [t] else logged_failures s)\<rparr>"

definition cold :: coordinator where
  "cold = \<lparr>is_warm = False, w_loop = None, w_task = None, w_waiters = 0, builds = [], logged_failures = []\<rparr>"




text \<open>A build whose task is over although its thread may run: cancelled, or past its ceiling.\<close>

definition left_behind :: "warm_build \<Rightarrow> bool" where
  "left_behind b \<longleftrightarrow> b_phase b \<in> {Build_cancelled, Build_ended Past_ceiling, Build_settled Past_ceiling}"























text \<open>A build outruns its ceiling; its callback runs; the next caller starts a build, and the thread of the first runs beside it.\<close>

definition after_ceiling :: coordinator where
  "after_ceiling = snd (warmup 7 (on_build_done Past_ceiling 0 (build_ends Past_ceiling 0 (snd (warmup 7 cold)))))"


lemma two_threads_after_ceiling: "b_thread (builds after_ceiling ! 0) \<and> left_behind (builds after_ceiling ! 0) \<and> b_thread (builds after_ceiling ! 1)"
  by code_simp


section \<open>\<open>IngestAdmission\<close>\<close>

text \<open>
  The slots by number: whether the slot still counts (\<open>_admission\<close> is not \<open>None\<close>) and whether a task took it over. A request that got a slot starts a
  task with it (\<open>_track_background_task\<close>) or not, and ends with \<open>release_unless_attached\<close>; the task's done-callback releases the slot,
  and may do so before or after the request ended.
\<close>

datatype request_phase = In_request | Request_ended
datatype slot_task = No_slot_task | Slot_task_runs | Slot_task_ended

record ingest_slot =
  counted :: bool
  attached :: bool
  slot_request :: request_phase
  slot_task :: slot_task

record admission =
  active :: int
  slots :: "ingest_slot list"

definition reserve :: "int \<Rightarrow> admission \<Rightarrow> nat option \<times> admission" where
  "reserve limit a =
     (if limit \<le> active a then (None, a)
      else (Some (length (slots a)),
            a\<lparr>active := active a + 1,
              slots := slots a @ [\<lparr>counted = True, attached = False, slot_request = In_request, slot_task = No_slot_task\<rparr>]\<rparr>))"

definition release_slot :: "nat \<Rightarrow> admission \<Rightarrow> admission" where
  "release_slot i a =
     (if counted (slots a ! i) then a\<lparr>active := active a - 1, slots := (slots a)[i := (slots a ! i)\<lparr>counted := False\<rparr>]\<rparr> else a)"

definition release_unless_attached :: "nat \<Rightarrow> admission \<Rightarrow> admission" where
  "release_unless_attached i a = (if attached (slots a ! i) then a else release_slot i a)"

definition put_slot :: "nat \<Rightarrow> ingest_slot \<Rightarrow> admission \<Rightarrow> admission" where
  "put_slot i sl a = a\<lparr>slots := (slots a)[i := sl]\<rparr>"

text \<open>The request starts its task: the slot belongs to the task from here on.\<close>

definition track_task :: "nat \<Rightarrow> admission \<Rightarrow> admission" where
  "track_task i a = put_slot i ((slots a ! i)\<lparr>attached := True, slot_task := Slot_task_runs\<rparr>) a"

definition request_ends :: "nat \<Rightarrow> admission \<Rightarrow> admission" where
  "request_ends i a = release_unless_attached i (put_slot i ((slots a ! i)\<lparr>slot_request := Request_ended\<rparr>) a)"

definition task_over :: "nat \<Rightarrow> admission \<Rightarrow> admission" where
  "task_over i a = release_slot i (put_slot i ((slots a ! i)\<lparr>slot_task := Slot_task_ended\<rparr>) a)"

inductive admission_step :: "int \<Rightarrow> admission \<Rightarrow> admission \<Rightarrow> bool" for limit where
  adm_reserve: "admission_step limit a (snd (reserve limit a))"
| adm_track: "i < length (slots a) \<Longrightarrow> slot_request (slots a ! i) = In_request \<Longrightarrow> slot_task (slots a ! i) = No_slot_task \<Longrightarrow>
     admission_step limit a (track_task i a)"
| adm_request_ends: "i < length (slots a) \<Longrightarrow> slot_request (slots a ! i) = In_request \<Longrightarrow> admission_step limit a (request_ends i a)"
| adm_task_over: "i < length (slots a) \<Longrightarrow> slot_task (slots a ! i) = Slot_task_runs \<Longrightarrow> admission_step limit a (task_over i a)"

inductive_simps admission_step_iff: "admission_step limit a a'"

definition no_ingests :: admission where
  "no_ingests = \<lparr>active = 0, slots = []\<rparr>"

text \<open>What a slot stands for: a request that has not started a task yet, or a task that runs.\<close>

definition in_use :: "ingest_slot \<Rightarrow> bool" where
  "in_use sl \<longleftrightarrow> slot_task sl = Slot_task_runs \<or> (slot_task sl = No_slot_task \<and> slot_request sl = In_request)"

definition slot_ok :: "ingest_slot \<Rightarrow> bool" where
  "slot_ok sl \<longleftrightarrow> counted sl = in_use sl \<and> attached sl = (slot_task sl \<noteq> No_slot_task)"

definition admission_inv :: "int \<Rightarrow> admission \<Rightarrow> bool" where
  "admission_inv limit a \<longleftrightarrow>
     list_all slot_ok (slots a) \<and> active a = int (length (filter counted (slots a))) \<and> active a \<le> max 0 limit"

lemma count_update:
  "i < length xs \<Longrightarrow>
   int (length (filter P (xs[i := x]))) = int (length (filter P xs)) - (if P (xs ! i) then 1 else 0) + (if P x then 1 else 0)"
proof (induction xs arbitrary: i)
  case (Cons y ys)
  show ?case
  proof (cases i)
    case (Suc k)
    then have "int (length (filter P (ys[k := x]))) = int (length (filter P ys)) - (if P (ys ! k) then 1 else 0) + (if P x then 1 else 0)"
      using Cons by simp
    then show ?thesis using Suc by (auto split: if_splits)
  qed auto
qed simp

text \<open>A step on one slot, with the counter moved by what the slot counts before and after.\<close>

lemma slot_step_inv:
  assumes "admission_inv limit a" "i < length (slots a)" "slot_ok sl" "counted sl \<longrightarrow> counted (slots a ! i)"
  shows "admission_inv limit (a\<lparr>active := active a - (if counted (slots a ! i) \<and> \<not> counted sl then 1 else 0),
    slots := (slots a)[i := sl]\<rparr>)"
proof -
  have "list_all slot_ok ((slots a)[i := sl])"
    using assms(1,3) by (auto simp: admission_inv_def list_all_iff dest!: set_update_subset_insert [THEN subsetD])
  moreover have "int (length (filter counted ((slots a)[i := sl]))) =
      active a - (if counted (slots a ! i) \<and> \<not> counted sl then 1 else 0)"
    using assms by (auto simp: count_update admission_inv_def)
  ultimately show ?thesis using assms(1) by (simp add: admission_inv_def)
qed

lemma slot_at: "admission_inv limit a \<Longrightarrow> i < length (slots a) \<Longrightarrow> slot_ok (slots a ! i)"
  by (simp add: admission_inv_def list_all_length)

lemma reserve_inv: "admission_inv limit a \<Longrightarrow> admission_inv limit (snd (reserve limit a))"
  by (simp add: reserve_def admission_inv_def slot_ok_def in_use_def)

lemma track_inv:
  assumes "admission_inv limit a" "i < length (slots a)" "slot_request (slots a ! i) = In_request" "slot_task (slots a ! i) = No_slot_task"
  shows "admission_inv limit (track_task i a)"
  using slot_step_inv [OF assms(1,2), of "(slots a ! i)\<lparr>attached := True, slot_task := Slot_task_runs\<rparr>"] slot_at [OF assms(1,2)] assms(3,4)
  by (simp add: track_task_def put_slot_def slot_ok_def in_use_def)

lemma request_ends_inv:
  assumes "admission_inv limit a" "i < length (slots a)" "slot_request (slots a ! i) = In_request"
  shows "admission_inv limit (request_ends i a)"
proof (cases "slot_task (slots a ! i) = No_slot_task")
  case True
  then show ?thesis
    using slot_step_inv [OF assms(1,2), of "(slots a ! i)\<lparr>slot_request := Request_ended, counted := False\<rparr>"] slot_at [OF assms(1,2)] assms(2,3)
    by (simp add: request_ends_def release_unless_attached_def release_slot_def put_slot_def slot_ok_def in_use_def)
next
  case False
  then show ?thesis
    using slot_step_inv [OF assms(1,2), of "(slots a ! i)\<lparr>slot_request := Request_ended\<rparr>"] slot_at [OF assms(1,2)] assms(2,3)
    by (simp add: request_ends_def release_unless_attached_def put_slot_def slot_ok_def in_use_def)
qed

lemma task_over_inv:
  assumes "admission_inv limit a" "i < length (slots a)" "slot_task (slots a ! i) = Slot_task_runs"
  shows "admission_inv limit (task_over i a)"
  using slot_step_inv [OF assms(1,2), of "(slots a ! i)\<lparr>slot_task := Slot_task_ended, counted := False\<rparr>"] slot_at [OF assms(1,2)] assms(2,3)
  by (simp add: task_over_def release_slot_def put_slot_def slot_ok_def in_use_def)

interpretation admissions: machine_invariant "\<lambda>a. a = no_ingests" "admission_step limit" "admission_inv limit" for limit
proof unfold_locales
  show "admission_inv limit a" if "a = no_ingests" for a using that by (simp add: admission_inv_def no_ingests_def)
  show "admission_inv limit a'" if "admission_inv limit a" "admission_step limit a a'" for a a'
    using that by (auto simp: admission_step_iff intro: reserve_inv track_inv request_ends_inv task_over_inv)
qed

text \<open>
  C31: The admission counter is exact and bounded: in every order of requests, their ends, the starts of tasks and their ends, the number of slots the
  server counts is the number of requests that hold one and have not started a task, plus the tasks that run; it never exceeds the cap; and a
  request is refused only when that many are in use. No slot leaks and none is given back twice.
\<close>

theorem ingest_slots_exact:
  assumes "reachable (\<lambda>a. a = no_ingests) (admission_step limit) a" "0 \<le> limit"
  shows "active a = int (length (filter in_use (slots a))) \<and> active a \<le> limit \<and>
    (fst (reserve limit a) = None) = (int (length (filter in_use (slots a))) = limit)"
proof -
  have inv: "admission_inv limit a" using admissions.inv_reachable assms(1) .
  then have "filter counted (slots a) = filter in_use (slots a)"
    by (intro filter_cong) (auto simp: admission_inv_def list_all_iff slot_ok_def)
  then show ?thesis using inv assms(2) by (auto simp: admission_inv_def reserve_def)
qed

definition one_ingest_runs :: admission where
  "one_ingest_runs = request_ends 0 (track_task 0 (snd (reserve 1 no_ingests)))"

theorem ingest_slots_exact_witness:
  "active one_ingest_runs = int (length (filter in_use (slots one_ingest_runs))) \<and> active one_ingest_runs = 1 \<and>
   (fst (reserve 1 one_ingest_runs) = None) = (int (length (filter in_use (slots one_ingest_runs))) = 1)"
proof -
  have r: "reachable (\<lambda>a. a = no_ingests) (admission_step 1) no_ingests" by (rule reach_init) simp
  note r1 = reach_step [OF r adm_reserve]
  have 1: "0 < length (slots (snd (reserve 1 no_ingests)))" "slot_request (slots (snd (reserve 1 no_ingests)) ! 0) = In_request"
    "slot_task (slots (snd (reserve 1 no_ingests)) ! 0) = No_slot_task" by code_simp+
  note r2 = reach_step [OF r1 adm_track [OF 1]]
  have 2: "0 < length (slots (track_task 0 (snd (reserve 1 no_ingests))))"
    "slot_request (slots (track_task 0 (snd (reserve 1 no_ingests))) ! 0) = In_request" by code_simp+
  have r3: "reachable (\<lambda>a. a = no_ingests) (admission_step 1) one_ingest_runs"
    unfolding one_ingest_runs_def using reach_step [OF r2 adm_request_ends [OF 2]] .
  have "active one_ingest_runs = 1" by code_simp
  with ingest_slots_exact [OF r3] show ?thesis by simp
qed

end
