(* ===== verification/Body_Limit.thy ===== *)
theory Body_Limit
  imports Py_Strings
begin

text \<open>
  The cap on request bodies, \<open>server/middleware_body_limit.py\<close>. The middleware stands between the server, whose \<open>receive\<close> hands out the
  client's messages, and an application that may read, answer, raise, be cancelled and do several of these at once. A
  call is cut at its awaits: \<open>counting_receive\<close> waits for one message, \<open>guarded_send\<close> may wait for many. The application
  is free; the client's messages are a list.
\<close>

section \<open>Messages and headers\<close>

text \<open>Absent keys of a message are \<open>None\<close>. \<open>Disconnect\<close> stands for every message that is no \<open>http.request\<close>.\<close>

datatype request_message = Request_part "string option" "bool option" | Disconnect

datatype response_message = Response_start int | Response_part string

datatype to_client = From_app response_message | Too_large_response

record http_scope =
  sc_type :: string
  sc_headers :: "(string \<times> string) list"

fun body_of :: "request_message \<Rightarrow> string" where
  "body_of (Request_part (Some b) _) = b"
| "body_of (Request_part None _) = ''''"
| "body_of Disconnect = ''''"

fun more_body :: "request_message \<Rightarrow> bool" where
  "more_body (Request_part _ (Some b)) = b"
| "more_body (Request_part _ None) = False"
| "more_body Disconnect = False"

fun is_start :: "response_message \<Rightarrow> bool" where
  "is_start (Response_start _) = True"
| "is_start (Response_part _) = False"

text \<open>\<open>int(value)\<close> of bytes: ASCII white space around, and not more than 4300 digits.\<close>

definition bytes_isspace :: "char \<Rightarrow> bool" where
  "bytes_isspace c \<longleftrightarrow> ord c \<in> {9, 10, 11, 12, 13, 32}"

definition bytes_strip :: "string \<Rightarrow> string" where
  "bytes_strip s = rev (dropWhile bytes_isspace (rev (dropWhile bytes_isspace s)))"

definition bytes_int :: "string \<Rightarrow> int option" where
  "bytes_int s =
     (if 4300 < length (filter is_digit s) then None
      else case bytes_strip s of
             [] \<Rightarrow> None
           | c # cs \<Rightarrow>
               (if c = CHR ''-'' then map_option (\<lambda>n. - int n) (int_digits 0 True cs)
                else if c = CHR ''+'' then map_option int (int_digits 0 True cs)
                else map_option int (int_digits 0 True (c # cs))))"

fun content_length :: "(string \<times> string) list \<Rightarrow> int option" where
  "content_length [] = None"
| "content_length ((name, v) # hs) =
     (if name = ''content-length''
      then (case bytes_int v of None \<Rightarrow> None | Some n \<Rightarrow> if 0 \<le> n then Some n else None)
      else content_length hs)"

definition declared_length :: "http_scope \<Rightarrow> int option" where
  "declared_length sc = content_length (sc_headers sc)"

definition awaits_continue :: "http_scope \<Rightarrow> bool" where
  "awaits_continue sc \<longleftrightarrow> list_ex (\<lambda>h. fst h = ''expect'') (sc_headers sc)"

section \<open>A request\<close>

text \<open>
  The four variables the closures share; then what is outside: the messages the client has still to send, the receives the application waits in,
  the responses that wait for the rest of the body, the bytes the application was given, what the client was sent, and whether the
  application's call is over. \<open>measure_unread\<close> is fixed when the call begins.
\<close>

record exchange =
  received :: int
  exceeded :: bool
  answered :: bool
  body_complete :: bool
  measure_unread :: bool
  incoming :: "request_message list"
  reading :: nat
  measuring :: "response_message list"
  given :: string
  sent :: "to_client list"
  over :: bool

datatype begun = Pass_through | Refused | Guarded exchange

definition call_begins :: "int \<Rightarrow> http_scope \<Rightarrow> request_message list \<Rightarrow> begun" where
  "call_begins max_bytes sc ms =
     (if sc_type sc \<noteq> ''http'' then Pass_through
      else if (case declared_length sc of None \<Rightarrow> False | Some n \<Rightarrow> max_bytes < n) then Refused
      else Guarded
        \<lparr>received = 0, exceeded = False, answered = False, body_complete = False,
         measure_unread = (declared_length sc = None \<and> \<not> awaits_continue sc),
         incoming = ms, reading = 0, measuring = [], given = '''', sent = [], over = False\<rparr>)"

definition refuse :: "exchange \<Rightarrow> exchange" where
  "refuse s = (if \<not> answered s then s\<lparr>answered := True, sent := sent s @ [Too_large_response]\<rparr> else s)"

text \<open>\<open>counting_receive\<close> up to its await (the disconnect it answers at once), and after it.\<close>

definition counting_receive :: "exchange \<Rightarrow> request_message option" where
  "counting_receive s = (if exceeded s then Some Disconnect else None)"

definition counted :: "int \<Rightarrow> request_message \<Rightarrow> exchange \<Rightarrow> request_message \<times> exchange" where
  "counted max_bytes m s0 =
     (case m of
        Request_part _ _ \<Rightarrow>
          (let s = s0\<lparr>received := received s0 + int (length (body_of m))\<rparr>
           in if max_bytes < received s then (Disconnect, s\<lparr>exceeded := True\<rparr>)
              else (m, s\<lparr>body_complete := \<not> more_body m\<rparr>))
      | Disconnect \<Rightarrow> (m, s0\<lparr>body_complete := True\<rparr>))"

text \<open>\<open>guarded_send\<close>: what follows the measuring, and the measuring itself, which waits while the body goes on.\<close>

definition send_measured :: "response_message \<Rightarrow> exchange \<Rightarrow> exchange" where
  "send_measured m s =
     (if exceeded s then (if is_start m then refuse s else s)
      else (if is_start m then s\<lparr>answered := True\<rparr> else s)\<lparr>sent := sent s @ [From_app m]\<rparr>)"

definition measure_rest_of_body :: "response_message \<Rightarrow> exchange \<Rightarrow> exchange" where
  "measure_rest_of_body m s =
     (if \<not> body_complete s \<and> \<not> exceeded s then s\<lparr>measuring := measuring s @ [m]\<rparr> else send_measured m s)"

definition guarded_send :: "response_message \<Rightarrow> exchange \<Rightarrow> exchange" where
  "guarded_send m s =
     (if is_start m \<and> measure_unread s \<and> \<not> exceeded s then measure_rest_of_body m s else send_measured m s)"

text \<open>The message that one of the waiting receives gets next.\<close>

definition app_receives :: "int \<Rightarrow> exchange \<Rightarrow> exchange" where
  "app_receives max_bytes s0 =
     (case incoming s0 of
        [] \<Rightarrow> s0
      | m # ms \<Rightarrow>
          (case counted max_bytes m (s0\<lparr>incoming := ms, reading := reading s0 - 1\<rparr>) of
             (r, s) \<Rightarrow> s\<lparr>given := given s @ body_of r\<rparr>))"

definition measure_receives :: "int \<Rightarrow> response_message \<Rightarrow> exchange \<Rightarrow> exchange" where
  "measure_receives max_bytes r s0 =
     (case incoming s0 of
        [] \<Rightarrow> s0
      | m # ms \<Rightarrow> measure_rest_of_body r (snd (counted max_bytes m (s0\<lparr>incoming := ms, measuring := remove1 r (measuring s0)\<rparr>))))"

datatype app_outcome = Returned | Raised | App_cancelled

text \<open>The end of \<open>__call__\<close>: whether the application's exception is raised on, and the state.\<close>

definition call_ends :: "app_outcome \<Rightarrow> exchange \<Rightarrow> bool \<times> exchange" where
  "call_ends out s0 =
     (let s = s0\<lparr>over := True\<rparr>
      in case out of
           App_cancelled \<Rightarrow> (True, s)
         | Raised \<Rightarrow> (if exceeded s then (False, refuse s) else (True, s))
         | Returned \<Rightarrow> (False, if exceeded s then refuse s else s))"

section \<open>All interleavings\<close>

inductive exchange_step :: "int \<Rightarrow> exchange \<Rightarrow> exchange \<Rightarrow> bool" for max_bytes where
  ex_receive: "counting_receive s = None \<Longrightarrow> exchange_step max_bytes s (s\<lparr>reading := reading s + 1\<rparr>)"
| ex_message: "0 < reading s \<Longrightarrow> incoming s \<noteq> [] \<Longrightarrow> exchange_step max_bytes s (app_receives max_bytes s)"
| ex_send: "exchange_step max_bytes s (guarded_send m s)"
| ex_measured: "r \<in> set (measuring s) \<Longrightarrow> incoming s \<noteq> [] \<Longrightarrow> exchange_step max_bytes s (measure_receives max_bytes r s)"
| ex_read_cancelled: "0 < reading s \<Longrightarrow> exchange_step max_bytes s (s\<lparr>reading := reading s - 1\<rparr>)"
| ex_send_cancelled: "r \<in> set (measuring s) \<Longrightarrow> exchange_step max_bytes s (s\<lparr>measuring := remove1 r (measuring s)\<rparr>)"
| ex_ends: "\<not> over s \<Longrightarrow> exchange_step max_bytes s (snd (call_ends out s))"

inductive_simps exchange_step_iff: "exchange_step max_bytes s s'"

end
