(* ===== verification/Body_Limit_Properties.thy ===== *)
theory Body_Limit_Properties
  imports Body_Limit
begin

text \<open>What the cap on request bodies guarantees for every application, every client and every interleaving.\<close>

section \<open>The client\<close>

text \<open>What a server hands out: parts of the body up to a last one, then nothing but disconnects; a client may also leave early.\<close>

fun client_stream :: "request_message list \<Rightarrow> bool" where
  "client_stream [] = True"
| "client_stream (m # ms) = (if more_body m then client_stream ms else list_all (\<lambda>m. m = Disconnect) ms)"

definition body_bytes :: "request_message list \<Rightarrow> int" where
  "body_bytes ms = (\<Sum>m \<leftarrow> ms. int (length (body_of m)))"

lemma body_bytes_simps [simp]:
  "body_bytes [] = 0" "body_bytes (m # ms) = int (length (body_of m)) + body_bytes ms"
  by (simp_all add: body_bytes_def)

lemma body_bytes_disconnects: "list_all (\<lambda>m. m = Disconnect) ms \<Longrightarrow> body_bytes ms = 0"
  by (induction ms) auto

lemma client_stream_disconnects: "list_all (\<lambda>m. m = Disconnect) ms \<Longrightarrow> client_stream ms"
  by (cases ms) auto

lemma body_bytes_nonneg [simp]: "0 \<le> body_bytes ms"
  by (induction ms) auto

section \<open>The invariant\<close>

fun starts :: "to_client list \<Rightarrow> bool" where
  "starts [] = False"
| "starts (From_app m # xs) = (is_start m \<or> starts xs)"
| "starts (Too_large_response # xs) = starts xs"

lemma starts_append [simp]: "starts (xs @ ys) = (starts xs \<or> starts ys)"
  by (induction xs rule: starts.induct) auto

lemma starts_iff: "starts xs = (\<exists>m. is_start m \<and> From_app m \<in> set xs)"
  by (induction xs rule: starts.induct) auto

abbreviation app_started :: "exchange \<Rightarrow> bool" where
  "app_started s \<equiv> starts (sent s)"

definition one_answer :: "exchange \<Rightarrow> bool" where
  "one_answer s \<longleftrightarrow>
     (if Too_large_response \<in> set (sent s)
      then exceeded s \<and> answered s \<and> \<not> app_started s \<and> (\<exists>xs. sent s = xs @ [Too_large_response] \<and> Too_large_response \<notin> set xs)
      else answered s = app_started s)"

definition counting :: "int \<Rightarrow> int \<Rightarrow> exchange \<Rightarrow> bool" where
  "counting max_bytes whole s \<longleftrightarrow>
     received s + body_bytes (incoming s) = whole \<and> exceeded s = (max_bytes < received s) \<and>
     int (length (given s)) \<le> received s \<and> int (length (given s)) \<le> max_bytes \<and>
     client_stream (incoming s) \<and> (body_complete s \<longrightarrow> list_all (\<lambda>m. m = Disconnect) (incoming s))"

definition exchange_inv :: "int \<Rightarrow> int \<Rightarrow> exchange \<Rightarrow> bool" where
  "exchange_inv max_bytes whole s \<longleftrightarrow>
     counting max_bytes whole s \<and> one_answer s \<and> (measure_unread s \<and> app_started s \<longrightarrow> body_complete s \<and> \<not> exceeded s)"

lemma one_answer_updates [simp]:
  "one_answer (s\<lparr>given := g\<rparr>) = one_answer s" "one_answer (s\<lparr>reading := n\<rparr>) = one_answer s"
  "one_answer (s\<lparr>measuring := rs\<rparr>) = one_answer s" "one_answer (s\<lparr>over := b\<rparr>) = one_answer s"
  by (simp_all add: one_answer_def)

lemma counting_updates [simp]:
  "counting max_bytes whole (s\<lparr>reading := n\<rparr>) = counting max_bytes whole s"
  "counting max_bytes whole (s\<lparr>measuring := rs\<rparr>) = counting max_bytes whole s"
  "counting max_bytes whole (s\<lparr>over := b\<rparr>) = counting max_bytes whole s"
  "counting max_bytes whole (s\<lparr>answered := b\<rparr>) = counting max_bytes whole s"
  "counting max_bytes whole (s\<lparr>sent := xs\<rparr>) = counting max_bytes whole s"
  by (simp_all add: counting_def)

lemma counted_keeps:
  assumes "counting max_bytes whole s" "incoming s = m # ms" "counted max_bytes m (s\<lparr>incoming := ms, reading := n, measuring := rs\<rparr>) = (r, s')"
  shows "counting max_bytes whole (s'\<lparr>given := given s' @ body_of r\<rparr>)" "counting max_bytes whole s'"
    "body_complete s \<Longrightarrow> body_complete s' \<and> exceeded s' = exceeded s"
    "sent s' = sent s" "answered s' = answered s" "measure_unread s' = measure_unread s" "exceeded s \<Longrightarrow> exceeded s'"
  using assms
  by (cases m; auto simp: counting_def counted_def Let_def client_stream_disconnects split: if_splits)+

lemma one_answer_counted:
  "one_answer s \<Longrightarrow> sent s' = sent s \<Longrightarrow> answered s' = answered s \<Longrightarrow> (exceeded s \<Longrightarrow> exceeded s') \<Longrightarrow> one_answer s'"
  unfolding one_answer_def by (auto split: if_splits)

lemma measure_unread_kept [simp]:
  "measure_unread (refuse s) = measure_unread s" "measure_unread (send_measured m s) = measure_unread s"
  "measure_unread (measure_rest_of_body m s) = measure_unread s" "measure_unread (guarded_send m s) = measure_unread s"
  "measure_unread (snd (counted max_bytes r s)) = measure_unread s" "measure_unread (app_receives max_bytes s) = measure_unread s"
  by (auto simp: refuse_def send_measured_def measure_rest_of_body_def guarded_send_def counted_def app_receives_def Let_def
      split: request_message.splits list.splits prod.splits if_splits)

lemma exchange_step_measure_unread: "exchange_step max_bytes s t \<Longrightarrow> measure_unread t = measure_unread s"
  by (induction rule: exchange_step.induct)
    (auto simp: measure_receives_def call_ends_def Let_def split: list.splits app_outcome.splits)

lemma exchange_inv_counted:
  assumes "exchange_inv max_bytes whole s" "incoming s = m # ms"
    and "counted max_bytes m (s\<lparr>incoming := ms, reading := n, measuring := rs\<rparr>) = (r, s')"
  shows "exchange_inv max_bytes whole s'" "exchange_inv max_bytes whole (s'\<lparr>given := given s' @ body_of r\<rparr>)"
proof -
  note inv = assms(1) [unfolded exchange_inv_def]
  note kept = counted_keeps [OF conjunct1 [OF inv] assms(2,3)]
  have "one_answer s'" using inv kept one_answer_counted by blast
  moreover have "app_started s' = app_started s" using kept(4) by simp
  ultimately have s': "one_answer s'" "measure_unread s' \<and> app_started s' \<longrightarrow> body_complete s' \<and> \<not> exceeded s'"
    using inv kept by auto
  show "exchange_inv max_bytes whole s'" using s' kept(2) by (simp add: exchange_inv_def)
  show "exchange_inv max_bytes whole (s'\<lparr>given := given s' @ body_of r\<rparr>)"
    using s' kept(1) by (simp add: exchange_inv_def)
qed

lemma refuse_keeps: "exchange_inv max_bytes whole s \<Longrightarrow> exceeded s \<Longrightarrow> exchange_inv max_bytes whole (refuse s)"
  by (auto simp: exchange_inv_def one_answer_def refuse_def split: if_splits)

lemma send_measured_keeps:
  assumes "exchange_inv max_bytes whole s" "is_start m \<and> measure_unread s \<Longrightarrow> body_complete s \<or> exceeded s"
  shows "exchange_inv max_bytes whole (send_measured m s)"
proof (cases "exceeded s")
  case True
  then show ?thesis using refuse_keeps assms(1) by (simp add: send_measured_def)
next
  case False
  then have "Too_large_response \<notin> set (sent s)" using assms(1) by (auto simp: exchange_inv_def one_answer_def split: if_splits)
  then show ?thesis
    using False assms by (auto simp: exchange_inv_def one_answer_def send_measured_def split: if_splits)
qed

lemma exchange_inv_waiting:
  "exchange_inv max_bytes whole s \<Longrightarrow> exchange_inv max_bytes whole (s\<lparr>reading := n, measuring := rs\<rparr>)"
  by (simp add: exchange_inv_def)

lemma measure_rest_keeps:
  "exchange_inv max_bytes whole s \<Longrightarrow> exchange_inv max_bytes whole (measure_rest_of_body m s)"
  using exchange_inv_waiting [where s = s and n = "reading s"] send_measured_keeps by (auto simp: measure_rest_of_body_def)

lemma guarded_send_keeps:
  "exchange_inv max_bytes whole s \<Longrightarrow> exchange_inv max_bytes whole (guarded_send m s)"
  unfolding guarded_send_def using measure_rest_keeps send_measured_keeps by auto

lemma app_receives_keeps:
  "exchange_inv max_bytes whole s \<Longrightarrow> exchange_inv max_bytes whole (app_receives max_bytes s)"
  using exchange_inv_counted(2) [where s = s and n = "reading s - 1" and rs = "measuring s"]
  by (auto simp: app_receives_def split: list.splits prod.splits)

lemma measure_receives_keeps:
  "exchange_inv max_bytes whole s \<Longrightarrow> exchange_inv max_bytes whole (measure_receives max_bytes r s)"
  using exchange_inv_counted(1) [where s = s and n = "reading s" and rs = "remove1 r (measuring s)"] measure_rest_keeps
  by (auto simp: measure_receives_def split: list.splits prod.splits) (metis prod.collapse)

lemma call_ends_keeps:
  "exchange_inv max_bytes whole s \<Longrightarrow> exchange_inv max_bytes whole (snd (call_ends out s))"
  using refuse_keeps [of max_bytes whole "s\<lparr>over := True\<rparr>"]
  by (auto simp: call_ends_def Let_def exchange_inv_def split: app_outcome.splits)

definition opened :: "int \<Rightarrow> http_scope \<Rightarrow> request_message list \<Rightarrow> exchange \<Rightarrow> bool" where
  "opened max_bytes sc ms s \<longleftrightarrow> call_begins max_bytes sc ms = Guarded s \<and> client_stream ms \<and> 0 \<le> max_bytes"

interpretation exchanges: machine_invariant "opened max_bytes sc ms" "exchange_step max_bytes"
  "\<lambda>s. exchange_inv max_bytes (body_bytes ms) s \<and> measure_unread s = (declared_length sc = None \<and> \<not> awaits_continue sc)"
  for max_bytes sc ms
proof unfold_locales
  fix s assume "opened max_bytes sc ms s"
  then show "exchange_inv max_bytes (body_bytes ms) s \<and> measure_unread s = (declared_length sc = None \<and> \<not> awaits_continue sc)"
    by (auto simp: opened_def call_begins_def exchange_inv_def counting_def one_answer_def split: if_splits)
next
  fix s t assume inv: "exchange_inv max_bytes (body_bytes ms) s \<and> measure_unread s = (declared_length sc = None \<and> \<not> awaits_continue sc)"
    and "exchange_step max_bytes s t"
  from this(2) have "exchange_inv max_bytes (body_bytes ms) t"
  proof cases
    case ex_receive
    then show ?thesis using inv exchange_inv_waiting [where s = s and n = "reading s + 1" and rs = "measuring s"] by simp
  next
    case ex_read_cancelled
    then show ?thesis using inv exchange_inv_waiting [where s = s and n = "reading s - 1" and rs = "measuring s"] by simp
  next
    case (ex_send_cancelled r)
    then show ?thesis using inv exchange_inv_waiting [where s = s and n = "reading s" and rs = "remove1 r (measuring s)"] by simp
  qed (use inv app_receives_keeps guarded_send_keeps measure_receives_keeps call_ends_keeps in auto)
  then show "exchange_inv max_bytes (body_bytes ms) t \<and> measure_unread t = (declared_length sc = None \<and> \<not> awaits_continue sc)"
    using inv exchange_step_measure_unread [OF \<open>exchange_step max_bytes s t\<close>] by simp
qed

section \<open>The cap\<close>

text \<open>Whatever the headers say, the application is never given more than the cap.\<close>

lemma app_gets_at_most_the_cap:
  "reachable (opened max_bytes sc ms) (exchange_step max_bytes) s \<Longrightarrow> int (length (given s)) \<le> max_bytes"
  using exchanges.inv_reachable by (auto simp: exchange_inv_def counting_def)

text \<open>
  When the cap was exceeded and the application returns or raises, the client has one answer: the one the application had begun before, or
  the refusal, which is then the last thing sent.
\<close>

lemma exceeded_call_is_answered:
  assumes "exchange_inv max_bytes whole s" "exceeded s" "out \<noteq> App_cancelled"
  shows "\<not> fst (call_ends out s) \<and> answered (snd (call_ends out s)) \<and>
    (\<not> app_started s \<longrightarrow> (\<exists>xs. sent (snd (call_ends out s)) = xs @ [Too_large_response] \<and> Too_large_response \<notin> set xs))"
  using assms
  by (cases out) (auto simp: call_ends_def Let_def refuse_def exchange_inv_def one_answer_def split: if_splits)

lemma measured_body_fits:
  assumes "exchange_inv max_bytes whole s" "measure_unread s" "app_started s"
  shows "whole \<le> max_bytes"
proof -
  have "list_all (\<lambda>m. m = Disconnect) (incoming s)" "\<not> max_bytes < received s" "received s + body_bytes (incoming s) = whole"
    using assms by (auto simp: exchange_inv_def counting_def)
  then show ?thesis using body_bytes_disconnects by force
qed

text \<open>
  C6: A body over the cap is refused, whatever the application does. Let a request declare no usable length and not ask for a
  \<open>100-continue\<close>, and let its body be longer than the cap. In every state that the application's reads and answers, several at a time,
  cancelled or not, and the arrival of the body's parts can reach, no answer of the application was begun, even one it gave without
  reading, and it was given no more bytes than the cap. When it returns or raises after the cap was exceeded, its exception is not
  raised on and the client's one answer is the refusal with status 413, the last thing sent.
\<close>

theorem over_cap_body_is_refused:
  assumes "reachable (opened max_bytes sc ms) (exchange_step max_bytes) s"
    and "declared_length sc = None" "\<not> awaits_continue sc" "max_bytes < body_bytes ms"
  shows "(\<forall>c. From_app (Response_start c) \<notin> set (sent s)) \<and> int (length (given s)) \<le> max_bytes \<and>
    (exceeded s \<and> out \<noteq> App_cancelled \<longrightarrow>
       \<not> fst (call_ends out s) \<and> (\<exists>xs. sent (snd (call_ends out s)) = xs @ [Too_large_response] \<and> Too_large_response \<notin> set xs))"
proof -
  have inv: "exchange_inv max_bytes (body_bytes ms) s" "measure_unread s"
    using exchanges.inv_reachable [OF assms(1)] assms(2,3) by auto
  then have "\<not> app_started s" using measured_body_fits assms(4) by fastforce
  then show ?thesis
    using app_gets_at_most_the_cap [OF assms(1)] exceeded_call_is_answered [OF inv(1)] by (auto simp: starts_iff)
qed

definition upload :: "request_message list" where
  "upload = [Request_part (Some ''abcd'') (Some True), Request_part (Some ''e'') None]"

definition chunked :: http_scope where
  "chunked = \<lparr>sc_type = ''http'', sc_headers = [(''host'', ''h'')]\<rparr>"

definition upload_begins :: exchange where
  "upload_begins =
     \<lparr>received = 0, exceeded = False, answered = False, body_complete = False, measure_unread = True, incoming = upload, reading = 0,
      measuring = [], given = '''', sent = [], over = False\<rparr>"

definition answered_unread :: exchange where
  "answered_unread = measure_receives 3 (Response_start 401) (guarded_send (Response_start 401) upload_begins)"

lemma answered_unread_reached: "reachable (opened 3 chunked upload) (exchange_step 3) answered_unread"
proof -
  have "opened 3 chunked upload upload_begins"
    by (simp add: opened_def call_begins_def chunked_def upload_begins_def declared_length_def awaits_continue_def upload_def)
  then have "reachable (opened 3 chunked upload) (exchange_step 3) (guarded_send (Response_start 401) upload_begins)"
    using reach_init reach_step ex_send by metis
  moreover have "Response_start 401 \<in> set (measuring (guarded_send (Response_start 401) upload_begins))"
    "incoming (guarded_send (Response_start 401) upload_begins) \<noteq> []"
    by (simp_all add: guarded_send_def measure_rest_of_body_def upload_begins_def upload_def)
  ultimately show ?thesis unfolding answered_unread_def using reach_step ex_measured by metis
qed

theorem over_cap_body_is_refused_witness:
  "exceeded answered_unread \<and> From_app (Response_start 401) \<notin> set (sent answered_unread) \<and>
   (\<exists>xs. sent (snd (call_ends Returned answered_unread)) = xs @ [Too_large_response])"
proof -
  have "exceeded answered_unread" by code_simp
  moreover have "declared_length chunked = None" "\<not> awaits_continue chunked" "3 < body_bytes upload"
    by (simp_all add: chunked_def declared_length_def awaits_continue_def upload_def)
  ultimately show ?thesis
    using over_cap_body_is_refused [OF answered_unread_reached, of Returned] by blast
qed

end
