(* ===== verification/Crash_Guard.thy ===== *)
theory Crash_Guard
  imports Job_Machine
begin

text \<open>
  The startup sync and the guard that keeps a server out of a crash loop: \<open>server/app.py\<close> (the decision of the lifespan,
  \<open>_run_startup_sync\<close> and the job that marks it), \<open>sync_suppression.py\<close> (the sentinel file), \<open>server/routes_sync.py\<close> (the manual sync
  that clears it) and the cancel route of \<open>server/routes_jobs.py\<close>, over the job store and its recovery. The state is that of one server
  across its restarts: the files stay, the rest goes with the process.
\<close>

section \<open>State\<close>

datatype startup_sync_result = Sync_pending | Sync_done | Sync_failed | Sync_suppressed

datatype boot_phase = Stopped | Store_loaded | Serving

text \<open>The task of the startup sync; while it runs, the id of the job that marks it, if one could be written.\<close>

datatype startup_task = No_startup | Startup_created | Startup_runs "string option" | Startup_over

record server =
  sv_store :: job_store
  sv_sentinel :: bool
  sv_result :: "startup_sync_result option"
  sv_sync_failed :: bool
  sv_phase :: boot_phase
  sv_startup :: startup_task

section \<open>The sentinel\<close>

text \<open>A write that raises after its replacement has published the file; none of them is raised on.\<close>

definition write_sync_suppressed_sentinel :: "write_outcome \<Rightarrow> server \<Rightarrow> server" where
  "write_sync_suppressed_sentinel w s =
     (case w of Raised_before _ \<Rightarrow> s | _ \<Rightarrow> s\<lparr>sv_sentinel := True\<rparr>)"

definition clear_sync_suppressed_sentinel :: "bool \<Rightarrow> server \<Rightarrow> server" where
  "clear_sync_suppressed_sentinel unlinked s = (if unlinked then s\<lparr>sv_sentinel := False\<rparr> else s)"

section \<open>The boot\<close>

text \<open>\<open>run_server\<close> loads the job store first; when that raises the process ends.\<close>

definition run_server :: "(string \<Rightarrow> int option) \<Rightarrow> string \<Rightarrow> int \<Rightarrow> write_attempt \<Rightarrow> server \<Rightarrow> server" where
  "run_server fromiso now_iso now a s =
     (case init_store fromiso now_iso now a (jfile (sv_store s)) of
        (Inl _, st) \<Rightarrow> s\<lparr>sv_store := st\<rparr>
      | (Inr _, st) \<Rightarrow>
          s\<lparr>sv_store := st, sv_phase := Store_loaded, sv_result := None, sv_sync_failed := False, sv_startup := No_startup\<rparr>)"

text \<open>The lifespan's decision, with the configured collections and the outcome of the sentinel's write.\<close>

definition decide_startup_sync :: "string list \<Rightarrow> write_outcome \<Rightarrow> server \<Rightarrow> server" where
  "decide_startup_sync all_cols w s =
     (if all_cols \<noteq> [] \<and> (crashed_ingest_on_load (sv_store s) \<or> sv_sentinel s)
      then (write_sync_suppressed_sentinel w s)\<lparr>sv_phase := Serving, sv_result := Some Sync_suppressed\<rparr>
      else if all_cols \<noteq> [] then s\<lparr>sv_phase := Serving, sv_result := Some Sync_pending, sv_startup := Startup_created\<rparr>
      else s\<lparr>sv_phase := Serving\<rparr>)"

section \<open>The startup sync\<close>

definition start_startup_sync_job ::
    "(string \<Rightarrow> int option) \<Rightarrow> write_attempt \<Rightarrow> write_attempt \<Rightarrow> string \<Rightarrow> string \<Rightarrow> job_store \<Rightarrow>
     (store_exc + string option) \<times> job_store" where
  "start_startup_sync_job fromiso a1 a2 jid now st =
     (case create_job fromiso a1 a2 (new_sync jid now default_namespace) st of
        (Inr j, st') \<Rightarrow> (Inr (Some (job_id j)), st')
      | (Inl e, st') \<Rightarrow> (if is_exception e then (Inr None, st') else (Inl e, st')))"

text \<open>The exception that is not an \<open>Exception\<close>, if the write raised one.\<close>

definition finish_startup_sync_job ::
    "(string \<Rightarrow> int option) \<Rightarrow> string \<Rightarrow> write_attempt \<Rightarrow> string option \<Rightarrow> field_change list \<Rightarrow> job_store \<Rightarrow> store_exc option \<times> job_store" where
  "finish_startup_sync_job fromiso now a job cs st =
     (case job of
        None \<Rightarrow> (None, st)
      | Some jid \<Rightarrow>
          (case update fromiso now a jid cs st of
             (Inl e, st') \<Rightarrow> (if is_exception e then (None, st') else (Some e, st'))
           | (Inr _, st') \<Rightarrow> (None, st')))"

definition startup_sync_error_partial :: string where
  "startup_sync_error_partial = ''startup sync completed with per-collection errors''"

definition startup_sync_error_timeout :: string where
  "startup_sync_error_timeout = ''startup sync exceeded its time limit''"

definition startup_sync_error_failed :: string where
  "startup_sync_error_failed = ''startup sync failed''"

definition startup_failed :: "server \<Rightarrow> server" where
  "startup_failed s = s\<lparr>sv_sync_failed := True, sv_result := Some Sync_failed\<rparr>"

text \<open>
  \<open>_run_startup_sync\<close> up to the sync itself; a \<open>BaseException\<close> of the job's creation ends it. The creation awaits nothing, so the cancellation of the task
  cannot be delivered inside it; the same holds for the write of the job's end.
\<close>

definition startup_sync_begins ::
    "(string \<Rightarrow> int option) \<Rightarrow> write_attempt \<Rightarrow> write_attempt \<Rightarrow> string \<Rightarrow> string \<Rightarrow> server \<Rightarrow> server" where
  "startup_sync_begins fromiso a1 a2 jid now s =
     (case start_startup_sync_job fromiso a1 a2 jid now (sv_store s) of
        (Inr job, st) \<Rightarrow> s\<lparr>sv_store := st, sv_startup := Startup_runs job\<rparr>
      | (Inl _, st) \<Rightarrow> (startup_failed s)\<lparr>sv_store := st, sv_startup := Startup_over\<rparr>)"

datatype sync_end = Clean json | With_errors | Cancelled_by_shutdown | Timed_out | Sync_raised

definition startup_fields :: "sync_end \<Rightarrow> field_change list" where
  "startup_fields out =
     (case out of
        Clean r \<Rightarrow> [Set_status DONE, Set_result r]
      | With_errors \<Rightarrow> [Set_status FAILED, Set_error (Some startup_sync_error_partial)]
      | Cancelled_by_shutdown \<Rightarrow> [Set_status CANCELLED]
      | Timed_out \<Rightarrow> [Set_status FAILED, Set_error (Some startup_sync_error_timeout)]
      | Sync_raised \<Rightarrow> [Set_status FAILED, Set_error (Some startup_sync_error_failed)])"

definition startup_outcome :: "sync_end \<Rightarrow> server \<Rightarrow> server" where
  "startup_outcome out s =
     (case out of
        Clean _ \<Rightarrow> s\<lparr>sv_result := Some Sync_done\<rparr>
      | Cancelled_by_shutdown \<Rightarrow> s\<lparr>sv_result := Some Sync_failed\<rparr>
      | _ \<Rightarrow> startup_failed s)"

text \<open>
  How it ends. The status of a finished sync is written inside the \<open>try\<close>, so a \<open>BaseException\<close> of that write reaches the last handler,
  which writes once more; the handlers' own writes are not guarded again.
\<close>

definition startup_sync_ends ::
    "(string \<Rightarrow> int option) \<Rightarrow> string \<Rightarrow> write_attempt \<Rightarrow> string \<Rightarrow> write_attempt \<Rightarrow> string option \<Rightarrow> sync_end \<Rightarrow> server \<Rightarrow> server" where
  "startup_sync_ends fromiso now a1 later a2 job out s =
     (case finish_startup_sync_job fromiso now a1 job (startup_fields out) (sv_store s) of
        (None, st) \<Rightarrow> (startup_outcome out s)\<lparr>sv_store := st, sv_startup := Startup_over\<rparr>
      | (Some _, st) \<Rightarrow>
          (case out of
             Clean _ \<Rightarrow>
               (startup_failed s)
                 \<lparr>sv_store := snd (finish_startup_sync_job fromiso later a2 job (startup_fields Sync_raised) st), sv_startup := Startup_over\<rparr>
           | With_errors \<Rightarrow>
               (startup_failed s)
                 \<lparr>sv_store := snd (finish_startup_sync_job fromiso later a2 job (startup_fields Sync_raised) st), sv_startup := Startup_over\<rparr>
           | _ \<Rightarrow> (startup_outcome out s)\<lparr>sv_store := st, sv_startup := Startup_over\<rparr>))"

section \<open>The watcher\<close>

text \<open>What the watcher's callback does with a change, after it registered as a writer: the configured paths are those resolved then.\<close>

datatype watch_decision = Watch_suppressed | Watch_ignored | Watch_syncs

definition sync_watched_collection :: "server \<Rightarrow> string list \<Rightarrow> string \<Rightarrow> watch_decision" where
  "sync_watched_collection s configured_paths watched =
     (if sv_result s = Some Sync_suppressed then Watch_suppressed
      else if watched \<notin> set configured_paths then Watch_ignored
      else Watch_syncs)"

section \<open>The manual sync\<close>

definition clear_degraded_sync_state :: "bool \<Rightarrow> server \<Rightarrow> server" where
  "clear_degraded_sync_state unlinked s =
     clear_sync_suppressed_sentinel unlinked
       (if sv_result s \<in> {Some Sync_suppressed, Some Sync_failed} then s\<lparr>sv_result := Some Sync_done, sv_sync_failed := False\<rparr> else s)"

definition manual_sync_failed_detail :: string where
  "manual_sync_failed_detail = ''sync failed''"

definition persist_job_status ::
    "(string \<Rightarrow> int option) \<Rightarrow> string \<Rightarrow> write_attempt \<Rightarrow> string \<Rightarrow> field_change list \<Rightarrow> job_store \<Rightarrow> store_exc option \<times> job_store" where
  "persist_job_status fromiso now a jid cs st =
     (case update fromiso now a jid cs st of
        (Inl e, st') \<Rightarrow> (if is_exception e then (None, st') else (Some e, st'))
      | (Inr _, st') \<Rightarrow> (None, st'))"

text \<open>The end of \<open>_sync_task\<close>: a sync without errors clears the degraded state before its status is written.\<close>

definition sync_task_ends ::
    "(string \<Rightarrow> int option) \<Rightarrow> string \<Rightarrow> write_attempt \<Rightarrow> bool \<Rightarrow> string \<Rightarrow> sync_end \<Rightarrow> json \<Rightarrow> server \<Rightarrow> server" where
  "sync_task_ends fromiso now a unlinked jid out summary s =
     (case out of
        Clean r \<Rightarrow>
          (let s' = clear_degraded_sync_state unlinked s
           in s'\<lparr>sv_store := snd (persist_job_status fromiso now a jid [Set_status DONE, Set_result r] (sv_store s'))\<rparr>)
      | With_errors \<Rightarrow> s\<lparr>sv_store := snd (persist_job_status fromiso now a jid [Set_status DONE, Set_result summary] (sv_store s))\<rparr>
      | Cancelled_by_shutdown \<Rightarrow> s\<lparr>sv_store := snd (persist_job_status fromiso now a jid [Set_status CANCELLED] (sv_store s))\<rparr>
      | _ \<Rightarrow> s\<lparr>sv_store := snd (persist_job_status fromiso now a jid [Set_status FAILED, Set_error (Some manual_sync_failed_detail)] (sv_store s))\<rparr>)"

definition is_sync_job :: "job \<Rightarrow> bool" where
  "is_sync_job j \<longleftrightarrow> (case details j of SyncJob _ \<Rightarrow> True | _ \<Rightarrow> False)"

definition legacy_sync_statuses :: "job_status list" where
  "legacy_sync_statuses = [QUEUED, PENDING]"

definition sync_superseded_detail :: string where
  "sync_superseded_detail = ''never started; superseded by a newer request''"

definition supersede_legacy_sync_jobs ::
    "(string \<Rightarrow> int option) \<Rightarrow> string \<Rightarrow> (string \<Rightarrow> write_attempt) \<Rightarrow> job_store \<Rightarrow> store_exc option \<times> job_store" where
  "supersede_legacy_sync_jobs fromiso now att st =
     run_all
       (\<lambda>j st. if is_sync_job j \<and> status j \<in> set legacy_sync_statuses
               then persist_job_status fromiso now (att (job_id j)) (job_id j) [Set_status FAILED, Set_error (Some sync_superseded_detail)] st
               else (None, st))
       (list_jobs st) st"

section \<open>The cancel route\<close>

datatype delete_answer =
    Job_not_found | Job_shown | Sync_not_cancellable | Description_not_cancellable | Cancel_accepted | Cancel_failed | Unknown_status
  | Cancel_raised store_exc

definition delete_job ::
    "(string \<Rightarrow> int option) \<Rightarrow> string \<Rightarrow> write_attempt \<Rightarrow> write_attempt \<Rightarrow> string \<Rightarrow> string \<Rightarrow> job_store \<Rightarrow> delete_answer \<times> job_store" where
  "delete_job fromiso now a1 a2 ns jid st =
     (case get jid st of
        None \<Rightarrow> (Job_not_found, st)
      | Some j \<Rightarrow>
          (if namespace j \<noteq> ns then (Job_not_found, st)
           else if status j \<in> set terminal_statuses then (Job_shown, st)
           else if is_sync_job j then (Sync_not_cancellable, st)
           else if details j = DescriptionJob then (Description_not_cancellable, st)
           else if status j \<in> {RUNNING, PENDING} then
             (case transition fromiso now a1 a2 (job_id j) [RUNNING, PENDING] CANCELLING
                     [Set_cancel_requested True, Set_cancelled_before_start (status j = PENDING)] st of
                (Inl e, st') \<Rightarrow> (if is_exception e then Cancel_failed else Cancel_raised e, st')
              | (Inr None, st') \<Rightarrow> (if get jid st' = None then Job_not_found else Job_shown, st')
              | (Inr (Some _), st') \<Rightarrow> (Cancel_accepted, st'))
           else if status j = CANCELLING then (Cancel_accepted, st)
           else (Unknown_status, st)))"

section \<open>A server across its restarts\<close>

text \<open>What the rest of the server does to the job store while a startup sync runs under the job \<open>busy\<close>; other tasks write their own jobs.\<close>

inductive job_op :: "(string \<Rightarrow> int option) \<Rightarrow> string set \<Rightarrow> job_store \<Rightarrow> job_store \<Rightarrow> bool" for fromiso busy where
  op_create: "post_init_ok j \<Longrightarrow> stamp_ok fromiso (updated_at j) \<Longrightarrow> job_id j \<notin> busy \<Longrightarrow>
     create_job fromiso a1 a2 j st = (rc, st') \<Longrightarrow> job_op fromiso busy st st'"
| op_update: "stamp_ok fromiso now \<Longrightarrow> jid \<notin> busy \<Longrightarrow> update fromiso now a jid cs st = (ru, st') \<Longrightarrow> job_op fromiso busy st st'"
| op_transition: "stamp_ok fromiso now \<Longrightarrow> jid \<notin> busy \<Longrightarrow>
     transition fromiso now a1 a2 jid from_sts to_st flds st = (rt, st') \<Longrightarrow> job_op fromiso busy st st'"
| op_cancel_retries: "stamp_ok fromiso now \<Longrightarrow> cancel_ingest_retries fromiso now a1 a2 coll st = (rx, st') \<Longrightarrow> job_op fromiso busy st st'"
| op_delete_job: "stamp_ok fromiso now \<Longrightarrow> delete_job fromiso now a1 a2 ns jid st = (rd, st') \<Longrightarrow> job_op fromiso busy st st'"
| op_supersede: "stamp_ok fromiso now \<Longrightarrow> supersede_legacy_sync_jobs fromiso now att st = (rs, st') \<Longrightarrow> job_op fromiso busy st st'"

definition busy_jobs :: "server \<Rightarrow> string set" where
  "busy_jobs s = (case sv_startup s of Startup_runs (Some jid) \<Rightarrow> {jid} | _ \<Rightarrow> {})"

text \<open>What happened in a step: the outcome of a boot's write, the collections and the sentinel's write at the decision, and so on.\<close>

datatype server_event =
    Opened write_outcome
  | Decided "string list" write_outcome
  | Startup_event
  | Manual_sync_ended sync_end
  | Job_event
  | Died boot_phase

definition dies :: "server \<Rightarrow> server" where
  "dies s = s\<lparr>sv_phase := Stopped, sv_startup := No_startup, sv_result := None, sv_sync_failed := False\<rparr>"

inductive server_step :: "(string \<Rightarrow> int option) \<Rightarrow> server \<Rightarrow> server_event \<Rightarrow> server \<Rightarrow> bool" for fromiso where
  sv_opens: "sv_phase s = Stopped \<Longrightarrow> stamp_ok fromiso now_iso \<Longrightarrow>
     server_step fromiso s (Opened (outcome a)) (run_server fromiso now_iso now a s)"
| sv_decides: "sv_phase s = Store_loaded \<Longrightarrow> server_step fromiso s (Decided cols w) (decide_startup_sync cols w s)"
| sv_begins: "sv_phase s = Serving \<Longrightarrow> sv_startup s = Startup_created \<Longrightarrow> stamp_ok fromiso now \<Longrightarrow>
     server_step fromiso s Startup_event (startup_sync_begins fromiso a1 a2 jid now s)"
| sv_ends: "sv_phase s = Serving \<Longrightarrow> sv_startup s = Startup_runs job \<Longrightarrow> stamp_ok fromiso now \<Longrightarrow> stamp_ok fromiso later \<Longrightarrow>
     server_step fromiso s Startup_event (startup_sync_ends fromiso now a1 later a2 job out s)"
| sv_manual: "sv_phase s = Serving \<Longrightarrow> stamp_ok fromiso now \<Longrightarrow> jid \<notin> busy_jobs s \<Longrightarrow>
     server_step fromiso s (Manual_sync_ended out) (sync_task_ends fromiso now a unlinked jid out summary s)"
| sv_job: "sv_phase s \<noteq> Stopped \<Longrightarrow> job_op fromiso (busy_jobs s) (sv_store s) st \<Longrightarrow> server_step fromiso s Job_event (s\<lparr>sv_store := st\<rparr>)"
| sv_dies: "server_step fromiso s (Died (sv_phase s)) (dies s)"

inductive_simps server_step_iff: "server_step fromiso s e s'"

definition new_server :: "server \<Rightarrow> bool" where
  "new_server s \<longleftrightarrow>
     s = \<lparr>sv_store = \<lparr>jobs = [], jfile = No_file, crashed_ingest_on_load = False\<rparr>, sv_sentinel = False, sv_result = None,
          sv_sync_failed = False, sv_phase = Stopped, sv_startup = No_startup\<rparr>"

end
