(* ===== verification/Crash_Guard_Facts.thy ===== *)
theory Crash_Guard_Facts
  imports Crash_Guard
begin

text \<open>While the startup sync runs under its job, every operation of the rest of the server leaves the job running in memory and in the file.\<close>

section \<open>The mark\<close>

definition sync_mark :: "job \<Rightarrow> bool" where
  "sync_mark j \<longleftrightarrow> status j = RUNNING \<and> is_sync_job j"

definition in_memory :: "string \<Rightarrow> job_store \<Rightarrow> bool" where
  "in_memory k st \<longleftrightarrow> (\<exists>j. dict_get (jobs st) k = Some j \<and> sync_mark j)"

definition on_disk :: "string \<Rightarrow> jobs_file \<Rightarrow> bool" where
  "on_disk k f \<longleftrightarrow> (\<exists>rs j. f = Rows rs \<and> row_of_job j \<in> set rs \<and> job_id j = k \<and> post_init_ok j \<and> sync_mark j)"

definition marked :: "string \<Rightarrow> job_store \<Rightarrow> bool" where
  "marked k st \<longleftrightarrow> store_inv st \<and> in_memory k st \<and> on_disk k (jfile st)"

lemma sync_mark_arms: "sync_mark j \<Longrightarrow> arms_guard j"
  by (auto simp: sync_mark_def is_sync_job_def arms_guard_def ingest_family_job_types_def split: job_details.splits)

lemma in_memory_on_disk:
  assumes "store_inv st" "in_memory k st"
  shows "on_disk k (Rows (rows_of (jobs st)))"
proof -
  obtain j where j: "dict_get (jobs st) k = Some j" "sync_mark j" using assms(2) by (auto simp: in_memory_def)
  then have "job_id j = k" "post_init_ok j" using assms(1) jobs_wf_getD unfolding store_inv_def by blast+
  moreover have "row_of_job j \<in> set (rows_of (jobs st))"
    using dict_get_SomeD [OF j(1)] by (force simp: rows_of_def dict_values_def)
  ultimately show ?thesis using j(2) unfolding on_disk_def by blast
qed

lemma write_atomic_memory:
  assumes "write_atomic fromiso a st = (r, st')" "store_inv st" "in_memory k st"
  shows "in_memory k st'"
  using assms write_atomic_get_nonterminal [OF assms(1,2)] by (auto simp: in_memory_def sync_mark_def status_class_defs)

lemma write_atomic_marked:
  assumes "write_atomic fromiso a st = (r, st')" "store_inv st" "in_memory k st" "on_disk k (jfile st)"
  shows "marked k st'"
proof -
  have st': "store_inv st'" "in_memory k st'"
    using write_atomic_inv [OF assms(1,2)] write_atomic_memory [OF assms(1-3)] by blast+
  from assms(1) have "jfile st' = jfile st \<or> jfile st' = Rows (rows_of (jobs st'))"
    by (cases rule: write_atomic_cases) auto
  then show ?thesis using st' assms(4) in_memory_on_disk by (auto simp: marked_def)
qed

lemma write_atomic_marks:
  assumes "write_atomic fromiso a st = (Inr u, st')" "store_inv st" "in_memory k st"
  shows "marked k st'"
  using write_atomic_inv [OF assms(1,2)] write_atomic_memory [OF assms] write_atomic_Inr [OF assms(1)] in_memory_on_disk
  by (auto simp: marked_def file_current_def)

lemma marked_set: "marked k st \<Longrightarrow> k' \<noteq> k \<Longrightarrow> store_inv (st\<lparr>jobs := dict_set k' j (jobs st)\<rparr>) \<Longrightarrow> marked k (st\<lparr>jobs := dict_set k' j (jobs st)\<rparr>)"
  by (auto simp: marked_def in_memory_def)

lemma marked_del: "marked k st \<Longrightarrow> k' \<noteq> k \<Longrightarrow> marked k (st\<lparr>jobs := dict_del k' (jobs st)\<rparr>)"
  by (auto simp: marked_def in_memory_def removed_inv)

lemma marked_written: "write_atomic fromiso a st = (r, st') \<Longrightarrow> marked k st \<Longrightarrow> marked k st'"
  by (rule write_atomic_marked) (auto simp: marked_def)

lemma marked_inv: "marked k st \<Longrightarrow> store_inv st"
  by (simp add: marked_def)

section \<open>The operations of the store\<close>

lemma update_marked:
  assumes "update fromiso now a jid cs st = (r, st')" "marked k st" "jid \<noteq> k"
  shows "marked k st'"
  using assms(1)
proof (cases rule: update_cases)
  case (written j j' w)
  have "marked k (st\<lparr>jobs := dict_set jid j' (jobs st)\<rparr>)"
    using replaced_wf [OF marked_inv [OF assms(2)] written(1,2)] assms(2,3) by (rule marked_set [rotated 2])
  then show ?thesis using marked_written written(3) by blast
qed (use assms in auto)

lemma reraise_marked: "reraise_after_rewrite fromiso a e st = (r, st') \<Longrightarrow> marked k st \<Longrightarrow> marked k st'"
  using reraise_cases(1) marked_written by blast

lemma transition_marked:
  assumes "transition fromiso now a1 a2 jid from_sts to_st flds st = (r, st')" "marked k st" "jid \<noteq> k"
  shows "marked k st'"
  using assms(1)
proof (cases rule: transition_cases)
  case (failed j e s1)
  have s1: "marked k s1" using update_marked [OF failed(3) assms(2,3)] .
  have "marked k (s1\<lparr>jobs := dict_set jid j (jobs s1)\<rparr>)"
    using s1 assms(3) restored_inv [OF marked_inv [OF assms(2)] marked_inv [OF s1] failed(1)] by (rule marked_set)
  then show ?thesis using reraise_marked failed(4) by blast
qed (use assms update_marked in auto)

lemma create_marked:
  assumes "create_job fromiso a1 a2 j st = (r, st')" "marked k st" "job_id j \<noteq> k" "post_init_ok j"
  shows "marked k st'"
proof -
  have add: "marked k (st\<lparr>jobs := dict_set (job_id j) j (jobs st)\<rparr>)"
    using assms(2,3) added_inv [OF marked_inv [OF assms(2)] assms(4)] by (rule marked_set)
  from assms(1) show ?thesis
  proof (cases rule: create_job_cases)
    case created
    then show ?thesis using marked_written add by blast
  next
    case (failed e s1)
    then show ?thesis using reraise_marked marked_del [OF marked_written [OF failed(1) add] assms(3)] by blast
  qed
qed

lemma create_marks:
  assumes "create_job fromiso a1 a2 (new_sync k now ns) st = (Inr j, st')" "store_inv st"
  shows "marked k st' \<and> job_id j = k"
proof -
  let ?j = "new_sync k now ns"
  have ok: "post_init_ok ?j" "job_id ?j = k" "sync_mark ?j"
    by (auto simp: new_sync_def base_job_def post_init_ok_def sync_mark_def is_sync_job_def valid_ingest_sources_def)
  from assms(1) show ?thesis
  proof (cases rule: create_job_cases)
    case created
    have "in_memory k (st\<lparr>jobs := dict_set (job_id ?j) ?j (jobs st)\<rparr>)" using ok by (simp add: in_memory_def)
    then show ?thesis using write_atomic_marks [OF created(1) added_inv [OF assms(2) ok(1)]] created(2) ok(2) by auto
  next
    case (failed e s1)
    then show ?thesis by (auto dest: reraise_cases(2))
  qed
qed

lemma cancel_retries_marked:
  assumes "cancel_ingest_retries fromiso now a1 a2 coll st = (r, st')" "marked k st"
  shows "marked k st'"
proof -
  let ?old = "retry_jobs coll (jobs st)"
  have wf: "jobs_wf (jobs st)" using assms(2) by (simp add: marked_def store_inv_def)
  obtain j where j: "dict_get (jobs st) k = Some j" "sync_mark j" using assms(2) by (auto simp: marked_def in_memory_def)
  have none: "k \<notin> fst ` set ?old"
  proof
    assume "k \<in> fst ` set ?old"
    then obtain j' where "(k, j') \<in> set (jobs st)" "retry_cancellable coll j'" by (auto simp: retry_jobs_eq [OF wf])
    then have "retry_cancellable coll j" using j(1) jobs_wf_get_iff [OF wf, of k j'] by simp
    then show False using j(2) by (simp add: sync_mark_def is_sync_job_def retry_cancellable_def is_base_ingest_def)
  qed
  have kept: "marked k (s\<lparr>jobs := dict_set_all kvs (jobs s)\<rparr>)" if "marked k s" "jobs_wf kvs" "k \<notin> fst ` set kvs" for s kvs
  proof -
    have "dict_get kvs k = None" using that(3) by (simp add: dict_get_def map_of_eq_None_iff)
    then have "dict_get (dict_set_all kvs (jobs s)) k = dict_get (jobs s) k"
      using that(2) by (simp add: jobs_wf_def dict_get_set_all)
    then show ?thesis using that(1,2) by (simp add: marked_def in_memory_def store_inv_def dict_set_all_wf)
  qed
  have new: "marked k (st\<lparr>jobs := dict_set_all (cancel_copy now ?old) (jobs st)\<rparr>)"
    using none by (intro kept assms(2) cancel_copy_wf retry_jobs_wf wf) (auto simp: cancel_copy_def image_iff)
  from assms(1) show ?thesis
  proof (cases rule: cancel_cases)
    case (failed e s1)
    have "marked k (s1\<lparr>jobs := dict_set_all ?old (jobs s1)\<rparr>)"
      using none by (intro kept marked_written [OF failed(1) new] retry_jobs_wf wf)
    then show ?thesis using failed(2) rewrite_cases marked_written by blast
  qed (use assms(2) new marked_written in auto)
qed

section \<open>The routes\<close>

lemma persist_marked: "persist_job_status fromiso now a jid cs st = (r, st') \<Longrightarrow> marked k st \<Longrightarrow> jid \<noteq> k \<Longrightarrow> marked k st'"
  by (auto simp: persist_job_status_def split: prod.splits sum.splits if_splits intro: update_marked)

lemma supersede_marked:
  assumes "supersede_legacy_sync_jobs fromiso now att st = (r, st')" "marked k st"
  shows "marked k st'"
proof (rule run_all_inv [OF assms(1) [unfolded supersede_legacy_sync_jobs_def], where P = "marked k"])
  have wf: "jobs_wf (jobs st)" using assms(2) by (simp add: marked_def store_inv_def)
  obtain j where j: "dict_get (jobs st) k = Some j" "sync_mark j" using assms(2) by (auto simp: marked_def in_memory_def)
  fix x w r w' assume x: "x \<in> set (list_jobs st)" and m: "marked k w"
    and step: "(if is_sync_job x \<and> status x \<in> set legacy_sync_statuses
      then persist_job_status fromiso now (att (job_id x)) (job_id x) [Set_status FAILED, Set_error (Some sync_superseded_detail)] w
      else (None, w)) = (r, w')"
  have "x = j" if "job_id x = k"
    using x that j(1) jobs_wf_values_iff [OF wf] by (simp add: list_jobs_def)
  then have "job_id x \<noteq> k" if "status x \<in> set legacy_sync_statuses"
    using that j(2) by (auto simp: sync_mark_def legacy_sync_statuses_def)
  then show "marked k w'" using step m persist_marked by (auto split: if_splits)
qed (rule assms(2))

lemma delete_marked:
  assumes "delete_job fromiso now a1 a2 ns jid st = (r, st')" "marked k st"
  shows "marked k st'"
proof (cases "st' = st")
  case False
  then obtain j where j: "get jid st = Some j" "\<not> is_sync_job j"
    and t: "\<exists>r. transition fromiso now a1 a2 (job_id j) [RUNNING, PENDING] CANCELLING
      [Set_cancel_requested True, Set_cancelled_before_start (status j = PENDING)] st = (r, st')"
    using assms(1) by (auto simp: delete_job_def split: option.splits if_splits prod.splits sum.splits)
  have "job_id j = jid" using j(1) assms(2) jobs_wf_getD unfolding marked_def store_inv_def get_def by blast
  moreover have "jid \<noteq> k" using j assms(2) by (auto simp: get_def marked_def in_memory_def sync_mark_def)
  ultimately show ?thesis using t transition_marked assms(2) by blast
qed (use assms(2) in simp)

lemma job_op_marked: "job_op fromiso busy st st' \<Longrightarrow> k \<in> busy \<Longrightarrow> marked k st \<Longrightarrow> marked k st'"
proof (induction rule: job_op.induct)
  case (op_create j a1 a2 st rc st')
  then show ?case using create_marked by blast
next
  case (op_update now jid a cs st ru st')
  then show ?case using update_marked by blast
next
  case (op_transition now jid a1 a2 from_sts to_st flds st rt st')
  then show ?case using transition_marked by blast
next
  case (op_cancel_retries now a1 a2 coll st rx st')
  then show ?case using cancel_retries_marked by blast
next
  case (op_delete_job now a1 a2 ns jid st rd st')
  then show ?case using delete_marked by blast
next
  case (op_supersede now att st rs st')
  then show ?case using supersede_marked by blast
qed

end
