(* ===== verification/Crash_Guard_Properties.thy ===== *)
theory Crash_Guard_Properties
  imports Crash_Guard_Facts
begin

text \<open>A startup sync that killed its process is not entered again.\<close>

section \<open>The mark of a running startup sync\<close>

lemma delete_machine:
  assumes "delete_job fromiso now a1 a2 ns jid st = (r, st')" "machine_inv fromiso st" "stamp_ok fromiso now"
  shows "machine_inv fromiso st'"
proof (cases "st' = st")
  case False
  then obtain i from_sts to_st flds r' where "transition fromiso now a1 a2 i from_sts to_st flds st = (r', st')"
    using assms(1) by (auto simp: delete_job_def split: option.splits if_splits prod.splits sum.splits)
  then show ?thesis using transition_machine assms(2,3) by blast
qed (use assms(2) in simp)

lemma persist_machine:
  "persist_job_status fromiso now a jid cs st = (r, st') \<Longrightarrow> machine_inv fromiso st \<Longrightarrow> stamp_ok fromiso now \<Longrightarrow> machine_inv fromiso st'"
  by (auto simp: persist_job_status_def split: prod.splits sum.splits if_splits intro: update_machine)

lemma supersede_machine:
  assumes "supersede_legacy_sync_jobs fromiso now att st = (r, st')" "machine_inv fromiso st" "stamp_ok fromiso now"
  shows "machine_inv fromiso st'"
  using assms(1)[unfolded supersede_legacy_sync_jobs_def] assms(2)
  by (rule run_all_inv) (use persist_machine assms(3) in \<open>auto split: if_splits\<close>)

lemma job_op_machine: "job_op fromiso busy st st' \<Longrightarrow> machine_inv fromiso st \<Longrightarrow> machine_inv fromiso st'"
  by (induction rule: job_op.induct)
    (auto intro: create_job_machine update_machine transition_machine cancel_machine delete_machine supersede_machine)

lemma finish_machine:
  "finish_startup_sync_job fromiso now a job cs st = (r, st') \<Longrightarrow> machine_inv fromiso st \<Longrightarrow> stamp_ok fromiso now \<Longrightarrow> machine_inv fromiso st'"
  by (auto simp: finish_startup_sync_job_def split: option.splits prod.splits sum.splits if_splits intro: update_machine)

definition server_inv :: "(string \<Rightarrow> int option) \<Rightarrow> server \<Rightarrow> bool" where
  "server_inv fromiso s \<longleftrightarrow>
     machine_inv fromiso (sv_store s) \<and> (\<forall>k. sv_startup s = Startup_runs (Some k) \<longrightarrow> marked k (sv_store s)) \<and>
     (sv_phase s \<noteq> Serving \<longrightarrow> sv_startup s = No_startup)"

lemma server_updates [simp]:
  "sv_store (write_sync_suppressed_sentinel w s) = sv_store s" "sv_startup (write_sync_suppressed_sentinel w s) = sv_startup s"
  "sv_store (clear_sync_suppressed_sentinel b s) = sv_store s" "sv_startup (clear_sync_suppressed_sentinel b s) = sv_startup s"
  "sv_phase (clear_sync_suppressed_sentinel b s) = sv_phase s"
  "sv_store (clear_degraded_sync_state b s) = sv_store s" "sv_startup (clear_degraded_sync_state b s) = sv_startup s"
  "sv_phase (clear_degraded_sync_state b s) = sv_phase s"
  "sv_phase (startup_failed s) = sv_phase s" "sv_phase (startup_outcome out s) = sv_phase s"
  by (auto simp: write_sync_suppressed_sentinel_def clear_sync_suppressed_sentinel_def clear_degraded_sync_state_def startup_failed_def
      startup_outcome_def split: write_outcome.splits sync_end.splits)

lemma run_server_inv:
  assumes "server_inv fromiso s" "stamp_ok fromiso now_iso" "sv_phase s = Stopped"
  shows "server_inv fromiso (run_server fromiso now_iso now a s)"
proof -
  have "file_wf fromiso (jfile (sv_store s))" using assms(1) machine_inv_file by (auto simp: server_inv_def)
  then show ?thesis
    using assms init_store_machine [of fromiso now_iso now a "jfile (sv_store s)"]
    by (auto simp: server_inv_def run_server_def split: prod.splits sum.splits)
qed

lemma startup_begins_inv:
  assumes "server_inv fromiso s" "stamp_ok fromiso now" "sv_phase s = Serving"
  shows "server_inv fromiso (startup_sync_begins fromiso a1 a2 jid now s)"
proof -
  have inv: "machine_inv fromiso (sv_store s)" using assms(1) by (simp add: server_inv_def)
  obtain r st where c: "create_job fromiso a1 a2 (new_sync jid now default_namespace) (sv_store s) = (r, st)" by fastforce
  have "machine_inv fromiso st"
    by (rule create_job_machine [OF c inv]) (use assms(2) in \<open>simp_all add: new_sync_def base_job_def post_init_ok_def valid_ingest_sources_def\<close>)
  moreover have "marked jid st \<and> job_id j = jid" if "r = Inr j" for j
    using create_marks c that inv by (auto simp: machine_inv_def)
  ultimately show ?thesis
    using assms(3) c
    by (cases r) (auto simp: server_inv_def startup_sync_begins_def start_startup_sync_job_def)
qed

lemma startup_ends_inv:
  assumes "server_inv fromiso s" "stamp_ok fromiso now" "stamp_ok fromiso later" "sv_phase s = Serving"
  shows "server_inv fromiso (startup_sync_ends fromiso now a1 later a2 job out s)"
proof -
  obtain e st where f: "finish_startup_sync_job fromiso now a1 job (startup_fields out) (sv_store s) = (e, st)" by fastforce
  have st: "machine_inv fromiso st" using finish_machine [OF f] assms(1,2) by (simp add: server_inv_def)
  then have "machine_inv fromiso (snd (finish_startup_sync_job fromiso later a2 job cs st))" for cs
    using finish_machine assms(3) prod.collapse by metis
  then show ?thesis
    using st assms(4) by (simp add: server_inv_def startup_sync_ends_def f split: option.splits sync_end.splits)
qed

lemma sync_task_ends_store:
  "\<exists>cs. sv_store (sync_task_ends fromiso now a unlinked jid out summary s) = snd (persist_job_status fromiso now a jid cs (sv_store s))"
  by (cases out) (auto simp: sync_task_ends_def Let_def)

lemma sync_task_ends_frame [simp]:
  "sv_phase (sync_task_ends fromiso now a unlinked jid out summary s) = sv_phase s"
  "sv_startup (sync_task_ends fromiso now a unlinked jid out summary s) = sv_startup s"
  by (cases out; simp add: sync_task_ends_def Let_def)+

lemma sync_task_ends_inv:
  assumes "server_inv fromiso s" "stamp_ok fromiso now" "jid \<notin> busy_jobs s"
  shows "server_inv fromiso (sync_task_ends fromiso now a unlinked jid out summary s)"
proof -
  obtain cs where st: "sv_store (sync_task_ends fromiso now a unlinked jid out summary s) = snd (persist_job_status fromiso now a jid cs (sv_store s))"
    using sync_task_ends_store by blast
  obtain r st' where p: "persist_job_status fromiso now a jid cs (sv_store s) = (r, st')" by fastforce
  have "machine_inv fromiso st'" using persist_machine [OF p] assms(1,2) by (simp add: server_inv_def)
  moreover have "marked k st'" if "sv_startup s = Startup_runs (Some k)" for k
    by (rule persist_marked [OF p]) (use that assms(1,3) in \<open>auto simp: server_inv_def busy_jobs_def\<close>)
  ultimately show ?thesis using assms(1) by (simp add: server_inv_def st p)
qed

lemma server_step_inv: "server_step fromiso s e t \<Longrightarrow> server_inv fromiso s \<Longrightarrow> server_inv fromiso t"
proof (induction rule: server_step.induct)
  case (sv_opens s now_iso a now)
  then show ?case using run_server_inv by blast
next
  case (sv_begins s now a1 a2 jid)
  then show ?case using startup_begins_inv by blast
next
  case (sv_ends s job now later a1 a2 out)
  then show ?case using startup_ends_inv by blast
next
  case (sv_manual s now jid out a unlinked summary)
  then show ?case using sync_task_ends_inv by blast
next
  case (sv_job s st)
  then show ?case using job_op_machine job_op_marked [OF sv_job(2)] by (auto simp: server_inv_def busy_jobs_def)
qed (auto simp: server_inv_def decide_startup_sync_def dies_def)

interpretation server: machine_invariant new_server "\<lambda>s t. \<exists>e. server_step fromiso s e t" "server_inv fromiso" for fromiso
proof unfold_locales
  show "new_server s \<Longrightarrow> server_inv fromiso s" for s
    by (simp add: new_server_def server_inv_def machine_inv_def store_inv_def file_wf_def)
qed (use server_step_inv in blast)

section \<open>Quiet runs\<close>

text \<open>
  Runs in which nothing ends the suppression: no manual sync is clean; every boot that loads the job store gets to its decision, with
  collections configured, and its sentinel is written; and a boot whose rewrite of the job file raised has not published it.
\<close>

fun quiet :: "server_event \<Rightarrow> bool" where
  "quiet (Opened (Raised_after _)) = False"
| "quiet (Opened _) = True"
| "quiet (Decided cols w) = (cols \<noteq> [] \<and> (case w of Raised_before _ \<Rightarrow> False | _ \<Rightarrow> True))"
| "quiet (Manual_sync_ended (Clean _)) = False"
| "quiet (Manual_sync_ended _) = True"
| "quiet (Died ph) = (ph \<noteq> Store_loaded)"
| "quiet _ = True"

definition quiet_step :: "(string \<Rightarrow> int option) \<Rightarrow> server \<Rightarrow> server \<Rightarrow> bool" where
  "quiet_step fromiso s t \<longleftrightarrow> (\<exists>e. quiet e \<and> server_step fromiso s e t)"

text \<open>A job file that the next load takes for that of a process that died while it ingested.\<close>

definition file_armed :: "(string \<Rightarrow> int option) \<Rightarrow> jobs_file \<Rightarrow> bool" where
  "file_armed fromiso f \<longleftrightarrow>
     (\<exists>js. jobs_wf js \<and> jobs_stamped fromiso js \<and> f = Rows (rows_of js) \<and> (\<exists>j \<in> set (dict_values js). arms_guard j))"

definition suppressing :: "(string \<Rightarrow> int option) \<Rightarrow> server \<Rightarrow> bool" where
  "suppressing fromiso s \<longleftrightarrow>
     machine_inv fromiso (sv_store s) \<and> sv_startup s = No_startup \<and>
     (case sv_phase s of
        Stopped \<Rightarrow> sv_sentinel s \<or> file_armed fromiso (jfile (sv_store s))
      | Store_loaded \<Rightarrow> sv_sentinel s \<or> crashed_ingest_on_load (sv_store s)
      | Serving \<Rightarrow> sv_sentinel s \<and> sv_result s = Some Sync_suppressed)"

lemma on_disk_armed:
  assumes "on_disk k f" "file_wf fromiso f"
  shows "file_armed fromiso f"
proof -
  obtain rs j where j: "f = Rows rs" "row_of_job j \<in> set rs" "post_init_ok j" "sync_mark j"
    using assms(1) by (auto simp: on_disk_def)
  obtain js where js: "jobs_wf js" "jobs_stamped fromiso js" "rs = rows_of js"
    using assms(2) j(1) by (auto simp: file_wf_def)
  obtain j' where j': "j' \<in> set (dict_values js)" "row_of_job j' = row_of_job j" using j(2) js(3) by (auto simp: rows_of_def)
  have "post_init_ok j'" using js(1) j'(1) by (auto simp: jobs_wf_def dict_values_def)
  then have "Some j' = job_of_row (row_of_job j)" using job_row_roundtrip [of j', symmetric] j'(2) by metis
  then have "j' = j" using job_row_roundtrip [OF j(3)] by (metis option.inject)
  then show ?thesis using j js j'(1) sync_mark_arms unfolding file_armed_def by blast
qed

lemma init_store_armed:
  assumes "init_store fromiso now_iso now a f = (r, st)" "file_armed fromiso f" "stamp_ok fromiso now_iso" "\<forall>e. outcome a \<noteq> Raised_after e"
  shows "crashed_ingest_on_load st \<and> (\<forall>e. r = Inl e \<longrightarrow> jfile st = f)"
proof -
  obtain js where js: "jobs_wf js" "jobs_stamped fromiso js" "f = Rows (rows_of js)" "\<exists>j \<in> set (dict_values js). arms_guard j"
    using assms(2) by (auto simp: file_armed_def)
  obtain st0 changed where l: "load fromiso now_iso now f = (st0, changed)" by fastforce
  then have st0: "crashed_ingest_on_load st0" "jfile st0 = f"
    using load_own_file [OF js(1,2) assms(3)] js(3,4) by blast+
  show ?thesis
  proof (cases changed)
    case True
    then have w: "write_atomic fromiso a st0 = (r, st)" using assms(1) l by (simp add: init_store_def)
    then show ?thesis
      using st0 write_atomic_latch [OF w] assms(4) by (cases rule: write_atomic_cases) auto
  qed (use assms(1) l st0 in \<open>auto simp: init_store_def\<close>)
qed

lemma update_latch: "update fromiso now a jid cs st = (r, st') \<Longrightarrow> crashed_ingest_on_load st' = crashed_ingest_on_load st"
  by (erule update_cases) (auto dest: write_atomic_latch)

lemma reraise_latch: "reraise_after_rewrite fromiso a e st = (r, st') \<Longrightarrow> crashed_ingest_on_load st' = crashed_ingest_on_load st"
  by (auto dest!: reraise_cases(1) write_atomic_latch)

lemma transition_latch:
  "transition fromiso now a1 a2 jid from_sts to_st flds st = (r, st') \<Longrightarrow> crashed_ingest_on_load st' = crashed_ingest_on_load st"
  by (erule transition_cases) (auto dest!: update_latch reraise_latch)

lemma create_latch: "create_job fromiso a1 a2 j st = (r, st') \<Longrightarrow> crashed_ingest_on_load st' = crashed_ingest_on_load st"
  by (erule create_job_cases) (auto dest!: write_atomic_latch reraise_latch)

lemma cancel_latch:
  "cancel_ingest_retries fromiso now a1 a2 coll st = (r, st') \<Longrightarrow> crashed_ingest_on_load st' = crashed_ingest_on_load st"
  by (erule cancel_cases) (auto dest!: write_atomic_latch rewrite_cases)

lemma delete_latch: "delete_job fromiso now a1 a2 ns jid st = (r, st') \<Longrightarrow> crashed_ingest_on_load st' = crashed_ingest_on_load st"
  by (auto simp: delete_job_def split: option.splits if_splits prod.splits sum.splits dest: transition_latch)

lemma supersede_latch:
  assumes "supersede_legacy_sync_jobs fromiso now att st = (r, st')"
  shows "crashed_ingest_on_load st' = crashed_ingest_on_load st"
  using assms[unfolded supersede_legacy_sync_jobs_def]
  by (rule run_all_inv [where P = "\<lambda>w. crashed_ingest_on_load w = crashed_ingest_on_load st"])
    (auto simp: persist_job_status_def split: if_splits prod.splits sum.splits dest: update_latch)

lemma job_op_latch: "job_op fromiso busy st st' \<Longrightarrow> crashed_ingest_on_load st' = crashed_ingest_on_load st"
  by (induction rule: job_op.induct)
    (erule create_latch update_latch transition_latch cancel_latch delete_latch supersede_latch)+

lemma run_server_suppressing:
  assumes "suppressing fromiso s" "sv_phase s = Stopped" "stamp_ok fromiso now_iso" "quiet (Opened (outcome a))"
  shows "suppressing fromiso (run_server fromiso now_iso now a s)"
proof -
  obtain r st where i: "init_store fromiso now_iso now a (jfile (sv_store s)) = (r, st)" by fastforce
  have "machine_inv fromiso st"
    using init_store_machine [OF i _ assms(3)] assms(1) machine_inv_file by (auto simp: suppressing_def)
  moreover have "\<forall>e. outcome a \<noteq> Raised_after e" using assms(4) by (cases "outcome a") auto
  then have "crashed_ingest_on_load st \<and> (\<forall>e. r = Inl e \<longrightarrow> jfile st = jfile (sv_store s))" if "file_armed fromiso (jfile (sv_store s))"
    using init_store_armed [OF i that assms(3)] by blast
  ultimately show ?thesis
    using assms(1,2) by (cases r) (auto simp: suppressing_def run_server_def i)
qed

lemma quiet_step_suppressing:
  assumes "quiet_step fromiso s t" "suppressing fromiso s"
  shows "suppressing fromiso t"
proof -
  obtain e where e: "quiet e" "server_step fromiso s e t" using assms(1) by (auto simp: quiet_step_def)
  from e(2) show ?thesis
  proof cases
    case (sv_opens now_iso a now)
    then show ?thesis using run_server_suppressing assms(2) e(1) by blast
  next
    case (sv_decides cols w)
    then show ?thesis
      using assms(2) e(1)
      by (auto simp: suppressing_def decide_startup_sync_def write_sync_suppressed_sentinel_def split: write_outcome.splits)
  next
    case (sv_manual now jid out a unlinked summary)
    obtain cs where st: "sv_store t = snd (persist_job_status fromiso now a jid cs (sv_store s))"
      using sync_task_ends_store sv_manual(2) by blast
    have "machine_inv fromiso (sv_store t)"
      unfolding st by (rule persist_machine [OF prod.collapse [symmetric]]) (use sv_manual assms(2) in \<open>simp_all add: suppressing_def\<close>)
    then show ?thesis
      using sv_manual assms(2) e(1) by (cases out) (auto simp: suppressing_def sync_task_ends_def Let_def)
  next
    case (sv_job st)
    then show ?thesis
      using assms(2) job_op_machine job_op_latch by (auto simp: suppressing_def split: boot_phase.splits)
  next
    case sv_dies
    then show ?thesis using assms(2) e(1) by (auto simp: suppressing_def dies_def split: boot_phase.splits)
  qed (use assms(2) in \<open>auto simp: suppressing_def\<close>)
qed

interpretation quiet_server: machine_invariant "\<lambda>u. u = s \<and> suppressing fromiso s" "quiet_step fromiso" "suppressing fromiso" for fromiso s
  by unfold_locales (auto intro: quiet_step_suppressing)

section \<open>No crash loop\<close>

lemma armed_death_suppressing:
  "server_inv fromiso s \<Longrightarrow> file_armed fromiso (jfile (sv_store s)) \<Longrightarrow> suppressing fromiso (dies s)"
  by (simp add: suppressing_def server_inv_def dies_def)

text \<open>Whichever job of the ingest family was running when the process died, the boots after it suppress the sync.\<close>

lemma armed_file_suppresses:
  assumes "server_inv fromiso s" "file_armed fromiso (jfile (sv_store s))" "reachable (\<lambda>u. u = dies s) (quiet_step fromiso) t"
  shows "sv_startup t = No_startup \<and>
    (sv_phase t = Serving \<longrightarrow> sv_result t = Some Sync_suppressed \<and> sync_watched_collection t configured_paths watched = Watch_suppressed)"
proof -
  have "reachable (\<lambda>u. u = dies s \<and> suppressing fromiso (dies s)) (quiet_step fromiso) t"
    using assms(3) armed_death_suppressing [OF assms(1,2)] by simp
  then have "suppressing fromiso t" by (rule quiet_server.inv_reachable)
  then show ?thesis by (auto simp: suppressing_def sync_watched_collection_def)
qed

text \<open>
  C5: A startup sync that the process died in is not entered again. Take any state that a server can reach across boots, deaths, syncs and
  the operations of its other tasks on the job store, each write failing or not, in which the startup sync runs under a job that
  could be recorded, and let the process die there. However often it is started again, no startup sync is started, and once it serves,
  the sync counts as suppressed and the watcher's callback skips every change: until a manual sync is clean, provided that each boot that loads the
  job store reaches its decision with collections configured and its sentinel file is written.
\<close>

theorem startup_crash_is_not_repeated:
  assumes "reachable new_server (\<lambda>s t. \<exists>e. server_step fromiso s e t) s" "sv_startup s = Startup_runs (Some k)"
    and "reachable (\<lambda>u. u = dies s) (quiet_step fromiso) t"
  shows "sv_startup t = No_startup \<and>
    (sv_phase t = Serving \<longrightarrow> sv_result t = Some Sync_suppressed \<and> sync_watched_collection t configured_paths watched = Watch_suppressed)"
proof -
  have inv: "server_inv fromiso s" using server.inv_reachable assms(1) .
  then have "on_disk k (jfile (sv_store s))" "file_wf fromiso (jfile (sv_store s))"
    using assms(2) machine_inv_file by (auto simp: server_inv_def marked_def)
  then show ?thesis using armed_file_suppresses [OF inv on_disk_armed assms(3)] by blast
qed

text \<open>The sanctioned way back: after a clean manual sync whose unlink succeeded, a boot without a new crash syncs again.\<close>

lemma clean_manual_sync_resumes:
  assumes "s' = sync_task_ends fromiso now a True jid (Clean r) summary s" "\<not> crashed_ingest_on_load (sv_store u)"
    and "u = (dies s')\<lparr>sv_store := st\<rparr>" "cols \<noteq> []"
  shows "\<not> sv_sentinel s' \<and> sv_result s' \<noteq> Some Sync_suppressed \<and> sv_startup (decide_startup_sync cols w u) = Startup_created"
  using assms
  by (auto simp: sync_task_ends_def Let_def clear_degraded_sync_state_def clear_sync_suppressed_sentinel_def decide_startup_sync_def dies_def)

section \<open>Runs\<close>

definition epoch :: "string \<Rightarrow> int option" where
  "epoch stamp = Some 0"

abbreviation lands :: write_attempt where
  "lands \<equiv> \<lparr>at_time = 0, outcome = Persisted\<rparr>"

definition first_boot :: server where
  "first_boot =
     \<lparr>sv_store = \<lparr>jobs = [], jfile = No_file, crashed_ingest_on_load = False\<rparr>, sv_sentinel = False, sv_result = None,
      sv_sync_failed = False, sv_phase = Stopped, sv_startup = No_startup\<rparr>"

definition boot :: "server \<Rightarrow> server" where
  "boot s = run_server epoch ''t'' 0 lands s"

definition decide :: "server \<Rightarrow> server" where
  "decide s = decide_startup_sync [''docs''] Persisted s"

definition syncing :: server where
  "syncing = startup_sync_begins epoch lands lands ''j'' ''t'' (decide (boot first_boot))"

abbreviation server_reached :: "server \<Rightarrow> bool" where
  "server_reached \<equiv> reachable new_server (\<lambda>s t. \<exists>e. server_step epoch s e t)"

lemma epoch_ok [simp]: "stamp_ok epoch x"
  by (simp add: stamp_ok_def epoch_def)

lemma boot_step: "sv_phase s = Stopped \<Longrightarrow> server_step epoch s (Opened Persisted) (boot s)"
  using sv_opens [of s epoch "''t''" lands 0] by (simp add: boot_def)

lemma decide_step: "sv_phase s = Store_loaded \<Longrightarrow> server_step epoch s (Decided [''docs''] Persisted) (decide s)"
  by (simp add: decide_def sv_decides)

lemma reached_boot: "server_reached s \<Longrightarrow> sv_phase s = Stopped \<Longrightarrow> server_reached (boot s)"
  using boot_step reach_step by fastforce

lemma reached_decide: "server_reached s \<Longrightarrow> sv_phase s = Store_loaded \<Longrightarrow> server_reached (decide s)"
  using decide_step reach_step by fastforce

lemma reached_dies: "server_reached s \<Longrightarrow> server_reached (dies s)"
  using sv_dies [of epoch s] reach_step by fastforce

lemma syncing_reached: "server_reached syncing"
proof -
  have "server_reached first_boot" by (rule reach_init) (simp add: new_server_def first_boot_def)
  then have "server_reached (boot first_boot)" by (rule reached_boot) code_simp
  then have "server_reached (decide (boot first_boot))" by (rule reached_decide) code_simp
  moreover have "server_step epoch (decide (boot first_boot)) Startup_event syncing"
    unfolding syncing_def by (rule sv_begins) (code_simp, code_simp, simp)
  ultimately show ?thesis using reach_step by fastforce
qed

theorem startup_crash_is_not_repeated_witness:
  "sv_startup syncing = Startup_runs (Some ''j'') \<and> sv_startup (decide (boot (dies syncing))) = No_startup \<and>
   sv_result (decide (boot (dies syncing))) = Some Sync_suppressed \<and>
   sync_watched_collection (decide (boot (dies syncing))) [''/docs''] ''/docs'' = Watch_suppressed"
proof -
  have run: "sv_startup syncing = Startup_runs (Some ''j'')" by code_simp
  have "reachable (\<lambda>u. u = dies syncing) (quiet_step epoch) (boot (dies syncing))"
    by (rule reach_step [OF reach_init]) (use boot_step [of "dies syncing"] in \<open>auto simp: quiet_step_def dies_def intro!: exI [of _ "Opened Persisted"]\<close>)
  moreover have "quiet_step epoch (boot (dies syncing)) (decide (boot (dies syncing)))"
    unfolding quiet_step_def
    by (rule exI [of _ "Decided [''docs''] Persisted"], rule conjI, simp, rule decide_step) code_simp
  ultimately have "reachable (\<lambda>u. u = dies syncing) (quiet_step epoch) (decide (boot (dies syncing)))" by (rule reach_step)
  moreover have "sv_phase (decide (boot (dies syncing))) = Serving" by code_simp
  ultimately show ?thesis using startup_crash_is_not_repeated [OF syncing_reached run] run by blast
qed

text \<open>
  Loading the job store rewrites the job that marks the crash, and the sentinel is written only at the decision. A process that dies or fails to
  start in between leaves neither: the third boot enters the sync again, without any manual sync.
\<close>

lemma marker_lost_before_sentinel:
  "server_reached (decide (boot (dies (boot (dies syncing))))) \<and> crashed_ingest_on_load (sv_store (boot (dies syncing))) \<and>
   sv_startup (decide (boot (dies (boot (dies syncing))))) = Startup_created"
proof (intro conjI)
  show "server_reached (decide (boot (dies (boot (dies syncing)))))"
    by (intro reached_decide reached_boot reached_dies syncing_reached) code_simp+
  show "crashed_ingest_on_load (sv_store (boot (dies syncing)))" by code_simp
  show "sv_startup (decide (boot (dies (boot (dies syncing))))) = Startup_created" by code_simp
qed

end
