(* ===== verification/Orphan_Sweep.thy ===== *)
theory Orphan_Sweep
  imports Py_Strings
begin

text \<open>
  The maintenance loop's orphan sweep (\<open>_run_orphan_cleanup\<close> of \<open>jobs/maintenance_loop.py\<close>): it deletes the documents whose file is gone, but not
  those that never came from a file of this host (inline or imported). The rows of the collection are a list; the file system and the
  store answer per path, and other tasks may write rows while the sweep waits.
\<close>

section \<open>Rows\<close>

text \<open>The text of a row's metadata, by what \<open>json.loads\<close> makes of it.\<close>

datatype meta_text = No_metadata | Not_json | Metadata json

record chunk_row =
  row_path :: "string option"
  row_doc :: string
  row_meta :: meta_text

text \<open>\<open>py_str\<close> is \<open>str\<close> on the values that are no strings.\<close>

fun meta_str :: "(json \<Rightarrow> string) \<Rightarrow> json \<Rightarrow> string" where
  "meta_str py_str (JStr s) = s"
| "meta_str py_str v = py_str v"

fun parse_metadata :: "(json \<Rightarrow> string) \<Rightarrow> meta_text \<Rightarrow> (string, string) dict" where
  "parse_metadata py_str (Metadata (JObj kvs)) = map (\<lambda>(k, v). (k, meta_str py_str v)) kvs"
| "parse_metadata py_str _ = []"

definition not_disk_ingested_chunk_markers :: "(string, string) dict" where
  "not_disk_ingested_chunk_markers = [(''_inline'', ''true''), (''_imported'', ''true'')]"

definition is_not_disk_ingested :: "(json \<Rightarrow> string) \<Rightarrow> chunk_row \<Rightarrow> bool" where
  "is_not_disk_ingested py_str c \<longleftrightarrow>
     list_ex (\<lambda>(k, v). dict_get (parse_metadata py_str (row_meta c)) k = Some v) not_disk_ingested_chunk_markers"

section \<open>The scan\<close>

record source_path_doc_ids =
  disk_ingested :: "string set"
  not_disk_ingested :: "string set"

definition local_path :: "chunk_row \<Rightarrow> string" where
  "local_path c = (case row_path c of None \<Rightarrow> '''' | Some p \<Rightarrow> p)"

definition is_url :: "string \<Rightarrow> bool" where
  "is_url p \<longleftrightarrow> py_startswith p ''http://'' \<or> py_startswith p ''https://''"

definition scan_row :: "(json \<Rightarrow> string) \<Rightarrow> (string, source_path_doc_ids) dict \<Rightarrow> chunk_row \<Rightarrow> (string, source_path_doc_ids) dict" where
  "scan_row py_str d c =
     (let p = local_path c
      in if p = '''' \<or> is_url p then d
         else let ids = (case dict_get d p of None \<Rightarrow> \<lparr>disk_ingested = {}, not_disk_ingested = {}\<rparr> | Some e \<Rightarrow> e)
              in dict_set p
                   (if is_not_disk_ingested py_str c then ids\<lparr>not_disk_ingested := insert (row_doc c) (not_disk_ingested ids)\<rparr>
                    else ids\<lparr>disk_ingested := insert (row_doc c) (disk_ingested ids)\<rparr>) d)"

definition scan_source_paths :: "(json \<Rightarrow> string) \<Rightarrow> chunk_row list \<Rightarrow> (string, source_path_doc_ids) dict" where
  "scan_source_paths py_str cs = foldl (scan_row py_str) [] cs"

section \<open>The sweep\<close>

text \<open>
  What the world answers for a path: what other tasks make of the rows before it is its turn, whether the file exists, the document id
  derived from the path for the decision and again for the delete, and how the delete ends. \<open>None\<close> is an exception.
\<close>

datatype delete_outcome = Rows_deleted | Raised_without | Raised_with_rows_deleted

record path_world =
  w_others :: "chunk_row list \<Rightarrow> chunk_row list"
  w_exists :: "bool option"
  w_decide :: "string option"
  w_delete :: "string option"
  w_outcome :: delete_outcome

definition should_delete_orphan :: "string option \<Rightarrow> source_path_doc_ids \<Rightarrow> bool option" where
  "should_delete_orphan derived ids =
     (if not_disk_ingested ids = {} then Some True
      else if disk_ingested ids = {} then Some False
      else map_option (\<lambda>d. d \<in> disk_ingested ids \<and> d \<notin> not_disk_ingested ids) derived)"

definition delete_document_rows :: "string \<Rightarrow> chunk_row list \<Rightarrow> chunk_row list" where
  "delete_document_rows d cs = filter (\<lambda>c. row_doc c \<noteq> d) cs"

text \<open>\<open>delete_by_source_path\<close>: whether it returned, and the rows.\<close>

definition delete_by_source_path :: "path_world \<Rightarrow> chunk_row list \<Rightarrow> bool \<times> chunk_row list" where
  "delete_by_source_path w cs =
     (case w_delete w of
        None \<Rightarrow> (False, cs)
      | Some d \<Rightarrow>
          (case w_outcome w of
             Rows_deleted \<Rightarrow> (True, delete_document_rows d cs)
           | Raised_without \<Rightarrow> (False, cs)
           | Raised_with_rows_deleted \<Rightarrow> (False, delete_document_rows d cs)))"

definition sweep_path ::
    "(string, source_path_doc_ids) dict \<Rightarrow> (string \<Rightarrow> path_world) \<Rightarrow> chunk_row list \<times> int \<Rightarrow> string \<Rightarrow> chunk_row list \<times> int" where
  "sweep_path d world s sp =
     (let w = world sp; cs = w_others w (fst s)
      in if w_exists w = Some False \<and> Option.bind (dict_get d sp) (should_delete_orphan (w_decide w)) = Some True
         then (case delete_by_source_path w cs of (returned, cs') \<Rightarrow> (cs', if returned then snd s + 1 else snd s))
         else (cs, snd s))"

text \<open>The rows after the sweep, what the collection's health entry records, and whether the full-text index is optimised.\<close>

definition run_orphan_cleanup ::
    "bool \<Rightarrow> (json \<Rightarrow> string) \<Rightarrow> (string \<Rightarrow> path_world) \<Rightarrow> chunk_row list \<Rightarrow> chunk_row list \<times> int option \<times> bool" where
  "run_orphan_cleanup orphan_cleanup py_str world cs =
     (if \<not> orphan_cleanup then (cs, None, False)
      else let d = scan_source_paths py_str cs
           in case foldl (sweep_path d world) (cs, 0) (sort (dict_keys d)) of
                (cs', orphan_count) \<Rightarrow> (cs', Some orphan_count, 0 < orphan_count))"

end
