(* ===== verification/Orphan_Properties.thy ===== *)
theory Orphan_Properties
  imports Orphan_Sweep
begin

text \<open>What the orphan sweep removes, and that documents that never came from a file of this host stay.\<close>

section \<open>The scan\<close>

definition docs_at :: "(chunk_row \<Rightarrow> bool) \<Rightarrow> string \<Rightarrow> chunk_row list \<Rightarrow> string set" where
  "docs_at P p cs = row_doc ` {c \<in> set cs. local_path c = p \<and> P c}"

definition scanned :: "string \<Rightarrow> chunk_row list \<Rightarrow> bool" where
  "scanned p cs \<longleftrightarrow> p \<noteq> '''' \<and> \<not> is_url p \<and> (\<exists>c \<in> set cs. local_path c = p)"

lemma docs_at_Nil [simp]: "docs_at P p [] = {}"
  by (simp add: docs_at_def)

lemma docs_at_snoc [simp]: "docs_at P p (cs @ [c]) = (if local_path c = p \<and> P c then insert (row_doc c) (docs_at P p cs) else docs_at P p cs)"
  by (auto simp: docs_at_def)

lemma scanned_snoc [simp]: "scanned p (cs @ [c]) = (scanned p cs \<or> (local_path c = p \<and> p \<noteq> '''' \<and> \<not> is_url p))"
  by (auto simp: scanned_def)

lemma scanned_local: "scanned p cs \<Longrightarrow> p \<noteq> [] \<and> \<not> is_url p"
  by (simp add: scanned_def)

lemma not_scanned_docs: "\<not> scanned p cs \<Longrightarrow> p \<noteq> '''' \<Longrightarrow> \<not> is_url p \<Longrightarrow> docs_at P p cs = {}"
  by (auto simp: scanned_def docs_at_def)

lemma scan_get:
  "dict_get (scan_source_paths py_str cs) p =
     (if scanned p cs
      then Some \<lparr>disk_ingested = docs_at (\<lambda>c. \<not> is_not_disk_ingested py_str c) p cs, not_disk_ingested = docs_at (is_not_disk_ingested py_str) p cs\<rparr>
      else None)"
proof (induction cs rule: rev_induct)
  case Nil
  then show ?case by (simp add: scan_source_paths_def scanned_def dict_get_def)
next
  case (snoc c cs)
  have step: "scan_source_paths py_str (cs @ [c]) = scan_row py_str (scan_source_paths py_str cs) c"
    by (simp add: scan_source_paths_def)
  show ?case
    unfolding step scan_row_def Let_def using snoc.IH not_scanned_docs [of p cs] scanned_local [of p cs] by (auto simp: Let_def)
qed

lemma scan_keys: "set (dict_keys (scan_source_paths py_str cs)) = {p. scanned p cs}"
proof -
  have "p \<in> set (dict_keys d) \<longleftrightarrow> dict_get d p \<noteq> None" for p and d :: "(string, source_path_doc_ids) dict"
    by (auto simp: dict_keys_def dict_get_def map_of_eq_None_iff)
  then show ?thesis by (auto simp: scan_get split: if_splits)
qed

section \<open>What is removed\<close>

text \<open>
  A document is swept when some path of the collection whose file is gone has rows from a file, yields the document's id, its delete takes
  the rows, and the rule allows it: no row of the path is marked, or the document has rows from a file there and no marked one.
\<close>

definition swept :: "(json \<Rightarrow> string) \<Rightarrow> (string \<Rightarrow> path_world) \<Rightarrow> chunk_row list \<Rightarrow> string \<Rightarrow> bool" where
  "swept py_str world cs d \<longleftrightarrow>
     (\<exists>p. scanned p cs \<and> w_exists (world p) = Some False \<and> w_delete (world p) = Some d \<and> w_outcome (world p) \<noteq> Raised_without \<and>
        (docs_at (is_not_disk_ingested py_str) p cs = {} \<or>
         d \<in> docs_at (\<lambda>c. \<not> is_not_disk_ingested py_str c) p cs \<and> d \<notin> docs_at (is_not_disk_ingested py_str) p cs))"

definition undisturbed :: "(string \<Rightarrow> path_world) \<Rightarrow> bool" where
  "undisturbed world \<longleftrightarrow> (\<forall>p. w_others (world p) = (\<lambda>cs. cs) \<and> w_decide (world p) = w_delete (world p))"

definition path_deletes :: "(string, source_path_doc_ids) dict \<Rightarrow> (string \<Rightarrow> path_world) \<Rightarrow> string \<Rightarrow> string \<Rightarrow> bool" where
  "path_deletes d world p doc \<longleftrightarrow>
     w_exists (world p) = Some False \<and> Option.bind (dict_get d p) (should_delete_orphan (w_decide (world p))) = Some True \<and>
     w_delete (world p) = Some doc \<and> w_outcome (world p) \<noteq> Raised_without"

lemma sweep_path_rows:
  assumes "undisturbed world"
  shows "fst (sweep_path d world s p) = filter (\<lambda>c. \<not> path_deletes d world p (row_doc c)) (fst s)"
proof (cases "w_exists (world p) = Some False \<and> Option.bind (dict_get d p) (should_delete_orphan (w_decide (world p))) = Some True")
  case True
  have others: "w_others (world p) = (\<lambda>cs. cs)" using assms by (simp add: undisturbed_def)
  have "path_deletes d world p doc \<longleftrightarrow> w_delete (world p) = Some doc \<and> w_outcome (world p) \<noteq> Raised_without" for doc
    using True by (simp add: path_deletes_def)
  moreover have "fst (sweep_path d world s p) = snd (delete_by_source_path (world p) (fst s))"
    using True by (simp add: sweep_path_def Let_def others split: prod.splits)
  ultimately show ?thesis
    by (auto simp: delete_by_source_path_def delete_document_rows_def split: option.splits delete_outcome.splits intro!: filter_cong)
next
  case False
  have "w_others (world p) = (\<lambda>cs. cs)" using assms by (simp add: undisturbed_def)
  moreover have "\<not> path_deletes d world p doc" for doc using False unfolding path_deletes_def by blast
  ultimately show ?thesis unfolding sweep_path_def Let_def if_not_P [OF False] by simp
qed

lemma sweep_rows:
  assumes "undisturbed world"
  shows "fst (foldl (sweep_path d world) s ps) = filter (\<lambda>c. \<not> (\<exists>p \<in> set ps. path_deletes d world p (row_doc c))) (fst s)"
proof (induction ps arbitrary: s)
  case (Cons p ps)
  then show ?case by (auto simp: sweep_path_rows [OF assms] intro!: filter_cong)
qed simp

lemma path_deletes_scan:
  assumes "undisturbed world" "scanned p cs"
  shows "path_deletes (scan_source_paths py_str cs) world p doc \<longleftrightarrow>
    w_exists (world p) = Some False \<and> w_delete (world p) = Some doc \<and> w_outcome (world p) \<noteq> Raised_without \<and>
    (docs_at (is_not_disk_ingested py_str) p cs = {} \<or>
     doc \<in> docs_at (\<lambda>c. \<not> is_not_disk_ingested py_str c) p cs \<and> doc \<notin> docs_at (is_not_disk_ingested py_str) p cs)"
proof -
  have "w_decide (world p) = w_delete (world p)" using assms(1) by (simp add: undisturbed_def)
  then show ?thesis using assms(2) by (auto simp: path_deletes_def scan_get should_delete_orphan_def)
qed

lemma cleanup_rows:
  assumes "run_orphan_cleanup True py_str world cs = (cs', removed, opt)" "undisturbed world"
  shows "cs' = filter (\<lambda>c. \<not> swept py_str world cs (row_doc c)) cs"
proof -
  let ?d = "scan_source_paths py_str cs"
  have "cs' = fst (foldl (sweep_path ?d world) (cs, 0) (sort (dict_keys ?d)))"
    using assms(1) by (simp add: run_orphan_cleanup_def Let_def split: prod.splits)
  also have "\<dots> = filter (\<lambda>c. \<not> (\<exists>p \<in> {p. scanned p cs}. path_deletes ?d world p (row_doc c))) cs"
    unfolding sweep_rows [OF assms(2)] by (simp add: scan_keys)
  also have "\<dots> = filter (\<lambda>c. \<not> swept py_str world cs (row_doc c)) cs"
    by (intro filter_cong refl) (auto simp: swept_def path_deletes_scan [OF assms(2)])
  finally show ?thesis .
qed

section \<open>Marked documents\<close>

definition marked_row :: "chunk_row \<Rightarrow> bool" where
  "marked_row c \<longleftrightarrow>
     (\<exists>kvs. row_meta c = Metadata (JObj kvs) \<and>
        (dict_get kvs ''_inline'' = Some (JStr ''true'') \<or> dict_get kvs ''_imported'' = Some (JStr ''true'')))"

lemma dict_get_parsed:
  "dict_get (parse_metadata py_str (Metadata (JObj kvs))) k = map_option (meta_str py_str) (dict_get kvs k)"
  by (induction kvs) (auto simp: dict_get_def)

lemma marked_row_seen: "marked_row c \<Longrightarrow> is_not_disk_ingested py_str c"
  by (auto simp: marked_row_def is_not_disk_ingested_def not_disk_ingested_chunk_markers_def dict_get_parsed simp del: parse_metadata.simps)

lemma swept_elsewhere:
  assumes "swept py_str world cs (row_doc c)" "c \<in> set cs" "marked_row c"
  shows "\<exists>p. scanned p cs \<and> p \<noteq> local_path c \<and> w_delete (world p) = Some (row_doc c)"
proof -
  obtain p where p: "scanned p cs" "w_delete (world p) = Some (row_doc c)" "row_doc c \<notin> docs_at (is_not_disk_ingested py_str) p cs"
    using assms(1) by (auto simp: swept_def)
  have "row_doc c \<in> docs_at (is_not_disk_ingested py_str) (local_path c) cs"
    using assms(2,3) marked_row_seen by (auto simp: docs_at_def)
  then show ?thesis using p by auto
qed

text \<open>
  C17: The orphan sweep removes exactly the rows of orphaned documents, and no row of a document that never came from a file here. Assume that
  nobody writes rows while it runs, that a path resolves at the delete as it did at the decision, and that no path but its own yields the id of a
  document with an inline or imported row. Then the rows after the sweep are those before it less the documents that some path with
  a missing file yields whose delete takes the rows, where no row of the path is marked or the document has rows from a file there and
  no marked one; and every row marked as inline or imported is kept. With the sweep off nothing changes.
\<close>

theorem sweep_removes_exactly_orphans:
  assumes "run_orphan_cleanup on py_str world cs = (cs', removed, opt)" "undisturbed world"
    and "\<forall>c \<in> set cs. \<forall>p. marked_row c \<and> scanned p cs \<and> p \<noteq> local_path c \<longrightarrow> w_delete (world p) \<noteq> Some (row_doc c)"
  shows "cs' = filter (\<lambda>c. \<not> (on \<and> swept py_str world cs (row_doc c))) cs \<and> (\<forall>c \<in> set cs. marked_row c \<longrightarrow> c \<in> set cs')"
proof (cases on)
  case True
  have "cs' = filter (\<lambda>c. \<not> swept py_str world cs (row_doc c)) cs"
    using cleanup_rows assms(1,2) True by simp
  moreover have "\<not> swept py_str world cs (row_doc c)" if "c \<in> set cs" "marked_row c" for c
    using swept_elsewhere assms(3) that by blast
  ultimately show ?thesis using True by simp
next
  case False
  then show ?thesis using assms(1) by (simp add: run_orphan_cleanup_def)
qed

section \<open>Runs\<close>

definition disk_row :: "string \<Rightarrow> string \<Rightarrow> chunk_row" where
  "disk_row p d = \<lparr>row_path = Some p, row_doc = d, row_meta = No_metadata\<rparr>"

definition inline_row :: "string \<Rightarrow> string \<Rightarrow> chunk_row" where
  "inline_row p d = \<lparr>row_path = Some p, row_doc = d, row_meta = Metadata (JObj [(''_inline'', JStr ''true'')])\<rparr>"

definition gone :: "string \<Rightarrow> path_world" where
  "gone d = \<lparr>w_others = (\<lambda>cs. cs), w_exists = Some False, w_decide = Some d, w_delete = Some d, w_outcome = Rows_deleted\<rparr>"

theorem sweep_removes_exactly_orphans_witness:
  "fst (run_orphan_cleanup True (\<lambda>_. '''') gone [disk_row ''a'' ''a'', inline_row ''b'' ''b'']) = [inline_row ''b'' ''b''] \<and>
   inline_row ''b'' ''b'' \<in> set (fst (run_orphan_cleanup True (\<lambda>_. '''') gone [disk_row ''a'' ''a'', inline_row ''b'' ''b'']))"
proof -
  let ?cs = "[disk_row ''a'' ''a'', inline_row ''b'' ''b'']"
  obtain cs' removed opt where r: "run_orphan_cleanup True (\<lambda>_. '''') gone ?cs = (cs', removed, opt)" by (metis surj_pair)
  have u: "undisturbed gone" by (simp add: undisturbed_def gone_def)
  have own: "\<forall>c \<in> set ?cs. \<forall>p. marked_row c \<and> scanned p ?cs \<and> p \<noteq> local_path c \<longrightarrow> w_delete (gone p) \<noteq> Some (row_doc c)"
    by (auto simp: local_path_def inline_row_def disk_row_def gone_def)
  have m: "marked_row (inline_row ''b'' ''b'')" by (simp add: marked_row_def inline_row_def dict_get_def)
  then have "inline_row ''b'' ''b'' \<in> set cs'" using sweep_removes_exactly_orphans [OF r u own] by auto
  moreover have "fst (run_orphan_cleanup True (\<lambda>_. '''') gone ?cs) = [inline_row ''b'' ''b'']" by code_simp
  ultimately show ?thesis by (simp add: r)
qed

text \<open>
  Why the last assumption is needed: the rule looks at the marked rows of the path itself only. A path without marked rows whose missing file
  resolves to the document of a marked row under another path deletes that document.
\<close>

lemma marked_document_swept_by_other_path:
  "fst (run_orphan_cleanup True (\<lambda>_. '''') (\<lambda>p. gone ''x'') [disk_row ''a/l'' ''y'', inline_row ''b'' ''x'']) = [disk_row ''a/l'' ''y'']"
  by code_simp

text \<open>
  The sweep decides by the rows of its scan. A document sent inline for an orphaned path after the scan, before the path's turn, is deleted.
\<close>

lemma inline_document_swept_after_scan:
  "fst (run_orphan_cleanup True (\<lambda>_. '''') (\<lambda>p. (gone ''a'')\<lparr>w_others := (\<lambda>_. [inline_row ''a'' ''a''])\<rparr>) [disk_row ''a'' ''a'']) = []"
  by code_simp

end
