(* ===== verification/Spec2Isabelle.thy ===== *)
theory Spec2Isabelle
  imports Job_Properties Auth_Properties Acl_Properties Filter_Properties Batch_Properties Cache_Properties
    Discovery_Properties Description_Properties Durable_Properties Private_Files Backup_Properties Sync_Witnesses
    Collection_Config Retry_Progress Single_Flight Warmup_Admission Body_Limit_Properties Crash_Guard_Properties
    Orphan_Properties
begin

text \<open>
  \<^bold>\<open>archon-search: a verification development\<close>

  archon-search is a retrieval server. Clients hold API keys; a middleware turns a key into an identity (a
  namespace and an admin flag); the routes create jobs that ingest documents into collections; a scheduler
  promotes queued jobs; searches run over the stored chunks, filtered by a SQL predicate and by each chunk's
  access list; embedding models are loaded on demand into a cache. This development models the parts that
  carry the program's own logic and state, and proves what makes each of them correct.

  \<^bold>\<open>How the parts interact\<close>

  \<^item> A request passes \<open>middleware_auth\<close>, which asks \<open>key_manager\<close> (managed keys in \<open>keys.json\<close>, the
    configuration's namespaces, the default key) or checks a view token. The identity it yields is what
    \<open>services/authz\<close> and the key routes decide on.
  \<^item> A path in a request passes \<open>_path_safety\<close> before anything is read. A job is then created in
    \<open>jobs/store\<close>, which keeps every job in memory and rewrites \<open>jobs.json\<close> after each change; \<open>jobs/scheduler\<close>
    claims queued jobs with the store's compare-and-set \<open>transition\<close>. After a crash the store reloads the
    file and settles what was running.
  \<^item> While a document is ingested \<open>acl\<close> resolves who may see it; a search filters its hits with the same
    rule, and \<open>filters\<close> and \<open>store_filters\<close> compile the query's restrictions. Texts are embedded in batches
    planned by \<open>text_batching\<close> with a model from \<open>embedder_cache\<close>.
  \<^item> \<open>sync\<close> compares the configured directories with what \<open>progress\<close> remembers of each collection, ingests what is new or
    changed, deletes what is gone and drops collections that are no longer configured. After an ingest the
    \<open>collection_description\<close> service generates a text for the collection and saves it with the guarded write of
    \<open>store.write_description\<close>; a client may set or clear the text at any time.
  \<^item> Every task that creates, writes or drops a collection meets the others at the collection's lock
    (\<open>store.lock_for\<close>), in the job store (\<open>find_active_collection_job\<close>) and in the table of registered writers
    (\<open>store.collection_writer\<close>).
  \<^item> Files that must survive a crash are written by \<open>_durable_io\<close>; the backup loop of \<open>jobs/backup_loop\<close> creates
    export jobs on a schedule and records their completion in such a file.
  \<^item> The maintenance loop of \<open>jobs/maintenance_loop\<close> retries failed ingests through the job store and starts recomputations of
    graph data, and sweeps documents whose file is gone. \<open>server/_ingest_admission\<close> caps the ingests that run, \<open>warmup_coordinator\<close>
    lets all callers of a cold model wait for one build of it, \<open>server/middleware_body_limit\<close> caps what a request may send.
  \<^item> At its start the server (\<open>server/app\<close>) syncs the configured collections unless the last process died in an ingest: the job
    store's recovery tells, and \<open>sync_suppression\<close> remembers it in a file until a manual sync is clean.

  \<^bold>\<open>The theories\<close>

  \<^item> \<open>Prelude\<close>, \<open>Py_Strings\<close>: JSON values, Python's insertion ordered dictionaries with their contract (locale
    \<open>py_dict\<close>, interpreted on the association lists used everywhere), invariants of step relations (locale
    \<open>machine_invariant\<close>), loops that stop at the first exception (locale \<open>loop_contract\<close>), and the methods of
    \<open>str\<close> the code calls.
  \<^item> \<open>Job_Types\<close> (\<open>jobs/model.py\<close>, \<open>types.py\<close>, \<open>constants.py\<close>), \<open>Job_Store\<close> (\<open>jobs/store.py\<close>: rows, loading with
    recovery and eviction, the atomic write, \<open>create_job\<close>, \<open>update\<close>, \<open>transition\<close>, queries, cancelling retries),
    \<open>Job_Store_Facts\<close>, \<open>Job_Recovery\<close> (what a load of the store's own file gives), \<open>Job_Machine\<close> (any
    sequence of operations, each write failing or not, and crashes), \<open>Job_Scheduler\<close> (\<open>jobs/scheduler.py\<close>: one
    tick), \<open>Job_Properties\<close>.
  \<^item> \<open>Key_Store\<close> (\<open>key_manager.py\<close>: the key file, its cached view, create, revoke, rotate), \<open>Key_Facts\<close> (the
    machine of writes by this process and by others, and the cache invariant), \<open>Key_Auth\<close> (\<open>authenticate_token\<close>,
    \<open>services/authz.py\<close>, \<open>server/graph_view_token.py\<close>, \<open>server/middleware_auth.py\<close>, \<open>server/routes_keys.py\<close>),
    \<open>Key_Auth_Facts\<close> (the abstract rule \<open>auth_spec\<close> and its refinement), \<open>Key_Properties\<close>, \<open>Auth_Properties\<close>.
  \<^item> \<open>Path_Safety\<close>, \<open>Path_Properties\<close> (\<open>_path_safety.py\<close>); \<open>Discovery\<close>,
    \<open>Discovery_Properties\<close> (\<open>_discover_ingest_files\<close> of \<open>pipeline.py\<close>); \<open>Acl\<close>, \<open>Acl_Properties\<close> (\<open>acl.py\<close>);
    \<open>Store_Filters\<close>, \<open>Filter_Properties\<close> (\<open>filters.py\<close>, \<open>store_filters.py\<close>, \<open>_types.normalize_iso_utc\<close>);
    \<open>Text_Batching\<close>, \<open>Batch_Properties\<close> (\<open>text_batching.py\<close>); \<open>Embedder_Cache\<close>, \<open>Cache_Properties\<close>
    (\<open>embedder_cache.py\<close>).
  \<^item> \<open>Durable_IO\<close> (\<open>_durable_io.py\<close> over a directory whose entries and contents reach the disk separately),
    \<open>Durable_Facts\<close>, \<open>Durable_Properties\<close>, \<open>Private_Files\<close> (private directories, restricting a tree);
    \<open>Backup_Loop\<close>, \<open>Backup_Properties\<close> (\<open>jobs/backup_loop.py\<close>, the trigger route and its scheduling).
  \<^item> \<open>Names\<close> (collection names and namespaces); \<open>Collection_Meta\<close> (the metadata row and its codec),
    \<open>Description_Write\<close> (the guarded write), \<open>Description_Lifecycle\<close> (the service: admission, the one slot, the queue,
    memories of failures), \<open>Lifecycle_Facts\<close>, \<open>Lifecycle_Progress\<close>, \<open>Description_Facts\<close>, \<open>Description_Text\<close>,
    \<open>Description_Properties\<close>.
  \<^item> \<open>Progress\<close> (\<open>progress.py\<close>), \<open>Sync_Names\<close> (names of configured paths), \<open>Sync_Changes\<close> (detecting and applying changes,
    the resumable ingest), \<open>Sync_Run\<close> (a whole sync), with \<open>Sync_Name_Facts\<close>, \<open>Sync_Facts\<close>, \<open>Sync_Run_Facts\<close>, \<open>Sync_Resume\<close>;
    \<open>Sync_Update_Properties\<close>, \<open>Sync_Resume_Properties\<close>, \<open>Sync_Properties\<close>, \<open>Sync_Witnesses\<close>.
  \<^item> \<open>Async_Lock\<close> (\<open>asyncio.Lock\<close> with its futures and the lock table of \<open>store.py\<close>), \<open>Lock_Properties\<close>; \<open>Collection_Tasks\<close> and
    \<open>Collection_Jobs\<close> (the requests and background tasks of \<open>server/routes_collections.py\<close>, \<open>server/routes_jobs.py\<close>,
    \<open>server/_collection_job.py\<close>, \<open>server/routes_export.py\<close> and \<open>sync.py\<close> that use it), \<open>Collection_Machine\<close> (all of them
    together), \<open>Collection_Facts\<close>, \<open>Collection_Invariant\<close>, \<open>Collection_Steps\<close> (each step keeps the invariant),
    \<open>Collection_Properties\<close>, \<open>Collection_Runs\<close> (runs that show where the code does less than it says), \<open>Collection_Config\<close>.
  \<^item> \<open>Retry_Loop\<close> (the failed-ingest retry of \<open>jobs/maintenance_loop.py\<close>), \<open>Retry_Facts\<close>, \<open>Retry_Properties\<close>, \<open>Retry_Progress\<close>;
    \<open>Single_Flight\<close> (its debounced recomputations and rebuilds, the trigger and \<open>server/routes_maintenance.py\<close>);
    \<open>Warmup_Admission\<close> (\<open>warmup_coordinator.py\<close>, \<open>server/_ingest_admission.py\<close>); \<open>Orphan_Sweep\<close>, \<open>Orphan_Properties\<close> (the sweep).
  \<^item> \<open>Crash_Guard\<close> (the startup sync of \<open>server/app.py\<close>, \<open>sync_suppression.py\<close>, the ends of \<open>server/routes_sync.py\<close>, the cancel route of
    \<open>server/routes_jobs.py\<close>, and a server across its restarts), \<open>Crash_Guard_Facts\<close>, \<open>Crash_Guard_Properties\<close>;
    \<open>Body_Limit\<close>, \<open>Body_Limit_Properties\<close> (\<open>server/middleware_body_limit.py\<close>).

  A Python class is a record, an enum a datatype, a method a function from the state to a result and the new
  state; an exception is \<open>Inl\<close> of an error value, so each raise and early return is a branch. Coroutines are cut
  at their \<open>await\<close> points: a stretch between two of them is one function, and a step relation interleaves them.

  \<^bold>\<open>What is a parameter\<close>

  \<^item> Writing a file: every write takes an argument that says whether it succeeds, fails before or after the
    replacement, or is interrupted. Theorems hold for every such argument unless they name one.
  \<^item> \<open>datetime.fromisoformat\<close> and the clock (\<open>fromiso\<close>, \<open>now\<close>), HMAC, base64 and SHA-256 (\<open>sign\<close>, \<open>hash\<close>), and
    the Pydantic codec of key records (\<open>validate\<close>, \<open>dump\<close>) with the hypothesis \<open>codec_ok\<close>: what was
    dumped validates to the same record. The witnesses instantiate them with concrete functions.
  \<^item> The file system of the path checks (record \<open>file_system\<close>), of the walk (\<open>walk_env\<close> with the
    one-component matcher of \<open>fnmatch\<close>, \<open>dir_tree\<close>) and of the sidecar (\<open>sidecar_state\<close>); running a
    batch of a model; building an embedder, which may fail or be cancelled at any point.
  \<^item> Power loss: each system call of the durable writes may fail, and between any two of them the machine may
    stop and keep any part of what was not yet forced to the disk.
  \<^item> What a language model, an embedder, LanceDB and the pipeline's ingest of a file answer; the order in which a set
    is iterated; SHA-1 of a path; when a lock wait times out and when a task is cancelled; when the event loop runs the
    done-callback of a task; whether a retry job can be started; the application behind the body cap and the parts a client sends; what
    a path resolves to and whether its file exists.

  \<^bold>\<open>What is shown\<close>

  \<^item> Jobs: claims are compare-and-set with rollback, creation and bulk cancellation are all or nothing, the
    persisted file can always be loaded and equals memory after a successful write, a restart gives exactly the
    recovered jobs, a job killed while running is never running again, a scheduler tick never exceeds its
    capacity, keeps the queue's order and makes progress.
  \<^item> Keys: the cached view is the file's content in every reachable state, token checking refines the abstract
    rule, revocation and rotation take effect, a failed rotation leaves a working key, a non-admin caller can
    never touch keys of others, the middleware forwards only authenticated requests.
  \<^item> Paths and access: an accepted client path is confined to the allowed roots by file identity and is no
    secret; checks on a path not yet in scope depend on no file content; a directory ingest returns exactly the
    indexable files below its root, none of them denied; access lists fail closed and admit only
    declared names; derived data is visible exactly as search shows it.
  \<^item> Search: no user text can leave its SQL literal, a prefix filter means prefix, stamps sort as text in time
    order; batches respect their bounds and results come back in input order; the cache has one loader per
    model, no stranded waiter, and is a bounded LRU that keeps its pinned entries.
  \<^item> Descriptions: the guarded write is a compare-and-set on the description state, a text set by a client is never
    replaced by a generated one, one generation runs at a time, every accepted one can settle and all take finitely
    many steps; rows round-trip and keep their contract.
  \<^item> Files: after a power loss at any point a durably written file holds its old or its new content, and a confirmed
    write is kept; the job store's write refines it. Backups: one per collection in flight.
  \<^item> Sync: an update makes the stored documents match the files, an interrupted first ingest is resumed until every
    file was processed, only idle collections it manages are dropped and it keeps managing what it could not drop.
    An interrupted update can lose a change, which is proved as such.
  \<^item> Collections: one holder per collection lock although entries are discarded, first come first served, no
    lost wake-up; in every interleaving a delete or a sync's drop keeps writers out from its check to its last write, and no
    table goes under a claimed ingest, a reindex or a rebuild; a failed delete restores the configuration.
  \<^item> Maintenance: a retry pass changes nothing but what the retry rule allows, one retry per file, and when nothing goes wrong moves a failed file on; a deferred recomputation is not lost
    and a task is started after every request. One recomputation runs at a time only if callbacks run
    promptly, and the runs that break this are given. The sweep removes exactly the orphaned documents and spares marked ones.
  \<^item> Start of work: one build of a model is in flight, and only threads of builds that were cancelled or outran their ceiling run beside it; the admission counter equals the ingests in progress and respects its cap; a
    body over the cap is refused whatever the application does; a startup sync that killed its process is not entered again until an
    operator's sync is clean, and the run in which the mark is lost is given.

  \<^bold>\<open>Bounds and termination\<close>

  All functions are total and no fuel is used. Most loops run over a finite list; the others have a termination proof with a
  measure: passing the generation slot on (\<open>pass_on\<close>), climbing missing parent directories (\<open>missing_dirs\<close>, \<open>tighten_up\<close>),
  collapsing runs of characters (\<open>sub_runs\<close>) and renaming colliding collections (\<open>collision_loop\<close>).
  Sizes that the code fixes are kept as definitions (seven days of retention, 64 KB of sidecar, 256 characters of
  glob, 4096 padded tokens, 128 probed bytes). Python integers are \<open>int\<close>; times are microseconds. Strings
  are Latin-1.

  \<^bold>\<open>What is not modelled\<close>

  LanceDB and everything that is a call into it (the chunk and graph stores, the maintenance policies on them), the neural models,
  parsing and chunking libraries, language-model clients, HTTP and MCP plumbing, the command line, the installer
  and logging: their behaviour is that of code outside this repository, so a model of them would be made up.
  Floating-point ranking (fusion, centroids, PageRank) is left out. In the modelled parts: the routes are modelled as
  they run in a server that finished its start, with a search store and a job store; the metadata row's pointers to jobs are an
  argument of the routes that read them; a state file of the backup loop that is not UTF-8 is not among the cases of its
  load. A load of the job store uses one clock reading for all rows, and its file can be read when it is there; the resolution of a
  client's path does not fail; an \<open>expires_at\<close> of a key has a time zone; a \<open>BaseException\<close> out of the scheduler's dispatch, which
  ends its tick, is left out. The table of writers of \<open>Collection_Machine\<close> holds those the code registers: an import or a migration
  is known to others by its job. The cap of the ingest slots is a constant of a run, as the configuration is set once at the start of the application.
\<close>

end
